(* ===== verification/Prelude.thy ===== *)
theory Prelude
  imports Main "HOL-Library.Char_ord" "HOL-Library.List_Lexorder" "HOL-Library.Word"
begin

text \<open>
  Shared vocabulary of the development: the result type of fallible Go functions, the
  theorem collections the component theories extend, and generic lemmas on lists,
  maps and byte strings.  A Go \<open>string\<close> is a sequence of bytes, so it is modelled by
  \<^typ>\<open>string\<close> (a list of 8-bit characters); Go's \<open><\<close> on strings is the bytewise
  lexicographic order, which is the order that \<open>List_Lexorder\<close> and \<open>Char_ord\<close> give.
\<close>

section \<open>Collections of facts\<close>

named_theorems go_string \<open>equations of the string functions of Go's standard library\<close>
named_theorems frame \<open>what an operation leaves unchanged\<close>
named_theorems preserved \<open>invariants and the operations that keep them\<close>

section \<open>Fallible functions\<close>

text \<open>
  A Go function that returns \<open>(T, error)\<close> returns \<open>Inl e\<close> for a non-nil error and
  \<open>Inr v\<close> for a value.  \<open>bind_res\<close> is the idiom \<open>if err != nil { return err }\<close>.
\<close>

definition bind_res :: "'err + 'v \<Rightarrow> ('v \<Rightarrow> 'err + 'w) \<Rightarrow> 'err + 'w" where
  "bind_res r f = (case r of Inl e \<Rightarrow> Inl e | Inr v \<Rightarrow> f v)"

lemma bind_res_simps [simp]:
  "bind_res (Inl e) f = Inl e"
  "bind_res (Inr v) f = f v"
  by (simp_all add: bind_res_def)

lemma bind_res_eq_Inr [simp]:
  "bind_res r f = Inr y \<longleftrightarrow> (\<exists>v. r = Inr v \<and> f v = Inr y)"
  by (cases r) auto

lemma bind_res_eq_Inl:
  "bind_res r f = Inl e \<longleftrightarrow> r = Inl e \<or> (\<exists>v. r = Inr v \<and> f v = Inl e)"
  by (cases r) auto

fun is_ok :: "'e + 'a \<Rightarrow> bool" where
  "is_ok (Inl e) = False"
| "is_ok (Inr v) = True"

lemma is_ok_iff: "is_ok r \<longleftrightarrow> (\<exists>v. r = Inr v)"
  by (cases r) auto

section \<open>Lists\<close>

lemma filter_eq_NilI [intro]: "(\<And>x. x \<in> set xs \<Longrightarrow> \<not> P x) \<Longrightarrow> filter P xs = []"
  by (induction xs) auto

lemma sum_list_map_remove1:
  fixes f :: "'a \<Rightarrow> int"
  assumes "x \<in> set xs"
  shows "sum_list (map f (remove1 x xs)) = sum_list (map f xs) - f x"
  using assms by (induction xs) auto

lemma sum_list_map_update:
  fixes f :: "'a \<Rightarrow> int"
  assumes "distinct xs" "x \<in> set xs"
  shows "sum_list (map (f(x := v)) xs) = sum_list (map f xs) - f x + v"
  using assms
proof (induction xs)
  case Nil
  then show ?case by simp
next
  case (Cons a xs)
  show ?case
  proof (cases "a = x")
    case True
    with Cons.prems have "map (f(x := v)) xs = map f xs" by auto
    then have "sum_list (map (f(x := v)) xs) = sum_list (map f xs)" by (rule arg_cong)
    with True show ?thesis by (simp del: fun_upd_apply) simp
  next
    case False
    with Cons show ?thesis by simp
  qed
qed

lemma sum_list_nonneg_member:
  fixes f :: "'a \<Rightarrow> int"
  assumes "\<And>y. y \<in> set xs \<Longrightarrow> 0 \<le> f y" "x \<in> set xs"
  shows "f x \<le> sum_list (map f xs)"
  using assms
proof (induction xs)
  case Nil
  then show ?case by simp
next
  case (Cons a xs)
  have "0 \<le> sum_list (map f xs)"
    by (rule sum_list_nonneg) (use Cons.prems in auto)
  with Cons show ?case by fastforce
qed

lemma sorted_map_distinct_strict:
  assumes "sorted (map f xs)" "distinct (map f xs)"
  shows "sorted_wrt (\<lambda>x y. f x < (f y :: 'b::linorder)) xs"
  using assms by (induction xs) (auto simp: less_le)

lemma sorted_distinct_set_unique_map:
  fixes f :: "'a \<Rightarrow> 'b::linorder"
  assumes "sorted (map f xs)" "distinct (map f xs)" "sorted (map f ys)" "distinct (map f ys)"
    and "set xs = set ys"
  shows "xs = ys"
proof -
  have inj: "inj_on f (set xs)" using assms(2) by (simp add: distinct_map)
  have "map f xs = map f ys"
    by (rule sorted_distinct_set_unique) (use assms in \<open>auto simp: image_def\<close>)
  then show ?thesis
    using inj assms(5) by (metis inj_on_map_eq_map sup.idem)
qed

lemma list_all2_nthI:
  "length xs = length ys \<Longrightarrow> (\<And>i. i < length xs \<Longrightarrow> P (xs ! i) (ys ! i)) \<Longrightarrow> list_all2 P xs ys"
  by (simp add: list_all2_conv_all_nth)

section \<open>Separated byte strings\<close>

text \<open>
  Several canonical byte strings of the program are fields joined by a separator byte.
  The two lemmas below are the unique-readability steps their injectivity proofs share.
\<close>

lemma sep_append_eq:
  assumes "c \<notin> set xs" "c \<notin> set ys" "xs @ c # us = ys @ c # vs"
  shows "xs = ys \<and> us = vs"
  using assms
proof (induction xs arbitrary: ys)
  case Nil
  then show ?case by (cases ys) auto
next
  case (Cons x xs)
  then obtain y ys' where "ys = y # ys'" by (cases ys) auto
  with Cons show ?case by auto
qed

lemma sep_append_iff:
  "c \<notin> set xs \<Longrightarrow> c \<notin> set ys \<Longrightarrow> xs @ c # us = ys @ c # vs \<longleftrightarrow> xs = ys \<and> us = vs"
  by (auto dest: sep_append_eq)

lemma fixed_append_iff:
  "length xs = length ys \<Longrightarrow> xs @ us = ys @ vs \<longleftrightarrow> xs = ys \<and> us = vs"
  by simp

end
