(* ===== verification/Tables.thy ===== *)
theory Tables
  imports Prelude
begin

text \<open>
  SQL tables as lists of rows, with the statement shapes the store uses: \<open>UPDATE \<dots> WHERE\<close>
  with its count of affected rows, \<open>DELETE \<dots> WHERE\<close>, \<open>INSERT\<close> under a primary key,
  \<open>INSERT \<dots> ON CONFLICT DO UPDATE\<close>, \<open>SELECT \<dots> WHERE id=?\<close> and \<open>ORDER BY \<dots> LIMIT\<close>.
  The store runs on one connection, so a statement is one atomic step.
\<close>

definition sql_update :: "('r \<Rightarrow> bool) \<Rightarrow> ('r \<Rightarrow> 'r) \<Rightarrow> 'r list \<Rightarrow> 'r list" where
  "sql_update p f rows = map (\<lambda>r. if p r then f r else r) rows"

definition rows_affected :: "('r \<Rightarrow> bool) \<Rightarrow> 'r list \<Rightarrow> nat" where
  "rows_affected p rows = length (filter p rows)"

definition sql_delete :: "('r \<Rightarrow> bool) \<Rightarrow> 'r list \<Rightarrow> 'r list" where
  "sql_delete p rows = filter (\<lambda>r. \<not> p r) rows"

definition sql_get :: "('r \<Rightarrow> 'k) \<Rightarrow> 'k \<Rightarrow> 'r list \<Rightarrow> 'r option" where
  "sql_get key k rows = find (\<lambda>r. key r = k) rows"

text \<open>\<open>INSERT\<close>: \<open>None\<close> is the primary-key violation.\<close>

definition sql_insert :: "('r \<Rightarrow> 'k) \<Rightarrow> 'r \<Rightarrow> 'r list \<Rightarrow> 'r list option" where
  "sql_insert key r rows = (if key r \<in> key ` set rows then None else Some (rows @ [r]))"

definition sql_upsert :: "('r \<Rightarrow> 'k) \<Rightarrow> ('r \<Rightarrow> 'r) \<Rightarrow> 'r \<Rightarrow> 'r list \<Rightarrow> 'r list" where
  "sql_upsert key upd r rows =
     (if key r \<in> key ` set rows then sql_update (\<lambda>x. key x = key r) upd rows else rows @ [r])"

definition keyed :: "('r \<Rightarrow> 'k) \<Rightarrow> 'r list \<Rightarrow> bool" where
  "keyed key rows \<longleftrightarrow> distinct (map key rows)"

section \<open>Laws\<close>

lemma length_sql_update [simp]: "length (sql_update p f rows) = length rows"
  by (simp add: sql_update_def)

lemma set_sql_update: "set (sql_update p f rows) = (\<lambda>r. if p r then f r else r) ` set rows"
  by (simp add: sql_update_def)

lemma sql_update_none: "rows_affected p rows = 0 \<Longrightarrow> sql_update p f rows = rows"
  by (auto simp: sql_update_def rows_affected_def filter_empty_conv map_idI)

lemma map_key_sql_update:
  "(\<And>r. p r \<Longrightarrow> key (f r) = key r) \<Longrightarrow> map key (sql_update p f rows) = map key rows"
  by (auto simp: sql_update_def)

lemma image_sql_update:
  "(\<And>r. p r \<Longrightarrow> key (f r) = key r) \<Longrightarrow> key ` set (sql_update p f rows) = key ` set rows"
  by (metis list.set_map map_key_sql_update)

lemma keyed_sql_update [preserved]:
  "keyed key rows \<Longrightarrow> (\<And>r. p r \<Longrightarrow> key (f r) = key r) \<Longrightarrow> keyed key (sql_update p f rows)"
  by (simp add: keyed_def map_key_sql_update)

lemma keyed_sql_delete [preserved]: "keyed key rows \<Longrightarrow> keyed key (sql_delete p rows)"
  by (simp add: keyed_def sql_delete_def distinct_map_filter)

lemma keyed_sql_insert [preserved]:
  "keyed key rows \<Longrightarrow> sql_insert key r rows = Some rows' \<Longrightarrow> keyed key rows'"
  by (auto simp: keyed_def sql_insert_def split: if_splits)

lemma keyed_sql_upsert [preserved]:
  "keyed key rows \<Longrightarrow> (\<And>x. key x = key r \<Longrightarrow> key (upd x) = key x)
    \<Longrightarrow> keyed key (sql_upsert key upd r rows)"
  by (auto simp: sql_upsert_def intro!: keyed_sql_update) (simp add: keyed_def)

lemma sql_get_SomeD: "sql_get key k rows = Some r \<Longrightarrow> r \<in> set rows \<and> key r = k"
  by (auto simp: sql_get_def find_Some_iff)

lemma sql_get_None_iff: "sql_get key k rows = None \<longleftrightarrow> k \<notin> key ` set rows"
  by (auto simp: sql_get_def find_None_iff)

lemma sql_get_Some_iff:
  assumes "keyed key rows"
  shows "sql_get key k rows = Some r \<longleftrightarrow> r \<in> set rows \<and> key r = k"
proof
  assume r: "r \<in> set rows \<and> key r = k"
  then obtain r' where r': "sql_get key k rows = Some r'"
    using sql_get_None_iff [of key k rows] by (cases "sql_get key k rows") auto
  with sql_get_SomeD [OF r'] r assms have "r' = r"
    by (auto simp: keyed_def distinct_map dest: inj_onD)
  with r' show "sql_get key k rows = Some r" by simp
qed (rule sql_get_SomeD)

lemma sql_get_update:
  assumes "\<And>r. p r \<Longrightarrow> key (f r) = key r"
  shows "sql_get key k (sql_update p f rows) =
           map_option (\<lambda>r. if p r then f r else r) (sql_get key k rows)"
  using assms by (induction rows) (auto simp: sql_get_def sql_update_def)

lemma sql_get_delete:
  assumes "keyed key rows"
  shows "sql_get key k (sql_delete p rows) =
           (case sql_get key k rows of None \<Rightarrow> None | Some r \<Rightarrow> if p r then None else Some r)"
proof (cases "sql_get key k rows")
  case None
  then have "sql_get key k (sql_delete p rows) = None"
    by (auto simp: sql_get_None_iff sql_delete_def)
  with None show ?thesis by simp
next
  case (Some r)
  then have r: "r \<in> set rows" "key r = k" by (auto dest: sql_get_SomeD)
  have one: "r' = r" if "r' \<in> set rows" "key r' = k" for r'
    using assms r that by (auto simp: keyed_def distinct_map dest: inj_onD)
  show ?thesis
  proof (cases "p r")
    case True
    then have "sql_get key k (sql_delete p rows) = None"
      using one by (auto simp: sql_get_None_iff sql_delete_def)
    with Some True show ?thesis by simp
  next
    case False
    have "sql_get key k (sql_delete p rows) = Some r"
      using False r assms by (subst sql_get_Some_iff) (auto simp: keyed_sql_delete, simp add: sql_delete_def)
    with Some False show ?thesis by simp
  qed
qed

lemma sql_get_append:
  "sql_get key k (rows @ [r]) =
     (case sql_get key k rows of Some x \<Rightarrow> Some x | None \<Rightarrow> if key r = k then Some r else None)"
  by (induction rows) (auto simp: sql_get_def)

lemma sql_get_upsert:
  assumes "\<And>x. key x = key r \<Longrightarrow> key (upd x) = key x"
  shows "sql_get key k (sql_upsert key upd r rows) =
     (if k = key r then
        (case sql_get key k rows of None \<Rightarrow> Some r | Some x \<Rightarrow> Some (upd x))
      else sql_get key k rows)"
proof (cases "key r \<in> key ` set rows")
  case True
  then obtain y where y: "sql_get key (key r) rows = Some y"
    using sql_get_None_iff [of key "key r" rows] by (cases "sql_get key (key r) rows") auto
  have "sql_get key k (sql_upsert key upd r rows) =
      map_option (\<lambda>x. if key x = key r then upd x else x) (sql_get key k rows)"
    using True by (simp add: sql_upsert_def) (rule sql_get_update, use assms in simp)
  with y show ?thesis
    by (cases "sql_get key k rows") (auto dest: sql_get_SomeD)
next
  case False
  then have "sql_get key (key r) rows = None" by (simp add: sql_get_None_iff)
  with False show ?thesis
    by (auto simp: sql_upsert_def sql_get_append split: option.splits)
qed

end
