(* ===== verification/Runs.thy ===== *)
theory Runs
  imports Tables
begin

text \<open>
  Executions, runs and output chunks (\<open>src/internal/store/exec.go\<close>, with the run
  transitions of \<open>src/internal/store/paging.go\<close> and \<open>src/internal/store/agents.go\<close>).  Every
  statement that changes \<open>execution_runs\<close> is here; the states are the strings of the code.
  The store's clock is the argument \<open>now\<close>.  The operations are generic in the record's
  extension, so the server's state, which contains these tables, uses them directly.
\<close>

section \<open>Tables\<close>

record Execution =
  e_ID :: string
  e_Selector :: string
  e_Cmd :: string
  e_ArgsJSON :: string
  e_Created :: int
  e_CreatedBy :: string
  e_State :: string

record ExecutionRun =
  er_ID :: string
  er_ExecutionID :: string
  er_AgentID :: string
  er_State :: string
  er_ExitCode :: "int option"
  er_DurationMS :: "int option"
  er_Elevated :: "bool option"
  er_ElevationNote :: string
  er_Created :: int
  er_Updated :: int

record OutputChunk =
  oc_RunID :: string
  oc_ChunkSeq :: int
  oc_Stream :: string
  oc_Data :: string

record run_db =
  executions :: "Execution list"
  runs :: "ExecutionRun list"
  chunks :: "OutputChunk list"

datatype store_error = IDRequired | KeyViolation | ForeignKey | NotFound

section \<open>Executions\<close>

definition CreateExecution :: "int \<Rightarrow> Execution \<Rightarrow> 'a run_db_scheme \<Rightarrow> store_error + 'a run_db_scheme" where
  "CreateExecution now e db =
     (if e_ID e = [] then Inl IDRequired
      else
        (let e1 = (if e_Created e = 0 then e\<lparr>e_Created := now\<rparr> else e)
         in case sql_insert e_ID e1 (executions db) of
              None \<Rightarrow> Inl KeyViolation
            | Some rows \<Rightarrow> Inr (db\<lparr>executions := rows\<rparr>)))"

definition GetExecution :: "string \<Rightarrow> 'a run_db_scheme \<Rightarrow> store_error + Execution" where
  "GetExecution i db =
     (case sql_get e_ID i (executions db) of None \<Rightarrow> Inl NotFound | Some e \<Rightarrow> Inr e)"

definition UpdateExecutionState :: "string \<Rightarrow> string \<Rightarrow> 'a run_db_scheme \<Rightarrow> 'a run_db_scheme" where
  "UpdateExecutionState i state db =
     db\<lparr>executions := sql_update (\<lambda>e. e_ID e = i) (\<lambda>e. e\<lparr>e_State := state\<rparr>) (executions db)\<rparr>"

section \<open>Runs\<close>

text \<open>
  The schema enforces that the execution and the host of a run exist; \<open>known\<close> says which ids
  the table of hosts holds.
\<close>

definition CreateExecutionRun ::
  "int \<Rightarrow> (string \<Rightarrow> bool) \<Rightarrow> ExecutionRun \<Rightarrow> 'a run_db_scheme \<Rightarrow> store_error + 'a run_db_scheme" where
  "CreateExecutionRun now known r db =
     (if er_ID r = [] then Inl IDRequired
      else if er_ID r \<in> er_ID ` set (runs db) then Inl KeyViolation
      else if er_ExecutionID r \<notin> e_ID ` set (executions db) \<or> \<not> known (er_AgentID r) then Inl ForeignKey
      else
        (let created = (if er_Created r = 0 then now else er_Created r);
             r1 = r\<lparr>er_Created := created, er_Updated := created,
                    er_Elevated := None, er_ElevationNote := []\<rparr>
         in Inr (db\<lparr>runs := runs db @ [r1]\<rparr>)))"

definition GetExecutionRun :: "string \<Rightarrow> 'a run_db_scheme \<Rightarrow> ExecutionRun option" where
  "GetExecutionRun i db = sql_get er_ID i (runs db)"

definition SetRunElevation ::
  "int \<Rightarrow> string \<Rightarrow> bool \<Rightarrow> string \<Rightarrow> 'a run_db_scheme \<Rightarrow> store_error + 'a run_db_scheme" where
  "SetRunElevation now i elevated note_text db =
     (if i = [] then Inl IDRequired
      else Inr (db\<lparr>runs := sql_update (\<lambda>r. er_ID r = i \<and> er_Elevated r = None)
             (\<lambda>r. r\<lparr>er_Elevated := Some elevated,
                     er_ElevationNote := (if er_ElevationNote r = [] then note_text else er_ElevationNote r),
                     er_Updated := now\<rparr>) (runs db)\<rparr>))"

definition open_states :: "string list" where
  "open_states = [''queued'', ''delivered'', ''running'', ''interrupted'', ''awaiting_approval'', ''queued_offline'']"

definition UpdateRunState ::
  "int \<Rightarrow> string \<Rightarrow> string \<Rightarrow> int \<Rightarrow> int \<Rightarrow> 'a run_db_scheme \<Rightarrow> 'a run_db_scheme" where
  "UpdateRunState now i state exitCode durationMS db =
     db\<lparr>runs := sql_update
         (\<lambda>r. er_ID r = i \<and> (er_State r \<in> set open_states \<or> er_State r = state))
         (\<lambda>r. r\<lparr>er_State := state, er_ExitCode := Some exitCode, er_DurationMS := Some durationMS,
                 er_Updated := now\<rparr>) (runs db)\<rparr>"

definition PromoteRunToRunning :: "int \<Rightarrow> string \<Rightarrow> 'a run_db_scheme \<Rightarrow> 'a run_db_scheme" where
  "PromoteRunToRunning now i db =
     db\<lparr>runs := sql_update (\<lambda>r. er_ID r = i \<and> er_State r = ''delivered'')
         (\<lambda>r. r\<lparr>er_State := ''running'', er_Updated := now\<rparr>) (runs db)\<rparr>"

definition MarkQueuedOfflineIfQueued :: "int \<Rightarrow> string \<Rightarrow> 'a run_db_scheme \<Rightarrow> bool \<times> 'a run_db_scheme" where
  "MarkQueuedOfflineIfQueued now i db =
     (let p = (\<lambda>r. er_ID r = i \<and> er_State r = ''queued'')
      in (rows_affected p (runs db) > 0,
          db\<lparr>runs := sql_update p (\<lambda>r. r\<lparr>er_State := ''queued_offline'', er_Updated := now\<rparr>) (runs db)\<rparr>))"

definition CancelNonTerminalRuns :: "int \<Rightarrow> string \<Rightarrow> 'a run_db_scheme \<Rightarrow> nat \<times> 'a run_db_scheme" where
  "CancelNonTerminalRuns now execID db =
     (let p = (\<lambda>r. er_ExecutionID r = execID \<and>
                er_State r \<in> {''queued'', ''delivered'', ''running'', ''awaiting_approval'', ''queued_offline''})
      in (rows_affected p (runs db),
          db\<lparr>runs := sql_update p (\<lambda>r. r\<lparr>er_State := ''cancelled'', er_Updated := now\<rparr>) (runs db)\<rparr>))"

text \<open>The distinct execution ids of a list of rows, in the order they first occur.\<close>

fun distinct_execs :: "string list \<Rightarrow> ExecutionRun list \<Rightarrow> string list" where
  "distinct_execs execs [] = execs"
| "distinct_execs execs (r # refs) =
     distinct_execs (if er_ExecutionID r \<in> set execs then execs else execs @ [er_ExecutionID r]) refs"

definition InterruptAgentRuns :: "int \<Rightarrow> string \<Rightarrow> 'a run_db_scheme \<Rightarrow> string list \<times> 'a run_db_scheme" where
  "InterruptAgentRuns now agent db =
     (let p = (\<lambda>r. er_AgentID r = agent \<and> er_State r \<in> {''delivered'', ''running''});
          refs = filter p (runs db);
          execs = distinct_execs [] refs
      in if refs = [] then ([], db)
         else (execs,
               db\<lparr>runs := sql_update p (\<lambda>r. r\<lparr>er_State := ''interrupted'', er_Updated := now\<rparr>) (runs db)\<rparr>))"

text \<open>A \<open>time.Duration\<close> is a number of nanoseconds.\<close>

definition StrandedInterruptedRuns :: "int \<Rightarrow> int \<Rightarrow> 'a run_db_scheme \<Rightarrow> string list \<times> 'a run_db_scheme" where
  "StrandedInterruptedRuns now ttl db =
     (let cutoff = (if ttl \<le> 0 then now + 1 else now - ttl div 1000000000);
          p = (\<lambda>r. er_State r = ''interrupted'' \<and> er_Updated r < cutoff);
          execs = distinct_execs [] (filter p (runs db))
      in if execs = [] then ([], db)
         else (execs,
               db\<lparr>runs := sql_update p (\<lambda>r. r\<lparr>er_State := ''not_delivered'', er_Updated := now\<rparr>) (runs db)\<rparr>))"

definition ExecutionIDForRun :: "string \<Rightarrow> 'a run_db_scheme \<Rightarrow> string option" where
  "ExecutionIDForRun i db = map_option er_ExecutionID (GetExecutionRun i db)"

definition ListRunsForExecution :: "string \<Rightarrow> 'a run_db_scheme \<Rightarrow> ExecutionRun list" where
  "ListRunsForExecution execID db =
     sort_key er_AgentID (filter (\<lambda>r. er_ExecutionID r = execID) (runs db))"

definition terminalStates :: "string list" where
  "terminalStates = [''succeeded'', ''failed'', ''timed_out'', ''cancelled'', ''interrupted'',
     ''not_delivered'', ''denied'', ''expired'']"

definition IsTerminalRun :: "string \<Rightarrow> bool" where
  "IsTerminalRun state \<longleftrightarrow> state \<in> set terminalStates"

section \<open>Output\<close>

definition chunk_key :: "OutputChunk \<Rightarrow> string \<times> int" where
  "chunk_key c = (oc_RunID c, oc_ChunkSeq c)"

text \<open>
  \<open>ON CONFLICT DO NOTHING\<close>, which does not cover the foreign key on the run.  \<open>recv_output\<close>
  is the caller's view: the stream handler logs the error and goes on.
\<close>

definition AppendOutput :: "OutputChunk \<Rightarrow> 'a run_db_scheme \<Rightarrow> store_error + 'a run_db_scheme" where
  "AppendOutput c db =
     (if chunk_key c \<in> chunk_key ` set (chunks db) then Inr db
      else if oc_RunID c \<notin> er_ID ` set (runs db) then Inl ForeignKey
      else Inr (db\<lparr>chunks := chunks db @ [c]\<rparr>))"

definition recv_output :: "OutputChunk \<Rightarrow> 'a run_db_scheme \<Rightarrow> 'a run_db_scheme" where
  "recv_output c db = (case AppendOutput c db of Inl e \<Rightarrow> db | Inr db' \<Rightarrow> db')"

definition ListOutput :: "string \<Rightarrow> 'a run_db_scheme \<Rightarrow> OutputChunk list" where
  "ListOutput runID db = sort_key oc_ChunkSeq (filter (\<lambda>c. oc_RunID c = runID) (chunks db))"

section \<open>Pages\<close>

text \<open>
  \<open>ExecutionsPage\<close>: newest id first, at most \<open>limit\<close> rows below the cursor.  Ids compare as
  SQLite compares text, byte by byte.
\<close>

definition page_limit :: "int \<Rightarrow> nat" where
  "page_limit limit = (if limit \<le> 0 \<or> limit > 500 then 100 else nat limit)"

definition has_elevated_run :: "'a run_db_scheme \<Rightarrow> bool \<Rightarrow> Execution \<Rightarrow> bool" where
  "has_elevated_run db b e =
     list_ex (\<lambda>r. er_ExecutionID r = e_ID e \<and> er_Elevated r = Some b) (runs db)"

definition page_filter :: "string \<Rightarrow> 'a run_db_scheme \<Rightarrow> Execution \<Rightarrow> bool" where
  "page_filter elevated db e =
     (if elevated = ''true'' then has_elevated_run db True e
      else if elevated = ''false'' then has_elevated_run db False e
      else True)"

definition ExecutionsPage ::
  "int \<Rightarrow> string \<Rightarrow> string \<Rightarrow> 'a run_db_scheme \<Rightarrow> Execution list" where
  "ExecutionsPage limit cursor elevated db =
     take (page_limit limit)
       (rev (sort_key e_ID
         (filter (\<lambda>e. page_filter elevated db e \<and> (cursor = [] \<or> e_ID e < cursor)) (executions db))))"

definition ListExecutions :: "nat \<Rightarrow> 'a run_db_scheme \<Rightarrow> Execution list" where
  "ListExecutions limit db = take limit (sort_key (\<lambda>e. - e_Created e) (executions db))"

section \<open>The statements that write runs\<close>

text \<open>The states no statement leaves: the terminal states without \<open>interrupted\<close>.\<close>

definition final_states :: "string list" where
  "final_states = filter (\<lambda>s. s \<notin> set open_states) terminalStates"

lemma final_states_eq: "final_states = [''succeeded'', ''failed'', ''timed_out'', ''cancelled'',
    ''not_delivered'', ''denied'', ''expired'']"
  by (simp add: final_states_def terminalStates_def open_states_def)

text \<open>One statement of the store on the run table, at some time of its clock.\<close>

inductive run_step :: "'a run_db_scheme \<Rightarrow> 'a run_db_scheme \<Rightarrow> bool" where
  create: "CreateExecutionRun now known r db = Inr db' \<Longrightarrow> run_step db db'"
| update: "run_step db (UpdateRunState now i state exitCode dur db)"
| promote: "run_step db (PromoteRunToRunning now i db)"
| elevation: "SetRunElevation now i b note_text db = Inr db' \<Longrightarrow> run_step db db'"
| mark_queued: "run_step db (snd (MarkQueuedOfflineIfQueued now i db))"
| cancel: "run_step db (snd (CancelNonTerminalRuns now execID db))"
| interrupt: "run_step db (snd (InterruptAgentRuns now agent db))"
| stranded: "run_step db (snd (StrandedInterruptedRuns now ttl db))"
| execution: "run_step db (UpdateExecutionState i state db)"
| out_chunk: "run_step db (recv_output c db)"

text \<open>What a run keeps: its identity, and its state once that is final.\<close>

definition continues :: "ExecutionRun \<Rightarrow> ExecutionRun \<Rightarrow> bool" where
  "continues r r' \<longleftrightarrow> er_ID r' = er_ID r \<and> er_ExecutionID r' = er_ExecutionID r \<and>
     er_AgentID r' = er_AgentID r \<and> er_Created r' = er_Created r \<and>
     (er_State r \<in> set final_states \<longrightarrow> er_State r' = er_State r)"

lemma continues_refl [simp]: "continues r r"
  by (simp add: continues_def)

lemma continues_trans: "continues r s \<Longrightarrow> continues s t \<Longrightarrow> continues r t"
  by (auto simp: continues_def)

definition runs_continue :: "'a run_db_scheme \<Rightarrow> 'a run_db_scheme \<Rightarrow> bool" where
  "runs_continue db db' \<longleftrightarrow>
     (\<exists>olds new. runs db' = olds @ new \<and> list_all2 continues (runs db) olds)"

lemma continue_same: "runs db' = runs db \<Longrightarrow> runs_continue db db'"
  unfolding runs_continue_def
  by (intro exI [of _ "runs db"] exI [of _ "[]"]) (simp add: list_all2_refl)

lemma continue_update:
  assumes "\<And>r. p r \<Longrightarrow> continues r (f r)"
  shows "runs_continue db (db\<lparr>runs := sql_update p f (runs db)\<rparr>)"
proof -
  have "list_all2 continues rs (sql_update p f rs)" for rs
    using assms by (induction rs) (auto simp: sql_update_def)
  then show ?thesis by (auto simp: runs_continue_def intro: exI [of _ "[]"])
qed

lemma continue_insert: "runs db' = runs db @ [r] \<Longrightarrow> runs_continue db db'"
  unfolding runs_continue_def
  by (intro exI [of _ "runs db"] exI [of _ "[r]"]) (simp add: list_all2_refl)

lemmas state_defs = continues_def final_states_def terminalStates_def open_states_def

lemma continue_InterruptAgentRuns: "runs_continue db (snd (InterruptAgentRuns now agent db))"
  unfolding InterruptAgentRuns_def Let_def if_distrib [of snd] snd_conv
  by (rule if_split [THEN iffD2], intro conjI impI, rule continue_same, simp, rule continue_update)
    (auto simp: state_defs)

lemma continue_StrandedInterruptedRuns: "runs_continue db (snd (StrandedInterruptedRuns now ttl db))"
  unfolding StrandedInterruptedRuns_def Let_def if_distrib [of snd] snd_conv
  by (rule if_split [THEN iffD2], intro conjI impI, rule continue_same, simp, rule continue_update)
    (auto simp: state_defs)

lemma run_step_continues: "run_step db db' \<Longrightarrow> runs_continue db db'"
proof (induction rule: run_step.induct)
  case (create now known r db db')
  then show ?case
    by (auto simp: CreateExecutionRun_def Let_def split: if_splits intro: continue_insert)
next
  case (update db now i state exitCode dur)
  show ?case unfolding UpdateRunState_def
    by (rule continue_update) (auto simp: continues_def final_states_def)
next
  case (promote db now i)
  show ?case unfolding PromoteRunToRunning_def by (rule continue_update) (auto simp: state_defs)
next
  case (elevation now i b note_text db db')
  then have "db' = db\<lparr>runs := sql_update (\<lambda>r. er_ID r = i \<and> er_Elevated r = None)
      (\<lambda>r. r\<lparr>er_Elevated := Some b,
              er_ElevationNote := (if er_ElevationNote r = [] then note_text else er_ElevationNote r),
              er_Updated := now\<rparr>) (runs db)\<rparr>"
    by (auto simp: SetRunElevation_def split: if_splits)
  then show ?case by (simp only:) (rule continue_update, simp add: continues_def)
next
  case (mark_queued db now i)
  show ?case unfolding MarkQueuedOfflineIfQueued_def Let_def snd_conv
    by (rule continue_update) (auto simp: state_defs)
next
  case (cancel db now execID)
  show ?case unfolding CancelNonTerminalRuns_def Let_def snd_conv
    by (rule continue_update) (auto simp: state_defs)
qed (auto intro: continue_same continue_InterruptAgentRuns continue_StrandedInterruptedRuns
    simp: UpdateExecutionState_def recv_output_def AppendOutput_def)

lemma runs_continue_trans:
  assumes "runs_continue a b" "runs_continue b c"
  shows "runs_continue a c"
proof -
  obtain o1 n1 o2 n2 where 1: "runs b = o1 @ n1" "list_all2 continues (runs a) o1"
    and 2: "runs c = o2 @ n2" "list_all2 continues (o1 @ n1) o2"
    using assms by (auto simp: runs_continue_def)
  from 2(2) obtain u v where uv: "o2 = u @ v" "list_all2 continues o1 u"
    by (simp only: list_all2_append1) blast
  have "list_all2 continues (runs a) u"
    by (rule list_all2_trans [OF _ 1(2) uv(2)]) (rule continues_trans)
  moreover have "runs c = u @ v @ n2" using 2(1) uv(1) by simp
  ultimately show ?thesis unfolding runs_continue_def by blast
qed


definition run_sample :: "string \<Rightarrow> string \<Rightarrow> string \<Rightarrow> string \<Rightarrow> ExecutionRun" where
  "run_sample i execID agent state = \<lparr>er_ID = i, er_ExecutionID = execID, er_AgentID = agent,
     er_State = state, er_ExitCode = None, er_DurationMS = None, er_Elevated = None,
     er_ElevationNote = [], er_Created = 1, er_Updated = 1\<rparr>"

definition one_run_db :: "string \<Rightarrow> run_db" where
  "one_run_db state = \<lparr>executions = [], runs = [run_sample ''r1'' ''e1'' ''h1'' state], chunks = []\<rparr>"


text \<open>
  The list of terminal states and the guard of \<open>UpdateRunState\<close> disagree on \<open>interrupted\<close>:
  the code calls it terminal (\<open>states that will not change further\<close>), but an interrupted run
  takes any later update; and a repeated update with the same state is no no-op, it replaces
  the recorded exit code, duration and time.
\<close>
theorem interrupted_and_repeated_updates:
  "IsTerminalRun ''interrupted'' \<and>
   map er_State (runs (UpdateRunState now ''r1'' state x d (one_run_db ''interrupted''))) = [state] \<and>
   map er_ExitCode (runs (UpdateRunState 9 ''r1'' ''failed'' (-1) 0
      (UpdateRunState 8 ''r1'' ''failed'' 3 250 (one_run_db ''running'')))) = [Some (-1)]"
  by (simp add: IsTerminalRun_def terminalStates_def UpdateRunState_def one_run_db_def
      sql_update_def run_sample_def open_states_def)

section \<open>Output is delivered at least once\<close>

lemma fold_recv_output:
  assumes "keyed chunk_key (chunks db)" "inj_on chunk_key (set (chunks db) \<union> set cs)"
    and "oc_RunID ` set cs \<subseteq> er_ID ` set (runs db)"
  shows "keyed chunk_key (chunks (fold recv_output cs db)) \<and>
    set (chunks (fold recv_output cs db)) = set (chunks db) \<union> set cs"
  using assms
proof (induction cs arbitrary: db)
  case (Cons c cs)
  have r: "recv_output c db = (if chunk_key c \<in> chunk_key ` set (chunks db) then db
      else db\<lparr>chunks := chunks db @ [c]\<rparr>)"
    using Cons.prems(3) by (auto simp: recv_output_def AppendOutput_def)
  have s: "set (chunks (recv_output c db)) = insert c (set (chunks db))"
  proof (cases "chunk_key c \<in> chunk_key ` set (chunks db)")
    case True
    then have "c \<in> set (chunks db)" using Cons.prems(2) by (auto dest: inj_onD)
    with True show ?thesis by (auto simp: r)
  qed (simp add: r)
  have "keyed chunk_key (chunks (recv_output c db))"
    using Cons.prems(1) by (auto simp: r keyed_def)
  from Cons.IH [OF this] s Cons.prems(2,3) show ?case by (simp add: r split: if_splits)
qed simp

lemma ListOutput_facts:
  assumes "keyed chunk_key (chunks db)"
  shows "sorted (map oc_ChunkSeq (ListOutput i db))" "distinct (map oc_ChunkSeq (ListOutput i db))"
    "set (ListOutput i db) = {c \<in> set (chunks db). oc_RunID c = i}"
proof -
  have "inj_on chunk_key (set (chunks db))" "distinct (chunks db)"
    using assms by (simp_all add: keyed_def distinct_map)
  then have "inj_on oc_ChunkSeq (set (ListOutput i db))" "distinct (ListOutput i db)"
    by (auto simp: inj_on_def chunk_key_def ListOutput_def)
  then show "distinct (map oc_ChunkSeq (ListOutput i db))" by (simp add: distinct_map)
qed (auto simp: ListOutput_def)

text \<open>
  Output chunks may be delivered more than once and in any order: if redelivered chunks
  are identical, what the store lists for a run depends only on the set of chunks that
  arrived, and is each of them once, in sequence order.
\<close>
theorem output_at_least_once:
  assumes "keyed chunk_key (chunks db)" "inj_on chunk_key (set (chunks db) \<union> set cs)"
    and "set cs = set cs'" "oc_RunID ` set cs \<subseteq> er_ID ` set (runs db)"
  shows "ListOutput i (fold recv_output cs db) = ListOutput i (fold recv_output cs' db) \<and>
    sorted_wrt (<) (map oc_ChunkSeq (ListOutput i (fold recv_output cs db))) \<and>
    set (ListOutput i (fold recv_output cs db)) = {c \<in> set (chunks db) \<union> set cs. oc_RunID c = i}"
proof -
  note f = fold_recv_output [OF assms(1), of cs, OF assms(2,4)]
    and f' = fold_recv_output [OF assms(1), of cs', OF assms(2,4) [unfolded assms(3)]]
  note l = ListOutput_facts [OF conjunct1 [OF f], of i] and l' = ListOutput_facts [OF conjunct1 [OF f'], of i]
  have "ListOutput i (fold recv_output cs db) = ListOutput i (fold recv_output cs' db)"
    by (rule sorted_distinct_set_unique_map [where f = oc_ChunkSeq])
      (use l l' f f' assms(3) in auto)
  moreover have "sorted_wrt (<) (map oc_ChunkSeq (ListOutput i (fold recv_output cs db)))"
    using l(1,2) by (simp add: strict_sorted_iff)
  ultimately show ?thesis
    using l(3) f by simp
qed

definition chunk_sample :: "int \<Rightarrow> OutputChunk" where
  "chunk_sample n = \<lparr>oc_RunID = ''r1'', oc_ChunkSeq = n, oc_Stream = ''stdout'', oc_Data = ''x''\<rparr>"

theorem output_at_least_once_witness:
  "ListOutput ''r1'' (fold recv_output [chunk_sample 2, chunk_sample 1, chunk_sample 2] (one_run_db ''running''))
    = ListOutput ''r1'' (fold recv_output [chunk_sample 1, chunk_sample 2] (one_run_db ''running''))"
proof (rule output_at_least_once [THEN conjunct1])
  show "set [chunk_sample 2, chunk_sample 1, chunk_sample 2] = set [chunk_sample 1, chunk_sample 2]" by auto
qed (auto simp: one_run_db_def run_sample_def keyed_def chunk_sample_def chunk_key_def inj_on_def)

section \<open>Paging\<close>

text \<open>A client that follows the cursor until a page comes back empty.\<close>

fun walk_pages :: "nat \<Rightarrow> int \<Rightarrow> string \<Rightarrow> string \<Rightarrow> 'a run_db_scheme \<Rightarrow> Execution list" where
  "walk_pages 0 limit cursor elevated db = []"
| "walk_pages (Suc n) limit cursor elevated db =
     (let page = ExecutionsPage limit cursor elevated db
      in if page = [] then [] else page @ walk_pages n limit (e_ID (last page)) elevated db)"

definition newest_first :: "string \<Rightarrow> 'a run_db_scheme \<Rightarrow> Execution list" where
  "newest_first elevated db = rev (sort_key e_ID (filter (page_filter elevated db) (executions db)))"

lemma rev_sort_key_filter: "rev (sort_key f (filter P (filter Q xs))) = filter P (rev (sort_key f (filter Q xs)))"
  by (simp add: filter_sort rev_filter [symmetric] del: filter_filter)

lemma newest_first_strict:
  assumes "keyed e_ID (executions db)"
  shows "sorted_wrt (\<lambda>x y. e_ID y < e_ID x) (newest_first elevated db)"
proof -
  have "distinct (map e_ID (sort_key e_ID (filter (page_filter elevated db) (executions db))))"
    using assms by (simp add: keyed_def distinct_map inj_on_def)
  from sorted_map_distinct_strict [OF _ this] show ?thesis
    by (simp add: newest_first_def sorted_wrt_rev)
qed

lemma page_prefix:
  assumes "keyed e_ID (executions db)" "newest_first elevated db = xs @ ys"
    and "cursor = (if xs = [] then [] else e_ID (last xs))" "\<forall>e \<in> set (executions db). e_ID e \<noteq> []"
  shows "ExecutionsPage limit cursor elevated db = take (page_limit limit) ys"
proof -
  have "ExecutionsPage limit cursor elevated db =
      take (page_limit limit) (filter (\<lambda>e. cursor = [] \<or> e_ID e < cursor) (newest_first elevated db))"
    unfolding ExecutionsPage_def newest_first_def rev_sort_key_filter [symmetric]
    by (simp add: conj_commute)
  also have "filter (\<lambda>e. cursor = [] \<or> e_ID e < cursor) (newest_first elevated db) = ys"
  proof (cases xs rule: rev_cases)
    case Nil
    then show ?thesis using assms by simp
  next
    case (snoc zs z)
    have "z \<in> set (newest_first elevated db)" using assms(2) snoc by simp
    then have "e_ID z \<noteq> []" using assms(4) by (auto simp: newest_first_def)
    moreover have "\<forall>y \<in> set ys. e_ID y < e_ID z" "\<forall>y \<in> set (zs @ [z]). \<not> e_ID y < e_ID z"
      using newest_first_strict [OF assms(1), of elevated] assms(2) snoc
      by (auto simp: sorted_wrt_append)
    ultimately show ?thesis using assms(2,3) snoc by (auto simp: filter_empty_conv)
  qed
  finally show ?thesis .
qed

lemma walk_pages_suffix:
  assumes "keyed e_ID (executions db)" "\<forall>e \<in> set (executions db). e_ID e \<noteq> []"
    and "newest_first elevated db = xs @ ys" "cursor = (if xs = [] then [] else e_ID (last xs))"
    and "length ys < n"
  shows "walk_pages n limit cursor elevated db = ys"
  using assms(3-)
proof (induction n arbitrary: xs ys cursor)
  case (Suc n)
  have p: "ExecutionsPage limit cursor elevated db = take (page_limit limit) ys"
    using page_prefix [OF assms(1) Suc.prems(1,2) assms(2)] .
  have pos: "0 < page_limit limit" by (simp add: page_limit_def)
  show ?case
  proof (cases "ys = []")
    case False
    let ?page = "take (page_limit limit) ys" and ?rest = "drop (page_limit limit) ys"
    have "walk_pages n limit (e_ID (last ?page)) elevated db = ?rest"
    proof (rule Suc.IH [of "xs @ ?page"])
      show "length ?rest < n" using Suc.prems(3) False pos by (cases ys) auto
      show "newest_first elevated db = (xs @ ?page) @ ?rest" using Suc.prems(1) by simp
      show "e_ID (last ?page) = (if xs @ ?page = [] then [] else e_ID (last (xs @ ?page)))"
        using False pos by simp
    qed
    with p False pos show ?thesis by simp
  qed (use p in simp)
qed simp

text \<open>
  Following the cursor lists every execution exactly once, newest id first, whatever the
  page size and the elevation filter: the pages concatenate to the whole filtered table, and
  one more page than there are executions is enough.
\<close>
theorem pages_cover:
  assumes "keyed e_ID (executions db)" "\<forall>e \<in> set (executions db). e_ID e \<noteq> []"
    and "length (executions db) < n"
  shows "walk_pages n limit [] elevated db = newest_first elevated db"
proof (rule walk_pages_suffix [OF assms(1,2), of elevated "[]"])
  have "length (newest_first elevated db) \<le> length (executions db)"
    by (simp add: newest_first_def)
  with assms(3) show "length (newest_first elevated db) < n" by linarith
qed simp_all

definition exec_sample :: "string \<Rightarrow> string \<Rightarrow> Execution" where
  "exec_sample i state = \<lparr>e_ID = i, e_Selector = ''*'', e_Cmd = ''ls'', e_ArgsJSON = [], e_Created = 1,
     e_CreatedBy = ''admin'', e_State = state\<rparr>"

definition two_execs :: run_db where
  "two_execs = \<lparr>executions = [exec_sample ''e1'' ''running'', exec_sample ''e2'' ''running''], runs = [], chunks = []\<rparr>"

theorem pages_cover_witness: "walk_pages 3 1 [] [] two_execs = newest_first [] two_execs"
  by (rule pages_cover) (auto simp: two_execs_def exec_sample_def keyed_def)

end
