(* ===== verification/TaskStore.thy ===== *)
theory TaskStore
  imports Tables
begin

text \<open>
  Tasks, task runs, playbooks (\<open>src/internal/store/tasks.go\<close>), scheduled jobs
  (\<open>src/internal/store/jobs.go\<close>) and PTY session rows (\<open>src/internal/store/files.go\<close>).
  Foreign keys and uniqueness are the schema's; the clock is \<open>now\<close>.  A list query's order
  column need not be unique: rows that tie keep the table's order.
\<close>

section \<open>Tables\<close>

record Task =
  tk_ID :: string
  tk_Name :: string
  tk_Description :: string
  tk_Created :: int
  tk_Updated :: int

record TaskVersion =
  tv_TaskID :: string
  tv_Version :: int
  tv_StepsJSON :: string
  tv_Created :: int

record TaskRun =
  tn_ID :: string
  tn_TaskID :: string
  tn_TaskVersion :: int
  tn_AgentID :: string
  tn_State :: string
  tn_Started :: int
  tn_Finished :: "int option"
  tn_Error :: string

record TaskRunStep =
  ts_RunID :: string
  ts_StepIdx :: int
  ts_Kind :: string
  ts_Name :: string
  ts_State :: string
  ts_Detail :: string
  ts_Started :: int
  ts_Finished :: int

record Playbook =
  pb_ID :: string
  pb_Name :: string
  pb_TaskID :: string
  pb_TaskVersion :: int
  pb_Selector :: string
  pb_Created :: int

record Job =
  jb_ID :: string
  jb_Name :: string
  jb_TaskID :: string
  jb_TaskVersion :: int
  jb_Cron :: string
  jb_Selector :: string
  jb_MaxRunSeconds :: int
  jb_Enabled :: bool
  jb_Created :: int
  jb_Updated :: int

record JobAssignment =
  ja_JobID :: string
  ja_AgentID :: string
  ja_AssignedAt :: int
  ja_LastRunAt :: int
  ja_LastRunState :: string

record JobRun =
  jn_ID :: string
  jn_JobID :: string
  jn_AgentID :: string
  jn_TaskID :: string
  jn_TaskVersion :: int
  jn_ScheduledAt :: int
  jn_StartedAt :: int
  jn_FinishedAt :: int
  jn_State :: string
  jn_Trigger :: string
  jn_Error :: string

record PtySession =
  ps_ID :: string
  ps_AgentID :: string
  ps_State :: string
  ps_ExitCode :: "int option"
  ps_Error :: string
  ps_Actor :: string
  ps_Opened :: int
  ps_Closed :: "int option"

record task_db =
  tasks :: "Task list"
  task_versions :: "TaskVersion list"
  task_runs :: "TaskRun list"
  task_run_steps :: "TaskRunStep list"
  playbooks :: "Playbook list"
  jobs :: "Job list"
  job_assignments :: "JobAssignment list"
  job_runs :: "JobRun list"
  pty_sessions :: "PtySession list"

datatype task_error = TUnique | TForeignKey | TNotFound | TIDRequired

section \<open>Tasks and versions\<close>

definition CreateTask :: "int \<Rightarrow> Task \<Rightarrow> task_db \<Rightarrow> task_error + task_db" where
  "CreateTask now t0 db =
     (let created = (if tk_Created t0 = 0 then now else tk_Created t0);
          t = t0\<lparr>tk_Created := created, tk_Updated := created\<rparr>
      in if tk_ID t \<in> tk_ID ` set (tasks db) \<or> tk_Name t \<in> tk_Name ` set (tasks db) then Inl TUnique
         else Inr (db\<lparr>tasks := tasks db @ [t]\<rparr>))"

definition Task_get :: "string \<Rightarrow> task_db \<Rightarrow> Task option" where
  "Task_get i db = sql_get tk_ID i (tasks db)"

definition TaskByName :: "string \<Rightarrow> task_db \<Rightarrow> Task option" where
  "TaskByName n db = sql_get tk_Name n (tasks db)"

text \<open>The limit of the list queries: out of range means the default.\<close>

definition clamp_limit :: "int \<Rightarrow> int \<Rightarrow> nat" where
  "clamp_limit dflt limit = nat (if limit \<le> 0 \<or> limit > 200 then dflt else limit)"

definition ListTasks :: "int \<Rightarrow> task_db \<Rightarrow> Task list" where
  "ListTasks limit db = take (clamp_limit 50 limit) (sort_key (\<lambda>t. - tk_Updated t) (tasks db))"

definition tv_key :: "TaskVersion \<Rightarrow> string \<times> int" where
  "tv_key v = (tv_TaskID v, tv_Version v)"

definition UpsertTaskVersion :: "int \<Rightarrow> TaskVersion \<Rightarrow> task_db \<Rightarrow> task_error + task_db" where
  "UpsertTaskVersion now v0 db =
     (let v = v0\<lparr>tv_Created := (if tv_Created v0 = 0 then now else tv_Created v0)\<rparr>
      in if tv_key v \<in> tv_key ` set (task_versions db) then Inl TUnique
         else if tv_TaskID v \<notin> tk_ID ` set (tasks db) then Inl TForeignKey
         else Inr (db\<lparr>task_versions := task_versions db @ [v],
                      tasks := sql_update (\<lambda>t. tk_ID t = tv_TaskID v)
                        (\<lambda>t. t\<lparr>tk_Updated := tv_Created v\<rparr>) (tasks db)\<rparr>))"

definition TaskVersions :: "string \<Rightarrow> task_db \<Rightarrow> TaskVersion list" where
  "TaskVersions i db = sort_key tv_Version (filter (\<lambda>v. tv_TaskID v = i) (task_versions db))"

definition LatestTaskVersion :: "string \<Rightarrow> task_db \<Rightarrow> TaskVersion option" where
  "LatestTaskVersion i db =
     (case sort_key (\<lambda>v. - tv_Version v) (filter (\<lambda>v. tv_TaskID v = i) (task_versions db)) of
        [] \<Rightarrow> None | v # _ \<Rightarrow> Some v)"

definition TaskVersion_get :: "string \<Rightarrow> int \<Rightarrow> task_db \<Rightarrow> TaskVersion option" where
  "TaskVersion_get i n db = sql_get tv_key (i, n) (task_versions db)"

section \<open>Task runs\<close>

definition CreateTaskRun :: "int \<Rightarrow> TaskRun \<Rightarrow> task_db \<Rightarrow> task_error + task_db" where
  "CreateTaskRun now r0 db =
     (let r = r0\<lparr>tn_Started := (if tn_Started r0 = 0 then now else tn_Started r0),
                 tn_State := ''running'', tn_Finished := None\<rparr>
      in if tn_ID r \<in> tn_ID ` set (task_runs db) then Inl TUnique
         else if tn_TaskID r \<notin> tk_ID ` set (tasks db) then Inl TForeignKey
         else Inr (db\<lparr>task_runs := task_runs db @ [r]\<rparr>))"

definition FinalizeTaskRun ::
  "int \<Rightarrow> string \<Rightarrow> string \<Rightarrow> string \<Rightarrow> int \<Rightarrow> task_db \<Rightarrow> task_error option \<times> task_db" where
  "FinalizeTaskRun now i state errMsg finished0 db =
     (let finished = (if finished0 = 0 then now else finished0); p = (\<lambda>r. tn_ID r = i);
          db1 = db\<lparr>task_runs := sql_update p
                (\<lambda>r. r\<lparr>tn_State := state, tn_Error := errMsg, tn_Finished := Some finished\<rparr>) (task_runs db)\<rparr>
      in if rows_affected p (task_runs db) = 0 then (Some TNotFound, db1) else (None, db1))"

definition MarkTaskRunAwaiting :: "string \<Rightarrow> task_db \<Rightarrow> task_error option \<times> task_db" where
  "MarkTaskRunAwaiting i db =
     (let p = (\<lambda>r. tn_ID r = i);
          db1 = db\<lparr>task_runs := sql_update p
                (\<lambda>r. r\<lparr>tn_State := ''awaiting_approval'', tn_Error := []\<rparr>) (task_runs db)\<rparr>
      in if rows_affected p (task_runs db) = 0 then (Some TNotFound, db1) else (None, db1))"

definition TaskRun_get :: "string \<Rightarrow> task_db \<Rightarrow> TaskRun option" where
  "TaskRun_get i db = sql_get tn_ID i (task_runs db)"

definition TaskRunsForHost :: "string \<Rightarrow> int \<Rightarrow> task_db \<Rightarrow> TaskRun list" where
  "TaskRunsForHost agent limit db =
     take (clamp_limit 20 limit)
       (sort_key (\<lambda>r. - tn_Started r) (filter (\<lambda>r. tn_AgentID r = agent) (task_runs db)))"

definition ListTaskRuns :: "int \<Rightarrow> task_db \<Rightarrow> TaskRun list" where
  "ListTaskRuns limit db = take (clamp_limit 50 limit) (sort_key (\<lambda>r. - tn_Started r) (task_runs db))"

definition step_key :: "TaskRunStep \<Rightarrow> string \<times> int" where
  "step_key s = (ts_RunID s, ts_StepIdx s)"

text \<open>\<open>INSERT OR REPLACE\<close>: the old row goes, the new one is added.\<close>

definition RecordTaskRunStep :: "TaskRunStep \<Rightarrow> task_db \<Rightarrow> task_error + task_db" where
  "RecordTaskRunStep s db =
     (if ts_RunID s \<notin> tn_ID ` set (task_runs db) then Inl TForeignKey
      else Inr (db\<lparr>task_run_steps :=
              sql_delete (\<lambda>x. step_key x = step_key s) (task_run_steps db) @ [s]\<rparr>))"

definition TaskRunSteps :: "string \<Rightarrow> task_db \<Rightarrow> TaskRunStep list" where
  "TaskRunSteps run db = sort_key ts_StepIdx (filter (\<lambda>s. ts_RunID s = run) (task_run_steps db))"

section \<open>Playbooks\<close>

definition CreatePlaybook :: "int \<Rightarrow> Playbook \<Rightarrow> task_db \<Rightarrow> task_error + task_db" where
  "CreatePlaybook now p0 db =
     (let p = p0\<lparr>pb_Created := (if pb_Created p0 = 0 then now else pb_Created p0)\<rparr>
      in if pb_ID p \<in> pb_ID ` set (playbooks db) then Inl TUnique
         else if pb_TaskID p \<notin> tk_ID ` set (tasks db) then Inl TForeignKey
         else Inr (db\<lparr>playbooks := playbooks db @ [p]\<rparr>))"

definition Playbook_get :: "string \<Rightarrow> task_db \<Rightarrow> Playbook option" where
  "Playbook_get i db = sql_get pb_ID i (playbooks db)"

definition ListPlaybooks :: "task_db \<Rightarrow> Playbook list" where
  "ListPlaybooks db = sort_key (\<lambda>p. - pb_Created p) (playbooks db)"

section \<open>Jobs\<close>

definition CreateJob :: "int \<Rightarrow> Job \<Rightarrow> task_db \<Rightarrow> task_error + task_db" where
  "CreateJob now j0 db =
     (let j = j0\<lparr>jb_Created := (if jb_Created j0 = 0 then now else jb_Created j0), jb_Updated := now\<rparr>
      in if jb_ID j \<in> jb_ID ` set (jobs db) then Inl TUnique
         else if jb_TaskID j \<notin> tk_ID ` set (tasks db) then Inl TForeignKey
         else Inr (db\<lparr>jobs := jobs db @ [j]\<rparr>))"

text \<open>
  \<open>UpdateJob\<close> stamps the caller's value but its statement writes no \<open>updated\<close> column.  The
  foreign key is checked for the row it changes only.
\<close>

definition UpdateJob :: "int \<Rightarrow> Job \<Rightarrow> task_db \<Rightarrow> (task_error + Job) \<times> task_db" where
  "UpdateJob now j0 db =
     (let j = j0\<lparr>jb_Updated := now\<rparr>; p = (\<lambda>x. jb_ID x = jb_ID j)
      in if rows_affected p (jobs db) = 0 then (Inl TNotFound, db)
         else if jb_TaskID j \<notin> tk_ID ` set (tasks db) then (Inl TForeignKey, db)
         else (Inr j, db\<lparr>jobs := sql_update p
                (\<lambda>x. x\<lparr>jb_Name := jb_Name j, jb_TaskID := jb_TaskID j, jb_TaskVersion := jb_TaskVersion j,
                        jb_Cron := jb_Cron j, jb_Selector := jb_Selector j,
                        jb_MaxRunSeconds := jb_MaxRunSeconds j, jb_Enabled := jb_Enabled j\<rparr>) (jobs db)\<rparr>))"

definition GetJob :: "string \<Rightarrow> task_db \<Rightarrow> Job option" where
  "GetJob i db = sql_get jb_ID i (jobs db)"

definition GetJobByName :: "string \<Rightarrow> task_db \<Rightarrow> Job option" where
  "GetJobByName n db = sql_get jb_Name n (jobs db)"

definition ListJobs :: "task_db \<Rightarrow> Job list" where
  "ListJobs db = sort_key (\<lambda>j. - jb_Created j) (jobs db)"

text \<open>Assignments and runs of a deleted job go with it (\<open>ON DELETE CASCADE\<close>).\<close>

definition DeleteJob :: "string \<Rightarrow> task_db \<Rightarrow> task_error + task_db" where
  "DeleteJob i db =
     (if rows_affected (\<lambda>j. jb_ID j = i) (jobs db) = 0 then Inl TNotFound
      else Inr (db\<lparr>jobs := sql_delete (\<lambda>j. jb_ID j = i) (jobs db),
                   job_assignments := sql_delete (\<lambda>a. ja_JobID a = i) (job_assignments db),
                   job_runs := sql_delete (\<lambda>r. jn_JobID r = i) (job_runs db)\<rparr>))"

definition ja_key :: "JobAssignment \<Rightarrow> string \<times> string" where
  "ja_key a = (ja_JobID a, ja_AgentID a)"

definition AssignJob :: "int \<Rightarrow> JobAssignment \<Rightarrow> task_db \<Rightarrow> task_error + task_db" where
  "AssignJob now a0 db =
     (let a = a0\<lparr>ja_AssignedAt := (if ja_AssignedAt a0 = 0 then now else ja_AssignedAt a0)\<rparr>
      in if ja_JobID a \<notin> jb_ID ` set (jobs db) then Inl TForeignKey
         else Inr (db\<lparr>job_assignments := sql_upsert ja_key
                 (\<lambda>x. x\<lparr>ja_AssignedAt := ja_AssignedAt a\<rparr>) a (job_assignments db)\<rparr>))"

definition UnassignJob :: "string \<Rightarrow> string \<Rightarrow> task_db \<Rightarrow> task_db" where
  "UnassignJob job agent db =
     db\<lparr>job_assignments := sql_delete (\<lambda>a. ja_JobID a = job \<and> ja_AgentID a = agent) (job_assignments db)\<rparr>"

definition JobAssignmentsForAgent :: "string \<Rightarrow> task_db \<Rightarrow> JobAssignment list" where
  "JobAssignmentsForAgent agent db = filter (\<lambda>a. ja_AgentID a = agent) (job_assignments db)"

definition JobAssignmentsForJob :: "string \<Rightarrow> task_db \<Rightarrow> JobAssignment list" where
  "JobAssignmentsForJob job db = filter (\<lambda>a. ja_JobID a = job) (job_assignments db)"

definition UpdateJobAssignmentState ::
  "int \<Rightarrow> string \<Rightarrow> string \<Rightarrow> string \<Rightarrow> int \<Rightarrow> task_db \<Rightarrow> task_db" where
  "UpdateJobAssignmentState now job agent state ranAt0 db =
     (let ranAt = (if ranAt0 = 0 then now else ranAt0)
      in db\<lparr>job_assignments := sql_update (\<lambda>a. ja_JobID a = job \<and> ja_AgentID a = agent)
              (\<lambda>a. a\<lparr>ja_LastRunState := state, ja_LastRunAt := ranAt\<rparr>) (job_assignments db)\<rparr>)"

definition CreateJobRun :: "int \<Rightarrow> JobRun \<Rightarrow> task_db \<Rightarrow> task_error + task_db" where
  "CreateJobRun now r0 db =
     (let r = r0\<lparr>jn_ScheduledAt := (if jn_ScheduledAt r0 = 0 then now else jn_ScheduledAt r0)\<rparr>
      in if jn_ID r \<in> jn_ID ` set (job_runs db) then Inl TUnique
         else if jn_JobID r \<notin> jb_ID ` set (jobs db) \<or> jn_TaskID r \<notin> tk_ID ` set (tasks db)
           then Inl TForeignKey
         else Inr (db\<lparr>job_runs := job_runs db @ [r]\<rparr>))"

definition FinalizeJobRun :: "int \<Rightarrow> string \<Rightarrow> string \<Rightarrow> string \<Rightarrow> task_db \<Rightarrow> task_db" where
  "FinalizeJobRun now i state errMsg db =
     db\<lparr>job_runs := sql_update (\<lambda>r. jn_ID r = i)
         (\<lambda>r. r\<lparr>jn_State := state, jn_Error := errMsg, jn_FinishedAt := now\<rparr>) (job_runs db)\<rparr>"

definition GetJobRun :: "string \<Rightarrow> task_db \<Rightarrow> JobRun option" where
  "GetJobRun i db = sql_get jn_ID i (job_runs db)"

definition JobRunsForJob :: "string \<Rightarrow> int \<Rightarrow> task_db \<Rightarrow> JobRun list" where
  "JobRunsForJob job limit db =
     take (clamp_limit 50 limit)
       (sort_key (\<lambda>r. - jn_ScheduledAt r) (filter (\<lambda>r. jn_JobID r = job) (job_runs db)))"

definition ListJobRuns :: "int \<Rightarrow> task_db \<Rightarrow> JobRun list" where
  "ListJobRuns limit db = take (clamp_limit 50 limit) (sort_key (\<lambda>r. - jn_ScheduledAt r) (job_runs db))"

section \<open>PTY sessions\<close>

definition CreateSession :: "int \<Rightarrow> (string \<Rightarrow> bool) \<Rightarrow> PtySession \<Rightarrow> task_db \<Rightarrow> task_error + task_db" where
  "CreateSession now known s0 db =
     (if ps_ID s0 = [] then Inl TIDRequired
      else
        let s = s0\<lparr>ps_Opened := (if ps_Opened s0 = 0 then now else ps_Opened s0),
                   ps_State := (if ps_State s0 = [] then ''open'' else ps_State s0), ps_Closed := None\<rparr>
        in if ps_ID s \<in> ps_ID ` set (pty_sessions db) then Inl TUnique
           else if \<not> known (ps_AgentID s) then Inl TForeignKey
           else Inr (db\<lparr>pty_sessions := pty_sessions db @ [s]\<rparr>))"

definition UpdateSessionState :: "int \<Rightarrow> string \<Rightarrow> string \<Rightarrow> int \<Rightarrow> string \<Rightarrow> task_db \<Rightarrow> task_db" where
  "UpdateSessionState now i state exitCode errMsg db =
     db\<lparr>pty_sessions := sql_update (\<lambda>s. ps_ID s = i)
         (\<lambda>s. s\<lparr>ps_State := state, ps_ExitCode := Some exitCode, ps_Error := errMsg,
                 ps_Closed := Some now\<rparr>) (pty_sessions db)\<rparr>"

section \<open>Integrity\<close>

text \<open>The keys and foreign keys of the schema.\<close>

definition keys_ok :: "task_db \<Rightarrow> bool" where
  "keys_ok db \<longleftrightarrow> keyed tk_ID (tasks db) \<and> keyed tk_Name (tasks db) \<and> keyed tv_key (task_versions db) \<and>
     keyed tn_ID (task_runs db) \<and> keyed step_key (task_run_steps db) \<and> keyed pb_ID (playbooks db) \<and>
     keyed jb_ID (jobs db) \<and> keyed ja_key (job_assignments db) \<and> keyed jn_ID (job_runs db)"

definition refs_ok :: "task_db \<Rightarrow> bool" where
  "refs_ok db \<longleftrightarrow>
     tv_TaskID ` set (task_versions db) \<subseteq> tk_ID ` set (tasks db) \<and>
     tn_TaskID ` set (task_runs db) \<subseteq> tk_ID ` set (tasks db) \<and>
     ts_RunID ` set (task_run_steps db) \<subseteq> tn_ID ` set (task_runs db) \<and>
     pb_TaskID ` set (playbooks db) \<subseteq> tk_ID ` set (tasks db) \<and>
     jb_TaskID ` set (jobs db) \<subseteq> tk_ID ` set (tasks db) \<and>
     ja_JobID ` set (job_assignments db) \<subseteq> jb_ID ` set (jobs db) \<and>
     jn_JobID ` set (job_runs db) \<subseteq> jb_ID ` set (jobs db) \<and>
     jn_TaskID ` set (job_runs db) \<subseteq> tk_ID ` set (tasks db)"

definition empty_tasks :: task_db where
  "empty_tasks = \<lparr>tasks = [], task_versions = [], task_runs = [], task_run_steps = [], playbooks = [],
     jobs = [], job_assignments = [], job_runs = [], pty_sessions = []\<rparr>"

inductive task_step :: "task_db \<Rightarrow> task_db \<Rightarrow> bool" where
  create_task: "CreateTask now t db = Inr db' \<Longrightarrow> task_step db db'"
| new_version: "UpsertTaskVersion now v db = Inr db' \<Longrightarrow> task_step db db'"
| create_run: "CreateTaskRun now r db = Inr db' \<Longrightarrow> task_step db db'"
| finalize_run: "task_step db (snd (FinalizeTaskRun now i state err fin db))"
| await_run: "task_step db (snd (MarkTaskRunAwaiting i db))"
| record_step: "RecordTaskRunStep s db = Inr db' \<Longrightarrow> task_step db db'"
| create_playbook: "CreatePlaybook now p db = Inr db' \<Longrightarrow> task_step db db'"
| create_job: "CreateJob now j db = Inr db' \<Longrightarrow> task_step db db'"
| update_job: "task_step db (snd (UpdateJob now j db))"
| delete_job: "DeleteJob i db = Inr db' \<Longrightarrow> task_step db db'"
| assign: "AssignJob now a db = Inr db' \<Longrightarrow> task_step db db'"
| unassign: "task_step db (UnassignJob job agent db)"
| assignment_state: "task_step db (UpdateJobAssignmentState now job agent state at db)"
| create_job_run: "CreateJobRun now jr db = Inr db' \<Longrightarrow> task_step db db'"
| finalize_job_run: "task_step db (FinalizeJobRun now i state err db)"
| create_session: "CreateSession now known s db = Inr db' \<Longrightarrow> task_step db db'"
| session_state: "task_step db (UpdateSessionState now i state x err db)"

lemmas task_op_defs = CreateTask_def UpsertTaskVersion_def CreateTaskRun_def FinalizeTaskRun_def
  MarkTaskRunAwaiting_def RecordTaskRunStep_def CreatePlaybook_def CreateJob_def UpdateJob_def
  DeleteJob_def AssignJob_def UnassignJob_def UpdateJobAssignmentState_def CreateJobRun_def
  FinalizeJobRun_def CreateSession_def UpdateSessionState_def

lemma set_sql_delete: "set (sql_delete p rows) = {r \<in> set rows. \<not> p r}"
  by (auto simp: sql_delete_def)

lemma keyed_snoc: "keyed key (rows @ [r]) \<longleftrightarrow> keyed key rows \<and> key r \<notin> key ` set rows"
  by (auto simp: keyed_def)

lemma image_sql_delete: "key ` set (sql_delete p rows) \<subseteq> key ` set rows"
  by (auto simp: sql_delete_def)

lemma image_sql_delete_key: "key ` set (sql_delete (\<lambda>r. key r = k) rows) = key ` set rows - {k}"
  by (auto simp: sql_delete_def)

lemma image_sql_update_subset:
  "(\<And>r. p r \<Longrightarrow> g (f r) \<in> A) \<Longrightarrow> g ` set rows \<subseteq> A \<Longrightarrow> g ` set (sql_update p f rows) \<subseteq> A"
  by (auto simp: set_sql_update)

lemma image_sql_upsert:
  "(\<And>x. key (upd x) = key x) \<Longrightarrow> g r \<in> A \<Longrightarrow> (\<And>x. g (upd x) = g x) \<Longrightarrow> g ` set rows \<subseteq> A \<Longrightarrow>
    g ` set (sql_upsert key upd r rows) \<subseteq> A"
  by (auto simp: sql_upsert_def set_sql_update split: if_splits)

lemma keys_ok_step: "task_step db db' \<Longrightarrow> keys_ok db \<Longrightarrow> keys_ok db'"
  by (induction rule: task_step.induct)
    (auto simp: task_op_defs Let_def keys_ok_def keyed_snoc keyed_sql_delete set_sql_delete
      split: if_splits
      intro!: keyed_sql_update keyed_sql_upsert simp: ja_key_def tv_key_def step_key_def)

text \<open>A stored version is never changed or removed.\<close>

lemma versions_step: "task_step db db' \<Longrightarrow> set (task_versions db) \<subseteq> set (task_versions db')"
  by (induction rule: task_step.induct) (auto simp: task_op_defs Let_def split: if_splits)

lemma refs_ok_step: "task_step db db' \<Longrightarrow> refs_ok db \<Longrightarrow> refs_ok db'"
proof (induction rule: task_step.induct)
  case (update_job db now j)
  then show ?case
    by (simp add: UpdateJob_def refs_ok_def Let_def image_sql_update image_sql_update_subset)
next
  case (delete_job i db db')
  then show ?case
    by (auto simp: DeleteJob_def refs_ok_def image_sql_delete_key image_subset_iff split: if_splits)
      (auto simp: set_sql_delete)
next
  case (assign now a db db')
  let ?at = "if ja_AssignedAt a = 0 then now else ja_AssignedAt a"
  from assign have at: "ja_JobID a \<in> jb_ID ` set (jobs db)"
    "db' = db\<lparr>job_assignments := sql_upsert ja_key (\<lambda>x. x\<lparr>ja_AssignedAt := ?at\<rparr>) (a\<lparr>ja_AssignedAt := ?at\<rparr>)
       (job_assignments db)\<rparr>"
    by (simp_all add: AssignJob_def Let_def split: if_splits)
  have "ja_JobID ` set (sql_upsert ja_key (\<lambda>x. x\<lparr>ja_AssignedAt := ?at\<rparr>) (a\<lparr>ja_AssignedAt := ?at\<rparr>)
      (job_assignments db)) \<subseteq> jb_ID ` set (jobs db)"
    by (rule image_sql_upsert) (use at(1) assign(2) in \<open>simp_all add: ja_key_def refs_ok_def\<close>)
  then show ?case using assign(2) by (simp add: at(2) refs_ok_def)
next
  case (create_task now t db db')
  then show ?case
    by (auto simp: CreateTask_def Let_def refs_ok_def image_sql_update set_sql_delete image_subset_iff split: if_splits)
next
  case (new_version now v db db')
  then show ?case
    by (auto simp: UpsertTaskVersion_def Let_def refs_ok_def image_sql_update image_subset_iff split: if_splits)
next
  case (create_run now r db db')
  then show ?case
    by (auto simp: CreateTaskRun_def Let_def refs_ok_def image_sql_update set_sql_delete image_subset_iff split: if_splits)
next
  case (finalize_run db now i state err fin)
  then show ?case
    by (simp_all add: FinalizeTaskRun_def Let_def refs_ok_def image_sql_update split: if_splits)
next
  case (await_run db i)
  then show ?case
    by (simp_all add: MarkTaskRunAwaiting_def Let_def refs_ok_def image_sql_update split: if_splits)
next
  case (record_step s db db')
  then show ?case
    by (auto simp: RecordTaskRunStep_def Let_def refs_ok_def image_sql_update set_sql_delete image_subset_iff split: if_splits)
next
  case (create_playbook now p db db')
  then show ?case
    by (auto simp: CreatePlaybook_def Let_def refs_ok_def image_sql_update set_sql_delete image_subset_iff split: if_splits)
next
  case (create_job now j db db')
  then show ?case
    by (auto simp: CreateJob_def Let_def refs_ok_def image_sql_update set_sql_delete image_subset_iff split: if_splits)
next
  case (unassign db job agent)
  then show ?case
    by (auto simp: UnassignJob_def Let_def refs_ok_def image_sql_update set_sql_delete image_subset_iff split: if_splits)
next
  case (assignment_state db now job agent state at)
  then show ?case
    by (simp_all add: UpdateJobAssignmentState_def Let_def refs_ok_def image_sql_update split: if_splits)
next
  case (create_job_run now jr db db')
  then show ?case
    by (auto simp: CreateJobRun_def Let_def refs_ok_def image_sql_update set_sql_delete image_subset_iff split: if_splits)
next
  case (finalize_job_run db now i state err)
  then show ?case
    by (simp_all add: FinalizeJobRun_def Let_def refs_ok_def image_sql_update split: if_splits)
next
  case (create_session now known s db db')
  then show ?case
    by (auto simp: CreateSession_def Let_def refs_ok_def image_sql_update set_sql_delete image_subset_iff split: if_splits)
next
  case (session_state db now i state x err)
  then show ?case
    by (auto simp: UpdateSessionState_def Let_def refs_ok_def image_sql_update set_sql_delete image_subset_iff split: if_splits)
qed

text \<open>
  C27: The task store stays consistent from the empty database through any sequence of its
  operations: ids, task names, (task, version), (run, step) and (job, host) pairs stay unique;
  every version, run, playbook, job, assignment and step refers to a row that exists (deleting
  a job takes its assignments and runs along); and a stored task version is immutable.
\<close>
theorem task_store_consistent:
  assumes "task_step\<^sup>*\<^sup>* empty_tasks db" "task_step\<^sup>*\<^sup>* db db'"
  shows "keys_ok db \<and> refs_ok db \<and>
    (\<forall>v. TaskVersion_get i n db = Some v \<longrightarrow> TaskVersion_get i n db' = Some v)"
proof -
  have inv: "keys_ok d' \<and> refs_ok d'" if "task_step\<^sup>*\<^sup>* d d'" "keys_ok d" "refs_ok d" for d d'
    using that by (induction rule: rtranclp_induct) (auto dest: keys_ok_step refs_ok_step)
  have "keys_ok empty_tasks" "refs_ok empty_tasks"
    by (simp_all add: empty_tasks_def keys_ok_def refs_ok_def keyed_def)
  from inv [OF assms(1) this] have db: "keys_ok db" "refs_ok db" by auto
  from inv [OF assms(2) this] have db': "keys_ok db'" by auto
  have "set (task_versions db) \<subseteq> set (task_versions db')"
    using assms(2) by (induction rule: rtranclp_induct) (auto dest: versions_step)
  then have "TaskVersion_get i n db' = Some v" if "TaskVersion_get i n db = Some v" for v
    using that db db' by (auto simp: TaskVersion_get_def keys_ok_def sql_get_Some_iff)
  with db show ?thesis by blast
qed

definition task_sample :: Task where
  "task_sample = \<lparr>tk_ID = ''t1'', tk_Name = ''patch'', tk_Description = [], tk_Created = 1, tk_Updated = 1\<rparr>"

definition version_sample :: TaskVersion where
  "version_sample = \<lparr>tv_TaskID = ''t1'', tv_Version = 1, tv_StepsJSON = ''[]'', tv_Created = 1\<rparr>"

definition one_task :: task_db where
  "one_task = empty_tasks\<lparr>tasks := [task_sample], task_versions := [version_sample]\<rparr>"

lemma one_task_reach: "task_step\<^sup>*\<^sup>* empty_tasks one_task"
proof -
  have "CreateTask 1 task_sample empty_tasks = Inr (empty_tasks\<lparr>tasks := [task_sample]\<rparr>)"
    by (simp add: CreateTask_def empty_tasks_def task_sample_def)
  moreover have "UpsertTaskVersion 1 version_sample (empty_tasks\<lparr>tasks := [task_sample]\<rparr>) = Inr one_task"
    by (simp add: UpsertTaskVersion_def empty_tasks_def task_sample_def version_sample_def one_task_def
        tv_key_def sql_update_def)
  ultimately show ?thesis
    by (meson converse_rtranclp_into_rtranclp rtranclp.rtrancl_refl create_task new_version)
qed

theorem task_store_consistent_witness:
  "TaskVersion_get ''t1'' 1 (snd (FinalizeTaskRun 5 ''x'' ''failed'' [] 0 one_task)) = Some version_sample"
proof -
  have "task_step\<^sup>*\<^sup>* one_task (snd (FinalizeTaskRun 5 ''x'' ''failed'' [] 0 one_task))"
    by (rule r_into_rtranclp) (rule finalize_run)
  moreover have "TaskVersion_get ''t1'' 1 one_task = Some version_sample"
    by (simp add: TaskVersion_get_def sql_get_def one_task_def tv_key_def version_sample_def)
  ultimately show ?thesis using task_store_consistent [OF one_task_reach] by blast
qed

end
