(* ===== verification/ApprovalStore.thy ===== *)
theory ApprovalStore
  imports Tables
begin

text \<open>
  Approval requests, \<open>src/internal/store/approvals.go\<close>: the table and its statements.  The
  states are the strings of the schema's check constraint; a decision column that is NULL
  reads as zero or the empty string.
\<close>

record ApprovalRequest =
  ap_ID :: string
  ap_ActionClass :: string
  ap_PayloadJSON :: string
  ap_AgentID :: string
  ap_ExecutionID :: string
  ap_RunID :: string
  ap_Actor :: string
  ap_ActorRole :: string
  ap_MatchedRules :: string
  ap_State :: string
  ap_CreatedUnix :: int
  ap_ExpiresUnix :: int
  ap_DecidedUnix :: int
  ap_DecidedBy :: string
  ap_DecisionReason :: string

type_synonym approval_table = "ApprovalRequest list"

datatype approval_error = RequestExists | BadState string | NotPending string

definition valid_states :: "string list" where
  "valid_states = [''pending'', ''approved'', ''denied'', ''expired'']"

definition CreateApprovalRequest ::
  "int \<Rightarrow> ApprovalRequest \<Rightarrow> approval_table \<Rightarrow> approval_error + approval_table" where
  "CreateApprovalRequest now r0 tbl =
     (let r = r0\<lparr>ap_State := (if ap_State r0 = [] then ''pending'' else ap_State r0),
                 ap_CreatedUnix := (if ap_CreatedUnix r0 = 0 then now else ap_CreatedUnix r0),
                 ap_DecidedUnix := 0, ap_DecidedBy := [], ap_DecisionReason := []\<rparr>
      in if ap_State r \<notin> set valid_states then Inl (BadState (ap_State r))
         else case sql_insert ap_ID r tbl of None \<Rightarrow> Inl RequestExists | Some tbl' \<Rightarrow> Inr tbl')"

definition GetApprovalRequest :: "string \<Rightarrow> approval_table \<Rightarrow> ApprovalRequest option" where
  "GetApprovalRequest i tbl = sql_get ap_ID i tbl"

text \<open>
  \<open>ExpireApprovalRequests\<close>: select the pending rows past their expiry at time \<open>now\<close>, then
  one update per row at time \<open>now'\<close>; the rows are returned as read, with the new state.
\<close>

fun expire_each :: "int \<Rightarrow> ApprovalRequest list \<Rightarrow> approval_table \<Rightarrow> approval_table" where
  "expire_each now' [] tbl = tbl"
| "expire_each now' (r # pending) tbl =
     expire_each now' pending
       (sql_update (\<lambda>x. ap_ID x = ap_ID r \<and> ap_State x = ''pending'')
         (\<lambda>x. x\<lparr>ap_State := ''expired'', ap_DecidedUnix := now',
                 ap_DecisionReason := ''expired before decision''\<rparr>) tbl)"

definition ExpireApprovalRequests ::
  "int \<Rightarrow> int \<Rightarrow> approval_table \<Rightarrow> ApprovalRequest list \<times> approval_table" where
  "ExpireApprovalRequests now now' tbl =
     (let pending = filter (\<lambda>r. ap_State r = ''pending'' \<and> ap_ExpiresUnix r \<le> now) tbl
      in if pending = [] then ([], tbl)
         else (map (\<lambda>r. r\<lparr>ap_State := ''expired''\<rparr>) pending, expire_each now' pending tbl))"

definition ListApprovalRequests ::
  "int \<Rightarrow> int \<Rightarrow> string \<Rightarrow> int \<Rightarrow> approval_table \<Rightarrow> ApprovalRequest list \<times> approval_table" where
  "ListApprovalRequests now now' state limit0 tbl =
     (let limit = nat (if limit0 \<le> 0 \<or> limit0 > 200 then 50 else limit0);
          tbl1 = snd (ExpireApprovalRequests now now' tbl)
      in (take limit (sort_key (\<lambda>r. - ap_CreatedUnix r)
            (filter (\<lambda>r. state = [] \<or> ap_State r = state) tbl1)), tbl1))"

definition DecideApprovalRequest ::
  "int \<Rightarrow> string \<Rightarrow> string \<Rightarrow> string \<Rightarrow> string \<Rightarrow> approval_table \<Rightarrow> approval_error + approval_table" where
  "DecideApprovalRequest now i state decidedBy reason tbl =
     (if state \<noteq> ''approved'' \<and> state \<noteq> ''denied'' then Inl (BadState state)
      else
        let p = (\<lambda>r. ap_ID r = i \<and> ap_State r = ''pending'');
            tbl1 = sql_update p (\<lambda>r. r\<lparr>ap_State := state, ap_DecidedUnix := now,
                     ap_DecidedBy := decidedBy, ap_DecisionReason := reason\<rparr>) tbl
        in if rows_affected p tbl = 0 then Inl (NotPending i) else Inr tbl1)"

section \<open>A request is decided once\<close>

inductive approval_step :: "approval_table \<Rightarrow> approval_table \<Rightarrow> bool" where
  create: "CreateApprovalRequest now r tbl = Inr tbl' \<Longrightarrow> approval_step tbl tbl'"
| decide: "DecideApprovalRequest now i state b reason tbl = Inr tbl' \<Longrightarrow> approval_step tbl tbl'"
| expire: "approval_step tbl (snd (ExpireApprovalRequests now now' tbl))"

text \<open>The payload of a request never changes, and once decided nothing of it does.\<close>

definition stays :: "ApprovalRequest \<Rightarrow> ApprovalRequest \<Rightarrow> bool" where
  "stays r r' \<longleftrightarrow> ap_ID r' = ap_ID r \<and> ap_PayloadJSON r' = ap_PayloadJSON r \<and>
     ap_ActionClass r' = ap_ActionClass r \<and> ap_AgentID r' = ap_AgentID r \<and>
     ap_RunID r' = ap_RunID r \<and> ap_ExpiresUnix r' = ap_ExpiresUnix r \<and>
     (ap_State r \<noteq> ''pending'' \<longrightarrow> r' = r)"

lemma stays_refl [simp]: "stays r r" by (simp add: stays_def)

lemma stays_trans: "stays r s \<Longrightarrow> stays s t \<Longrightarrow> stays r t"
  by (auto simp: stays_def)

definition all_stay :: "approval_table \<Rightarrow> approval_table \<Rightarrow> bool" where
  "all_stay tbl tbl' \<longleftrightarrow> (\<forall>r \<in> set tbl. \<exists>r' \<in> set tbl'. stays r r')"

lemma all_stay_trans: "all_stay a b \<Longrightarrow> all_stay b c \<Longrightarrow> all_stay a c"
  unfolding all_stay_def by (meson stays_trans)

lemma all_stay_update:
  "(\<And>r. p r \<Longrightarrow> stays r (f r)) \<Longrightarrow> all_stay tbl (sql_update p f tbl)"
proof (unfold all_stay_def, intro ballI)
  fix r assume *: "\<And>r. p r \<Longrightarrow> stays r (f r)" and r: "r \<in> set tbl"
  have "(if p r then f r else r) \<in> set (sql_update p f tbl)" using r by (auto simp: set_sql_update)
  moreover have "stays r (if p r then f r else r)" using * by simp
  ultimately show "\<exists>r' \<in> set (sql_update p f tbl). stays r r'" by blast
qed

lemma all_stay_superset: "set tbl \<subseteq> set tbl' \<Longrightarrow> all_stay tbl tbl'"
  unfolding all_stay_def by (auto intro: stays_refl)

lemma all_stay_expire_each: "all_stay tbl (expire_each now' pending tbl)"
proof (induction pending arbitrary: tbl)
  case Nil
  show ?case by (simp add: all_stay_superset)
next
  case (Cons r pending)
  have "all_stay tbl (sql_update (\<lambda>x. ap_ID x = ap_ID r \<and> ap_State x = ''pending'')
      (\<lambda>x. x\<lparr>ap_State := ''expired'', ap_DecidedUnix := now',
              ap_DecisionReason := ''expired before decision''\<rparr>) tbl)"
    by (rule all_stay_update) (simp add: stays_def)
  with Cons.IH show ?case by (auto intro: all_stay_trans)
qed

lemma approval_step_stays: "approval_step tbl tbl' \<Longrightarrow> all_stay tbl tbl'"
proof (induction rule: approval_step.induct)
  case (create now r tbl tbl')
  then show ?case
    by (auto simp: CreateApprovalRequest_def Let_def sql_insert_def split: if_splits intro!: all_stay_superset)
next
  case (decide now i state b reason tbl tbl')
  then show ?case
    by (auto simp: DecideApprovalRequest_def Let_def split: if_splits intro!: all_stay_update)
      (auto simp: stays_def)
next
  case (expire tbl now now')
  show ?case
    using all_stay_expire_each all_stay_superset by (auto simp: ExpireApprovalRequests_def Let_def)
qed

lemma approval_steps_stay: "approval_step\<^sup>*\<^sup>* tbl tbl' \<Longrightarrow> all_stay tbl tbl'"
  by (induction rule: rtranclp_induct) (auto intro: all_stay_superset all_stay_trans approval_step_stays)

text \<open>
  C11: An approval request is decided at most once, and its payload never changes: through any
  sequence of creations, decisions and expiries, a request keeps its id, class, payload, host,
  run and expiry; a request that is approved, denied or expired keeps every column; and a
  decision succeeds only on a request that is pending at that moment.
\<close>
theorem request_decided_once:
  assumes "approval_step\<^sup>*\<^sup>* tbl tbl'" "r \<in> set tbl"
  shows "(\<exists>r' \<in> set tbl'. stays r r') \<and>
    (\<forall>tbl''. DecideApprovalRequest now i state b reason tbl' = Inr tbl'' \<longrightarrow>
      (\<exists>x \<in> set tbl'. ap_ID x = i \<and> ap_State x = ''pending''))"
  using approval_steps_stay [OF assms(1)] assms(2)
  by (auto simp: all_stay_def DecideApprovalRequest_def Let_def rows_affected_def filter_empty_conv split: if_splits)

definition request_sample :: "string \<Rightarrow> int \<Rightarrow> ApprovalRequest" where
  "request_sample state expires = \<lparr>ap_ID = ''apr1'', ap_ActionClass = ''exec'', ap_PayloadJSON = ''{}'',
     ap_AgentID = ''h1'', ap_ExecutionID = ''e1'', ap_RunID = ''r1'', ap_Actor = ''ann'',
     ap_ActorRole = ''operator'', ap_MatchedRules = ''p1'', ap_State = state, ap_CreatedUnix = 10,
     ap_ExpiresUnix = expires, ap_DecidedUnix = 0, ap_DecidedBy = [], ap_DecisionReason = []\<rparr>"

theorem request_decided_once_witness:
  "\<exists>r' \<in> set (snd (ExpireApprovalRequests 50 50 [request_sample ''approved'' 20])).
     stays (request_sample ''approved'' 20) r'"
proof -
  have "approval_step\<^sup>*\<^sup>* [request_sample ''approved'' 20]
      (snd (ExpireApprovalRequests 50 50 [request_sample ''approved'' 20]))"
    by (rule r_into_rtranclp) (rule approval_step.expire)
  from request_decided_once [OF this, of "request_sample ''approved'' 20"] show ?thesis by simp
qed

end
