(* ===== verification/GoStrings.thy ===== *)
theory GoStrings
  imports Prelude
begin

text \<open>
  The part of Go's standard library the modelled code uses on strings: \<open>strings.HasPrefix\<close>,
  \<open>TrimPrefix\<close>, \<open>TrimSpace\<close>, \<open>Split\<close>, \<open>Cut\<close>, \<open>Join\<close>, \<open>Fields\<close>, \<open>Contains\<close>,
  \<open>fmt\<close>'s \<open>%d\<close>, and the big-endian byte encodings of \<open>encoding/binary\<close>.  They act on
  bytes; the white space of \<open>TrimSpace\<close> and \<open>Fields\<close> is Unicode's, recognised by the
  UTF-8 encodings of the \<open>White_Space\<close> code points.  No such encoding can start inside
  another UTF-8 sequence, so matching encodings bytewise is what the rune decoder does.
\<close>

section \<open>Prefixes\<close>

definition has_prefix :: "string \<Rightarrow> string \<Rightarrow> bool" where
  "has_prefix s p = (take (length p) s = p)"

definition trim_prefix :: "string \<Rightarrow> string \<Rightarrow> string" where
  "trim_prefix s p = (if has_prefix s p then drop (length p) s else s)"

definition has_suffix :: "string \<Rightarrow> string \<Rightarrow> bool" where
  "has_suffix s p = has_prefix (rev s) (rev p)"

lemma has_prefix_iff [go_string]: "has_prefix s p \<longleftrightarrow> (\<exists>t. s = p @ t)"
  by (auto simp: has_prefix_def) (metis append_take_drop_id)

lemma has_prefix_append [simp]: "has_prefix (p @ t) p"
  by (simp add: has_prefix_def)

lemma trim_prefix_append [simp]: "trim_prefix (p @ t) p = t"
  by (simp add: trim_prefix_def)

lemma has_suffix_iff [go_string]: "has_suffix s p \<longleftrightarrow> (\<exists>t. s = t @ p)"
  unfolding has_suffix_def has_prefix_iff by (metis rev_append rev_rev_ident)

lemma length_trim_prefix: "length (trim_prefix s p) \<le> length s"
  by (simp add: trim_prefix_def)

section \<open>White space\<close>

definition space_encodings :: "string list" where
  "space_encodings =
     [[CHR 0x09], [CHR 0x0A], [CHR 0x0B], [CHR 0x0C], [CHR 0x0D], [CHR 0x20],
      [CHR 0xC2, CHR 0x85], [CHR 0xC2, CHR 0xA0],
      [CHR 0xE1, CHR 0x9A, CHR 0x80],
      [CHR 0xE2, CHR 0x80, CHR 0x80], [CHR 0xE2, CHR 0x80, CHR 0x81],
      [CHR 0xE2, CHR 0x80, CHR 0x82], [CHR 0xE2, CHR 0x80, CHR 0x83],
      [CHR 0xE2, CHR 0x80, CHR 0x84], [CHR 0xE2, CHR 0x80, CHR 0x85],
      [CHR 0xE2, CHR 0x80, CHR 0x86], [CHR 0xE2, CHR 0x80, CHR 0x87],
      [CHR 0xE2, CHR 0x80, CHR 0x88], [CHR 0xE2, CHR 0x80, CHR 0x89],
      [CHR 0xE2, CHR 0x80, CHR 0x8A],
      [CHR 0xE2, CHR 0x80, CHR 0xA8], [CHR 0xE2, CHR 0x80, CHR 0xA9],
      [CHR 0xE2, CHR 0x80, CHR 0xAF], [CHR 0xE2, CHR 0x81, CHR 0x9F],
      [CHR 0xE3, CHR 0x80, CHR 0x80]]"

text \<open>Length of the white-space rune at the front of a byte string, 0 if there is none.\<close>

definition space_len :: "string list \<Rightarrow> string \<Rightarrow> nat" where
  "space_len encs s = (case find (has_prefix s) encs of None \<Rightarrow> 0 | Some e \<Rightarrow> length e)"

function trim_front :: "string list \<Rightarrow> string \<Rightarrow> string" where
  "trim_front encs s =
     (if s = [] \<or> space_len encs s = 0 then s else trim_front encs (drop (space_len encs s) s))"
  by pat_completeness auto
termination
  by (relation "measure (\<lambda>(encs, s). length s)") auto

declare trim_front.simps [simp del]

definition trim_space :: "string \<Rightarrow> string" where
  "trim_space s =
     rev (trim_front (map rev space_encodings) (rev (trim_front space_encodings s)))"

lemma length_trim_front: "length (trim_front encs s) \<le> length s"
proof (induction encs s rule: trim_front.induct)
  case (1 encs s)
  show ?case
  proof (cases "s = [] \<or> space_len encs s = 0")
    case True
    then show ?thesis by (subst trim_front.simps) simp
  next
    case False
    with 1 have "length (trim_front encs (drop (space_len encs s) s)) \<le> length s" by fastforce
    with False show ?thesis by (subst trim_front.simps) simp
  qed
qed

lemma length_trim_space: "length (trim_space s) \<le> length s"
  unfolding trim_space_def
  using length_trim_front [of space_encodings s]
    length_trim_front [of "map rev space_encodings" "rev (trim_front space_encodings s)"]
  by simp

lemma trim_front_nil [simp]: "trim_front encs [] = []"
  by (subst trim_front.simps) simp

lemma trim_space_nil [simp]: "trim_space [] = []"
  by (simp add: trim_space_def)

lemma trim_front_id: "space_len encs s = 0 \<Longrightarrow> trim_front encs s = s"
  by (subst trim_front.simps) simp

text \<open>Printable ASCII characters are not white space, at either end.\<close>

definition plain_char :: "char \<Rightarrow> bool" where
  "plain_char c \<longleftrightarrow> CHR 0x20 < c \<and> c < CHR 0x7F"

definition space_heads :: "char list" where
  "space_heads = map hd space_encodings @ map last space_encodings"

lemma space_heads_not_plain: "list_all (\<lambda>c. \<not> plain_char c) space_heads"
  by code_simp

lemma space_len_plain:
  assumes "plain_char c" "encs = space_encodings \<or> encs = map rev space_encodings"
  shows "space_len encs (c # s) = 0"
proof -
  have ne: "\<And>e. e \<in> set encs \<Longrightarrow> e \<noteq> [] \<and> hd e \<in> set space_heads"
    using assms(2) by (auto simp: space_encodings_def space_heads_def)
  have "\<not> has_prefix (c # s) e" if "e \<in> set encs" for e
  proof -
    from ne [OF that] obtain d t where "e = d # t" "d \<in> set space_heads" by (cases e) auto
    moreover have "d \<noteq> c"
      using \<open>d \<in> set space_heads\<close> space_heads_not_plain assms(1) by (auto simp: list_all_iff)
    ultimately show ?thesis by (auto simp: has_prefix_def)
  qed
  then have "find (has_prefix (c # s)) encs = None" by (auto simp: find_None_iff)
  then show ?thesis by (simp add: space_len_def)
qed

lemma trim_space_plain:
  assumes "s \<noteq> [] \<Longrightarrow> plain_char (hd s) \<and> plain_char (last s)"
  shows "trim_space s = s"
proof (cases "s = []")
  case False
  then obtain c t where s: "s = c # t" by (cases s) auto
  from False obtain d u where r: "rev s = d # u" by (cases "rev s") auto
  have "d = last s" using r by (metis last_rev list.sel(1) rev_rev_ident)
  with assms False have pd: "plain_char d" by simp
  have "trim_front space_encodings s = s"
    using assms s by (intro trim_front_id) (simp add: space_len_plain)
  moreover have "trim_front (map rev space_encodings) (rev s) = rev s"
    using pd r by (intro trim_front_id) (simp add: space_len_plain)
  ultimately show ?thesis by (simp add: trim_space_def)
qed simp

section \<open>Splitting and joining\<close>

text \<open>\<open>strings.Split(s, sep)\<close> and \<open>strings.Cut(s, sep)\<close> for a one-byte separator.\<close>

fun split_char :: "char \<Rightarrow> string \<Rightarrow> string list" where
  "split_char c [] = [[]]"
| "split_char c (x # xs) =
     (if x = c then [] # split_char c xs
      else (case split_char c xs of [] \<Rightarrow> [[x]] | y # ys \<Rightarrow> (x # y) # ys))"

definition cut_char :: "char \<Rightarrow> string \<Rightarrow> string \<times> string \<times> bool" where
  "cut_char c s =
     (if c \<in> set s then (takeWhile (\<lambda>x. x \<noteq> c) s, tl (dropWhile (\<lambda>x. x \<noteq> c) s), True)
      else (s, [], False))"

fun join_str :: "string \<Rightarrow> string list \<Rightarrow> string" where
  "join_str sep [] = []"
| "join_str sep [x] = x"
| "join_str sep (x # y # ys) = x @ sep @ join_str sep (y # ys)"

lemma split_char_not_nil [simp]: "split_char c s \<noteq> []"
  by (induction s) (auto split: list.splits)

lemma split_char_sep_free: "x \<in> set (split_char c s) \<Longrightarrow> c \<notin> set x"
proof (induction s arbitrary: x)
  case (Cons a s)
  then show ?case by (cases "split_char c s") (auto split: if_splits)
qed simp

lemma join_split_char: "join_str [c] (split_char c s) = s"
proof (induction s)
  case (Cons a s)
  obtain y ys where y: "split_char c s = y # ys" by (cases "split_char c s") auto
  with Cons show ?case by (cases ys) auto
qed simp

lemma split_char_append_sep:
  "c \<notin> set x \<Longrightarrow> split_char c (x @ c # s) = x # split_char c s"
  by (induction x) auto

lemma split_char_sep_free_id: "c \<notin> set x \<Longrightarrow> split_char c x = [x]"
  by (induction x) auto

lemma split_join_char:
  assumes "xs \<noteq> []" "\<And>x. x \<in> set xs \<Longrightarrow> c \<notin> set x"
  shows "split_char c (join_str [c] xs) = xs"
  using assms
proof (induction "[c]" xs rule: join_str.induct)
  case (2 x)
  then show ?case by (simp add: split_char_sep_free_id)
next
  case (3 x y ys)
  then show ?case by (simp add: split_char_append_sep)
qed simp

text \<open>\<open>strings.Fields\<close>: the maximal runs of bytes that are not white space.\<close>

function str_fields_from :: "string \<Rightarrow> string \<Rightarrow> string list" where
  "str_fields_from cur s =
     (case s of
        [] \<Rightarrow> (if cur = [] then [] else [cur])
      | c # cs \<Rightarrow>
          (if space_len space_encodings s = 0 then str_fields_from (cur @ [c]) cs
           else (if cur = [] then [] else [cur]) @
                str_fields_from [] (drop (space_len space_encodings s) s)))"
  by pat_completeness auto
termination
  by (relation "measure (\<lambda>(cur, s). length s)") auto

declare str_fields_from.simps [simp del]

definition str_fields :: "string \<Rightarrow> string list" where
  "str_fields s = str_fields_from [] s"

section \<open>Decimal rendering\<close>

text \<open>\<open>fmt.Sprintf("%d", n)\<close>.\<close>

definition digit_char :: "nat \<Rightarrow> char" where
  "digit_char d = char_of (48 + d)"

fun show_nat :: "nat \<Rightarrow> string" where
  "show_nat n = (if n < 10 then [digit_char n] else show_nat (n div 10) @ [digit_char (n mod 10)])"

declare show_nat.simps [simp del]

definition show_int :: "int \<Rightarrow> string" where
  "show_int i = (if i < 0 then CHR ''-'' # show_nat (nat (- i)) else show_nat (nat i))"

lemma of_char_digit: "d < 10 \<Longrightarrow> (of_char (digit_char d) :: nat) = 48 + d"
  by (simp add: digit_char_def)

lemma digit_char_inj: "d < 10 \<Longrightarrow> e < 10 \<Longrightarrow> digit_char d = digit_char e \<longleftrightarrow> d = e"
  by (metis add_left_cancel of_char_digit)

lemma show_nat_not_nil [simp]: "show_nat n \<noteq> []"
  by (subst show_nat.simps) simp

lemma show_nat_digits: "c \<in> set (show_nat n) \<Longrightarrow> \<exists>d<10. c = digit_char d"
proof (induction n rule: show_nat.induct)
  case (1 n)
  show ?case
  proof (cases "n < 10")
    case True
    with "1.prems" show ?thesis by (subst (asm) show_nat.simps) auto
  next
    case False
    with "1.prems" have "c \<in> set (show_nat (n div 10)) \<or> c = digit_char (n mod 10)"
      by (subst (asm) show_nat.simps) auto
    with False "1.IH" show ?thesis by (metis mod_less_divisor zero_less_numeral)
  qed
qed

lemma show_nat_inj: "show_nat m = show_nat n \<Longrightarrow> m = n"
proof (induction m arbitrary: n rule: show_nat.induct)
  case (1 m)
  show ?case
  proof (cases "m < 10")
    case True
    then have m: "show_nat m = [digit_char m]" by (subst show_nat.simps) simp
    show ?thesis
    proof (cases "n < 10")
      case True
      then have "show_nat n = [digit_char n]" by (subst show_nat.simps) simp
      with m "1.prems" \<open>m < 10\<close> True show ?thesis by (simp add: digit_char_inj)
    next
      case False
      then have "show_nat n = show_nat (n div 10) @ [digit_char (n mod 10)]"
        by (subst show_nat.simps) simp
      with m "1.prems" show_nat_not_nil [of "n div 10"] show ?thesis by (metis append_self_conv2 butlast.simps(2) butlast_snoc)
    qed
  next
    case False
    then have m: "show_nat m = show_nat (m div 10) @ [digit_char (m mod 10)]"
      by (subst show_nat.simps) simp
    show ?thesis
    proof (cases "n < 10")
      case True
      then have "show_nat n = [digit_char n]" by (subst show_nat.simps) simp
      with m "1.prems" show_nat_not_nil [of "m div 10"] show ?thesis by (metis append_self_conv2 butlast.simps(2) butlast_snoc)
    next
      case n: False
      then have "show_nat n = show_nat (n div 10) @ [digit_char (n mod 10)]"
        by (subst show_nat.simps) simp
      with m "1.prems" have "show_nat (m div 10) = show_nat (n div 10)"
        and "digit_char (m mod 10) = digit_char (n mod 10)" by auto
      with False "1.IH" have "m div 10 = n div 10" "m mod 10 = n mod 10"
        by (auto simp: digit_char_inj)
      then show ?thesis by (metis div_mult_mod_eq)
    qed
  qed
qed

lemma digit_neq [simp]: "d < 10 \<Longrightarrow> digit_char d \<noteq> CHR ''-''" "d < 10 \<Longrightarrow> digit_char d \<noteq> CHR 0x00"
  using of_char_digit [of d] by fastforce+

lemma show_nat_no_minus: "CHR ''-'' \<notin> set (show_nat n)"
  using show_nat_digits digit_neq(1) by metis

lemma show_int_inj: "show_int i = show_int j \<longleftrightarrow> i = j"
proof
  assume eq: "show_int i = show_int j"
  have *: "show_nat m \<noteq> CHR ''-'' # xs" for m xs
    using show_nat_no_minus [of m] by (metis list.set_intros(1))
  from eq show "i = j"
    using * by (auto simp: show_int_def dest: show_nat_inj split: if_splits) (metis *)+
qed simp

lemma show_int_no_nul: "CHR 0x00 \<notin> set (show_int i)"
proof -
  have "CHR 0x00 \<notin> set (show_nat n)" for n
    using show_nat_digits digit_neq(2) by metis
  then show ?thesis by (auto simp: show_int_def)
qed

section \<open>Big-endian bytes\<close>

definition be_byte :: "nat \<Rightarrow> nat \<Rightarrow> char" where
  "be_byte k n = char_of (n div 2 ^ (8 * k))"

definition be_bytes :: "nat \<Rightarrow> nat \<Rightarrow> string" where
  "be_bytes w n = map (\<lambda>k. be_byte k n) (rev [0..<w])"

fun be_val :: "string \<Rightarrow> nat" where
  "be_val [] = 0"
| "be_val (c # cs) = of_char c * 256 ^ length cs + be_val cs"

lemma length_be_bytes [simp]: "length (be_bytes w n) = w"
  by (simp add: be_bytes_def)

lemma be_bytes_Suc: "be_bytes (Suc w) n = be_byte w n # be_bytes w n"
  by (simp add: be_bytes_def)

lemma be_val_be_bytes: "be_val (be_bytes w n) = n mod 256 ^ w"
proof (induction w)
  case 0
  then show ?case by (simp add: be_bytes_def)
next
  case (Suc w)
  have "n mod (256 ^ w * 256) = 256 ^ w * (n div 256 ^ w mod 256) + n mod 256 ^ w"
    by (rule mod_mult2_eq)
  moreover have "(of_char (be_byte w n) :: nat) = n div 256 ^ w mod 256"
    by (simp add: be_byte_def power_mult)
  ultimately show ?case
    using Suc by (simp add: be_bytes_Suc mult.commute)
qed

lemma be_bytes_inj:
  "m < 256 ^ w \<Longrightarrow> n < 256 ^ w \<Longrightarrow> be_bytes w m = be_bytes w n \<longleftrightarrow> m = n"
  by (metis be_val_be_bytes mod_less)

end
