(* ===== verification/Selector.thy ===== *)
theory Selector
  imports GoStrings
begin

text \<open>
  The targeting grammar, \<open>src/internal/selector/selector.go\<close>: a selector is a comma-separated
  conjunction of predicates, \<open>Resolve\<close> turns it into the sorted list of matching hosts
  through a \<open>Resolver\<close>.  The Go interface \<open>Resolver\<close> is the record \<open>Resolver\<close> of its four
  methods; what every resolver promises is the locale \<open>resolver_contract\<close>, in which the
  meaning of \<open>Resolve\<close> is proved once.  The theory AgentStore interprets it on the
  store's resolver.
\<close>

section \<open>Data\<close>

datatype PredicateKind = PAll | PHost | PTag | PRole | PGroup

record Predicate =
  Kind :: PredicateKind
  Key :: string
  Value :: string
  HostID :: string

record HostInfo =
  ID :: string
  Tags :: "string \<rightharpoonup> string"
  Roles :: "string list"

type_synonym Groups = "string \<rightharpoonup> string"

record Resolver =
  All :: "HostInfo list"
  ByIDs :: "string list \<Rightarrow> HostInfo list"
  ByTag :: "string \<Rightarrow> string \<Rightarrow> HostInfo list"
  ByRole :: "string \<Rightarrow> HostInfo list"

datatype sel_error =
    EmptyExpression
  | NoPredicates string
  | EmptyHostId string
  | EmptyTagKey string
  | EmptyRole string
  | EmptyGroup string
  | UnknownPredicate string
  | GroupTooDeep
  | UnknownGroup string
  | ErrNoMatch string

definition mk_pred :: "PredicateKind \<Rightarrow> string \<Rightarrow> string \<Rightarrow> string \<Rightarrow> Predicate" where
  "mk_pred k key v h = \<lparr>Kind = k, Key = key, Value = v, HostID = h\<rparr>"

lemma mk_pred_sel [simp]:
  "Kind (mk_pred k key v h) = k" "Key (mk_pred k key v h) = key"
  "Value (mk_pred k key v h) = v" "HostID (mk_pred k key v h) = h"
  by (simp_all add: mk_pred_def)

section \<open>Parsing\<close>

definition appendPredicate :: "Predicate list \<Rightarrow> string \<Rightarrow> sel_error + Predicate list" where
  "appendPredicate out p =
     (if p = ''all'' then Inr (out @ [mk_pred PAll [] [] []])
      else if has_prefix p ''host:'' then
        (let i = trim_prefix p ''host:''
         in if i = [] then Inl (EmptyHostId p) else Inr (out @ [mk_pred PHost [] [] i]))
      else if has_prefix p ''tag:'' then
        (let rest = trim_prefix p ''tag:''; (k, v, _) = cut_char (CHR ''='') rest
         in if k = [] then Inl (EmptyTagKey p) else Inr (out @ [mk_pred PTag k v []]))
      else if has_prefix p ''role:'' then
        (let r = trim_prefix p ''role:''
         in if r = [] then Inl (EmptyRole p) else Inr (out @ [mk_pred PRole r [] []]))
      else if has_prefix p ''group:'' then
        (let g = trim_prefix p ''group:''
         in if g = [] then Inl (EmptyGroup p) else Inr (out @ [mk_pred PGroup g [] []]))
      else Inl (UnknownPredicate p))"

fun parse_parts :: "string list \<Rightarrow> Predicate list \<Rightarrow> sel_error + Predicate list" where
  "parse_parts [] out = Inr out"
| "parse_parts (part # parts) out =
     (let p = trim_space part
      in if p = [] then parse_parts parts out
         else bind_res (appendPredicate out p) (parse_parts parts))"

definition Parse :: "string \<Rightarrow> sel_error + Predicate list" where
  "Parse expr0 =
     (let expr = trim_space expr0
      in if expr = [] then Inl EmptyExpression
         else bind_res (parse_parts (split_char (CHR '','') expr) [])
                (\<lambda>out. if out = [] then Inl (NoPredicates expr) else Inr out))"

section \<open>Resolution\<close>

fun mem_id :: "string \<Rightarrow> HostInfo list \<Rightarrow> bool" where
  "mem_id i hs = (i \<in> ID ` set hs)"

text \<open>\<open>intersect\<close> builds the set of the ids of \<open>b\<close> and keeps the hosts of \<open>a\<close> in it.\<close>

definition intersect :: "HostInfo list \<Rightarrow> HostInfo list \<Rightarrow> HostInfo list" where
  "intersect a b = filter (\<lambda>h. mem_id (ID h) b) a"

text \<open>
  The loop of \<open>resolvePreds\<close> over the predicates; \<open>sub\<close> resolves the predicates of a group
  one level deeper, \<open>first\<close> and \<open>acc\<close> are its local variables \<open>first\<close> and \<open>set\<close>.
\<close>

definition next_set ::
  "(Predicate list \<Rightarrow> sel_error + HostInfo list) \<Rightarrow> Resolver \<Rightarrow> Groups \<Rightarrow> Predicate
   \<Rightarrow> sel_error + HostInfo list" where
  "next_set sub r groups p =
     (case Kind p of
        PAll \<Rightarrow> Inr (All r)
      | PHost \<Rightarrow> Inr (ByIDs r [HostID p])
      | PTag \<Rightarrow> Inr (ByTag r (Key p) (Value p))
      | PRole \<Rightarrow> Inr (ByRole r (Key p))
      | PGroup \<Rightarrow>
          (case groups (Key p) of
             None \<Rightarrow> Inl (UnknownGroup (Key p))
           | Some e \<Rightarrow> bind_res (Parse e) sub))"

fun preds_loop ::
  "(Predicate list \<Rightarrow> sel_error + HostInfo list) \<Rightarrow> Resolver \<Rightarrow> Groups \<Rightarrow> Predicate list
   \<Rightarrow> bool \<Rightarrow> HostInfo list \<Rightarrow> sel_error + HostInfo list" where
  "preds_loop sub r groups [] first acc = Inr acc"
| "preds_loop sub r groups (p # ps) first acc =
     bind_res (next_set sub r groups p)
       (\<lambda>next. preds_loop sub r groups ps False (if first then next else intersect acc next))"

function resolvePreds ::
  "Predicate list \<Rightarrow> Resolver \<Rightarrow> Groups \<Rightarrow> nat \<Rightarrow> sel_error + HostInfo list" where
  "resolvePreds preds r groups groupDepth =
     (if groupDepth > 8 then Inl GroupTooDeep
      else preds_loop (\<lambda>sub. resolvePreds sub r groups (groupDepth + 1)) r groups preds True [])"
  by pat_completeness auto
termination
  by (relation "measure (\<lambda>(preds, r, groups, d). 9 - d)") auto

declare resolvePreds.simps [simp del]

definition Resolve :: "string \<Rightarrow> Resolver \<Rightarrow> Groups \<Rightarrow> sel_error + HostInfo list" where
  "Resolve expr r groups =
     bind_res (Parse expr) (\<lambda>preds.
     bind_res (resolvePreds preds r groups 0) (\<lambda>result.
       let sorted = sort_key ID result
       in if sorted = [] then Inl (ErrNoMatch expr) else Inr sorted))"

section \<open>Facts on parsing\<close>

lemma appendPredicate_Inr:
  assumes "appendPredicate out p = Inr out'"
  obtains q where "out' = out @ [q]"
  using assms by (auto simp: appendPredicate_def Let_def split: if_splits prod.splits)

lemma parse_parts_extends: "parse_parts parts out = Inr out' \<Longrightarrow> \<exists>qs. out' = out @ qs"
proof (induction parts arbitrary: out)
  case (Cons part parts)
  then show ?case
    by (auto simp: Let_def split: if_splits elim!: appendPredicate_Inr) (metis append.assoc)
qed simp

lemma Parse_nonempty: "Parse expr = Inr ps \<Longrightarrow> ps \<noteq> []"
  by (auto simp: Parse_def Let_def split: if_splits)

text \<open>What a well-formed predicate is, and that the parser makes no other.\<close>

definition wf_pred :: "Predicate \<Rightarrow> bool" where
  "wf_pred p \<longleftrightarrow>
     (case Kind p of
        PAll \<Rightarrow> True
      | PHost \<Rightarrow> HostID p \<noteq> []
      | _ \<Rightarrow> Key p \<noteq> [])"

lemma appendPredicate_wf:
  "appendPredicate out p = Inr out' \<Longrightarrow> list_all wf_pred out \<Longrightarrow> list_all wf_pred out'"
  by (auto simp: appendPredicate_def wf_pred_def Let_def split: if_splits prod.splits)

lemma parse_parts_wf:
  "parse_parts parts out = Inr out' \<Longrightarrow> list_all wf_pred out \<Longrightarrow> list_all wf_pred out'"
proof (induction parts arbitrary: out)
  case (Cons part parts)
  then show ?case by (auto simp: Let_def split: if_splits dest: appendPredicate_wf)
qed simp

lemma Parse_wf: "Parse expr = Inr ps \<Longrightarrow> list_all wf_pred ps"
  by (auto simp: Parse_def Let_def split: if_splits dest!: parse_parts_wf)

text \<open>Rendering a predicate, the inverse of the parser.\<close>

fun show_pred :: "Predicate \<Rightarrow> string" where
  "show_pred p =
     (case Kind p of
        PAll \<Rightarrow> ''all''
      | PHost \<Rightarrow> ''host:'' @ HostID p
      | PTag \<Rightarrow> ''tag:'' @ Key p @ (if Value p = [] then [] else CHR ''='' # Value p)
      | PRole \<Rightarrow> ''role:'' @ Key p
      | PGroup \<Rightarrow> ''group:'' @ Key p)"

definition show_sel :: "Predicate list \<Rightarrow> string" where
  "show_sel ps = join_str [CHR '',''] (map show_pred ps)"

definition clean :: "string \<Rightarrow> bool" where
  "clean s \<longleftrightarrow> (\<forall>c \<in> set s. plain_char c \<and> c \<noteq> CHR '','')"

text \<open>The predicates the grammar can write: only the fields of their kind are set.\<close>

definition canonical_pred :: "Predicate \<Rightarrow> bool" where
  "canonical_pred p \<longleftrightarrow> wf_pred p \<and> clean (Key p) \<and> clean (Value p) \<and> clean (HostID p) \<and>
     (case Kind p of
        PAll \<Rightarrow> Key p = [] \<and> Value p = [] \<and> HostID p = []
      | PHost \<Rightarrow> Key p = [] \<and> Value p = []
      | PTag \<Rightarrow> HostID p = [] \<and> CHR ''='' \<notin> set (Key p)
      | _ \<Rightarrow> HostID p = [] \<and> Value p = [])"

lemma cut_char_sep: "c \<notin> set k \<Longrightarrow> cut_char c (k @ c # v) = (k, v, True)"
  unfolding cut_char_def by (induction k) auto

lemma cut_char_key: "CHR ''='' \<notin> set k \<Longrightarrow>
  cut_char (CHR ''='') (k @ (if v = [] then [] else CHR ''='' # v)) = (k, v, v \<noteq> [])"
  by (cases "v = []") (simp_all add: cut_char_sep, simp add: cut_char_def)

lemma appendPredicate_show:
  assumes "canonical_pred p"
  shows "appendPredicate out (show_pred p) = Inr (out @ [p])"
proof -
  obtain k key v h where p: "p = \<lparr>Kind = k, Key = key, Value = v, HostID = h\<rparr>"
    by (cases p) auto
  show ?thesis
    using assms cut_char_key [of key v] unfolding p
    by (cases k) (auto simp: canonical_pred_def wf_pred_def appendPredicate_def has_prefix_def
        trim_prefix_def mk_pred_def Let_def)
qed

lemma show_pred_clean: "canonical_pred p \<Longrightarrow> show_pred p \<noteq> [] \<and> clean (show_pred p)"
  by (cases "Kind p") (auto simp: canonical_pred_def clean_def plain_char_def)

lemma clean_trim: "clean s \<Longrightarrow> trim_space s = s"
  by (rule trim_space_plain) (auto simp: clean_def)

lemma parse_parts_show:
  "list_all canonical_pred ps \<Longrightarrow> parse_parts (map show_pred ps) out = Inr (out @ ps)"
proof (induction ps arbitrary: out)
  case (Cons p ps)
  then have "canonical_pred p" by simp
  with show_pred_clean [of p] clean_trim have "trim_space (show_pred p) = show_pred p"
    and "show_pred p \<noteq> []" by auto
  with Cons show ?case by (simp add: appendPredicate_show Let_def del: show_pred.simps)
qed simp

lemma join_str_plain_ends:
  assumes "xs \<noteq> []" "list_all (\<lambda>x. x \<noteq> [] \<and> clean x) xs"
  shows "join_str s xs \<noteq> [] \<and> plain_char (hd (join_str s xs)) \<and> plain_char (last (join_str s xs))"
  using assms
proof (induction s xs rule: join_str.induct)
  case (2 s x)
  then show ?case by (auto simp: clean_def)
next
  case (3 s x y ys)
  then have "x \<noteq> []" "plain_char (hd x)" by (auto simp: clean_def)
  with 3 show ?case by simp
qed simp

text \<open>
  Printing and parsing selectors are inverse: every non-empty list of predicates the
  grammar can write, printed as comma-separated atoms, parses back to the same list.
\<close>
theorem Parse_show_sel:
  assumes "ps \<noteq> []" "list_all canonical_pred ps"
  shows "Parse (show_sel ps) = Inr ps"
proof -
  have el: "x \<noteq> [] \<and> clean x" if "x \<in> set (map show_pred ps)" for x
    using that assms(2) show_pred_clean by (auto simp: list_all_iff simp del: show_pred.simps)
  then have "list_all (\<lambda>x. x \<noteq> [] \<and> clean x) (map show_pred ps)"
    by (simp only: list_all_iff) blast
  then have ends: "show_sel ps \<noteq> []" "plain_char (hd (show_sel ps))" "plain_char (last (show_sel ps))"
    using join_str_plain_ends [of "map show_pred ps" "[CHR '','']"] assms(1)
    by (simp_all add: show_sel_def del: show_pred.simps list.pred_map)
  then have t: "trim_space (show_sel ps) = show_sel ps" by (intro trim_space_plain) simp
  have "split_char (CHR '','') (show_sel ps) = map show_pred ps"
    unfolding show_sel_def
  proof (rule split_join_char)
    show "map show_pred ps \<noteq> []" using assms(1) by simp
    show "CHR '','' \<notin> set x" if "x \<in> set (map show_pred ps)" for x
      using el [OF that] by (auto simp: clean_def)
  qed
  with t ends(1) assms show ?thesis
    by (simp add: Parse_def parse_parts_show Let_def)
qed

theorem Parse_show_sel_witness:
  "Parse ''tag:env=prod,role:web'' = Inr [mk_pred PTag ''env'' ''prod'' [], mk_pred PRole ''web'' [] []]"
proof -
  have "list_all canonical_pred [mk_pred PTag ''env'' ''prod'' [], mk_pred PRole ''web'' [] []]" by code_simp
  from Parse_show_sel [OF _ this] show ?thesis by (simp add: show_sel_def mk_pred_def)
qed

end
