(* ===== verification/Resolution.thy ===== *)
theory Resolution
  imports Selector
begin

text \<open>
  What \<open>Resolve\<close> means.  \<open>holds\<close> is the specification: a host satisfies a predicate, a
  group by the conjunction it abbreviates.  The locale \<open>resolver_contract\<close> states what the
  selector package relies on from a \<open>Resolver\<close>, and the results below hold for every
  resolver that keeps it: soundness, completeness, determinism, and failure on cyclic groups.
\<close>

section \<open>Specification\<close>

definition has_tag :: "HostInfo \<Rightarrow> string \<Rightarrow> string \<Rightarrow> bool" where
  "has_tag h k v \<longleftrightarrow> (case Tags h k of None \<Rightarrow> False | Some x \<Rightarrow> v = [] \<or> x = v)"

inductive holds :: "Groups \<Rightarrow> HostInfo \<Rightarrow> Predicate \<Rightarrow> bool" for groups h where
  all: "Kind p = PAll \<Longrightarrow> holds groups h p"
| host: "Kind p = PHost \<Longrightarrow> ID h = HostID p \<Longrightarrow> holds groups h p"
| tag: "Kind p = PTag \<Longrightarrow> has_tag h (Key p) (Value p) \<Longrightarrow> holds groups h p"
| role: "Kind p = PRole \<Longrightarrow> Key p \<in> set (Roles h) \<Longrightarrow> holds groups h p"
| group: "Kind p = PGroup \<Longrightarrow> groups (Key p) = Some e \<Longrightarrow> Parse e = Inr qs \<Longrightarrow>
    \<forall>q \<in> set qs. holds groups h q \<Longrightarrow> holds groups h p"

inductive_cases holds_cases: "holds groups h p"

lemma holds_simps:
  "Kind p = PAll \<Longrightarrow> holds groups h p"
  "Kind p = PHost \<Longrightarrow> holds groups h p \<longleftrightarrow> ID h = HostID p"
  "Kind p = PTag \<Longrightarrow> holds groups h p \<longleftrightarrow> has_tag h (Key p) (Value p)"
  "Kind p = PRole \<Longrightarrow> holds groups h p \<longleftrightarrow> Key p \<in> set (Roles h)"
  by (auto intro: holds.intros elim: holds_cases)

lemma holds_group:
  "Kind p = PGroup \<Longrightarrow> groups (Key p) = Some e \<Longrightarrow> Parse e = Inr qs \<Longrightarrow>
    holds groups h p \<longleftrightarrow> (\<forall>q \<in> set qs. holds groups h q)"
  by (auto intro: holds.group elim: holds_cases)

definition group_free :: "Predicate list \<Rightarrow> bool" where
  "group_free ps \<longleftrightarrow> (\<forall>p \<in> set ps. Kind p \<noteq> PGroup)"

section \<open>The contract of a resolver\<close>

locale resolver_contract =
  fixes resolver_of :: "'s \<Rightarrow> Resolver" and hosts_of :: "'s \<Rightarrow> HostInfo list" and inv :: "'s \<Rightarrow> bool"
  assumes hosts_distinct: "inv s \<Longrightarrow> distinct (map ID (hosts_of s))"
    and All_set: "inv s \<Longrightarrow> set (All (resolver_of s)) = set (hosts_of s)"
    and All_distinct: "inv s \<Longrightarrow> distinct (map ID (All (resolver_of s)))"
    and ByIDs_set: "inv s \<Longrightarrow> set (ByIDs (resolver_of s) [i]) = {h \<in> set (hosts_of s). ID h = i}"
    and ByIDs_distinct: "inv s \<Longrightarrow> distinct (map ID (ByIDs (resolver_of s) [i]))"
    and ByTag_set: "inv s \<Longrightarrow> set (ByTag (resolver_of s) k v) = {h \<in> set (hosts_of s). has_tag h k v}"
    and ByTag_distinct: "inv s \<Longrightarrow> distinct (map ID (ByTag (resolver_of s) k v))"
    and ByRole_set: "inv s \<Longrightarrow>
      set (ByRole (resolver_of s) role) = {h \<in> set (hosts_of s). role \<in> set (Roles h)}"
    and ByRole_distinct: "inv s \<Longrightarrow> distinct (map ID (ByRole (resolver_of s) role))"
begin

lemmas sets = All_set ByIDs_set ByTag_set ByRole_set

lemmas distincts = All_distinct ByIDs_distinct ByTag_distinct ByRole_distinct

text \<open>What the hosts a selector resolves to must be.\<close>

definition result_ok :: "'s \<Rightarrow> Groups \<Rightarrow> Predicate list \<Rightarrow> HostInfo list \<Rightarrow> bool" where
  "result_ok s groups ps hs \<longleftrightarrow>
     set hs = {h \<in> set (hosts_of s). \<forall>p \<in> set ps. holds groups h p} \<and> distinct (map ID hs)"

lemma same_id: "inv s \<Longrightarrow> h \<in> set (hosts_of s) \<Longrightarrow> h' \<in> set (hosts_of s) \<Longrightarrow> ID h = ID h' \<Longrightarrow> h = h'"
  using hosts_distinct by (auto simp: distinct_map dest: inj_onD)

lemma set_intersect:
  assumes "inv s" "set a \<subseteq> set (hosts_of s)" "set b \<subseteq> set (hosts_of s)"
  shows "set (intersect a b) = set a \<inter> set b"
  using assms(2,3) same_id [OF assms(1)] by (auto simp: intersect_def)

lemma distinct_intersect: "distinct (map ID a) \<Longrightarrow> distinct (map ID (intersect a b))"
  by (simp add: intersect_def distinct_map_filter)

text \<open>One predicate, then the loop, then the recursion through groups.\<close>

lemma next_set_correct:
  assumes "inv s" "next_set sub (resolver_of s) groups p = Inr hs"
    and sub: "\<And>qs hs. sub qs = Inr hs \<Longrightarrow> qs \<noteq> [] \<Longrightarrow> result_ok s groups qs hs"
  shows "result_ok s groups [p] hs"
proof (cases "Kind p = PGroup")
  case True
  with assms(2) obtain e qs where g: "groups (Key p) = Some e" "Parse e = Inr qs" "sub qs = Inr hs"
    by (auto simp: next_set_def split: option.splits)
  with sub [of qs hs] Parse_nonempty True show ?thesis by (auto simp: holds_group result_ok_def)
next
  case False
  with assms(1,2) show ?thesis
    by (cases "Kind p") (auto simp: next_set_def holds_simps sets distincts result_ok_def)
qed

lemma preds_loop_correct:
  assumes "inv s" "preds_loop sub (resolver_of s) groups ps first acc = Inr hs"
    and sub: "\<And>qs hs. sub qs = Inr hs \<Longrightarrow> qs \<noteq> [] \<Longrightarrow> result_ok s groups qs hs"
    and "first \<Longrightarrow> ps \<noteq> []"
    and "\<not> first \<Longrightarrow> set acc \<subseteq> set (hosts_of s) \<and> distinct (map ID acc)"
  shows "set hs = {h \<in> (if first then set (hosts_of s) else set acc). \<forall>p \<in> set ps. holds groups h p}
    \<and> distinct (map ID hs)"
  using assms(2,4,5)
proof (induction ps arbitrary: first acc)
  case Nil
  then show ?case by auto
next
  case (Cons p ps)
  let ?N = "{h \<in> set (hosts_of s). holds groups h p}"
  from Cons.prems(1) obtain nx where nx: "next_set sub (resolver_of s) groups p = Inr nx"
    and rest: "preds_loop sub (resolver_of s) groups ps False
      (if first then nx else intersect acc nx) = Inr hs"
    by auto
  from next_set_correct [OF assms(1) nx sub] have nx_set: "set nx = ?N" "distinct (map ID nx)"
    by (auto simp: result_ok_def)
  let ?acc = "if first then nx else intersect acc nx"
  have acc: "set ?acc = (if first then ?N else set acc \<inter> ?N)" "distinct (map ID ?acc)"
    using nx_set Cons.prems(3) set_intersect [OF assms(1), of acc nx] distinct_intersect by auto
  have "set hs = {h \<in> set ?acc. \<forall>p \<in> set ps. holds groups h p} \<and> distinct (map ID hs)"
    using Cons.IH [OF rest] acc Cons.prems(3) by (auto split: if_splits)
  with acc(1) Cons.prems(3) show ?case by (auto split: if_splits)
qed

lemma resolvePreds_correct:
  assumes "inv s"
  shows "resolvePreds ps r groups d = Inr hs \<Longrightarrow> r = resolver_of s \<Longrightarrow> ps \<noteq> [] \<Longrightarrow>
    result_ok s groups ps hs"
proof (induction ps r groups d arbitrary: hs rule: resolvePreds.induct)
  case (1 ps r groups d)
  let ?sub = "\<lambda>sub. resolvePreds sub r groups (d + 1)"
  from "1.prems" have d: "\<not> 8 < d"
    and loop: "preds_loop ?sub (resolver_of s) groups ps True [] = Inr hs"
    by (simp_all add: resolvePreds.simps [of ps] split: if_splits)
  have "set hs = {h \<in> (if True then set (hosts_of s) else set []). \<forall>p \<in> set ps. holds groups h p}
      \<and> distinct (map ID hs)"
    by (rule preds_loop_correct [OF assms loop]) (use "1.IH" [OF d] "1.prems" in auto)
  then show ?case by (simp add: result_ok_def)
qed

theorem Resolve_correct:
  assumes "inv s" "Resolve expr (resolver_of s) groups = Inr hs"
  shows "\<exists>ps. Parse expr = Inr ps \<and> hs \<noteq> [] \<and> sorted (map ID hs) \<and> distinct (map ID hs) \<and>
    set hs = {h \<in> set (hosts_of s). \<forall>p \<in> set ps. holds groups h p}"
proof -
  from assms(2) obtain ps res where *: "Parse expr = Inr ps"
      "resolvePreds ps (resolver_of s) groups 0 = Inr res" "hs = sort_key ID res" "hs \<noteq> []"
    by (auto simp: Resolve_def Let_def split: if_splits)
  from resolvePreds_correct [OF assms(1) *(2) refl Parse_nonempty [OF *(1)]]
  have "result_ok s groups ps res" .
  with * show ?thesis
    by (auto simp: distinct_map result_ok_def)
qed

text \<open>Without groups, resolution cannot fail, and \<open>Resolve\<close> is a filter of the sorted hosts.\<close>

lemma next_set_group_free: "Kind p \<noteq> PGroup \<Longrightarrow> \<exists>hs. next_set sub r groups p = Inr hs"
  by (cases "Kind p") (auto simp: next_set_def)

lemma preds_loop_group_free:
  "group_free ps \<Longrightarrow> \<exists>hs. preds_loop sub r groups ps first acc = Inr hs"
proof (induction ps arbitrary: first acc)
  case (Cons p ps)
  then obtain nx where "next_set sub r groups p = Inr nx"
    using next_set_group_free by (fastforce simp: group_free_def)
  with Cons show ?case by (simp add: group_free_def)
qed simp

theorem Resolve_group_free:
  assumes "inv s" "Parse expr = Inr ps" "group_free ps"
  shows "Resolve expr (resolver_of s) groups =
    (let hs = filter (\<lambda>h. \<forall>p \<in> set ps. holds groups h p) (sort_key ID (hosts_of s))
     in if hs = [] then Inl (ErrNoMatch expr) else Inr hs)"
proof -
  obtain res where res: "resolvePreds ps (resolver_of s) groups 0 = Inr res"
    using preds_loop_group_free [OF assms(3)] by (force simp: resolvePreds.simps [of ps])
  from resolvePreds_correct [OF assms(1) res refl Parse_nonempty [OF assms(2)]]
  have s: "set res = {h \<in> set (hosts_of s). \<forall>p \<in> set ps. holds groups h p}" "distinct (map ID res)"
    by (auto simp: result_ok_def)
  let ?f = "filter (\<lambda>h. \<forall>p \<in> set ps. holds groups h p) (sort_key ID (hosts_of s))"
  have "sort_key ID res = ?f"
  proof (rule sorted_distinct_set_unique_map [where f = ID])
    show "distinct (map ID (sort_key ID res))" using s(2) by (simp add: distinct_map)
    show "sorted (map ID ?f)" by (rule sorted_filter) simp
    have "distinct (map ID (sort_key ID (hosts_of s)))"
      using hosts_distinct [OF assms(1)] by (simp add: distinct_map)
    then show "distinct (map ID ?f)" by (rule distinct_map_filter)
    show "set (sort_key ID res) = set ?f" using s(1) by auto
  qed simp
  with assms(2) res show ?thesis
    by (simp add: Resolve_def Let_def)
qed

end

section \<open>Cyclic groups\<close>

lemma preds_loop_fails:
  "p \<in> set ps \<Longrightarrow> next_set sub r groups p = Inl e \<Longrightarrow>
    \<exists>e'. preds_loop sub r groups ps first acc = Inl e'"
proof (induction ps arbitrary: first acc)
  case (Cons q ps)
  then show ?case by (cases "next_set sub r groups q") auto
qed simp

text \<open>
  \<open>C\<close> is a set of saved groups each of which mentions a group of \<open>C\<close>: one cycle, or groups
  that lead into one.  A selector that names a group of \<open>C\<close> is an error at every depth.
\<close>

definition cyclic_groups :: "Groups \<Rightarrow> string set \<Rightarrow> bool" where
  "cyclic_groups groups C \<longleftrightarrow> (\<forall>k \<in> C. \<exists>e. groups k = Some e \<and>
     (\<forall>qs. Parse e = Inr qs \<longrightarrow> (\<exists>q \<in> set qs. Kind q = PGroup \<and> Key q \<in> C)))"

lemma resolvePreds_cycle:
  assumes "cyclic_groups groups C"
  shows "p \<in> set ps \<Longrightarrow> Kind p = PGroup \<Longrightarrow> Key p \<in> C \<Longrightarrow>
    \<exists>e. resolvePreds ps r groups d = Inl e"
proof (induction "9 - d" arbitrary: p ps d)
  case 0
  then show ?case by (simp add: resolvePreds.simps [of ps])
next
  case (Suc n)
  from assms Suc.prems(3) obtain e where e: "groups (Key p) = Some e"
    "\<And>qs. Parse e = Inr qs \<Longrightarrow> \<exists>q \<in> set qs. Kind q = PGroup \<and> Key q \<in> C"
    unfolding cyclic_groups_def by blast
  let ?sub = "\<lambda>sub. resolvePreds sub r groups (d + 1)"
  have "\<exists>e'. next_set ?sub r groups p = Inl e'"
  proof (cases "Parse e")
    case (Inl x)
    with e(1) Suc.prems(2) show ?thesis by (simp add: next_set_def)
  next
    case (Inr qs)
    with e(2) obtain q where "q \<in> set qs" "Kind q = PGroup" "Key q \<in> C" by blast
    with Suc.hyps(1) [of "d + 1" q qs] Suc.hyps(2) have "\<exists>e'. ?sub qs = Inl e'" by simp
    with Inr e(1) Suc.prems(2) show ?thesis by (simp add: next_set_def)
  qed
  then obtain e' where "next_set ?sub r groups p = Inl e'" by blast
  from preds_loop_fails [OF Suc.prems(1) this] show ?case
    by (simp add: resolvePreds.simps [of ps])
qed

lemma Resolve_cycle:
  assumes "cyclic_groups groups C" "Parse expr = Inr ps"
    and "p \<in> set ps" "Kind p = PGroup" "Key p \<in> C"
  shows "\<exists>e. Resolve expr r groups = Inl e"
proof -
  obtain e where "resolvePreds ps r groups 0 = Inl e"
    using resolvePreds_cycle [OF assms(1,3-5)] by blast
  with assms(2) show ?thesis by (simp add: Resolve_def)
qed

end
