(* ===== verification/AgentStore.thy ===== *)
theory AgentStore
  imports Resolution Tables
begin

text \<open>
  The host side of the store (\<open>src/internal/store/agents.go\<close>) and the resolver built on it
  (\<open>src/internal/store/resolver.go\<close>): the tables \<open>agents\<close>, \<open>host_tags\<close>, \<open>host_roles\<close>,
  \<open>groups\<close> and \<open>enrollment_tokens\<close> with the statements that read and write them.  The
  store's clock is the argument \<open>now\<close>.  Statements that only fail with the database are
  taken to succeed (the resolver ignores their errors).
\<close>

section \<open>Tables\<close>

record Agent =
  a_ID :: string
  a_UUID :: string
  a_ED25519Pub :: string
  a_X25519Pub :: string
  a_TlsPub :: string
  a_TlsNotAfter :: int
  a_Version :: string
  a_State :: string
  a_FirstSeen :: int
  a_LastSeen :: int
  a_Created :: int

record TagRow =
  t_agent :: string
  t_k :: string
  t_v :: string

record RoleRow =
  ro_agent :: string
  ro_role :: string

record GroupRow =
  g_Name :: string
  g_Selector :: string
  g_Created :: int
  g_Updated :: int

record EnrollmentToken =
  et_hash :: string
  et_mask :: string
  et_created :: int
  et_expires :: int
  et_used :: int
  et_used_at :: int

record hosts_db =
  agents :: "Agent list"
  host_tags :: "TagRow list"
  host_roles :: "RoleRow list"
  group_rows :: "GroupRow list"
  tokens :: "EnrollmentToken list"

section \<open>Agents\<close>

definition UpsertAgent :: "int \<Rightarrow> Agent \<Rightarrow> hosts_db \<Rightarrow> hosts_db" where
  "UpsertAgent now a0 db =
     (let a = a0\<lparr>a_FirstSeen := now, a_LastSeen := now, a_Created := now,
                 a_TlsPub := [], a_TlsNotAfter := 0,
                 a_State := (if a_State a0 = [] then ''pending'' else a_State a0)\<rparr>
      in db\<lparr>agents := sql_upsert a_ID
              (\<lambda>x. x\<lparr>a_Version := a_Version a, a_State := a_State a, a_LastSeen := a_LastSeen a\<rparr>)
              a (agents db)\<rparr>)"

definition Agent_get :: "string \<Rightarrow> hosts_db \<Rightarrow> Agent option" where
  "Agent_get i db = sql_get a_ID i (agents db)"

definition Agents :: "hosts_db \<Rightarrow> Agent list" where
  "Agents db = sort_key a_ID (agents db)"

definition SetAgentState :: "string \<Rightarrow> string \<Rightarrow> hosts_db \<Rightarrow> hosts_db" where
  "SetAgentState i state db =
     db\<lparr>agents := sql_update (\<lambda>a. a_ID a = i) (\<lambda>a. a\<lparr>a_State := state\<rparr>) (agents db)\<rparr>"

definition MarkSeen :: "int \<Rightarrow> string \<Rightarrow> hosts_db \<Rightarrow> hosts_db" where
  "MarkSeen now i db =
     db\<lparr>agents := sql_update (\<lambda>a. a_ID a = i) (\<lambda>a. a\<lparr>a_LastSeen := now\<rparr>) (agents db)\<rparr>"

definition SetAgentVersion :: "string \<Rightarrow> string \<Rightarrow> hosts_db \<Rightarrow> hosts_db" where
  "SetAgentVersion i v db =
     db\<lparr>agents := sql_update (\<lambda>a. a_ID a = i) (\<lambda>a. a\<lparr>a_Version := v\<rparr>) (agents db)\<rparr>"

definition SetAgentTLS :: "string \<Rightarrow> string \<Rightarrow> int \<Rightarrow> hosts_db \<Rightarrow> hosts_db" where
  "SetAgentTLS i pub notAfter db =
     db\<lparr>agents := sql_update (\<lambda>a. a_ID a = i)
         (\<lambda>a. a\<lparr>a_TlsPub := pub, a_TlsNotAfter := notAfter\<rparr>) (agents db)\<rparr>"

definition MarkAllDisconnected :: "hosts_db \<Rightarrow> hosts_db" where
  "MarkAllDisconnected db =
     db\<lparr>agents := sql_update (\<lambda>a. a_State a = ''connected'')
         (\<lambda>a. a\<lparr>a_State := ''disconnected''\<rparr>) (agents db)\<rparr>"

section \<open>Tags, roles, groups\<close>

definition tag_key :: "TagRow \<Rightarrow> string \<times> string" where
  "tag_key t = (t_agent t, t_k t)"

definition SetTag :: "string \<Rightarrow> string \<Rightarrow> string \<Rightarrow> hosts_db \<Rightarrow> hosts_db" where
  "SetTag i k v db =
     db\<lparr>host_tags := sql_upsert tag_key (\<lambda>t. t\<lparr>t_v := v\<rparr>)
         \<lparr>t_agent = i, t_k = k, t_v = v\<rparr> (host_tags db)\<rparr>"

definition DeleteTag :: "string \<Rightarrow> string \<Rightarrow> hosts_db \<Rightarrow> hosts_db" where
  "DeleteTag i k db =
     db\<lparr>host_tags := sql_delete (\<lambda>t. t_agent t = i \<and> t_k t = k) (host_tags db)\<rparr>"

definition role_key :: "RoleRow \<Rightarrow> string \<times> string" where
  "role_key t = (ro_agent t, ro_role t)"

definition SetRole :: "string \<Rightarrow> string \<Rightarrow> hosts_db \<Rightarrow> hosts_db" where
  "SetRole i role db =
     db\<lparr>host_roles := sql_upsert role_key (\<lambda>t. t) \<lparr>ro_agent = i, ro_role = role\<rparr> (host_roles db)\<rparr>"

definition DeleteRole :: "string \<Rightarrow> string \<Rightarrow> hosts_db \<Rightarrow> hosts_db" where
  "DeleteRole i role db =
     db\<lparr>host_roles := sql_delete (\<lambda>t. ro_agent t = i \<and> ro_role t = role) (host_roles db)\<rparr>"

text \<open>The rows of one host are read into a Go map, a later row overwriting an earlier one.\<close>

definition Tags_of :: "hosts_db \<Rightarrow> string \<Rightarrow> (string \<rightharpoonup> string)" where
  "Tags_of db i =
     foldl (\<lambda>m t. m(t_k t \<mapsto> t_v t)) Map.empty (filter (\<lambda>t. t_agent t = i) (host_tags db))"

definition Roles_of :: "hosts_db \<Rightarrow> string \<Rightarrow> string list" where
  "Roles_of db i = sort (map ro_role (filter (\<lambda>t. ro_agent t = i) (host_roles db)))"

definition UpsertGroup :: "int \<Rightarrow> GroupRow \<Rightarrow> hosts_db \<Rightarrow> hosts_db" where
  "UpsertGroup now g0 db =
     (let g = g0\<lparr>g_Created := (if g_Created g0 = 0 then now else g_Created g0), g_Updated := now\<rparr>
      in db\<lparr>group_rows := sql_upsert g_Name
              (\<lambda>x. x\<lparr>g_Selector := g_Selector g, g_Updated := g_Updated g\<rparr>) g (group_rows db)\<rparr>)"

definition DeleteGroup :: "string \<Rightarrow> hosts_db \<Rightarrow> hosts_db" where
  "DeleteGroup n db = db\<lparr>group_rows := sql_delete (\<lambda>g. g_Name g = n) (group_rows db)\<rparr>"

definition Groups_of :: "hosts_db \<Rightarrow> Groups" where
  "Groups_of db = foldl (\<lambda>m g. m(g_Name g \<mapsto> g_Selector g)) Map.empty (sort_key g_Name (group_rows db))"

section \<open>The store's resolver\<close>

definition toInfos :: "hosts_db \<Rightarrow> Agent list \<Rightarrow> HostInfo list" where
  "toInfos db as =
     map (\<lambda>a. \<lparr>ID = a_ID a, Tags = Tags_of db (a_ID a), Roles = Roles_of db (a_ID a)\<rparr>) as"

definition Resolver_All :: "hosts_db \<Rightarrow> HostInfo list" where
  "Resolver_All db = toInfos db (Agents db)"

definition Resolver_ByIDs :: "hosts_db \<Rightarrow> string list \<Rightarrow> HostInfo list" where
  "Resolver_ByIDs db ids = toInfos db (List.map_filter (\<lambda>i. Agent_get i db) ids)"

definition Resolver_ByTag :: "hosts_db \<Rightarrow> string \<Rightarrow> string \<Rightarrow> HostInfo list" where
  "Resolver_ByTag db k v =
     toInfos db (filter (\<lambda>a. case Tags_of db (a_ID a) k of None \<Rightarrow> False
                              | Some x \<Rightarrow> v = [] \<or> x = v) (Agents db))"

definition Resolver_ByRole :: "hosts_db \<Rightarrow> string \<Rightarrow> HostInfo list" where
  "Resolver_ByRole db role =
     toInfos db (filter (\<lambda>a. role \<in> set (Roles_of db (a_ID a))) (Agents db))"

definition NewResolver :: "hosts_db \<Rightarrow> Resolver" where
  "NewResolver db = \<lparr>All = Resolver_All db, ByIDs = Resolver_ByIDs db,
                    ByTag = Resolver_ByTag db, ByRole = Resolver_ByRole db\<rparr>"

definition ResolveSelector :: "hosts_db \<Rightarrow> string \<Rightarrow> sel_error + HostInfo list" where
  "ResolveSelector db expr = Resolve expr (NewResolver db) (Groups_of db)"

section \<open>Enrollment tokens\<close>

datatype token_error = TokenNotFound | TokenUsed | TokenExpired

definition CreateEnrollmentToken ::
  "int \<Rightarrow> string \<Rightarrow> string \<Rightarrow> int \<Rightarrow> hosts_db \<Rightarrow> hosts_db option" where
  "CreateEnrollmentToken now h msk ttl db =
     map_option (\<lambda>ts. db\<lparr>tokens := ts\<rparr>)
       (sql_insert et_hash \<lparr>et_hash = h, et_mask = msk, et_created = now, et_expires = now + ttl,
          et_used = 0, et_used_at = 0\<rparr> (tokens db))"

definition ValidateEnrollmentToken :: "int \<Rightarrow> string \<Rightarrow> hosts_db \<Rightarrow> token_error + unit" where
  "ValidateEnrollmentToken now h db =
     (case sql_get et_hash h (tokens db) of
        None \<Rightarrow> Inl TokenNotFound
      | Some t \<Rightarrow>
          if et_used t \<noteq> 0 then Inl TokenUsed
          else if now > et_expires t then Inl TokenExpired
          else Inr ())"

definition ConsumeEnrollmentToken ::
  "int \<Rightarrow> string \<Rightarrow> hosts_db \<Rightarrow> (token_error + bool) \<times> hosts_db" where
  "ConsumeEnrollmentToken now h db =
     (case sql_get et_hash h (tokens db) of
        None \<Rightarrow> (Inl TokenNotFound, db)
      | Some t \<Rightarrow>
          if et_used t \<noteq> 0 then (Inr False, db)
          else if now > et_expires t then (Inl TokenExpired, db)
          else (Inr True,
                db\<lparr>tokens := sql_update (\<lambda>t. et_hash t = h)
                    (\<lambda>t. t\<lparr>et_used := 1, et_used_at := now\<rparr>) (tokens db)\<rparr>))"

section \<open>The integrity of the tables\<close>

text \<open>The primary keys of the schema, kept by every statement.\<close>

definition hosts_inv :: "hosts_db \<Rightarrow> bool" where
  "hosts_inv db \<longleftrightarrow> keyed a_ID (agents db) \<and> keyed tag_key (host_tags db) \<and>
     keyed role_key (host_roles db) \<and> keyed g_Name (group_rows db) \<and> keyed et_hash (tokens db)"

definition empty_db :: hosts_db where
  "empty_db = \<lparr>agents = [], host_tags = [], host_roles = [], group_rows = [], tokens = []\<rparr>"

lemma hosts_inv_empty: "hosts_inv empty_db"
  by (simp add: hosts_inv_def empty_db_def keyed_def)

lemma hosts_inv_ops [preserved]:
  assumes "hosts_inv db"
  shows "hosts_inv (UpsertAgent now a db)" "hosts_inv (SetAgentState i s db)"
    "hosts_inv (MarkSeen now i db)" "hosts_inv (SetAgentVersion i v db)"
    "hosts_inv (SetAgentTLS i p na db)" "hosts_inv (MarkAllDisconnected db)"
    "hosts_inv (SetTag i k v db)" "hosts_inv (DeleteTag i k db)"
    "hosts_inv (SetRole i k db)" "hosts_inv (DeleteRole i k db)"
    "hosts_inv (UpsertGroup now g db)" "hosts_inv (DeleteGroup n db)"
    "hosts_inv (snd (ConsumeEnrollmentToken now h db))"
  using assms
  by (auto simp: hosts_inv_def UpsertAgent_def SetAgentState_def MarkSeen_def SetAgentVersion_def
      SetAgentTLS_def MarkAllDisconnected_def SetTag_def DeleteTag_def SetRole_def DeleteRole_def
      UpsertGroup_def DeleteGroup_def ConsumeEnrollmentToken_def Let_def tag_key_def
      intro!: keyed_sql_update keyed_sql_upsert keyed_sql_delete split: option.splits)

lemma foldl_map_upd:
  "distinct (map key rows) \<Longrightarrow>
    foldl (\<lambda>m x. m(key x \<mapsto> val x)) m0 rows k =
      (case sql_get key k rows of Some x \<Rightarrow> Some (val x) | None \<Rightarrow> m0 k)"
proof (induction rows arbitrary: m0)
  case Nil
  then show ?case by (simp add: sql_get_def)
next
  case (Cons a rows)
  show ?case
  proof (cases "key a = k")
    case True
    then have "sql_get key k rows = None" "sql_get key k (a # rows) = Some a"
      using Cons.prems by (auto simp: sql_get_None_iff, simp add: sql_get_def)
    with Cons True show ?thesis by simp
  next
    case False
    then have "sql_get key k (a # rows) = sql_get key k rows" by (simp add: sql_get_def)
    with Cons False show ?thesis by simp
  qed
qed

lemma sql_get_same_set:
  assumes "keyed key rows" "keyed key rows'" "set rows = set rows'"
  shows "sql_get key k rows = sql_get key k rows'"
proof (cases "sql_get key k rows'")
  case None
  then have "sql_get key k rows = None" using assms(3) by (simp add: sql_get_None_iff)
  with None show ?thesis by simp
next
  case (Some x)
  with assms have "sql_get key k rows = Some x" by (simp add: sql_get_Some_iff)
  with Some show ?thesis by simp
qed

lemma Groups_of_eq:
  assumes "hosts_inv db"
  shows "Groups_of db n = map_option g_Selector (sql_get g_Name n (group_rows db))"
proof -
  from assms have k: "keyed g_Name (group_rows db)" by (simp add: hosts_inv_def)
  then have k': "keyed g_Name (sort_key g_Name (group_rows db))" by (simp add: keyed_def distinct_map)
  have "sql_get g_Name n (sort_key g_Name (group_rows db)) = sql_get g_Name n (group_rows db)"
    by (rule sql_get_same_set [OF k' k]) simp
  with k' show ?thesis
    by (simp add: Groups_of_def foldl_map_upd keyed_def split: option.splits)
qed

text \<open>A tag written is the tag read, and the other tags are untouched.\<close>

lemma Tags_of_eq:
  assumes "hosts_inv db"
  shows "Tags_of db i k = map_option t_v (sql_get tag_key (i, k) (host_tags db))"
proof -
  let ?rows = "filter (\<lambda>t. t_agent t = i) (host_tags db)"
  have "distinct (map tag_key ?rows)"
    using assms by (simp add: hosts_inv_def keyed_def distinct_map_filter)
  then have "distinct (map t_k ?rows)"
    by (auto simp: distinct_map inj_on_def tag_key_def)
  moreover have "sql_get t_k k (filter (\<lambda>t. t_agent t = i) ts) = sql_get tag_key (i, k) ts" for ts
    by (induction ts) (auto simp: tag_key_def sql_get_def)
  ultimately show ?thesis
    by (simp add: Tags_of_def foldl_map_upd split: option.splits)
qed

section \<open>The store's resolver keeps the contract\<close>

lemma toInfos_ids [simp]: "map ID (toInfos db as) = map a_ID as"
  by (simp add: toInfos_def)

lemma Agents_distinct: "hosts_inv db \<Longrightarrow> distinct (map a_ID (Agents db))"
  by (simp add: Agents_def hosts_inv_def keyed_def distinct_map)

lemma Agent_get_iff: "hosts_inv db \<Longrightarrow> Agent_get i db = Some a \<longleftrightarrow> a \<in> set (Agents db) \<and> a_ID a = i"
  by (simp add: Agent_get_def Agents_def hosts_inv_def sql_get_Some_iff)

interpretation store_resolver: resolver_contract NewResolver Resolver_All hosts_inv
proof unfold_locales
  fix db
  assume inv: "hosts_inv db"
  show "distinct (map ID (Resolver_All db))"
    using inv by (simp add: Resolver_All_def Agents_distinct)
  show "set (All (NewResolver db)) = set (Resolver_All db)"
    "distinct (map ID (All (NewResolver db)))"
    using inv by (simp_all add: NewResolver_def Resolver_All_def Agents_distinct)
  show "set (ByIDs (NewResolver db) [i]) = {h \<in> set (Resolver_All db). ID h = i}"
    "distinct (map ID (ByIDs (NewResolver db) [i]))" for i
  proof -
    have "set (List.map_filter (\<lambda>i. Agent_get i db) [i]) = {a \<in> set (Agents db). a_ID a = i} \<and>
      distinct (map a_ID (List.map_filter (\<lambda>i. Agent_get i db) [i]))"
      using Agent_get_iff [OF inv, of i]
      by (cases "Agent_get i db") (auto simp: map_filter_simps, metis+)
    then show "set (ByIDs (NewResolver db) [i]) = {h \<in> set (Resolver_All db). ID h = i}"
      "distinct (map ID (ByIDs (NewResolver db) [i]))"
      by (auto simp: NewResolver_def Resolver_ByIDs_def Resolver_All_def toInfos_def comp_def)
  qed
  show "set (ByTag (NewResolver db) k v) = {h \<in> set (Resolver_All db). has_tag h k v}"
    "distinct (map ID (ByTag (NewResolver db) k v))" for k v
    using Agents_distinct [OF inv]
    by (auto simp: NewResolver_def Resolver_ByTag_def Resolver_All_def toInfos_def has_tag_def
        distinct_map_filter comp_def image_iff)
  show "set (ByRole (NewResolver db) role) = {h \<in> set (Resolver_All db). role \<in> set (Roles h)}"
    "distinct (map ID (ByRole (NewResolver db) role))" for role
    using Agents_distinct [OF inv]
    by (auto simp: NewResolver_def Resolver_ByRole_def Resolver_All_def toInfos_def
        distinct_map_filter comp_def image_iff)
qed

text \<open>
  C28: A selector resolves to exactly the hosts that satisfy all its predicates: a successful
  \<open>ResolveSelector\<close> returns a non-empty list of hosts of the store, sorted by id and without
  repetition, namely those for which every id, tag, role and (nested) group predicate holds.
\<close>
theorem ResolveSelector_correct:
  assumes "hosts_inv db" "ResolveSelector db expr = Inr hs"
  shows "\<exists>ps. Parse expr = Inr ps \<and> hs \<noteq> [] \<and> sorted (map ID hs) \<and> distinct (map ID hs) \<and>
    set hs = {h \<in> set (Resolver_All db). \<forall>p \<in> set ps. holds (Groups_of db) h p}"
  using assms by (auto simp: ResolveSelector_def intro: store_resolver.Resolve_correct)

definition one_host :: hosts_db where
  "one_host = empty_db\<lparr>agents := [\<lparr>a_ID = ''h1'', a_UUID = ''u1'', a_ED25519Pub = [], a_X25519Pub = [],
     a_TlsPub = [], a_TlsNotAfter = 0, a_Version = [], a_State = ''active'', a_FirstSeen = 0,
     a_LastSeen = 0, a_Created = 0\<rparr>], host_roles := [\<lparr>ro_agent = ''h1'', ro_role = ''web''\<rparr>]\<rparr>"

theorem ResolveSelector_correct_witness:
  "\<exists>hs. ResolveSelector one_host ''role:web'' = Inr hs \<and> hs \<noteq> [] \<and> sorted (map ID hs)"
proof -
  have "map_sum id (map ID) (ResolveSelector one_host ''role:web'') = Inr [''h1'']" by code_simp
  then obtain hs where r: "ResolveSelector one_host ''role:web'' = Inr hs" by (cases "ResolveSelector one_host ''role:web''") auto
  have "hosts_inv one_host" by (simp add: one_host_def empty_db_def hosts_inv_def keyed_def)
  from ResolveSelector_correct [OF this r] r show ?thesis by auto
qed

end
