(* ===== verification/Policy.thy ===== *)
theory Policy
  imports Resolution AgentStore "HOL-Library.Multiset"
begin

text \<open>
  The declarative policy engine, \<open>src/internal/policy/policy.go\<close> with the action builders of
  \<open>file.go\<close> and \<open>pkg.go\<close>: rules, their matching against an action, the evaluator with its
  precedence deny, require-approval, allow, the content-hashed bundle, and the canonical
  byte strings the server signs.

  Three things are arguments of the definitions.  \<open>rx\<close> is the regular-expression engine:
  \<open>rx re\<close> is \<open>None\<close> where \<open>regexp.Compile(re)\<close> fails and otherwise the predicate
  \<open>MatchString\<close> of the compiled expression.  \<open>marshal\<close> is \<open>encoding/json\<close> on a list of
  rules, \<open>hash64\<close> is the base64 text of SHA-256.  \<open>sign\<close> and \<open>verify\<close> are Ed25519.
\<close>

section \<open>Data\<close>

abbreviation (input) EffectDeny :: string where "EffectDeny \<equiv> ''deny''"
abbreviation (input) EffectRequireApproval :: string where "EffectRequireApproval \<equiv> ''require_approval''"
abbreviation (input) EffectAllow :: string where "EffectAllow \<equiv> ''allow''"

abbreviation (input) ActionExec :: string where "ActionExec \<equiv> ''exec''"
abbreviation (input) ActionFileRead :: string where "ActionFileRead \<equiv> ''file.read''"
abbreviation (input) ActionFileWrite :: string where "ActionFileWrite \<equiv> ''file.write''"
abbreviation (input) ActionFilePerm :: string where "ActionFilePerm \<equiv> ''file.perm''"
abbreviation (input) ActionPkgList :: string where "ActionPkgList \<equiv> ''pkg.list''"
abbreviation (input) ActionPkgApply :: string where "ActionPkgApply \<equiv> ''pkg.apply''"
abbreviation (input) ActionTaskRun :: string where "ActionTaskRun \<equiv> ''task.run''"

definition ValidEOL :: "string \<Rightarrow> bool" where
  "ValidEOL v \<longleftrightarrow> v \<in> {[], ''supported'', ''ending_soon'', ''ended''}"

record Match =
  m_Hosts :: string
  m_Actions :: "string list"
  m_ActorRoles :: "string list"
  m_CommandRegex :: string
  m_EOL :: string

record Rule =
  r_ID :: string
  r_Name :: string
  r_Match :: Match
  r_Effect :: string
  r_Priority :: int

record Action =
  ac_HostID :: string
  ac_HostTags :: "string \<rightharpoonup> string"
  ac_HostRoles :: "string list"
  ac_ActorRole :: string
  ac_Cmd :: string
  ac_Args :: "string list"
  ac_CommandLine :: string
  ac_ActionClass :: string
  ac_Path :: string
  ac_HostEOL :: string

record Decision =
  d_Effect :: string
  d_MatchedRules :: "string list"
  d_Reason :: string

text \<open>The zero value of \<open>Action\<close>, which the code's composite literals start from.\<close>

definition zero_action :: Action where
  "zero_action = \<lparr>ac_HostID = [], ac_HostTags = Map.empty, ac_HostRoles = [], ac_ActorRole = [],
     ac_Cmd = [], ac_Args = [], ac_CommandLine = [], ac_ActionClass = [], ac_Path = [],
     ac_HostEOL = []\<rparr>"

type_synonym regex = "string \<Rightarrow> (string \<Rightarrow> bool) option"

section \<open>Matching\<close>

definition matchEOL :: "string \<Rightarrow> Action \<Rightarrow> bool" where
  "matchEOL eol a = (if eol = [] then True else eol = ac_HostEOL a)"

text \<open>The \<open>HostInfo\<close> built from the action, and the loop over the predicates.\<close>

definition action_host :: "Action \<Rightarrow> HostInfo" where
  "action_host a = \<lparr>ID = ac_HostID a, Tags = ac_HostTags a, Roles = ac_HostRoles a\<rparr>"

fun selectorResolveSingle :: "Predicate list \<Rightarrow> Action \<Rightarrow> bool" where
  "selectorResolveSingle [] a = True"
| "selectorResolveSingle (p # ps) a =
     (let info = action_host a in
      case Kind p of
        PAll \<Rightarrow> selectorResolveSingle ps a
      | PHost \<Rightarrow> if ID info \<noteq> HostID p then False else selectorResolveSingle ps a
      | PTag \<Rightarrow>
          (case Tags info (Key p) of
             None \<Rightarrow> False
           | Some val \<Rightarrow>
               if Value p \<noteq> [] \<and> val \<noteq> Value p then False else selectorResolveSingle ps a)
      | PRole \<Rightarrow> if \<not> (\<exists>r \<in> set (Roles info). r = Key p) then False else selectorResolveSingle ps a
      | PGroup \<Rightarrow> False)"

definition matchHosts :: "string \<Rightarrow> Action \<Rightarrow> bool" where
  "matchHosts hostsExpr a =
     (if hostsExpr = [] then True
      else case Parse hostsExpr of
             Inl e \<Rightarrow> False
           | Inr predicates \<Rightarrow> selectorResolveSingle predicates a)"

definition matchActions :: "string list \<Rightarrow> Action \<Rightarrow> bool" where
  "matchActions acts a =
     (if acts = [] then True
      else let cls = (if ac_ActionClass a = [] then ActionExec else ac_ActionClass a)
           in \<exists>act \<in> set acts. act = cls \<or> has_prefix cls ''file.'' \<and> act = ''file'')"

definition matchActorRoles :: "string list \<Rightarrow> Action \<Rightarrow> bool" where
  "matchActorRoles rls a = (if rls = [] then True else \<exists>role \<in> set rls. role = ac_ActorRole a)"

definition matchCommandRegex :: "regex \<Rightarrow> string \<Rightarrow> Action \<Rightarrow> bool" where
  "matchCommandRegex rx re a =
     (if re = [] then True
      else if re = ac_CommandLine a then True
      else case rx re of None \<Rightarrow> False | Some matches \<Rightarrow> matches (ac_CommandLine a))"

definition matchesRule :: "regex \<Rightarrow> Rule \<Rightarrow> Action \<Rightarrow> bool" where
  "matchesRule rx r a =
     (if \<not> matchHosts (m_Hosts (r_Match r)) a then False
      else if \<not> matchActions (m_Actions (r_Match r)) a then False
      else if \<not> matchActorRoles (m_ActorRoles (r_Match r)) a then False
      else if \<not> matchCommandRegex rx (m_CommandRegex (r_Match r)) a then False
      else if \<not> matchEOL (m_EOL (r_Match r)) a then False
      else True)"

section \<open>Evaluation\<close>

fun eval_loop ::
  "regex \<Rightarrow> Action \<Rightarrow> Rule list \<Rightarrow> string list \<times> string list \<times> string list
   \<Rightarrow> string list \<times> string list \<times> string list" where
  "eval_loop rx a [] acc = acc"
| "eval_loop rx a (r # rs) (denyRules, reqApproval, allowRules) =
     (if \<not> matchesRule rx r a then eval_loop rx a rs (denyRules, reqApproval, allowRules)
      else if r_Effect r = EffectDeny then
        eval_loop rx a rs (denyRules @ [r_ID r], reqApproval, allowRules)
      else if r_Effect r = EffectRequireApproval then
        eval_loop rx a rs (denyRules, reqApproval @ [r_ID r], allowRules)
      else if r_Effect r = EffectAllow then
        eval_loop rx a rs (denyRules, reqApproval, allowRules @ [r_ID r])
      else eval_loop rx a rs (denyRules, reqApproval, allowRules))"

definition em_dash :: string where
  "em_dash = [CHR 0xE2, CHR 0x80, CHR 0x94]"

definition Evaluate :: "regex \<Rightarrow> Rule list \<Rightarrow> Action \<Rightarrow> Decision" where
  "Evaluate rx rules a =
     (case eval_loop rx a rules ([], [], []) of (denyRules, reqApproval, allowRules) \<Rightarrow>
        if denyRules \<noteq> [] then
          \<lparr>d_Effect = EffectDeny, d_MatchedRules = denyRules,
           d_Reason = ''denied by rules: '' @ join_str '', '' denyRules\<rparr>
        else if reqApproval \<noteq> [] then
          \<lparr>d_Effect = EffectRequireApproval, d_MatchedRules = reqApproval,
           d_Reason = ''require_approval by rules: '' @ join_str '', '' reqApproval
             @ '' (not yet available '' @ em_dash @ '' M4)''\<rparr>
        else if allowRules \<noteq> [] then
          \<lparr>d_Effect = EffectAllow, d_MatchedRules = allowRules,
           d_Reason = ''allowed by rules: '' @ join_str '', '' allowRules\<rparr>
        else
          \<lparr>d_Effect = EffectAllow, d_MatchedRules = [],
           d_Reason = ''default allow (no matching rules)''\<rparr>)"

section \<open>Bundle\<close>

definition canonicalRulesJSON :: "(Rule list \<Rightarrow> string) \<Rightarrow> Rule list option \<Rightarrow> string" where
  "canonicalRulesJSON marshal rules =
     (case rules of None \<Rightarrow> ''[]'' | Some rs \<Rightarrow> marshal (sort_key r_ID rs))"

definition BuildBundle ::
  "(Rule list \<Rightarrow> string) \<Rightarrow> (string \<Rightarrow> string) \<Rightarrow> Rule list option \<Rightarrow> 64 word \<times> string \<times> string" where
  "BuildBundle marshal hash64 rules =
     (let version = word_of_nat (case rules of None \<Rightarrow> 0 | Some rs \<Rightarrow> length rs);
          jsonStr = canonicalRulesJSON marshal rules
      in (version, hash64 jsonStr, jsonStr))"

section \<open>Signed payloads\<close>

definition NUL :: char where "NUL = CHR 0x00"

definition uint64Bytes :: "64 word \<Rightarrow> string" where
  "uint64Bytes v =
     [char_of (unat (drop_bit 56 v)), char_of (unat (drop_bit 48 v)),
      char_of (unat (drop_bit 40 v)), char_of (unat (drop_bit 32 v)),
      char_of (unat (drop_bit 24 v)), char_of (unat (drop_bit 16 v)),
      char_of (unat (drop_bit 8 v)), char_of (unat v)]"

definition decisionPayload ::
  "string \<Rightarrow> 64 word \<Rightarrow> string \<Rightarrow> string list \<Rightarrow> string \<Rightarrow> string \<Rightarrow> string" where
  "decisionPayload runID bundleVersion effect matchedRules actorRole approvalID =
     runID @ [NUL] @ uint64Bytes bundleVersion @ [NUL] @ effect @ [NUL] @
     (if matchedRules \<noteq> [] then join_str ''|'' (sort matchedRules) else []) @ [NUL] @
     actorRole @ [NUL] @ approvalID"

definition SignDecision ::
  "('priv \<Rightarrow> string \<Rightarrow> string) \<Rightarrow> 'priv \<Rightarrow> string \<Rightarrow> 64 word \<Rightarrow> string \<Rightarrow> string list \<Rightarrow> string
   \<Rightarrow> string \<Rightarrow> string" where
  "SignDecision sign priv runID v effect rules role approvalID =
     sign priv (decisionPayload runID v effect rules role approvalID)"

definition VerifyDecision ::
  "('pub \<Rightarrow> string \<Rightarrow> string \<Rightarrow> bool) \<Rightarrow> 'pub \<Rightarrow> string \<Rightarrow> 64 word \<Rightarrow> string \<Rightarrow> string list \<Rightarrow> string
   \<Rightarrow> string \<Rightarrow> string \<Rightarrow> bool" where
  "VerifyDecision verify pub runID v effect rules role approvalID sig =
     verify pub (decisionPayload runID v effect rules role approvalID) sig"

definition push_domain :: string where
  "push_domain = ''partout.elevation.push.v1''"

definition ElevationPushPayload :: "string \<Rightarrow> string \<Rightarrow> string \<Rightarrow> string" where
  "ElevationPushPayload pushID policyName policySHA =
     push_domain @ [NUL] @ pushID @ [NUL] @ policyName @ [NUL] @ policySHA"

definition SignElevationPush ::
  "('priv \<Rightarrow> string \<Rightarrow> string) \<Rightarrow> 'priv \<Rightarrow> string \<Rightarrow> string \<Rightarrow> string \<Rightarrow> string" where
  "SignElevationPush sign priv pushID policyName policySHA =
     sign priv (ElevationPushPayload pushID policyName policySHA)"

definition VerifyElevationPush ::
  "(string \<Rightarrow> string \<Rightarrow> string \<Rightarrow> bool) \<Rightarrow> string \<Rightarrow> string \<Rightarrow> string \<Rightarrow> string \<Rightarrow> string \<Rightarrow> bool" where
  "VerifyElevationPush verify pub pushID policyName policySHA sig =
     (if length pub \<noteq> 32 \<or> length sig \<noteq> 64 then False
      else verify pub (ElevationPushPayload pushID policyName policySHA) sig)"

section \<open>File and package actions\<close>

datatype FileOpKind =
    FILE_OP_KIND_UNSPECIFIED | FILE_OP_STAT | FILE_OP_LIST | FILE_OP_DOWNLOAD
  | FILE_OP_UPLOAD_BEGIN | FILE_OP_UPLOAD_CHUNK | FILE_OP_UPLOAD_COMMIT | FILE_OP_UPLOAD_ABORT
  | FILE_OP_EDIT_CAS | FILE_OP_SET_PERM

datatype PkgOpKind = PKG_OP_UNSPECIFIED | PKG_LIST_UPDATES | PKG_APPLY

definition FileAction :: "string \<Rightarrow> string \<Rightarrow> Action" where
  "FileAction cls path =
     zero_action\<lparr>ac_ActionClass := cls, ac_Path := path, ac_CommandLine := path\<rparr>"

fun FileOpClass :: "FileOpKind \<Rightarrow> string \<times> bool" where
  "FileOpClass FILE_OP_STAT = (ActionFileRead, True)"
| "FileOpClass FILE_OP_LIST = (ActionFileRead, True)"
| "FileOpClass FILE_OP_DOWNLOAD = (ActionFileRead, True)"
| "FileOpClass FILE_OP_UPLOAD_BEGIN = (ActionFileWrite, True)"
| "FileOpClass FILE_OP_UPLOAD_CHUNK = (ActionFileWrite, True)"
| "FileOpClass FILE_OP_UPLOAD_COMMIT = (ActionFileWrite, True)"
| "FileOpClass FILE_OP_EDIT_CAS = (ActionFileWrite, True)"
| "FileOpClass FILE_OP_SET_PERM = (ActionFilePerm, True)"
| "FileOpClass _ = ([], False)"

definition PkgAction :: "string \<Rightarrow> string \<Rightarrow> Action" where
  "PkgAction cls cmdLine = zero_action\<lparr>ac_ActionClass := cls, ac_CommandLine := cmdLine\<rparr>"

fun PkgOpClass :: "PkgOpKind \<Rightarrow> string \<times> bool" where
  "PkgOpClass PKG_LIST_UPDATES = (ActionPkgList, True)"
| "PkgOpClass PKG_APPLY = (ActionPkgApply, True)"
| "PkgOpClass _ = ([], False)"

section \<open>Facts on evaluation\<close>

definition matching :: "regex \<Rightarrow> Action \<Rightarrow> string \<Rightarrow> Rule list \<Rightarrow> Rule list" where
  "matching rx a eff rules = filter (\<lambda>r. matchesRule rx r a \<and> r_Effect r = eff) rules"

lemma eval_loop_eq:
  "eval_loop rx a rules (d, q, al) =
     (d @ map r_ID (matching rx a EffectDeny rules),
      q @ map r_ID (matching rx a EffectRequireApproval rules),
      al @ map r_ID (matching rx a EffectAllow rules))"
  by (induction rules arbitrary: d q al) (auto simp: matching_def)

lemma Evaluate_eq:
  "d_Effect (Evaluate rx rules a) =
     (if matching rx a EffectDeny rules \<noteq> [] then EffectDeny
      else if matching rx a EffectRequireApproval rules \<noteq> [] then EffectRequireApproval
      else EffectAllow)"
  "d_MatchedRules (Evaluate rx rules a) =
     map r_ID (matching rx a (d_Effect (Evaluate rx rules a)) rules)"
  by (simp_all add: Evaluate_def eval_loop_eq)

lemma matching_nonempty:
  "matching rx a eff rules \<noteq> [] \<longleftrightarrow> (\<exists>r \<in> set rules. matchesRule rx r a \<and> r_Effect r = eff)"
  by (auto simp: matching_def filter_empty_conv)

lemma Evaluate_deny_iff:
  "d_Effect (Evaluate rx rules a) = EffectDeny \<longleftrightarrow>
     (\<exists>r \<in> set rules. matchesRule rx r a \<and> r_Effect r = EffectDeny)"
  unfolding Evaluate_eq(1) matching_nonempty by simp

lemma Evaluate_allow_iff:
  "d_Effect (Evaluate rx rules a) = EffectAllow \<longleftrightarrow>
     (\<forall>r \<in> set rules. matchesRule rx r a \<longrightarrow>
        r_Effect r \<noteq> EffectDeny \<and> r_Effect r \<noteq> EffectRequireApproval)"
  unfolding Evaluate_eq(1) matching_nonempty by auto

lemma mset_matching: "mset rules = mset rules' \<Longrightarrow> mset (matching rx a eff rules) = mset (matching rx a eff rules')"
  by (simp add: matching_def mset_filter)

lemma selectorResolveSingle_iff:
  "selectorResolveSingle ps a \<longleftrightarrow>
     (\<forall>p \<in> set ps. Kind p \<noteq> PGroup \<and> holds Map.empty (action_host a) p)"
proof (induction ps)
  case (Cons p ps)
  then show ?case
    by (cases "Kind p") (auto simp: holds_simps has_tag_def Let_def split: option.splits)
qed simp

lemma holds_groups_irrelevant:
  "Kind p \<noteq> PGroup \<Longrightarrow> holds groups h p \<longleftrightarrow> holds groups' h p"
  by (cases "Kind p") (auto simp: holds_simps)

lemma selectorResolveSingle_group_free:
  "group_free ps \<Longrightarrow> selectorResolveSingle ps a \<longleftrightarrow> (\<forall>p \<in> set ps. holds groups (action_host a) p)"
  unfolding selectorResolveSingle_iff group_free_def using holds_groups_irrelevant by metis

lemma uint64Bytes_eq: "uint64Bytes v = be_bytes 8 (unat v)"
  by (simp add: uint64Bytes_def be_bytes_def be_byte_def upt_rec unat_drop_bit_eq drop_bit_eq_div unat_div)

lemma uint64Bytes_inj: "uint64Bytes v = uint64Bytes w \<longleftrightarrow> v = w"
proof
  assume "uint64Bytes v = uint64Bytes w"
  then have "unat v = unat w"
    using be_bytes_inj [of "unat v" 8 "unat w"] unsigned_less [of v] unsigned_less [of w]
    by (simp add: uint64Bytes_eq)
  then show "v = w" by (simp add: word_unat_eq_iff)
qed simp

section \<open>Facts on the signed payloads\<close>

text \<open>A field that cannot be confused with its separators.\<close>

definition nul_free :: "string \<Rightarrow> bool" where
  "nul_free s \<longleftrightarrow> NUL \<notin> set s"

definition rule_ids_ok :: "string list \<Rightarrow> bool" where
  "rule_ids_ok ids \<longleftrightarrow> (\<forall>i \<in> set ids. i \<noteq> [] \<and> NUL \<notin> set i \<and> CHR ''|'' \<notin> set i)"

definition payload_rules :: "string list \<Rightarrow> string" where
  "payload_rules ids = (if ids \<noteq> [] then join_str ''|'' (sort ids) else [])"

lemma join_str_set: "set (join_str sep xs) \<subseteq> set sep \<union> \<Union> (set ` set xs)"
  by (induction sep xs rule: join_str.induct) auto

lemma payload_rules_nul_free: "rule_ids_ok ids \<Longrightarrow> NUL \<notin> set (payload_rules ids)"
  using join_str_set [of "''|''" "sort ids"]
  by (auto simp: payload_rules_def rule_ids_ok_def NUL_def)

lemma join_str_eq_Nil: "xs \<noteq> [] \<Longrightarrow> \<forall>x \<in> set xs. x \<noteq> [] \<Longrightarrow> join_str sep xs \<noteq> []"
  by (induction sep xs rule: join_str.induct) auto

lemma payload_rules_inj:
  assumes "rule_ids_ok ids" "rule_ids_ok ids'" "payload_rules ids = payload_rules ids'"
  shows "sort ids = sort ids'"
proof -
  have nn: "ids \<noteq> [] \<Longrightarrow> rule_ids_ok ids \<Longrightarrow> payload_rules ids \<noteq> []" for ids
    unfolding payload_rules_def
    using join_str_eq_Nil [of "sort ids" "''|''"] by (auto simp: rule_ids_ok_def) (metis set_empty set_sort)
  have sp: "ids \<noteq> [] \<Longrightarrow> rule_ids_ok ids \<Longrightarrow> split_char (CHR ''|'') (payload_rules ids) = sort ids" for ids
    unfolding payload_rules_def
    by (simp, rule split_join_char) (auto simp: rule_ids_ok_def, metis set_empty set_sort)
  show ?thesis
  proof (cases "ids = [] \<or> ids' = []")
    case True
    then show ?thesis
      using nn [of ids] nn [of ids'] assms by (auto simp: payload_rules_def split: if_splits)
  next
    case False
    then show ?thesis using sp [of ids] sp [of ids'] assms by simp
  qed
qed

lemma decisionPayload_alt:
  "decisionPayload run v eff rules role appr =
     run @ NUL # (uint64Bytes v @ NUL # (eff @ NUL # (payload_rules rules @ NUL # (role @ NUL # appr))))"
  by (simp add: decisionPayload_def payload_rules_def)

lemma decisionPayload_injective:
  assumes "decisionPayload run v eff rules role appr = decisionPayload run' v' eff' rules' role' appr'"
    and "nul_free run" "nul_free run'" "nul_free eff" "nul_free eff'" "nul_free role" "nul_free role'"
    and "rule_ids_ok rules" "rule_ids_ok rules'"
  shows "run = run' \<and> v = v' \<and> eff = eff' \<and> mset rules = mset rules' \<and> role = role' \<and> appr = appr'"
proof -
  have "length (uint64Bytes v) = length (uint64Bytes v')" by (simp add: uint64Bytes_def)
  then have *: "run = run'" "uint64Bytes v = uint64Bytes v'" "eff = eff'"
    "payload_rules rules = payload_rules rules'" "role = role'" "appr = appr'"
    using assms payload_rules_nul_free
    by (auto simp: decisionPayload_alt nul_free_def sep_append_iff)
  from payload_rules_inj [OF assms(8,9) *(4)] have "mset rules = mset rules'"
    by (metis mset_sort)
  with * show ?thesis by (simp add: uint64Bytes_inj)
qed

section \<open>Properties\<close>


text \<open>
  C4: the decision does not depend on the order of the rules, and adding rules can only make
  it more severe (allow, then require-approval, then deny): no rule overrides a deny.
\<close>

definition severity :: "string \<Rightarrow> nat" where
  "severity eff = (if eff = EffectDeny then 2 else if eff = EffectRequireApproval then 1 else 0)"

theorem Evaluate_order_and_severity:
  assumes "mset rules \<subseteq># mset rules'"
  shows "severity (d_Effect (Evaluate rx rules a)) \<le> severity (d_Effect (Evaluate rx rules' a)) \<and>
    (mset rules = mset rules' \<longrightarrow>
       d_Effect (Evaluate rx rules a) = d_Effect (Evaluate rx rules' a) \<and>
       mset (d_MatchedRules (Evaluate rx rules a)) = mset (d_MatchedRules (Evaluate rx rules' a)))"
proof -
  have sub: "set rules \<subseteq> set rules'" using set_mset_mono [OF assms] by simp
  have eff: "d_Effect (Evaluate rx rules a) = d_Effect (Evaluate rx rules' a)"
    if "mset rules = mset rules'"
    using mset_eq_setD [OF that] unfolding Evaluate_eq(1) matching_nonempty by simp
  have "mset (d_MatchedRules (Evaluate rx rules a)) = mset (d_MatchedRules (Evaluate rx rules' a))"
    if "mset rules = mset rules'"
    unfolding Evaluate_eq(2) eff [OF that]
    using mset_matching [OF that] by (metis mset_map)
  moreover have "severity (d_Effect (Evaluate rx rules a)) \<le> severity (d_Effect (Evaluate rx rules' a))"
    unfolding Evaluate_eq(1) matching_nonempty severity_def using sub by auto
  ultimately show ?thesis using eff by blast
qed

definition deny_all :: Rule where
  "deny_all = \<lparr>r_ID = ''d'', r_Name = [],
     r_Match = \<lparr>m_Hosts = [], m_Actions = [], m_ActorRoles = [], m_CommandRegex = [], m_EOL = []\<rparr>,
     r_Effect = EffectDeny, r_Priority = 0\<rparr>"

theorem Evaluate_order_and_severity_witness:
  "severity (d_Effect (Evaluate (\<lambda>_. None) [] zero_action))
     \<le> severity (d_Effect (Evaluate (\<lambda>_. None) [deny_all] zero_action))"
  using Evaluate_order_and_severity [of "[]" "[deny_all]" "\<lambda>_. None" zero_action] by simp

text \<open>
  the single-host check of the policy engine agrees with the selector package: for a
  selector without groups, a rule's host expression matches an action on a stored host exactly
  when \<open>ResolveSelector\<close> returns that host.
\<close>

theorem matchHosts_resolves:
  assumes "hosts_inv db" "Parse expr = Inr ps" "group_free ps" "action_host a \<in> set (Resolver_All db)"
  shows "matchHosts expr a \<longleftrightarrow>
    (\<exists>hs. ResolveSelector db expr = Inr hs \<and> action_host a \<in> set hs)"
proof -
  have "expr \<noteq> []" using assms(2) by (auto simp: Parse_def)
  with assms(2,3) have m: "matchHosts expr a \<longleftrightarrow>
      (\<forall>p \<in> set ps. holds (Groups_of db) (action_host a) p)"
    using selectorResolveSingle_group_free [of ps a "Groups_of db"] by (simp add: matchHosts_def)
  show ?thesis
    unfolding m ResolveSelector_def
      store_resolver.Resolve_group_free [OF assms(1,2,3), of "Groups_of db"]
    using assms(4) by (auto simp: Let_def filter_empty_conv)
qed

definition lab_db :: hosts_db where
  "lab_db = SetTag ''ag_1'' ''env'' ''lab'' (UpsertAgent 5
     \<lparr>a_ID = ''ag_1'', a_UUID = ''u1'', a_ED25519Pub = [], a_X25519Pub = [], a_TlsPub = [],
      a_TlsNotAfter = 0, a_Version = [], a_State = [], a_FirstSeen = 0, a_LastSeen = 0,
      a_Created = 0\<rparr> empty_db)"

theorem matchHosts_resolves_witness:
  "\<exists>hs. ResolveSelector lab_db ''tag:env=lab'' = Inr hs \<and>
     \<lparr>ID = ''ag_1'', Tags = Tags_of lab_db ''ag_1'', Roles = Roles_of lab_db ''ag_1''\<rparr> \<in> set hs"
proof -
  let ?a = "zero_action\<lparr>ac_HostID := ''ag_1'', ac_HostTags := Tags_of lab_db ''ag_1'',
    ac_HostRoles := Roles_of lab_db ''ag_1''\<rparr>"
  have inv: "hosts_inv lab_db"
    unfolding lab_db_def by (intro hosts_inv_ops hosts_inv_empty)
  have ag: "map a_ID (agents lab_db) = [''ag_1'']" by code_simp
  have parse: "Parse ''tag:env=lab'' = Inr [mk_pred PTag ''env'' ''lab'' []]" by code_simp
  have ex: "action_host ?a \<in> set (Resolver_All lab_db)"
    using ag by (auto simp: action_host_def zero_action_def Resolver_All_def toInfos_def Agents_def)
  have "matchHosts ''tag:env=lab'' ?a" by code_simp
  with matchHosts_resolves [OF inv parse _ ex] show ?thesis
    by (simp add: group_free_def action_host_def zero_action_def)
qed

text \<open>
  a rule whose host expression names a group never matches, on the server and on the agent,
  so a group-scoped deny rule denies nothing, whatever hosts the group resolves to.
\<close>

theorem group_rule_never_matches:
  assumes "Parse (m_Hosts (r_Match r)) = Inr ps" "\<not> group_free ps"
  shows "\<not> matchesRule rx r a \<and> Evaluate rx (rules @ [r]) a = Evaluate rx rules a"
proof -
  have "m_Hosts (r_Match r) \<noteq> []" using assms(1) by (auto simp: Parse_def)
  moreover have "\<not> selectorResolveSingle ps a"
    using assms(2) by (auto simp: selectorResolveSingle_iff group_free_def)
  ultimately have "\<not> matchesRule rx r a" using assms(1) by (simp add: matchesRule_def matchHosts_def)
  then show ?thesis by (simp add: Evaluate_def eval_loop_eq matching_def)
qed

theorem group_rule_never_matches_witness:
  "d_Effect (Evaluate (\<lambda>_. None)
     [deny_all\<lparr>r_Match := (r_Match deny_all)\<lparr>m_Hosts := ''group:prod''\<rparr>\<rparr>] zero_action) = EffectAllow"
proof -
  let ?r = "deny_all\<lparr>r_Match := (r_Match deny_all)\<lparr>m_Hosts := ''group:prod''\<rparr>\<rparr>"
  have p: "Parse (m_Hosts (r_Match ?r)) = Inr [mk_pred PGroup ''prod'' [] []]" by code_simp
  have "Evaluate (\<lambda>_. None) ([] @ [?r]) zero_action = Evaluate (\<lambda>_. None) [] zero_action"
    using group_rule_never_matches [OF p, of "\<lambda>_. None" zero_action "[]"] by (simp add: group_free_def)
  then show ?thesis by (simp add: Evaluate_def)
qed

text \<open>
  C7: a signed decision cannot be grafted.  If the only messages that verify are the payloads of
  the decisions in \<open>issued\<close> (the security of Ed25519), and the fields are free of the NUL and
  bar separators, a decision that verifies has the run, bundle version, effect, rules, actor
  role and approval reference of one that was issued.
\<close>

theorem VerifyDecision_binds:
  assumes unforgeable: "\<And>m s. verify pub m s \<Longrightarrow>
      \<exists>(run, v, eff, rules, role, appr) \<in> issued. m = decisionPayload run v eff rules role appr"
    and issued_ok: "\<And>run v eff rules role appr. (run, v, eff, rules, role, appr) \<in> issued \<Longrightarrow>
      nul_free run \<and> nul_free eff \<and> nul_free role \<and> rule_ids_ok rules"
    and "nul_free run" "nul_free eff" "nul_free role" "rule_ids_ok rules"
    and "VerifyDecision verify pub run v eff rules role appr sig"
  shows "\<exists>rules'. mset rules' = mset rules \<and> (run, v, eff, rules', role, appr) \<in> issued"
proof -
  from unforgeable assms(7) obtain run' v' eff' rules' role' appr'
    where i: "(run', v', eff', rules', role', appr') \<in> issued"
      and m: "decisionPayload run v eff rules role appr =
        decisionPayload run' v' eff' rules' role' appr'"
    unfolding VerifyDecision_def by fast
  from decisionPayload_injective [OF m assms(3) _ assms(4) _ assms(5) _ assms(6)] issued_ok [OF i]
  have "run = run' \<and> v = v' \<and> eff = eff' \<and> mset rules = mset rules' \<and> role = role' \<and> appr = appr'"
    by blast
  with i show ?thesis by auto
qed

theorem VerifyDecision_binds_witness:
  "\<exists>rules'. mset rules' = mset [''r2'', ''r1''] \<and>
     (''run_1'', 3, ''allow'', rules', ''admin'', ''apr_1'') \<in>
       {(''run_1'', 3 :: 64 word, ''allow'', [''r1'', ''r2''], ''admin'', ''apr_1'')}"
proof (rule VerifyDecision_binds [where pub = "()" and sig = "''s''" and
      verify = "\<lambda>_ m s. m = decisionPayload ''run_1'' 3 ''allow'' [''r1'', ''r2''] ''admin'' ''apr_1''"])
  show "VerifyDecision (\<lambda>_ m s. m = decisionPayload ''run_1'' 3 ''allow'' [''r1'', ''r2''] ''admin'' ''apr_1'')
      () ''run_1'' 3 ''allow'' [''r2'', ''r1''] ''admin'' ''apr_1'' ''s''"
    by (simp add: VerifyDecision_def decisionPayload_def)
qed (auto simp: nul_free_def rule_ids_ok_def NUL_def)

text \<open>
  Domain separation.  The payload of an elevation push is never the payload of a decision,
  unless the decision's run id is itself the push domain tag.
\<close>

theorem ElevationPush_domain_separated:
  assumes "nul_free run" "run \<noteq> push_domain"
  shows "ElevationPushPayload pushID policyName policySHA \<noteq> decisionPayload run v eff rules role appr"
proof
  assume "ElevationPushPayload pushID policyName policySHA = decisionPayload run v eff rules role appr"
  moreover have "NUL \<notin> set push_domain" by (simp add: push_domain_def NUL_def)
  ultimately show False
    using assms by (simp add: ElevationPushPayload_def decisionPayload_alt nul_free_def sep_append_iff)
qed

theorem ElevationPush_domain_separated_witness:
  "ElevationPushPayload ''p'' ''n'' ''s'' \<noteq> decisionPayload ''run_1'' 1 ''allow'' [] ''admin'' []"
  by (rule ElevationPush_domain_separated) (simp_all add: nul_free_def NUL_def push_domain_def)

text \<open>
  the bundle is canonical: two listings of the same rules (with distinct ids) in different
  orders give the same version, content hash and JSON.
\<close>

theorem BuildBundle_canonical:
  assumes "mset rules = mset rules'" "distinct (map r_ID rules)"
  shows "BuildBundle marshal hash64 (Some rules) = BuildBundle marshal hash64 (Some rules')"
proof -
  have "distinct (map r_ID rules')"
    using assms by (metis mset_map mset_eq_imp_distinct_iff)
  with assms have "sort_key r_ID rules = sort_key r_ID rules'"
    by (intro sorted_distinct_set_unique_map [where f = r_ID])
      (auto simp: distinct_map dest: mset_eq_setD mset_eq_imp_distinct_iff)
  moreover have "length rules = length rules'" using assms(1) by (rule mset_eq_length)
  ultimately show ?thesis by (simp add: BuildBundle_def canonicalRulesJSON_def)
qed

theorem BuildBundle_canonical_witness:
  "BuildBundle (\<lambda>rs. concat (map r_ID rs)) id (Some [deny_all, deny_all\<lparr>r_ID := ''a''\<rparr>]) =
   BuildBundle (\<lambda>rs. concat (map r_ID rs)) id (Some [deny_all\<lparr>r_ID := ''a''\<rparr>, deny_all])"
  by (rule BuildBundle_canonical) (simp_all add: deny_all_def)

end
