(* ===== verification/Proto.thy ===== *)
theory Proto
  imports Policy
begin

text \<open>
  The messages of \<open>src/proto/partout/partout.proto\<close> that the modelled handlers read: the
  signed decision, the dispatched operations that carry one, the policy bundle, and the
  assignment of a job and the secret that travel to an agent.  A nil
  message pointer is \<open>None\<close>.  Fields no modelled handler reads are left out.
\<close>

record pbDecision =
  pd_RunId :: string
  pd_BundleVersion :: "64 word"
  pd_Effect :: string
  pd_MatchedRules :: "string list"
  pd_Sig :: string
  pd_ActorRole :: string
  pd_ApprovalId :: string
  pd_EolState :: string

record pbCommand =
  c_RunId :: string
  c_ExecutionId :: string
  c_Cmd :: string
  c_Args :: "string list"
  c_Cwd :: string
  c_User :: string
  c_TimeoutS :: int
  c_Env :: "string \<rightharpoonup> string"
  c_Retryable :: bool
  c_Decision :: "pbDecision option"

record pbFileOp =
  f_OpId :: string
  f_Kind :: FileOpKind
  f_Path :: string
  f_Decision :: "pbDecision option"

record pbPkgOp =
  p_OpId :: string
  p_Kind :: PkgOpKind
  p_Decision :: "pbDecision option"
  p_Packages :: "string list"
  p_DryRun :: bool

record pbTaskStep =
  s_Kind :: string
  s_Name :: string
  s_When :: string
  s_Command :: string
  s_Args :: "string list"
  s_Env :: "(string \<times> string) list"
  s_Path :: string
  s_Content :: string
  s_Template :: string
  s_Vars :: "(string \<times> string) list"
  s_Mode :: string
  s_Package :: string
  s_State :: string
  s_Service :: string
  s_User :: string
  s_Group :: string
  s_Expr :: string

record pbTaskRun =
  tr_RunId :: string
  tr_TaskId :: string
  tr_TaskVersion :: int
  tr_Steps :: "pbTaskStep list"
  tr_Decision :: "pbDecision option"

record pbPolicyBundle =
  b_Version :: "64 word"
  b_ContentHash :: string
  b_RulesJson :: string
  b_ServerPubkey :: string
  b_HostTags :: "string \<rightharpoonup> string"
  b_HostRoles :: "string list"
  b_AgentId :: string
  b_HostEol :: string

record pbJobAssignment =
  jm_JobId :: string
  jm_Name :: string
  jm_Cron :: string
  jm_Timezone :: string
  jm_TaskId :: string
  jm_TaskVersion :: int
  jm_Steps :: "pbTaskStep list"
  jm_MaxRunS :: int
  jm_OverlapPolicy :: string
  jm_FailurePolicy :: string
  jm_RetryBackoffS :: int
  jm_SelectorSnapshot :: string
  jm_Version :: int
  jm_Decision :: "pbDecision option"

record pbSecretMaterialize =
  sm_Ref :: string
  sm_Version :: int
  sm_EphPub :: string
  sm_Sealed :: string
  sm_CacheTtlS :: int

end
