(* ===== verification/Guardrail.thy ===== *)
theory Guardrail
  imports Proto
begin

text \<open>
  The agent-side policy re-check, \<open>src/internal/agent/guardrail/guardrail.go\<close>.  A \<open>Guard\<close> holds
  the cached bundle; \<open>OnBundle\<close> replaces it and writes it to the policy directory, \<open>Load\<close>
  reads it back at agent start, and the four \<open>Recheck\<close> functions decide whether a dispatched
  command, file operation, package operation or task run may be executed.

  \<open>rx\<close> is the regular-expression engine, \<open>verify\<close> is \<open>ed25519.Verify\<close> (on keys of the right
  length), \<open>b64dec\<close> is base64 decoding.  \<open>unmarshal old js\<close> is \<open>json.Unmarshal\<close> of \<open>js\<close> over the
  rules \<open>old\<close>: the rules it leaves behind, and whether it returned no error.
\<close>

section \<open>State\<close>

record Guard =
  agentID :: string
  version :: "64 word"
  rules :: "Rule list"
  contentHash :: string
  serverPub :: string
  hostTags :: "string \<rightharpoonup> string"
  hostRoles :: "string list"
  hostEOL :: string
  loaded :: bool

text \<open>The files of the policy directory: \<open>policy.json\<close>, \<open>policy.meta\<close>, \<open>server.pub\<close>.\<close>

record policy_files =
  policy_json :: "string option"
  policy_meta :: "string option"
  server_pub :: "string option"

definition NewGuard :: "string \<Rightarrow> Guard" where
  "NewGuard i = \<lparr>agentID = i, version = 0, rules = [], contentHash = [], serverPub = [],
     hostTags = Map.empty, hostRoles = [], hostEOL = [], loaded = False\<rparr>"

section \<open>Persistence\<close>

text \<open>\<open>splitLines\<close>: the text after the last newline is a line only when it is not empty.\<close>

fun split_lines_from :: "string \<Rightarrow> string \<Rightarrow> string list" where
  "split_lines_from cur [] = (if cur \<noteq> [] then [cur] else [])"
| "split_lines_from cur (c # cs) =
     (if c = CHR 0x0A then cur # split_lines_from [] cs else split_lines_from (cur @ [c]) cs)"

definition splitLines :: "string \<Rightarrow> string list" where
  "splitLines s = split_lines_from [] s"

definition prefix_of :: "string \<Rightarrow> string \<Rightarrow> string \<times> bool" where
  "prefix_of s p =
     (if length s < length p then ([], False)
      else (drop (length p) s, take (length p) s = p))"

text \<open>\<open>fmt.Sscanf(v, "%d", &version)\<close>: white space, then decimal digits that fit in 64 bits;
  on a scan error the variable keeps its value.\<close>

definition is_dec :: "char \<Rightarrow> bool" where
  "is_dec c \<longleftrightarrow> CHR ''0'' \<le> c \<and> c \<le> CHR ''9''"

fun dec_nat :: "string \<Rightarrow> nat \<Rightarrow> nat" where
  "dec_nat [] n = n"
| "dec_nat (c # cs) n = dec_nat cs (n * 10 + (of_char c - 48))"

definition scan_uint64 :: "string \<Rightarrow> 64 word \<Rightarrow> 64 word" where
  "scan_uint64 v old =
     (let ds = takeWhile is_dec (trim_front space_encodings v); n = dec_nat ds 0
      in if ds = [] \<or> n \<ge> 2 ^ 64 then old else word_of_nat n)"

fun parse_meta_lines :: "string list \<Rightarrow> 64 word \<times> string \<Rightarrow> 64 word \<times> string" where
  "parse_meta_lines [] acc = acc"
| "parse_meta_lines (line # ls) (ver, hash) =
     (let (v, okv) = prefix_of line ''version=''; ver' = (if okv then scan_uint64 v ver else ver);
          (h, okh) = prefix_of line ''content_hash=''; hash' = (if okh then h else hash)
      in parse_meta_lines ls (ver', hash'))"

definition parseMeta :: "string \<Rightarrow> 64 word \<times> string" where
  "parseMeta s = parse_meta_lines (splitLines s) (0, [])"

definition meta_text :: "64 word \<Rightarrow> string \<Rightarrow> string" where
  "meta_text v h =
     ''version='' @ show_nat (unat v) @ [CHR 0x0A] @ ''content_hash='' @ h @ [CHR 0x0A]"

text \<open>\<open>persist\<close>: writes that fail are ignored by the code; here they succeed.\<close>

definition persist :: "(Rule list \<Rightarrow> string) \<Rightarrow> Guard \<Rightarrow> policy_files \<Rightarrow> policy_files" where
  "persist marshal g fs =
     (let fs1 = fs\<lparr>policy_json := Some (marshal (rules g)),
                  policy_meta := Some (meta_text (version g) (contentHash g))\<rparr>
      in if serverPub g \<noteq> [] then fs1\<lparr>server_pub := Some (serverPub g)\<rparr> else fs1)"

text \<open>\<open>Load\<close>; the Boolean is whether it returned no error.\<close>

definition Load ::
  "(Rule list \<Rightarrow> string \<Rightarrow> Rule list \<times> bool) \<Rightarrow> policy_files \<Rightarrow> Guard \<Rightarrow> Guard \<times> bool" where
  "Load unmarshal fs g =
     (case policy_json fs of
        None \<Rightarrow> (g, True)
      | Some js \<Rightarrow>
          (case unmarshal [] js of (rs, ok) \<Rightarrow>
             if \<not> ok then (g, False)
             else
               let g1 = g\<lparr>rules := rs\<rparr>;
                   g2 = (case policy_meta fs of
                           None \<Rightarrow> g1
                         | Some m \<Rightarrow> (case parseMeta m of (v, h) \<Rightarrow> g1\<lparr>version := v, contentHash := h\<rparr>));
                   g3 = (case server_pub fs of
                           None \<Rightarrow> g2
                         | Some pub \<Rightarrow> if pub \<noteq> [] then g2\<lparr>serverPub := pub\<rparr> else g2)
               in (g3\<lparr>loaded := True\<rparr>, True)))"

definition OnBundle ::
  "(Rule list \<Rightarrow> string) \<Rightarrow> (Rule list \<Rightarrow> string \<Rightarrow> Rule list \<times> bool) \<Rightarrow> (string \<Rightarrow> string option)
   \<Rightarrow> pbPolicyBundle \<Rightarrow> Guard \<Rightarrow> policy_files \<Rightarrow> Guard \<times> policy_files" where
  "OnBundle marshal unmarshal b64dec b g fs =
     (let g1 = g\<lparr>version := b_Version b, contentHash := b_ContentHash b\<rparr>;
          (rs, ok) = (if b_RulesJson b \<noteq> [] then unmarshal (rules g1) (b_RulesJson b)
                      else (rules g1, True));
          g2 = g1\<lparr>rules := rs\<rparr>
      in if \<not> ok then (g2, fs)
         else
           let g3 = (if b_ServerPubkey b \<noteq> [] then
                       (case b64dec (b_ServerPubkey b) of
                          Some decoded \<Rightarrow> g2\<lparr>serverPub := decoded\<rparr>
                        | None \<Rightarrow> g2\<lparr>serverPub := b_ServerPubkey b\<rparr>)
                     else g2);
               g4 = g3\<lparr>hostTags := b_HostTags b, hostRoles := b_HostRoles b, hostEOL := b_HostEol b\<rparr>;
               g5 = (if b_AgentId b \<noteq> [] then g4\<lparr>agentID := b_AgentId b\<rparr> else g4);
               g6 = g5\<lparr>loaded := True\<rparr>
           in (g6, persist marshal g6 fs))"

section \<open>Re-check\<close>

definition eolFor :: "Guard \<Rightarrow> pbDecision option \<Rightarrow> string" where
  "eolFor g d =
     (case d of
        Some d \<Rightarrow> if pd_EolState d \<noteq> [] then pd_EolState d else hostEOL g
      | None \<Rightarrow> hostEOL g)"

definition approvalCheck :: "regex \<Rightarrow> Guard \<Rightarrow> pbDecision \<Rightarrow> Action \<Rightarrow> bool \<times> string" where
  "approvalCheck rx g d action =
     (if pd_Effect d \<noteq> EffectAllow then
        (False, ''guardrail: approval decision effect is '' @ pd_Effect d @ '', want allow'')
      else if d_Effect (Evaluate rx (rules g) action) = EffectDeny then
        (False, ''guardrail: local recheck says deny (approval does not override a hard deny)'')
      else (True, []))"

text \<open>
  The tests the four functions open with, in their order: a bundle was received, the operation
  carries a decision, its bundle version is the cached one, and its signature verifies when the
  server key is known.  \<open>what\<close> names the kind of operation in the message.
\<close>

definition check_decision ::
  "(string \<Rightarrow> string \<Rightarrow> string \<Rightarrow> bool) \<Rightarrow> Guard \<Rightarrow> string \<Rightarrow> pbDecision option \<Rightarrow> string + pbDecision" where
  "check_decision verify g what dec =
     (if \<not> loaded g then Inl ''guardrail: no policy bundle received''
      else case dec of
        None \<Rightarrow> Inl (''guardrail: no decision in '' @ what)
      | Some d \<Rightarrow>
          if pd_BundleVersion d \<noteq> version g then
            Inl (''guardrail: bundle version mismatch (decision='' @ show_nat (unat (pd_BundleVersion d))
              @ '' cached='' @ show_nat (unat (version g)) @ '')'')
          else if serverPub g \<noteq> [] \<and>
            \<not> VerifyDecision verify (serverPub g) (pd_RunId d) (pd_BundleVersion d) (pd_Effect d)
                 (pd_MatchedRules d) (pd_ActorRole d) (pd_ApprovalId d) (pd_Sig d)
          then Inl ''guardrail: decision signature invalid''
          else Inr d)"

text \<open>The host fields of the local action, and the tests the functions close with.\<close>

definition local_action :: "Guard \<Rightarrow> pbDecision \<Rightarrow> Action \<Rightarrow> Action" where
  "local_action g d base =
     base\<lparr>ac_HostID := agentID g, ac_HostTags := hostTags g, ac_HostRoles := hostRoles g,
          ac_ActorRole := pd_ActorRole d, ac_HostEOL := eolFor g (Some d)\<rparr>"

definition local_says :: "Decision \<Rightarrow> string" where
  "local_says dec = ''guardrail: local recheck says '' @ d_Effect dec @ '' ('' @ d_Reason dec @ '')''"

definition server_effect_check :: "pbDecision \<Rightarrow> bool \<times> string" where
  "server_effect_check d =
     (if pd_Effect d \<noteq> EffectAllow then (False, ''guardrail: server decision is '' @ pd_Effect d)
      else (True, []))"

definition recheck_action :: "regex \<Rightarrow> Guard \<Rightarrow> pbDecision \<Rightarrow> Action \<Rightarrow> bool \<times> string" where
  "recheck_action rx g d action =
     (if pd_ApprovalId d \<noteq> [] then approvalCheck rx g d action
      else
        let dec = Evaluate rx (rules g) action
        in if d_Effect dec \<noteq> EffectAllow then (False, local_says dec)
           else server_effect_check d)"

fun commandLine :: "string \<Rightarrow> string list \<Rightarrow> string" where
  "commandLine cmd args = join_str '' '' (cmd # args)"

definition Recheck ::
  "regex \<Rightarrow> (string \<Rightarrow> string \<Rightarrow> string \<Rightarrow> bool) \<Rightarrow> Guard \<Rightarrow> pbCommand \<Rightarrow> bool \<times> string" where
  "Recheck rx verify g cmd =
     (case check_decision verify g ''command'' (c_Decision cmd) of
        Inl reason \<Rightarrow> (False, reason)
      | Inr d \<Rightarrow>
          recheck_action rx g d
            (local_action g d (zero_action\<lparr>ac_Args := c_Args cmd,
               ac_CommandLine := commandLine (c_Cmd cmd) (c_Args cmd)\<rparr>)))"

definition RecheckFile ::
  "regex \<Rightarrow> (string \<Rightarrow> string \<Rightarrow> string \<Rightarrow> bool) \<Rightarrow> Guard \<Rightarrow> pbFileOp \<Rightarrow> bool \<times> string" where
  "RecheckFile rx verify g op =
     (case check_decision verify g ''file op'' (f_Decision op) of
        Inl reason \<Rightarrow> (False, reason)
      | Inr d \<Rightarrow>
          (case FileOpClass (f_Kind op) of (cls, ok) \<Rightarrow>
             if \<not> ok then (False, ''guardrail: unknown file op kind'')
             else recheck_action rx g d (local_action g d (FileAction cls (f_Path op)))))"

definition RecheckPkg ::
  "regex \<Rightarrow> (string \<Rightarrow> string \<Rightarrow> string \<Rightarrow> bool) \<Rightarrow> Guard \<Rightarrow> pbPkgOp \<Rightarrow> bool \<times> string" where
  "RecheckPkg rx verify g op =
     (case check_decision verify g ''pkg op'' (p_Decision op) of
        Inl reason \<Rightarrow> (False, reason)
      | Inr d \<Rightarrow>
          (case PkgOpClass (p_Kind op) of (cls, ok) \<Rightarrow>
             if \<not> ok then (False, ''guardrail: unknown pkg op kind'')
             else recheck_action rx g d (local_action g d (PkgAction cls []))))"

definition stepCommandLine :: "pbTaskStep \<Rightarrow> string \<times> bool" where
  "stepCommandLine s =
     (if s_Kind s = ''command'' then
        if s_Command s = [] then ([], False)
        else (trim_space (join_str '' '' (s_Command s # s_Args s)), True)
      else if s_Kind s = ''reboot'' then (''reboot'', True)
      else ([], False))"

text \<open>The exec action a command-like step is re-evaluated as.\<close>

definition step_exec_action :: "Action \<Rightarrow> string \<Rightarrow> Action" where
  "step_exec_action action cl =
     (let sa0 = action\<lparr>ac_ActionClass := ActionExec, ac_CommandLine := cl\<rparr>
      in case str_fields cl of [] \<Rightarrow> sa0 | f # fs \<Rightarrow> sa0\<lparr>ac_Cmd := f, ac_Args := fs\<rparr>)"

text \<open>The loop over the steps of a task: \<open>None\<close> when every step passes.\<close>

fun recheck_steps :: "regex \<Rightarrow> Guard \<Rightarrow> Action \<Rightarrow> pbTaskStep list \<Rightarrow> string option" where
  "recheck_steps rx g action [] = None"
| "recheck_steps rx g action (step # steps) =
     (let pd = Evaluate rx (rules g) (action\<lparr>ac_ActionClass := ActionPkgApply\<rparr>)
      in if s_Kind step \<in> {''package'', ''upgrade''} \<and> d_Effect pd \<noteq> EffectAllow then
           Some (''guardrail: task step ('' @ s_Kind step @ '') local recheck says '' @ d_Effect pd
             @ '' ('' @ d_Reason pd @ '')'')
         else
           (case stepCommandLine step of (cl, isCmd) \<Rightarrow>
              if \<not> isCmd then recheck_steps rx g action steps
              else
                let sd = Evaluate rx (rules g) (step_exec_action action cl)
                in if d_Effect sd \<noteq> EffectAllow then
                     Some (''guardrail: task step ('' @ cl @ '') local recheck says '' @ d_Effect sd
                       @ '' ('' @ d_Reason sd @ '')'')
                   else recheck_steps rx g action steps))"

definition RecheckTask ::
  "regex \<Rightarrow> (string \<Rightarrow> string \<Rightarrow> string \<Rightarrow> bool) \<Rightarrow> Guard \<Rightarrow> pbTaskRun \<Rightarrow> bool \<times> string" where
  "RecheckTask rx verify g run =
     (case check_decision verify g ''task run'' (tr_Decision run) of
        Inl reason \<Rightarrow> (False, reason)
      | Inr d \<Rightarrow>
          let action = local_action g d (zero_action\<lparr>ac_ActionClass := ActionTaskRun\<rparr>)
          in if pd_ApprovalId d \<noteq> [] then approvalCheck rx g d action
             else
               let dec = Evaluate rx (rules g) action
               in if d_Effect dec \<noteq> EffectAllow then (False, local_says dec)
                  else
                    (case recheck_steps rx g action (tr_Steps run) of
                       Some reason \<Rightarrow> (False, reason)
                     | None \<Rightarrow> server_effect_check d))"

section \<open>Facts on the re-check\<close>

lemma check_decision_Inr:
  "check_decision verify g what dec = Inr d \<longleftrightarrow>
     loaded g \<and> dec = Some d \<and> pd_BundleVersion d = version g \<and>
     (serverPub g \<noteq> [] \<longrightarrow>
        VerifyDecision verify (serverPub g) (pd_RunId d) (pd_BundleVersion d) (pd_Effect d)
          (pd_MatchedRules d) (pd_ActorRole d) (pd_ApprovalId d) (pd_Sig d))"
  by (auto simp: check_decision_def split: option.splits)

lemma approvalCheck_ok:
  "fst (approvalCheck rx g d action) \<longleftrightarrow>
     pd_Effect d = EffectAllow \<and> d_Effect (Evaluate rx (rules g) action) \<noteq> EffectDeny"
  by (simp add: approvalCheck_def)

lemma recheck_action_ok:
  "fst (recheck_action rx g d action) \<longleftrightarrow>
     pd_Effect d = EffectAllow \<and> d_Effect (Evaluate rx (rules g) action) \<noteq> EffectDeny \<and>
     (pd_ApprovalId d = [] \<longrightarrow> d_Effect (Evaluate rx (rules g) action) = EffectAllow)"
  by (auto simp: recheck_action_def approvalCheck_ok server_effect_check_def Let_def)

text \<open>The local evaluation a command-like or package step must pass.\<close>

definition step_passes :: "regex \<Rightarrow> Rule list \<Rightarrow> Action \<Rightarrow> pbTaskStep \<Rightarrow> bool" where
  "step_passes rx rs action s \<longleftrightarrow>
     (s_Kind s \<in> {''package'', ''upgrade''} \<longrightarrow>
        d_Effect (Evaluate rx rs (action\<lparr>ac_ActionClass := ActionPkgApply\<rparr>)) = EffectAllow) \<and>
     (snd (stepCommandLine s) \<longrightarrow>
        d_Effect (Evaluate rx rs (step_exec_action action (fst (stepCommandLine s)))) = EffectAllow)"

lemma recheck_steps_None:
  "recheck_steps rx g action steps = None \<longleftrightarrow> (\<forall>s \<in> set steps. step_passes rx (rules g) action s)"
proof (induction steps)
  case (Cons s steps)
  then show ?case
    by (cases "stepCommandLine s") (auto simp: step_passes_def Let_def)
qed simp

text \<open>\<open>CommandLine\<close> is the only field of an exec action the rules read beside the host's.\<close>

lemma Evaluate_cmd_args:
  "Evaluate rx rs (a\<lparr>ac_Cmd := c, ac_Args := as\<rparr>) = Evaluate rx rs a"
proof -
  have "selectorResolveSingle ps (a\<lparr>ac_Cmd := c, ac_Args := as\<rparr>) = selectorResolveSingle ps a" for ps
    by (simp add: selectorResolveSingle_iff action_host_def)
  then have mh: "matchHosts e (a\<lparr>ac_Cmd := c, ac_Args := as\<rparr>) = matchHosts e a" for e
    unfolding matchHosts_def by (cases "Parse e") simp_all
  have "matchesRule rx r (a\<lparr>ac_Cmd := c, ac_Args := as\<rparr>) = matchesRule rx r a" for r
    unfolding matchesRule_def mh matchActions_def matchActorRoles_def matchCommandRegex_def matchEOL_def
    by (cases "rx (m_CommandRegex (r_Match r))") simp_all
  then show ?thesis by (simp add: Evaluate_def eval_loop_eq matching_def)
qed

lemma Evaluate_step_exec_action:
  "Evaluate rx rs (step_exec_action action cl) =
     Evaluate rx rs (action\<lparr>ac_ActionClass := ActionExec, ac_CommandLine := cl\<rparr>)"
  by (simp add: step_exec_action_def Evaluate_cmd_args Let_def split: list.splits)

section \<open>Facts on persistence\<close>

lemma split_lines_append:
  "CHR 0x0A \<notin> set a \<Longrightarrow> split_lines_from cur (a @ CHR 0x0A # s) = (cur @ a) # split_lines_from [] s"
  by (induction a arbitrary: cur) auto

lemma is_dec_show_nat: "c \<in> set (show_nat n) \<Longrightarrow> is_dec c"
  using show_nat_digits [of c n] by (auto simp: is_dec_def less_eq_char_def of_char_digit)

lemma dec_nat_append: "dec_nat (xs @ ys) n = dec_nat ys (dec_nat xs n)"
  by (induction xs arbitrary: n) auto

lemma dec_nat_show_nat: "dec_nat (show_nat n) 0 = n"
proof (induction n rule: show_nat.induct)
  case (1 n)
  show ?case
  proof (cases "n < 10")
    case True
    then show ?thesis by (subst show_nat.simps) (simp add: of_char_digit)
  next
    case False
    with 1 have "dec_nat (show_nat (n div 10)) 0 = n div 10" by simp
    then show ?thesis using False
      by (subst show_nat.simps) (simp add: dec_nat_append of_char_digit)
  qed
qed

lemma is_dec_plain: "is_dec c \<Longrightarrow> plain_char c \<and> c \<noteq> CHR 0x0A"
  by (auto simp: is_dec_def plain_char_def less_eq_char_def less_char_def)

lemma scan_uint64_show: "scan_uint64 (show_nat (unat v)) old = v"
proof -
  have tf: "trim_front space_encodings (show_nat n) = show_nat n" for n
  proof -
    obtain c cs where "show_nat n = c # cs" by (cases "show_nat n") auto
    moreover from this have "plain_char c" using is_dec_show_nat [of c n] is_dec_plain by auto
    ultimately show ?thesis by (simp add: trim_front_id space_len_plain)
  qed
  have tw: "takeWhile is_dec (show_nat n) = show_nat n" for n
    using is_dec_show_nat by simp
  have "unat v < 2 ^ 64" using unsigned_less [of v] by simp
  then show ?thesis unfolding scan_uint64_def tf tw Let_def dec_nat_show_nat by simp
qed

lemma parseMeta_meta_text:
  assumes "CHR 0x0A \<notin> set h"
  shows "parseMeta (meta_text v h) = (v, h)"
proof -
  obtain l1 where l1_def: "l1 = ''version='' @ show_nat (unat v)" by blast
  obtain l2 where l2_def: "l2 = ''content_hash='' @ h" by blast
  have "CHR 0x0A \<notin> set (show_nat (unat v))" using is_dec_show_nat is_dec_plain by blast
  then have nl: "CHR 0x0A \<notin> set l1" "CHR 0x0A \<notin> set l2" using assms by (simp_all add: l1_def l2_def)
  have m: "meta_text v h = l1 @ CHR 0x0A # (l2 @ CHR 0x0A # [])"
    by (simp add: meta_text_def l1_def l2_def)
  have lines: "splitLines (meta_text v h) = [l1, l2]"
    unfolding splitLines_def m split_lines_append [OF nl(1)] split_lines_append [OF nl(2)] by simp
  have p: "prefix_of l1 ''version='' = (show_nat (unat v), True)"
    "prefix_of l2 ''content_hash='' = (h, True)"
    by (simp_all add: prefix_of_def l1_def l2_def)
  have "\<not> snd (prefix_of l1 ''content_hash='')" "\<not> snd (prefix_of l2 ''version='')"
    by (simp_all add: prefix_of_def l1_def l2_def)
  then obtain x y where q: "prefix_of l1 ''content_hash='' = (x, False)"
    "prefix_of l2 ''version='' = (y, False)" by (metis prod.collapse)
  show ?thesis
    by (simp add: parseMeta_def lines p q scan_uint64_show Let_def)
qed

section \<open>Properties\<close>

definition command_action :: "Guard \<Rightarrow> pbDecision \<Rightarrow> pbCommand \<Rightarrow> Action" where
  "command_action g d cmd =
     local_action g d (zero_action\<lparr>ac_Args := c_Args cmd,
       ac_CommandLine := commandLine (c_Cmd cmd) (c_Args cmd)\<rparr>)"

lemma Recheck_ok_iff:
  "fst (Recheck rx verify g cmd) \<longleftrightarrow>
     loaded g \<and>
     (\<exists>d. c_Decision cmd = Some d \<and> pd_BundleVersion d = version g \<and>
        (serverPub g = [] \<or>
         VerifyDecision verify (serverPub g) (pd_RunId d) (pd_BundleVersion d) (pd_Effect d)
           (pd_MatchedRules d) (pd_ActorRole d) (pd_ApprovalId d) (pd_Sig d)) \<and>
        pd_Effect d = EffectAllow \<and>
        \<not> (\<exists>r \<in> set (rules g). matchesRule rx r (command_action g d cmd) \<and>
             (r_Effect r = EffectDeny \<or> r_Effect r = EffectRequireApproval \<and> pd_ApprovalId d = [])))"
proof (cases "check_decision verify g ''command'' (c_Decision cmd)")
  case (Inl reason)
  then have "\<nexists>d. check_decision verify g ''command'' (c_Decision cmd) = Inr d" by simp
  with Inl show ?thesis unfolding check_decision_Inr by (auto simp: Recheck_def)
next
  case (Inr d)
  from Inr [unfolded check_decision_Inr] have d: "c_Decision cmd = Some d" by simp
  have "fst (Recheck rx verify g cmd) \<longleftrightarrow> fst (recheck_action rx g d (command_action g d cmd))"
    by (simp add: Recheck_def Inr command_action_def)
  with Inr [unfolded check_decision_Inr] show ?thesis
    unfolding recheck_action_ok Evaluate_allow_iff Evaluate_deny_iff d by auto
qed

text \<open>
  C8: the command re-check accepts exactly when a bundle was received, the command carries a
  decision of the cached bundle version whose signature verifies (when the server key is
  known) and whose effect is allow, no cached rule that matches the local action denies, and,
  unless a human approval authorised it, none requires approval.  Everything else is refused.
\<close>

theorem Recheck_iff:
  "fst (Recheck rx verify g cmd) \<longleftrightarrow>
     loaded g \<and>
     (\<exists>d. c_Decision cmd = Some d \<and> pd_BundleVersion d = version g \<and>
        (serverPub g = [] \<or>
         VerifyDecision verify (serverPub g) (pd_RunId d) (pd_BundleVersion d) (pd_Effect d)
           (pd_MatchedRules d) (pd_ActorRole d) (pd_ApprovalId d) (pd_Sig d)) \<and>
        pd_Effect d = EffectAllow \<and>
        \<not> (\<exists>r \<in> set (rules g). matchesRule rx r (command_action g d cmd) \<and>
             (r_Effect r = EffectDeny \<or> r_Effect r = EffectRequireApproval \<and> pd_ApprovalId d = [])))"
  by (rule Recheck_ok_iff)

text \<open>
  an accepted task run without approval has every command-like step cleared: no deny or
  require-approval rule of the cached bundle matches the step's command line as an exec action.
\<close>

theorem RecheckTask_steps:
  assumes "fst (RecheckTask rx verify g run)" "tr_Decision run = Some d" "pd_ApprovalId d = []"
    and "s \<in> set (tr_Steps run)" "stepCommandLine s = (cl, True)"
    and "r \<in> set (rules g)" "r_Effect r \<in> {EffectDeny, EffectRequireApproval}"
  shows "\<not> matchesRule rx r
    (local_action g d (zero_action\<lparr>ac_ActionClass := ActionExec, ac_CommandLine := cl\<rparr>))"
proof -
  let ?a = "local_action g d (zero_action\<lparr>ac_ActionClass := ActionTaskRun\<rparr>)"
  have "recheck_steps rx g ?a (tr_Steps run) = None"
  proof (cases "check_decision verify g ''task run'' (tr_Decision run)")
    case (Inr d')
    with check_decision_Inr assms(2) have "d' = d" by (metis option.inject)
    with Inr assms(1,3) show ?thesis
      by (auto simp: RecheckTask_def Let_def split: if_splits option.splits)
  qed (use assms(1) in \<open>simp add: RecheckTask_def\<close>)
  then have "step_passes rx (rules g) ?a s" using assms(4) recheck_steps_None by blast
  then have "d_Effect (Evaluate rx (rules g) (?a\<lparr>ac_ActionClass := ActionExec, ac_CommandLine := cl\<rparr>))
      = EffectAllow"
    using assms(5) by (simp add: step_passes_def Evaluate_step_exec_action)
  moreover have "?a\<lparr>ac_ActionClass := ActionExec, ac_CommandLine := cl\<rparr> =
      local_action g d (zero_action\<lparr>ac_ActionClass := ActionExec, ac_CommandLine := cl\<rparr>)"
    by (simp add: local_action_def zero_action_def)
  ultimately show ?thesis
    using assms(6,7) unfolding Evaluate_allow_iff by auto
qed

text \<open>
  The package re-check evaluates an empty command line, so a rule scoped by a command
  regular expression that does not match the empty string is never applied there: adding such
  a rule, a deny rule included, changes no outcome of \<open>RecheckPkg\<close>.
\<close>

theorem RecheckPkg_ignores_command_rules:
  assumes "m_CommandRegex (r_Match r) \<noteq> []"
    and "rx (m_CommandRegex (r_Match r)) = None \<or> (\<exists>m. rx (m_CommandRegex (r_Match r)) = Some m \<and> \<not> m [])"
  shows "RecheckPkg rx verify (g\<lparr>rules := rules g @ [r]\<rparr>) op = RecheckPkg rx verify g op"
proof -
  have nm: "\<not> matchesRule rx r (local_action g d (PkgAction cls []))" for d cls
    using assms by (auto simp: matchesRule_def matchCommandRegex_def local_action_def PkgAction_def)
  have la: "local_action (g\<lparr>rules := rs\<rparr>) d b = local_action g d b" for d b rs
    by (simp add: local_action_def eolFor_def)
  have ev: "Evaluate rx (rules g @ [r]) (local_action g d (PkgAction cls [])) =
      Evaluate rx (rules g) (local_action g d (PkgAction cls []))" for d cls
    using nm by (simp add: Evaluate_def eval_loop_eq matching_def)
  have cd: "check_decision verify (g\<lparr>rules := rs\<rparr>) what dec = check_decision verify g what dec" for rs what dec
    unfolding check_decision_def by (cases dec) simp_all
  show ?thesis
    unfolding RecheckPkg_def cd
    by (auto simp: la ev recheck_action_def approvalCheck_def split: sum.split prod.split)
qed

text \<open>
  C38: the end-of-support state a decision carries is outside its signature: with a rule that
  denies hosts past end of support, the re-check refuses a command whose decision says so, and
  accepts the same command, decision and signature once that one field is rewritten.
\<close>

definition deny_ended :: Rule where
  "deny_ended = deny_all\<lparr>r_Match := (r_Match deny_all)\<lparr>m_EOL := ''ended''\<rparr>\<rparr>"

theorem EolState_not_signed:
  assumes "loaded g" "rules g = [deny_ended]" "pd_BundleVersion d = version g"
    and "pd_Effect d = EffectAllow" "pd_ApprovalId d = []" "pd_EolState d = ''ended''"
    and "VerifyDecision verify (serverPub g) (pd_RunId d) (pd_BundleVersion d) (pd_Effect d)
          (pd_MatchedRules d) (pd_ActorRole d) (pd_ApprovalId d) (pd_Sig d)"
  shows "\<not> fst (Recheck rx verify g (cmd\<lparr>c_Decision := Some d\<rparr>)) \<and>
    fst (Recheck rx verify g (cmd\<lparr>c_Decision := Some (d\<lparr>pd_EolState := ''supported''\<rparr>)\<rparr>))"
proof -
  have cd: "check_decision verify g ''command'' (Some d) = Inr d"
    "check_decision verify g ''command'' (Some (d\<lparr>pd_EolState := ''supported''\<rparr>))
      = Inr (d\<lparr>pd_EolState := ''supported''\<rparr>)"
    using assms by (simp_all add: check_decision_Inr)
  have m: "matchesRule rx deny_ended a \<longleftrightarrow> ac_HostEOL a = ''ended''" for a
    by (auto simp: deny_ended_def deny_all_def matchesRule_def matchHosts_def matchActions_def
        matchActorRoles_def matchCommandRegex_def matchEOL_def)
  have e: "r_Effect deny_ended = EffectDeny" by (simp add: deny_ended_def deny_all_def)
  show ?thesis
    using assms by (simp add: Recheck_def cd recheck_action_ok Evaluate_deny_iff Evaluate_allow_iff
        m e local_action_def eolFor_def)
qed

text \<open>
  a persisted bundle survives a restart: \<open>Load\<close> of what \<open>persist\<close> wrote gives a loaded
  guard with the same version, rules, content hash and server key, and with no host tags, no
  host roles and no end-of-support state, whatever the guard had.
\<close>

theorem Load_persist:
  assumes "unmarshal [] (marshal (rules g)) = (rules g, True)" "CHR 0x0A \<notin> set (contentHash g)"
    and "serverPub g \<noteq> [] \<or> server_pub fs = None"
  shows "Load unmarshal (persist marshal g fs) (NewGuard i) =
    ((NewGuard i)\<lparr>version := version g, rules := rules g, contentHash := contentHash g,
       serverPub := serverPub g, loaded := True\<rparr>, True)"
  using assms by (auto simp: Load_def persist_def parseMeta_meta_text Let_def NewGuard_def)

text \<open>
  so a rule scoped to a tag or a role of the host does not apply between a restart and the
  next bundle: after \<open>Load\<close> it matches no action, and a deny rule of this kind denies nothing.
\<close>

theorem Load_drops_host_scope:
  assumes "Load unmarshal fs (NewGuard i) = (g, True)"
    and "Parse (m_Hosts (r_Match r)) = Inr ps" "p \<in> set ps" "Kind p = PTag \<or> Kind p = PRole"
  shows "\<not> matchesRule rx r (local_action g d base)"
proof -
  have h: "hostTags g = Map.empty" "hostRoles g = []"
    using assms(1) by (auto simp: Load_def NewGuard_def Let_def split: option.splits prod.splits if_splits)
  then have "\<not> holds Map.empty (action_host (local_action g d base)) p"
    using assms(4) by (auto simp: holds_simps has_tag_def action_host_def local_action_def)
  then have "\<not> selectorResolveSingle ps (local_action g d base)"
    using assms(3) by (auto simp: selectorResolveSingle_iff)
  moreover have "m_Hosts (r_Match r) \<noteq> []" using assms(2) by (auto simp: Parse_def)
  ultimately show ?thesis using assms(2) by (simp add: matchesRule_def matchHosts_def)
qed

text \<open>
  A bundle whose rules do not decode is half applied: the guard takes its version and
  content hash, keeps the old rules and writes nothing, so decisions signed under the new
  version are then re-checked against the old rules.
\<close>

theorem OnBundle_bad_rules:
  assumes "b_RulesJson b \<noteq> []" "unmarshal (rules g) (b_RulesJson b) = (rules g, False)"
  shows "OnBundle marshal unmarshal b64dec b g fs =
    (g\<lparr>version := b_Version b, contentHash := b_ContentHash b\<rparr>, fs)"
  using assms by (simp add: OnBundle_def)

section \<open>Witnesses\<close>

definition allow_dec :: pbDecision where
  "allow_dec = \<lparr>pd_RunId = ''run_1'', pd_BundleVersion = 2, pd_Effect = EffectAllow,
     pd_MatchedRules = [], pd_Sig = ''s'', pd_ActorRole = ''operator'', pd_ApprovalId = [],
     pd_EolState = []\<rparr>"

definition guard2 :: "Rule list \<Rightarrow> Guard" where
  "guard2 rs = (NewGuard ''ag_1'')\<lparr>version := 2, rules := rs, contentHash := ''h'', serverPub := ''k'',
     hostTags := [''env'' \<mapsto> ''prod''], loaded := True\<rparr>"

definition cmd_step :: pbTaskStep where
  "cmd_step = \<lparr>s_Kind = ''command'', s_Name = [], s_When = [], s_Command = ''ls'', s_Args = [''/etc''],
     s_Env = [], s_Path = [], s_Content = [], s_Template = [], s_Vars = [], s_Mode = [],
     s_Package = [], s_State = [], s_Service = [], s_User = [], s_Group = [], s_Expr = []\<rparr>"

definition deny_rm :: Rule where
  "deny_rm = deny_all\<lparr>r_Match := (r_Match deny_all)\<lparr>m_CommandRegex := ''rm -rf /''\<rparr>\<rparr>"

theorem RecheckTask_steps_witness:
  "\<not> matchesRule (\<lambda>_. None) deny_rm
     (local_action (guard2 [deny_rm]) allow_dec
        (zero_action\<lparr>ac_ActionClass := ActionExec, ac_CommandLine := ''ls /etc''\<rparr>))"
proof (rule RecheckTask_steps [where s = cmd_step and verify = "\<lambda>_ _ _. True" and
      run = "\<lparr>tr_RunId = ''run_1'', tr_TaskId = ''t'', tr_TaskVersion = 1, tr_Steps = [cmd_step],
        tr_Decision = Some allow_dec\<rparr>"])
  show "fst (RecheckTask (\<lambda>_. None) (\<lambda>_ _ _. True) (guard2 [deny_rm])
      \<lparr>tr_RunId = ''run_1'', tr_TaskId = ''t'', tr_TaskVersion = 1, tr_Steps = [cmd_step],
       tr_Decision = Some allow_dec\<rparr>)" by code_simp
  show "stepCommandLine cmd_step = (''ls /etc'', True)" by code_simp
qed (simp_all add: allow_dec_def guard2_def deny_rm_def deny_all_def)

theorem RecheckPkg_ignores_command_rules_witness:
  "fst (RecheckPkg (\<lambda>_. Some (\<lambda>l. has_prefix l ''apt-get '')) (\<lambda>_ _ _. True)
     (guard2 ([] @ [deny_all\<lparr>r_Match := (r_Match deny_all)\<lparr>m_CommandRegex := ''^apt-get ''\<rparr>\<rparr>]))
     \<lparr>p_OpId = ''o'', p_Kind = PKG_APPLY, p_Decision = Some allow_dec, p_Packages = [], p_DryRun = False\<rparr>)"
proof -
  let ?r = "deny_all\<lparr>r_Match := (r_Match deny_all)\<lparr>m_CommandRegex := ''^apt-get ''\<rparr>\<rparr>"
  let ?rx = "\<lambda>_. Some (\<lambda>l. has_prefix l ''apt-get '')"
  let ?op = "\<lparr>p_OpId = ''o'', p_Kind = PKG_APPLY, p_Decision = Some allow_dec, p_Packages = [],
    p_DryRun = False\<rparr>"
  have "RecheckPkg ?rx (\<lambda>_ _ _. True) ((guard2 [])\<lparr>rules := rules (guard2 []) @ [?r]\<rparr>) ?op =
      RecheckPkg ?rx (\<lambda>_ _ _. True) (guard2 []) ?op"
    by (rule RecheckPkg_ignores_command_rules) (simp_all add: deny_all_def has_prefix_def)
  moreover have "fst (RecheckPkg ?rx (\<lambda>_ _ _. True) (guard2 []) ?op)" by code_simp
  moreover have "(guard2 [])\<lparr>rules := rules (guard2 []) @ [?r]\<rparr> = guard2 ([] @ [?r])"
    by (simp add: guard2_def NewGuard_def)
  ultimately show ?thesis by simp
qed

definition plain_cmd :: pbCommand where
  "plain_cmd = \<lparr>c_RunId = ''run_1'', c_ExecutionId = ''exec_1'', c_Cmd = ''ls'', c_Args = [], c_Cwd = [],
     c_User = [], c_TimeoutS = 0, c_Env = Map.empty, c_Retryable = False, c_Decision = None\<rparr>"

theorem EolState_not_signed_witness:
  "fst (Recheck (\<lambda>_. None) (\<lambda>_ _ s. s = ''s'') (guard2 [deny_ended])
     (plain_cmd\<lparr>c_Decision := Some (allow_dec\<lparr>pd_EolState := ''ended'', pd_EolState := ''supported''\<rparr>)\<rparr>))"
  using EolState_not_signed [of "guard2 [deny_ended]" "allow_dec\<lparr>pd_EolState := ''ended''\<rparr>"
      "\<lambda>_ _ s. s = ''s''" "\<lambda>_. None" plain_cmd]
  by (simp add: guard2_def NewGuard_def allow_dec_def VerifyDecision_def)

theorem Load_persist_witness:
  "version (fst (Load (\<lambda>_ js. (if js = ''1'' then [deny_rm] else [], True))
     (persist (\<lambda>rs. if rs = [] then ''0'' else ''1'') (guard2 [deny_rm])
        \<lparr>policy_json = None, policy_meta = None, server_pub = None\<rparr>) (NewGuard ''ag_1''))) = 2"
  by (subst Load_persist) (simp_all add: guard2_def NewGuard_def)

theorem Load_drops_host_scope_witness:
  "\<not> matchesRule (\<lambda>_. None)
     (deny_all\<lparr>r_Match := (r_Match deny_all)\<lparr>m_Hosts := ''tag:env=prod''\<rparr>\<rparr>)
     (local_action (fst (Load (\<lambda>_ _. ([], True))
        \<lparr>policy_json = Some ''[]'', policy_meta = None, server_pub = None\<rparr> (NewGuard ''ag_1'')))
        allow_dec zero_action)"
proof (rule Load_drops_host_scope [where p = "mk_pred PTag ''env'' ''prod'' []" and
      ps = "[mk_pred PTag ''env'' ''prod'' []]"])
  show "Load (\<lambda>_ _. ([], True)) \<lparr>policy_json = Some ''[]'', policy_meta = None, server_pub = None\<rparr>
      (NewGuard ''ag_1'') =
    (fst (Load (\<lambda>_ _. ([], True)) \<lparr>policy_json = Some ''[]'', policy_meta = None, server_pub = None\<rparr>
      (NewGuard ''ag_1'')), True)"
    by (simp add: Load_def)
  show "Parse (m_Hosts (r_Match (deny_all\<lparr>r_Match := (r_Match deny_all)\<lparr>m_Hosts := ''tag:env=prod''\<rparr>\<rparr>)))
      = Inr [mk_pred PTag ''env'' ''prod'' []]"
    by code_simp
qed simp_all

theorem OnBundle_bad_rules_witness:
  "version (fst (OnBundle (\<lambda>_. []) (\<lambda>old _. (old, False)) (\<lambda>_. None)
     \<lparr>b_Version = 3, b_ContentHash = [], b_RulesJson = ''{'', b_ServerPubkey = [],
      b_HostTags = Map.empty, b_HostRoles = [], b_AgentId = [], b_HostEol = []\<rparr>
     (guard2 [deny_rm]) \<lparr>policy_json = None, policy_meta = None, server_pub = None\<rparr>)) = 3"
  by (subst OnBundle_bad_rules) simp_all

end
