(* ===== verification/PolicyStore.thy ===== *)
theory PolicyStore
  imports Guardrail
begin

text \<open>
  Policy persistence, \<open>src/internal/store/policy.go\<close>: the rule table, the bundle version
  counter kept as text in \<open>meta\<close>, and the bundle the server pushes.  \<open>marshal_match\<close> and
  \<open>unmarshal_match\<close> are \<open>encoding/json\<close> on a match.
\<close>

record PolicyRow =
  pr_ID :: string
  pr_Name :: string
  pr_MatchJSON :: string
  pr_Effect :: string
  pr_Priority :: int
  pr_CreatedUnix :: int

record policy_db =
  policies :: "PolicyRow list"
  bundle_meta :: "string option"

datatype policy_error = PolicyExists | BadMatch string | BadVersion

text \<open>\<open>Sscanf(v, "%d", &n)\<close> into a \<open>uint64\<close>: an error when no number that fits is there.\<close>

definition scan_version :: "string \<Rightarrow> 64 word option" where
  "scan_version v =
     (let ds = takeWhile is_dec (trim_front space_encodings v); n = dec_nat ds 0
      in if ds = [] \<or> n \<ge> 2 ^ 64 then None else Some (word_of_nat n))"

definition PolicyBundleVersion :: "policy_db \<Rightarrow> policy_error + 64 word" where
  "PolicyBundleVersion db =
     (case bundle_meta db of
        None \<Rightarrow> Inr 0
      | Some v \<Rightarrow> (case scan_version v of None \<Rightarrow> Inl BadVersion | Some n \<Rightarrow> Inr n))"

definition bumpPolicyVersion :: "policy_db \<Rightarrow> policy_error option \<times> policy_db" where
  "bumpPolicyVersion db =
     (case PolicyBundleVersion db of
        Inl e \<Rightarrow> (Some e, db)
      | Inr cur \<Rightarrow> (None, db\<lparr>bundle_meta := Some (show_nat (unat (cur + 1)))\<rparr>))"

definition CreatePolicy ::
  "(Match \<Rightarrow> string) \<Rightarrow> int \<Rightarrow> string \<Rightarrow> string \<Rightarrow> Match \<Rightarrow> string \<Rightarrow> int \<Rightarrow> policy_db
   \<Rightarrow> policy_error option \<times> policy_db" where
  "CreatePolicy marshal_match now i name match effect priority db =
     (case sql_insert pr_ID
             \<lparr>pr_ID = i, pr_Name = name, pr_MatchJSON = marshal_match match, pr_Effect = effect,
              pr_Priority = priority, pr_CreatedUnix = now\<rparr> (policies db) of
        None \<Rightarrow> (Some PolicyExists, db)
      | Some rows \<Rightarrow> bumpPolicyVersion (db\<lparr>policies := rows\<rparr>))"

text \<open>\<open>ORDER BY priority ASC, id ASC\<close>.\<close>

definition ListPolicies :: "policy_db \<Rightarrow> PolicyRow list" where
  "ListPolicies db = sort_key pr_Priority (sort_key pr_ID (policies db))"

fun decode_rules :: "(string \<Rightarrow> Match option) \<Rightarrow> PolicyRow list \<Rightarrow> policy_error + Rule list" where
  "decode_rules unmarshal_match [] = Inr []"
| "decode_rules unmarshal_match (sp # stored) =
     (case unmarshal_match (pr_MatchJSON sp) of
        None \<Rightarrow> Inl (BadMatch (pr_ID sp))
      | Some m \<Rightarrow>
          bind_res (decode_rules unmarshal_match stored) (\<lambda>rest.
            Inr (\<lparr>r_ID = pr_ID sp, r_Name = pr_Name sp, r_Match = m, r_Effect = pr_Effect sp,
                  r_Priority = pr_Priority sp\<rparr> # rest)))"

definition GetPolicyRules :: "(string \<Rightarrow> Match option) \<Rightarrow> policy_db \<Rightarrow> policy_error + Rule list" where
  "GetPolicyRules unmarshal_match db = decode_rules unmarshal_match (ListPolicies db)"

definition DeletePolicy :: "string \<Rightarrow> policy_db \<Rightarrow> (policy_error + nat) \<times> policy_db" where
  "DeletePolicy i db =
     (let n = rows_affected (\<lambda>p. pr_ID p = i) (policies db);
          db1 = db\<lparr>policies := sql_delete (\<lambda>p. pr_ID p = i) (policies db)\<rparr>
      in if n > 0 then
           (case bumpPolicyVersion db1 of
              (Some e, db2) \<Rightarrow> (Inl e, db2)
            | (None, db2) \<Rightarrow> (Inr n, db2))
         else (Inr n, db1))"

definition BuildPolicyBundle ::
  "(string \<Rightarrow> Match option) \<Rightarrow> (Rule list \<Rightarrow> string) \<Rightarrow> (string \<Rightarrow> string) \<Rightarrow> policy_db
   \<Rightarrow> policy_error + 64 word \<times> string \<times> string" where
  "BuildPolicyBundle unmarshal_match marshal hash64 db =
     bind_res (GetPolicyRules unmarshal_match db) (\<lambda>rs.
       case BuildBundle marshal hash64 (Some rs) of (v, h, j) \<Rightarrow>
         bind_res (PolicyBundleVersion db) (\<lambda>stored.
           Inr (if stored > 0 then stored else v, h, j)))"

section \<open>The version counter\<close>

lemma scan_version_uint64: "scan_version v = (if scan_uint64 v 0 = scan_uint64 v 1 then Some (scan_uint64 v 0) else None)"
  by (simp add: scan_version_def scan_uint64_def Let_def)

text \<open>Reachable rule tables: created empty, changed by the two operations.\<close>

inductive policy_reach :: "(Match \<Rightarrow> string) \<Rightarrow> nat \<Rightarrow> policy_db \<Rightarrow> bool" for mm where
  init: "policy_reach mm 0 \<lparr>policies = [], bundle_meta = None\<rparr>"
| create: "policy_reach mm n db \<Longrightarrow> CreatePolicy mm now i name m eff prio db = (None, db') \<Longrightarrow>
    policy_reach mm (Suc n) db'"
| create_fail: "policy_reach mm n db \<Longrightarrow> CreatePolicy mm now i name m eff prio db = (Some e, db') \<Longrightarrow>
    policy_reach mm n db'"
| delete: "policy_reach mm n db \<Longrightarrow> DeletePolicy i db = (Inr (Suc k), db') \<Longrightarrow> policy_reach mm (Suc n) db'"
| delete_none: "policy_reach mm n db \<Longrightarrow> DeletePolicy i db = (Inr 0, db') \<Longrightarrow> policy_reach mm n db'"

lemma scan_version_show: "scan_version (show_nat (unat v)) = Some v"
  by (simp add: scan_version_uint64 scan_uint64_show)

text \<open>After \<open>n\<close> changes the counter stands at \<open>n\<close>; before the first there are no rules.\<close>

definition policy_inv :: "nat \<Rightarrow> policy_db \<Rightarrow> bool" where
  "policy_inv n db \<longleftrightarrow> keyed pr_ID (policies db) \<and>
     (if n = 0 then policies db = [] \<and> bundle_meta db = None
      else bundle_meta db = Some (show_nat (unat (word_of_nat n :: 64 word))))"

lemma policy_inv_version:
  assumes "policy_inv n db"
  shows "PolicyBundleVersion db = Inr (word_of_nat n)"
  using assms by (auto simp: policy_inv_def PolicyBundleVersion_def scan_version_show split: if_splits)

lemma bumpPolicyVersion_eq:
  assumes "PolicyBundleVersion db = Inr (word_of_nat n)"
  shows "bumpPolicyVersion db = (None, db\<lparr>bundle_meta := Some (show_nat (unat (word_of_nat (Suc n) :: 64 word)))\<rparr>)"
  using assms by (simp add: bumpPolicyVersion_def add.commute)

lemma PolicyBundleVersion_policies [simp]:
  "PolicyBundleVersion (db\<lparr>policies := rows\<rparr>) = PolicyBundleVersion db"
  by (simp add: PolicyBundleVersion_def)

lemma policy_inv_CreatePolicy:
  assumes "policy_inv n db" "CreatePolicy mm now i name m eff prio db = (e, db')"
  shows "if e = None then policy_inv (Suc n) db' else db' = db"
  using assms bumpPolicyVersion_eq [of "db\<lparr>policies := rows\<rparr>" n for rows] policy_inv_version [OF assms(1)]
  by (auto simp: CreatePolicy_def policy_inv_def sql_insert_def keyed_def split: option.splits if_splits)

lemma policy_inv_DeletePolicy:
  assumes "policy_inv n db" "DeletePolicy i db = (Inr k, db')"
  shows "policy_inv (if k > 0 then Suc n else n) db'"
proof (cases "rows_affected (\<lambda>p. pr_ID p = i) (policies db) > 0")
  case True
  with assms bumpPolicyVersion_eq [of "db\<lparr>policies := sql_delete (\<lambda>p. pr_ID p = i) (policies db)\<rparr>" n]
    policy_inv_version [OF assms(1)]
  show ?thesis
    by (auto simp: DeletePolicy_def policy_inv_def Let_def keyed_sql_delete)
next
  case False
  then have "sql_delete (\<lambda>p. pr_ID p = i) (policies db) = policies db"
    by (simp add: rows_affected_def sql_delete_def filter_empty_conv)
  with False assms show ?thesis by (simp add: DeletePolicy_def Let_def)
qed

lemma policy_reach_inv: "policy_reach mm n db \<Longrightarrow> policy_inv n db"
proof (induction rule: policy_reach.induct)
  case init
  then show ?case by (simp add: policy_inv_def keyed_def)
next
  case (create n db now i name m eff prio db')
  then show ?case using policy_inv_CreatePolicy by force
next
  case (create_fail n db now i name m eff prio e db')
  then show ?case using policy_inv_CreatePolicy by force
next
  case (delete n db i k db')
  then show ?case using policy_inv_DeletePolicy by force
next
  case (delete_none n db i db')
  then show ?case using policy_inv_DeletePolicy by force
qed

lemma decode_rules_ok:
  assumes "\<forall>p \<in> set stored. unm (pr_MatchJSON p) \<noteq> None"
  shows "\<exists>rs. decode_rules unm stored = Inr rs \<and> map r_ID rs = map pr_ID stored"
  using assms by (induction stored) auto

lemma GetPolicyRules_ok:
  assumes "\<forall>p \<in> set (policies db). unm (pr_MatchJSON p) \<noteq> None"
  shows "\<exists>rs. GetPolicyRules unm db = Inr rs \<and> map r_ID rs = map pr_ID (ListPolicies db)"
  unfolding GetPolicyRules_def
  by (rule decode_rules_ok) (use assms in \<open>simp add: ListPolicies_def\<close>)

text \<open>
  The bundle the server pushes and the decisions it signs carry the same version: after any
  \<open>n\<close> rule changes both read \<open>n\<close>, so every change moves the version on and an agent that
  missed a bundle refuses the decisions made under the next one.
\<close>
theorem bundle_version_counts_changes:
  assumes "policy_reach mm n db" "n < 2 ^ 64" "\<forall>p \<in> set (policies db). unm (pr_MatchJSON p) \<noteq> None"
  shows "PolicyBundleVersion db = Inr (word_of_nat n) \<and>
    (\<exists>h j. BuildPolicyBundle unm marshal hash64 db = Inr (word_of_nat n, h, j))"
proof -
  note inv = policy_reach_inv [OF assms(1)]
  have v: "PolicyBundleVersion db = Inr (word_of_nat n)" by (rule policy_inv_version [OF inv])
  obtain rs where rs: "GetPolicyRules unm db = Inr rs" "map r_ID rs = map pr_ID (ListPolicies db)"
    using GetPolicyRules_ok [OF assms(3)] by blast
  have pos: "0 < (word_of_nat n :: 64 word) \<longleftrightarrow> n \<noteq> 0"
    using assms(2) by (simp add: word_less_nat_alt unat_of_nat)
  have "rs = []" if "n = 0"
    using that inv rs(2) by (simp add: policy_inv_def ListPolicies_def)
  then have "\<exists>h j. BuildPolicyBundle unm marshal hash64 db = Inr (word_of_nat n, h, j)"
    using rs(1) v pos by (cases "n = 0") (auto simp: BuildPolicyBundle_def BuildBundle_def Let_def)
  with v show ?thesis by simp
qed

definition match_any :: Match where
  "match_any = \<lparr>m_Hosts = ''*'', m_Actions = [], m_ActorRoles = [], m_CommandRegex = [], m_EOL = []\<rparr>"

definition one_policy :: policy_db where
  "one_policy = snd (CreatePolicy (\<lambda>m. ''{}'') 7 ''p1'' ''all'' match_any ''deny'' 1
     \<lparr>policies = [], bundle_meta = None\<rparr>)"

lemma one_policy_reach: "policy_reach (\<lambda>m. ''{}'') 1 one_policy"
proof -
  have "CreatePolicy (\<lambda>m. ''{}'') 7 ''p1'' ''all'' match_any ''deny'' 1
      \<lparr>policies = [], bundle_meta = None\<rparr> = (None, one_policy)"
    by (simp add: one_policy_def CreatePolicy_def sql_insert_def bumpPolicyVersion_def PolicyBundleVersion_def)
  from policy_reach.create [OF policy_reach.init this] show ?thesis by simp
qed

theorem bundle_version_counts_changes_witness:
  "\<exists>h j. BuildPolicyBundle (\<lambda>s. Some match_any) (\<lambda>rs. []) id one_policy = Inr (word_of_nat 1, h, j)"
  using bundle_version_counts_changes [OF one_policy_reach, of "\<lambda>s. Some match_any"] by simp

end
