(* ===== verification/Server.thy ===== *)
theory Server
  imports Runs TaskStore ApprovalStore PolicyStore
begin

text \<open>
  The state of the server process: the store's tables, the stream handler's maps
  (\<open>src/internal/server/stream/stream.go\<close>), and what leaves the process (envelopes on the
  streams, audit events, server-sent events).  The tables of runs are the record's base, so
  the statements of theory \<open>Runs\<close> apply to it as they are.

  Two things of the environment are fields: \<open>net n\<close> says whether the \<open>n\<close>-th send on a gRPC
  stream succeeds, and the connection of a session is a number.  Times are in nanoseconds;
  the store reads them in seconds.  An audit event keeps its payload as the map the code
  marshals; the chaining of the audit table is theory \<open>AuditChain\<close>.
\<close>

record UpdateDirective =
  ud_ReleaseId :: string
  ud_Version :: string
  ud_Arch :: string
  ud_Kind :: string
  ud_Sha256 :: string
  ud_Signature :: string
  ud_Grant :: string
  ud_Unsigned :: bool

record ElevationPush =
  ep_PushId :: string
  ep_PolicyName :: string
  ep_RulesJson :: string
  ep_PolicySha :: string
  ep_Signature :: string

datatype Envelope =
    ECommand pbCommand
  | ECancel string
  | EPolicyBundle pbPolicyBundle
  | EUpdateDirective UpdateDirective
  | EElevationPush ElevationPush
  | EFileOp pbFileOp
  | EPkgOp pbPkgOp
  | ETaskRun pbTaskRun
  | EJobAssign pbJobAssignment
  | EJobUnassign string
  | ESecretMaterialize pbSecretMaterialize

record queuedEnvelope =
  q_env :: Envelope
  q_expiresAt :: int

record updateGrant =
  ug_agentID :: string
  ug_releaseID :: string
  ug_expiresAt :: int

record Release =
  rl_ID :: string
  rl_Version :: string
  rl_Arch :: string
  rl_Kind :: string
  rl_SHA256 :: string
  rl_Signature :: string

record PendingUpdate =
  pu_AgentID :: string
  pu_ReleaseID :: string
  pu_CreatedAt :: int

record audit_entry =
  au_TS :: int
  au_Kind :: string
  au_Actor :: string
  au_AgentID :: string
  au_Payload :: "(string \<times> string) list"

text \<open>A result of a file, package or task operation: its id, and the rest of the message.\<close>

record pbOpResult =
  or_OpId :: string
  or_Body :: string

record server = run_db +
  hosts :: hosts_db
  pol :: policy_db
  approvals :: approval_table
  taskdb :: task_db
  releases :: "Release list"
  pending_updates :: "PendingUpdate list"
  sessions :: "string \<rightharpoonup> nat"
  offlineQueue :: "string \<Rightarrow> queuedEnvelope list"
  offlineTTL :: int
  offlineCap :: nat
  filePending :: "string \<rightharpoonup> pbOpResult list"
  pkgPending :: "string \<rightharpoonup> pbOpResult list"
  taskPending :: "string \<rightharpoonup> pbOpResult list"
  updateGrants :: "string \<rightharpoonup> updateGrant"
  net :: "nat \<Rightarrow> bool"
  sends :: nat
  sent :: "(nat \<times> Envelope) list"
  audits :: "audit_entry list"
  events :: "(string \<times> (string \<times> string) list) list"

definition unix :: "int \<Rightarrow> int" where
  "unix t = t div 1000000000"

definition emit :: "string \<Rightarrow> (string \<times> string) list \<Rightarrow> server \<Rightarrow> server" where
  "emit kind payload st = st\<lparr>events := events st @ [(kind, payload)]\<rparr>"

definition append_audit :: "audit_entry \<Rightarrow> server \<Rightarrow> server" where
  "append_audit a st = st\<lparr>audits := audits st @ [a]\<rparr>"

text \<open>Whether a host id is in the table of hosts, for the foreign keys.\<close>

definition known_host :: "server \<Rightarrow> string \<Rightarrow> bool" where
  "known_host st i \<longleftrightarrow> i \<in> a_ID ` set (agents (hosts st))"

section \<open>Pending updates, \<open>src/internal/store/updates.go\<close>\<close>

definition UpsertPendingUpdate :: "int \<Rightarrow> string \<Rightarrow> string \<Rightarrow> server \<Rightarrow> server" where
  "UpsertPendingUpdate now agent release st =
     st\<lparr>pending_updates := sql_upsert pu_AgentID
          (\<lambda>p. p\<lparr>pu_ReleaseID := release, pu_CreatedAt := now\<rparr>)
          \<lparr>pu_AgentID = agent, pu_ReleaseID = release, pu_CreatedAt = now\<rparr> (pending_updates st)\<rparr>"

definition GetPendingUpdate :: "string \<Rightarrow> server \<Rightarrow> PendingUpdate option" where
  "GetPendingUpdate agent st = sql_get pu_AgentID agent (pending_updates st)"

definition DeletePendingUpdate :: "string \<Rightarrow> server \<Rightarrow> server" where
  "DeletePendingUpdate agent st =
     st\<lparr>pending_updates := sql_delete (\<lambda>p. pu_AgentID p = agent) (pending_updates st)\<rparr>"

definition GetRelease :: "string \<Rightarrow> server \<Rightarrow> Release option" where
  "GetRelease i st = sql_get rl_ID i (releases st)"

definition init_server :: "(nat \<Rightarrow> bool) \<Rightarrow> server" where
  "init_server nt = \<lparr>executions = [], runs = [], chunks = [],
     hosts = empty_db, pol = \<lparr>policies = [], bundle_meta = None\<rparr>, approvals = [], taskdb = empty_tasks,
     releases = [], pending_updates = [], sessions = Map.empty, offlineQueue = (\<lambda>_. []),
     offlineTTL = 1800000000000, offlineCap = 100, filePending = Map.empty, pkgPending = Map.empty,
     taskPending = Map.empty, updateGrants = Map.empty, net = nt, sends = 0, sent = [],
     audits = [], events = []\<rparr>"

end
