(* ===== verification/Stream.thy ===== *)
theory Stream
  imports Server
begin

text \<open>
  The server side of the agent stream: \<open>src/internal/server/stream/stream.go\<close>,
  \<open>src/internal/server/stream/updates.go\<close> and \<open>src/internal/hsauth/hsauth.go\<close>.
  The handshake, registration and teardown of a session, the sends, the queue for offline
  agents with its expiry, eviction and drain, the one-time download grants, and the handler
  of incoming envelopes.  The hooks the controllers install are arguments (\<open>hooks\<close>).
\<close>

section \<open>Handshake\<close>

definition BuildMsg :: "string \<Rightarrow> string \<Rightarrow> 64 word \<Rightarrow> string" where
  "BuildMsg nonce uuid ts = nonce @ uuid @ uint64Bytes ts"

text \<open>Subtraction and negation wrap at 64 bits, comparisons are signed.\<close>

definition CheckSkew :: "64 word \<Rightarrow> 64 word \<Rightarrow> bool" where
  "CheckSkew ts now =
     (let diff = now - ts; diff' = (if sint diff < 0 then - diff else diff)
      in \<not> sint diff' > 300)"

record AuthProof =
  ap_AgentUuid :: string
  ap_Ts :: "64 word"
  ap_Sig :: string

definition AgentByUUID :: "string \<Rightarrow> hosts_db \<Rightarrow> Agent option" where
  "AgentByUUID u db = sql_get a_UUID u (agents db)"

definition authenticate ::
  "(string \<Rightarrow> string option) \<Rightarrow> (string \<Rightarrow> string \<Rightarrow> string \<Rightarrow> bool) \<Rightarrow> string \<Rightarrow> 64 word
   \<Rightarrow> AuthProof option \<Rightarrow> server \<Rightarrow> Agent option" where
  "authenticate b64dec verify nonce now proof st =
     (case proof of
        None \<Rightarrow> None
      | Some ap \<Rightarrow>
          (case AgentByUUID (ap_AgentUuid ap) (hosts st) of
             None \<Rightarrow> None
           | Some agent \<Rightarrow>
               if \<not> CheckSkew (ap_Ts ap) now then None
               else
                 (case b64dec (a_ED25519Pub agent) of
                    None \<Rightarrow> None
                  | Some pub \<Rightarrow>
                      if verify pub (BuildMsg nonce (ap_AgentUuid ap) (ap_Ts ap)) (ap_Sig ap)
                      then Some agent else None)))"

section \<open>Hooks\<close>

record pbCommandResult =
  cr_RunId :: string
  cr_ExitCode :: int
  cr_State :: string
  cr_DurationMs :: int
  cr_Elevated :: bool
  cr_ElevationNote :: string

record pbUpdateResult =
  ur_ReleaseId :: string
  ur_Phase :: string
  ur_Error :: string
  ur_Version :: string

text \<open>
  The functions the assembly installs, a nil hook being \<open>None\<close>; the last three stand for
  calls into parts that are not modelled (host facts documents, certificate rotation).
\<close>

record hooks =
  ResultHook :: "(string \<Rightarrow> server \<Rightarrow> server) option"
  DisconnectHook :: "(string \<Rightarrow> server \<Rightarrow> server) option"
  SessionDataHook :: "(string \<Rightarrow> string \<Rightarrow> string \<Rightarrow> server \<Rightarrow> server) option"
  SessionResultHook :: "(string \<Rightarrow> string \<Rightarrow> int \<Rightarrow> string \<Rightarrow> int \<Rightarrow> server \<Rightarrow> server) option"
  JobRunResultHook :: "(string \<Rightarrow> pbOpResult \<Rightarrow> server \<Rightarrow> server) option"
  TaskResultHook :: "(string \<Rightarrow> string \<Rightarrow> pbOpResult \<Rightarrow> server \<Rightarrow> server) option"
  ObserveFactsHook :: "(string \<Rightarrow> server \<Rightarrow> server) option"
  UpdateResultHook :: "(string \<Rightarrow> pbUpdateResult \<Rightarrow> server \<Rightarrow> server) option"
  UpsertFacts_ext :: "string \<Rightarrow> string \<Rightarrow> server \<Rightarrow> server"
  UpsertHostFactsJSON_ext :: "string \<Rightarrow> string \<Rightarrow> server \<Rightarrow> server"
  RotateAgentCert_ext :: "string \<Rightarrow> server \<Rightarrow> server"

section \<open>Sends\<close>

text \<open>One send on the stream of connection \<open>sid\<close>.\<close>

definition sess_send :: "nat \<Rightarrow> Envelope \<Rightarrow> server \<Rightarrow> bool \<times> server" where
  "sess_send sid env st =
     (let ok = net st (sends st); st1 = st\<lparr>sends := sends st + 1\<rparr>
      in (ok, if ok then st1\<lparr>sent := sent st1 @ [(sid, env)]\<rparr> else st1))"

datatype send_error = AgentOffline | SendFailed | NoSession | DuplicateOp

section \<open>The offline queue\<close>

definition expireQueued :: "hooks \<Rightarrow> int \<Rightarrow> queuedEnvelope \<Rightarrow> server \<Rightarrow> server" where
  "expireQueued hk t qe st =
     (case q_env qe of
        ECommand c \<Rightarrow>
          (let st1 = UpdateRunState (unix t) (c_RunId c) ''expired'' (-1) 0 st
           in case ResultHook hk of
                Some hook \<Rightarrow> if c_ExecutionId c \<noteq> [] then hook (c_ExecutionId c) st1 else st1
              | None \<Rightarrow> st1)
      | _ \<Rightarrow> st)"

definition queueOffline :: "hooks \<Rightarrow> int \<Rightarrow> string \<Rightarrow> Envelope \<Rightarrow> server \<Rightarrow> server" where
  "queueOffline hk t agent env st =
     (let q = offlineQueue st agent;
          dropped = (if length q \<ge> offlineCap st then Some (hd q) else None);
          q1 = (if length q \<ge> offlineCap st then tl q else q);
          st1 = st\<lparr>offlineQueue := (offlineQueue st)(agent :=
                    q1 @ [\<lparr>q_env = env, q_expiresAt = t + offlineTTL st\<rparr>])\<rparr>
      in case dropped of None \<Rightarrow> st1 | Some qe \<Rightarrow> expireQueued hk t qe st1)"

definition requeueOffline :: "string \<Rightarrow> queuedEnvelope list \<Rightarrow> server \<Rightarrow> server" where
  "requeueOffline agent qes st =
     st\<lparr>offlineQueue := (offlineQueue st)(agent := offlineQueue st agent @ qes)\<rparr>"

text \<open>
  The delivery loop of \<open>drainOffline\<close>: \<open>None\<close> when a send failed and the rest went back to
  the queue, otherwise the release of the last update directive delivered.
\<close>

fun drain_loop ::
  "hooks \<Rightarrow> int \<Rightarrow> string \<Rightarrow> nat \<Rightarrow> queuedEnvelope list \<Rightarrow> string \<Rightarrow> server \<Rightarrow> string option \<times> server" where
  "drain_loop hk t agent sid [] rel st = (Some rel, st)"
| "drain_loop hk t agent sid (qe # q) rel st =
     (if t > q_expiresAt qe then drain_loop hk t agent sid q rel (expireQueued hk t qe st)
      else
        (case sess_send sid (q_env qe) st of
           (False, st1) \<Rightarrow> (None, requeueOffline agent (qe # q) st1)
         | (True, st1) \<Rightarrow>
             let rel1 = (case q_env qe of EUpdateDirective u \<Rightarrow> ud_ReleaseId u | _ \<Rightarrow> rel);
                 st2 = (case q_env qe of
                          ECommand c \<Rightarrow> UpdateRunState (unix t) (c_RunId c) ''delivered'' (-1) 0 st1
                        | _ \<Rightarrow> st1)
             in drain_loop hk t agent sid q rel1 st2))"

text \<open>\<open>IssueUpdateGrant\<close>: \<open>tok\<close> is the random token; expired grants are reaped on the way.\<close>

definition IssueUpdateGrant :: "int \<Rightarrow> string \<Rightarrow> string \<Rightarrow> string \<Rightarrow> server \<Rightarrow> server option" where
  "IssueUpdateGrant t tok agent release st =
     (if agent = [] \<or> release = [] then None
      else
        let live = (\<lambda>k. case updateGrants st k of None \<Rightarrow> None
                          | Some g \<Rightarrow> if t > ug_expiresAt g then None else Some g)
        in Some (st\<lparr>updateGrants := live(tok \<mapsto>
             \<lparr>ug_agentID = agent, ug_releaseID = release, ug_expiresAt = t + 600000000000\<rparr>)\<rparr>))"

definition RedeemUpdateGrant :: "int \<Rightarrow> string \<Rightarrow> server \<Rightarrow> (string \<times> string) option \<times> server" where
  "RedeemUpdateGrant t tok st =
     (case updateGrants st tok of
        None \<Rightarrow> (None, st)
      | Some g \<Rightarrow>
          if t > ug_expiresAt g then (None, st)
          else (Some (ug_agentID g, ug_releaseID g),
                st\<lparr>updateGrants := (updateGrants st)(tok := None)\<rparr>))"

definition deliverPendingUpdate :: "int \<Rightarrow> string \<Rightarrow> string \<Rightarrow> nat \<Rightarrow> server \<Rightarrow> bool \<times> server" where
  "deliverPendingUpdate t tok agent sid st =
     (case GetPendingUpdate agent st of
        None \<Rightarrow> (False, st)
      | Some p \<Rightarrow>
          (case GetRelease (pu_ReleaseID p) st of
             None \<Rightarrow> (False, DeletePendingUpdate agent st)
           | Some rel \<Rightarrow>
               (case IssueUpdateGrant t tok agent (pu_ReleaseID p) st of
                  None \<Rightarrow> (False, st)
                | Some st1 \<Rightarrow>
                    (case sess_send sid (EUpdateDirective
                            \<lparr>ud_ReleaseId = rl_ID rel, ud_Version = rl_Version rel, ud_Arch = rl_Arch rel,
                             ud_Kind = rl_Kind rel, ud_Sha256 = rl_SHA256 rel,
                             ud_Signature = rl_Signature rel, ud_Grant = tok,
                             ud_Unsigned = (rl_Signature rel = [])\<rparr>) st1 of
                       (False, st2) \<Rightarrow> (False, st2)
                     | (True, st2) \<Rightarrow> (True, DeletePendingUpdate agent st2)))))"

definition drainOffline :: "hooks \<Rightarrow> int \<Rightarrow> string \<Rightarrow> string \<Rightarrow> nat \<Rightarrow> server \<Rightarrow> server" where
  "drainOffline hk t tok agent sid st =
     (let q = offlineQueue st agent
      in if q = [] then snd (deliverPendingUpdate t tok agent sid st)
         else
           let st1 = st\<lparr>offlineQueue := (offlineQueue st)(agent := [])\<rparr>
           in case drain_loop hk t agent sid q [] st1 of
                (None, st2) \<Rightarrow> st2
              | (Some rel, st2) \<Rightarrow>
                  (case GetPendingUpdate agent st2 of
                     None \<Rightarrow> st2
                   | Some p \<Rightarrow>
                       if pu_ReleaseID p = rel then DeletePendingUpdate agent st2
                       else snd (deliverPendingUpdate t tok agent sid st2)))"

text \<open>
  One tick of the offline sweeper: expired envelopes leave every queue, then each is
  finalised.  \<open>agents_order\<close> is the order in which the map of queues is ranged over; queues
  of agents not in it are empty.
\<close>

definition sweepOffline :: "hooks \<Rightarrow> int \<Rightarrow> string list \<Rightarrow> server \<Rightarrow> server" where
  "sweepOffline hk t agents_order st =
     (let expired = concat (map (\<lambda>a. filter (\<lambda>qe. t > q_expiresAt qe) (offlineQueue st a)) agents_order);
          st1 = st\<lparr>offlineQueue := (\<lambda>a. if a \<in> set agents_order
                     then filter (\<lambda>qe. \<not> t > q_expiresAt qe) (offlineQueue st a) else offlineQueue st a)\<rparr>
      in fold (expireQueued hk t) expired st1)"

section \<open>Commands down\<close>

definition SendCommand :: "hooks \<Rightarrow> int \<Rightarrow> string \<Rightarrow> pbCommand \<Rightarrow> server \<Rightarrow> send_error option \<times> server" where
  "SendCommand hk t agent cmd st =
     (case sessions st agent of
        None \<Rightarrow> (Some AgentOffline, queueOffline hk t agent (ECommand cmd) st)
      | Some sid \<Rightarrow>
          (case sess_send sid (ECommand cmd) st of
             (ok, st1) \<Rightarrow> (if ok then None else Some SendFailed, st1)))"

definition SendCancel :: "string \<Rightarrow> string \<Rightarrow> server \<Rightarrow> send_error option \<times> server" where
  "SendCancel agent runID st =
     (case sessions st agent of
        None \<Rightarrow> (Some NoSession, st)
      | Some sid \<Rightarrow>
          (case sess_send sid (ECancel runID) st of
             (ok, st1) \<Rightarrow> (if ok then None else Some SendFailed, st1)))"

definition SendElevationPush :: "string \<Rightarrow> ElevationPush \<Rightarrow> server \<Rightarrow> send_error option \<times> server" where
  "SendElevationPush agent p st =
     (case sessions st agent of
        None \<Rightarrow> (Some AgentOffline, st)
      | Some sid \<Rightarrow>
          (case sess_send sid (EElevationPush p) st of
             (ok, st1) \<Rightarrow> (if ok then None else Some SendFailed, st1)))"

definition SendUpdateDirective :: "string \<Rightarrow> UpdateDirective \<Rightarrow> server \<Rightarrow> send_error option \<times> server" where
  "SendUpdateDirective agent dir st =
     (case sessions st agent of
        None \<Rightarrow> (Some AgentOffline, st)
      | Some sid \<Rightarrow>
          (case sess_send sid (EUpdateDirective dir) st of
             (ok, st1) \<Rightarrow> (if ok then None else Some SendFailed, st1)))"

definition QueueUpdateDirective :: "hooks \<Rightarrow> int \<Rightarrow> string \<Rightarrow> UpdateDirective \<Rightarrow> server \<Rightarrow> server" where
  "QueueUpdateDirective hk t agent dir st =
     (case SendUpdateDirective agent dir st of
        (None, st1) \<Rightarrow> st1
      | (Some e, st1) \<Rightarrow>
          UpsertPendingUpdate (unix t) agent (ud_ReleaseId dir)
            (queueOffline hk t agent (EUpdateDirective dir) st1))"

text \<open>
  File, package and task requests register a result slot (a channel of capacity one) before
  the send and drop it when the send fails.
\<close>

definition SendFileOp :: "string \<Rightarrow> pbFileOp \<Rightarrow> server \<Rightarrow> send_error option \<times> server" where
  "SendFileOp agent op st =
     (case sessions st agent of
        None \<Rightarrow> (Some NoSession, st)
      | Some sid \<Rightarrow>
          if filePending st (f_OpId op) \<noteq> None then (Some DuplicateOp, st)
          else
            (case sess_send sid (EFileOp op) (st\<lparr>filePending := (filePending st)(f_OpId op \<mapsto> [])\<rparr>) of
               (True, st1) \<Rightarrow> (None, st1)
             | (False, st1) \<Rightarrow> (Some SendFailed, st1\<lparr>filePending := (filePending st1)(f_OpId op := None)\<rparr>)))"

definition SendPkgOp :: "string \<Rightarrow> pbPkgOp \<Rightarrow> server \<Rightarrow> send_error option \<times> server" where
  "SendPkgOp agent op st =
     (case sessions st agent of
        None \<Rightarrow> (Some NoSession, st)
      | Some sid \<Rightarrow>
          if pkgPending st (p_OpId op) \<noteq> None then (Some DuplicateOp, st)
          else
            (case sess_send sid (EPkgOp op) (st\<lparr>pkgPending := (pkgPending st)(p_OpId op \<mapsto> [])\<rparr>) of
               (True, st1) \<Rightarrow> (None, st1)
             | (False, st1) \<Rightarrow> (Some SendFailed, st1\<lparr>pkgPending := (pkgPending st1)(p_OpId op := None)\<rparr>)))"

definition SendTaskRun :: "string \<Rightarrow> pbTaskRun \<Rightarrow> server \<Rightarrow> send_error option \<times> server" where
  "SendTaskRun agent run st =
     (case sessions st agent of
        None \<Rightarrow> (Some NoSession, st)
      | Some sid \<Rightarrow>
          if taskPending st (tr_RunId run) \<noteq> None then (Some DuplicateOp, st)
          else
            (case sess_send sid (ETaskRun run) (st\<lparr>taskPending := (taskPending st)(tr_RunId run \<mapsto> [])\<rparr>) of
               (True, st1) \<Rightarrow> (None, st1)
             | (False, st1) \<Rightarrow> (Some SendFailed, st1\<lparr>taskPending := (taskPending st1)(tr_RunId run := None)\<rparr>)))"

text \<open>\<open>ch <- r\<close> with a default case: a full channel drops the value.\<close>

definition offer :: "pbOpResult \<Rightarrow> pbOpResult list \<Rightarrow> pbOpResult list" where
  "offer r ch = (if ch = [] then [r] else ch)"

section \<open>Sessions\<close>

definition pushPolicyBundle ::
  "(string \<Rightarrow> Match option) \<Rightarrow> (Rule list \<Rightarrow> string) \<Rightarrow> (string \<Rightarrow> string) \<Rightarrow> string
   \<Rightarrow> (string \<Rightarrow> string) option \<Rightarrow> string \<Rightarrow> nat \<Rightarrow> server \<Rightarrow> server" where
  "pushPolicyBundle unmarshal_match marshal hash64 pub64 eolp agent sid st =
     (case BuildPolicyBundle unmarshal_match marshal hash64 (pol st) of
        Inl e \<Rightarrow> st
      | Inr (v, h, j) \<Rightarrow>
          snd (sess_send sid (EPolicyBundle
            \<lparr>b_Version = v, b_ContentHash = h, b_RulesJson = j, b_ServerPubkey = pub64,
             b_HostTags = Tags_of (hosts st) agent, b_HostRoles = Roles_of (hosts st) agent,
             b_AgentId = agent, b_HostEol = (case eolp of None \<Rightarrow> [] | Some p \<Rightarrow> p agent)\<rparr>) st))"

definition register_session :: "int \<Rightarrow> string \<Rightarrow> nat \<Rightarrow> server \<Rightarrow> server" where
  "register_session t agent sid st =
     (let st1 = st\<lparr>hosts := MarkSeen (unix t) agent (SetAgentState agent ''connected'' (hosts st))\<rparr>;
          st2 = emit ''host.state'' [(''agent_id'', agent), (''state'', ''connected'')] st1
      in st2\<lparr>sessions := (sessions st2)(agent \<mapsto> sid)\<rparr>)"

text \<open>The deferred teardown when the stream of \<open>agent\<close> ends.\<close>

definition end_session :: "hooks \<Rightarrow> string \<Rightarrow> server \<Rightarrow> server" where
  "end_session hk agent st =
     (let st1 = st\<lparr>sessions := (sessions st)(agent := None)\<rparr>;
          st2 = st1\<lparr>hosts := SetAgentState agent ''disconnected'' (hosts st1)\<rparr>;
          st3 = st2\<lparr>filePending := Map.empty\<rparr>;
          st4 = emit ''host.state'' [(''agent_id'', agent), (''state'', ''disconnected'')] st3
      in case DisconnectHook hk of None \<Rightarrow> st4 | Some hook \<Rightarrow> hook agent st4)"

text \<open>\<open>Stream\<close> up to its envelope loop: \<open>None\<close> when the handshake is refused.\<close>

definition Stream_open ::
  "hooks \<Rightarrow> (string \<Rightarrow> Match option) \<Rightarrow> (Rule list \<Rightarrow> string) \<Rightarrow> (string \<Rightarrow> string) \<Rightarrow> string
   \<Rightarrow> (string \<Rightarrow> string) option \<Rightarrow> (string \<Rightarrow> string option) \<Rightarrow> (string \<Rightarrow> string \<Rightarrow> string \<Rightarrow> bool)
   \<Rightarrow> int \<Rightarrow> string \<Rightarrow> AuthProof option \<Rightarrow> string \<Rightarrow> nat \<Rightarrow> server \<Rightarrow> (string \<times> server) option" where
  "Stream_open hk unmarshal_match marshal hash64 pub64 eolp b64dec verify t nonce proof tok sid st =
     (case authenticate b64dec verify nonce (word_of_int (unix t)) proof st of
        None \<Rightarrow> None
      | Some agent \<Rightarrow>
          let st1 = register_session t (a_ID agent) sid st;
              st2 = pushPolicyBundle unmarshal_match marshal hash64 pub64 eolp (a_ID agent) sid st1
          in Some (a_ID agent, drainOffline hk t tok (a_ID agent) sid st2))"

section \<open>Envelopes up\<close>

datatype UpMsg =
    Heartbeat
  | FactsUp string
  | OutputUp string int bool string
  | ResultUp pbCommandResult
  | AckUp
  | TlsRenew
  | UpdateResultUp pbUpdateResult
  | ElevationPushResultUp string bool string
  | FileOpResultUp pbOpResult
  | PkgResultUp pbOpResult
  | TaskRunResultUp pbOpResult
  | JobRunResultUp pbOpResult
  | ObserveFactsUp string
  | SessionDataUp string string
  | SessionResultUp string int string int
  | OtherUp

definition call0 :: "(server \<Rightarrow> server) option \<Rightarrow> server \<Rightarrow> server" where
  "call0 h st = (case h of None \<Rightarrow> st | Some f \<Rightarrow> f st)"

definition handle_result :: "hooks \<Rightarrow> int \<Rightarrow> pbCommandResult \<Rightarrow> server \<Rightarrow> server" where
  "handle_result hk t r st =
     (let st1 = UpdateRunState (unix t) (cr_RunId r) (cr_State r) (cr_ExitCode r) (cr_DurationMs r) st;
          st2 = (if cr_ElevationNote r \<noteq> [] \<or> cr_Elevated r then
                   (case SetRunElevation (unix t) (cr_RunId r) (cr_Elevated r) (cr_ElevationNote r) st1 of
                      Inl e \<Rightarrow> st1 | Inr s \<Rightarrow> s)
                 else st1)
      in case ResultHook hk of
           None \<Rightarrow> st2
         | Some hook \<Rightarrow>
             (case ExecutionIDForRun (cr_RunId r) st2 of None \<Rightarrow> st2 | Some execID \<Rightarrow> hook execID st2))"

definition handle_update_result :: "hooks \<Rightarrow> int \<Rightarrow> string \<Rightarrow> pbUpdateResult \<Rightarrow> server \<Rightarrow> server" where
  "handle_update_result hk t agent ur st =
     (let st1 = (if ur_Phase ur = ''verified'' \<and> ur_Version ur \<noteq> []
                 then st\<lparr>hosts := SetAgentVersion agent (ur_Version ur) (hosts st)\<rparr> else st);
          st2 = call0 (map_option (\<lambda>h. h agent ur) (UpdateResultHook hk)) st1;
          st3 = append_audit \<lparr>au_TS = unix t, au_Kind = ''update.result'', au_Actor = ''agent'',
                  au_AgentID = agent, au_Payload = [(''release_id'', ur_ReleaseId ur), (''phase'', ur_Phase ur),
                    (''error'', ur_Error ur), (''version'', ur_Version ur)]\<rparr> st2
      in emit ''update.result'' [(''agent_id'', agent), (''release_id'', ur_ReleaseId ur),
           (''phase'', ur_Phase ur)] st3)"

definition show_bool :: "bool \<Rightarrow> string" where
  "show_bool b = (if b then ''true'' else ''false'')"

definition handle_push_result :: "int \<Rightarrow> string \<Rightarrow> string \<Rightarrow> bool \<Rightarrow> string \<Rightarrow> server \<Rightarrow> server" where
  "handle_push_result t agent pushID ok detail st =
     emit ''elevation.push.result'' [(''agent_id'', agent), (''push_id'', pushID), (''ok'', show_bool ok)]
       (append_audit \<lparr>au_TS = unix t, au_Kind = ''elevation.push.result'', au_Actor = ''agent'',
          au_AgentID = agent, au_Payload = [(''push_id'', pushID), (''ok'', show_bool ok),
            (''detail'', detail)]\<rparr> st)"

fun handleUp :: "hooks \<Rightarrow> int \<Rightarrow> string \<Rightarrow> UpMsg \<Rightarrow> server \<Rightarrow> server" where
  "handleUp hk t agent Heartbeat st = st\<lparr>hosts := MarkSeen (unix t) agent (hosts st)\<rparr>"
| "handleUp hk t agent (FactsUp f) st = UpsertFacts_ext hk agent f st"
| "handleUp hk t agent (OutputUp run sq is_stderr d) st =
     PromoteRunToRunning (unix t) run
       (recv_output \<lparr>oc_RunID = run, oc_ChunkSeq = sq,
          oc_Stream = (if is_stderr then ''stderr'' else ''stdout''), oc_Data = d\<rparr> st)"
| "handleUp hk t agent (ResultUp r) st = handle_result hk t r st"
| "handleUp hk t agent AckUp st = st"
| "handleUp hk t agent TlsRenew st = RotateAgentCert_ext hk agent st"
| "handleUp hk t agent (UpdateResultUp ur) st = handle_update_result hk t agent ur st"
| "handleUp hk t agent (ElevationPushResultUp p ok detail) st = handle_push_result t agent p ok detail st"
| "handleUp hk t agent (FileOpResultUp r) st =
     (case filePending st (or_OpId r) of None \<Rightarrow> st
      | Some ch \<Rightarrow> st\<lparr>filePending := (filePending st)(or_OpId r \<mapsto> offer r ch)\<rparr>)"
| "handleUp hk t agent (PkgResultUp r) st =
     (case pkgPending st (or_OpId r) of None \<Rightarrow> st
      | Some ch \<Rightarrow> st\<lparr>pkgPending := (pkgPending st)(or_OpId r \<mapsto> offer r ch)\<rparr>)"
| "handleUp hk t agent (TaskRunResultUp r) st =
     (case taskPending st (or_OpId r) of
        Some ch \<Rightarrow> st\<lparr>taskPending := (taskPending st)(or_OpId r \<mapsto> offer r ch)\<rparr>
      | None \<Rightarrow> call0 (map_option (\<lambda>h. h agent (or_OpId r) r) (TaskResultHook hk)) st)"
| "handleUp hk t agent (JobRunResultUp r) st =
     call0 (map_option (\<lambda>h. h agent r) (JobRunResultHook hk)) st"
| "handleUp hk t agent (ObserveFactsUp json) st =
     call0 (map_option (\<lambda>h. h agent) (ObserveFactsHook hk)) (UpsertHostFactsJSON_ext hk agent json st)"
| "handleUp hk t agent (SessionDataUp s d) st =
     call0 (map_option (\<lambda>h. h agent s d) (SessionDataHook hk)) st"
| "handleUp hk t agent (SessionResultUp s x state dur) st =
     call0 (map_option (\<lambda>h. h agent s x state dur) (SessionResultHook hk)) st"
| "handleUp hk t agent OtherUp st = st"

section \<open>The skew check\<close>

lemma sint_bounds: "- (2 ^ 63) \<le> sint (a :: 64 word) \<and> sint a < 2 ^ 63"
  using sint_lt [of a] sint_ge [of a] by simp

lemma sint_sub_nonneg:
  fixes a b :: "64 word"
  assumes "0 \<le> sint a" "0 \<le> sint b"
  shows "sint (a - b) = sint a - sint b"
proof -
  have "signed_take_bit 63 (sint a - sint b) = sint a - sint b"
    using assms sint_bounds [of a] sint_bounds [of b] by (intro signed_take_bit_int_eq_self) simp_all
  then show ?thesis by (simp add: sint_word_diff)
qed

lemma sint_minus_small:
  fixes d :: "64 word"
  assumes "- (2 ^ 63) < sint d"
  shows "sint (- d) = - sint d"
proof -
  have "signed_take_bit 63 (- sint d) = - sint d"
    using assms sint_bounds [of d] by (intro signed_take_bit_int_eq_self) simp_all
  then show ?thesis by (simp add: sint_word_minus)
qed

text \<open>
  The clock check of the handshake accepts a time stamp exactly when it is within 300
  seconds of the server's clock, for time stamps after 1970; but the subtraction wraps, so the
  stamp 2^63 seconds away from the clock passes as well.
\<close>
theorem CheckSkew_window:
  "(0 \<le> sint now \<and> 0 \<le> sint ts \<longrightarrow> (CheckSkew ts now \<longleftrightarrow> \<bar>sint now - sint ts\<bar> \<le> 300)) \<and>
   CheckSkew (now - 2 ^ 63) now"
proof (intro conjI impI)
  assume nn: "0 \<le> sint now \<and> 0 \<le> sint ts"
  then have d: "sint (now - ts) = sint now - sint ts" by (simp add: sint_sub_nonneg)
  moreover have "- (2 ^ 63) < sint (now - ts)" using d nn sint_bounds [of ts] by linarith
  ultimately show "CheckSkew ts now \<longleftrightarrow> \<bar>sint now - sint ts\<bar> \<le> 300"
    using sint_sub_nonneg [of ts now] nn by (auto simp: CheckSkew_def Let_def sint_minus_small abs_if)
next
  have "now - (now - 2 ^ 63) = (2 ^ 63 :: 64 word)" by simp
  moreover have "sint (2 ^ 63 :: 64 word) = - (2 ^ 63)" "- (2 ^ 63) = (2 ^ 63 :: 64 word)"
    by (simp_all add: sint_uint)
  ultimately show "CheckSkew (now - 2 ^ 63) now" by (simp add: CheckSkew_def Let_def)
qed

theorem CheckSkew_window_witness:
  "CheckSkew 1000 1300 \<and> \<not> CheckSkew 1000 1301"
  using CheckSkew_window [of 1300 1000] CheckSkew_window [of 1301 1000] by (simp add: sint_uint)

section \<open>What the hooks may do\<close>

text \<open>
  The hooks the control plane installs for results and disconnects touch neither the streams
  nor the queues (proved of the code's hooks where they are defined).
\<close>

definition same_streams :: "server \<Rightarrow> server \<Rightarrow> bool" where
  "same_streams s s' \<longleftrightarrow> sessions s' = sessions s \<and> offlineQueue s' = offlineQueue s \<and>
     offlineCap s' = offlineCap s \<and> offlineTTL s' = offlineTTL s \<and>
     sent s' = sent s \<and> sends s' = sends s \<and> net s' = net s \<and> filePending s' = filePending s \<and>
     pending_updates s' = pending_updates s \<and> releases s' = releases s \<and>
     updateGrants s' = updateGrants s"

definition quiet_hooks :: "hooks \<Rightarrow> bool" where
  "quiet_hooks hk \<longleftrightarrow>
     (\<forall>h e s. ResultHook hk = Some h \<or> DisconnectHook hk = Some h \<longrightarrow> same_streams s (h e s))"

lemma same_streams_refl [simp]: "same_streams s s"
  by (simp add: same_streams_def)

lemma same_streams_trans: "same_streams a b \<Longrightarrow> same_streams b c \<Longrightarrow> same_streams a c"
  by (simp add: same_streams_def)

lemma same_streams_UpdateRunState [frame]: "same_streams s (UpdateRunState now i state x d s)"
  by (simp add: same_streams_def UpdateRunState_def)

lemma same_streams_expireQueued [frame]:
  "quiet_hooks hk \<Longrightarrow> same_streams s (expireQueued hk t qe s)"
  by (auto simp: expireQueued_def Let_def quiet_hooks_def
      intro: same_streams_trans [OF same_streams_UpdateRunState] same_streams_UpdateRunState
      split: Envelope.splits option.splits)

lemma sess_send_fields:
  "sess_send sid env st = (ok, st') \<Longrightarrow> ok = net st (sends st) \<and> sends st' = Suc (sends st) \<and>
     sent st' = (if ok then sent st @ [(sid, env)] else sent st) \<and>
     offlineQueue st' = offlineQueue st \<and> sessions st' = sessions st \<and> runs st' = runs st \<and>
     net st' = net st \<and> pending_updates st' = pending_updates st \<and> releases st' = releases st"
  by (auto simp: sess_send_def Let_def)

section \<open>Draining the queue\<close>

abbreviation unexpired :: "int \<Rightarrow> queuedEnvelope list \<Rightarrow> queuedEnvelope list" where
  "unexpired t q \<equiv> filter (\<lambda>qe. \<not> t > q_expiresAt qe) q"

lemma drain_loop_accounts:
  assumes "quiet_hooks hk" "drain_loop hk t agent sid q rel st = (res, st')"
  shows "\<exists>handled rest. q = handled @ rest \<and> (rest = [] \<longleftrightarrow> res \<noteq> None) \<and>
    sent st' = sent st @ map (\<lambda>qe. (sid, q_env qe)) (unexpired t handled) \<and>
    offlineQueue st' = (offlineQueue st)(agent := offlineQueue st agent @ rest)"
  using assms(2)
proof (induction q arbitrary: rel st)
  case Nil
  then show ?case by auto
next
  case (Cons qe q)
  show ?case
  proof (cases "t > q_expiresAt qe")
    case True
    let ?s = "expireQueued hk t qe st"
    have same: "sent ?s = sent st" "offlineQueue ?s = offlineQueue st"
      using same_streams_expireQueued [OF assms(1)] by (simp_all add: same_streams_def)
    from Cons.prems True have "drain_loop hk t agent sid q rel ?s = (res, st')" by simp
    from Cons.IH [OF this] obtain handled rest where "q = handled @ rest" "rest = [] \<longleftrightarrow> res \<noteq> None"
      "sent st' = sent st @ map (\<lambda>qe. (sid, q_env qe)) (unexpired t handled)"
      "offlineQueue st' = (offlineQueue st)(agent := offlineQueue st agent @ rest)"
      unfolding same by blast
    with True show ?thesis by (intro exI [of _ "qe # handled"] exI [of _ rest]) simp
  next
    case False
    obtain ok s1 where s: "sess_send sid (q_env qe) st = (ok, s1)" by (cases "sess_send sid (q_env qe) st")
    note f = sess_send_fields [OF s]
    show ?thesis
    proof (cases ok)
      case False': False
      with Cons.prems False s have "res = None" "st' = requeueOffline agent (qe # q) s1" by simp_all
      with f False' show ?thesis
        by (intro exI [of _ "[]"] exI [of _ "qe # q"]) (simp add: requeueOffline_def)
    next
      case True
      obtain rel2 s2 where d: "drain_loop hk t agent sid q rel2 s2 = (res, st')"
        "sent s2 = sent s1" "offlineQueue s2 = offlineQueue s1"
        using Cons.prems False s True same_streams_UpdateRunState
        by (auto simp: Let_def same_streams_def split: Envelope.splits)
      from Cons.IH [OF d(1)] obtain handled rest where "q = handled @ rest" "rest = [] \<longleftrightarrow> res \<noteq> None"
        "sent st' = sent s1 @ map (\<lambda>qe. (sid, q_env qe)) (unexpired t handled)"
        "offlineQueue st' = (offlineQueue s1)(agent := offlineQueue s1 agent @ rest)"
        unfolding d by blast
      with f True False show ?thesis by (intro exI [of _ "qe # handled"] exI [of _ rest]) simp
    qed
  qed
qed

lemma deliverPendingUpdate_sent:
  "\<exists>extra. sent (snd (deliverPendingUpdate t tok agent sid st)) = sent st @ extra \<and>
     offlineQueue (snd (deliverPendingUpdate t tok agent sid st)) = offlineQueue st \<and>
     (extra = [] \<or> (\<exists>u. extra = [(sid, EUpdateDirective u)]))"
  by (auto simp: deliverPendingUpdate_def DeletePendingUpdate_def IssueUpdateGrant_def sess_send_def Let_def
      split: option.splits prod.splits bool.splits if_splits)


definition no_hooks :: hooks where
  "no_hooks = \<lparr>ResultHook = None, DisconnectHook = None, SessionDataHook = None,
     SessionResultHook = None, JobRunResultHook = None, TaskResultHook = None, ObserveFactsHook = None,
     UpdateResultHook = None, UpsertFacts_ext = (\<lambda>a f s. s), UpsertHostFactsJSON_ext = (\<lambda>a f s. s),
     RotateAgentCert_ext = (\<lambda>a s. s)\<rparr>"

lemma quiet_no_hooks [simp]: "quiet_hooks no_hooks"
  by (simp add: quiet_hooks_def no_hooks_def)

definition ls_command :: "string \<Rightarrow> pbCommand" where
  "ls_command run = \<lparr>c_RunId = run, c_ExecutionId = ''e1'', c_Cmd = ''ls'', c_Args = [], c_Cwd = [],
     c_User = [], c_TimeoutS = 0, c_Env = Map.empty, c_Retryable = False, c_Decision = None\<rparr>"

definition queued_state :: server where
  "queued_state = queueOffline no_hooks 0 ''h1'' (ECommand (ls_command ''r1'')) (init_server (\<lambda>_. True))"


section \<open>The queue is bounded\<close>

text \<open>
  The queue of an offline agent never grows beyond its capacity: queueing onto a full queue
  evicts the oldest envelope, keeps the others in order with the new one last, and, when the
  evicted envelope is a command whose run is still open, that run becomes \<open>expired\<close>, so no
  run is left waiting for an envelope that no longer exists.
\<close>
theorem queueOffline_bounded:
  assumes "quiet_hooks hk" "0 < offlineCap st" "length (offlineQueue st agent) \<le> offlineCap st"
  shows "length (offlineQueue (queueOffline hk t agent env st) agent) \<le> offlineCap st \<and>
    (\<exists>old. offlineQueue (queueOffline hk t agent env st) agent =
       old @ [\<lparr>q_env = env, q_expiresAt = t + offlineTTL st\<rparr>] \<and>
       (if length (offlineQueue st agent) < offlineCap st then old = offlineQueue st agent
        else \<exists>qe. offlineQueue st agent = qe # old \<and>
          queueOffline hk t agent env st = expireQueued hk t qe
            (st\<lparr>offlineQueue := (offlineQueue st)(agent :=
                old @ [\<lparr>q_env = env, q_expiresAt = t + offlineTTL st\<rparr>])\<rparr>)))"
proof (cases "offlineQueue st agent")
  case Nil
  with assms(2) show ?thesis by (simp add: queueOffline_def Let_def)
next
  case (Cons qe q)
  have "offlineQueue (expireQueued hk t qe s) = offlineQueue s" for s
    using same_streams_expireQueued [OF assms(1)] by (simp add: same_streams_def)
  with Cons assms(3) show ?thesis by (auto simp: queueOffline_def Let_def)
qed

theorem queueOffline_bounded_witness:
  "length (offlineQueue (queueOffline no_hooks 0 ''h1'' (ECancel ''r1'') (init_server (\<lambda>_. True))) ''h1'') \<le> 100"
  using queueOffline_bounded [of no_hooks "init_server (\<lambda>_. True)" "''h1''" 0 "ECancel ''r1''"]
  by (simp add: init_server_def)

section \<open>Grants\<close>

text \<open>
  A download grant is good for the host and release it was issued for, once and only until
  it expires: redeeming it within its ten minutes returns exactly the binding, redeeming it
  again (even at once) is refused, and no other grant is affected by the redemption.
\<close>
theorem grant_single_use:
  assumes "IssueUpdateGrant t tok agent release st = Some st1"
  shows "if t' \<le> t + 600000000000
    then (\<exists>st2. RedeemUpdateGrant t' tok st1 = (Some (agent, release), st2) \<and>
            fst (RedeemUpdateGrant t'' tok st2) = None \<and>
            (\<forall>k. k \<noteq> tok \<longrightarrow> updateGrants st2 k = updateGrants st1 k))
    else RedeemUpdateGrant t' tok st1 = (None, st1)"
  using assms by (auto simp: IssueUpdateGrant_def RedeemUpdateGrant_def Let_def split: if_splits)

theorem grant_single_use_witness:
  "fst (RedeemUpdateGrant 700000000000 ''k''
     (the (IssueUpdateGrant 1 ''k'' ''h1'' ''rel1'' (init_server (\<lambda>_. True))))) = None"
proof -
  obtain s where s: "IssueUpdateGrant 1 ''k'' ''h1'' ''rel1'' (init_server (\<lambda>_. True)) = Some s"
    by (simp add: IssueUpdateGrant_def)
  from grant_single_use [OF s, of 700000000000] s show ?thesis by simp
qed

section \<open>Teardown and results are not tied to the agent\<close>

text \<open>
  C40: The teardown of a stream reaches too far.  When an agent reconnects before its old
  stream has ended, the old stream's teardown removes the new session, so the next command is
  queued as if the agent were offline; and it clears the pending file operations of every
  agent, so another agent's result is dropped.
\<close>
theorem teardown_overreaches:
  assumes "quiet_hooks hk"
  shows "fst (SendCommand hk t agent cmd
      (end_session hk agent (register_session t2 agent 2 (register_session t1 agent 1 st)))) = Some AgentOffline \<and>
    handleUp hk t other (FileOpResultUp r) (end_session hk agent st) = end_session hk agent st"
proof -
  have s: "sessions (end_session hk agent s) agent = None" "filePending (end_session hk agent s) = Map.empty" for s
    using assms by (auto simp: end_session_def Let_def emit_def quiet_hooks_def same_streams_def split: option.splits)
  show ?thesis by (simp add: SendCommand_def s)
qed

theorem teardown_overreaches_witness:
  "fst (SendCommand no_hooks 9 ''h1'' (ls_command ''r1'') (end_session no_hooks ''h1''
      (register_session 2 ''h1'' 2 (register_session 1 ''h1'' 1 (init_server (\<lambda>_. True)))))) = Some AgentOffline"
  using teardown_overreaches [OF quiet_no_hooks] by blast

text \<open>
  A command result is accepted from any authenticated agent: the handler looks the run up
  by the id in the message and never compares the run's host with the session's, so a host can
  report the outcome of a run of another host.
\<close>
theorem result_from_any_agent:
  assumes "run \<in> set (runs st)" "er_State run \<in> set open_states" "er_AgentID run \<noteq> agent"
    and "cr_RunId res = er_ID run" "\<not> cr_Elevated res" "cr_ElevationNote res = []" "ResultHook hk = None"
  shows "\<exists>run' \<in> set (runs (handleUp hk t agent (ResultUp res) st)).
    er_ID run' = er_ID run \<and> er_AgentID run' = er_AgentID run \<and> er_State run' = cr_State res \<and>
    er_ExitCode run' = Some (cr_ExitCode res)"
proof -
  let ?r = "run\<lparr>er_State := cr_State res, er_ExitCode := Some (cr_ExitCode res),
    er_DurationMS := Some (cr_DurationMs res), er_Updated := unix t\<rparr>"
  have "?r \<in> set (runs (handleUp hk t agent (ResultUp res) st))"
    using assms by (auto simp: handle_result_def Let_def UpdateRunState_def set_sql_update)
  then show ?thesis by (rule bexI [rotated]) simp
qed

theorem result_from_any_agent_witness:
  "\<exists>run' \<in> set (runs (handleUp no_hooks 0 ''h2''
      (ResultUp \<lparr>cr_RunId = ''r1'', cr_ExitCode = 0, cr_State = ''succeeded'', cr_DurationMs = 1,
         cr_Elevated = False, cr_ElevationNote = []\<rparr>)
      (init_server (\<lambda>_. True)\<lparr>runs := [run_sample ''r1'' ''e1'' ''h1'' ''running'']\<rparr>))).
    er_ID run' = ''r1'' \<and> er_AgentID run' = ''h1'' \<and> er_State run' = ''succeeded''"
  using result_from_any_agent [of "run_sample ''r1'' ''e1'' ''h1'' ''running''"
      "init_server (\<lambda>_. True)\<lparr>runs := [run_sample ''r1'' ''e1'' ''h1'' ''running'']\<rparr>" "''h2''"
      "\<lparr>cr_RunId = ''r1'', cr_ExitCode = 0, cr_State = ''succeeded'', cr_DurationMs = 1,
         cr_Elevated = False, cr_ElevationNote = []\<rparr>" no_hooks 0]
  by (auto simp: run_sample_def open_states_def no_hooks_def)

end
