(* ===== verification/Approvals.thy ===== *)
theory Approvals
  imports Stream
begin

text \<open>
  The approvals controller, \<open>src/internal/server/approvals/approvals.go\<close>: creating a request
  for a parked action, approving it (decide, sign an allow decision that carries the request's
  id, dispatch the stored payload), denying it, and finalising what a denied or expired request
  held.  Successive readings of the clock are separate arguments; dispatchers and the
  finalisation hook are fields of the controller, as in the code.
\<close>

record approvals_ctl =
  ac_ttl :: int
  ac_ident :: "string option"
  ac_Dispatchers :: "string \<rightharpoonup> (ApprovalRequest \<Rightarrow> pbDecision \<Rightarrow> server \<Rightarrow> string option \<times> server)"
  ac_OnExecExpired :: "(string \<Rightarrow> server \<Rightarrow> server) option"

record ApprovalActor =
  aa_Principal :: string
  aa_Role :: string

record NewRequestParams =
  np_ActionClass :: string
  np_AgentID :: string
  np_ExecutionID :: string
  np_RunID :: string
  np_Actor :: string
  np_ActorRole :: string
  np_MatchedRules :: "string list"
  np_PayloadJSON :: string

datatype approve_error =
    NeedAdmin string
  | RequestNotFound
  | RequestIs string
  | RunIs string
  | NoIdentity
  | StoreError approval_error
  | NoDispatcher string
  | DispatchError string

section \<open>Audit and events\<close>

definition approval_audit ::
  "int \<Rightarrow> ApprovalRequest \<Rightarrow> string \<Rightarrow> string \<Rightarrow> string \<Rightarrow> server \<Rightarrow> server" where
  "approval_audit now req kind decidedBy reason st =
     append_audit \<lparr>au_TS = now, au_Kind = ''approval'', au_Actor = decidedBy, au_AgentID = ap_AgentID req,
       au_Payload = [(''request_id'', ap_ID req), (''kind'', kind), (''action_class'', ap_ActionClass req),
         (''agent_id'', ap_AgentID req), (''actor'', ap_Actor req), (''decided_by'', decidedBy),
         (''reason'', reason)]\<rparr> st"

definition approval_emit :: "ApprovalRequest \<Rightarrow> string \<Rightarrow> server \<Rightarrow> server" where
  "approval_emit req event st =
     emit event [(''request_id'', ap_ID req), (''action_class'', ap_ActionClass req),
       (''agent_id'', ap_AgentID req), (''state'', ap_State req)] st"

definition decisionRunID :: "ApprovalRequest \<Rightarrow> string" where
  "decisionRunID req = (if ap_RunID req \<noteq> [] then ap_RunID req else ap_ID req)"

section \<open>Requests\<close>

text \<open>\<open>i\<close> is the fresh id (\<open>id.New("apr")\<close>); the payload arrives as its JSON text.\<close>

definition NewRequest ::
  "approvals_ctl \<Rightarrow> int \<Rightarrow> string \<Rightarrow> NewRequestParams \<Rightarrow> server \<Rightarrow> (approval_error + ApprovalRequest) \<times> server" where
  "NewRequest c now i p st =
     (let req = \<lparr>ap_ID = i, ap_ActionClass = np_ActionClass p, ap_PayloadJSON = np_PayloadJSON p,
            ap_AgentID = np_AgentID p, ap_ExecutionID = np_ExecutionID p, ap_RunID = np_RunID p,
            ap_Actor = np_Actor p, ap_ActorRole = np_ActorRole p,
            ap_MatchedRules = join_str '','' (np_MatchedRules p), ap_State = ''pending'',
            ap_CreatedUnix = now, ap_ExpiresUnix = now + ac_ttl c, ap_DecidedUnix = 0,
            ap_DecidedBy = [], ap_DecisionReason = []\<rparr>
      in case CreateApprovalRequest now req (approvals st) of
           Inl e \<Rightarrow> (Inl e, st)
         | Inr tbl \<Rightarrow>
             (Inr req, approval_emit req ''approval.requested''
                (approval_audit now req ''requested'' (ap_Actor req) [] (st\<lparr>approvals := tbl\<rparr>))))"

text \<open>The parked row of a denied or expired request, by action class.\<close>

definition finalizeParked ::
  "approvals_ctl \<Rightarrow> int \<Rightarrow> ApprovalRequest \<Rightarrow> string \<Rightarrow> string \<Rightarrow> server \<Rightarrow> server" where
  "finalizeParked c now r kind reason st =
     (if ap_RunID r = [] then st
      else if ap_ActionClass r = ''exec'' then
        (let st1 = UpdateRunState now (ap_RunID r) ''failed'' (-1) 0 st;
             st2 = approval_audit now r kind ''system'' reason st1
         in case ac_OnExecExpired c of
              None \<Rightarrow> st2
            | Some hook \<Rightarrow> if ap_ExecutionID r \<noteq> [] then hook (ap_ExecutionID r) st2 else st2)
      else if ap_ActionClass r = ''session.open'' then
        approval_audit now r kind ''system'' reason
          (st\<lparr>taskdb := UpdateSessionState now (ap_RunID r) ''failed'' (-1) reason (taskdb st)\<rparr>)
      else if ap_ActionClass r = ''task.run'' then
        approval_audit now r kind ''system'' reason
          (st\<lparr>taskdb := snd (FinalizeTaskRun now (ap_RunID r) ''failed'' reason 0 (taskdb st))\<rparr>)
      else if ap_ActionClass r = ''job.run'' then
        approval_audit now r kind ''system'' reason
          (st\<lparr>taskdb := FinalizeJobRun now (ap_RunID r) ''failed'' reason (taskdb st)\<rparr>)
      else st)"

text \<open>
  \<open>Approve\<close>: \<open>t1\<close> is the clock at the expiry test, \<open>t2\<close> at the decision.  The expiry
  branch asks the store for the state \<open>expired\<close>, and ignores its answer.
\<close>

definition approved_decision ::
  "(string \<Rightarrow> string \<Rightarrow> string) \<Rightarrow> string \<Rightarrow> ApprovalRequest \<Rightarrow> server \<Rightarrow> pbDecision" where
  "approved_decision sign priv req st =
     (let version = (case PolicyBundleVersion (pol st) of Inl e \<Rightarrow> 0 | Inr v \<Rightarrow> v);
          mrules = (if ap_MatchedRules req \<noteq> [] then split_char (CHR '','') (ap_MatchedRules req) else [])
      in \<lparr>pd_RunId = decisionRunID req, pd_BundleVersion = version, pd_Effect = EffectAllow,
          pd_MatchedRules = mrules,
          pd_Sig = SignDecision sign priv (decisionRunID req) version EffectAllow mrules
                     (ap_ActorRole req) (ap_ID req),
          pd_ActorRole = ap_ActorRole req, pd_ApprovalId = ap_ID req, pd_EolState = []\<rparr>)"

text \<open>The dispatch of an approved request, and the decision and dispatch of a pending one.\<close>

definition dispatch_approved ::
  "approvals_ctl \<Rightarrow> int \<Rightarrow> ApprovalRequest \<Rightarrow> pbDecision \<Rightarrow> server
   \<Rightarrow> ApprovalRequest option \<times> approve_error option \<times> server" where
  "dispatch_approved c t2 req dec st =
     (case ac_Dispatchers c (ap_ActionClass req) of
        None \<Rightarrow> (Some req, Some (NoDispatcher (ap_ActionClass req)), st)
      | Some fn \<Rightarrow>
          (case fn req dec st of
             (Some err, st1) \<Rightarrow>
               (Some req, Some (DispatchError err),
                approval_audit t2 req ''dispatch_error'' (ap_DecidedBy req) err st1)
           | (None, st1) \<Rightarrow> (Some req, None, st1)))"

definition finished_run :: "ApprovalRequest \<Rightarrow> server \<Rightarrow> string option" where
  "finished_run req st =
     (if ap_RunID req = [] then None
      else
        (case GetExecutionRun (ap_RunID req) st of
           None \<Rightarrow> None
         | Some run \<Rightarrow> if IsTerminalRun (er_State run) then Some (er_State run) else None))"

definition approve_pending ::
  "approvals_ctl \<Rightarrow> (string \<Rightarrow> string \<Rightarrow> string) \<Rightarrow> int \<Rightarrow> ApprovalActor \<Rightarrow> ApprovalRequest \<Rightarrow> server
   \<Rightarrow> ApprovalRequest option \<times> approve_error option \<times> server" where
  "approve_pending c sign t2 actor req st =
     (case finished_run req st of
        Some s \<Rightarrow> (Some req, Some (RunIs s), st)
      | None \<Rightarrow>
          (case ac_ident c of
             None \<Rightarrow> (None, Some NoIdentity, st)
           | Some priv \<Rightarrow>
               (case DecideApprovalRequest t2 (ap_ID req) ''approved'' (aa_Principal actor) [] (approvals st) of
                  Inl e \<Rightarrow> (None, Some (StoreError e), st)
                | Inr tbl \<Rightarrow>
                    (let req1 = req\<lparr>ap_State := ''approved'', ap_DecidedBy := aa_Principal actor,
                                    ap_DecidedUnix := t2\<rparr>;
                         st2 = approval_emit req1 ''approval.approved''
                                 (approval_audit t2 req1 ''approved'' (aa_Principal actor) []
                                   (st\<lparr>approvals := tbl\<rparr>))
                     in dispatch_approved c t2 req1 (approved_decision sign priv req1 st2) st2))))"

definition Approve ::
  "approvals_ctl \<Rightarrow> (string \<Rightarrow> string \<Rightarrow> string) \<Rightarrow> int \<Rightarrow> int \<Rightarrow> string \<Rightarrow> ApprovalActor \<Rightarrow> server
   \<Rightarrow> ApprovalRequest option \<times> approve_error option \<times> server" where
  "Approve c sign t1 t2 requestID actor st =
     (if aa_Role actor \<noteq> ''admin'' then (None, Some (NeedAdmin (aa_Role actor)), st)
      else
        (case GetApprovalRequest requestID (approvals st) of
           None \<Rightarrow> (None, Some RequestNotFound, st)
         | Some req \<Rightarrow>
             if ap_State req = ''pending'' \<and> ap_ExpiresUnix req \<le> t1 then
               (let st1 = (case DecideApprovalRequest t1 (ap_ID req) ''expired'' ''system''
                                  ''expired before decision'' (approvals st) of
                             Inl e \<Rightarrow> st | Inr tbl \<Rightarrow> st\<lparr>approvals := tbl\<rparr>)
                in (Some (req\<lparr>ap_State := ''expired''\<rparr>), Some (RequestIs ''expired''), st1))
             else if ap_State req \<noteq> ''pending'' then (Some req, Some (RequestIs (ap_State req)), st)
             else approve_pending c sign t2 actor req st))"

definition Deny ::
  "approvals_ctl \<Rightarrow> int \<Rightarrow> string \<Rightarrow> string \<Rightarrow> ApprovalActor \<Rightarrow> server
   \<Rightarrow> ApprovalRequest option \<times> approve_error option \<times> server" where
  "Deny c t requestID reason actor st =
     (if aa_Role actor \<noteq> ''admin'' then (None, Some (NeedAdmin (aa_Role actor)), st)
      else
        (case GetApprovalRequest requestID (approvals st) of
           None \<Rightarrow> (None, Some RequestNotFound, st)
         | Some req \<Rightarrow>
             if ap_State req \<noteq> ''pending'' then (Some req, Some (RequestIs (ap_State req)), st)
             else
               (case DecideApprovalRequest t (ap_ID req) ''denied'' (aa_Principal actor) reason (approvals st) of
                  Inl e \<Rightarrow> (None, Some (StoreError e), st)
                | Inr tbl \<Rightarrow>
                    (let req1 = req\<lparr>ap_State := ''denied'', ap_DecidedBy := aa_Principal actor,
                                    ap_DecidedUnix := t, ap_DecisionReason := reason\<rparr>;
                         st1 = finalizeParked c t req1 ''denied'' ''approval denied'' (st\<lparr>approvals := tbl\<rparr>);
                         st2 = approval_audit t req1 ''denied'' (aa_Principal actor) reason st1
                     in (Some req1, None, approval_emit req1 ''approval.denied'' st2)))))"

text \<open>
  \<open>List\<close> expires what is due at \<open>t1\<close>, finalises what it expired, and then lists; the store's
  list statement expires again, at \<open>t2\<close>, what has become due meanwhile.
\<close>

definition List_requests ::
  "approvals_ctl \<Rightarrow> int \<Rightarrow> int \<Rightarrow> string \<Rightarrow> int \<Rightarrow> server \<Rightarrow> ApprovalRequest list \<times> server" where
  "List_requests c t1 t2 state limit st =
     (case ExpireApprovalRequests t1 t1 (approvals st) of (expired, tbl) \<Rightarrow>
        let st1 = fold (\<lambda>r. finalizeParked c t1 r ''expired'' ''approval expired'') expired
                    (st\<lparr>approvals := tbl\<rparr>)
        in case ListApprovalRequests t2 t2 state limit (approvals st1) of
             (out, tbl2) \<Rightarrow> (out, st1\<lparr>approvals := tbl2\<rparr>))"

section \<open>Approving\<close>

lemma DecideApprovalRequest_expired [simp]:
  "DecideApprovalRequest now i ''expired'' b reason tbl = Inl (BadState ''expired'')"
  by (simp add: DecideApprovalRequest_def)

lemma finished_run_None:
  "finished_run req st = None \<longleftrightarrow>
    (ap_RunID req = [] \<or> (\<forall>run. GetExecutionRun (ap_RunID req) st = Some run \<longrightarrow> \<not> IsTerminalRun (er_State run)))"
  by (auto simp: finished_run_def split: option.splits)

lemma dispatch_approved_ok:
  "dispatch_approved c t2 req dec st = (out, None, st') \<longleftrightarrow>
    out = Some req \<and> (\<exists>fn. ac_Dispatchers c (ap_ActionClass req) = Some fn \<and> fn req dec st = (None, st'))"
  by (auto simp: dispatch_approved_def split: option.splits prod.splits)

lemma approvals_audit_emit [simp]:
  "approvals (approval_emit req ev st) = approvals st"
  "approvals (approval_audit now req k b reason st) = approvals st"
  by (simp_all add: approval_emit_def approval_audit_def emit_def append_audit_def)

lemma approved_row:
  assumes "GetApprovalRequest i tbl = Some req" "ap_State req = ''pending''"
    and "DecideApprovalRequest t (ap_ID req) ''approved'' b [] tbl = Inr tbl'"
  shows "map_option ap_State (GetApprovalRequest i tbl') = Some ''approved''"
proof -
  have i: "ap_ID req = i" using assms(1) by (auto simp: GetApprovalRequest_def dest: sql_get_SomeD)
  have "tbl' = sql_update (\<lambda>r. ap_ID r = i \<and> ap_State r = ''pending'')
      (\<lambda>r. r\<lparr>ap_State := ''approved'', ap_DecidedUnix := t, ap_DecidedBy := b, ap_DecisionReason := []\<rparr>) tbl"
    using assms(3) i by (auto simp: DecideApprovalRequest_def Let_def split: if_splits)
  then show ?thesis
    using assms(1,2) i by (simp add: GetApprovalRequest_def sql_get_update)
qed

text \<open>
  An approval goes through only for an admin, on a request that is pending and not yet
  expired and whose run (when it has one in the table) is not finished.  The request's row is
  then \<open>approved\<close>, and the dispatcher of its class was handed the stored payload together
  with an allow decision that carries the request's id and its run's id.
\<close>
theorem Approve_success:
  assumes "Approve c sign t1 t2 i actor st = (out, None, st')"
  shows "\<exists>req fn req1 dec st2. aa_Role actor = ''admin'' \<and> GetApprovalRequest i (approvals st) = Some req \<and>
    ap_State req = ''pending'' \<and> t1 < ap_ExpiresUnix req \<and> finished_run req st = None \<and>
    map_option ap_State (GetApprovalRequest i (approvals st2)) = Some ''approved'' \<and>
    ac_Dispatchers c (ap_ActionClass req) = Some fn \<and> fn req1 dec st2 = (None, st') \<and>
    ap_PayloadJSON req1 = ap_PayloadJSON req \<and> ap_ID req1 = i \<and>
    pd_Effect dec = EffectAllow \<and> pd_ApprovalId dec = i \<and> pd_RunId dec = decisionRunID req"
proof -
  obtain req where g: "GetApprovalRequest i (approvals st) = Some req" and admin: "aa_Role actor = ''admin''"
    using assms by (auto simp: Approve_def split: if_splits option.splits)
  have fresh: "ap_State req = ''pending''" "t1 < ap_ExpiresUnix req"
    and ap: "approve_pending c sign t2 actor req st = (out, None, st')"
    using assms g admin by (auto simp: Approve_def split: if_splits)
  have i: "ap_ID req = i" using g by (auto simp: GetApprovalRequest_def dest: sql_get_SomeD)
  let ?req1 = "req\<lparr>ap_State := ''approved'', ap_DecidedBy := aa_Principal actor, ap_DecidedUnix := t2\<rparr>"
  let ?st2 = "\<lambda>tbl. approval_emit ?req1 ''approval.approved''
    (approval_audit t2 ?req1 ''approved'' (aa_Principal actor) [] (st\<lparr>approvals := tbl\<rparr>))"
  obtain priv tbl where p: "finished_run req st = None"
    "DecideApprovalRequest t2 (ap_ID req) ''approved'' (aa_Principal actor) [] (approvals st) = Inr tbl"
    "dispatch_approved c t2 ?req1 (approved_decision sign priv ?req1 (?st2 tbl)) (?st2 tbl) = (out, None, st')"
    using ap by (auto simp: approve_pending_def Let_def split: option.splits sum.splits)
  from p(3) obtain fn where f: "ac_Dispatchers c (ap_ActionClass req) = Some fn"
    "fn ?req1 (approved_decision sign priv ?req1 (?st2 tbl)) (?st2 tbl) = (None, st')"
    unfolding dispatch_approved_ok by auto
  have "map_option ap_State (GetApprovalRequest i (approvals (?st2 tbl))) = Some ''approved''"
    using approved_row [OF g fresh(1) p(2)] by simp
  then show ?thesis
    using g admin fresh p(1) f i
    by (intro exI [of _ req] exI [of _ fn] exI [of _ ?req1]
        exI [of _ "approved_decision sign priv ?req1 (?st2 tbl)"] exI [of _ "?st2 tbl"])
      (simp add: approved_decision_def decisionRunID_def Let_def)
qed

definition admin_sample :: ApprovalActor where
  "admin_sample = \<lparr>aa_Principal = ''root'', aa_Role = ''admin''\<rparr>"

definition ctl_sample :: approvals_ctl where
  "ctl_sample = \<lparr>ac_ttl = 3600, ac_ident = Some ''priv'',
     ac_Dispatchers = [''exec'' \<mapsto> (\<lambda>req dec s. (None, s))], ac_OnExecExpired = None\<rparr>"

definition parked_state :: "int \<Rightarrow> server" where
  "parked_state expires = init_server (\<lambda>_. True)\<lparr>approvals := [request_sample ''pending'' expires],
     runs := [run_sample ''r1'' ''e1'' ''h1'' ''awaiting_approval'']\<rparr>"

lemma parked_Approve:
  "\<exists>st'. Approve ctl_sample (\<lambda>k m. k) 5 6 ''apr1'' admin_sample (parked_state 20) =
    (Some (request_sample ''pending'' 20\<lparr>ap_State := ''approved'', ap_DecidedBy := ''root'', ap_DecidedUnix := 6\<rparr>),
     None, st')"
  by (simp add: Approve_def approve_pending_def dispatch_approved_def finished_run_def
      GetApprovalRequest_def GetExecutionRun_def sql_get_def DecideApprovalRequest_def Let_def
      rows_affected_def parked_state_def request_sample_def run_sample_def admin_sample_def
      ctl_sample_def IsTerminalRun_def terminalStates_def)

theorem Approve_success_witness:
  "\<exists>dec :: pbDecision. pd_Effect dec = EffectAllow \<and> pd_ApprovalId dec = ''apr1'' \<and> pd_RunId dec = ''r1''"
proof -
  obtain st' where a: "Approve ctl_sample (\<lambda>k m. k) 5 6 ''apr1'' admin_sample (parked_state 20) =
    (Some (request_sample ''pending'' 20\<lparr>ap_State := ''approved'', ap_DecidedBy := ''root'', ap_DecidedUnix := 6\<rparr>),
     None, st')" using parked_Approve by blast
  have g: "GetApprovalRequest ''apr1'' (approvals (parked_state 20)) = Some (request_sample ''pending'' 20)"
    by (simp add: GetApprovalRequest_def sql_get_def parked_state_def request_sample_def)
  from Approve_success [OF a] g show ?thesis
    by (auto simp: decisionRunID_def request_sample_def)
qed

text \<open>
  An expired request can never be approved: past its expiry every approval attempt fails
  and dispatches nothing.  But the attempt does not record the expiry: the store refuses the
  state \<open>expired\<close>, so although the caller is told the request is expired, the server state is
  unchanged and the row stays \<open>pending\<close> until a list operation expires it.
\<close>
theorem Approve_expired:
  assumes "GetApprovalRequest i (approvals st) = Some req" "ap_ExpiresUnix req \<le> t1"
  shows "\<exists>out err. Approve c sign t1 t2 i actor st = (out, Some err, st)"
  using assms by (auto simp: Approve_def)

theorem Approve_expired_witness:
  "\<exists>out err. Approve ctl_sample (\<lambda>k m. k) 30 30 ''apr1'' admin_sample (parked_state 20) = (out, Some err, parked_state 20)"
  by (rule Approve_expired [of _ _ "request_sample ''pending'' 20"])
    (simp_all add: GetApprovalRequest_def sql_get_def parked_state_def request_sample_def)

end
