(* ===== verification/Control.thy ===== *)
theory Control
  imports Approvals
begin

text \<open>
  The orchestration engine, \<open>src/internal/control/control.go\<close>: dispatching a command across a
  selector under the policy, dispatching an approved command, cancelling, the aggregate state
  of an execution, and the hooks the engine installs on the stream handler.  Fresh ids are
  arguments (\<open>rid k\<close> and \<open>aid k\<close> for the \<open>k\<close>-th host), and one call reads the clock once.
\<close>

section \<open>The aggregate state of an execution\<close>

definition failed_states :: "string list" where
  "failed_states = [''failed'', ''timed_out'', ''not_delivered'', ''cancelled'', ''denied'', ''expired'']"

text \<open>The counters \<open>(succeeded, failed, interrupted, other)\<close>.\<close>

fun count_states :: "string list \<Rightarrow> nat \<times> nat \<times> nat \<times> nat \<Rightarrow> nat \<times> nat \<times> nat \<times> nat" where
  "count_states [] acc = acc"
| "count_states (s # ss) (succeeded, failed, interrupted, other) =
     count_states ss
       (if s = ''succeeded'' then (succeeded + 1, failed, interrupted, other)
        else if s = ''interrupted'' then (succeeded, failed, interrupted + 1, other)
        else if s \<in> set failed_states then (succeeded, failed + 1, interrupted, other)
        else (succeeded, failed, interrupted, other + 1))"

definition aggregate :: "string list \<Rightarrow> string" where
  "aggregate states =
     (case count_states states (0, 0, 0, 0) of (succeeded, failed, interrupted, other) \<Rightarrow>
        if other = 0 then
          (if interrupted > 0 then ''interrupted''
           else if failed = 0 then ''succeeded''
           else if succeeded = 0 then ''failed''
           else ''partial'')
        else ''running'')"

definition FinalizeExecution :: "string \<Rightarrow> server \<Rightarrow> server" where
  "FinalizeExecution execID st =
     (let rs = ListRunsForExecution execID st
      in if rs = [] then UpdateExecutionState execID ''pending'' st
         else if list_ex (\<lambda>r. er_State r = ''cancelled'') rs then st
         else
           let state = aggregate (map er_State rs)
           in emit ''execution.state'' [(''execution_id'', execID), (''state'', state)]
                (UpdateExecutionState execID state st))"

definition control_audit :: "int \<Rightarrow> string \<Rightarrow> string \<Rightarrow> (string \<times> string) list \<Rightarrow> server \<Rightarrow> server" where
  "control_audit t kind actor payload st =
     append_audit \<lparr>au_TS = unix t, au_Kind = kind, au_Actor = actor, au_AgentID = [],
       au_Payload = payload\<rparr> st"

section \<open>Hooks\<close>

definition onRunFinished :: "string \<Rightarrow> server \<Rightarrow> server" where
  "onRunFinished execID st = FinalizeExecution execID st"

definition onAgentDisconnect :: "int \<Rightarrow> string \<Rightarrow> server \<Rightarrow> server" where
  "onAgentDisconnect t agent st =
     (case InterruptAgentRuns (unix t) agent st of (execs, st1) \<Rightarrow>
        if execs = [] then st1
        else fold FinalizeExecution execs
               (control_audit t ''exec.interrupted'' []
                 [(''agent_id'', agent), (''executions'', join_str '','' execs)] st1))"

text \<open>\<open>New\<close> installs the two hooks on the stream handler.\<close>

definition control_hooks :: "int \<Rightarrow> hooks \<Rightarrow> hooks" where
  "control_hooks t hk = hk\<lparr>ResultHook := Some onRunFinished, DisconnectHook := Some (onAgentDisconnect t)\<rparr>"

definition SweepInterrupted :: "int \<Rightarrow> int \<Rightarrow> server \<Rightarrow> server" where
  "SweepInterrupted t ttl st =
     (case StrandedInterruptedRuns (unix t) ttl st of (execs, st1) \<Rightarrow>
        fold (\<lambda>e s. FinalizeExecution e
               (control_audit t ''exec.stranded'' ''system''
                 [(''execution_id'', e), (''reason'',
                   ''interrupted run outlived the spool window; resolved to not_delivered'')] s))
          execs st1)"

section \<open>Dispatch\<close>

record DispatchRequest =
  dq_Selector :: string
  dq_Cmd :: string
  dq_Args :: "string list"
  dq_Env :: "string \<rightharpoonup> string"
  dq_TimeoutS :: int
  dq_CreatedBy :: string
  dq_ActorRole :: string

record RunRef =
  rr_RunID :: string
  rr_AgentID :: string
  rr_Delivered :: bool
  rr_State :: string
  rr_ApprovalID :: string

text \<open>The error list of a dispatch: the host and what happened there.\<close>

datatype dispatch_error =
    RunNotCreated string store_error
  | HostDenied string string
  | ApprovalUnavailable string
  | ApprovalFailed string approval_error
  | ApprovalRequired string string
  | NotDelivered string send_error

record DispatchResult =
  dr_ExecutionID :: string
  dr_Runs :: "RunRef list"
  dr_Errors :: "dispatch_error list"

text \<open>The exec payload that an approval request stores as JSON.\<close>

record exec_payload =
  xp_Cmd :: string
  xp_Args :: "string list"
  xp_Env :: "string \<rightharpoonup> string"
  xp_TimeoutS :: int
  xp_Reason :: string

record control =
  ct_ident :: "string option"
  ct_approvals :: "approvals_ctl option"
  ct_eol :: "(string \<Rightarrow> string) option"

definition EOLReason :: "string \<Rightarrow> string" where
  "EOLReason hosteol = (if hosteol = ''ended'' then ''host OS is past end-of-support'' else [])"

definition signDecision ::
  "(string \<Rightarrow> string \<Rightarrow> string) \<Rightarrow> string option \<Rightarrow> string \<Rightarrow> 64 word \<Rightarrow> Decision \<Rightarrow> string \<Rightarrow> string \<Rightarrow> pbDecision" where
  "signDecision sign ident runID bundleVersion d actorRole eolState =
     \<lparr>pd_RunId = runID, pd_BundleVersion = bundleVersion, pd_Effect = d_Effect d,
      pd_MatchedRules = d_MatchedRules d,
      pd_Sig = (case ident of None \<Rightarrow> []
                | Some priv \<Rightarrow> SignDecision sign priv runID bundleVersion (d_Effect d) (d_MatchedRules d) actorRole []),
      pd_ActorRole = actorRole, pd_ApprovalId = [], pd_EolState = eolState\<rparr>"

definition dispatch_action :: "control \<Rightarrow> DispatchRequest \<Rightarrow> HostInfo \<Rightarrow> Action" where
  "dispatch_action c req host =
     zero_action\<lparr>ac_HostID := ID host, ac_HostTags := Tags host, ac_HostRoles := Roles host,
       ac_ActorRole := dq_ActorRole req, ac_Cmd := dq_Cmd req, ac_Args := dq_Args req,
       ac_CommandLine := commandLine (dq_Cmd req) (dq_Args req),
       ac_HostEOL := (case ct_eol c of None \<Rightarrow> [] | Some p \<Rightarrow> p (ID host))\<rparr>"

definition run_ref :: "string \<Rightarrow> string \<Rightarrow> bool \<Rightarrow> string \<Rightarrow> string \<Rightarrow> RunRef" where
  "run_ref run agent deliv state appr =
     \<lparr>rr_RunID = run, rr_AgentID = agent, rr_Delivered = deliv, rr_State = state, rr_ApprovalID = appr\<rparr>"

text \<open>What one host adds to the result: run references, errors, whether its run is terminal.\<close>

type_synonym host_outcome = "RunRef list \<times> dispatch_error list \<times> bool \<times> server"

definition policy_audit ::
  "int \<Rightarrow> string \<Rightarrow> DispatchRequest \<Rightarrow> string \<Rightarrow> string \<Rightarrow> string \<Rightarrow> Decision \<Rightarrow> (string \<times> string) list
   \<Rightarrow> server \<Rightarrow> server" where
  "policy_audit t kind req execID runID agent d extra st =
     control_audit t kind (dq_CreatedBy req)
       ([(''execution_id'', execID), (''run_id'', runID), (''agent_id'', agent), (''cmd'', dq_Cmd req),
         (''rules'', join_str '','' (d_MatchedRules d))] @ extra) st"

definition deny_host ::
  "int \<Rightarrow> DispatchRequest \<Rightarrow> string \<Rightarrow> string \<Rightarrow> string \<Rightarrow> Decision \<Rightarrow> server \<Rightarrow> host_outcome" where
  "deny_host t req execID runID agent d st =
     ([run_ref runID agent False ''denied'' []], [HostDenied agent (d_Reason d)], True,
      policy_audit t ''policy.deny'' req execID runID agent d []
        (UpdateRunState (unix t) runID ''denied'' (-1) 0 st))"

definition park_host ::
  "(exec_payload \<Rightarrow> string) \<Rightarrow> control \<Rightarrow> int \<Rightarrow> DispatchRequest \<Rightarrow> string \<Rightarrow> string \<Rightarrow> string \<Rightarrow> string
   \<Rightarrow> string \<Rightarrow> Decision \<Rightarrow> server \<Rightarrow> host_outcome" where
  "park_host marshal_exec c t req execID runID approvalID agent hosteol d st =
     (case ct_approvals c of
        None \<Rightarrow>
          ([run_ref runID agent False ''denied'' []], [ApprovalUnavailable agent], True,
           policy_audit t ''policy.require_approval'' req execID runID agent d []
             (UpdateRunState (unix t) runID ''denied'' (-1) 0 st))
      | Some ap \<Rightarrow>
          (case NewRequest ap (unix t) approvalID
                  \<lparr>np_ActionClass = ActionExec, np_AgentID = agent, np_ExecutionID = execID, np_RunID = runID,
                   np_Actor = dq_CreatedBy req, np_ActorRole = dq_ActorRole req,
                   np_MatchedRules = d_MatchedRules d,
                   np_PayloadJSON = marshal_exec \<lparr>xp_Cmd = dq_Cmd req, xp_Args = dq_Args req,
                     xp_Env = dq_Env req, xp_TimeoutS = dq_TimeoutS req, xp_Reason = EOLReason hosteol\<rparr>\<rparr> st of
             (Inl e, st1) \<Rightarrow>
               ([], [ApprovalFailed agent e], True, UpdateRunState (unix t) runID ''denied'' (-1) 0 st1)
           | (Inr apReq, st1) \<Rightarrow>
               ([run_ref runID agent False ''awaiting_approval'' (ap_ID apReq)],
                [ApprovalRequired agent (ap_ID apReq)], False,
                policy_audit t ''policy.require_approval'' req execID runID agent d
                  [(''approval_id'', ap_ID apReq)]
                  (UpdateRunState (unix t) runID ''awaiting_approval'' (-1) 0 st1))))"

definition send_host ::
  "(string \<Rightarrow> string \<Rightarrow> string) \<Rightarrow> control \<Rightarrow> hooks \<Rightarrow> int \<Rightarrow> DispatchRequest \<Rightarrow> 64 word \<Rightarrow> string \<Rightarrow> string
   \<Rightarrow> string \<Rightarrow> string \<Rightarrow> Decision \<Rightarrow> server \<Rightarrow> host_outcome" where
  "send_host sign c hk t req bundleV execID runID agent hosteol d st =
     (let cmd = \<lparr>c_RunId = runID, c_ExecutionId = execID, c_Cmd = dq_Cmd req, c_Args = dq_Args req,
            c_Cwd = [], c_User = [], c_TimeoutS = dq_TimeoutS req, c_Env = dq_Env req, c_Retryable = False,
            c_Decision = Some (signDecision sign (ct_ident c) runID bundleV d (dq_ActorRole req) hosteol)\<rparr>
      in case SendCommand hk t agent cmd st of
           (None, st1) \<Rightarrow>
             ([run_ref runID agent True ''delivered'' []], [], False,
              UpdateRunState (unix t) runID ''delivered'' (-1) 0 st1)
         | (Some AgentOffline, st1) \<Rightarrow>
             (case MarkQueuedOfflineIfQueued (unix t) runID st1 of (changed, st2) \<Rightarrow>
                let s = (if changed then ''queued_offline''
                         else (case GetExecutionRun runID st2 of
                                 None \<Rightarrow> ''delivered'' | Some r \<Rightarrow> er_State r))
                in ([run_ref runID agent False s []], [], False, st2))
         | (Some e, st1) \<Rightarrow>
             ([run_ref runID agent False ''not_delivered'' []], [NotDelivered agent e], True,
              UpdateRunState (unix t) runID ''not_delivered'' (-1) 0 st1))"

definition dispatch_host ::
  "regex \<Rightarrow> (string \<Rightarrow> string \<Rightarrow> string) \<Rightarrow> (exec_payload \<Rightarrow> string) \<Rightarrow> control \<Rightarrow> hooks \<Rightarrow> int
   \<Rightarrow> DispatchRequest \<Rightarrow> Rule list \<Rightarrow> 64 word \<Rightarrow> string \<Rightarrow> string \<Rightarrow> string \<Rightarrow> HostInfo \<Rightarrow> server \<Rightarrow> host_outcome" where
  "dispatch_host rx sign marshal_exec c hk t req rs bundleV execID runID approvalID host st =
     (let action = dispatch_action c req host; d = Evaluate rx rs action
      in case CreateExecutionRun (unix t) (known_host st)
                \<lparr>er_ID = runID, er_ExecutionID = execID, er_AgentID = ID host, er_State = ''queued'',
                 er_ExitCode = None, er_DurationMS = None, er_Elevated = None, er_ElevationNote = [],
                 er_Created = 0, er_Updated = 0\<rparr> st of
           Inl e \<Rightarrow> ([], [RunNotCreated (ID host) e], True, st)
         | Inr st1 \<Rightarrow>
             if d_Effect d = EffectDeny then deny_host t req execID runID (ID host) d st1
             else if d_Effect d = EffectRequireApproval then
               park_host marshal_exec c t req execID runID approvalID (ID host) (ac_HostEOL action) d st1
             else send_host sign c hk t req bundleV execID runID (ID host) (ac_HostEOL action) d st1)"

fun dispatch_hosts ::
  "regex \<Rightarrow> (string \<Rightarrow> string \<Rightarrow> string) \<Rightarrow> (exec_payload \<Rightarrow> string) \<Rightarrow> control \<Rightarrow> hooks \<Rightarrow> int
   \<Rightarrow> DispatchRequest \<Rightarrow> Rule list \<Rightarrow> 64 word \<Rightarrow> string \<Rightarrow> (nat \<Rightarrow> string) \<Rightarrow> (nat \<Rightarrow> string) \<Rightarrow> nat
   \<Rightarrow> HostInfo list \<Rightarrow> server \<Rightarrow> host_outcome" where
  "dispatch_hosts rx sign me c hk t req rs bundleV execID rid aid k [] st = ([], [], True, st)"
| "dispatch_hosts rx sign me c hk t req rs bundleV execID rid aid k (host # hs) st =
     (case dispatch_host rx sign me c hk t req rs bundleV execID (rid k) (aid k) host st of
        (refs, errs, term, st1) \<Rightarrow>
          (case dispatch_hosts rx sign me c hk t req rs bundleV execID rid aid (Suc k) hs st1 of
             (refs', errs', term', st2) \<Rightarrow> (refs @ refs', errs @ errs', term \<and> term', st2)))"

datatype dispatch_failure =
  BadSelector sel_error | ExecNotCreated store_error | BadPolicies policy_error

text \<open>
  A failure after the execution row was written leaves that row in place.  \<open>marshal_args\<close> is
  the JSON text of the argument list (a nil list gives the empty string).
\<close>

definition Dispatch ::
  "regex \<Rightarrow> (string \<Rightarrow> string \<Rightarrow> string) \<Rightarrow> (exec_payload \<Rightarrow> string) \<Rightarrow> (string list \<Rightarrow> string)
   \<Rightarrow> (string \<Rightarrow> Match option) \<Rightarrow> control \<Rightarrow> hooks \<Rightarrow> int \<Rightarrow> string \<Rightarrow> (nat \<Rightarrow> string) \<Rightarrow> (nat \<Rightarrow> string)
   \<Rightarrow> DispatchRequest \<Rightarrow> server \<Rightarrow> (dispatch_failure + DispatchResult) \<times> server" where
  "Dispatch rx sign me marshal_args unm c hk t execID rid aid req st =
     (case ResolveSelector (hosts st) (dq_Selector req) of
        Inl e \<Rightarrow> (Inl (BadSelector e), st)
      | Inr hs \<Rightarrow>
          (case CreateExecution (unix t)
                  \<lparr>e_ID = execID, e_Selector = dq_Selector req, e_Cmd = dq_Cmd req,
                   e_ArgsJSON = marshal_args (dq_Args req), e_Created = 0,
                   e_CreatedBy = dq_CreatedBy req, e_State = ''dispatching''\<rparr> st of
             Inl e \<Rightarrow> (Inl (ExecNotCreated e), st)
           | Inr st1 \<Rightarrow>
               (case GetPolicyRules unm (pol st1) of
                  Inl e \<Rightarrow> (Inl (BadPolicies e), st1)
                | Inr rs \<Rightarrow>
                    (case PolicyBundleVersion (pol st1) of
                       Inl e \<Rightarrow> (Inl (BadPolicies e), st1)
                     | Inr bundleV \<Rightarrow>
                         (case dispatch_hosts rx sign me c hk t req rs bundleV execID rid aid 0 hs st1 of
                            (refs, errs, allTerminal, st2) \<Rightarrow>
                              let st3 = (if allTerminal then FinalizeExecution execID st2 else st2);
                                  st4 = control_audit t ''exec.dispatch'' (dq_CreatedBy req)
                                          [(''execution_id'', execID), (''selector'', dq_Selector req),
                                           (''cmd'', dq_Cmd req), (''hosts'', show_nat (length hs))] st3
                              in (Inr \<lparr>dr_ExecutionID = execID, dr_Runs = refs, dr_Errors = errs\<rparr>,
                                  emit ''execution.state''
                                    [(''execution_id'', execID), (''state'', ''dispatching'')] st4))))))"

text \<open>The dispatcher of approved exec requests; \<open>None\<close> from \<open>unmarshal_exec\<close> is a bad payload.\<close>

definition DispatchApprovedCommand ::
  "(string \<Rightarrow> exec_payload option) \<Rightarrow> hooks \<Rightarrow> int \<Rightarrow> ApprovalRequest \<Rightarrow> pbDecision \<Rightarrow> server
   \<Rightarrow> string option \<times> server" where
  "DispatchApprovedCommand unmarshal_exec hk t req dec st =
     (case unmarshal_exec (ap_PayloadJSON req) of
        None \<Rightarrow> (Some ''bad payload'', st)
      | Some p \<Rightarrow>
          (let cmd = \<lparr>c_RunId = ap_RunID req, c_ExecutionId = ap_ExecutionID req, c_Cmd = xp_Cmd p,
                 c_Args = xp_Args p, c_Cwd = [], c_User = [], c_TimeoutS = xp_TimeoutS p,
                 c_Env = xp_Env p, c_Retryable = False, c_Decision = Some dec\<rparr>;
               log = [(''approval_id'', ap_ID req), (''run_id'', ap_RunID req), (''agent_id'', ap_AgentID req)];
               upd = (\<lambda>state s. if ap_RunID req \<noteq> [] then UpdateRunState (unix t) (ap_RunID req) state (-1) 0 s
                                else s)
           in case SendCommand hk t (ap_AgentID req) cmd st of
                (None, st1) \<Rightarrow> (None, control_audit t ''approval.dispatch'' [] log (upd ''delivered'' st1))
              | (Some AgentOffline, st1) \<Rightarrow>
                  (None, control_audit t ''approval.dispatch'' [] (log @ [(''queued'', ''offline'')])
                           (upd ''queued_offline'' st1))
              | (Some e, st1) \<Rightarrow> (Some ''dispatch'', upd ''not_delivered'' st1)))"

section \<open>Cancel\<close>

record CancelResult =
  cl_ExecutionID :: string
  cl_Cancelled :: "string list"
  cl_AlreadyDone :: "string list"

datatype cancel_error = CancelNotFound | AlreadyState string

fun cancel_loop :: "ExecutionRun list \<Rightarrow> string list \<Rightarrow> string list \<Rightarrow> server \<Rightarrow> string list \<times> string list \<times> server" where
  "cancel_loop [] cancelled already st = (cancelled, already, st)"
| "cancel_loop (r # rs) cancelled already st =
     (if IsTerminalRun (er_State r) then cancel_loop rs cancelled (already @ [er_ID r]) st
      else
        let st1 = (if er_State r \<in> {''delivered'', ''running''} then snd (SendCancel (er_AgentID r) (er_ID r) st)
                   else st)
        in cancel_loop rs (cancelled @ [er_ID r]) already st1)"

definition CancelExecution ::
  "int \<Rightarrow> string \<Rightarrow> string \<Rightarrow> server \<Rightarrow> (cancel_error + CancelResult) \<times> server" where
  "CancelExecution t execID actor st =
     (case GetExecution execID st of
        Inl e \<Rightarrow> (Inl CancelNotFound, st)
      | Inr exec \<Rightarrow>
          if e_State exec \<in> {''succeeded'', ''failed'', ''partial'', ''cancelled''}
          then (Inl (AlreadyState (e_State exec)), st)
          else
            (case cancel_loop (ListRunsForExecution execID st) [] [] st of (cancelled, already, st1) \<Rightarrow>
               let st2 = UpdateExecutionState execID ''cancelled'' (snd (CancelNonTerminalRuns (unix t) execID st1));
                   st3 = control_audit t ''exec.cancel'' actor
                           [(''execution_id'', execID), (''runs'', show_nat (length cancelled))] st2
               in (Inr \<lparr>cl_ExecutionID = execID, cl_Cancelled = cancelled, cl_AlreadyDone = already\<rparr>,
                   emit ''execution.state'' [(''execution_id'', execID), (''state'', ''cancelled'')] st3)))"

section \<open>What finalising does\<close>

lemma count_states_eq:
  "count_states ss (a, b, c, d) =
     (a + length (filter (\<lambda>s. s = ''succeeded'') ss),
      b + length (filter (\<lambda>s. s \<in> set failed_states) ss),
      c + length (filter (\<lambda>s. s = ''interrupted'') ss),
      d + length (filter (\<lambda>s. \<not> IsTerminalRun s) ss))"
  by (induction ss arbitrary: a b c d)
    (auto simp: failed_states_def IsTerminalRun_def terminalStates_def)

text \<open>The aggregate as a function of the set of run states.\<close>

definition aggregate_spec :: "string set \<Rightarrow> string" where
  "aggregate_spec S =
     (if \<exists>s \<in> S. \<not> IsTerminalRun s then ''running''
      else if ''interrupted'' \<in> S then ''interrupted''
      else if S \<subseteq> {''succeeded''} then ''succeeded''
      else if ''succeeded'' \<notin> S then ''failed''
      else ''partial'')"

lemma terminal_cases:
  "IsTerminalRun s \<longleftrightarrow> s = ''succeeded'' \<or> s = ''interrupted'' \<or> s \<in> set failed_states"
  by (auto simp: IsTerminalRun_def terminalStates_def failed_states_def)

lemma aggregate_eq: "aggregate ss = aggregate_spec (set ss)"
proof -
  have "filter (\<lambda>s. s \<in> set failed_states) ss = [] \<longleftrightarrow> set ss \<subseteq> {''succeeded''}"
    if "\<forall>s \<in> set ss. IsTerminalRun s" "''interrupted'' \<notin> set ss"
    using that terminal_cases by (auto simp: filter_empty_conv failed_states_def)
  then show ?thesis
    unfolding aggregate_def aggregate_spec_def count_states_eq
    by (auto simp: filter_empty_conv)
qed

lemma GetExecution_update:
  "GetExecution i (UpdateExecutionState j s db) =
     (case GetExecution i db of Inl e \<Rightarrow> Inl e | Inr x \<Rightarrow> Inr (if i = j then x\<lparr>e_State := s\<rparr> else x))"
  unfolding GetExecution_def UpdateExecutionState_def
  by (simp add: sql_get_update) (auto split: option.splits dest: sql_get_SomeD)

lemma GetExecution_emit [simp]: "GetExecution i (emit k p st) = GetExecution i st"
  by (simp add: GetExecution_def emit_def)

text \<open>
  The aggregate state of an execution depends only on which states its runs are in:
  \<open>running\<close> while any run is unfinished, then \<open>interrupted\<close> while a run may still be replayed,
  \<open>succeeded\<close> when all succeeded, \<open>failed\<close> when none did, \<open>partial\<close> otherwise; with no run it
  is \<open>pending\<close>, and once a run is cancelled it is left alone.  Other executions and all
  runs are unchanged.
\<close>
theorem FinalizeExecution_spec:
  "runs (FinalizeExecution execID st) = runs st \<and>
   GetExecution i (FinalizeExecution execID st) =
     (let S = {er_State r | r. r \<in> set (runs st) \<and> er_ExecutionID r = execID}
      in case GetExecution i st of
           Inl e \<Rightarrow> Inl e
         | Inr x \<Rightarrow> Inr (if i \<noteq> execID then x
                         else if S = {} then x\<lparr>e_State := ''pending''\<rparr>
                         else if ''cancelled'' \<in> S then x
                         else x\<lparr>e_State := aggregate_spec S\<rparr>))"
proof -
  let ?rs = "ListRunsForExecution execID st"
  let ?S = "{er_State r | r. r \<in> set (runs st) \<and> er_ExecutionID r = execID}"
  have S: "set (map er_State ?rs) = ?S" by (auto simp: ListRunsForExecution_def)
  have S': "?S = {} \<longleftrightarrow> ?rs = []" using S by (metis list.set_map set_empty map_is_Nil_conv)
  have C: "''cancelled'' \<in> ?S \<longleftrightarrow> list_ex (\<lambda>r. er_State r = ''cancelled'') ?rs"
    unfolding S [symmetric] list_ex_iff by (simp add: image_iff) metis
  have "runs (FinalizeExecution execID st) = runs st"
    by (simp add: FinalizeExecution_def Let_def emit_def UpdateExecutionState_def)
  moreover have "GetExecution i (FinalizeExecution execID st) =
      (case GetExecution i st of
         Inl e \<Rightarrow> Inl e
       | Inr x \<Rightarrow> Inr (if i \<noteq> execID then x
                       else if ?rs = [] then x\<lparr>e_State := ''pending''\<rparr>
                       else if list_ex (\<lambda>r. er_State r = ''cancelled'') ?rs then x
                       else x\<lparr>e_State := aggregate (map er_State ?rs)\<rparr>))"
    by (cases "i = execID"; cases "GetExecution i st")
      (auto simp: FinalizeExecution_def Let_def GetExecution_update)
  ultimately show ?thesis
    unfolding Let_def S' C aggregate_eq S by simp
qed

section \<open>The engine leaves the streams alone\<close>

lemma same_streams_emit [frame]: "same_streams s (emit k p s)"
  by (simp add: same_streams_def emit_def)

lemma same_streams_audit [frame]: "same_streams s (append_audit a s)"
  by (simp add: same_streams_def append_audit_def)

lemma same_streams_UpdateExecutionState [frame]: "same_streams s (UpdateExecutionState i x s)"
  by (simp add: same_streams_def UpdateExecutionState_def)

lemma same_streams_FinalizeExecution [frame]: "same_streams s (FinalizeExecution i s)"
  by (auto simp: FinalizeExecution_def Let_def
      intro: same_streams_trans [OF same_streams_UpdateExecutionState same_streams_emit]
        same_streams_UpdateExecutionState)

lemma same_streams_fold: "(\<And>x s. same_streams s (f x s)) \<Longrightarrow> same_streams s (fold f xs s)"
  by (induction xs arbitrary: s) (auto intro: same_streams_trans)

lemma same_streams_onAgentDisconnect [frame]: "same_streams s (onAgentDisconnect t agent s)"
proof -
  have i: "same_streams s (snd (InterruptAgentRuns now agent s))" for now
    by (simp add: InterruptAgentRuns_def Let_def same_streams_def)
  obtain execs s1 where e: "InterruptAgentRuns (unix t) agent s = (execs, s1)"
    by (cases "InterruptAgentRuns (unix t) agent s")
  with i [of "unix t"] have s1: "same_streams s s1" by simp
  have "same_streams s1 (fold FinalizeExecution execs (control_audit t k b l s1))" for k b l
    unfolding control_audit_def
    by (rule same_streams_trans [OF same_streams_audit]) (rule same_streams_fold, rule same_streams_FinalizeExecution)
  with e s1 show ?thesis by (auto simp: onAgentDisconnect_def intro: same_streams_trans)
qed

text \<open>So the hooks that \<open>New\<close> installs satisfy what the stream's theorems ask of them.\<close>

lemma quiet_control_hooks [simp]: "quiet_hooks (control_hooks t hk)"
  using same_streams_FinalizeExecution same_streams_onAgentDisconnect
  by (auto simp: quiet_hooks_def control_hooks_def onRunFinished_def)

section \<open>Nothing is dispatched that the policy does not allow\<close>

text \<open>
  What a command of a dispatch must look like: its host is one of the resolved hosts, the
  policy evaluates to neither deny nor require-approval there, and it is the requested command
  with the signed decision of that evaluation.
\<close>

definition gated ::
  "regex \<Rightarrow> (string \<Rightarrow> string \<Rightarrow> string) \<Rightarrow> control \<Rightarrow> DispatchRequest \<Rightarrow> Rule list \<Rightarrow> 64 word
   \<Rightarrow> HostInfo list \<Rightarrow> string \<Rightarrow> Envelope \<Rightarrow> bool" where
  "gated rx sign c req rs bundleV hs agent env \<longleftrightarrow>
     (\<exists>host \<in> set hs. \<exists>cmd. env = ECommand cmd \<and> ID host = agent \<and>
        (let a = dispatch_action c req host; d = Evaluate rx rs a
         in d_Effect d = EffectAllow \<and> c_Cmd cmd = dq_Cmd req \<and> c_Args cmd = dq_Args req \<and>
            c_Decision cmd = Some (signDecision sign (ct_ident c) (c_RunId cmd) bundleV d
              (dq_ActorRole req) (ac_HostEOL a))))"

text \<open>The envelopes a step adds to the wire and to the queues all satisfy \<open>P\<close>.\<close>

definition only_adds :: "(string \<Rightarrow> Envelope \<Rightarrow> bool) \<Rightarrow> server \<Rightarrow> server \<Rightarrow> bool" where
  "only_adds P s s' \<longleftrightarrow> sessions s' = sessions s \<and>
     (\<exists>new. sent s' = sent s @ new \<and>
        (\<forall>(sid, env) \<in> set new. \<exists>agent. sessions s agent = Some sid \<and> P agent env)) \<and>
     (\<forall>agent. \<forall>qe \<in> set (offlineQueue s' agent). qe \<in> set (offlineQueue s agent) \<or> P agent (q_env qe))"

lemma only_adds_same: "same_streams s s' \<Longrightarrow> only_adds P s s'"
  by (auto simp: only_adds_def same_streams_def)

lemma only_adds_trans: "only_adds P a b \<Longrightarrow> only_adds P b c \<Longrightarrow> only_adds P a c"
  unfolding only_adds_def by (fastforce simp: append_assoc)

lemma only_adds_SendCommand:
  assumes "quiet_hooks hk" "P agent (ECommand cmd)"
  shows "only_adds P s (snd (SendCommand hk t agent cmd s))"
proof (cases "sessions s agent")
  case None
  let ?q = "offlineQueue s agent"
  let ?q1 = "(if length ?q \<ge> offlineCap s then tl ?q else ?q) @
    [\<lparr>q_env = ECommand cmd, q_expiresAt = t + offlineTTL s\<rparr>]"
  let ?s1 = "s\<lparr>offlineQueue := (offlineQueue s)(agent := ?q1)\<rparr>"
  have "only_adds P s ?s1"
    using assms(2) by (auto simp: only_adds_def dest: list.set_sel(2) [rotated])
      (metis list.sel(2) list.set_sel(2))+
  moreover have "only_adds P ?s1 (expireQueued hk t qe ?s1)" for qe
    by (rule only_adds_same) (rule same_streams_expireQueued [OF assms(1)])
  ultimately show ?thesis
    using None by (auto simp: SendCommand_def queueOffline_def Let_def only_adds_trans)
next
  case (Some sid)
  with assms(2) show ?thesis
    by (auto simp: SendCommand_def sess_send_def only_adds_def Let_def)
qed

lemma same_streams_control_audit [frame]: "same_streams s (control_audit t k b l s)"
  by (simp add: control_audit_def same_streams_audit)

lemma same_streams_CreateExecutionRun:
  "CreateExecutionRun now known r s = Inr s' \<Longrightarrow> same_streams s s'"
  by (auto simp: CreateExecutionRun_def Let_def same_streams_def split: if_splits)

lemma same_streams_MarkQueued [frame]: "same_streams s (snd (MarkQueuedOfflineIfQueued now i s))"
  by (simp add: MarkQueuedOfflineIfQueued_def Let_def same_streams_def)

lemma same_streams_NewRequest [frame]: "same_streams s (snd (NewRequest ap now i p s))"
  by (simp add: NewRequest_def Let_def same_streams_def approval_emit_def approval_audit_def
      emit_def append_audit_def split: sum.splits)

lemma same_streams_deny_host: "same_streams s (snd (snd (snd (deny_host t req e r a d s))))"
  by (simp add: deny_host_def policy_audit_def)
    (rule same_streams_trans [OF same_streams_UpdateRunState same_streams_control_audit])

lemma same_streams_park_host: "same_streams s (snd (snd (snd (park_host me c t req e r i a h d s))))"
proof (cases "ct_approvals c")
  case None
  then show ?thesis
    by (simp add: park_host_def policy_audit_def)
      (rule same_streams_trans [OF same_streams_UpdateRunState same_streams_control_audit])
next
  case (Some ap)
  have "same_streams s s1 \<Longrightarrow> same_streams s (UpdateRunState n r x y z s1)" for s1 n x y z
    by (rule same_streams_trans [OF _ same_streams_UpdateRunState])
  moreover have "same_streams s s1 \<Longrightarrow> same_streams s (policy_audit t k req e r a d l s1)" for s1 k l
    unfolding policy_audit_def by (rule same_streams_trans [OF _ same_streams_control_audit])
  ultimately show ?thesis
    using Some same_streams_NewRequest [of s ap "unix t" i]
    by (auto simp: park_host_def split: prod.split sum.split) (metis snd_conv)+
qed

lemma only_adds_send_host:
  assumes "quiet_hooks hk" "\<And>cmd. c_Cmd cmd = dq_Cmd req \<Longrightarrow> c_Args cmd = dq_Args req \<Longrightarrow>
      c_Decision cmd = Some (signDecision sign (ct_ident c) (c_RunId cmd) bundleV d (dq_ActorRole req) h) \<Longrightarrow>
      P agent (ECommand cmd)"
  shows "only_adds P s (snd (snd (snd (send_host sign c hk t req bundleV e r agent h d s))))"
proof -
  let ?cmd = "\<lparr>c_RunId = r, c_ExecutionId = e, c_Cmd = dq_Cmd req, c_Args = dq_Args req,
    c_Cwd = [], c_User = [], c_TimeoutS = dq_TimeoutS req, c_Env = dq_Env req, c_Retryable = False,
    c_Decision = Some (signDecision sign (ct_ident c) r bundleV d (dq_ActorRole req) h)\<rparr>"
  obtain err s1 where s: "SendCommand hk t agent ?cmd s = (err, s1)" by (cases "SendCommand hk t agent ?cmd s")
  have a: "only_adds P s s1"
    using only_adds_SendCommand [of hk P agent ?cmd s t] assms s by simp
  have b: "only_adds P s (UpdateRunState n i x y z s1)" for n i x y z
    by (rule only_adds_trans [OF a only_adds_same [OF same_streams_UpdateRunState]])
  have m: "only_adds P s (snd (MarkQueuedOfflineIfQueued n i s1))" for n i
    by (rule only_adds_trans [OF a only_adds_same [OF same_streams_MarkQueued]])
  show ?thesis
  proof (cases err)
    case None
    then show ?thesis using s b by (simp add: send_host_def)
  next
    case (Some x)
    note s' = s [unfolded Some]
    obtain ch st2 where q: "MarkQueuedOfflineIfQueued (unix t) r s1 = (ch, st2)"
      by (cases "MarkQueuedOfflineIfQueued (unix t) r s1")
    with m have "only_adds P s st2" by (metis snd_conv)
    with b q show ?thesis by (cases x) (simp_all add: send_host_def s' Let_def)
  qed
qed

lemma Evaluate_effects: "d_Effect (Evaluate rx rs a) \<in> {EffectDeny, EffectRequireApproval, EffectAllow}"
  by (simp add: Evaluate_eq(1))

lemma only_adds_dispatch_host:
  assumes "quiet_hooks hk" "host \<in> set hs"
  shows "only_adds (gated rx sign c req rs bundleV hs) s
    (snd (snd (snd (dispatch_host rx sign me c hk t req rs bundleV e r i host s))))"
proof -
  let ?P = "gated rx sign c req rs bundleV hs" and ?a = "dispatch_action c req host"
  let ?d = "Evaluate rx rs ?a"
  have self: "only_adds ?P s s" by (rule only_adds_same) simp
  have step: "only_adds ?P s1 (snd (snd (snd (if d_Effect ?d = EffectDeny then deny_host t req e r (ID host) ?d s1
      else if d_Effect ?d = EffectRequireApproval then park_host me c t req e r i (ID host) (ac_HostEOL ?a) ?d s1
      else send_host sign c hk t req bundleV e r (ID host) (ac_HostEOL ?a) ?d s1))))" for s1
  proof (cases "d_Effect ?d = EffectDeny \<or> d_Effect ?d = EffectRequireApproval")
    case True
    then show ?thesis
      using only_adds_same [OF same_streams_deny_host] only_adds_same [OF same_streams_park_host] by auto
  next
    case False
    then have "d_Effect ?d = EffectAllow" using Evaluate_effects [of rx rs ?a] by auto
    then have "only_adds ?P s1 (snd (snd (snd (send_host sign c hk t req bundleV e r (ID host) (ac_HostEOL ?a) ?d s1))))"
      using assms(2) by (intro only_adds_send_host [OF assms(1)]) (auto simp: gated_def Let_def)
    with False show ?thesis by simp
  qed
  show ?thesis
    unfolding dispatch_host_def Let_def
    using self only_adds_trans [OF only_adds_same [OF same_streams_CreateExecutionRun] step]
    by (auto split: sum.split)
qed

lemma only_adds_dispatch_hosts:
  assumes "quiet_hooks hk" "set hs \<subseteq> set hs0"
  shows "only_adds (gated rx sign c req rs bundleV hs0) s
    (snd (snd (snd (dispatch_hosts rx sign me c hk t req rs bundleV e rid aid k hs s))))"
  using assms(2)
proof (induction hs arbitrary: s k)
  case Nil
  then show ?case by (simp add: only_adds_same)
next
  case (Cons host hs)
  obtain a1 b1 c1 s1 where 1: "dispatch_host rx sign me c hk t req rs bundleV e (rid k) (aid k) host s = (a1, b1, c1, s1)"
    by (cases "dispatch_host rx sign me c hk t req rs bundleV e (rid k) (aid k) host s")
  obtain a2 b2 c2 s2 where 2: "dispatch_hosts rx sign me c hk t req rs bundleV e rid aid (Suc k) hs s1 = (a2, b2, c2, s2)"
    by (cases "dispatch_hosts rx sign me c hk t req rs bundleV e rid aid (Suc k) hs s1")
  have "only_adds (gated rx sign c req rs bundleV hs0) s s1"
    using only_adds_dispatch_host [OF assms(1), of host hs0 rx sign c req rs bundleV s me t e "rid k" "aid k"]
      Cons.prems 1 by simp
  moreover have "only_adds (gated rx sign c req rs bundleV hs0) s1 s2"
    using Cons.IH [of s1 "Suc k"] Cons.prems 2 by simp
  ultimately show ?case using 1 2 by (simp add: only_adds_trans)
qed

lemma Dispatch_adds:
  assumes "quiet_hooks hk"
    and "Dispatch rx sign me ma unm c hk t execID rid aid req st = (res, st')"
  shows "same_streams st st' \<or>
    (\<exists>hs rs bundleV. ResolveSelector (hosts st) (dq_Selector req) = Inr hs \<and>
       GetPolicyRules unm (pol st) = Inr rs \<and> PolicyBundleVersion (pol st) = Inr bundleV \<and>
       only_adds (gated rx sign c req rs bundleV hs) st st')"
proof (cases res)
  case (Inl e)
  with assms(2) show ?thesis
    by (auto simp: Dispatch_def CreateExecution_def sql_insert_def same_streams_def Let_def
        split: sum.splits if_splits prod.splits option.splits)
next
  case (Inr out)
  let ?e = "\<lparr>e_ID = execID, e_Selector = dq_Selector req, e_Cmd = dq_Cmd req,
    e_ArgsJSON = ma (dq_Args req), e_Created = 0, e_CreatedBy = dq_CreatedBy req, e_State = ''dispatching''\<rparr>"
  from assms(2) Inr obtain hs st1 rs bundleV where d:
    "ResolveSelector (hosts st) (dq_Selector req) = Inr hs" "CreateExecution (unix t) ?e st = Inr st1"
    "GetPolicyRules unm (pol st1) = Inr rs" "PolicyBundleVersion (pol st1) = Inr bundleV"
    by (auto simp: Dispatch_def split: sum.splits prod.splits)
  obtain refs errs tm st2 where ds:
    "dispatch_hosts rx sign me c hk t req rs bundleV execID rid aid 0 hs st1 = (refs, errs, tm, st2)"
    by (cases "dispatch_hosts rx sign me c hk t req rs bundleV execID rid aid 0 hs st1")
  have st1: "same_streams st st1" "pol st1 = pol st"
    using d(2) by (auto simp: CreateExecution_def same_streams_def sql_insert_def Let_def split: if_splits)
  have "only_adds (gated rx sign c req rs bundleV hs) st1 st2"
    using only_adds_dispatch_hosts [OF assms(1) subset_refl, of rx sign c req rs bundleV hs st1 me t execID rid aid 0]
      ds by simp
  moreover have fin: "same_streams st2 (if tm then FinalizeExecution execID st2 else st2)"
    by (simp add: same_streams_FinalizeExecution)
  have "same_streams st2 (emit k1 p1 (control_audit t k2 b p2 (if tm then FinalizeExecution execID st2 else st2)))"
    for k1 p1 k2 b p2
    by (rule same_streams_trans [OF same_streams_trans [OF fin same_streams_control_audit] same_streams_emit])
  then have "same_streams st2 st'"
    using assms(2) Inr d ds by (auto simp: Dispatch_def Let_def)
  ultimately have "only_adds (gated rx sign c req rs bundleV hs) st st'"
    using only_adds_trans only_adds_same st1(1) by metis
  with d st1(2) show ?thesis by auto
qed

text \<open>
  C1: A dispatch never sends or queues anything the policy does not allow: whatever the
  selector, the rules and the state, every envelope it adds to a stream or to an offline queue
  is the requested command, goes to one of the selected hosts, and carries the signed decision
  of an evaluation that allows the command on that very host.
\<close>
theorem Dispatch_policy_gated:
  assumes "quiet_hooks hk"
    and "Dispatch rx sign me ma unm c hk t execID rid aid req st = (res, st')"
  shows "same_streams st st' \<or>
    (\<exists>hs rs bundleV. ResolveSelector (hosts st) (dq_Selector req) = Inr hs \<and>
       GetPolicyRules unm (pol st) = Inr rs \<and> PolicyBundleVersion (pol st) = Inr bundleV \<and>
       only_adds (gated rx sign c req rs bundleV hs) st st')"
  by (rule Dispatch_adds [OF assms])

definition dispatch_state :: server where
  "dispatch_state = init_server (\<lambda>_. True)
     \<lparr>hosts := empty_db\<lparr>agents := [\<lparr>a_ID = ''h1'', a_UUID = ''u1'', a_ED25519Pub = [], a_X25519Pub = [],
        a_TlsPub = [], a_TlsNotAfter = 0, a_Version = [], a_State = ''active'', a_FirstSeen = 0,
        a_LastSeen = 0, a_Created = 0\<rparr>]\<rparr>,
      pol := \<lparr>policies = [\<lparr>pr_ID = ''p1'', pr_Name = ''all'', pr_MatchJSON = ''{}'', pr_Effect = ''allow'',
        pr_Priority = 0, pr_CreatedUnix = 0\<rparr>], bundle_meta = None\<rparr>\<rparr>"

definition dispatch_request :: DispatchRequest where
  "dispatch_request = \<lparr>dq_Selector = ''all'', dq_Cmd = ''ls'', dq_Args = [''-l''], dq_Env = Map.empty,
     dq_TimeoutS = 0, dq_CreatedBy = ''bob'', dq_ActorRole = ''operator''\<rparr>"

definition sample_ctl :: control where
  "sample_ctl = \<lparr>ct_ident = Some ''k'', ct_approvals = None, ct_eol = None\<rparr>"

definition sample_match :: "string \<Rightarrow> Match option" where
  "sample_match _ = Some \<lparr>m_Hosts = [], m_Actions = [''*''], m_ActorRoles = [], m_CommandRegex = [], m_EOL = []\<rparr>"

definition dispatch_sample :: "(dispatch_failure + DispatchResult) \<times> server" where
  "dispatch_sample = Dispatch (\<lambda>_. None) (\<lambda>k m. k) (\<lambda>_. ''{}'') (\<lambda>_. ''[]'') sample_match sample_ctl
     (control_hooks 0 no_hooks) 0 ''e1'' (\<lambda>k. ''r'' @ show_nat k) (\<lambda>k. ''a'' @ show_nat k)
     dispatch_request dispatch_state"

theorem Dispatch_policy_gated_witness:
  "length (offlineQueue (snd dispatch_sample) ''h1'') = 1 \<and>
   (\<exists>hs rs v. ResolveSelector (hosts dispatch_state) ''all'' = Inr hs \<and>
     only_adds (gated (\<lambda>_. None) (\<lambda>k m. k) sample_ctl dispatch_request rs v hs)
       dispatch_state (snd dispatch_sample))"
proof -
  have q: "length (offlineQueue (snd dispatch_sample) ''h1'') = 1" by code_simp
  then have ns: "\<not> same_streams dispatch_state (snd dispatch_sample)"
    by (auto simp: same_streams_def dispatch_state_def init_server_def)
  have d: "Dispatch (\<lambda>_. None) (\<lambda>k m. k) (\<lambda>_. ''{}'') (\<lambda>_. ''[]'') sample_match sample_ctl
     (control_hooks 0 no_hooks) 0 ''e1'' (\<lambda>k. ''r'' @ show_nat k) (\<lambda>k. ''a'' @ show_nat k)
     dispatch_request dispatch_state = (fst dispatch_sample, snd dispatch_sample)"
    by (simp add: dispatch_sample_def)
  have "dq_Selector dispatch_request = ''all''" by (simp add: dispatch_request_def)
  with Dispatch_policy_gated [OF quiet_control_hooks d] q ns show ?thesis by metis
qed

section \<open>What cancelling does not stop\<close>

lemma cancel_loop_frame: "cancel_loop rs a b st = (x, y, st') \<Longrightarrow> runs st' = runs st \<and>
    executions st' = executions st \<and> sessions st' = sessions st \<and> offlineQueue st' = offlineQueue st \<and> net st' = net st"
  by (induction rs a b st rule: cancel_loop.induct)
    (auto simp: Let_def SendCancel_def sess_send_def split: if_splits option.splits)

lemma CancelExecution_state:
  assumes "GetExecution e st = Inr x" "e_State x \<notin> {''succeeded'', ''failed'', ''partial'', ''cancelled''}"
    and "CancelExecution t e actor st = (res, st')"
  shows "runs st' = runs (snd (CancelNonTerminalRuns (unix t) e st)) \<and>
    GetExecution e st' = Inr (x\<lparr>e_State := ''cancelled''\<rparr>) \<and> (\<exists>c. res = Inr c) \<and>
    sessions st' = sessions st \<and> offlineQueue st' = offlineQueue st \<and> net st' = net st"
proof -
  obtain c a st1 where l: "cancel_loop (ListRunsForExecution e st) [] [] st = (c, a, st1)"
    by (cases "cancel_loop (ListRunsForExecution e st) [] [] st")
  note f = cancel_loop_frame [OF l]
  have g: "GetExecution e (snd (CancelNonTerminalRuns (unix t) e st1)) = Inr x"
    using assms(1) f by (simp add: GetExecution_def CancelNonTerminalRuns_def Let_def)
  have "GetExecution e (append_audit au s) = GetExecution e s" for au and s :: server
    by (simp add: GetExecution_def append_audit_def)
  then show ?thesis
    using assms l f g
    by (auto simp: CancelExecution_def control_audit_def GetExecution_update)
      (simp_all add: emit_def append_audit_def UpdateExecutionState_def CancelNonTerminalRuns_def Let_def)
qed

text \<open>
  Cancelling an execution whose runs are interrupted does not stick.  The cancel succeeds
  and the execution reads \<open>cancelled\<close>, but its run stays \<open>interrupted\<close>; when the agent comes
  back and replays the result, the execution is overwritten with \<open>succeeded\<close>, because
  finalising only looks for cancelled runs.
\<close>
theorem cancel_overwritten_by_replay:
  assumes "GetExecution e st = Inr x" "e_State x = ''interrupted''"
    and "keyed er_ID (runs st)" "r \<in> set (runs st)" "er_State r = ''interrupted''"
    and "\<forall>r' \<in> set (runs st). er_ExecutionID r' = e \<longleftrightarrow> r' = r"
    and "CancelExecution t e actor st = (res, st1)"
    and "cr_RunId cr = er_ID r" "cr_State cr = ''succeeded''" "\<not> cr_Elevated cr" "cr_ElevationNote cr = []"
  shows "GetExecution e st1 = Inr (x\<lparr>e_State := ''cancelled''\<rparr>) \<and>
    GetExecution e (handleUp (control_hooks t hk) t' agent (ResultUp cr) st1) =
      Inr (x\<lparr>e_State := ''succeeded''\<rparr>)"
proof -
  note s = CancelExecution_state [OF assms(1) _ assms(7)]
  have "runs (snd (CancelNonTerminalRuns (unix t) e st)) = runs st"
    using assms(5,6) by (auto simp: CancelNonTerminalRuns_def Let_def sql_update_def intro!: map_idI)
  with s assms(2) have 1: "runs st1 = runs st" "GetExecution e st1 = Inr (x\<lparr>e_State := ''cancelled''\<rparr>)"
    by simp_all
  let ?f = "\<lambda>r. r\<lparr>er_State := cr_State cr, er_ExitCode := Some (cr_ExitCode cr),
    er_DurationMS := Some (cr_DurationMs cr), er_Updated := unix t'\<rparr>"
  let ?p = "\<lambda>r. er_ID r = cr_RunId cr \<and> (er_State r \<in> set open_states \<or> er_State r = cr_State cr)"
  let ?st2 = "UpdateRunState (unix t') (cr_RunId cr) (cr_State cr) (cr_ExitCode cr) (cr_DurationMs cr) st1"
  have runs2: "runs ?st2 = sql_update ?p ?f (runs st)"
    using 1(1) by (simp add: UpdateRunState_def)
  have p: "?p r" using assms(5,8) by (simp add: open_states_def)
  have "GetExecutionRun (cr_RunId cr) st1 = Some r"
    using assms(3,4,8) 1(1) by (simp add: GetExecutionRun_def sql_get_Some_iff)
  then have "GetExecutionRun (cr_RunId cr) ?st2 = Some (?f r)"
    using p unfolding GetExecutionRun_def runs2 1(1) by (subst sql_get_update) auto
  then have e: "ExecutionIDForRun (cr_RunId cr) ?st2 = Some e"
    using assms(4,6) by (auto simp: ExecutionIDForRun_def)
  have "{r' \<in> set (runs ?st2). er_ExecutionID r' = e} = {?f r}"
    unfolding runs2 set_sql_update using assms(4,6) p by (auto split: if_splits)
  then have l: "set (ListRunsForExecution e ?st2) = {?f r}"
    by (simp add: ListRunsForExecution_def)
  then have states: "set (map er_State (ListRunsForExecution e ?st2)) = {''succeeded''}"
    using assms(9) by simp
  have "GetExecution e (FinalizeExecution e ?st2) =
      (case GetExecution e ?st2 of Inl e \<Rightarrow> Inl e | Inr x \<Rightarrow> Inr (x\<lparr>e_State := aggregate_spec {''succeeded''}\<rparr>))"
    using l assms(9) unfolding FinalizeExecution_def Let_def aggregate_eq states
    by (auto simp: list_ex_iff GetExecution_update split: sum.splits)
  moreover have "GetExecution e ?st2 = GetExecution e st1"
    by (simp add: GetExecution_def UpdateRunState_def)
  moreover have "aggregate_spec {''succeeded''} = ''succeeded''"
    by (simp add: aggregate_spec_def IsTerminalRun_def terminalStates_def)
  ultimately show ?thesis
    using e 1(2) assms(10,11) by (simp add: handle_result_def Let_def control_hooks_def onRunFinished_def)
qed

text \<open>A server with one execution of one run.\<close>

definition one_run_server :: "string \<Rightarrow> string \<Rightarrow> server" where
  "one_run_server exec_state run_state = init_server (\<lambda>_. True)
     \<lparr>executions := [exec_sample ''e1'' exec_state],
      runs := [run_sample ''r1'' ''e1'' ''h1'' run_state]\<rparr>"

definition result_sample :: pbCommandResult where
  "result_sample = \<lparr>cr_RunId = ''r1'', cr_ExitCode = 0, cr_State = ''succeeded'', cr_DurationMs = 1,
     cr_Elevated = False, cr_ElevationNote = []\<rparr>"

theorem cancel_overwritten_by_replay_witness:
  "\<exists>st1. snd (CancelExecution 0 ''e1'' ''bob'' (one_run_server ''interrupted'' ''interrupted'')) = st1 \<and>
    GetExecution ''e1'' st1 = Inr (exec_sample ''e1'' ''cancelled'') \<and>
    GetExecution ''e1'' (handleUp (control_hooks 0 no_hooks) 1 ''h1'' (ResultUp result_sample) st1) =
      Inr (exec_sample ''e1'' ''succeeded'')"
proof -
  let ?st = "one_run_server ''interrupted'' ''interrupted''"
  obtain res st1 where c: "CancelExecution 0 ''e1'' ''bob'' ?st = (res, st1)"
    by (cases "CancelExecution 0 ''e1'' ''bob'' ?st")
  have "GetExecution ''e1'' ?st = Inr (exec_sample ''e1'' ''interrupted'')"
    by (simp add: GetExecution_def sql_get_def one_run_server_def exec_sample_def)
  from cancel_overwritten_by_replay [OF this _ _ _ _ _ c, where r = "run_sample ''r1'' ''e1'' ''h1'' ''interrupted''"
      and cr = result_sample and hk = no_hooks and t' = 1 and agent = "''h1''"] c
  show ?thesis
    by (auto simp: one_run_server_def exec_sample_def run_sample_def keyed_def result_sample_def)
qed

text \<open>
  C37: Cancelling does not reach the offline queue.  A command queued for an offline host whose
  execution is then cancelled is still sent to the host when it reconnects within the queue's
  window, so the host runs it although the run is \<open>cancelled\<close>.
\<close>
theorem cancelled_command_still_delivered:
  assumes "GetExecution e st = Inr x" "e_State x \<notin> {''succeeded'', ''failed'', ''partial'', ''cancelled''}"
    and "r \<in> set (runs st)" "er_ExecutionID r = e" "er_State r = ''queued_offline''"
    and "offlineQueue st agent = [\<lparr>q_env = ECommand cmd, q_expiresAt = exp\<rparr>]" "c_RunId cmd = er_ID r"
    and "CancelExecution t e actor st = (res, st1)" "t' \<le> exp" "net st1 (sends st1)"
  shows "(\<exists>r' \<in> set (runs st1). er_ID r' = er_ID r \<and> er_State r' = ''cancelled'') \<and>
    (sid, ECommand cmd) \<in> set (sent (drainOffline hk t' tok agent sid st1))"
proof
  note s = CancelExecution_state [OF assms(1,2,8)]
  show "\<exists>r' \<in> set (runs st1). er_ID r' = er_ID r \<and> er_State r' = ''cancelled''"
    using s assms(3-5)
    by (intro bexI [of _ "r\<lparr>er_State := ''cancelled'', er_Updated := unix t\<rparr>"])
      (force simp: CancelNonTerminalRuns_def Let_def set_sql_update)+
  have del: "(sid, ECommand cmd) \<in> set (sent s) \<Longrightarrow>
      (sid, ECommand cmd) \<in> set (sent (snd (deliverPendingUpdate t' tok agent sid s)))" for s
    using deliverPendingUpdate_sent [of t' tok agent sid s] by auto
  show "(sid, ECommand cmd) \<in> set (sent (drainOffline hk t' tok agent sid st1))"
    using s assms(6,9,10) del
    by (auto simp: drainOffline_def Let_def sess_send_def UpdateRunState_def DeletePendingUpdate_def
        split: option.splits)
qed

theorem cancelled_command_still_delivered_witness:
  "(1, ECommand (ls_command ''r1'')) \<in> set (sent (drainOffline no_hooks 5 ''k'' ''h1'' 1
     (snd (CancelExecution 1 ''e1'' ''bob''
       (queueOffline no_hooks 0 ''h1'' (ECommand (ls_command ''r1'')) (one_run_server ''running'' ''queued_offline''))))))"
proof -
  let ?st = "queueOffline no_hooks 0 ''h1'' (ECommand (ls_command ''r1'')) (one_run_server ''running'' ''queued_offline'')"
  obtain res st1 where c: "CancelExecution 1 ''e1'' ''bob'' ?st = (res, st1)"
    by (cases "CancelExecution 1 ''e1'' ''bob'' ?st")
  have q: "offlineQueue ?st ''h1'' = [\<lparr>q_env = ECommand (ls_command ''r1''), q_expiresAt = 1800000000000\<rparr>]"
    "runs ?st = [run_sample ''r1'' ''e1'' ''h1'' ''queued_offline'']"
    "GetExecution ''e1'' ?st = Inr (exec_sample ''e1'' ''running'')"
    by (simp_all add: queueOffline_def one_run_server_def init_server_def Let_def GetExecution_def sql_get_def
        exec_sample_def)
  have "net st1 n" for n
    using CancelExecution_state [OF q(3) _ c]
    by (simp add: exec_sample_def queueOffline_def one_run_server_def init_server_def Let_def)
  with cancelled_command_still_delivered [OF q(3) _ _ _ _ q(1) _ c, where r = "run_sample ''r1'' ''e1'' ''h1'' ''queued_offline''"
      and t' = 5 and sid = 1 and hk = no_hooks and tok = "''k''"] c q(2)
  show ?thesis by (simp add: exec_sample_def run_sample_def ls_command_def)
qed

end
