(* ===== verification/Pipeline.thy ===== *)
theory Pipeline
  imports Control
begin

text \<open>
  The command pipeline from end to end: what the server dispatches under its policy, and what
  the agent's guardrail decides about it once it holds the bundle the server pushes.  Nothing
  is defined of the code here; the statements compose the theories \<open>Control\<close>, \<open>Stream\<close>,
  \<open>PolicyStore\<close> and \<open>Guardrail\<close>.
\<close>

section \<open>The agent's view of a pushed bundle\<close>

text \<open>The envelope a step adds for an agent, on its stream or on its offline queue.\<close>

definition newly_for :: "server \<Rightarrow> server \<Rightarrow> string \<Rightarrow> Envelope \<Rightarrow> bool" where
  "newly_for st st' agent env \<longleftrightarrow>
     (\<exists>qe \<in> set (offlineQueue st' agent) - set (offlineQueue st agent). q_env qe = env) \<or>
     (\<exists>sid i. sessions st agent = Some sid \<and> length (sent st) \<le> i \<and> i < length (sent st') \<and>
        sent st' ! i = (sid, env))"

lemma newly_for_only_adds:
  assumes "only_adds P st st'" "inj_on (sessions st) (dom (sessions st))" "newly_for st st' agent env"
  shows "P agent env"
proof -
  from assms(1) obtain new where new: "sent st' = sent st @ new"
    "\<forall>(sid, env) \<in> set new. \<exists>agent. sessions st agent = Some sid \<and> P agent env"
    by (auto simp: only_adds_def)
  from assms(3) consider
      (queued) qe where "qe \<in> set (offlineQueue st' agent)" "qe \<notin> set (offlineQueue st agent)" "q_env qe = env"
    | (sent) sid i where "sessions st agent = Some sid" "length (sent st) \<le> i" "i < length (sent st')"
        "sent st' ! i = (sid, env)"
    by (auto simp: newly_for_def)
  then show ?thesis
  proof cases
    case queued
    with assms(1) show ?thesis by (auto simp: only_adds_def)
  next
    case sent
    then have "(sid, env) = new ! (i - length (sent st))" "i - length (sent st) < length new"
      using new(1) by (auto simp: nth_append)
    then have "(sid, env) \<in> set new" by simp
    with new(2) obtain agent' where "sessions st agent' = Some sid" "P agent' env" by blast
    with sent(1) assms(2) show ?thesis by (metis domI inj_onD)
  qed
qed

lemma newly_for_same: "same_streams st st' \<Longrightarrow> \<not> newly_for st st' agent env"
  by (auto simp: newly_for_def same_streams_def)

text \<open>The bundle that \<open>pushPolicyBundle\<close> sends, and the guard that received it.\<close>

lemma pushed_bundle:
  assumes "sent (pushPolicyBundle unm marshal hash64 pub64 eolp agent sid st) =
      sent st @ [(sid, EPolicyBundle b)]"
    and "GetPolicyRules unm (pol st) = Inr rs" "PolicyBundleVersion (pol st) = Inr bundleV"
    and "bundleV \<noteq> 0 \<or> rs = []"
  shows "b_Version b = bundleV \<and> b_RulesJson b = marshal (sort_key r_ID rs) \<and> b_ServerPubkey b = pub64 \<and>
    b_HostTags b = Tags_of (hosts st) agent \<and> b_HostRoles b = Roles_of (hosts st) agent \<and>
    b_AgentId b = agent \<and> b_HostEol b = (case eolp of None \<Rightarrow> [] | Some p \<Rightarrow> p agent)"
  using assms
  by (auto simp: pushPolicyBundle_def BuildPolicyBundle_def BuildBundle_def canonicalRulesJSON_def
      sess_send_def Let_def word_gt_0 split: sum.splits if_splits)

lemma OnBundle_guard:
  assumes "unmarshal (rules g) (b_RulesJson b) = (rs, True)" "b_RulesJson b \<noteq> []"
    and "b_ServerPubkey b \<noteq> []" "b64dec (b_ServerPubkey b) = Some pub" "b_AgentId b \<noteq> []"
    and "g' = fst (OnBundle marshal unmarshal b64dec b g fs)"
  shows "loaded g' \<and> version g' = b_Version b \<and> rules g' = rs \<and> serverPub g' = pub \<and>
    hostTags g' = b_HostTags b \<and> hostRoles g' = b_HostRoles b \<and> hostEOL g' = b_HostEol b \<and>
    agentID g' = b_AgentId b"
  using assms by (simp add: OnBundle_def Let_def)

section \<open>Dispatched commands are accepted\<close>

lemma Resolve_host_info:
  assumes "hosts_inv db" "ResolveSelector db expr = Inr hs" "host \<in> set hs"
  shows "Tags host = Tags_of db (ID host) \<and> Roles host = Roles_of db (ID host) \<and>
    ID host \<in> a_ID ` set (agents db)"
proof -
  from store_resolver.Resolve_correct [OF assms(1), of expr "Groups_of db" hs] assms(2,3)
  have "host \<in> set (Resolver_All db)" by (auto simp: ResolveSelector_def)
  then show ?thesis by (auto simp: Resolver_All_def toInfos_def Agents_def)
qed

text \<open>
  The action the agent evaluates is the one the server evaluated, up to the command and
  argument fields, which no rule reads.
\<close>

lemma agent_action_eq:
  assumes "agentID g = ID host" "hostTags g = Tags host" "hostRoles g = Roles host"
    and "hostEOL g = (case ct_eol c of None \<Rightarrow> [] | Some p \<Rightarrow> p (ID host))"
    and "c_Cmd cmd = dq_Cmd req" "c_Args cmd = dq_Args req"
    and "pd_ActorRole d = dq_ActorRole req" "pd_EolState d = ac_HostEOL (dispatch_action c req host)"
  shows "Evaluate rx rs (command_action g d cmd) = Evaluate rx rs (dispatch_action c req host)"
proof -
  have "(command_action g d cmd)\<lparr>ac_Cmd := dq_Cmd req, ac_Args := dq_Args req\<rparr> = dispatch_action c req host"
    using assms by (simp add: command_action_def local_action_def dispatch_action_def eolFor_def)
  then show ?thesis using Evaluate_cmd_args by metis
qed

text \<open>
  C2: The pipeline agrees with itself: a command that \<open>Dispatch\<close> newly sends or queues for an
  agent is accepted by that agent's guardrail once it has received the bundle the server
  pushes in the same state.  Bundle version, signature, host identity, tags, roles and
  end-of-support state computed on the two sides agree, and so do the two evaluations.  Asked
  of the environment: signatures verify, the JSON text of the rules decodes to the rules, the
  key decodes, and a session belongs to one agent.
\<close>
theorem dispatched_command_accepted:
  assumes hk: "quiet_hooks hk" and inv: "hosts_inv (hosts st)"
    and disp: "Dispatch rx sign me ma unm c hk t execID rid aid req st = (res, st')"
    and push: "sent (pushPolicyBundle unm marshal hash64 pub64 (ct_eol c) agent sid st) =
      sent st @ [(sid, EPolicyBundle b)]"
    and ver: "PolicyBundleVersion (pol st) \<noteq> Inr 0 \<or> GetPolicyRules unm (pol st) = Inr []"
    and json: "\<And>rs. GetPolicyRules unm (pol st) = Inr rs \<Longrightarrow> marshal (sort_key r_ID rs) \<noteq> [] \<and>
      unmarshal (rules g) (marshal (sort_key r_ID rs)) = (sort_key r_ID rs, True)"
    and key: "ct_ident c = Some priv" "pub64 \<noteq> []" "b64dec pub64 = Some pub"
    and sig: "\<And>m. verify pub m (sign priv m)"
    and ids: "agent \<noteq> []" "inj_on (sessions st) (dom (sessions st))"
    and new: "newly_for st st' agent env"
  shows "\<exists>cmd. env = ECommand cmd \<and>
    fst (Recheck rx verify (fst (OnBundle marshal unmarshal b64dec b g fs)) cmd)"
proof -
  from Dispatch_adds [OF hk disp] newly_for_same new obtain hs rs bundleV where d:
    "ResolveSelector (hosts st) (dq_Selector req) = Inr hs"
    "GetPolicyRules unm (pol st) = Inr rs" "PolicyBundleVersion (pol st) = Inr bundleV"
    "only_adds (gated rx sign c req rs bundleV hs) st st'" by blast
  from newly_for_only_adds [OF d(4) ids(2) new] obtain host cmd where h:
    "host \<in> set hs" "env = ECommand cmd" "ID host = agent"
    and cmd: "d_Effect (Evaluate rx rs (dispatch_action c req host)) = EffectAllow"
      "c_Cmd cmd = dq_Cmd req" "c_Args cmd = dq_Args req"
      "c_Decision cmd = Some (signDecision sign (ct_ident c) (c_RunId cmd) bundleV
         (Evaluate rx rs (dispatch_action c req host)) (dq_ActorRole req) (ac_HostEOL (dispatch_action c req host)))"
    by (auto simp: gated_def Let_def)
  let ?d = "signDecision sign (ct_ident c) (c_RunId cmd) bundleV
    (Evaluate rx rs (dispatch_action c req host)) (dq_ActorRole req) (ac_HostEOL (dispatch_action c req host))"
  let ?g = "fst (OnBundle marshal unmarshal b64dec b g fs)"
  have "bundleV \<noteq> 0 \<or> rs = []" using ver d(2,3) by auto
  note b = pushed_bundle [OF push d(2,3) this]
  have g: "loaded ?g" "version ?g = bundleV" "rules ?g = sort_key r_ID rs" "serverPub ?g = pub"
    "hostTags ?g = Tags_of (hosts st) agent" "hostRoles ?g = Roles_of (hosts st) agent"
    "agentID ?g = agent" "hostEOL ?g = (case ct_eol c of None \<Rightarrow> [] | Some p \<Rightarrow> p agent)"
    using OnBundle_guard [of unmarshal g b "sort_key r_ID rs" b64dec pub ?g marshal fs] b json [OF d(2)] key(2,3) ids(1)
    by auto
  have "Evaluate rx rs (command_action ?g ?d cmd) = Evaluate rx rs (dispatch_action c req host)"
  proof (rule agent_action_eq)
    note info = Resolve_host_info [OF inv d(1) h(1), unfolded h(3)]
    show "agentID ?g = ID host" "hostTags ?g = Tags host" "hostRoles ?g = Roles host"
      "hostEOL ?g = (case ct_eol c of None \<Rightarrow> [] | Some p \<Rightarrow> p (ID host))"
      unfolding h(3) using g info by simp_all
  qed (simp_all add: cmd signDecision_def)
  with cmd(1) have allow: "\<forall>r \<in> set rs. matchesRule rx r (command_action ?g ?d cmd) \<longrightarrow>
      r_Effect r \<noteq> EffectDeny \<and> r_Effect r \<noteq> EffectRequireApproval"
    using Evaluate_allow_iff [of rx rs "command_action ?g ?d cmd"] by simp
  have "VerifyDecision verify pub (pd_RunId ?d) (pd_BundleVersion ?d) (pd_Effect ?d)
      (pd_MatchedRules ?d) (pd_ActorRole ?d) (pd_ApprovalId ?d) (pd_Sig ?d)"
    using key(1) sig by (simp add: VerifyDecision_def SignDecision_def signDecision_def)
  with g allow cmd have "fst (Recheck rx verify ?g cmd)"
    unfolding Recheck_ok_iff by (auto simp: signDecision_def)
  with h(2) show ?thesis by blast
qed

text \<open>A server without rules, where a dispatch queues a command for the offline host \<open>h1\<close>.\<close>

definition open_state :: server where
  "open_state = dispatch_state\<lparr>pol := \<lparr>policies = [], bundle_meta = None\<rparr>\<rparr>"

definition open_sample :: "(dispatch_failure + DispatchResult) \<times> server" where
  "open_sample = Dispatch (\<lambda>_. None) (\<lambda>k m. m) (\<lambda>_. ''{}'') (\<lambda>_. ''[]'') sample_match sample_ctl
     (control_hooks 0 no_hooks) 0 ''e1'' (\<lambda>k. ''r'' @ show_nat k) (\<lambda>k. ''a'' @ show_nat k)
     dispatch_request open_state"

definition sample_push :: server where
  "sample_push = pushPolicyBundle sample_match (\<lambda>_. ''1'') (\<lambda>s. s) ''pk'' None ''h1'' 1 open_state"

theorem dispatched_command_accepted_witness:
  "\<exists>b cmd. sent sample_push = [(1, EPolicyBundle b)] \<and>
    ECommand cmd = q_env (hd (offlineQueue (snd open_sample) ''h1'')) \<and>
    fst (Recheck (\<lambda>_. None) (\<lambda>p m s. m = s)
      (fst (OnBundle (\<lambda>_. ''1'') (\<lambda>_ _. ([], True)) Some b (NewGuard ''h1'')
        \<lparr>policy_json = None, policy_meta = None, server_pub = None\<rparr>)) cmd)"
proof -
  let ?env = "q_env (hd (offlineQueue (snd open_sample) ''h1''))"
  have rules: "GetPolicyRules sample_match (pol open_state) = Inr []" by code_simp
  have "length (sent sample_push) = 1 \<and> (case hd (sent sample_push) of (sid, env) \<Rightarrow>
      sid = 1 \<and> (case env of EPolicyBundle b \<Rightarrow> True | _ \<Rightarrow> False))" by code_simp
  then obtain env where env: "sent sample_push = [(1, env)]"
    "case env of EPolicyBundle b \<Rightarrow> True | _ \<Rightarrow> False"
    by (cases "sent sample_push") (auto split del: Envelope.splits)
  then obtain b where b: "sent sample_push = [(1, EPolicyBundle b)]" by (cases env) auto
  have q: "length (offlineQueue (snd open_sample) ''h1'') = 1" by code_simp
  have d: "Dispatch (\<lambda>_. None) (\<lambda>k m. m) (\<lambda>_. ''{}'') (\<lambda>_. ''[]'') sample_match sample_ctl
     (control_hooks 0 no_hooks) 0 ''e1'' (\<lambda>k. ''r'' @ show_nat k) (\<lambda>k. ''a'' @ show_nat k)
     dispatch_request open_state = (fst open_sample, snd open_sample)"
    by (simp add: open_sample_def)
  have e: "sent open_state = []" "sessions open_state = Map.empty"
    "offlineQueue open_state ''h1'' = []" "hosts_inv (hosts open_state)"
    by (simp_all add: open_state_def dispatch_state_def init_server_def hosts_inv_def empty_db_def keyed_def)
  have new: "newly_for open_state (snd open_sample) ''h1'' ?env"
    using q e by (cases "offlineQueue (snd open_sample) ''h1''") (auto simp: newly_for_def)
  have "\<exists>cmd. ?env = ECommand cmd \<and> fst (Recheck (\<lambda>_. None) (\<lambda>p m s. m = s)
      (fst (OnBundle (\<lambda>_. ''1'') (\<lambda>_ _. ([], True)) Some b (NewGuard ''h1'')
        \<lparr>policy_json = None, policy_meta = None, server_pub = None\<rparr>)) cmd)"
    by (rule dispatched_command_accepted [OF quiet_control_hooks e(4) d, where priv = "''k''" and ?pub64.0 = "''pk''"
          and ?hash64.0 = "\<lambda>s. s" and sid = 1 and pub = "''pk''"])
      (use b e rules new in \<open>auto simp: sample_push_def sample_ctl_def\<close>)
  with b show ?thesis by metis
qed

end
