(* ===== verification/AuditChain.thy ===== *)
theory AuditChain
  imports Policy
begin

text \<open>
  The hash chain of the audit log, \<open>src/internal/store/auditchain.go\<close>: the rows of
  \<open>audit_events\<close> with their chain columns, the memoised head in \<open>audit_chain_state\<close>, the
  append transaction, the lazy backfill of rows older than the chain, and the verifier.
  \<open>H\<close> is the hexadecimal SHA-256 of a byte string.  The functions return \<open>Inl\<close> for the
  database errors that can arise from the rows themselves (a duplicate state row); a failed
  transaction is rolled back.
\<close>

section \<open>Tables\<close>

record AuditEvent =
  TS :: int
  EvKind :: string
  Actor :: string
  AgentID :: string
  Payload :: string
  PrevHash :: string
  Hash :: string

text \<open>A row is an event with its \<open>AUTOINCREMENT\<close> id; \<open>last_seq\<close> is SQLite's sequence counter.\<close>

record audit_db =
  events :: "(int \<times> AuditEvent) list"
  chain_state :: "(int \<times> string) option"
  last_seq :: int

datatype db_error = ConstraintViolation

definition scan_rows :: "audit_db \<Rightarrow> (int \<times> AuditEvent) list" where
  "scan_rows db = sort_key fst (events db)"

definition set_chain :: "int \<Rightarrow> string \<Rightarrow> string \<Rightarrow> (int \<times> AuditEvent) list \<Rightarrow> (int \<times> AuditEvent) list" where
  "set_chain i prev h rows =
     sql_update (\<lambda>r. fst r = i) (\<lambda>r. (fst r, (snd r)\<lparr>PrevHash := prev, Hash := h\<rparr>)) rows"

section \<open>Hashing\<close>

definition auditChainDomain :: string where
  "auditChainDomain = ''partout.audit.v1'' @ [NUL]"

definition auditMessage :: "string \<Rightarrow> AuditEvent \<Rightarrow> int \<Rightarrow> string" where
  "auditMessage prevHash a i =
     auditChainDomain @
     concat (map (\<lambda>f. f @ [NUL])
       [prevHash, show_int (TS a), EvKind a, Actor a, AgentID a, Payload a, show_int i])"

definition auditHash :: "(string \<Rightarrow> string) \<Rightarrow> string \<Rightarrow> AuditEvent \<Rightarrow> int \<Rightarrow> string" where
  "auditHash H prevHash a i = H (auditMessage prevHash a i)"

section \<open>Head, backfill, append\<close>

definition auditChainHead :: "audit_db \<Rightarrow> int \<times> string" where
  "auditChainHead db = (case chain_state db of None \<Rightarrow> (0, []) | Some s \<Rightarrow> s)"

fun backfill_loop ::
  "(string \<Rightarrow> string) \<Rightarrow> (int \<times> AuditEvent) list \<Rightarrow> (int \<times> AuditEvent) list \<Rightarrow> int \<Rightarrow> string
   \<Rightarrow> (int \<times> AuditEvent) list \<times> int \<times> string" where
  "backfill_loop H tbl [] lastID prevHash = (tbl, lastID, prevHash)"
| "backfill_loop H tbl ((i, a) # rows) lastID prevHash =
     (let hash = auditHash H prevHash a i
      in backfill_loop H (set_chain i prevHash hash tbl) rows i hash)"

definition backfillAuditChain :: "(string \<Rightarrow> string) \<Rightarrow> audit_db \<Rightarrow> audit_db \<times> int \<times> string" where
  "backfillAuditChain H db =
     (case backfill_loop H (events db) (scan_rows db) 0 [] of
        (tbl, lastID, prevHash) \<Rightarrow> (db\<lparr>events := tbl\<rparr>, lastID, prevHash))"

definition ensureAuditChain ::
  "(string \<Rightarrow> string) \<Rightarrow> audit_db \<Rightarrow> db_error + audit_db \<times> int \<times> string" where
  "ensureAuditChain H db =
     (case auditChainHead db of (lastID, lastHash) \<Rightarrow>
        if lastID > 0 then Inr (db, lastID, lastHash)
        else
          (case backfillAuditChain H db of (db1, lastID1, lastHash1) \<Rightarrow>
             if lastID1 = 0 then Inr (db1, 0, [])
             else if chain_state db1 \<noteq> None then Inl ConstraintViolation
             else Inr (db1\<lparr>chain_state := Some (lastID1, lastHash1)\<rparr>, lastID1, lastHash1)))"

definition AppendAuditChained ::
  "(string \<Rightarrow> string) \<Rightarrow> AuditEvent \<Rightarrow> audit_db \<Rightarrow> db_error + audit_db" where
  "AppendAuditChained H a db =
     bind_res (ensureAuditChain H db) (\<lambda>(db1, _, lastHash).
       let i = last_seq db1 + 1;
           tbl = events db1 @ [(i, a\<lparr>PrevHash := [], Hash := []\<rparr>)];
           hash = auditHash H lastHash a i
       in Inr (db1\<lparr>events := set_chain i lastHash hash tbl, last_seq := i,
                   chain_state := Some (i, hash)\<rparr>))"

definition ensureAuditChainCommitted :: "(string \<Rightarrow> string) \<Rightarrow> audit_db \<Rightarrow> db_error + audit_db" where
  "ensureAuditChainCommitted H db = bind_res (ensureAuditChain H db) (\<lambda>(db1, _, _). Inr db1)"

section \<open>Verification\<close>

record AuditVerifyResult =
  OK :: bool
  RowsChecked :: nat
  BrokenRowID :: int
  Reason :: string

definition link_reason :: string where
  "link_reason = ''prev_hash does not link to the previous row''  @ [CHR 0x27] @ ''s hash''"

definition payload_reason :: string where
  "payload_reason = ''payload does not match recorded hash''"

fun verify_loop ::
  "(string \<Rightarrow> string) \<Rightarrow> (int \<times> AuditEvent) list \<Rightarrow> string \<Rightarrow> nat \<Rightarrow> AuditVerifyResult" where
  "verify_loop H [] prevHash checked =
     \<lparr>OK = True, RowsChecked = checked, BrokenRowID = 0, Reason = []\<rparr>"
| "verify_loop H ((i, a) # rows) prevHash checked =
     (if PrevHash a \<noteq> prevHash then
        \<lparr>OK = False, RowsChecked = checked, BrokenRowID = i, Reason = link_reason\<rparr>
      else if Hash a \<noteq> auditHash H prevHash a i then
        \<lparr>OK = False, RowsChecked = checked, BrokenRowID = i, Reason = payload_reason\<rparr>
      else verify_loop H rows (Hash a) (Suc checked))"

definition VerifyAuditChain ::
  "(string \<Rightarrow> string) \<Rightarrow> audit_db \<Rightarrow> db_error + audit_db \<times> AuditVerifyResult" where
  "VerifyAuditChain H db =
     bind_res (ensureAuditChainCommitted H db)
       (\<lambda>db1. Inr (db1, verify_loop H (scan_rows db1) [] 0))"

section \<open>The chain\<close>

fun chained :: "(string \<Rightarrow> string) \<Rightarrow> string \<Rightarrow> (int \<times> AuditEvent) list \<Rightarrow> bool" where
  "chained H prev [] = True"
| "chained H prev ((i, a) # rows) =
     (PrevHash a = prev \<and> Hash a = auditHash H prev a i \<and> chained H (Hash a) rows)"

definition head_hash :: "string \<Rightarrow> (int \<times> AuditEvent) list \<Rightarrow> string" where
  "head_hash prev rows = (if rows = [] then prev else Hash (snd (last rows)))"

lemma head_hash_simps [simp]:
  "head_hash prev [] = prev"
  "head_hash prev ((i, a) # rows) = head_hash (Hash a) rows"
  "head_hash prev (rows @ [(i, a)]) = Hash a"
  by (auto simp: head_hash_def)

lemma verify_loop_OK: "chained H prev rows \<Longrightarrow>
  verify_loop H rows prev n = \<lparr>OK = True, RowsChecked = n + length rows, BrokenRowID = 0, Reason = []\<rparr>"
  by (induction rows arbitrary: prev n) auto

lemma OK_verify_loop: "OK (verify_loop H rows prev n) \<Longrightarrow> chained H prev rows"
  by (induction rows arbitrary: prev n) (auto split: if_splits)

lemma chained_append: "chained H prev (xs @ ys) \<longleftrightarrow> chained H prev xs \<and> chained H (head_hash prev xs) ys"
  by (induction xs arbitrary: prev) auto

lemma verify_loop_append:
  "chained H prev xs \<Longrightarrow>
    verify_loop H (xs @ ys) prev n = verify_loop H ys (head_hash prev xs) (n + length xs)"
  by (induction xs arbitrary: prev n) auto

text \<open>
  The invariant of the log: ids strictly increase from 1 and stay below the sequence, and
  either the chain was never started (no state row) or every row is chained and the state row
  is the head.
\<close>

definition ids_ok :: "audit_db \<Rightarrow> bool" where
  "ids_ok db \<longleftrightarrow> sorted_wrt (<) (map fst (events db)) \<and>
     (\<forall>i \<in> fst ` set (events db). 0 < i \<and> i \<le> last_seq db) \<and> 0 \<le> last_seq db"

definition chain_inv :: "(string \<Rightarrow> string) \<Rightarrow> audit_db \<Rightarrow> bool" where
  "chain_inv H db \<longleftrightarrow> ids_ok db \<and>
     (case chain_state db of
        None \<Rightarrow> True
      | Some (i, h) \<Rightarrow> 0 < i \<and> chained H [] (events db) \<and> h = head_hash [] (events db))"

definition empty_log :: audit_db where
  "empty_log = \<lparr>events = [], chain_state = None, last_seq = 0\<rparr>"

lemma chain_inv_empty: "chain_inv H empty_log"
  by (simp add: chain_inv_def empty_log_def ids_ok_def)

lemma scan_rows_sorted: "ids_ok db \<Longrightarrow> scan_rows db = events db"
  unfolding scan_rows_def ids_ok_def
  by (intro sort_key_id_if_sorted strict_sorted_imp_sorted) blast

text \<open>The content of a row: everything but the chain columns.\<close>

definition content :: "int \<times> AuditEvent \<Rightarrow> int \<times> int \<times> string \<times> string \<times> string \<times> string" where
  "content r = (fst r, TS (snd r), EvKind (snd r), Actor (snd r), AgentID (snd r), Payload (snd r))"

lemma auditMessage_content:
  "content (i, a) = content (j, b) \<Longrightarrow> auditMessage p a i = auditMessage p b j"
  by (simp add: content_def auditMessage_def)

lemma auditMessage_chain_cols [simp]:
  "auditMessage p (a\<lparr>PrevHash := x, Hash := y\<rparr>) i = auditMessage p a i"
  by (simp add: auditMessage_def)

lemma set_chain_id: "i \<notin> fst ` set xs \<Longrightarrow> set_chain i p h xs = xs"
  unfolding set_chain_def sql_update_def by (induction xs) auto

lemma set_chain_append:
  "i \<notin> fst ` set xs \<Longrightarrow> i \<notin> fst ` set ys \<Longrightarrow>
    set_chain i p h (xs @ (i, a) # ys) = xs @ (i, a\<lparr>PrevHash := p, Hash := h\<rparr>) # ys"
  using set_chain_id [of i xs p h] set_chain_id [of i ys p h]
  by (simp add: set_chain_def sql_update_def)

section \<open>The backfill chains the rows it finds\<close>

fun rechain :: "(string \<Rightarrow> string) \<Rightarrow> string \<Rightarrow> (int \<times> AuditEvent) list \<Rightarrow> (int \<times> AuditEvent) list" where
  "rechain H prev [] = []"
| "rechain H prev ((i, a) # rows) =
     (let h = auditHash H prev a i in (i, a\<lparr>PrevHash := prev, Hash := h\<rparr>) # rechain H h rows)"

lemma rechain_chained: "chained H prev (rechain H prev rows)"
  by (induction H prev rows rule: rechain.induct) (auto simp: Let_def auditHash_def)

lemma rechain_content: "map content (rechain H prev rows) = map content rows"
  by (induction H prev rows rule: rechain.induct) (auto simp: Let_def content_def)

lemma rechain_fst: "map fst (rechain H prev rows) = map fst rows"
  by (induction H prev rows rule: rechain.induct) (auto simp: Let_def)

lemma rechain_Nil [simp]: "rechain H prev rows = [] \<longleftrightarrow> rows = []"
  using rechain_fst [of H prev rows] by (metis map_is_Nil_conv)

lemma backfill_loop_eq:
  assumes "distinct (map fst (done @ rows))"
  shows "backfill_loop H (done @ rows) rows lastID prev =
    (done @ rechain H prev rows, (if rows = [] then lastID else fst (last rows)),
     head_hash prev (rechain H prev rows))"
  using assms
proof (induction rows arbitrary: "done" lastID prev)
  case (Cons r rows)
  obtain i a where r: "r = (i, a)" by (cases r)
  let ?h = "auditHash H prev a i"
  let ?r = "(i, a\<lparr>PrevHash := prev, Hash := ?h\<rparr>)"
  have sc: "set_chain i prev ?h (done @ (i, a) # rows) = (done @ [?r]) @ rows"
    using Cons.prems r by (subst set_chain_append) auto
  have "distinct (map fst ((done @ [?r]) @ rows))" using Cons.prems r by simp
  from Cons.IH [OF this] sc show ?case by (simp add: r Let_def)
qed simp

lemma sorted_wrt_less_distinct: "sorted_wrt (<) (xs :: int list) \<Longrightarrow> distinct xs"
  by (simp add: strict_sorted_iff)

lemma backfillAuditChain_eq:
  assumes "ids_ok db"
  shows "backfillAuditChain H db =
    (db\<lparr>events := rechain H [] (events db)\<rparr>,
     (if events db = [] then 0 else fst (last (events db))),
     head_hash [] (rechain H [] (events db)))"
proof -
  have "distinct (map fst ([] @ events db))"
    using assms sorted_wrt_less_distinct by (simp add: ids_ok_def)
  from backfill_loop_eq [OF this] show ?thesis
    by (simp add: backfillAuditChain_def scan_rows_sorted [OF assms])
qed

lemma ids_ok_rechain: "ids_ok db \<Longrightarrow> ids_ok (db\<lparr>events := rechain H [] (events db)\<rparr>)"
proof -
  have "fst ` set (rechain H [] (events db)) = fst ` set (events db)"
    by (metis list.set_map rechain_fst)
  then show "ids_ok db \<Longrightarrow> ids_ok (db\<lparr>events := rechain H [] (events db)\<rparr>)"
    by (simp add: ids_ok_def rechain_fst del: ball_simps(9))
qed

text \<open>
  \<open>ensureAuditChain\<close> never fails on a log that satisfies the invariant; it returns the hash of
  the last row, keeps the content of every row, and leaves a chained log.
\<close>

lemma ensureAuditChain_inv:
  assumes "chain_inv H db"
  obtains db1 i where "ensureAuditChain H db = Inr (db1, i, head_hash [] (events db1))"
    and "chained H [] (events db1)" "ids_ok db1" "last_seq db1 = last_seq db"
    and "map content (events db1) = map content (events db)"
    and "events db1 = [] \<or> chain_state db1 = Some (i, head_hash [] (events db1)) \<and> 0 < i"
    and "chain_state db \<noteq> None \<Longrightarrow> db1 = db"
proof (cases "chain_state db")
  case None
  from assms have ids: "ids_ok db" by (simp add: chain_inv_def)
  show thesis
  proof (cases "events db = []")
    case True
    have "ensureAuditChain H db = Inr (db, 0, [])"
      using None True backfillAuditChain_eq [OF ids, of H]
      by (simp add: ensureAuditChain_def auditChainHead_def)
    then show thesis
      by (intro that [of db 0]) (use True ids None in simp_all)
  next
    case False
    let ?db1 = "db\<lparr>events := rechain H [] (events db)\<rparr>" and ?i = "fst (last (events db))"
    let ?h = "head_hash [] (rechain H [] (events db))"
    have "0 < ?i" using ids False by (auto simp: ids_ok_def)
    then have e: "ensureAuditChain H db = Inr (?db1\<lparr>chain_state := Some (?i, ?h)\<rparr>, ?i, ?h)"
      using None False backfillAuditChain_eq [OF ids, of H]
      by (simp add: ensureAuditChain_def auditChainHead_def)
    have ids1: "ids_ok (?db1\<lparr>chain_state := Some (?i, ?h)\<rparr>)"
      using ids_ok_rechain [OF ids, of H] by (simp add: ids_ok_def)
    show thesis
      by (rule that [of "?db1\<lparr>chain_state := Some (?i, ?h)\<rparr>" ?i])
        (use e ids1 None \<open>0 < ?i\<close> in \<open>simp_all add: rechain_chained rechain_content\<close>)
  qed
next
  case (Some s)
  obtain i h where s: "s = (i, h)" by (cases s)
  with assms Some have *: "0 < i" "chained H [] (events db)" "h = head_hash [] (events db)" "ids_ok db"
    by (auto simp: chain_inv_def)
  then have "ensureAuditChain H db = Inr (db, i, head_hash [] (events db))"
    using Some s by (simp add: ensureAuditChain_def auditChainHead_def)
  then show thesis by (rule that) (use Some s * in simp_all)
qed

lemma AppendAuditChained_inv:
  assumes "chain_inv H db"
  obtains db' where "AppendAuditChained H a db = Inr db'" "chain_inv H db'" "chain_state db' \<noteq> None"
    "map content (events db') = map content (events db) @ [content (last_seq db + 1, a)]"
    "last_seq db' = last_seq db + 1"
proof -
  from ensureAuditChain_inv [OF assms] obtain db1 i where e:
    "ensureAuditChain H db = Inr (db1, i, head_hash [] (events db1))"
    "chained H [] (events db1)" "ids_ok db1" "last_seq db1 = last_seq db"
    "map content (events db1) = map content (events db)" by metis
  let ?i = "last_seq db + 1" and ?p = "head_hash [] (events db1)"
  let ?h = "auditHash H ?p a ?i"
  let ?r = "(?i, a\<lparr>PrevHash := ?p, Hash := ?h\<rparr>)"
  let ?db' = "db1\<lparr>events := events db1 @ [?r], last_seq := ?i, chain_state := Some (?i, ?h)\<rparr>"
  have "?i \<notin> fst ` set (events db1)" using e(3,4) by (force simp: ids_ok_def)
  then have "set_chain ?i ?p ?h (events db1 @ [(?i, a\<lparr>PrevHash := [], Hash := []\<rparr>)]) = events db1 @ [?r]"
    by (subst set_chain_append) auto
  then have app: "AppendAuditChained H a db = Inr ?db'"
    using e(1,4) by (simp add: AppendAuditChained_def Let_def)
  have ids: "ids_ok ?db'"
    using e(3,4) by (force simp: ids_ok_def sorted_wrt_append)
  have "chain_inv H ?db'"
    using ids e(2,3,4) by (auto simp: chain_inv_def chained_append auditHash_def ids_ok_def)
  then show thesis
    using that [OF app] e(5) by (simp add: content_def)
qed

section \<open>What a verified log guarantees\<close>

fun append_all :: "(string \<Rightarrow> string) \<Rightarrow> AuditEvent list \<Rightarrow> audit_db \<Rightarrow> db_error + audit_db" where
  "append_all H [] db = Inr db"
| "append_all H (a # evs) db = bind_res (AppendAuditChained H a db) (append_all H evs)"

text \<open>The rows a run of appends adds: consecutive ids from the sequence on.\<close>

fun number_rows :: "int \<Rightarrow> AuditEvent list \<Rightarrow> (int \<times> AuditEvent) list" where
  "number_rows i [] = []"
| "number_rows i (a # evs) = (i, a) # number_rows (i + 1) evs"

lemma append_all_inv:
  assumes "chain_inv H db"
  shows "\<exists>db'. append_all H evs db = Inr db' \<and> chain_inv H db' \<and>
    (evs \<noteq> [] \<longrightarrow> chain_state db' \<noteq> None) \<and> (evs = [] \<longrightarrow> db' = db) \<and>
    map content (events db') = map content (events db) @ map content (number_rows (last_seq db + 1) evs)"
  using assms
proof (induction evs arbitrary: db)
  case (Cons a evs)
  from AppendAuditChained_inv [OF Cons.prems] obtain db1 where 1:
    "AppendAuditChained H a db = Inr db1" "chain_inv H db1" "chain_state db1 \<noteq> None"
    "map content (events db1) = map content (events db) @ [content (last_seq db + 1, a)]"
    "last_seq db1 = last_seq db + 1" by metis
  from Cons.IH [OF 1(2)] 1 show ?case by (cases evs) (auto simp: add.assoc)
qed simp

lemma VerifyAuditChain_chained:
  assumes "chain_inv H db"
  obtains db1 where "VerifyAuditChain H db = Inr (db1,
      \<lparr>OK = True, RowsChecked = length (events db), BrokenRowID = 0, Reason = []\<rparr>)"
    "map content (events db1) = map content (events db)" "chain_state db \<noteq> None \<Longrightarrow> db1 = db"
proof -
  from ensureAuditChain_inv [OF assms] obtain db1 i where e:
    "ensureAuditChain H db = Inr (db1, i, head_hash [] (events db1))"
    "chained H [] (events db1)" "ids_ok db1"
    "map content (events db1) = map content (events db)" "chain_state db \<noteq> None \<Longrightarrow> db1 = db" by metis
  have "length (events db1) = length (events db)" using e(4) by (metis length_map)
  then have "VerifyAuditChain H db = Inr (db1,
      \<lparr>OK = True, RowsChecked = length (events db), BrokenRowID = 0, Reason = []\<rparr>)"
    using e(1-3) by (simp add: VerifyAuditChain_def ensureAuditChainCommitted_def
        scan_rows_sorted verify_loop_OK)
  then show thesis by (rule that) (use e in auto)
qed

text \<open>
  C9: Whatever events are appended to a fresh database, every append succeeds, the log then
  holds exactly those events in order under the ids 1, 2, ..., and the verifier walks all of
  them and reports the chain intact.
\<close>
theorem appended_log_verifies:
  "\<exists>db db1. append_all H evs empty_log = Inr db \<and>
     map content (events db) = map content (number_rows 1 evs) \<and>
     VerifyAuditChain H db =
       Inr (db1, \<lparr>OK = True, RowsChecked = length evs, BrokenRowID = 0, Reason = []\<rparr>) \<and>
     map content (events db1) = map content (events db)"
proof -
  from append_all_inv [OF chain_inv_empty, of H evs] obtain db where 1:
    "append_all H evs empty_log = Inr db" "chain_inv H db"
    "map content (events db) = map content (number_rows 1 evs)"
    by (auto simp: empty_log_def)
  have "length (number_rows i evs) = length evs" for i by (induction evs arbitrary: i) auto
  then have "length (events db) = length evs" using 1(3) by (metis length_map)
  with 1 VerifyAuditChain_chained [OF 1(2)] show ?thesis by metis
qed

text \<open>
  A database written before the chain existed (no state row, chain columns holding
  anything) is chained on the first verification: it succeeds, checks every row, and leaves
  the content of every row as it was.
\<close>
theorem legacy_log_backfilled:
  assumes "ids_ok db" "chain_state db = None"
  shows "\<exists>db1. VerifyAuditChain H db = Inr (db1,
      \<lparr>OK = True, RowsChecked = length (events db), BrokenRowID = 0, Reason = []\<rparr>) \<and>
    map content (events db1) = map content (events db)"
proof -
  have "chain_inv H db" using assms by (simp add: chain_inv_def)
  from VerifyAuditChain_chained [OF this] show ?thesis by metis
qed

definition sample_event :: AuditEvent where
  "sample_event = \<lparr>TS = 7, EvKind = ''login'', Actor = ''bob'', AgentID = [], Payload = ''{}'',
     PrevHash = ''junk'', Hash = []\<rparr>"

definition legacy_sample :: audit_db where
  "legacy_sample = \<lparr>events = [(2, sample_event), (5, sample_event)], chain_state = None, last_seq = 5\<rparr>"

theorem legacy_log_backfilled_witness:
  "\<exists>db1. VerifyAuditChain id legacy_sample = Inr (db1,
      \<lparr>OK = True, RowsChecked = length (events legacy_sample), BrokenRowID = 0, Reason = []\<rparr>) \<and>
    map content (events db1) = map content (events legacy_sample)"
  by (rule legacy_log_backfilled) (auto simp: legacy_sample_def ids_ok_def)

text \<open>Why a row does not extend a chain whose last hash is \<open>q\<close>.\<close>

definition broken_row :: "(string \<Rightarrow> string) \<Rightarrow> string \<Rightarrow> int \<Rightarrow> AuditEvent \<Rightarrow> string \<Rightarrow> bool" where
  "broken_row H q i a reason \<longleftrightarrow>
     (if PrevHash a \<noteq> q then reason = link_reason
      else Hash a \<noteq> auditHash H q a i \<and> reason = payload_reason)"

text \<open>The loop stops at the first bad row, with the number of good rows before it.\<close>

lemma verify_loop_bad:
  assumes "\<not> OK (verify_loop H rows p n)"
  obtains xs i a ys where "rows = xs @ (i, a) # ys" "chained H p xs"
    "BrokenRowID (verify_loop H rows p n) = i" "RowsChecked (verify_loop H rows p n) = n + length xs"
    "broken_row H (head_hash p xs) i a (Reason (verify_loop H rows p n))"
  using assms
proof (induction rows arbitrary: p n thesis)
  case (Cons q rows)
  obtain i a where q: "q = (i, a)" by (cases q)
  show ?case
  proof (cases "PrevHash a = p \<and> Hash a = auditHash H p a i")
    case True
    with q have e: "verify_loop H (q # rows) p n = verify_loop H rows (Hash a) (Suc n)" by simp
    with Cons.prems(2) have bad: "\<not> OK (verify_loop H rows (Hash a) (Suc n))" by simp
    show ?thesis
    proof (rule Cons.IH [OF _ bad])
      fix xs j b ys
      assume *: "rows = xs @ (j, b) # ys" "chained H (Hash a) xs"
        "BrokenRowID (verify_loop H rows (Hash a) (Suc n)) = j"
        "RowsChecked (verify_loop H rows (Hash a) (Suc n)) = Suc n + length xs"
        "broken_row H (head_hash (Hash a) xs) j b (Reason (verify_loop H rows (Hash a) (Suc n)))"
      show thesis
        by (rule Cons.prems(1) [of "q # xs" j b ys]) (use * e q True in simp_all)
    qed
  next
    case False
    then show ?thesis
      using q by (intro Cons.prems(1) [of "[]" i a rows]) (auto simp: broken_row_def)
  qed
qed simp

text \<open>
  What the verifier's answer means, on any table whatever its state: \<open>OK\<close> exactly when the
  rows it scanned form a chain from the empty hash, and otherwise \<open>BrokenRowID\<close> is the first
  row that fails, \<open>RowsChecked\<close> the number of good rows before it, and the reason tells a
  broken link from a changed row.
\<close>
theorem VerifyAuditChain_reports_first:
  assumes "VerifyAuditChain H db = Inr (db1, r)"
  shows "if OK r then chained H [] (scan_rows db1) \<and> RowsChecked r = length (scan_rows db1)
    else \<exists>xs a ys. scan_rows db1 = xs @ (BrokenRowID r, a) # ys \<and> chained H [] xs \<and>
      RowsChecked r = length xs \<and> broken_row H (head_hash [] xs) (BrokenRowID r) a (Reason r)"
proof -
  have r: "r = verify_loop H (scan_rows db1) [] 0" using assms by (auto simp: VerifyAuditChain_def)
  show ?thesis
  proof (cases "OK r")
    case True
    with r have "chained H [] (scan_rows db1)" using OK_verify_loop by blast
    with True show ?thesis by (simp add: r verify_loop_OK)
  next
    case False
    obtain xs i a ys where "scan_rows db1 = xs @ (i, a) # ys" "chained H [] xs" "BrokenRowID r = i"
      "RowsChecked r = 0 + length xs" "broken_row H (head_hash [] xs) i a (Reason r)"
      by (rule verify_loop_bad [of H "scan_rows db1" "[]" 0, folded r, OF False])
    then show ?thesis
      using False by (simp only: if_False add_0) blast
  qed
qed

definition broken_sample :: audit_db where
  "broken_sample = \<lparr>events = [(1, sample_event)], chain_state = Some (1, []), last_seq = 1\<rparr>"

lemma broken_sample_verified: "VerifyAuditChain id broken_sample = Inr (broken_sample,
    \<lparr>OK = False, RowsChecked = 0, BrokenRowID = 1, Reason = link_reason\<rparr>)"
  by (simp add: broken_sample_def VerifyAuditChain_def ensureAuditChainCommitted_def
      ensureAuditChain_def auditChainHead_def scan_rows_def sample_event_def)

theorem VerifyAuditChain_reports_first_witness:
  "\<exists>xs a ys. scan_rows broken_sample = xs @ (1, a) # ys \<and> chained id [] xs \<and>
      0 = length xs \<and> broken_row id (head_hash [] xs) 1 a link_reason"
  using VerifyAuditChain_reports_first [OF broken_sample_verified] 
  by (simp only: AuditVerifyResult.simps if_False)

section \<open>Tampering\<close>

text \<open>
  The messages hashed along a chain, and what it takes to read one back: no NUL byte in the
  event's kind, actor and agent id (the payload may hold any byte).
\<close>

definition hashed :: "(int \<times> AuditEvent) list \<Rightarrow> string set" where
  "hashed rows = (\<lambda>(i, a). auditMessage (PrevHash a) a i) ` set rows"

definition row_nul_free :: "int \<times> AuditEvent \<Rightarrow> bool" where
  "row_nul_free r \<longleftrightarrow> NUL \<notin> set (PrevHash (snd r)) \<and> NUL \<notin> set (EvKind (snd r)) \<and>
     NUL \<notin> set (Actor (snd r)) \<and> NUL \<notin> set (AgentID (snd r))"

lemma auditMessage_inj:
  assumes "row_nul_free (i, a)" "row_nul_free (j, b)"
    and "auditMessage (PrevHash a) a i = auditMessage (PrevHash b) b j"
  shows "PrevHash a = PrevHash b \<and> content (i, a) = content (j, b)"
proof -
  note no_nul = show_int_no_nul [folded NUL_def]
  have eq: "PrevHash a = PrevHash b" "show_int (TS a) = show_int (TS b)" "EvKind a = EvKind b"
    "Actor a = Actor b" "AgentID a = AgentID b"
    "Payload a @ NUL # show_int i = Payload b @ NUL # show_int j"
    using assms by (auto simp: auditMessage_def row_nul_free_def sep_append_iff no_nul)
  from arg_cong [OF eq(6), of rev]
  have "show_int i = show_int j \<and> Payload a = Payload b"
    using sep_append_iff [of NUL "rev (show_int i)" "rev (show_int j)" "rev (Payload a)" "rev (Payload b)"]
    by (simp add: no_nul)
  with eq show ?thesis by (simp add: content_def show_int_inj)
qed

lemma chained_unique:
  assumes "chained H [] xs" "chained H [] ys" "head_hash [] xs = head_hash [] ys"
    and "inj_on H (hashed xs \<union> hashed ys)" "\<forall>m \<in> hashed xs \<union> hashed ys. H m \<noteq> []"
    and "list_all row_nul_free xs" "list_all row_nul_free ys"
  shows "xs = ys"
  using assms
proof (induction xs arbitrary: ys rule: rev_induct)
  case Nil
  show ?case
  proof (cases ys rule: rev_cases)
    case (snoc ys' r)
    with Nil show ?thesis
      by (cases r) (auto simp: chained_append auditHash_def hashed_def)
  qed simp
next
  case (snoc r xs)
  obtain i a where r: "r = (i, a)" by (cases r)
  show ?case
  proof (cases ys rule: rev_cases)
    case Nil
    with snoc.prems r show ?thesis by (auto simp: chained_append auditHash_def hashed_def)
  next
    case (snoc ys' q)
    obtain j b where q: "q = (j, b)" by (cases q)
    note p = snoc.prems [unfolded snoc r q]
    have "H (auditMessage (PrevHash a) a i) = H (auditMessage (PrevHash b) b j)"
      using p(1-3) by (simp add: chained_append auditHash_def)
    then have "auditMessage (PrevHash a) a i = auditMessage (PrevHash b) b j"
      by (rule inj_onD [OF p(4)]) (auto simp: hashed_def)
    then have same: "PrevHash a = PrevHash b" "content (i, a) = content (j, b)"
      using auditMessage_inj [of i a j b] p(6,7) by auto
    then have "Hash a = Hash b" using p(3) by simp
    with same have "(i, a) = (j, b)" by (simp add: content_def AuditEvent.equality)
    moreover have "xs = ys'"
    proof (rule snoc.IH)
      show "head_hash [] xs = head_hash [] ys'" using p(1,2) same(1) by (simp add: chained_append)
      show "inj_on H (hashed xs \<union> hashed ys')"
        by (rule inj_on_subset [OF p(4)]) (auto simp: hashed_def)
    qed (use p in \<open>auto simp: chained_append hashed_def\<close>)
    ultimately show ?thesis using snoc r q by simp
  qed
qed

text \<open>
  Tamper evidence.  Two logs that both verify and end in the same hash are the same log,
  row for row: changing, deleting, inserting or reordering any row changes the last hash.
  The hash is assumed not to collide on the messages the two logs hash, and not to be empty;
  kinds, actors and agent ids are free of NUL bytes.
\<close>
theorem head_hash_binds_log:
  assumes "VerifyAuditChain H db = Inr (db1, r)" "OK r"
    and "VerifyAuditChain H db' = Inr (db1', r')" "OK r'"
    and "head_hash [] (scan_rows db1) = head_hash [] (scan_rows db1')"
    and "inj_on H (hashed (scan_rows db1) \<union> hashed (scan_rows db1'))"
    and "\<forall>m \<in> hashed (scan_rows db1) \<union> hashed (scan_rows db1'). H m \<noteq> []"
    and "list_all row_nul_free (scan_rows db1)" "list_all row_nul_free (scan_rows db1')"
  shows "scan_rows db1 = scan_rows db1'"
proof -
  have "chained H [] (scan_rows db1)" "chained H [] (scan_rows db1')"
    using assms(1-4) OK_verify_loop by (auto simp: VerifyAuditChain_def)
  from chained_unique [OF this assms(5-9)] show ?thesis .
qed

definition hash_sample :: "string \<Rightarrow> string" where
  "hash_sample m = map (\<lambda>c. if c = NUL then CHR ''0'' else CHR ''1'') m"

definition chained_sample :: audit_db where
  "chained_sample = \<lparr>events = rechain hash_sample [] [(1, sample_event)],
     chain_state = Some (1, head_hash [] (rechain hash_sample [] [(1, sample_event)])), last_seq = 1\<rparr>"

lemma chained_sample_verified: "VerifyAuditChain hash_sample chained_sample = Inr (chained_sample,
    \<lparr>OK = True, RowsChecked = 1, BrokenRowID = 0, Reason = []\<rparr>)"
  by (simp add: chained_sample_def VerifyAuditChain_def ensureAuditChainCommitted_def
      ensureAuditChain_def auditChainHead_def scan_rows_def Let_def auditHash_def)

theorem head_hash_binds_log_witness:
  "scan_rows chained_sample = scan_rows chained_sample"
proof (rule head_hash_binds_log [OF chained_sample_verified _ chained_sample_verified])
  show "\<forall>m \<in> hashed (scan_rows chained_sample) \<union> hashed (scan_rows chained_sample). hash_sample m \<noteq> []"
    by (simp add: chained_sample_def scan_rows_def hashed_def hash_sample_def auditMessage_def
        Let_def auditChainDomain_def)
  show "inj_on hash_sample (hashed (scan_rows chained_sample) \<union> hashed (scan_rows chained_sample))"
    by (simp add: chained_sample_def scan_rows_def hashed_def Let_def)
  show "list_all row_nul_free (scan_rows chained_sample)" "list_all row_nul_free (scan_rows chained_sample)"
    by (simp_all add: chained_sample_def scan_rows_def row_nul_free_def Let_def sample_event_def NUL_def)
qed simp_all

text \<open>A table whose last rows were deleted behind the store's back.\<close>

definition truncate_log :: "nat \<Rightarrow> audit_db \<Rightarrow> audit_db" where
  "truncate_log n db = db\<lparr>events := take n (events db)\<rparr>"

lemma ids_ok_take: "ids_ok db \<Longrightarrow> ids_ok (truncate_log n db)"
  unfolding ids_ok_def truncate_log_def
  by (auto simp: take_map [symmetric] sorted_wrt_take dest: in_set_takeD)

lemma chained_take: "chained H prev xs \<Longrightarrow> chained H prev (take n xs)"
  using chained_append [of H prev "take n xs" "drop n xs"] by simp

text \<open>
  Deleting rows from the end of the log is not detected: with the memoised head still
  pointing past the last row, the verifier answers \<open>OK\<close> with fewer rows checked, because it
  never compares the last hash with \<open>audit_chain_state\<close>.
\<close>
theorem tail_truncation_undetected:
  assumes "chain_inv H db" "chain_state db \<noteq> None"
  shows "VerifyAuditChain H (truncate_log n db) = Inr (truncate_log n db,
    \<lparr>OK = True, RowsChecked = min n (length (events db)), BrokenRowID = 0, Reason = []\<rparr>)"
proof -
  obtain i h where s: "chain_state db = Some (i, h)" using assms(2) by auto
  with assms(1) have "0 < i" "chained H [] (events db)" "ids_ok db" by (auto simp: chain_inv_def)
  moreover have "scan_rows (truncate_log n db) = take n (events db)"
    using scan_rows_sorted [OF ids_ok_take [OF \<open>ids_ok db\<close>]] by (simp add: truncate_log_def)
  ultimately show ?thesis
    using s verify_loop_OK [OF chained_take]
    by (simp add: VerifyAuditChain_def ensureAuditChainCommitted_def ensureAuditChain_def
        auditChainHead_def truncate_log_def min.commute)
qed

lemma chained_sample_inv: "chain_inv hash_sample chained_sample"
  by (simp add: chain_inv_def chained_sample_def ids_ok_def Let_def auditHash_def)

theorem tail_truncation_undetected_witness:
  "VerifyAuditChain hash_sample (truncate_log 0 chained_sample) = Inr (truncate_log 0 chained_sample,
    \<lparr>OK = True, RowsChecked = 0, BrokenRowID = 0, Reason = []\<rparr>)"
  using tail_truncation_undetected [OF chained_sample_inv, of 0] by (simp add: chained_sample_def)

text \<open>
  The next append exposes a truncation: it links to the memoised head, so verification
  then fails at the appended row, which is the row reported, with the reason for a broken
  link.
\<close>
theorem append_exposes_truncation:
  assumes "chain_inv H db" "chain_state db \<noteq> None" "n < length (events db)"
    and "inj_on H (hashed (events db))" "\<forall>m \<in> hashed (events db). H m \<noteq> []"
    and "list_all row_nul_free (events db)"
  shows "\<exists>db'. AppendAuditChained H a (truncate_log n db) = Inr db' \<and>
    VerifyAuditChain H db' = Inr (db',
      \<lparr>OK = False, RowsChecked = n, BrokenRowID = last_seq db + 1, Reason = link_reason\<rparr>)"
proof -
  let ?t = "take n (events db)" and ?i = "last_seq db + 1"
  obtain i h where s: "chain_state db = Some (i, h)" using assms(2) by auto
  with assms(1) have c: "0 < i" "chained H [] (events db)" "ids_ok db" "h = head_hash [] (events db)"
    by (auto simp: chain_inv_def)
  have sub: "hashed ?t \<subseteq> hashed (events db)" by (auto simp: hashed_def dest: in_set_takeD)
  have "h \<noteq> head_hash [] ?t"
  proof
    assume "h = head_hash [] ?t"
    with c(4) have "events db = ?t"
      using chained_unique [OF c(2) chained_take [OF c(2)], of n] assms(4-6) sub
      by (auto simp: Un_absorb2 list_all_iff dest: in_set_takeD)
    then show False using assms(3) by (metis length_take less_irrefl min.absorb4)
  qed
  let ?hash = "auditHash H h a ?i"
  let ?r = "(?i, a\<lparr>PrevHash := h, Hash := ?hash\<rparr>)"
  let ?db' = "truncate_log n db\<lparr>events := ?t @ [?r], last_seq := ?i, chain_state := Some (?i, ?hash)\<rparr>"
  have new: "?i \<notin> fst ` set ?t" using c(3) by (force simp: ids_ok_def dest: in_set_takeD)
  have app: "AppendAuditChained H a (truncate_log n db) = Inr ?db'"
    using s c(1) set_chain_append [OF new, of "[]"]
    by (simp add: AppendAuditChained_def ensureAuditChain_def auditChainHead_def truncate_log_def Let_def)
  have "ids_ok ?db'"
    using ids_ok_take [OF c(3), of n]
    by (force simp: ids_ok_def truncate_log_def sorted_wrt_append)
  moreover have "0 < ?i" using c(3) by (simp add: ids_ok_def)
  ultimately have "VerifyAuditChain H ?db' = Inr (?db',
      \<lparr>OK = False, RowsChecked = n, BrokenRowID = ?i, Reason = link_reason\<rparr>)"
    using assms(3) \<open>h \<noteq> head_hash [] ?t\<close> verify_loop_append [OF chained_take [OF c(2)], of n "[?r]" 0]
    by (simp add: VerifyAuditChain_def ensureAuditChainCommitted_def ensureAuditChain_def
        auditChainHead_def scan_rows_sorted)
  with app show ?thesis by blast
qed

theorem append_exposes_truncation_witness:
  "\<exists>db'. AppendAuditChained hash_sample sample_event (truncate_log 0 chained_sample) = Inr db' \<and>
    VerifyAuditChain hash_sample db' = Inr (db',
      \<lparr>OK = False, RowsChecked = 0, BrokenRowID = last_seq chained_sample + 1, Reason = link_reason\<rparr>)"
proof (rule append_exposes_truncation [OF chained_sample_inv])
  show "\<forall>m \<in> hashed (events chained_sample). hash_sample m \<noteq> []"
    by (simp add: chained_sample_def hashed_def hash_sample_def auditMessage_def
        Let_def auditChainDomain_def)
  show "inj_on hash_sample (hashed (events chained_sample))"
    by (simp add: chained_sample_def hashed_def Let_def)
  show "list_all row_nul_free (events chained_sample)"
    by (simp add: chained_sample_def row_nul_free_def Let_def sample_event_def NUL_def)
qed (simp_all add: chained_sample_def Let_def)

text \<open>
  The fields of the hashed message are separated by NUL bytes but not escaped, so a NUL
  inside a kind or an actor moves the boundary: two different events have the same hash at
  the same place of the chain, whatever the hash function.
\<close>
theorem audit_fields_ambiguous:
  "\<exists>a b. content (i, a) \<noteq> content (i, b) \<and> auditHash H p a i = auditHash H p b i"
proof -
  let ?a = "sample_event\<lparr>EvKind := ''k'' @ [NUL] @ ''x'', Actor := ''y''\<rparr>"
  let ?b = "sample_event\<lparr>EvKind := ''k'', Actor := ''x'' @ [NUL] @ ''y''\<rparr>"
  have "content (i, ?a) \<noteq> content (i, ?b)" by (simp add: content_def)
  moreover have "auditHash H p ?a i = auditHash H p ?b i" by (simp add: auditHash_def auditMessage_def)
  ultimately show ?thesis by blast
qed

end
