(* ===== verification/Version.thy ===== *)
theory Version
  imports GoStrings
begin

text \<open>
  Version comparison, \<open>src/internal/version/version.go\<close>: \<open>Compare\<close> orders release versions
  by their numeric segments, \<open>Equal\<close> is the identity check after an update.  A segment is a
  Go \<open>int\<close>, so its value wraps at 64 bits.  The main result is that \<open>Compare\<close> is the
  three-way comparison of a total preorder, hence safe to sort and gate updates with.
\<close>

section \<open>Code\<close>

definition int64 :: "int \<Rightarrow> int" where
  "int64 i = sint (word_of_int i :: 64 word)"

definition is_digit :: "char \<Rightarrow> bool" where
  "is_digit c \<longleftrightarrow> CHR ''0'' \<le> c \<and> c \<le> CHR ''9''"

definition digit_val :: "char \<Rightarrow> int" where
  "digit_val c = int (of_char c) - 48"

text \<open>The loop over the runes of one segment: the value and the number of digits read.\<close>

fun seg_loop :: "string \<Rightarrow> int \<Rightarrow> nat \<Rightarrow> int \<times> nat" where
  "seg_loop [] n digits = (n, digits)"
| "seg_loop (r # rs) n digits =
     (if \<not> is_digit r then (n, digits)
      else seg_loop rs (int64 (n * 10 + digit_val r)) (Suc digits))"

fun norm_loop :: "string list \<Rightarrow> int list \<Rightarrow> int list" where
  "norm_loop [] out = out"
| "norm_loop (part # parts) out =
     (let (n, digits) = seg_loop part 0 0
      in if digits = 0 then out else norm_loop parts (out @ [n]))"

definition normalize_v :: "string \<Rightarrow> int list" where
  "normalize_v v = norm_loop (split_char (CHR ''.'') (trim_space (trim_prefix v ''v''))) []"

text \<open>The loops of \<open>Compare\<close>: the first segment that differs decides.\<close>

fun cmp_shared :: "int list \<Rightarrow> int list \<Rightarrow> int option" where
  "cmp_shared [] bs = None"
| "cmp_shared (a # as) [] = None"
| "cmp_shared (a # as) (b # bs) =
     (if a \<noteq> b then (if a < b then Some (- 1) else Some 1) else cmp_shared as bs)"

definition Compare :: "string \<Rightarrow> string \<Rightarrow> int" where
  "Compare a b =
     (let as = normalize_v a; bs = normalize_v b
      in if length as = length bs then
           (case cmp_shared as bs of Some c \<Rightarrow> c | None \<Rightarrow> 0)
         else
           (case cmp_shared as bs of Some c \<Rightarrow> c
            | None \<Rightarrow> if length as > length bs then 1 else - 1))"

definition IsNewer :: "string \<Rightarrow> string \<Rightarrow> bool" where
  "IsNewer a b \<longleftrightarrow> Compare a b > 0"

definition canonical :: "string \<Rightarrow> string" where
  "canonical v = trim_prefix (trim_space v) ''v''"

definition Equal :: "string \<Rightarrow> string \<Rightarrow> bool" where
  "Equal a b =
     (let ca = canonical a; cb = canonical b
      in if ca = [] \<or> cb = [] then False else ca = cb)"

section \<open>The order\<close>

text \<open>The specification: lexicographic comparison of the segment lists, a prefix being older.\<close>

fun seg_less :: "int list \<Rightarrow> int list \<Rightarrow> bool" where
  "seg_less [] bs = (bs \<noteq> [])"
| "seg_less (a # as) [] = False"
| "seg_less (a # as) (b # bs) = (a < b \<or> a = b \<and> seg_less as bs)"

lemma seg_less_irrefl: "\<not> seg_less as as"
  by (induction as) auto

lemma seg_less_trans: "seg_less as bs \<Longrightarrow> seg_less bs cs \<Longrightarrow> seg_less as cs"
proof (induction as bs arbitrary: cs rule: seg_less.induct)
  case (1 bs)
  then show ?case by (cases bs; cases cs) auto
next
  case (3 a as b bs)
  then show ?case by (cases cs) auto
qed simp

lemma seg_less_total: "seg_less as bs \<or> as = bs \<or> seg_less bs as"
proof (induction as bs rule: seg_less.induct)
  case (1 bs)
  then show ?case by (cases bs) auto
qed auto

lemma cmp_shared_cases:
  "cmp_shared as bs = Some c \<Longrightarrow>
     c = (if seg_less as bs then - 1 else 1) \<and> (seg_less as bs \<or> seg_less bs as)"
  by (induction as bs rule: cmp_shared.induct) (auto split: if_splits)

lemma cmp_shared_None:
  "cmp_shared as bs = None \<Longrightarrow>
     (seg_less as bs \<longleftrightarrow> length as < length bs) \<and> (seg_less bs as \<longleftrightarrow> length bs < length as) \<and>
     (as = bs \<longleftrightarrow> length as = length bs)"
proof (induction as bs rule: cmp_shared.induct)
  case (1 bs)
  then show ?case by (cases bs) auto
qed (auto split: if_splits)

lemma Compare_eq:
  "Compare a b =
     (if seg_less (normalize_v a) (normalize_v b) then - 1
      else if normalize_v a = normalize_v b then 0 else 1)"
proof (cases "cmp_shared (normalize_v a) (normalize_v b)")
  case None
  then show ?thesis
    using cmp_shared_None [OF None] by (auto simp: Compare_def Let_def seg_less_irrefl)
next
  case (Some c)
  from cmp_shared_cases [OF Some] Some show ?thesis
    using seg_less_irrefl seg_less_trans by (auto simp: Compare_def Let_def split: if_splits)
qed

lemma Compare_sign:
  "Compare a b < 0 \<longleftrightarrow> seg_less (normalize_v a) (normalize_v b)"
  "Compare a b > 0 \<longleftrightarrow> seg_less (normalize_v b) (normalize_v a)"
  "Compare a b = 0 \<longleftrightarrow> normalize_v a = normalize_v b"
  using seg_less_total [of "normalize_v a" "normalize_v b"] seg_less_irrefl seg_less_trans
  by (auto simp: Compare_eq)

lemma norm_loop_append: "norm_loop parts out = out @ norm_loop parts []"
proof (induction parts arbitrary: out)
  case (Cons part parts)
  show ?case
  proof (cases "seg_loop part 0 0")
    case (Pair n digits)
    then show ?thesis
      using Cons [of "out @ [n]"] Cons [of "[n]"] by (simp add: Let_def)
  qed
qed simp

text \<open>A segment of at most 18 digits does not wrap: its value is the number it writes.\<close>

fun dec_val :: "string \<Rightarrow> int \<Rightarrow> int" where
  "dec_val [] n = n"
| "dec_val (c # cs) n = dec_val cs (n * 10 + digit_val c)"

lemma int64_id: "- (2 ^ 63) \<le> i \<Longrightarrow> i < 2 ^ 63 \<Longrightarrow> int64 i = i"
  unfolding int64_def by (simp add: signed_take_bit_int_eq_self sint_sbintrunc')

lemma digit_val_range: "is_digit c \<Longrightarrow> 0 \<le> digit_val c \<and> digit_val c \<le> 9"
  by (simp add: is_digit_def digit_val_def less_eq_char_def)

lemma seg_loop_exact:
  assumes "list_all is_digit cs" "0 \<le> n" "(n + 1) * 10 ^ length cs \<le> 10 ^ 18"
  shows "seg_loop cs n d = (dec_val cs n, d + length cs)"
  using assms
proof (induction cs arbitrary: n d)
  case (Cons c cs)
  from Cons.prems(1) have c: "is_digit c" "0 \<le> digit_val c" "digit_val c \<le> 9"
    using digit_val_range by auto
  let ?n = "n * 10 + digit_val c"
  have "(?n + 1) * 10 ^ length cs \<le> (n + 1) * 10 * 10 ^ length cs"
    by (rule mult_right_mono) (use c in auto)
  moreover have "(n + 1) * 10 * 10 ^ length cs \<le> 10 ^ 18"
    using Cons.prems(3) by (simp only: length_Cons power_Suc mult.assoc)
  ultimately have b: "(?n + 1) * 10 ^ length cs \<le> 10 ^ 18" by linarith
  moreover have "?n + 1 \<le> (?n + 1) * 10 ^ length cs"
    using c Cons.prems(2) by (simp add: mult_le_cancel_left1)
  ultimately have "?n + 1 \<le> 10 ^ 18" by linarith
  then have "int64 ?n = ?n"
    using c Cons.prems(2) by (intro int64_id) auto
  with Cons.IH [of ?n "Suc d"] Cons.prems b c show ?case by simp
qed simp

text \<open>Rendered versions: decimal segments joined by dots, with or without the leading \<open>v\<close>.\<close>

definition show_version :: "nat list \<Rightarrow> string" where
  "show_version ns = join_str ''.'' (map show_nat ns)"

lemma dec_val_append: "dec_val (xs @ ys) n = dec_val ys (dec_val xs n)"
  by (induction xs arbitrary: n) auto

lemma digit_val_digit: "d < 10 \<Longrightarrow> digit_val (digit_char d) = int d"
  by (simp add: digit_val_def of_char_digit)

lemma is_digit_digit: "d < 10 \<Longrightarrow> is_digit (digit_char d)"
  by (simp add: is_digit_def less_eq_char_def of_char_digit)

lemma show_nat_is_digit: "list_all is_digit (show_nat n)"
  using show_nat_digits is_digit_digit by (fastforce simp: list_all_iff)

lemma dec_val_show_nat: "dec_val (show_nat n) 0 = int n"
proof (induct n rule: show_nat.induct)
  fix n
  assume IH: "\<not> n < 10 \<Longrightarrow> dec_val (show_nat (n div 10)) 0 = int (n div 10)"
  show "dec_val (show_nat n) 0 = int n"
  proof (cases "n < 10")
    case True
    then show ?thesis by (subst show_nat.simps) (simp add: digit_val_digit)
  next
    case False
    with IH have "dec_val (show_nat (n div 10)) 0 = int (n div 10)" by simp
    moreover have "int (n div 10) * 10 + int (n mod 10) = int n" by presburger
    ultimately show ?thesis using False
      by (subst show_nat.simps) (simp add: dec_val_append digit_val_digit)
  qed
qed

lemma length_show_nat: "n < 10 ^ k \<Longrightarrow> 0 < k \<Longrightarrow> length (show_nat n) \<le> k"
proof (induction k arbitrary: n)
  case (Suc k)
  show ?case
  proof (cases "n < 10")
    case True
    then show ?thesis by (subst show_nat.simps) simp
  next
    case False
    with Suc.prems have "k \<noteq> 0" by (cases k) auto
    moreover have "n div 10 < 10 ^ k" using Suc.prems by (simp add: less_mult_imp_div_less mult.commute)
    ultimately have "length (show_nat (n div 10)) \<le> k" using Suc.IH by simp
    with False show ?thesis by (subst show_nat.simps) simp
  qed
qed simp

lemma seg_loop_show_nat:
  assumes "n < 10 ^ 18"
  shows "seg_loop (show_nat n) 0 0 = (int n, length (show_nat n))"
proof -
  have "(10::int) ^ length (show_nat n) \<le> 10 ^ 18"
    by (rule power_increasing) (use length_show_nat [OF assms] in auto)
  then show ?thesis
    using seg_loop_exact [OF show_nat_is_digit, of 0 n 0] by (simp add: dec_val_show_nat)
qed

lemma norm_loop_show_nat:
  "list_all (\<lambda>n. n < 10 ^ 18) ns \<Longrightarrow> norm_loop (map show_nat ns) out = out @ map int ns"
  by (induction ns arbitrary: out) (auto simp: seg_loop_show_nat simp del: power_numeral)

lemma digit_is_plain: "is_digit c \<Longrightarrow> plain_char c \<and> c \<noteq> CHR ''.'' \<and> c \<noteq> CHR ''v''"
  by (auto simp: is_digit_def plain_char_def less_eq_char_def less_char_def)

lemma join_show_nat_ends:
  assumes "ns \<noteq> []"
  shows "show_version ns \<noteq> [] \<and> is_digit (hd (show_version ns)) \<and> is_digit (last (show_version ns))"
proof -
  have d: "show_nat n \<noteq> [] \<and> is_digit (hd (show_nat n)) \<and> is_digit (last (show_nat n))" for n
    using show_nat_is_digit [of n] show_nat_not_nil [of n] by (auto simp: list_all_iff)
  have "join_str s (map show_nat ns) \<noteq> [] \<and> is_digit (hd (join_str s (map show_nat ns))) \<and>
      is_digit (last (join_str s (map show_nat ns)))" for s
    using assms
  proof (induction ns)
    case (Cons n ns)
    then show ?case using d [of n] by (cases ns) auto
  qed simp
  then show ?thesis by (simp add: show_version_def)
qed

lemma normalize_show_version:
  assumes "ns \<noteq> []" "list_all (\<lambda>n. n < 10 ^ 18) ns" "pre = [] \<or> pre = ''v''"
  shows "normalize_v (pre @ show_version ns) = map int ns"
proof -
  from join_show_nat_ends [OF assms(1)] obtain c t where ct: "show_version ns = c # t" "is_digit c"
    by (cases "show_version ns") auto
  have "trim_prefix (pre @ show_version ns) ''v'' = show_version ns"
    using assms(3) ct digit_is_plain [OF ct(2)] by (auto simp: trim_prefix_def has_prefix_def)
  moreover have "trim_space (show_version ns) = show_version ns"
    using join_show_nat_ends [OF assms(1)] digit_is_plain by (intro trim_space_plain) auto
  moreover have "split_char (CHR ''.'') (show_version ns) = map show_nat ns"
    unfolding show_version_def
  proof (rule split_join_char)
    show "CHR ''.'' \<notin> set x" if "x \<in> set (map show_nat ns)" for x
      using that show_nat_is_digit digit_is_plain by (fastforce simp: list_all_iff)
  qed (use assms in simp)
  ultimately show ?thesis
    using norm_loop_show_nat [OF assms(2), of "[]"] by (simp add: normalize_v_def)
qed

section \<open>Properties\<close>

text \<open>
  \<open>Compare\<close> is the three-way comparison of a total preorder: it returns -1, 0 or 1, it is
  antisymmetric, being newer-or-equal is transitive, and 0 is returned exactly when the two
  versions have the same numeric segments.
\<close>

theorem Compare_total_preorder:
  "Compare a b \<in> {- 1, 0, 1} \<and> Compare b a = - Compare a b \<and>
   (Compare a b = 0 \<longleftrightarrow> normalize_v a = normalize_v b) \<and>
   (Compare a b \<le> 0 \<longrightarrow> Compare b c \<le> 0 \<longrightarrow> Compare a c \<le> 0)"
proof -
  have "Compare b a = - Compare a b"
    using Compare_sign [of a b] Compare_sign [of b a] by (auto simp: Compare_eq split: if_splits)
  moreover have "Compare a c \<le> 0" if "Compare a b \<le> 0" "Compare b c \<le> 0"
    using that Compare_sign(2) [of a b] Compare_sign(2) [of b c] Compare_sign(2) [of a c]
      seg_less_total seg_less_trans seg_less_irrefl by (metis linorder_not_le)
  moreover have "Compare a b \<in> {- 1, 0, 1}" by (simp add: Compare_eq)
  ultimately show ?thesis using Compare_sign(3) by blast
qed

theorem Compare_total_preorder_witness:
  "Compare ''0.9'' ''v0.10'' = - 1 \<and> Compare ''0.9'' ''0.11'' \<le> 0"
proof -
  have *: "Compare ''0.9'' ''v0.10'' = - 1" "Compare ''v0.10'' ''0.11'' = - 1" by code_simp+
  with Compare_total_preorder [of "''0.9''" "''v0.10''" "''0.11''"] show ?thesis by simp
qed

text \<open>
  Numeric segments compare numerically: for two rendered versions (any number of segments
  below \<open>10 ^ 18\<close>, each with or without a leading \<open>v\<close>) the first is older exactly when its
  segment list is lexicographically smaller, a proper prefix being older.
\<close>

theorem Compare_numeric:
  assumes "ns \<noteq> []" "ms \<noteq> []" "list_all (\<lambda>n. n < 10 ^ 18) ns" "list_all (\<lambda>n. n < 10 ^ 18) ms"
    and "pre \<in> {[], ''v''}" "pre' \<in> {[], ''v''}"
  shows "(Compare (pre @ show_version ns) (pre' @ show_version ms) = - 1) =
           seg_less (map int ns) (map int ms) \<and>
         (Compare (pre @ show_version ns) (pre' @ show_version ms) = 0) = (ns = ms)"
  using assms normalize_show_version [of ns pre] normalize_show_version [of ms pre']
  by (auto simp: Compare_eq seg_less_irrefl dest: map_injective)

theorem Compare_numeric_witness:
  "Compare ''0.9'' ''v0.10'' = - 1 \<and> Compare ''0.9'' ''v0.10'' \<noteq> 0"
proof -
  have "show_version [0, 9] = ''0.9''" "show_version [0, 10] = ''0.10''" by code_simp+
  with Compare_numeric [of "[0, 9]" "[0, 10]" "[]" "''v''"] show ?thesis by simp
qed

text \<open>
  For versions without surrounding white space, the identity check \<open>Equal\<close> is stricter
  than the ordering: versions it accepts as the same compare as equal.
\<close>

theorem Equal_imp_Compare:
  assumes "Equal a b" "trim_space a = a" "trim_space b = b"
  shows "Compare a b = 0 \<and> \<not> IsNewer a b \<and> \<not> IsNewer b a"
proof -
  have "normalize_v a = normalize_v b"
    using assms by (auto simp: Equal_def canonical_def normalize_v_def Let_def split: if_splits)
  then show ?thesis by (simp add: Compare_eq IsNewer_def seg_less_irrefl)
qed

theorem Equal_imp_Compare_witness: "Compare ''v0.9.4'' ''0.9.4'' = 0"
proof -
  have "Equal ''v0.9.4'' ''0.9.4''" "trim_space ''v0.9.4'' = ''v0.9.4''"
    "trim_space ''0.9.4'' = ''0.9.4''" by code_simp+
  from Equal_imp_Compare [OF this] show ?thesis by simp
qed

text \<open>
  With white space before the \<open>v\<close> the two disagree: \<open>Equal\<close> trims first and strips the
  \<open>v\<close> after, \<open>Compare\<close> the other way round, so it finds no numeric segment and \<open>Equal\<close>
  versions compare as strictly newer.
\<close>

theorem Equal_Compare_disagree:
  "Equal '' v1.0'' ''1.0'' \<and> Compare '' v1.0'' ''1.0'' = - 1 \<and> IsNewer ''1.0'' '' v1.0''"
  by code_simp

end
