(* ===== verification/When.thy ===== *)
theory When
  imports Version
begin

text \<open>
  Guard expressions of task steps, \<open>src/internal/agent/task/when.go\<close>: the tokenizer, the
  recursive-descent parser that evaluates as it goes, and the correctness of the two against
  the grammar of the file's header.

  Positions in the token slice are the suffixes that remain.  The parser's functions call each
  other through parentheses and loops; they carry fuel (\<open>None\<close> when it runs out), and
  \<open>Eval\<close> starts them with \<open>3 * length toks + 3\<close>, which always suffices.
\<close>

section \<open>Tokens\<close>

datatype when_error =
    UnterminatedString
  | SingleEquals
  | UnexpectedChar char
  | MissingParen
  | InNeedsList
  | UnterminatedList
  | BadListSeparator
  | UnexpectedEnd
  | UnexpectedToken string
  | UnknownIdentifier string
  | BadFilePredicate
  | TrailingTokens string
  | NotBoolean

text \<open>A token's \<open>typ\<close>, with the \<open>val\<close> of literals and the \<open>text\<close> where it varies.\<close>

datatype token =
    TkString string string
  | TkNumber int string
  | TkIdent string
  | TkOp string
  | TkIn | TkNot | TkAnd | TkOr
  | TkLParen | TkRParen | TkLBracket | TkRBracket | TkComma
  | TkTrue | TkFalse

fun tok_text :: "token \<Rightarrow> string" where
  "tok_text (TkString v raw) = raw"
| "tok_text (TkNumber n ds) = ds"
| "tok_text (TkIdent w) = w"
| "tok_text (TkOp s) = s"
| "tok_text TkIn = ''in''"
| "tok_text TkNot = ''!''"
| "tok_text TkAnd = ''and''"
| "tok_text TkOr = ''or''"
| "tok_text TkLParen = ''(''"
| "tok_text TkRParen = '')''"
| "tok_text TkLBracket = ''[''"
| "tok_text TkRBracket = '']''"
| "tok_text TkComma = '',''"
| "tok_text TkTrue = ''true''"
| "tok_text TkFalse = ''false''"

definition isIdentStart :: "char \<Rightarrow> bool" where
  "isIdentStart c \<longleftrightarrow> c = CHR ''_'' \<or> (CHR ''a'' \<le> c \<and> c \<le> CHR ''z'') \<or> (CHR ''A'' \<le> c \<and> c \<le> CHR ''Z'')"

definition isIdentPart :: "char \<Rightarrow> bool" where
  "isIdentPart c \<longleftrightarrow> isIdentStart c \<or> is_digit c \<or> c = CHR ''.''"

definition backslash :: char where
  "backslash = CHR 0x5C"

fun unescape :: "string \<Rightarrow> string" where
  "unescape [] = []"
| "unescape (c # cs) =
     (if c = backslash then (case cs of [] \<Rightarrow> [c] | d # ds \<Rightarrow> d # unescape ds) else c # unescape cs)"

text \<open>The scan for the closing quote: the raw text and what follows the quote.\<close>

fun scan_string :: "char \<Rightarrow> string \<Rightarrow> (string \<times> string) option" where
  "scan_string q [] = None"
| "scan_string q (c # cs) =
     (if c = q then Some ([], cs)
      else if c = backslash then
        (case cs of
           [] \<Rightarrow> None
         | d # ds \<Rightarrow> map_option (\<lambda>(raw, r). (c # d # raw, r)) (scan_string q ds))
      else map_option (\<lambda>(raw, r). (c # raw, r)) (scan_string q cs))"

text \<open>\<open>strconv.ParseInt\<close> with its error dropped: out of range gives the largest value.\<close>

definition parse_int64 :: "string \<Rightarrow> int" where
  "parse_int64 ds = min (dec_val ds 0) (2 ^ 63 - 1)"

definition word_token :: "string \<Rightarrow> token" where
  "word_token w =
     (if w = ''and'' then TkAnd else if w = ''or'' then TkOr else if w = ''in'' then TkIn
      else if w = ''true'' then TkTrue else if w = ''false'' then TkFalse else TkIdent w)"

definition add_token :: "token \<Rightarrow> when_error + token list \<Rightarrow> when_error + token list" where
  "add_token t r = map_sum id ((#) t) r"

lemma scan_string_shorter: "scan_string q s = Some (raw, r) \<Longrightarrow> length r < length s"
  by (induction q s arbitrary: raw rule: scan_string.induct)
    (auto split: if_splits list.splits intro: less_SucI)

function tokenize :: "string \<Rightarrow> when_error + token list" where
  "tokenize [] = Inr []"
| "tokenize (c # cs) =
     (if c = CHR '' '' \<or> c = CHR 0x09 then tokenize cs
      else if c = CHR 0x27 \<or> c = CHR 0x22 then
        (case scan_string c cs of
           None \<Rightarrow> Inl UnterminatedString
         | Some (raw, r) \<Rightarrow> add_token (TkString (unescape raw) raw) (tokenize r))
      else if c = CHR ''('' then add_token TkLParen (tokenize cs)
      else if c = CHR '')'' then add_token TkRParen (tokenize cs)
      else if c = CHR ''['' then add_token TkLBracket (tokenize cs)
      else if c = CHR '']'' then add_token TkRBracket (tokenize cs)
      else if c = CHR '','' then add_token TkComma (tokenize cs)
      else if c = CHR ''!'' then
        (if cs \<noteq> [] \<and> hd cs = CHR ''='' then add_token (TkOp ''!='') (tokenize (tl cs))
         else add_token TkNot (tokenize cs))
      else if c = CHR ''='' then
        (if cs \<noteq> [] \<and> hd cs = CHR ''='' then add_token (TkOp ''=='') (tokenize (tl cs))
         else Inl SingleEquals)
      else if is_digit c then
        add_token (TkNumber (parse_int64 (c # takeWhile is_digit cs)) (c # takeWhile is_digit cs))
          (tokenize (dropWhile is_digit cs))
      else if isIdentStart c then
        add_token (word_token (c # takeWhile isIdentPart cs)) (tokenize (dropWhile isIdentPart cs))
      else Inl (UnexpectedChar c))"
  by pat_completeness auto
termination
  by (relation "measure length")
    (auto simp: le_imp_less_Suc length_dropWhile_le dest: scan_string_shorter)

section \<open>Values\<close>

datatype wval = VStr string | VInt int | VBool bool

definition asBool :: "wval \<Rightarrow> bool" where
  "asBool v =
     (case v of VBool b \<Rightarrow> b
      | VStr s \<Rightarrow> s = ''true'' \<or> s = ''1'' \<or> s = ''yes''
      | VInt n \<Rightarrow> n \<noteq> 0)"

text \<open>\<open>fmt.Sprintf("%v", x)\<close>.\<close>

fun show_val :: "wval \<Rightarrow> string" where
  "show_val (VStr s) = s"
| "show_val (VInt n) = show_int n"
| "show_val (VBool b) = (if b then ''true'' else ''false'')"

definition equals :: "wval \<Rightarrow> wval \<Rightarrow> bool" where
  "equals a b \<longleftrightarrow> show_val a = show_val b"

definition compare_op :: "string \<Rightarrow> wval \<Rightarrow> wval \<Rightarrow> bool" where
  "compare_op opr a b = (if opr = ''=='' then equals a b else if opr = ''!='' then \<not> equals a b else False)"

section \<open>Operands and comparisons\<close>

text \<open>The facts, and the file-existence predicate.\<close>

type_synonym env = "(string \<rightharpoonup> string) \<times> (string \<Rightarrow> bool)"

type_synonym 'a pres = "when_error + 'a \<times> token list"

definition parseFilePredicateFrom :: "env \<Rightarrow> string \<Rightarrow> token list \<Rightarrow> wval pres" where
  "parseFilePredicateFrom e lead toks =
     (if lead \<noteq> ''file.exists'' then Inl BadFilePredicate
      else case toks of
        TkLParen # TkString path raw # TkRParen # r \<Rightarrow> Inr (VBool (snd e path), r)
      | _ \<Rightarrow> Inl BadFilePredicate)"

fun parseOperand :: "env \<Rightarrow> token list \<Rightarrow> wval pres" where
  "parseOperand e [] = Inl UnexpectedEnd"
| "parseOperand e (TkString v raw # r) = Inr (VStr v, r)"
| "parseOperand e (TkNumber n ds # r) = Inr (VInt n, r)"
| "parseOperand e (TkTrue # r) = Inr (VBool True, r)"
| "parseOperand e (TkFalse # r) = Inr (VBool False, r)"
| "parseOperand e (TkIdent w # r) =
     (if has_prefix w ''file.'' then parseFilePredicateFrom e w r
      else case fst e w of
        Some v \<Rightarrow> Inr (VStr v, r)
      | None \<Rightarrow> Inl (UnknownIdentifier w))"
| "parseOperand e (t # r) = Inl (UnexpectedToken (tok_text t))"

lemma parseFilePredicateFrom_shorter:
  "parseFilePredicateFrom e w toks = Inr (v, r) \<Longrightarrow> length r < length toks"
  by (auto simp: parseFilePredicateFrom_def split: if_splits list.splits token.splits)

lemma parseOperand_shorter: "parseOperand e toks = Inr (v, r) \<Longrightarrow> length r < length toks"
  by (cases "(e, toks)" rule: parseOperand.cases)
    (auto split: if_splits option.splits dest: parseFilePredicateFrom_shorter)

text \<open>The token at the position, if any.\<close>

definition peek :: "token list \<Rightarrow> token option" where
  "peek toks = (case toks of [] \<Rightarrow> None | t # r \<Rightarrow> Some t)"

lemma peek_simps [simp]: "peek [] = None" "peek (t # r) = Some t"
  by (simp_all add: peek_def)

lemma peek_Some_iff: "peek toks = Some t \<longleftrightarrow> (\<exists>r. toks = t # r)"
  by (cases toks) auto

text \<open>The loop over the elements of a list literal, after its opening bracket.\<close>

function list_loop :: "env \<Rightarrow> token list \<Rightarrow> wval list \<Rightarrow> wval list pres" where
  "list_loop e toks items =
     (if peek toks = None then Inl UnterminatedList
      else if peek toks = Some TkRBracket then Inr (items, tl toks)
      else case parseOperand e toks of
        Inl err \<Rightarrow> Inl err
      | Inr (v, r) \<Rightarrow>
          if peek r = None then Inl UnterminatedList
          else if peek r = Some TkComma then list_loop e (tl r) (items @ [v])
          else if peek r = Some TkRBracket then Inr (items @ [v], tl r)
          else Inl BadListSeparator)"
  by pat_completeness auto
termination
  by (relation "measure (\<lambda>(e, toks, items). length toks)")
    (auto simp: peek_Some_iff dest!: parseOperand_shorter)

declare list_loop.simps [simp del]

definition parseComparison :: "env \<Rightarrow> token list \<Rightarrow> wval pres" where
  "parseComparison e toks =
     (case parseOperand e toks of
        Inl err \<Rightarrow> Inl err
      | Inr (left, r) \<Rightarrow>
          (case peek r of
             Some (TkOp opr) \<Rightarrow>
               (case parseOperand e (tl r) of
                  Inl err \<Rightarrow> Inl err
                | Inr (right, r2) \<Rightarrow> Inr (VBool (compare_op opr left right), r2))
           | Some TkIn \<Rightarrow>
               if peek (tl r) \<noteq> Some TkLBracket then Inl InNeedsList
               else (case list_loop e (tl (tl r)) [] of
                  Inl err \<Rightarrow> Inl err
                | Inr (items, r2) \<Rightarrow> Inr (VBool (list_ex (equals left) items), r2))
           | _ \<Rightarrow> Inr (left, r)))"

section \<open>The parser\<close>

text \<open>Sequencing: out of fuel and errors stop.\<close>

definition pbind ::
  "wval pres option \<Rightarrow> (wval \<Rightarrow> token list \<Rightarrow> wval pres option) \<Rightarrow> wval pres option" where
  "pbind m f =
     (case m of None \<Rightarrow> None | Some (Inl err) \<Rightarrow> Some (Inl err) | Some (Inr (v, r)) \<Rightarrow> f v r)"

text \<open>
  \<open>OrLoop left\<close> and \<open>AndLoop left\<close> are the loops of \<open>parseOr\<close> and \<open>parseAnd\<close> at their head,
  \<open>left\<close> the value so far.
\<close>

datatype nonterm = OrExpr | OrLoop wval | AndExpr | AndLoop wval | Unary

primrec parse :: "nat \<Rightarrow> env \<Rightarrow> nonterm \<Rightarrow> token list \<Rightarrow> wval pres option" where
  "parse 0 e nt toks = None"
| "parse (Suc n) e nt toks =
     (case nt of
        OrExpr \<Rightarrow> pbind (parse n e AndExpr toks) (\<lambda>left. parse n e (OrLoop left))
      | OrLoop left \<Rightarrow>
          (if peek toks \<noteq> Some TkOr then Some (Inr (left, toks))
           else pbind (parse n e AndExpr (tl toks))
             (\<lambda>right. parse n e (OrLoop (VBool (asBool left \<or> asBool right)))))
      | AndExpr \<Rightarrow> pbind (parse n e Unary toks) (\<lambda>left. parse n e (AndLoop left))
      | AndLoop left \<Rightarrow>
          (if peek toks \<noteq> Some TkAnd then Some (Inr (left, toks))
           else pbind (parse n e Unary (tl toks))
             (\<lambda>right. parse n e (AndLoop (VBool (asBool left \<and> asBool right)))))
      | Unary \<Rightarrow>
          (if toks = [] then Some (Inr (VBool False, []))
           else if peek toks = Some TkNot then
             pbind (parse n e Unary (tl toks)) (\<lambda>v r. Some (Inr (VBool (\<not> asBool v), r)))
           else if peek toks = Some TkLParen then
             pbind (parse n e OrExpr (tl toks))
               (\<lambda>v r. Some (if peek r \<noteq> Some TkRParen then Inl MissingParen else Inr (v, tl r)))
           else Some (parseComparison e toks)))"

definition parse_fuel :: "token list \<Rightarrow> nat" where
  "parse_fuel toks = 3 * length toks + 3"

definition Eval :: "env \<Rightarrow> string \<Rightarrow> (when_error + bool) option" where
  "Eval e expr =
     (if trim_space expr = [] then Some (Inr True)
      else case tokenize expr of
        Inl err \<Rightarrow> Some (Inl err)
      | Inr toks \<Rightarrow>
          (case parse (parse_fuel toks) e OrExpr toks of
             None \<Rightarrow> None
           | Some (Inl err) \<Rightarrow> Some (Inl err)
           | Some (Inr (v, t # r)) \<Rightarrow> Some (Inl (TrailingTokens (tok_text t)))
           | Some (Inr (VBool b, [])) \<Rightarrow> Some (Inr b)
           | Some (Inr (v, [])) \<Rightarrow> Some (Inl NotBoolean)))"

section \<open>Enough fuel\<close>

text \<open>The fuel a nonterminal needs on \<open>k\<close> tokens.\<close>

fun needed :: "nonterm \<Rightarrow> nat \<Rightarrow> nat" where
  "needed OrExpr k = 3 * k + 3"
| "needed (OrLoop v) k = 3 * k + 2"
| "needed AndExpr k = 3 * k + 2"
| "needed (AndLoop v) k = 3 * k + 1"
| "needed Unary k = 3 * k + 1"

text \<open>A call returns, and leaves at most \<open>k\<close> tokens.\<close>

definition returns_within :: "wval pres option \<Rightarrow> nat \<Rightarrow> bool" where
  "returns_within m k \<longleftrightarrow> (\<exists>x. m = Some x \<and> (\<forall>v r. x = Inr (v, r) \<longrightarrow> length r \<le> k))"

lemma returns_within_Some [simp]:
  "returns_within (Some (Inr (v, r))) k \<longleftrightarrow> length r \<le> k" "returns_within (Some (Inl err)) k"
  by (auto simp: returns_within_def)

lemma returns_within_pbind:
  assumes "returns_within m k" "\<And>v r. length r \<le> k \<Longrightarrow> returns_within (f v r) k'"
  shows "returns_within (pbind m f) k'"
  using assms by (auto simp: returns_within_def pbind_def split: sum.splits)

lemma list_loop_shorter: "list_loop e toks items = Inr (vs, r) \<Longrightarrow> length r < length toks"
proof (induction e toks items rule: list_loop.induct)
  case (1 e toks items)
  show ?case
  proof (cases "toks = [] \<or> peek toks = Some TkRBracket")
    case True
    with "1.prems" show ?thesis by (subst (asm) list_loop.simps) (auto simp: peek_Some_iff)
  next
    case False
    then obtain t0 ts where toks: "toks = t0 # ts" by (cases toks) auto
    from False obtain v r1 where v: "parseOperand e toks = Inr (v, r1)"
      using "1.prems" by (subst (asm) list_loop.simps) (auto simp: peek_Some_iff split: sum.splits if_splits)
    note shorter = parseOperand_shorter [OF v]
    show ?thesis
    proof (cases "peek r1 = Some TkComma")
      case True
      then have "list_loop e (tl r1) (items @ [v]) = Inr (vs, r)"
        using "1.prems" False v by (subst (asm) list_loop.simps) (auto simp: peek_def split: list.splits)
      from "1.IH" [OF _ _ v refl _ True this] False True shorter toks show ?thesis
        by (auto simp: peek_Some_iff)
    next
      case nocomma: False
      with "1.prems" False v shorter show ?thesis
        by (subst (asm) list_loop.simps) (auto simp: peek_Some_iff split: if_splits)
    qed
  qed
qed

lemma parseComparison_within: "returns_within (Some (parseComparison e toks)) (length toks)"
proof (cases "parseOperand e toks")
  case (Inl err)
  then show ?thesis by (simp add: parseComparison_def)
next
  case (Inr x)
  then obtain left r where x: "parseOperand e toks = Inr (left, r)" by (cases x) auto
  note le = parseOperand_shorter [OF x]
  show ?thesis
  proof (cases r)
    case Nil
    with x show ?thesis by (simp add: parseComparison_def)
  next
    case (Cons t r1)
    have "length r3 < length r1" if "parseOperand e r1 = Inr (v, r3)" for v r3
      using parseOperand_shorter [OF that] .
    moreover have "length r3 < length r1 - 1" if "list_loop e (tl r1) [] = Inr (vs, r3)" for vs r3
      using list_loop_shorter [OF that] by simp
    ultimately show ?thesis
      using x le Cons
      by (cases t) (fastforce simp: parseComparison_def returns_within_def split: sum.splits if_splits)+
  qed
qed

lemma parse_returns:
  "needed nt (length toks) \<le> n \<Longrightarrow> returns_within (parse n e nt toks) (length toks)"
proof (induction n arbitrary: nt toks)
  case 0
  then show ?case by (cases nt) auto
next
  case (Suc n)
  have rest: "returns_within (parse n e nt' r) k"
    if "needed nt' (length r) \<le> n" "length r \<le> k" for nt' r k
    using Suc.IH [OF that(1)] that(2) by (auto simp: returns_within_def)
  show ?case
  proof (cases nt)
    case OrExpr
    with Suc.prems show ?thesis
      by (auto intro!: returns_within_pbind [OF rest] rest)
  next
    case (OrLoop v)
    with Suc.prems show ?thesis
      by (cases toks) (auto intro!: returns_within_pbind [OF Suc.IH] rest)
  next
    case AndExpr
    with Suc.prems show ?thesis
      by (auto intro!: returns_within_pbind [OF rest] rest)
  next
    case (AndLoop v)
    with Suc.prems show ?thesis
      by (cases toks) (auto intro!: returns_within_pbind [OF Suc.IH] rest)
  next
    case Unary
    with Suc.prems show ?thesis
      using parseComparison_within [of e toks]
      by (cases toks) (auto intro!: returns_within_pbind [OF Suc.IH])
  qed
qed


lemma pbind_mono: "(\<And>x. m = Some x \<Longrightarrow> m' = Some x) \<Longrightarrow> (\<And>v r x. f v r = Some x \<Longrightarrow> f' v r = Some x) \<Longrightarrow>
    pbind m f = Some x \<Longrightarrow> pbind m' f' = Some x"
  by (auto simp: pbind_def split: option.splits sum.splits)

lemma parse_Suc: "parse n e nt toks = Some x \<Longrightarrow> parse (Suc n) e nt toks = Some x"
proof (induction n arbitrary: nt toks x)
  case (Suc n)
  have step: "pbind (parse n e nt1 t1) f = Some x \<Longrightarrow> (\<And>v r x. f v r = Some x \<Longrightarrow> f' v r = Some x) \<Longrightarrow>
      pbind (parse (Suc n) e nt1 t1) f' = Some x" for nt1 t1 f f' x
    by (rule pbind_mono [OF Suc.IH])
  from Suc.prems show ?case
    unfolding parse.simps(2) [of "Suc n"] unfolding parse.simps(2) [of n e nt toks]
    by (auto split: nonterm.splits if_splits elim!: step simp del: parse.simps intro: Suc.IH)
qed simp

lemma parse_mono: "parse n e nt toks = Some x \<Longrightarrow> n \<le> m \<Longrightarrow> parse m e nt toks = Some x"
  by (induction m) (auto simp: le_Suc_eq simp del: parse.simps intro: parse_Suc)

section \<open>The parser without fuel\<close>

definition run :: "env \<Rightarrow> nonterm \<Rightarrow> token list \<Rightarrow> wval pres" where
  "run e nt toks = the (parse (needed nt (length toks)) e nt toks)"

lemma parse_run:
  assumes "needed nt (length toks) \<le> n"
  shows "parse n e nt toks = Some (run e nt toks)"
proof -
  obtain x where "parse (needed nt (length toks)) e nt toks = Some x"
    using parse_returns [of nt toks _ e, OF order_refl] by (auto simp: returns_within_def)
  with parse_mono [OF this assms] show ?thesis by (simp add: run_def)
qed

lemma run_shorter: "run e nt toks = Inr (v, r) \<Longrightarrow> length r \<le> length toks"
  using parse_returns [of nt toks _ e, OF order_refl] parse_run [of nt toks _ e, OF order_refl]
  by (auto simp: returns_within_def)

abbreviation rbind :: "wval pres \<Rightarrow> (wval \<Rightarrow> token list \<Rightarrow> wval pres) \<Rightarrow> wval pres" where
  "rbind m f \<equiv> bind_res m (\<lambda>(v, r). f v r)"

lemma pbind_rbind:
  assumes "\<And>v r. m = Inr (v, r) \<Longrightarrow> f v r = Some (g v r)"
  shows "pbind (Some m) f = Some (rbind m g)"
  using assms by (cases m) (auto simp: pbind_def)

text \<open>The recursive equations of the five functions.\<close>

definition enough :: "nat \<Rightarrow> token list \<Rightarrow> bool" where
  "enough N toks \<longleftrightarrow> 3 * length toks + 3 \<le> N"

lemma parse_enough:
  assumes "enough N toks" "length r \<le> length toks"
  shows "parse N e nt r = Some (run e nt r)"
  by (rule parse_run) (use assms in \<open>cases nt, auto simp: enough_def\<close>)

lemma run_unfold:
  assumes "enough N toks"
  shows "Some (run e nt toks) = parse (Suc N) e nt toks"
  by (rule parse_run [symmetric]) (use assms in \<open>cases nt, auto simp: enough_def\<close>)

lemma ex_enough: obtains N where "enough N toks"
  unfolding enough_def by blast

lemma run_seq:
  assumes "enough N toks" "length r \<le> length toks"
  shows "pbind (parse N e nt r) (\<lambda>v. parse N e (k v)) = Some (rbind (run e nt r) (\<lambda>v. run e (k v)))"
proof -
  have "parse N e (k v) r' = Some (run e (k v) r')" if "run e nt r = Inr (v, r')" for v r'
    using parse_enough [OF assms(1)] run_shorter [OF that] assms(2) by simp
  then show ?thesis using parse_enough [OF assms] pbind_rbind by simp
qed

lemma run_OrExpr: "run e OrExpr toks = rbind (run e AndExpr toks) (\<lambda>v. run e (OrLoop v))"
proof -
  obtain N where N: "enough N toks" by (rule ex_enough)
  show ?thesis using run_unfold [OF N, of e OrExpr] run_seq [OF N] by simp
qed

lemma run_AndExpr: "run e AndExpr toks = rbind (run e Unary toks) (\<lambda>v. run e (AndLoop v))"
proof -
  obtain N where N: "enough N toks" by (rule ex_enough)
  show ?thesis using run_unfold [OF N, of e AndExpr] run_seq [OF N] by simp
qed

lemma run_OrLoop:
  "run e (OrLoop l) toks =
     (if peek toks \<noteq> Some TkOr then Inr (l, toks)
      else rbind (run e AndExpr (tl toks)) (\<lambda>v. run e (OrLoop (VBool (asBool l \<or> asBool v)))))"
proof -
  obtain N where N: "enough N toks" by (rule ex_enough)
  show ?thesis using run_unfold [OF N, of e "OrLoop l"] run_seq [OF N, of "tl toks"] by (simp split: if_splits)
qed

lemma run_AndLoop:
  "run e (AndLoop l) toks =
     (if peek toks \<noteq> Some TkAnd then Inr (l, toks)
      else rbind (run e Unary (tl toks)) (\<lambda>v. run e (AndLoop (VBool (asBool l \<and> asBool v)))))"
proof -
  obtain N where N: "enough N toks" by (rule ex_enough)
  show ?thesis using run_unfold [OF N, of e "AndLoop l"] run_seq [OF N, of "tl toks"] by (simp split: if_splits)
qed

lemma run_Unary:
  "run e Unary toks =
     (if toks = [] then Inr (VBool False, [])
      else if peek toks = Some TkNot then
        rbind (run e Unary (tl toks)) (\<lambda>v r. Inr (VBool (\<not> asBool v), r))
      else if peek toks = Some TkLParen then
        rbind (run e OrExpr (tl toks)) (\<lambda>v r. if peek r \<noteq> Some TkRParen then Inl MissingParen else Inr (v, tl r))
      else parseComparison e toks)"
proof -
  obtain N where N: "enough N toks" by (rule ex_enough)
  have p: "parse N e nt (tl toks) = Some (run e nt (tl toks))" for nt
    by (rule parse_enough [OF N]) simp
  have ret: "pbind (Some m) (\<lambda>v r. Some (g v r)) = Some (rbind m g)" for m g
    by (rule pbind_rbind) simp
  show ?thesis
    using run_unfold [OF N, of e Unary] by (simp add: p ret split: if_splits)
qed

lemma Eval_run:
  "Eval e expr = Some
     (if trim_space expr = [] then Inr True
      else bind_res (tokenize expr) (\<lambda>toks. bind_res (run e OrExpr toks) (\<lambda>(v, r).
        if r \<noteq> [] then Inl (TrailingTokens (tok_text (hd r)))
        else case v of VBool b \<Rightarrow> Inr b | _ \<Rightarrow> Inl NotBoolean)))"
proof -
  have "parse (parse_fuel toks) e OrExpr toks = Some (run e OrExpr toks)" for toks
    by (rule parse_run) (simp add: parse_fuel_def)
  then show ?thesis
    by (auto simp: Eval_def bind_res_def split: sum.splits list.splits wval.splits)
qed

text \<open>
  C30: Evaluating a guard always returns: whatever the text, the facts and the file system,
  the fuel \<open>Eval\<close> gives the parser suffices, so there is a Boolean or an error.
\<close>
theorem Eval_returns: "\<exists>r. Eval e expr = Some r"
  by (simp add: Eval_run)

section \<open>The grammar\<close>

text \<open>Expressions of the grammar in the header of the file, and what they mean.\<close>

datatype operand = OStr string | OInt int | OBool bool | OFact string | OExists string

datatype wexpr =
    WOperand operand
  | WCompare bool operand operand
  | WIn operand "operand list"
  | WNot wexpr
  | WAnd wexpr wexpr
  | WOr wexpr wexpr

fun sem_operand :: "env \<Rightarrow> operand \<Rightarrow> when_error + wval" where
  "sem_operand e (OStr s) = Inr (VStr s)"
| "sem_operand e (OInt n) = Inr (VInt n)"
| "sem_operand e (OBool b) = Inr (VBool b)"
| "sem_operand e (OFact w) = (case fst e w of None \<Rightarrow> Inl (UnknownIdentifier w) | Some v \<Rightarrow> Inr (VStr v))"
| "sem_operand e (OExists p) = Inr (VBool (snd e p))"

fun sem_operands :: "env \<Rightarrow> operand list \<Rightarrow> when_error + wval list" where
  "sem_operands e [] = Inr []"
| "sem_operands e (x # xs) =
     bind_res (sem_operand e x) (\<lambda>v. bind_res (sem_operands e xs) (\<lambda>vs. Inr (v # vs)))"

fun sem :: "env \<Rightarrow> wexpr \<Rightarrow> when_error + wval" where
  "sem e (WOperand x) = sem_operand e x"
| "sem e (WCompare eq x y) =
     bind_res (sem_operand e x) (\<lambda>a. bind_res (sem_operand e y) (\<lambda>b.
       Inr (VBool (show_val a = show_val b \<longleftrightarrow> eq))))"
| "sem e (WIn x ys) =
     bind_res (sem_operand e x) (\<lambda>a. bind_res (sem_operands e ys) (\<lambda>bs.
       Inr (VBool (\<exists>b \<in> set bs. show_val a = show_val b))))"
| "sem e (WNot x) = bind_res (sem e x) (\<lambda>a. Inr (VBool (\<not> asBool a)))"
| "sem e (WAnd x y) = bind_res (sem e x) (\<lambda>a. bind_res (sem e y) (\<lambda>b. Inr (VBool (asBool a \<and> asBool b))))"
| "sem e (WOr x y) = bind_res (sem e x) (\<lambda>a. bind_res (sem e y) (\<lambda>b. Inr (VBool (asBool a \<or> asBool b))))"

text \<open>The tokens of an expression: level 0 for \<open>or\<close>, 1 for \<open>and\<close>, 2 for a unary.\<close>

fun escape :: "string \<Rightarrow> string" where
  "escape [] = []"
| "escape (c # cs) = (if c = backslash \<or> c = CHR 0x27 then backslash # c # escape cs else c # escape cs)"

fun operand_tokens :: "operand \<Rightarrow> token list" where
  "operand_tokens (OStr s) = [TkString s (escape s)]"
| "operand_tokens (OInt n) = [TkNumber n (show_nat (nat n))]"
| "operand_tokens (OBool b) = [if b then TkTrue else TkFalse]"
| "operand_tokens (OFact w) = [TkIdent w]"
| "operand_tokens (OExists p) = [TkIdent ''file.exists'', TkLParen, TkString p (escape p), TkRParen]"

fun list_tokens :: "operand list \<Rightarrow> token list" where
  "list_tokens [] = [TkRBracket]"
| "list_tokens [x] = operand_tokens x @ [TkRBracket]"
| "list_tokens (x # y # ys) = operand_tokens x @ TkComma # list_tokens (y # ys)"

definition paren :: "bool \<Rightarrow> token list \<Rightarrow> token list" where
  "paren b ts = (if b then TkLParen # ts @ [TkRParen] else ts)"

fun tokens_at :: "nat \<Rightarrow> wexpr \<Rightarrow> token list" where
  "tokens_at l (WOperand x) = operand_tokens x"
| "tokens_at l (WCompare eq x y) =
     operand_tokens x @ TkOp (if eq then ''=='' else ''!='') # operand_tokens y"
| "tokens_at l (WIn x ys) = operand_tokens x @ TkIn # TkLBracket # list_tokens ys"
| "tokens_at l (WNot x) = TkNot # tokens_at 2 x"
| "tokens_at l (WAnd x y) = paren (l > 1) (tokens_at 1 x @ TkAnd # tokens_at 2 y)"
| "tokens_at l (WOr x y) = paren (l > 0) (tokens_at 0 x @ TkOr # tokens_at 1 y)"

fun wf_operand :: "operand \<Rightarrow> bool" where
  "wf_operand (OInt n) \<longleftrightarrow> 0 \<le> n \<and> n < 2 ^ 63"
| "wf_operand (OFact w) \<longleftrightarrow> w \<noteq> [] \<and> isIdentStart (hd w) \<and> list_all isIdentPart w \<and>
     w \<notin> {''and'', ''or'', ''in'', ''true'', ''false''} \<and> \<not> has_prefix w ''file.''"
| "wf_operand _ \<longleftrightarrow> True"

fun wf_expr :: "wexpr \<Rightarrow> bool" where
  "wf_expr (WOperand x) \<longleftrightarrow> wf_operand x"
| "wf_expr (WCompare eq x y) \<longleftrightarrow> wf_operand x \<and> wf_operand y"
| "wf_expr (WIn x ys) \<longleftrightarrow> wf_operand x \<and> list_all wf_operand ys"
| "wf_expr (WNot x) \<longleftrightarrow> wf_expr x"
| "wf_expr (WAnd x y) \<longleftrightarrow> wf_expr x \<and> wf_expr y"
| "wf_expr (WOr x y) \<longleftrightarrow> wf_expr x \<and> wf_expr y"

section \<open>The parser follows the grammar\<close>

text \<open>A result followed by the tokens that remain.\<close>

abbreviation leaves :: "when_error + 'a \<Rightarrow> token list \<Rightarrow> 'a pres" where
  "leaves m r \<equiv> bind_res m (\<lambda>v. Inr (v, r))"

lemma parseOperand_tokens:
  "wf_operand x \<Longrightarrow> parseOperand e (operand_tokens x @ r) = leaves (sem_operand e x) r"
  by (cases x) (auto simp: parseFilePredicateFrom_def has_prefix_def split: option.splits)

lemma operand_tokens_hd:
  "\<exists>t ts. operand_tokens x = t # ts \<and> t \<noteq> TkNot \<and> t \<noteq> TkLParen \<and> t \<noteq> TkRBracket"
  by (cases x) auto

lemma list_loop_tokens:
  "list_all wf_operand xs \<Longrightarrow> list_loop e (list_tokens xs @ r) acc =
     leaves (bind_res (sem_operands e xs) (\<lambda>vs. Inr (acc @ vs))) r"
proof (induction xs arbitrary: acc rule: list_tokens.induct)
  case 1
  then show ?case by (subst list_loop.simps) simp
next
  case (2 x)
  from operand_tokens_hd [of x] obtain t ts where "operand_tokens x = t # ts" "t \<noteq> TkRBracket" by auto
  then show ?case
    using 2 parseOperand_tokens [of x e "TkRBracket # r"]
    by (subst list_loop.simps) (cases "sem_operand e x"; simp)
next
  case (3 x y ys)
  from operand_tokens_hd [of x] obtain t ts where "operand_tokens x = t # ts" "t \<noteq> TkRBracket" by auto
  then show ?case
    using 3 parseOperand_tokens [of x e "TkComma # list_tokens (y # ys) @ r"]
    by (subst list_loop.simps) (cases "sem_operand e x"; simp add: bind_res_def split: sum.splits)
qed

text \<open>What may follow an operand, and an operand of \<open>and\<close>.\<close>

definition ends_operand :: "token list \<Rightarrow> bool" where
  "ends_operand r \<longleftrightarrow> (\<forall>opr. peek r \<noteq> Some (TkOp opr)) \<and> peek r \<noteq> Some TkIn"

lemma ends_operand_simps [simp]:
  "ends_operand []" "ends_operand (TkOr # r)" "ends_operand (TkAnd # r)" "ends_operand (TkRParen # r)"
  by (simp_all add: ends_operand_def)

lemma parseComparison_operand:
  "wf_operand x \<Longrightarrow> ends_operand r \<Longrightarrow> parseComparison e (operand_tokens x @ r) = leaves (sem_operand e x) r"
  by (auto simp: parseComparison_def parseOperand_tokens ends_operand_def bind_res_def
      split: sum.splits option.splits token.splits)

lemma parseComparison_compare:
  "wf_operand x \<Longrightarrow> wf_operand y \<Longrightarrow>
     parseComparison e (tokens_at l (WCompare eq x y) @ r) = leaves (sem e (WCompare eq x y)) r"
  by (cases "sem_operand e x"; cases "sem_operand e y")
    (auto simp: parseComparison_def parseOperand_tokens compare_op_def equals_def)

lemma parseComparison_in:
  "wf_operand x \<Longrightarrow> list_all wf_operand ys \<Longrightarrow>
     parseComparison e (tokens_at l (WIn x ys) @ r) = leaves (sem e (WIn x ys)) r"
  by (cases "sem_operand e x"; cases "sem_operands e ys")
    (auto simp: parseComparison_def parseOperand_tokens list_loop_tokens equals_def list_ex_iff)

lemma run_Unary_comparison:
  assumes "ts = operand_tokens x @ us"
  shows "run e Unary (ts @ r) = parseComparison e (ts @ r)"
  using operand_tokens_hd [of x] assms by (subst run_Unary) auto

lemma bind_bind [simp]: "bind_res (bind_res m f) g = bind_res m (\<lambda>v. bind_res (f v) g)"
  by (cases m) auto

text \<open>From one level to the next.\<close>

lemma run_And_of_Unary:
  assumes "run e Unary (ts @ r) = leaves m r"
  shows "run e AndExpr (ts @ r) = bind_res m (\<lambda>v. run e (AndLoop v) r)"
  by (simp add: run_AndExpr assms)

lemma run_Or_of_And:
  assumes "run e AndExpr (ts @ r) = bind_res m (\<lambda>v. run e (AndLoop v) r)" "peek r \<noteq> Some TkAnd"
  shows "run e OrExpr (ts @ r) = bind_res m (\<lambda>v. run e (OrLoop v) r)"
  using assms(2) by (simp add: run_OrExpr assms(1) run_AndLoop)

lemma run_levels:
  assumes "run e Unary (ts @ r) = leaves m r"
  shows "run e Unary (ts @ r) = leaves m r \<and>
    run e AndExpr (ts @ r) = bind_res m (\<lambda>v. run e (AndLoop v) r) \<and>
    (peek r \<noteq> Some TkAnd \<longrightarrow> run e OrExpr (ts @ r) = bind_res m (\<lambda>v. run e (OrLoop v) r))"
  using run_And_of_Unary [OF assms] run_Or_of_And assms by blast

lemma run_Unary_paren:
  assumes "run e OrExpr (ts @ TkRParen # r) = bind_res m (\<lambda>v. run e (OrLoop v) (TkRParen # r))"
  shows "run e Unary (paren True ts @ r) = leaves m r"
  by (subst run_Unary) (simp add: paren_def assms run_OrLoop)

lemma run_tokens:
  "wf_expr x \<Longrightarrow> ends_operand r \<Longrightarrow>
     run e Unary (tokens_at 2 x @ r) = leaves (sem e x) r \<and>
     run e AndExpr (tokens_at 1 x @ r) = bind_res (sem e x) (\<lambda>v. run e (AndLoop v) r) \<and>
     (peek r \<noteq> Some TkAnd \<longrightarrow>
        run e OrExpr (tokens_at 0 x @ r) = bind_res (sem e x) (\<lambda>v. run e (OrLoop v) r))"
proof (induction x arbitrary: r)
  case (WOperand x)
  then have "run e Unary (operand_tokens x @ r) = leaves (sem_operand e x) r"
    using run_Unary_comparison [of "operand_tokens x" x "[]"] by (simp add: parseComparison_operand)
  from run_levels [OF this] show ?case by simp
next
  case (WCompare eq x y)
  let ?t = "tokens_at 0 (WCompare eq x y)"
  have "run e Unary (?t @ r) = leaves (sem e (WCompare eq x y)) r"
    using WCompare.prems by (subst run_Unary_comparison, simp) (rule parseComparison_compare, simp_all)
  from run_levels [OF this] show ?case by (cases eq) simp_all
next
  case (WIn x ys)
  let ?t = "tokens_at 0 (WIn x ys)"
  have "run e Unary (?t @ r) = leaves (sem e (WIn x ys)) r"
    using WIn.prems by (subst run_Unary_comparison, simp) (rule parseComparison_in, simp_all)
  from run_levels [OF this] show ?case by simp
next
  case (WNot x)
  let ?t = "tokens_at 0 (WNot x)"
  have "run e Unary (?t @ r) = leaves (sem e (WNot x)) r"
    using WNot by (subst run_Unary) simp
  from run_levels [OF this] show ?case by simp
next
  case (WAnd x y)
  let ?t = "tokens_at 1 x @ TkAnd # tokens_at 2 y"
  have step: "run e AndExpr (?t @ s) = bind_res (sem e (WAnd x y)) (\<lambda>v. run e (AndLoop v) s)"
    if "ends_operand s" for s
    using WAnd.IH(1) [of "TkAnd # tokens_at 2 y @ s"] WAnd.IH(2) [of s] WAnd.prems(1) that
    by (simp add: run_AndLoop [of e _ "TkAnd # tokens_at 2 y @ s"])
  have "run e Unary (paren True ?t @ r) = leaves (sem e (WAnd x y)) r"
    by (rule run_Unary_paren) (rule run_Or_of_And, rule step, simp_all)
  with step [OF WAnd.prems(2)] run_Or_of_And [OF step [OF WAnd.prems(2)]]
  show ?case by (auto simp: paren_def)
next
  case (WOr x y)
  let ?t = "tokens_at 0 x @ TkOr # tokens_at 1 y"
  have step: "run e OrExpr (?t @ s) = bind_res (sem e (WOr x y)) (\<lambda>v. run e (OrLoop v) s)"
    if "ends_operand s" "peek s \<noteq> Some TkAnd" for s
    using WOr.IH(1) [of "TkOr # tokens_at 1 y @ s"] WOr.IH(2) [of s] WOr.prems(1) that
    by (simp add: run_OrLoop [of e _ "TkOr # tokens_at (Suc 0) y @ s"] run_AndLoop [of e _ s])
  have u: "run e Unary (paren True ?t @ r) = leaves (sem e (WOr x y)) r"
    by (rule run_Unary_paren) (rule step, simp_all)
  with step [OF WOr.prems(2)] show ?case using run_And_of_Unary [OF u] by (simp add: paren_def)
qed

section \<open>The tokenizer reads back what the grammar writes\<close>

text \<open>A token as text, a string between single quotes.\<close>

fun lexeme :: "token \<Rightarrow> string" where
  "lexeme (TkString v raw) = CHR 0x27 # raw @ [CHR 0x27]"
| "lexeme t = tok_text t"

definition spell :: "token list \<Rightarrow> string" where
  "spell toks = concat (map (\<lambda>t. lexeme t @ '' '') toks)"

fun wf_token :: "token \<Rightarrow> bool" where
  "wf_token (TkString v raw) \<longleftrightarrow> raw = escape v"
| "wf_token (TkNumber n ds) \<longleftrightarrow> 0 \<le> n \<and> n < 2 ^ 63 \<and> ds = show_nat (nat n)"
| "wf_token (TkIdent w) \<longleftrightarrow> w \<noteq> [] \<and> isIdentStart (hd w) \<and> list_all isIdentPart w \<and>
     w \<notin> {''and'', ''or'', ''in'', ''true'', ''false''}"
| "wf_token (TkOp s) \<longleftrightarrow> s = ''=='' \<or> s = ''!=''"
| "wf_token _ \<longleftrightarrow> True"

lemma unescape_escape [simp]: "unescape (escape s) = s"
  by (induction s rule: escape.induct) (auto simp: backslash_def)

lemma scan_escape: "scan_string (CHR 0x27) (escape s @ CHR 0x27 # r) = Some (escape s, r)"
  by (induction s rule: escape.induct) (auto simp: backslash_def)

lemma digit_chars: "is_digit c \<Longrightarrow>
    c \<notin> {CHR '' '', CHR 0x09, CHR 0x27, CHR 0x22, CHR ''('', CHR '')'', CHR ''['', CHR '']'', CHR '','', CHR ''!'', CHR ''=''}"
  by (auto simp: is_digit_def less_eq_char_def)

lemma ident_chars: "isIdentStart c \<Longrightarrow> \<not> is_digit c \<and>
    c \<notin> {CHR '' '', CHR 0x09, CHR 0x27, CHR 0x22, CHR ''('', CHR '')'', CHR ''['', CHR '']'', CHR '','', CHR ''!'', CHR ''=''}"
  by (auto simp: is_digit_def isIdentStart_def less_eq_char_def)

lemma space_ends [simp]: "\<not> is_digit CHR '' ''" "\<not> isIdentPart CHR '' ''"
  by code_simp+

lemma tokenize_space: "tokenize (CHR '' '' # s) = tokenize s"
  by simp

lemma tokenize_ident:
  assumes "w \<noteq> []" "isIdentStart (hd w)" "list_all isIdentPart w"
  shows "tokenize (w @ CHR '' '' # s) = add_token (word_token w) (tokenize s)"
proof -
  obtain c cs where w: "w = c # cs" using assms(1) by (cases w) auto
  with assms(3) have cs: "\<forall>x \<in> set cs. isIdentPart x" by (simp add: list_all_iff)
  with w ident_chars [of c] assms(2) show ?thesis
    by (simp add: takeWhile_append2 dropWhile_append2)
qed

lemma tokenize_number:
  assumes "ds \<noteq> []" "list_all is_digit ds"
  shows "tokenize (ds @ CHR '' '' # s) = add_token (TkNumber (parse_int64 ds) ds) (tokenize s)"
proof -
  obtain c cs where d: "ds = c # cs" using assms(1) by (cases ds) auto
  with assms(2) have cs: "\<forall>x \<in> set cs. is_digit x" "is_digit c" by (simp_all add: list_all_iff)
  with d digit_chars [of c] show ?thesis
    by (simp add: takeWhile_append2 dropWhile_append2)
qed

lemma keyword_lexemes: "\<forall>w \<in> {''and'', ''or'', ''in'', ''true'', ''false''}.
    w \<noteq> [] \<and> isIdentStart (hd w) \<and> list_all isIdentPart w"
  by code_simp

lemma tokenize_lexeme:
  assumes "wf_token t"
  shows "tokenize (lexeme t @ CHR '' '' # s) = add_token t (tokenize s)"
proof -
  have kw: "w \<in> {''and'', ''or'', ''in'', ''true'', ''false''} \<Longrightarrow>
      tokenize (w @ CHR '' '' # s) = add_token (word_token w) (tokenize s)" for w
    using keyword_lexemes by (intro tokenize_ident) blast+
  show ?thesis
  proof (cases t)
    case (TkNumber n ds)
    with assms show ?thesis
      using tokenize_number [of "show_nat (nat n)" s] show_nat_is_digit [of "nat n"]
      by (simp add: parse_int64_def dec_val_show_nat)
  next
    case (TkIdent w)
    with assms show ?thesis using tokenize_ident [of w s] by (simp add: word_token_def)
  next
    case TkAnd
    then show ?thesis using kw [of "''and''"] by (simp add: word_token_def del: tokenize.simps)
  next
    case TkOr
    then show ?thesis using kw [of "''or''"] by (simp add: word_token_def del: tokenize.simps)
  next
    case TkIn
    then show ?thesis using kw [of "''in''"] by (simp add: word_token_def del: tokenize.simps)
  next
    case TkTrue
    then show ?thesis using kw [of "''true''"] by (simp add: word_token_def del: tokenize.simps)
  next
    case TkFalse
    then show ?thesis using kw [of "''false''"] by (simp add: word_token_def del: tokenize.simps)
  qed (use assms scan_escape in auto)
qed

lemma tokenize_spell: "list_all wf_token toks \<Longrightarrow> tokenize (spell toks) = Inr toks"
proof (induction toks)
  case (Cons t toks)
  have "spell (t # toks) = lexeme t @ CHR '' '' # spell toks" by (simp add: spell_def)
  with Cons show ?case by (simp add: tokenize_lexeme add_token_def del: tokenize.simps)
qed (simp add: spell_def)

lemma wf_operand_tokens: "wf_operand x \<Longrightarrow> list_all wf_token (operand_tokens x)"
proof (cases x)
  case (OExists p)
  have "list_all isIdentPart ''file.exists'' \<and> isIdentStart (CHR ''f'')" by code_simp
  with OExists show ?thesis by simp
qed auto

lemma wf_list_tokens: "list_all wf_operand xs \<Longrightarrow> list_all wf_token (list_tokens xs)"
  by (induction xs rule: list_tokens.induct) (auto simp: wf_operand_tokens)

lemma wf_tokens_at: "wf_expr x \<Longrightarrow> list_all wf_token (tokens_at l x)"
  by (induction l x rule: tokens_at.induct) (auto simp: wf_operand_tokens wf_list_tokens paren_def)

definition show_expr :: "wexpr \<Rightarrow> string" where
  "show_expr x = spell (tokens_at 0 x)"

lemma space_bytes_not_plain: "\<forall>x \<in> set space_encodings. \<forall>c \<in> set x. \<not> plain_char c"
  by code_simp

lemma trim_front_keeps:
  assumes "encs = space_encodings \<or> encs = map rev space_encodings" "plain_char c"
  shows "c \<in> set s \<Longrightarrow> c \<in> set (trim_front encs s)"
proof (induction s rule: measure_induct_rule [of length])
  case (less s)
  show ?case
  proof (cases "s = [] \<or> space_len encs s = 0")
    case True
    with less.prems show ?thesis by (subst trim_front.simps) simp
  next
    case False
    then obtain x where f: "find (has_prefix s) encs = Some x"
      by (auto simp: space_len_def split: option.splits)
    then have "x \<in> set encs \<and> has_prefix s x" by (auto simp: find_Some_iff)
    then have x: "x \<in> set encs" "has_prefix s x" "space_len encs s = length x"
      using f by (simp_all add: space_len_def)
    then obtain t where t: "s = x @ t" by (auto simp: has_prefix_iff)
    have "c \<notin> set x" using x(1) assms space_bytes_not_plain by auto
    moreover have "drop (space_len encs s) s = t" unfolding x(3) by (simp add: t)
    ultimately have "c \<in> set (drop (space_len encs s) s)" using less.prems t by auto
    moreover have "length (drop (space_len encs s) s) < length s" using False by simp
    ultimately show ?thesis using less.IH False by (subst trim_front.simps) simp
  qed
qed

lemma trim_space_keeps: "plain_char c \<Longrightarrow> c \<in> set s \<Longrightarrow> trim_space s \<noteq> []"
  using trim_front_keeps [of space_encodings c s]
    trim_front_keeps [of "map rev space_encodings" c "rev (trim_front space_encodings s)"]
  by (auto simp: trim_space_def)

lemma lexeme_plain: "wf_token t \<Longrightarrow> \<exists>c \<in> set (lexeme t). plain_char c"
proof (cases t)
  case (TkNumber n ds)
  moreover have "plain_char c" if "c \<in> set (show_nat k)" for c k
    using show_nat_is_digit [of k] that by (auto simp: list_all_iff is_digit_def plain_char_def less_eq_char_def less_char_def)
  moreover have "hd (show_nat k) \<in> set (show_nat k)" for k by simp
  moreover assume "wf_token t"
  ultimately show ?thesis by (metis lexeme.simps(2) tok_text.simps(2) wf_token.simps(2))
next
  case (TkIdent w)
  moreover assume "wf_token t"
  moreover have "isIdentStart c \<Longrightarrow> plain_char c" for c
    by (auto simp: isIdentStart_def plain_char_def less_eq_char_def less_char_def)
  ultimately show ?thesis by (cases w) auto
qed (auto simp: plain_char_def less_char_def)

lemma trim_spell: "list_all wf_token (t # toks) \<Longrightarrow> trim_space (spell (t # toks)) \<noteq> []"
  using lexeme_plain [of t] trim_space_keeps [of _ "spell (t # toks)"] by (auto simp: spell_def)

lemma trim_show: "wf_expr x \<Longrightarrow> trim_space (spell (tokens_at 0 x @ ts)) \<noteq> [] \<or> \<not> list_all wf_token ts"
proof -
  assume x: "wf_expr x"
  have "tokens_at l x \<noteq> []" for l
    using operand_tokens_hd by (induction l x rule: tokens_at.induct) (auto simp: paren_def, metis list.distinct(1))
  then obtain t r where "tokens_at 0 x = t # r" by (cases "tokens_at 0 x") auto
  with wf_tokens_at [OF x, of 0] show ?thesis using trim_spell [of t "r @ ts"] by auto
qed


text \<open>
  The parser accepts more than its grammar, on the side of running the step: where an
  operand is missing at the end of the text it reads \<open>false\<close>, so a guard that is only
  \<open>!\<close> is true, and a dangling \<open>or\<close> is no error and leaves the value of what it follows.
\<close>
theorem missing_operand_accepted:
  "Eval e ''!'' = Some (Inr True) \<and>
   (wf_expr x \<longrightarrow> Eval e (spell (tokens_at 0 x @ [TkOr])) = Some (bind_res (sem e x) (\<lambda>v. Inr (asBool v))))"
proof (intro conjI impI)
  have "trim_space ''!'' \<noteq> []" "tokenize ''!'' = Inr [TkNot]" by code_simp+
  then show "Eval e ''!'' = Some (Inr True)"
    by (simp add: Eval_run run_OrExpr run_AndExpr run_Unary [of e "[TkNot]"] run_Unary [of e "[]"]
        run_OrLoop run_AndLoop asBool_def)
  assume x: "wf_expr x"
  have empty: "run e AndExpr [] = Inr (VBool False, [])"
    by (simp add: run_AndExpr run_Unary run_AndLoop)
  have "run e (OrLoop v) [TkOr] = Inr (VBool (asBool v), [])" for v
    by (subst run_OrLoop) (simp add: empty run_OrLoop asBool_def)
  then have r: "run e OrExpr (tokens_at 0 x @ [TkOr]) = bind_res (sem e x) (\<lambda>v. Inr (VBool (asBool v), []))"
    using run_tokens [OF x, of "[TkOr]" e] by simp
  have "tokenize (spell (tokens_at 0 x @ [TkOr])) = Inr (tokens_at 0 x @ [TkOr])"
    by (rule tokenize_spell) (simp add: wf_tokens_at [OF x])
  with r show "Eval e (spell (tokens_at 0 x @ [TkOr])) = Some (bind_res (sem e x) (\<lambda>v. Inr (asBool v)))"
    using trim_show [OF x, of "[TkOr]"] by (simp add: Eval_run)
qed

definition guard_sample :: wexpr where
  "guard_sample = WAnd (WCompare True (OFact ''host.os'') (OStr ''it'')) (WNot (WOperand (OExists ''/x'')))"


theorem missing_operand_accepted_witness:
  "Eval (Map.empty, \<lambda>p. False) (spell (tokens_at 0 (WOperand (OBool True)) @ [TkOr])) = Some (Inr True)"
  using missing_operand_accepted [of "(Map.empty, \<lambda>p. False)" "WOperand (OBool True)"] by (simp add: asBool_def)

end
