(* ===== verification/Spool.thy ===== *)
theory Spool
  imports GoStrings "HOL-Library.While_Combinator"
begin

text \<open>
  The agent's bounded buffer for messages it could not deliver, \<open>src/internal/spool/spool.go\<close>:
  a memory tier, a disk tier with one append-only log per run, drop-oldest, expiry, and the
  drain on reconnect.

  The protobuf codec and the kind of an envelope are a parameter (\<open>codec\<close>); the spool
  directory is the field \<open>sp_files\<close> (the log of run \<open>id\<close> under \<open>id\<close>), whose operations
  succeed; a log handle is always open in append mode, so it is not kept.  The loops that would
  not end on a corrupt state are \<open>while_option\<close>: \<open>None\<close> is not returning.  Times are in
  nanoseconds, and a call reads the clock once.
\<close>

section \<open>State\<close>

record 'e codec =
  Marshal :: "'e \<Rightarrow> string"
  Unmarshal :: "string \<Rightarrow> 'e option"
  IsResult :: "'e \<Rightarrow> bool"

record 'e spool_record =
  rc_env :: 'e
  rc_size :: int

text \<open>\<open>rn_recs\<close> is \<open>None\<close> for a run of the disk tier.\<close>

record 'e spool_run =
  rn_since :: int
  rn_recs :: "'e spool_record list option"
  rn_memBytes :: int
  rn_diskBytes :: int
  rn_hasResult :: bool

record 'e spool =
  sp_MemCap :: int
  sp_DiskCap :: int
  sp_TTL :: int
  sp_runs :: "string \<rightharpoonup> 'e spool_run"
  sp_order :: "string list"
  sp_mem :: int
  sp_disk :: int
  sp_closed :: bool
  sp_files :: "string \<rightharpoonup> string"

section \<open>The log format\<close>

text \<open>A four-byte big-endian length (which wraps), then the message.\<close>

definition encode :: "('e, 'x) codec_scheme \<Rightarrow> 'e \<Rightarrow> string" where
  "encode C env = be_bytes 4 (length (Marshal C env)) @ Marshal C env"

datatype read_error = BadLength nat | ReadEOF | BadRecord

text \<open>
  \<open>readSpoolFile\<close>: a short header or a short body ends the log, but \<open>io.ReadFull\<close> reports a
  body of which no byte is there as \<open>EOF\<close>, which is an error here.
\<close>

function read_records :: "('e, 'x) codec_scheme \<Rightarrow> string \<Rightarrow> read_error + 'e spool_record list" where
  "read_records C bs =
     (if length bs < 4 then Inr []
      else
        let n = be_val (take 4 bs); body = drop 4 bs
        in if n = 0 \<or> n > 2 ^ 24 then Inl (BadLength n)
           else if body = [] then Inl ReadEOF
           else if length body < n then Inr []
           else (case Unmarshal C (take n body) of
                   None \<Rightarrow> Inl BadRecord
                 | Some env \<Rightarrow>
                     bind_res (read_records C (drop n body))
                       (\<lambda>rs. Inr (\<lparr>rc_env = env, rc_size = int (4 + n)\<rparr> # rs))))"
  by pat_completeness auto
termination by (relation "measure (\<lambda>(C, bs). length bs)") auto

declare read_records.simps [simp del]

text \<open>\<open>inspectFile\<close>: whether the last whole record is a result, and the size of the whole records.\<close>

function inspectFile :: "('e, 'x) codec_scheme \<Rightarrow> bool \<Rightarrow> int \<Rightarrow> string \<Rightarrow> (bool \<times> int) option" where
  "inspectFile C lastRes tot bs =
     (if length bs < 4 then Some (lastRes, tot)
      else
        let n = be_val (take 4 bs); body = drop 4 bs
        in if n = 0 \<or> n > 2 ^ 24 \<or> length body < n then Some (lastRes, tot)
           else (case Unmarshal C (take n body) of
                   None \<Rightarrow> None
                 | Some env \<Rightarrow> inspectFile C (IsResult C env) (tot + int (4 + n)) (drop n body)))"
  by pat_completeness auto
termination by (relation "measure (\<lambda>(C, lastRes, tot, bs). length bs)") auto

declare inspectFile.simps [simp del]

section \<open>Dropping and expiring\<close>

definition dropLocked :: "string \<Rightarrow> 'e spool \<Rightarrow> 'e spool" where
  "dropLocked i s =
     (case sp_runs s i of
        None \<Rightarrow> s
      | Some r \<Rightarrow> s\<lparr>sp_runs := (sp_runs s)(i := None), sp_order := remove1 i (sp_order s),
                   sp_mem := sp_mem s - rn_memBytes r, sp_disk := sp_disk s - rn_diskBytes r,
                   sp_files := (sp_files s)(i := None)\<rparr>)"

definition expired :: "int \<Rightarrow> 'e spool \<Rightarrow> string \<Rightarrow> bool" where
  "expired now s i \<longleftrightarrow>
     (case sp_runs s i of None \<Rightarrow> True | Some r \<Rightarrow> now - rn_since r > sp_TTL s)"

definition pruneLocked :: "int \<Rightarrow> 'e spool \<Rightarrow> 'e spool option" where
  "pruneLocked now s =
     while_option (\<lambda>s. sp_order s \<noteq> [] \<and> expired now s (hd (sp_order s)))
       (\<lambda>s. dropLocked (hd (sp_order s)) s) s"

section \<open>Appending\<close>

definition append_file :: "string \<Rightarrow> string \<Rightarrow> 'e spool \<Rightarrow> 'e spool" where
  "append_file i bs s =
     s\<lparr>sp_files := (sp_files s)(i \<mapsto> (case sp_files s i of None \<Rightarrow> bs | Some old \<Rightarrow> old @ bs))\<rparr>"

definition oldestRAMLocked :: "'e spool \<Rightarrow> string option" where
  "oldestRAMLocked s =
     find (\<lambda>i. case sp_runs s i of None \<Rightarrow> False | Some r \<Rightarrow> rn_recs r \<noteq> None) (sp_order s)"

definition spillLocked :: "('e, 'x) codec_scheme \<Rightarrow> string \<Rightarrow> 'e spool \<Rightarrow> 'e spool" where
  "spillLocked C i s =
     (case sp_runs s i of
        None \<Rightarrow> s
      | Some r \<Rightarrow>
          (case rn_recs r of
             None \<Rightarrow> s
           | Some recs \<Rightarrow>
               let buf = concat (map (\<lambda>rec. encode C (rc_env rec)) recs);
                   s1 = (if buf \<noteq> [] then append_file i buf s else s);
                   r1 = r\<lparr>rn_diskBytes := rn_diskBytes r + int (length buf), rn_memBytes := 0, rn_recs := None\<rparr>
               in s1\<lparr>sp_runs := (sp_runs s1)(i \<mapsto> r1), sp_disk := sp_disk s1 + int (length buf),
                     sp_mem := sp_mem s1 - rn_memBytes r\<rparr>))"

definition new_run :: "int \<Rightarrow> 'e spool_run" where
  "new_run now = \<lparr>rn_since = now, rn_recs = Some [], rn_memBytes = 0, rn_diskBytes = 0, rn_hasResult = False\<rparr>"

text \<open>The part of \<open>Append\<close> between expiry and the caps.\<close>

definition add_record :: "('e, 'x) codec_scheme \<Rightarrow> int \<Rightarrow> string \<Rightarrow> 'e \<Rightarrow> 'e spool \<Rightarrow> 'e spool" where
  "add_record C now i env s =
     (let size = int (length (encode C env));
          s1 = (if sp_runs s i = None
                then s\<lparr>sp_runs := (sp_runs s)(i \<mapsto> new_run now), sp_order := sp_order s @ [i]\<rparr> else s);
          r = the (sp_runs s1 i);
          done_flag = (IsResult C env \<or> rn_hasResult r)
      in case rn_recs r of
           Some recs \<Rightarrow>
             s1\<lparr>sp_runs := (sp_runs s1)(i \<mapsto> r\<lparr>rn_recs := Some (recs @ [\<lparr>rc_env = env, rc_size = size\<rparr>]),
                  rn_memBytes := rn_memBytes r + size, rn_hasResult := done_flag\<rparr>),
                sp_mem := sp_mem s1 + size\<rparr>
         | None \<Rightarrow>
             let s2 = append_file i (encode C env) s1
             in s2\<lparr>sp_runs := (sp_runs s2)(i \<mapsto> r\<lparr>rn_diskBytes := rn_diskBytes r + size,
                  rn_hasResult := done_flag\<rparr>),
                sp_disk := sp_disk s2 + size\<rparr>)"

definition mem_loop :: "('e, 'x) codec_scheme \<Rightarrow> 'e spool \<Rightarrow> 'e spool option" where
  "mem_loop C s =
     while_option (\<lambda>s. sp_mem s > sp_MemCap s \<and> oldestRAMLocked s \<noteq> None)
       (\<lambda>s. spillLocked C (the (oldestRAMLocked s)) s) s"

definition disk_loop :: "'e spool \<Rightarrow> 'e spool option" where
  "disk_loop s =
     while_option (\<lambda>s. sp_disk s > sp_DiskCap s \<and> sp_order s \<noteq> [])
       (\<lambda>s. dropLocked (hd (sp_order s)) s) s"

text \<open>\<open>Append\<close>: \<open>None\<close> is not returning; the flag says whether it returned no error.\<close>

definition Append :: "('e, 'x) codec_scheme \<Rightarrow> int \<Rightarrow> string \<Rightarrow> 'e \<Rightarrow> 'e spool \<Rightarrow> (bool \<times> 'e spool) option" where
  "Append C now i env s =
     (if sp_closed s then Some (False, s)
      else
        Option.bind (pruneLocked now s) (\<lambda>s1.
        Option.bind (mem_loop C (add_record C now i env s1)) (\<lambda>s2.
        Option.bind (disk_loop s2) (\<lambda>s3. Some (True, s3)))))"

section \<open>Draining\<close>

definition snapshotLocked ::
  "('e, 'x) codec_scheme \<Rightarrow> 'e spool \<Rightarrow> string \<Rightarrow> read_error + 'e spool_record list" where
  "snapshotLocked C s i =
     (case sp_runs s i of
        None \<Rightarrow> Inr []
      | Some r \<Rightarrow>
          (case rn_recs r of
             Some recs \<Rightarrow> Inr recs
           | None \<Rightarrow> (case sp_files s i of None \<Rightarrow> Inr [] | Some bs \<Rightarrow> read_records C bs)))"

definition hasResultRecord :: "('e, 'x) codec_scheme \<Rightarrow> 'e spool_record list \<Rightarrow> bool" where
  "hasResultRecord C recs \<longleftrightarrow> recs \<noteq> [] \<and> IsResult C (rc_env (last recs))"

definition rewriteFileLocked :: "('e, 'x) codec_scheme \<Rightarrow> string \<Rightarrow> 'e spool_record list \<Rightarrow> 'e spool \<Rightarrow> 'e spool" where
  "rewriteFileLocked C i recs s =
     s\<lparr>sp_files := (sp_files s)(i \<mapsto> concat (map (\<lambda>rec. encode C (rc_env rec)) recs))\<rparr>"

definition sum_sizes :: "'e spool_record list \<Rightarrow> int" where
  "sum_sizes recs = sum_list (map rc_size recs)"

definition dropPrefixLocked ::
  "('e, 'x) codec_scheme \<Rightarrow> string \<Rightarrow> nat \<Rightarrow> 'e spool \<Rightarrow> bool \<times> 'e spool" where
  "dropPrefixLocked C i n s =
     (case sp_runs s i of
        None \<Rightarrow> (True, s)
      | Some r \<Rightarrow>
          (case rn_recs r of
             Some recs \<Rightarrow>
               (let rest = drop n recs; gone = sum_sizes (take n recs);
                    r1 = r\<lparr>rn_memBytes := rn_memBytes r - gone, rn_recs := Some rest\<rparr>;
                    s1 = s\<lparr>sp_mem := sp_mem s - gone, sp_runs := (sp_runs s)(i \<mapsto> r1)\<rparr>
                in if rest = [] then (True, dropLocked i s1)
                   else (False, s1\<lparr>sp_runs := (sp_runs s1)(i \<mapsto> r1\<lparr>rn_hasResult :=
                     (if n > 0 \<and> rn_hasResult r then hasResultRecord C rest else rn_hasResult r)\<rparr>)\<rparr>))
           | None \<Rightarrow>
               (case snapshotLocked C s i of
                  Inl e \<Rightarrow> (True, dropLocked i s)
                | Inr recs \<Rightarrow>
                    (let rest = drop n recs; gone = sum_sizes (take n recs)
                     in if rest = [] then (True, dropLocked i s)
                        else
                          let s1 = rewriteFileLocked C i rest s
                          in (False, s1\<lparr>sp_disk := sp_disk s1 - gone,
                               sp_runs := (sp_runs s1)(i \<mapsto> r\<lparr>rn_diskBytes := rn_diskBytes r - gone,
                                 rn_hasResult := (if n > 0 \<and> rn_hasResult r then hasResultRecord C rest
                                   else rn_hasResult r)\<rparr>)\<rparr>)))))"

text \<open>
  Sending the records of a run: \<open>ok k\<close> says whether the \<open>k\<close>-th send of the drain succeeds.
  The result: the records sent, and whether all were.
\<close>

fun send_all :: "(nat \<Rightarrow> bool) \<Rightarrow> nat \<Rightarrow> 'e spool_record list \<Rightarrow> 'e list \<times> bool" where
  "send_all ok k [] = ([], True)"
| "send_all ok k (rec # recs) =
     (if ok k then (case send_all ok (Suc k) recs of (out, all) \<Rightarrow> (rc_env rec # out, all)) else ([], False))"

datatype drain_error = SendError | SnapshotError read_error

record 'e drain_result =
  dn_sent :: "'e list"
  dn_drained :: "string list"
  dn_error :: "drain_error option"

text \<open>
  The loop of \<open>Drain\<close>; each round that goes on removes a run, so \<open>fuel\<close> rounds suffice when
  it exceeds the number of runs.
\<close>

definition complete_run :: "'e spool \<Rightarrow> string \<Rightarrow> bool" where
  "complete_run s i \<longleftrightarrow> (case sp_runs s i of None \<Rightarrow> False | Some r \<Rightarrow> rn_hasResult r)"

primrec spool_drain_loop ::
  "nat \<Rightarrow> ('e, 'x) codec_scheme \<Rightarrow> (nat \<Rightarrow> bool) \<Rightarrow> int \<Rightarrow> 'e list \<Rightarrow> string list \<Rightarrow> 'e spool
   \<Rightarrow> ('e drain_result \<times> 'e spool) option" where
  "spool_drain_loop 0 C ok now sent drained s = None"
| "spool_drain_loop (Suc fuel) C ok now sent drained s =
     Option.bind (pruneLocked now s) (\<lambda>s1.
       case find (complete_run s1) (sp_order s1) of
         None \<Rightarrow> Some (\<lparr>dn_sent = sent, dn_drained = drained, dn_error = None\<rparr>, s1)
       | Some i \<Rightarrow>
           (case snapshotLocked C s1 i of
              Inl e \<Rightarrow> Some (\<lparr>dn_sent = sent, dn_drained = drained, dn_error = Some (SnapshotError e)\<rparr>, s1)
            | Inr recs \<Rightarrow>
                if recs = [] then spool_drain_loop fuel C ok now sent (drained @ [i]) (dropLocked i s1)
                else
                  (case send_all ok (length sent) recs of
                     (out, False) \<Rightarrow>
                       Some (\<lparr>dn_sent = sent @ out, dn_drained = drained, dn_error = Some SendError\<rparr>, s1)
                   | (out, True) \<Rightarrow>
                       (case dropPrefixLocked C i (length recs) s1 of (gone, s2) \<Rightarrow>
                          spool_drain_loop fuel C ok now (sent @ out) (if gone then drained @ [i] else drained) s2))))"

definition Drain ::
  "('e, 'x) codec_scheme \<Rightarrow> (nat \<Rightarrow> bool) \<Rightarrow> int \<Rightarrow> 'e spool \<Rightarrow> ('e drain_result \<times> 'e spool) option" where
  "Drain C ok now s = spool_drain_loop (length (sp_order s) + 1) C ok now [] [] s"

section \<open>Opening\<close>

text \<open>
  \<open>Open\<close>: \<open>entries\<close> are the \<open>.sp\<close> files of the directory with their modification times, in
  directory order; unreadable logs are removed.
\<close>

fun adopt ::
  "('e, 'x) codec_scheme \<Rightarrow> (string \<times> int \<times> string) list
   \<Rightarrow> (string \<times> int \<times> 'e spool_run \<times> string) list" where
  "adopt C [] = []"
| "adopt C ((i, mtime, bs) # entries) =
     (case inspectFile C False 0 bs of
        None \<Rightarrow> adopt C entries
      | Some (hasRes, sz) \<Rightarrow>
          (i, mtime, \<lparr>rn_since = mtime, rn_recs = None, rn_memBytes = 0, rn_diskBytes = sz,
             rn_hasResult = hasRes\<rparr>, bs) # adopt C entries)"

definition Open :: "('e, 'x) codec_scheme \<Rightarrow> int \<Rightarrow> int \<Rightarrow> int \<Rightarrow> (string \<times> int \<times> string) list \<Rightarrow> 'e spool" where
  "Open C memCap diskCap ttl entries =
     (let adopted = adopt C entries
      in \<lparr>sp_MemCap = (if memCap \<le> 0 then 16 * 2 ^ 20 else memCap),
          sp_DiskCap = (if diskCap \<le> 0 then 128 * 2 ^ 20 else diskCap),
          sp_TTL = (if ttl \<le> 0 then 24 * 3600 * 1000000000 else ttl),
          sp_runs = map_of (map (\<lambda>(i, mtime, r, bs). (i, r)) adopted),
          sp_order = map fst (sort_key (\<lambda>(i, mtime, r, bs). mtime) adopted),
          sp_mem = 0,
          sp_disk = sum_list (map (\<lambda>(i, mtime, r, bs). rn_diskBytes r) adopted),
          sp_closed = False,
          sp_files = map_of (map (\<lambda>(i, mtime, r, bs). (i, bs)) adopted)\<rparr>)"

section \<open>The log reads back\<close>

text \<open>What the code relies on: an envelope decodes to itself, and fits a record.\<close>

definition env_ok :: "('e, 'x) codec_scheme \<Rightarrow> 'e \<Rightarrow> bool" where
  "env_ok C e \<longleftrightarrow> Unmarshal C (Marshal C e) = Some e \<and> Marshal C e \<noteq> [] \<and> length (Marshal C e) \<le> 2 ^ 24"

definition rec_of :: "('e, 'x) codec_scheme \<Rightarrow> 'e \<Rightarrow> 'e spool_record" where
  "rec_of C e = \<lparr>rc_env = e, rc_size = int (length (encode C e))\<rparr>"

definition log_of :: "('e, 'x) codec_scheme \<Rightarrow> 'e list \<Rightarrow> string" where
  "log_of C es = concat (map (encode C) es)"

lemma length_encode: "length (encode C e) = 4 + length (Marshal C e)"
  by (simp add: encode_def)

lemma take_encode: "take 4 (encode C e) = be_bytes 4 (length (Marshal C e))"
  "drop 4 (encode C e) = Marshal C e"
  by (simp_all add: encode_def)

lemma header_length:
  assumes "env_ok C e"
  shows "be_val (be_bytes 4 (length (Marshal C e))) = length (Marshal C e)"
proof -
  have "length (Marshal C e) < 256 ^ 4" using assms by (simp add: env_ok_def)
  then show ?thesis unfolding be_val_be_bytes by (rule mod_less)
qed

lemma read_encode:
  assumes "env_ok C e"
  shows "read_records C (encode C e @ bs) = bind_res (read_records C bs) (\<lambda>rs. Inr (rec_of C e # rs))"
proof -
  note n = header_length [OF assms]
  have "length (encode C e @ bs) \<ge> 4" by (simp add: length_encode)
  then show ?thesis
    using assms by (subst read_records.simps) (auto simp: take_encode n env_ok_def rec_of_def length_encode Let_def)
qed

lemma read_log:
  "list_all (env_ok C) es \<Longrightarrow>
     read_records C (log_of C es @ bs) = bind_res (read_records C bs) (\<lambda>rs. Inr (map (rec_of C) es @ rs))"
  by (induction es) (auto simp: log_of_def read_encode bind_res_def split: sum.splits)

lemma read_nil [simp]: "read_records C [] = Inr []"
  by (subst read_records.simps) simp

lemma read_log': "list_all (env_ok C) es \<Longrightarrow> read_records C (log_of C es) = Inr (map (rec_of C) es)"
  using read_log [of C es "[]"] by simp

lemma read_torn:
  assumes "env_ok C e" "k < length (encode C e)"
  shows "read_records C (take k (encode C e)) = (if k = 4 then Inl ReadEOF else Inr [])"
proof (cases "k < 4")
  case True
  then show ?thesis by (subst read_records.simps) (simp add: length_encode)
next
  case False
  note n = header_length [OF assms(1)]
  have "take 4 (take k (encode C e)) = be_bytes 4 (length (Marshal C e))"
    "drop 4 (take k (encode C e)) = take (k - 4) (Marshal C e)"
    using False take_encode [of C e] by (simp_all add: min_def drop_take)
  with False assms show ?thesis
    by (subst read_records.simps) (auto simp: n env_ok_def length_encode Let_def)
qed

text \<open>
  A log read back is what was written: any sequence of records comes back whole and in
  order, and a record torn by a crash is ignored wherever it was cut, except right after its
  length header, where reading fails.
\<close>
theorem log_reads_back:
  assumes "list_all (env_ok C) es" "env_ok C e" "k < length (encode C e)"
  shows "read_records C (log_of C es @ take k (encode C e)) =
    (if k = 4 then Inl ReadEOF else Inr (map (rec_of C) es))"
  using read_log [OF assms(1)] read_torn [OF assms(2,3)] by simp

definition text_codec :: "string codec" where
  "text_codec = \<lparr>Marshal = (\<lambda>e. e), Unmarshal = Some, IsResult = (\<lambda>e. e = ''result'')\<rparr>"

theorem log_reads_back_witness:
  "read_records text_codec (log_of text_codec [''out''] @ take 6 (encode text_codec ''result'')) =
     Inr [rec_of text_codec ''out'']"
  using log_reads_back [of text_codec "[''out'']" "''result''" 6]
  by (simp add: text_codec_def env_ok_def length_encode)

section \<open>The invariant\<close>

definition mem_of :: "'e spool \<Rightarrow> string \<Rightarrow> int" where
  "mem_of s i = (case sp_runs s i of None \<Rightarrow> 0 | Some r \<Rightarrow> rn_memBytes r)"

definition disk_of :: "'e spool \<Rightarrow> string \<Rightarrow> int" where
  "disk_of s i = (case sp_runs s i of None \<Rightarrow> 0 | Some r \<Rightarrow> rn_diskBytes r)"

text \<open>A run is in one tier, holds at least one record, and its sizes are exact.\<close>

definition run_ok :: "('e, 'x) codec_scheme \<Rightarrow> string option \<Rightarrow> 'e spool_run \<Rightarrow> bool" where
  "run_ok C file r \<longleftrightarrow>
     (\<exists>es. es \<noteq> [] \<and> list_all (env_ok C) es \<and>
        (case rn_recs r of
           Some recs \<Rightarrow> recs = map (rec_of C) es \<and> rn_memBytes r = sum_sizes recs \<and> rn_diskBytes r = 0 \<and> file = None
         | None \<Rightarrow> file = Some (log_of C es) \<and> rn_memBytes r = 0 \<and> rn_diskBytes r = int (length (log_of C es))))"

definition slot_ok :: "('e, 'x) codec_scheme \<Rightarrow> string option \<Rightarrow> 'e spool_run option \<Rightarrow> bool" where
  "slot_ok C file slot \<longleftrightarrow> (case slot of None \<Rightarrow> file = None | Some r \<Rightarrow> run_ok C file r)"

lemma slot_ok_simps [simp]: "slot_ok C file None \<longleftrightarrow> file = None" "slot_ok C file (Some r) \<longleftrightarrow> run_ok C file r"
  by (simp_all add: slot_ok_def)

definition spool_inv :: "('e, 'x) codec_scheme \<Rightarrow> 'e spool \<Rightarrow> bool" where
  "spool_inv C s \<longleftrightarrow>
     distinct (sp_order s) \<and> set (sp_order s) = dom (sp_runs s) \<and>
     (\<forall>i. slot_ok C (sp_files s i) (sp_runs s i)) \<and>
     sp_mem s = sum_list (map (mem_of s) (sp_order s)) \<and>
     sp_disk s = sum_list (map (disk_of s) (sp_order s)) \<and>
     0 \<le> sp_MemCap s \<and> 0 \<le> sp_DiskCap s"

text \<open>The unconfirmed messages of a run, whatever its tier.\<close>

definition contents :: "('e, 'x) codec_scheme \<Rightarrow> 'e spool \<Rightarrow> string \<Rightarrow> 'e list" where
  "contents C s i = (case snapshotLocked C s i of Inl _ \<Rightarrow> [] | Inr recs \<Rightarrow> map rc_env recs)"

text \<open>The runs that are still there are as they were.\<close>

definition keeps :: "('e, 'x) codec_scheme \<Rightarrow> 'e spool \<Rightarrow> 'e spool \<Rightarrow> bool" where
  "keeps C s s' \<longleftrightarrow> set (sp_order s') \<subseteq> set (sp_order s) \<and>
     sp_MemCap s' = sp_MemCap s \<and> sp_DiskCap s' = sp_DiskCap s \<and> sp_TTL s' = sp_TTL s \<and>
     (\<forall>i \<in> set (sp_order s'). contents C s' i = contents C s i \<and>
        complete_run s' i = complete_run s i \<and> (\<forall>now. expired now s' i = expired now s i))"

lemma keeps_refl [simp]: "keeps C s s"
  by (simp add: keeps_def)

lemma keeps_trans: "keeps C s s' \<Longrightarrow> keeps C s' s'' \<Longrightarrow> keeps C s s''"
  by (auto simp: keeps_def)

lemma same_slot:
  assumes "sp_runs s' i = sp_runs s i" "sp_files s' i = sp_files s i" "sp_TTL s' = sp_TTL s"
  shows "contents C s' i = contents C s i \<and> complete_run s' i = complete_run s i \<and> expired now s' i = expired now s i"
  using assms
  by (cases "sp_runs s i") (simp_all add: contents_def snapshotLocked_def complete_run_def expired_def
      split: option.split)

lemma sum_sizes_rec_of: "sum_sizes (map (rec_of C) es) = int (length (log_of C es))"
  by (induction es) (auto simp: sum_sizes_def rec_of_def log_of_def)

lemma log_not_empty: "es \<noteq> [] \<Longrightarrow> log_of C es \<noteq> []"
  by (cases es) (auto simp: log_of_def encode_def be_bytes_def)

lemma map_env_rec_of [simp]: "map rc_env (map (rec_of C) es) = es"
  by (induction es) (auto simp: rec_of_def)

lemma run_ok_snapshot:
  assumes "spool_inv C s" "sp_runs s i = Some r"
  shows "\<exists>es. es \<noteq> [] \<and> list_all (env_ok C) es \<and> snapshotLocked C s i = Inr (map (rec_of C) es) \<and>
    contents C s i = es"
proof -
  from assms have "run_ok C (sp_files s i) r" by (metis slot_ok_simps(2) spool_inv_def)
  then obtain es where es: "es \<noteq> []" "list_all (env_ok C) es"
    "case rn_recs r of Some recs \<Rightarrow> recs = map (rec_of C) es | None \<Rightarrow> sp_files s i = Some (log_of C es)"
    by (auto simp: run_ok_def split: option.splits)
  have "snapshotLocked C s i = Inr (map (rec_of C) es)"
    using es(3) assms(2) read_log' [OF es(2)] by (cases "rn_recs r") (simp_all add: snapshotLocked_def)
  with es show ?thesis by (auto simp: contents_def simp del: map_map)
qed

lemma mem_of_drop: "j \<noteq> i \<Longrightarrow> mem_of (dropLocked i s) j = mem_of s j"
  and disk_of_drop: "j \<noteq> i \<Longrightarrow> disk_of (dropLocked i s) j = disk_of s j"
  by (auto simp: mem_of_def disk_of_def dropLocked_def split: option.splits)

lemma drop_inv:
  assumes "spool_inv C s"
  shows "spool_inv C (dropLocked i s) \<and> keeps C s (dropLocked i s) \<and>
    sp_order (dropLocked i s) = remove1 i (sp_order s)"
proof (cases "sp_runs s i")
  case None
  then have "i \<notin> set (sp_order s)" using assms by (auto simp: spool_inv_def)
  then show ?thesis using None assms by (simp add: dropLocked_def remove1_idem)
next
  case (Some r)
  let ?s = "dropLocked i s"
  have o: "sp_order ?s = remove1 i (sp_order s)" using Some by (simp add: dropLocked_def)
  have i: "i \<in> set (sp_order s)" "distinct (sp_order s)" using assms Some by (auto simp: spool_inv_def)
  have other: "sp_runs ?s j = sp_runs s j" "sp_files ?s j = sp_files s j" if "j \<noteq> i" for j
    using Some that by (simp_all add: dropLocked_def)
  have "map (mem_of ?s) (remove1 i (sp_order s)) = map (mem_of s) (remove1 i (sp_order s))"
    "map (disk_of ?s) (remove1 i (sp_order s)) = map (disk_of s) (remove1 i (sp_order s))"
    using i(2) by (auto simp: mem_of_drop disk_of_drop)
  then have m: "sum_list (map (mem_of ?s) (sp_order ?s)) = sum_list (map (mem_of s) (sp_order s)) - mem_of s i"
    and d: "sum_list (map (disk_of ?s) (sp_order ?s)) = sum_list (map (disk_of s) (sp_order s)) - disk_of s i"
    unfolding o by (simp_all only: sum_list_map_remove1 [OF i(1)])
  have "\<forall>j. slot_ok C (sp_files ?s j) (sp_runs ?s j)"
  proof
    fix j
    show "slot_ok C (sp_files ?s j) (sp_runs ?s j)"
    proof (cases "j = i")
      case True
      with Some show ?thesis by (simp add: dropLocked_def)
    next
      case False
      with assms other [of j] show ?thesis by (simp add: spool_inv_def)
    qed
  qed
  then have "spool_inv C ?s"
    unfolding spool_inv_def m d using assms Some i
    by (auto simp: spool_inv_def dropLocked_def mem_of_def disk_of_def)
  moreover have "sp_MemCap ?s = sp_MemCap s \<and> sp_DiskCap ?s = sp_DiskCap s \<and> sp_TTL ?s = sp_TTL s"
    using Some by (simp add: dropLocked_def)
  moreover have "contents C ?s j = contents C s j \<and> complete_run ?s j = complete_run s j \<and>
      expired now ?s j = expired now s j" if "j \<noteq> i" for j now
    using other [OF that] calculation(2) by (intro same_slot) auto
  ultimately have "spool_inv C ?s" "keeps C s ?s" using o i(2) unfolding keeps_def by (auto split del: option.split)
  then show ?thesis using o by simp
qed

section \<open>The loops end and keep the invariant\<close>

lemma while_option_inv:
  fixes f :: "'s \<Rightarrow> nat"
  assumes "\<And>t. P t \<Longrightarrow> b t \<Longrightarrow> P (c t) \<and> f (c t) < f t" "P s"
  shows "\<exists>t. while_option b c s = Some t \<and> P t \<and> \<not> b t"
proof -
  obtain t where t: "while_option b c s = Some t"
    using measure_while_option_Some [of P b c f s] assms by blast
  moreover have "P t" using while_option_rule [of P b c s t] t assms by blast
  ultimately show ?thesis using while_option_stop [OF t] by blast
qed

lemma prune_returns:
  assumes "spool_inv C s"
  shows "\<exists>s' k. pruneLocked now s = Some s' \<and> spool_inv C s' \<and> keeps C s s' \<and>
    sp_order s' = drop k (sp_order s) \<and> list_all (expired now s) (take k (sp_order s)) \<and>
    (sp_order s' \<noteq> [] \<longrightarrow> \<not> expired now s' (hd (sp_order s')))"
proof -
  let ?P = "\<lambda>t. spool_inv C t \<and> keeps C s t \<and>
    (\<exists>k. sp_order t = drop k (sp_order s) \<and> list_all (expired now s) (take k (sp_order s)))"
  let ?b = "\<lambda>t. sp_order t \<noteq> [] \<and> expired now t (hd (sp_order t))"
  let ?c = "\<lambda>t. dropLocked (hd (sp_order t)) t"
  have step: "?P (?c t) \<and> length (sp_order (?c t)) < length (sp_order t)" if "?P t" "?b t" for t
  proof -
    note P = that
    from P(1) obtain k where k: "sp_order t = drop k (sp_order s)" "list_all (expired now s) (take k (sp_order s))"
      by blast
    obtain i js where o: "sp_order t = i # js" using P(2) by (cases "sp_order t") auto
    have d: "spool_inv C (?c t)" "keeps C t (?c t)" "sp_order (?c t) = js"
      using drop_inv [of C t i] P(1) o by simp_all
    have "k < length (sp_order s)" using k(1) o by (metis drop_all list.distinct(1) not_le)
    moreover have "sp_order s ! k = i" using k(1) o calculation by (metis hd_drop_conv_nth list.sel(1))
    moreover have "expired now s i" using P o by (auto simp: keeps_def)
    ultimately have "list_all (expired now s) (take (Suc k) (sp_order s))"
      using k(2) by (simp add: take_Suc_conv_app_nth)
    moreover have "js = drop (Suc k) (sp_order s)" using k(1) o by (metis drop_Suc list.sel(3) tl_drop)
    moreover have "keeps C s (?c t)" using keeps_trans P(1) d(2) by blast
    ultimately show ?thesis using d o by auto
  qed
  have "?P s" using assms by (auto intro: exI [of _ 0])
  from while_option_inv [of ?P ?b ?c "\<lambda>t. length (sp_order t)", OF step this]
  obtain t k where "while_option ?b ?c s = Some t" "\<not> ?b t" "spool_inv C t" "keeps C s t"
    "sp_order t = drop k (sp_order s)" "list_all (expired now s) (take k (sp_order s))" by blast
  then show ?thesis unfolding pruneLocked_def by (intro exI [of _ t] exI [of _ k]) auto
qed

lemma spill_inv:
  assumes "spool_inv C s" "oldestRAMLocked s = Some i"
  shows "spool_inv C (spillLocked C i s) \<and> keeps C s (spillLocked C i s) \<and>
    sp_order (spillLocked C i s) = sp_order s \<and>
    (\<forall>j. j \<noteq> i \<longrightarrow> sp_runs (spillLocked C i s) j = sp_runs s j) \<and>
    (\<exists>r recs. sp_runs s i = Some r \<and> rn_recs r = Some recs \<and> i \<in> set (sp_order s)) \<and>
    (\<exists>r. sp_runs (spillLocked C i s) i = Some r \<and> rn_recs r = None)"
proof -
  from assms(2) have i: "i \<in> set (sp_order s)"
    and "\<exists>r recs. sp_runs s i = Some r \<and> rn_recs r = Some recs"
    by (auto simp: oldestRAMLocked_def find_Some_iff split: option.splits)
  then obtain r recs where r: "sp_runs s i = Some r" "rn_recs r = Some recs" by auto
  have "run_ok C (sp_files s i) r" using assms(1) r(1) by (metis slot_ok_simps(2) spool_inv_def)
  then obtain es where es: "es \<noteq> []" "list_all (env_ok C) es" "recs = map (rec_of C) es"
    and rr: "rn_memBytes r = int (length (log_of C es))" "rn_diskBytes r = 0" "sp_files s i = None"
    using r by (auto simp: run_ok_def sum_sizes_rec_of simp del: map_map)
  have buf: "concat (map (\<lambda>rec. encode C (rc_env rec)) recs) = log_of C es"
    by (simp add: es(3) log_of_def rec_of_def comp_def)
  let ?r = "r\<lparr>rn_diskBytes := int (length (log_of C es)), rn_memBytes := 0, rn_recs := None\<rparr>"
  have s': "spillLocked C i s = s\<lparr>sp_files := (sp_files s)(i \<mapsto> log_of C es), sp_runs := (sp_runs s)(i \<mapsto> ?r),
      sp_disk := sp_disk s + int (length (log_of C es)), sp_mem := sp_mem s - int (length (log_of C es))\<rparr>"
    using r rr buf log_not_empty [OF es(1), of C]
    by (simp add: spillLocked_def append_file_def Let_def)
  let ?s = "spillLocked C i s"
  have upd: "mem_of ?s = (mem_of s)(i := 0)" "disk_of ?s = (disk_of s)(i := int (length (log_of C es)))"
    by (auto simp: fun_eq_iff mem_of_def disk_of_def s')
  have vals: "mem_of s i = int (length (log_of C es))" "disk_of s i = 0"
    using r rr by (simp_all add: mem_of_def disk_of_def)
  have dis: "distinct (sp_order s)" using assms(1) by (simp add: spool_inv_def)
  have sums: "sum_list (map (mem_of ?s) (sp_order s)) = sp_mem ?s" "sum_list (map (disk_of ?s) (sp_order s)) = sp_disk ?s"
    unfolding upd sum_list_map_update [OF dis i] vals using assms(1) by (simp_all add: s' spool_inv_def)
  have "\<forall>j. slot_ok C (sp_files ?s j) (sp_runs ?s j)"
    using assms(1) es by (auto simp: s' spool_inv_def run_ok_def)
  then have inv: "spool_inv C ?s"
    using sums assms(1) i by (auto simp: spool_inv_def s')
  have "contents C ?s j = contents C s j" for j
  proof (cases "j = i")
    case True
    then show ?thesis
      using r es read_log' [OF es(2)] by (simp add: contents_def snapshotLocked_def s')
  next
    case False
    then show ?thesis using same_slot [of ?s j s C] by (simp add: s')
  qed
  moreover have "complete_run ?s j = complete_run s j \<and> expired now ?s j = expired now s j" for j now
    using r same_slot [of ?s j s C now] by (cases "j = i") (simp_all add: s' complete_run_def expired_def)
  ultimately have "keeps C s ?s" by (simp add: keeps_def) (simp add: s')
  with inv i r show ?thesis by (simp add: s')
qed

definition in_ram :: "'e spool \<Rightarrow> string \<Rightarrow> bool" where
  "in_ram s i \<longleftrightarrow> (case sp_runs s i of None \<Rightarrow> False | Some r \<Rightarrow> rn_recs r \<noteq> None)"

lemma oldestRAM_find: "oldestRAMLocked s = find (in_ram s) (sp_order s)"
  by (simp add: oldestRAMLocked_def in_ram_def [abs_def])

lemma run_mem_disk:
  assumes "spool_inv C s"
  shows "0 \<le> mem_of s i" "0 \<le> disk_of s i" "\<not> in_ram s i \<Longrightarrow> mem_of s i = 0"
proof -
  have ok: "slot_ok C (sp_files s i) (sp_runs s i)" using assms by (simp add: spool_inv_def)
  show "0 \<le> mem_of s i" "0 \<le> disk_of s i" "\<not> in_ram s i \<Longrightarrow> mem_of s i = 0"
    using ok by (cases "sp_runs s i"; force simp: mem_of_def disk_of_def in_ram_def run_ok_def
        sum_sizes_rec_of simp del: map_map split: option.splits)+
qed

lemma mem_loop_returns:
  assumes "spool_inv C s"
  shows "\<exists>s'. mem_loop C s = Some s' \<and> spool_inv C s' \<and> keeps C s s' \<and> sp_order s' = sp_order s \<and>
    sp_mem s' \<le> sp_MemCap s"
proof -
  let ?P = "\<lambda>t. spool_inv C t \<and> keeps C s t \<and> sp_order t = sp_order s"
  let ?b = "\<lambda>t. sp_mem t > sp_MemCap t \<and> oldestRAMLocked t \<noteq> None"
  let ?c = "\<lambda>t. spillLocked C (the (oldestRAMLocked t)) t"
  let ?f = "\<lambda>t. length (filter (in_ram t) (sp_order s))"
  have step: "?P (?c t) \<and> ?f (?c t) < ?f t" if "?P t" "?b t" for t
  proof -
    note P = that
    from P(2) obtain i where i: "oldestRAMLocked t = Some i" by blast
    note sp = spill_inv [OF conjunct1 [OF P(1)] i]
    have ram: "in_ram (?c t) j \<longleftrightarrow> in_ram t j \<and> j \<noteq> i" for j
      using sp i by (cases "j = i") (auto simp: in_ram_def)
    then have "in_ram (?c t) = (\<lambda>j. in_ram t j \<and> j \<noteq> i)" by blast
    then have "filter (in_ram (?c t)) (sp_order s) = filter (\<lambda>j. j \<noteq> i) (filter (in_ram t) (sp_order s))"
      by simp
    moreover have "i \<in> set (filter (in_ram t) (sp_order s))" using sp P(1) by (auto simp: in_ram_def)
    ultimately have "?f (?c t) < ?f t" by (metis (mono_tags, lifting) length_filter_less)
    moreover have "keeps C s (?c t)" using sp P(1) i keeps_trans by auto
    ultimately show ?thesis using sp P(1) i by auto
  qed
  have "?P s" using assms by simp
  from while_option_inv [of ?P ?b ?c ?f, OF step this]
  obtain t where t: "mem_loop C s = Some t" "\<not> ?b t" "?P t" unfolding mem_loop_def by blast
  have "sp_mem t \<le> sp_MemCap t"
  proof (rule ccontr)
    assume "\<not> sp_mem t \<le> sp_MemCap t"
    with t(2) have "\<forall>j \<in> set (sp_order t). \<not> in_ram t j" by (auto simp: oldestRAM_find find_None_iff)
    then have "map (mem_of t) (sp_order t) = map (\<lambda>_. 0) (sp_order t)"
      using run_mem_disk(3) t(3) by (intro map_cong) auto
    then have "sum_list (map (mem_of t) (sp_order t)) = 0" by (simp only: sum_list_0)
    with t(3) \<open>\<not> sp_mem t \<le> sp_MemCap t\<close> show False by (simp add: spool_inv_def)
  qed
  with t show ?thesis by (auto simp: keeps_def)
qed

lemma disk_loop_returns:
  assumes "spool_inv C s"
  shows "\<exists>s' k. disk_loop s = Some s' \<and> spool_inv C s' \<and> keeps C s s' \<and> sp_order s' = drop k (sp_order s) \<and>
    sp_mem s' \<le> sp_mem s \<and> sp_disk s' \<le> sp_DiskCap s"
proof -
  let ?P = "\<lambda>t. spool_inv C t \<and> keeps C s t \<and> sp_mem t \<le> sp_mem s \<and> (\<exists>k. sp_order t = drop k (sp_order s))"
  let ?b = "\<lambda>t. sp_disk t > sp_DiskCap t \<and> sp_order t \<noteq> []"
  let ?c = "\<lambda>t. dropLocked (hd (sp_order t)) t"
  have step: "?P (?c t) \<and> length (sp_order (?c t)) < length (sp_order t)" if "?P t" "?b t" for t
  proof -
    note P = that
    obtain i js where o: "sp_order t = i # js" using P(2) by (cases "sp_order t") auto
    have d: "spool_inv C (?c t)" "keeps C t (?c t)" "sp_order (?c t) = js"
      using drop_inv [of C t i] P(1) o by simp_all
    have "sp_mem (?c t) = sp_mem t - mem_of t i"
      by (simp add: o dropLocked_def mem_of_def split: option.split)
    then have "sp_mem (?c t) \<le> sp_mem s" using run_mem_disk(1) [of C t i] P(1) by auto
    moreover have "\<exists>k. js = drop k (sp_order s)" using P(1) o by (metis drop_Suc list.sel(3) tl_drop)
    moreover have "keeps C s (?c t)" using keeps_trans P(1) d(2) by blast
    ultimately show ?thesis using d o by auto
  qed
  have "?P s" using assms by (auto intro: exI [of _ 0])
  from while_option_inv [of ?P ?b ?c "\<lambda>t. length (sp_order t)", OF step this]
  obtain t where t: "disk_loop s = Some t" "\<not> ?b t" "?P t" unfolding disk_loop_def by blast
  moreover have "sp_disk t \<le> sp_DiskCap t" using t(2,3) by (auto simp: spool_inv_def)
  ultimately show ?thesis by (auto simp: keeps_def)
qed

section \<open>Append\<close>

lemma update_inv:
  assumes inv: "spool_inv C s" and r: "sp_runs s' = (sp_runs s)(i \<mapsto> r)" "run_ok C (sp_files s' i) r"
    and f: "\<And>j. j \<noteq> i \<Longrightarrow> sp_files s' j = sp_files s j"
    and o: "sp_order s' = (if i \<in> set (sp_order s) then sp_order s else sp_order s @ [i])"
    and m: "sp_mem s' = sp_mem s - mem_of s i + rn_memBytes r" "sp_disk s' = sp_disk s - disk_of s i + rn_diskBytes r"
    and c: "sp_MemCap s' = sp_MemCap s" "sp_DiskCap s' = sp_DiskCap s"
  shows "spool_inv C s'"
proof -
  have upd: "mem_of s' = (mem_of s)(i := rn_memBytes r)" "disk_of s' = (disk_of s)(i := rn_diskBytes r)"
    by (auto simp: fun_eq_iff mem_of_def disk_of_def r)
  have dis: "distinct (sp_order s)" "set (sp_order s) = dom (sp_runs s)" using inv by (simp_all add: spool_inv_def)
  have sums: "sum_list (map (g(i := v)) (sp_order s')) = sum_list (map g (sp_order s)) - g i + v"
    if "i \<notin> set (sp_order s) \<Longrightarrow> g i = 0" for g and v :: int
  proof (cases "i \<in> set (sp_order s)")
    case True
    then show ?thesis using sum_list_map_update [OF dis(1)] by (simp add: o)
  next
    case False
    then have "map (g(i := v)) (sp_order s) = map g (sp_order s)" by (intro map_cong) auto
    with False that show ?thesis by (simp add: o del: map_eq_conv)
  qed
  have "i \<notin> set (sp_order s) \<Longrightarrow> mem_of s i = 0" "i \<notin> set (sp_order s) \<Longrightarrow> disk_of s i = 0"
    using dis(2) by (auto simp: mem_of_def disk_of_def split: option.splits)
  then have "sum_list (map (mem_of s') (sp_order s')) = sp_mem s'" "sum_list (map (disk_of s') (sp_order s')) = sp_disk s'"
    unfolding upd m using sums inv by (simp_all add: spool_inv_def)
  moreover have "slot_ok C (sp_files s' j) (sp_runs s' j)" for j
    using inv r(2) f [of j] by (cases "j = i") (simp_all add: r(1) spool_inv_def)
  ultimately show ?thesis
    using inv dis by (auto simp: spool_inv_def o r(1) c)
qed

lemma sum_sizes_append: "sum_sizes (xs @ ys) = sum_sizes xs + sum_sizes ys"
  by (simp add: sum_sizes_def)

lemma contents_other:
  "sp_runs s' j = sp_runs s j \<Longrightarrow> sp_files s' j = sp_files s j \<Longrightarrow> contents C s' j = contents C s j"
  by (cases "sp_runs s j") (simp_all add: contents_def snapshotLocked_def split: option.split)

text \<open>One record more for a run that has records in memory, or has none yet.\<close>

lemma add_record_ram:
  assumes inv: "spool_inv C s" and env: "env_ok C env"
    and r: "r = (case sp_runs s i of None \<Rightarrow> new_run now | Some r \<Rightarrow> r)" "rn_recs r = Some recs"
  shows "spool_inv C (add_record C now i env s) \<and>
    sp_order (add_record C now i env s) = (if i \<in> set (sp_order s) then sp_order s else sp_order s @ [i]) \<and>
    (\<forall>j. contents C (add_record C now i env s) j = contents C s j @ (if j = i then [env] else [])) \<and>
    sp_MemCap (add_record C now i env s) = sp_MemCap s \<and> sp_DiskCap (add_record C now i env s) = sp_DiskCap s"
proof -
  have slot: "slot_ok C (sp_files s i) (sp_runs s i)" and order: "i \<in> set (sp_order s) \<longleftrightarrow> sp_runs s i \<noteq> None"
    using inv by (auto simp: spool_inv_def)
  then obtain es where es: "recs = map (rec_of C) es" "list_all (env_ok C) es"
    and rr: "rn_memBytes r = sum_sizes recs" "rn_diskBytes r = 0" "sp_files s i = None"
    using r by (cases "sp_runs s i") (auto simp: new_run_def sum_sizes_def run_ok_def)
  have old: "mem_of s i = rn_memBytes r" "disk_of s i = 0"
    using r rr by (auto simp: mem_of_def disk_of_def new_run_def split: option.splits)
  let ?r = "r\<lparr>rn_recs := Some (recs @ [rec_of C env]),
    rn_memBytes := rn_memBytes r + rc_size (rec_of C env), rn_hasResult := (IsResult C env \<or> rn_hasResult r)\<rparr>"
  have s': "add_record C now i env s = s\<lparr>sp_runs := (sp_runs s)(i \<mapsto> ?r),
      sp_order := (if i \<in> set (sp_order s) then sp_order s else sp_order s @ [i]),
      sp_mem := sp_mem s + rc_size (rec_of C env)\<rparr>"
    using r order by (auto simp: add_record_def Let_def rec_of_def split: option.splits)
  have ok: "run_ok C None ?r"
    using es env rr by (auto simp: run_ok_def sum_sizes_def rec_of_def intro!: exI [of _ "es @ [env]"])
  have "spool_inv C (add_record C now i env s)"
    by (rule update_inv [OF inv, of _ i ?r]) (use ok old rr in \<open>simp_all add: s'\<close>)
  moreover have "contents C (add_record C now i env s) j = contents C s j @ (if j = i then [env] else [])" for j
  proof (cases "j = i")
    case True
    then show ?thesis
      using r es by (auto simp: s' contents_def snapshotLocked_def rec_of_def new_run_def split: option.splits)
  next
    case False
    then show ?thesis by (subst contents_other [of _ j s]) (simp_all add: s')
  qed
  ultimately show ?thesis by (simp add: s')
qed

lemma add_record_disk:
  assumes inv: "spool_inv C s" and env: "env_ok C env"
    and r: "sp_runs s i = Some r" "rn_recs r = None"
  shows "spool_inv C (add_record C now i env s) \<and>
    sp_order (add_record C now i env s) = (if i \<in> set (sp_order s) then sp_order s else sp_order s @ [i]) \<and>
    (\<forall>j. contents C (add_record C now i env s) j = contents C s j @ (if j = i then [env] else [])) \<and>
    sp_MemCap (add_record C now i env s) = sp_MemCap s \<and> sp_DiskCap (add_record C now i env s) = sp_DiskCap s"
proof -
  have "run_ok C (sp_files s i) r" and order: "i \<in> set (sp_order s)"
    using inv r by (auto simp: spool_inv_def) (metis slot_ok_simps(2))
  then obtain es where es: "list_all (env_ok C) es" "sp_files s i = Some (log_of C es)"
    and rr: "rn_memBytes r = 0" "rn_diskBytes r = int (length (log_of C es))"
    using r by (auto simp: run_ok_def)
  have old: "mem_of s i = 0" "disk_of s i = rn_diskBytes r"
    using r rr by (simp_all add: mem_of_def disk_of_def)
  have log: "log_of C es @ encode C env = log_of C (es @ [env])" by (simp add: log_of_def)
  let ?r = "r\<lparr>rn_diskBytes := rn_diskBytes r + int (length (encode C env)),
    rn_hasResult := (IsResult C env \<or> rn_hasResult r)\<rparr>"
  have s': "add_record C now i env s = s\<lparr>sp_files := (sp_files s)(i \<mapsto> log_of C (es @ [env])),
      sp_runs := (sp_runs s)(i \<mapsto> ?r), sp_disk := sp_disk s + int (length (encode C env))\<rparr>"
    using r es log by (simp add: add_record_def Let_def append_file_def)
  have all: "list_all (env_ok C) (es @ [env])" using es env by simp
  have ok: "run_ok C (Some (log_of C (es @ [env]))) ?r"
    using all r rr log by (auto simp: run_ok_def intro!: exI [of _ "es @ [env]"] simp del: list_all_append)
      (simp add: log [symmetric])
  have "spool_inv C (add_record C now i env s)"
    by (rule update_inv [OF inv, of _ i ?r]) (use ok old rr order in \<open>simp_all add: s'\<close>)
  moreover have "contents C (add_record C now i env s) j = contents C s j @ (if j = i then [env] else [])" for j
  proof (cases "j = i")
    case True
    then show ?thesis
      using r es read_log' [OF es(1)] read_log' [OF all]
      by (simp add: s' contents_def snapshotLocked_def del: map_map) (simp add: rec_of_def comp_def)
  next
    case False
    then show ?thesis by (subst contents_other [of _ j s]) (simp_all add: s')
  qed
  ultimately show ?thesis using order by (simp add: s')
qed

lemma add_record_inv:
  assumes "spool_inv C s" "env_ok C env"
  shows "spool_inv C (add_record C now i env s) \<and>
    sp_order (add_record C now i env s) = (if i \<in> set (sp_order s) then sp_order s else sp_order s @ [i]) \<and>
    (\<forall>j. contents C (add_record C now i env s) j = contents C s j @ (if j = i then [env] else [])) \<and>
    sp_MemCap (add_record C now i env s) = sp_MemCap s \<and> sp_DiskCap (add_record C now i env s) = sp_DiskCap s"
proof (cases "rn_recs (case sp_runs s i of None \<Rightarrow> new_run now | Some r \<Rightarrow> r)")
  case None
  then obtain r where "sp_runs s i = Some r" "rn_recs r = None" by (auto simp: new_run_def split: option.splits)
  then show ?thesis by (rule add_record_disk [OF assms])
next
  case (Some recs)
  then show ?thesis by (intro add_record_ram [OF assms refl])
qed

lemma while_option_keeps:
  assumes "while_option b c s = Some t" "\<And>s. f (c s) = f s"
  shows "f t = f s"
  using while_option_rule [of "\<lambda>x. f x = f s" b c s t] assms by simp

lemma drop_closed [simp]: "sp_closed (dropLocked i s) = sp_closed s"
  by (simp add: dropLocked_def split: option.split)

lemma spill_closed [simp]: "sp_closed (spillLocked C i s) = sp_closed s"
  by (simp add: spillLocked_def append_file_def Let_def split: option.split)

lemma add_record_closed [simp]: "sp_closed (add_record C now i env s) = sp_closed s"
  by (simp add: add_record_def append_file_def Let_def split: option.split)

lemma loops_closed:
  "pruneLocked now s = Some s1 \<Longrightarrow> sp_closed s1 = sp_closed s"
  "mem_loop C s = Some s1 \<Longrightarrow> sp_closed s1 = sp_closed s"
  "disk_loop s = Some s1 \<Longrightarrow> sp_closed s1 = sp_closed s"
  unfolding pruneLocked_def mem_loop_def disk_loop_def by (erule while_option_keeps, simp)+

lemma Append_closed: "Append C now i env s = Some (ok, s') \<Longrightarrow> sp_closed s' = sp_closed s"
  by (auto simp: Append_def bind_eq_Some_conv loops_closed split: if_splits)

lemma Append_run:
  assumes "spool_inv C s" "\<not> sp_closed s" "env_ok C env"
  shows "\<exists>s' p q live. Append C now i env s = Some (True, s') \<and> spool_inv C s' \<and>
    sp_mem s' \<le> sp_MemCap s \<and> sp_disk s' \<le> sp_DiskCap s \<and>
    live = drop p (sp_order s) \<and> list_all (expired now s) (take p (sp_order s)) \<and>
    sp_order s' = drop q (if i \<in> set live then live else live @ [i]) \<and>
    (\<forall>j \<in> set (sp_order s'). contents C s' j =
       (if j \<in> set live then contents C s j else []) @ (if j = i then [env] else []))"
proof -
  obtain s1 p where 1: "pruneLocked now s = Some s1" "spool_inv C s1" "keeps C s s1"
    "sp_order s1 = drop p (sp_order s)" "list_all (expired now s) (take p (sp_order s))"
    using prune_returns [OF assms(1)] by blast
  let ?s2 = "add_record C now i env s1"
  note 2 = add_record_inv [OF 1(2) assms(3), of now i]
  obtain s3 where 3: "mem_loop C ?s2 = Some s3" "spool_inv C s3" "keeps C ?s2 s3" "sp_order s3 = sp_order ?s2"
    "sp_mem s3 \<le> sp_MemCap ?s2" using mem_loop_returns [OF conjunct1 [OF 2]] by blast
  obtain s4 q where 4: "disk_loop s3 = Some s4" "spool_inv C s4" "keeps C s3 s4" "sp_order s4 = drop q (sp_order s3)"
    "sp_mem s4 \<le> sp_mem s3" "sp_disk s4 \<le> sp_DiskCap s3" using disk_loop_returns [OF 3(2)] by blast
  have k: "keeps C ?s2 s4" using keeps_trans [OF 3(3) 4(3)] .
  have caps: "sp_MemCap ?s2 = sp_MemCap s" "sp_DiskCap s3 = sp_DiskCap s"
    using 1(3) 2 3(3) by (simp_all add: keeps_def)
  have "contents C s1 j = (if j \<in> set (sp_order s1) then contents C s j else [])" for j
  proof (cases "j \<in> set (sp_order s1)")
    case True
    with 1(3) show ?thesis by (simp add: keeps_def)
  next
    case False
    then have "sp_runs s1 j = None" using 1(2) by (auto simp: spool_inv_def)
    with False show ?thesis by (simp add: contents_def snapshotLocked_def)
  qed
  then have c: "\<forall>j \<in> set (sp_order s4). contents C s4 j =
       (if j \<in> set (sp_order s1) then contents C s j else []) @ (if j = i then [env] else [])"
    using k 2 by (simp add: keeps_def)
  show ?thesis
    using 1 2 3 4 caps c assms(2)
    by (intro exI [of _ s4] exI [of _ p] exI [of _ q] exI [of _ "sp_order s1"]) (auto simp: Append_def)
qed

text \<open>
  C12: Appending keeps the spool within its bounds and loses only the oldest runs.  On a
  consistent spool \<open>Append\<close> returns without error, leaves it consistent, the memory tier
  within \<open>MemCap\<close> and the disk tier within \<open>DiskCap\<close>; the runs it removes are expired runs
  and then a prefix of the queue, oldest first; every run still there has exactly its records
  in order, with the new record last in its own run, whichever tier it is in.
\<close>
theorem Append_bounded:
  assumes "spool_inv C s" "\<not> sp_closed s" "env_ok C env"
  shows "\<exists>s' p q live. Append C now i env s = Some (True, s') \<and> spool_inv C s' \<and>
    sp_mem s' \<le> sp_MemCap s \<and> sp_disk s' \<le> sp_DiskCap s \<and>
    live = drop p (sp_order s) \<and> list_all (expired now s) (take p (sp_order s)) \<and>
    sp_order s' = drop q (if i \<in> set live then live else live @ [i]) \<and>
    (\<forall>j \<in> set (sp_order s'). contents C s' j =
       (if j \<in> set live then contents C s j else []) @ (if j = i then [env] else []))"
  by (rule Append_run [OF assms])

definition spool_sample :: "string spool" where
  "spool_sample = Open text_codec 20 40 1000 []"

theorem Append_bounded_witness:
  "\<exists>s'. Append text_codec 5 ''r1'' ''result'' spool_sample = Some (True, s') \<and> sp_mem s' \<le> 20"
  using Append_bounded [of text_codec spool_sample "''result''" 5 "''r1''"]
  by (auto simp: spool_sample_def Open_def spool_inv_def text_codec_def env_ok_def)

section \<open>Drain\<close>

lemma send_all_prefix:
  "send_all ok k recs = (out, all) \<Longrightarrow>
     (\<exists>m \<le> length recs. out = map rc_env (take m recs) \<and> (all \<longleftrightarrow> m = length recs) \<and> (all \<or> (\<exists>k. \<not> ok k)))"
proof (induction recs arbitrary: k out all)
  case (Cons rec recs)
  show ?case
  proof (cases "ok k")
    case True
    obtain out1 all1 where s: "send_all ok (Suc k) recs = (out1, all1)" by (cases "send_all ok (Suc k) recs")
    from Cons.IH [OF s] obtain m where "m \<le> length recs" "out1 = map rc_env (take m recs)"
      "all1 \<longleftrightarrow> m = length recs" "all1 \<or> (\<exists>k. \<not> ok k)" by blast
    with True s Cons.prems show ?thesis by (intro exI [of _ "Suc m"]) auto
  next
    case False
    with Cons.prems show ?thesis by (intro exI [of _ 0]) auto
  qed
qed simp

lemma drop_all:
  assumes "snapshotLocked C s i = Inr recs" "sp_runs s i = Some r"
  shows "dropPrefixLocked C i (length recs) s = (True, dropLocked i s)"
  using assms by (cases "rn_recs r") (auto simp: dropPrefixLocked_def dropLocked_def snapshotLocked_def Let_def)

text \<open>What a drain does to the spool, given the runs \<open>ds\<close> it delivered.\<close>

definition drained_ok ::
  "('e, 'x) codec_scheme \<Rightarrow> (nat \<Rightarrow> bool) \<Rightarrow> int \<Rightarrow> 'e spool \<Rightarrow> 'e list \<Rightarrow> string list \<Rightarrow> drain_error option
   \<Rightarrow> 'e spool \<Rightarrow> bool" where
  "drained_ok C ok now s sent ds err s' \<longleftrightarrow>
     spool_inv C s' \<and> keeps C s s' \<and> set ds \<inter> set (sp_order s') = {} \<and>
     (\<forall>i \<in> set ds. i \<in> set (sp_order s) \<and> complete_run s i) \<and>
     (\<forall>i \<in> set (sp_order s). i \<in> set (sp_order s') \<or> i \<in> set ds \<or> expired now s i) \<and>
     (\<exists>partial. sent = concat (map (contents C s) ds) @ partial \<and>
        (case err of
           None \<Rightarrow> partial = [] \<and> (\<forall>i \<in> set (sp_order s'). \<not> complete_run s' i)
         | Some e \<Rightarrow> e = SendError \<and> (\<exists>k. \<not> ok k) \<and>
             (\<exists>i m. i \<in> set (sp_order s') \<and> complete_run s' i \<and> m < length (contents C s i) \<and>
                partial = take m (contents C s i))))"

lemma partial_cong:
  assumes "case err of None \<Rightarrow> P
     | Some e \<Rightarrow> Q e \<and> (\<exists>k. \<not> ok k) \<and> (\<exists>i m. i \<in> A \<and> B i \<and> m < length (f i) \<and> partial = take m (f i))"
    "\<And>i. i \<in> A \<Longrightarrow> f i = g i"
  shows "case err of None \<Rightarrow> P
     | Some e \<Rightarrow> Q e \<and> (\<exists>k. \<not> ok k) \<and> (\<exists>i m. i \<in> A \<and> B i \<and> m < length (g i) \<and> partial = take m (g i))"
proof (cases err)
  case (Some e)
  with assms(1) obtain i m where "Q e" "\<exists>k. \<not> ok k" "i \<in> A" "B i" "m < length (f i)" "partial = take m (f i)"
    by auto
  with Some assms(2) [of i] show ?thesis by auto
qed (use assms in simp)

lemma drained_ok_prune:
  assumes "spool_inv C s1" "keeps C s s1" "sp_order s1 = drop k (sp_order s)"
    "list_all (expired now s) (take k (sp_order s))" "drained_ok C ok now s1 sent ds err s'"
  shows "drained_ok C ok now s sent ds err s'"
proof -
  have sub: "set (sp_order s1) \<subseteq> set (sp_order s)" "set (sp_order s') \<subseteq> set (sp_order s1)"
    using assms(2,5) by (auto simp: keeps_def drained_ok_def)
  have c: "contents C s1 i = contents C s i" "complete_run s1 i = complete_run s i" "expired now s1 i = expired now s i"
    if "i \<in> set (sp_order s1)" for i using assms(2) that by (simp_all add: keeps_def)
  have gone: "i \<in> set (sp_order s1) \<or> expired now s i" if "i \<in> set (sp_order s)" for i
  proof -
    have "i \<in> set (take k (sp_order s)) \<union> set (drop k (sp_order s))"
      using that by (metis append_take_drop_id set_append)
    with assms(3,4) show ?thesis by (auto simp: list_all_iff)
  qed
  have ds: "\<forall>i \<in> set ds. i \<in> set (sp_order s1) \<and> complete_run s1 i" using assms(5) by (simp add: drained_ok_def)
  then have cc: "map (contents C s1) ds = map (contents C s) ds" using c by auto
  have "keeps C s s'" using assms(2,5) keeps_trans by (auto simp: drained_ok_def)
  moreover have "\<forall>i \<in> set (sp_order s). i \<in> set (sp_order s') \<or> i \<in> set ds \<or> expired now s i"
    using gone c(3) assms(5) unfolding drained_ok_def by blast
  moreover have "\<exists>partial. sent = concat (map (contents C s) ds) @ partial \<and>
        (case err of
           None \<Rightarrow> partial = [] \<and> (\<forall>i \<in> set (sp_order s'). \<not> complete_run s' i)
         | Some e \<Rightarrow> e = SendError \<and> (\<exists>k. \<not> ok k) \<and>
             (\<exists>i m. i \<in> set (sp_order s') \<and> complete_run s' i \<and> m < length (contents C s i) \<and>
                partial = take m (contents C s i)))"
  proof -
    from assms(5) obtain partial where p: "sent = concat (map (contents C s) ds) @ partial"
      "case err of
           None \<Rightarrow> partial = [] \<and> (\<forall>i \<in> set (sp_order s'). \<not> complete_run s' i)
         | Some e \<Rightarrow> e = SendError \<and> (\<exists>k. \<not> ok k) \<and>
             (\<exists>i m. i \<in> set (sp_order s') \<and> complete_run s' i \<and> m < length (contents C s1 i) \<and>
                partial = take m (contents C s1 i))"
      unfolding drained_ok_def cc by blast
    have "\<And>i. i \<in> set (sp_order s') \<Longrightarrow> contents C s1 i = contents C s i" using sub c by auto
    from partial_cong [OF p(2) this] p(1) show ?thesis by blast
  qed
  ultimately show ?thesis
    using assms(5) ds sub(1) c(2) unfolding drained_ok_def by blast
qed

lemma drained_ok_step:
  assumes inv: "spool_inv C s" and i: "i \<in> set (sp_order s)" "complete_run s i" "sent1 = contents C s i"
    and d: "drained_ok C ok now (dropLocked i s) sent ds err s'"
  shows "drained_ok C ok now s (sent1 @ sent) (i # ds) err s'"
proof -
  let ?t = "dropLocked i s"
  note dr = drop_inv [OF inv, of i]
  have o: "set (sp_order ?t) = set (sp_order s) - {i}" using dr inv by (auto simp: spool_inv_def)
  have c: "contents C ?t j = contents C s j" "complete_run ?t j = complete_run s j" "expired now ?t j = expired now s j"
    if "j \<in> set (sp_order ?t)" for j using dr that by (simp_all add: keeps_def)
  have sub: "set (sp_order s') \<subseteq> set (sp_order ?t)" and ds: "\<forall>j \<in> set ds. j \<in> set (sp_order ?t) \<and> complete_run ?t j"
    using d by (simp_all add: drained_ok_def keeps_def)
  then have cc: "map (contents C ?t) ds = map (contents C s) ds" using c by auto
  from d obtain partial where p: "sent = concat (map (contents C s) ds) @ partial"
      "case err of
           None \<Rightarrow> partial = [] \<and> (\<forall>i \<in> set (sp_order s'). \<not> complete_run s' i)
         | Some e \<Rightarrow> e = SendError \<and> (\<exists>k. \<not> ok k) \<and>
             (\<exists>i m. i \<in> set (sp_order s') \<and> complete_run s' i \<and> m < length (contents C ?t i) \<and>
                partial = take m (contents C ?t i))"
    unfolding drained_ok_def cc by blast
  have "\<And>j. j \<in> set (sp_order s') \<Longrightarrow> contents C ?t j = contents C s j" using sub c by auto
  note tail = partial_cong [OF p(2) this]
  have "sent1 @ sent = concat (map (contents C s) (i # ds)) @ partial" using p(1) i(3) by simp
  with tail have "\<exists>partial. sent1 @ sent = concat (map (contents C s) (i # ds)) @ partial \<and>
        (case err of
           None \<Rightarrow> partial = [] \<and> (\<forall>i \<in> set (sp_order s'). \<not> complete_run s' i)
         | Some e \<Rightarrow> e = SendError \<and> (\<exists>k. \<not> ok k) \<and>
             (\<exists>i m. i \<in> set (sp_order s') \<and> complete_run s' i \<and> m < length (contents C s i) \<and>
                partial = take m (contents C s i)))"
    by blast
  moreover have "keeps C s s'" using dr d keeps_trans by (auto simp: drained_ok_def)
  moreover have "i \<notin> set (sp_order s')" using sub o by auto
  moreover have "\<forall>j \<in> set (sp_order s). j \<in> set (sp_order s') \<or> j \<in> set (i # ds) \<or> expired now s j"
  proof
    fix j
    assume j: "j \<in> set (sp_order s)"
    show "j \<in> set (sp_order s') \<or> j \<in> set (i # ds) \<or> expired now s j"
      using d j o c(3) [of j] by (cases "j = i") (auto simp: drained_ok_def)
  qed
  ultimately show ?thesis
    using d ds i(1,2) o c(2) unfolding drained_ok_def by auto
qed

lemma spool_drain_loop_ok:
  "spool_inv C s \<Longrightarrow> length (sp_order s) < fuel \<Longrightarrow>
     \<exists>out ds err s'. spool_drain_loop fuel C ok now sent drained s =
       Some (\<lparr>dn_sent = sent @ out, dn_drained = drained @ ds, dn_error = err\<rparr>, s') \<and>
       drained_ok C ok now s out ds err s'"
proof (induction fuel arbitrary: s sent drained)
  case (Suc fuel)
  obtain s1 k where 1: "pruneLocked now s = Some s1" "spool_inv C s1" "keeps C s s1"
    "sp_order s1 = drop k (sp_order s)" "list_all (expired now s) (take k (sp_order s))"
    using prune_returns [OF Suc.prems(1)] by blast
  have len: "length (sp_order s1) < Suc fuel" using 1(4) Suc.prems(2) by simp
  have "\<exists>out ds err s'. spool_drain_loop (Suc fuel) C ok now sent drained s =
       Some (\<lparr>dn_sent = sent @ out, dn_drained = drained @ ds, dn_error = err\<rparr>, s') \<and>
       drained_ok C ok now s1 out ds err s'"
  proof (cases "find (complete_run s1) (sp_order s1)")
    case None
    then have "drained_ok C ok now s1 [] [] None s1"
      using 1(2) by (auto simp: drained_ok_def find_None_iff)
    moreover have "spool_drain_loop (Suc fuel) C ok now sent drained s =
        Some (\<lparr>dn_sent = sent @ [], dn_drained = drained @ [], dn_error = None\<rparr>, s1)"
      using 1(1) None by simp
    ultimately show ?thesis by blast
  next
    case (Some i)
    then have i: "i \<in> set (sp_order s1)" "complete_run s1 i" by (auto simp: find_Some_iff)
    then obtain r where r: "sp_runs s1 i = Some r" by (auto simp: complete_run_def split: option.splits)
    from run_ok_snapshot [OF 1(2) r] obtain es where es: "es \<noteq> []"
      "snapshotLocked C s1 i = Inr (map (rec_of C) es)" "contents C s1 i = es" by auto
    obtain out all where send: "send_all ok (length sent) (map (rec_of C) es) = (out, all)"
      by (cases "send_all ok (length sent) (map (rec_of C) es)")
    from send_all_prefix [OF send] obtain m where m: "m \<le> length es" "out = take m es" "all \<longleftrightarrow> m = length es"
      "all \<or> (\<exists>k. \<not> ok k)" by (auto simp: take_map simp del: map_map)
    show ?thesis
    proof (cases all)
      case False
      then have "drained_ok C ok now s1 out [] (Some SendError) s1"
        using 1(2) i m es by (auto simp: drained_ok_def intro!: exI [of _ i] exI [of _ m])
      moreover have "spool_drain_loop (Suc fuel) C ok now sent drained s =
          Some (\<lparr>dn_sent = sent @ out, dn_drained = drained @ [], dn_error = Some SendError\<rparr>, s1)"
        using 1(1) Some es send False by simp
      ultimately show ?thesis by blast
    next
      case True
      let ?s2 = "dropLocked i s1"
      have "spool_drain_loop (Suc fuel) C ok now sent drained s = spool_drain_loop fuel C ok now (sent @ out) (drained @ [i]) ?s2"
        using 1(1) Some es send True drop_all [OF es(2) r] by simp
      moreover have "spool_inv C ?s2" "length (sp_order ?s2) < fuel"
        using drop_inv [OF 1(2), of i] len i(1) by (auto simp: length_remove1)
          (metis One_nat_def Suc_less_SucD Suc_pred length_pos_if_in_set)
      from Suc.IH [OF this, of "sent @ out" "drained @ [i]"] obtain out2 ds err s' where
        "spool_drain_loop fuel C ok now (sent @ out) (drained @ [i]) ?s2 =
           Some (\<lparr>dn_sent = (sent @ out) @ out2, dn_drained = (drained @ [i]) @ ds, dn_error = err\<rparr>, s')"
        "drained_ok C ok now ?s2 out2 ds err s'" by blast
      moreover have "out = contents C s1 i" using m True es(3) by simp
      ultimately show ?thesis using drained_ok_step [OF 1(2) i] by fastforce
    qed
  qed
  then show ?case using drained_ok_prune [OF 1(2-5)] by blast
qed simp


definition drain_sample :: "string spool" where
  "drain_sample = snd (the (Append text_codec 5 ''r1'' ''result'' spool_sample))"


section \<open>A log torn after a length header\<close>

lemma inspect_encode:
  assumes "env_ok C e"
  shows "inspectFile C b t (encode C e @ bs) = inspectFile C (IsResult C e) (t + int (length (encode C e))) bs"
proof -
  note n = header_length [OF assms]
  have "length (encode C e @ bs) \<ge> 4" by (simp add: length_encode)
  then show ?thesis
    using assms by (subst inspectFile.simps) (auto simp: take_encode n env_ok_def length_encode Let_def)
qed

lemma inspect_log:
  "list_all (env_ok C) es \<Longrightarrow>
     inspectFile C b t (log_of C es @ bs) =
       inspectFile C (if es = [] then b else IsResult C (last es)) (t + int (length (log_of C es))) bs"
  by (induction es arbitrary: b t) (auto simp: log_of_def inspect_encode add.assoc)

lemma inspect_header:
  assumes "env_ok C e"
  shows "inspectFile C b t (take 4 (encode C e)) = Some (b, t)"
  using assms header_length [OF assms]
  by (subst inspectFile.simps) (auto simp: take_encode env_ok_def Let_def)

text \<open>A crash that leaves a log cut right after a length header: the reopened spool adopts the
  run as complete, and then every \<open>Drain\<close> fails reading it, sends nothing and keeps it at the front,
  however the sends would go, until its lifetime is over.\<close>

theorem torn_header_wedges:
  assumes "list_all (env_ok C) es" "es \<noteq> []" "IsResult C (last es)" "env_ok C e"
    and "s = Open C memCap diskCap ttl [(i, mtime, log_of C es @ take 4 (encode C e))]" "now - mtime \<le> sp_TTL s"
  shows "Drain C ok now s = Some (\<lparr>dn_sent = [], dn_drained = [], dn_error = Some (SnapshotError ReadEOF)\<rparr>, s)"
proof -
  have insp: "inspectFile C False 0 (log_of C es @ take 4 (encode C e)) = Some (True, int (length (log_of C es)))"
    using assms(2,3) by (simp add: inspect_log [OF assms(1)] inspect_header [OF assms(4)])
  obtain r where s: "sp_order s = [i]" "sp_runs s i = Some r" "rn_recs r = None" "rn_hasResult r" "rn_since r = mtime"
    "sp_files s i = Some (log_of C es @ take 4 (encode C e))"
    unfolding assms(5) by (auto simp: Open_def Let_def insp)
  have "read_records C (take 4 (encode C e)) = Inl ReadEOF"
    using assms(4) by (subst read_torn) (auto simp: length_encode env_ok_def)
  then have snap: "snapshotLocked C s i = Inl ReadEOF"
    using s by (simp add: snapshotLocked_def read_log [OF assms(1)])
  have "pruneLocked now s = Some s"
    using s assms(6) by (subst pruneLocked_def, subst while_option_unfold) (simp add: expired_def)
  with s snap show ?thesis by (simp add: Drain_def complete_run_def)
qed

theorem torn_header_wedges_witness:
  "Drain text_codec (\<lambda>k. True) 7
      (Open text_codec 0 0 100 [(''r1'', 5, log_of text_codec [''result''] @ take 4 (encode text_codec ''out''))]) =
     Some (\<lparr>dn_sent = [], dn_drained = [], dn_error = Some (SnapshotError ReadEOF)\<rparr>,
       Open text_codec 0 0 100 [(''r1'', 5, log_of text_codec [''result''] @ take 4 (encode text_codec ''out''))])"
proof (rule torn_header_wedges [OF _ _ _ _ refl])
  show "list_all (env_ok text_codec) [''result'']" "IsResult text_codec (last [''result''])" "env_ok text_codec ''out''"
    by (simp_all add: text_codec_def env_ok_def)
qed (simp_all add: Open_def Let_def)

section \<open>Appending while a drain is under way\<close>

lemma sum_sizes_prefix: "sum_sizes (map (rec_of C) (es1 @ es2)) - sum_sizes (map (rec_of C) es1) = sum_sizes (map (rec_of C) es2)"
  by (simp add: sum_sizes_append)

lemma dropPrefix_ram:
  assumes inv: "spool_inv C s" and r: "sp_runs s i = Some r" "rn_recs r = Some (map (rec_of C) (es1 @ es2))"
    and ne: "es2 \<noteq> []"
  shows "\<exists>s'. dropPrefixLocked C i (length es1) s = (False, s') \<and> spool_inv C s' \<and> contents C s' i = es2 \<and>
           (\<forall>j. j \<noteq> i \<longrightarrow> contents C s' j = contents C s j) \<and> sp_order s' = sp_order s"
proof -
  have "run_ok C (sp_files s i) r" using inv r by (metis slot_ok_simps(2) spool_inv_def)
  then obtain es where es: "map (rec_of C) (es1 @ es2) = map (rec_of C) es" "list_all (env_ok C) es"
    and rr: "rn_memBytes r = sum_sizes (map (rec_of C) es)" "rn_diskBytes r = 0" "sp_files s i = None"
    using r by (auto simp: run_ok_def)
  have "map rc_env (map (rec_of C) (es1 @ es2)) = map rc_env (map (rec_of C) es)" using es(1) by (rule arg_cong)
  then have eq: "es = es1 @ es2" by (simp only: map_env_rec_of)
  have i: "i \<in> set (sp_order s)" using inv r by (auto simp: spool_inv_def)
  let ?gone = "sum_sizes (map (rec_of C) es1)"
  let ?r = "r\<lparr>rn_memBytes := rn_memBytes r - ?gone, rn_recs := Some (map (rec_of C) es2),
     rn_hasResult := (if es1 \<noteq> [] \<and> rn_hasResult r then hasResultRecord C (map (rec_of C) es2) else rn_hasResult r)\<rparr>"
  let ?s = "s\<lparr>sp_mem := sp_mem s - ?gone, sp_runs := (sp_runs s)(i \<mapsto> ?r)\<rparr>"
  have eval: "dropPrefixLocked C i (length es1) s = (False, ?s)"
    using r ne by (simp add: dropPrefixLocked_def Let_def)
  have ok: "run_ok C None ?r"
    using es rr ne eq by (auto simp: run_ok_def sum_sizes_append intro!: exI [of _ es2])
  have "spool_inv C ?s"
    by (rule update_inv [OF inv, of _ i ?r]) (use ok rr r i in \<open>simp_all add: mem_of_def disk_of_def\<close>)
  moreover have "contents C ?s i = es2"
    by (simp add: contents_def snapshotLocked_def del: map_map)
  moreover have "\<forall>j. j \<noteq> i \<longrightarrow> contents C ?s j = contents C s j"
    by (intro allI impI contents_other) simp_all
  ultimately show ?thesis using eval by (intro exI [of _ ?s]) simp
qed

lemma dropPrefix_disk:
  assumes inv: "spool_inv C s" and r: "sp_runs s i = Some r" "rn_recs r = None"
    "sp_files s i = Some (log_of C (es1 @ es2))" "list_all (env_ok C) (es1 @ es2)" and ne: "es2 \<noteq> []"
  shows "\<exists>s'. dropPrefixLocked C i (length es1) s = (False, s') \<and> spool_inv C s' \<and> contents C s' i = es2 \<and>
           (\<forall>j. j \<noteq> i \<longrightarrow> contents C s' j = contents C s j) \<and> sp_order s' = sp_order s"
proof -
  have "run_ok C (sp_files s i) r" using inv r by (metis slot_ok_simps(2) spool_inv_def)
  then have rr: "rn_memBytes r = 0" "rn_diskBytes r = int (length (log_of C (es1 @ es2)))"
    using r by (auto simp: run_ok_def)
  have i: "i \<in> set (sp_order s)" using inv r by (auto simp: spool_inv_def)
  have es2: "list_all (env_ok C) es2" using r(4) by simp
  have snap: "snapshotLocked C s i = Inr (map (rec_of C) (es1 @ es2))"
    using r by (simp add: snapshotLocked_def read_log' [OF r(4)] del: map_append)
  let ?gone = "sum_sizes (map (rec_of C) es1)"
  let ?r = "r\<lparr>rn_diskBytes := rn_diskBytes r - ?gone,
     rn_hasResult := (if es1 \<noteq> [] \<and> rn_hasResult r then hasResultRecord C (map (rec_of C) es2) else rn_hasResult r)\<rparr>"
  let ?s = "s\<lparr>sp_files := (sp_files s)(i \<mapsto> log_of C es2), sp_disk := sp_disk s - ?gone,
     sp_runs := (sp_runs s)(i \<mapsto> ?r)\<rparr>"
  have log: "concat (map (\<lambda>rec. encode C (rc_env rec)) (map (rec_of C) es2)) = log_of C es2"
    by (simp add: log_of_def rec_of_def comp_def)
  have eval: "dropPrefixLocked C i (length es1) s = (False, ?s)"
    using r ne snap log by (simp add: dropPrefixLocked_def Let_def rewriteFileLocked_def del: map_map)
  have ok: "run_ok C (Some (log_of C es2)) ?r"
    using rr r ne es2 by (auto simp: run_ok_def sum_sizes_rec_of log_of_def intro!: exI [of _ es2])
  have "spool_inv C ?s"
    by (rule update_inv [OF inv, of _ i ?r]) (use ok rr r i in \<open>simp_all add: mem_of_def disk_of_def\<close>)
  moreover have "contents C ?s i = es2"
    using r by (simp add: contents_def snapshotLocked_def read_log' [OF es2] del: map_map)
  moreover have "\<forall>j. j \<noteq> i \<longrightarrow> contents C ?s j = contents C s j"
    by (intro allI impI contents_other) simp_all
  ultimately show ?thesis using eval by (intro exI [of _ ?s]) simp
qed

lemma run_ok_contents:
  assumes "spool_inv C s" "sp_runs s i = Some r"
  shows "\<exists>es. list_all (env_ok C) es \<and> contents C s i = es \<and>
    (case rn_recs r of Some recs \<Rightarrow> recs = map (rec_of C) es | None \<Rightarrow> sp_files s i = Some (log_of C es))"
proof -
  have "run_ok C (sp_files s i) r" using assms by (metis slot_ok_simps(2) spool_inv_def)
  then obtain es where es: "list_all (env_ok C) es"
    "case rn_recs r of Some recs \<Rightarrow> recs = map (rec_of C) es | None \<Rightarrow> sp_files s i = Some (log_of C es)"
    by (auto simp: run_ok_def split: option.splits)
  have "snapshotLocked C s i = Inr (map (rec_of C) es)"
    using es(2) assms(2) read_log' [OF es(1)] by (cases "rn_recs r") (simp_all add: snapshotLocked_def)
  with es show ?thesis by (auto simp: contents_def simp del: map_map)
qed

text \<open>What \<open>Drain\<close> removes after its sends is exactly what it sent: if the run has grown since, in
  either tier, the messages that came later stay, with the sizes adjusted, and no other run is touched.\<close>

theorem dropPrefix_exact:
  assumes "spool_inv C s" "contents C s i = es1 @ es2" "es2 \<noteq> []"
  shows "\<exists>s'. dropPrefixLocked C i (length es1) s = (False, s') \<and> spool_inv C s' \<and> contents C s' i = es2 \<and>
           (\<forall>j. j \<noteq> i \<longrightarrow> contents C s' j = contents C s j) \<and> sp_order s' = sp_order s"
proof -
  obtain r where r: "sp_runs s i = Some r"
    using assms(2,3) by (cases "sp_runs s i") (auto simp: contents_def snapshotLocked_def)
  obtain es where es: "list_all (env_ok C) es" "contents C s i = es"
    "case rn_recs r of Some recs \<Rightarrow> recs = map (rec_of C) es | None \<Rightarrow> sp_files s i = Some (log_of C es)"
    using run_ok_contents [OF assms(1) r] by blast
  show ?thesis
  proof (cases "rn_recs r")
    case None
    moreover from None es assms(2) have "sp_files s i = Some (log_of C (es1 @ es2))" "list_all (env_ok C) (es1 @ es2)"
      by simp_all
    ultimately show ?thesis using dropPrefix_disk [OF assms(1) r] assms(3) by blast
  next
    case (Some recs)
    with es assms(2) have "rn_recs r = Some (map (rec_of C) (es1 @ es2))" by simp
    from dropPrefix_ram [OF assms(1) r this assms(3)] show ?thesis .
  qed
qed

text \<open>A run whose result went out while a late message was appended.\<close>

definition late_sample :: "string spool" where
  "late_sample = add_record text_codec 6 ''r1'' ''late'' (add_record text_codec 5 ''r1'' ''result'' spool_sample)"

theorem dropPrefix_exact_witness:
  "\<exists>s'. dropPrefixLocked text_codec ''r1'' 1 late_sample = (False, s') \<and> contents text_codec s' ''r1'' = [''late'']"
proof -
  have "spool_inv text_codec spool_sample" "contents text_codec spool_sample ''r1'' = []"
    by (simp_all add: spool_sample_def Open_def Let_def spool_inv_def contents_def snapshotLocked_def)
  moreover have "env_ok text_codec ''result''" "env_ok text_codec ''late''" by (simp_all add: text_codec_def env_ok_def)
  ultimately have "spool_inv text_codec late_sample" "contents text_codec late_sample ''r1'' = [''result''] @ [''late'']"
    unfolding late_sample_def by (simp_all add: add_record_inv)
  from dropPrefix_exact [OF this] show ?thesis by auto
qed

end
