(* ===== verification/GoPath.thy ===== *)
theory GoPath
  imports GoStrings
begin

text \<open>
  The parts of Go's \<open>path/filepath\<close>, \<open>path\<close> and \<open>unicode/utf8\<close> that the agent uses, for a
  Unix host: \<open>Clean\<close>, \<open>Join\<close>, \<open>Dir\<close>, \<open>Base\<close>, \<open>Rel\<close> and the glob matcher
  \<open>path.Match\<close>.  Paths are byte strings; the lexical functions work on the components
  between slashes, which gives what the library's byte loops give.
\<close>

section \<open>Letter case of ASCII text\<close>

definition char_in :: "char \<Rightarrow> char \<Rightarrow> char \<Rightarrow> bool" where
  "char_in a z c \<longleftrightarrow> a \<le> c \<and> c \<le> z"

definition lower :: "string \<Rightarrow> string" where
  "lower s = map (\<lambda>c. if CHR ''A'' \<le> c \<and> c \<le> CHR ''Z'' then char_of (of_char c + 32 :: nat) else c) s"

definition upper :: "string \<Rightarrow> string" where
  "upper s = map (\<lambda>c. if CHR ''a'' \<le> c \<and> c \<le> CHR ''z'' then char_of (of_char c - 32 :: nat) else c) s"

section \<open>Lexical paths\<close>

abbreviation slash :: char where "slash \<equiv> CHR ''/''"
abbreviation dot :: string where "dot \<equiv> ''.''"
abbreviation dotdot :: string where "dotdot \<equiv> ''..''"

text \<open>One component more on a cleaned path; the stack has the last component first.\<close>

definition clean_comp :: "bool \<Rightarrow> string \<Rightarrow> string list \<Rightarrow> string list" where
  "clean_comp ab c stack =
     (if c = [] \<or> c = dot then stack
      else if c = dotdot then
        (if stack \<noteq> [] \<and> hd stack \<noteq> dotdot then tl stack
         else if ab then stack
         else dotdot # stack)
      else c # stack)"

definition clean_comps :: "bool \<Rightarrow> string list \<Rightarrow> string list" where
  "clean_comps ab cs = rev (fold (clean_comp ab) cs [])"

definition rooted :: "string \<Rightarrow> bool" where
  "rooted p \<longleftrightarrow> p \<noteq> [] \<and> hd p = slash"

text \<open>The text of a cleaned path.\<close>

definition path_text :: "bool \<Rightarrow> string list \<Rightarrow> string" where
  "path_text ab cs = (if ab then slash # join_str [slash] cs else if cs = [] then dot else join_str [slash] cs)"

definition Clean :: "string \<Rightarrow> string" where
  "Clean p = path_text (rooted p) (clean_comps (rooted p) (split_char slash p))"

text \<open>\<open>Join\<close> of two elements ignores empty ones.\<close>

definition Join2 :: "string \<Rightarrow> string \<Rightarrow> string" where
  "Join2 a b =
     (if a = [] \<and> b = [] then []
      else if a = [] then Clean b
      else if b = [] then Clean a
      else Clean (a @ [slash] @ b))"

definition Dir :: "string \<Rightarrow> string" where
  "Dir p = Clean (rev (dropWhile (\<lambda>c. c \<noteq> slash) (rev p)))"

definition Base :: "string \<Rightarrow> string" where
  "Base p =
     (if p = [] then dot
      else let q = rev (dropWhile (\<lambda>c. c = slash) (rev p))
           in if q = [] then [slash] else rev (takeWhile (\<lambda>c. c \<noteq> slash) (rev q)))"

text \<open>The components of a cleaned path, without the leading separator.\<close>

definition comps :: "string \<Rightarrow> string list" where
  "comps p = clean_comps (rooted p) (split_char slash p)"

fun common_prefix :: "string list \<Rightarrow> string list \<Rightarrow> string list \<times> string list" where
  "common_prefix (b # bs) (t # ts) = (if b = t then common_prefix bs ts else (b # bs, t # ts))"
| "common_prefix bs ts = (bs, ts)"

text \<open>\<open>Rel\<close>: \<open>None\<close> is its error.\<close>

definition Rel :: "string \<Rightarrow> string \<Rightarrow> string option" where
  "Rel base targ =
     (if Clean base = Clean targ then Some dot
      else if rooted base \<noteq> rooted targ then None
      else (case common_prefix (comps base) (comps targ) of
              (bs, ts) \<Rightarrow>
                if bs \<noteq> [] \<and> hd bs = dotdot then None
                else Some (join_str [slash] (replicate (length bs) dotdot @ ts))))"

subsection \<open>Facts\<close>

definition name_ok :: "string \<Rightarrow> bool" where
  "name_ok c \<longleftrightarrow> c \<noteq> [] \<and> c \<noteq> dot \<and> slash \<notin> set c"

definition comp_ok :: "string \<Rightarrow> bool" where
  "comp_ok c \<longleftrightarrow> name_ok c \<and> c \<noteq> dotdot"

text \<open>A cleaned stack: names below, and (unless rooted) parent references at the bottom.\<close>

definition stack_ok :: "bool \<Rightarrow> string list \<Rightarrow> bool" where
  "stack_ok ab st \<longleftrightarrow>
     (\<exists>ns k. st = ns @ replicate k dotdot \<and> list_all comp_ok ns \<and> (ab \<longrightarrow> k = 0))"

lemma stack_ok_step:
  assumes "stack_ok ab st" "slash \<notin> set c"
  shows "stack_ok ab (clean_comp ab c st)"
proof -
  from assms(1) obtain ns k where s: "st = ns @ replicate k dotdot" "list_all comp_ok ns" "ab \<longrightarrow> k = 0"
    by (auto simp: stack_ok_def)
  consider "c = [] \<or> c = dot" | "c = dotdot" | "comp_ok c"
    using assms(2) by (auto simp: comp_ok_def name_ok_def)
  then show ?thesis
  proof cases
    case 1
    with assms(1) show ?thesis by (simp add: clean_comp_def)
  next
    case 2
    show ?thesis
    proof (cases ns)
      case Nil
      with s have "st = replicate k dotdot" by simp
      then have "clean_comp ab c st = (if ab then st else replicate (Suc k) dotdot)"
        using 2 s by (cases k) (auto simp: clean_comp_def)
      with s Nil show ?thesis unfolding stack_ok_def by (metis append_Nil list.pred_inject(1))
    next
      case (Cons n ns')
      with 2 s show ?thesis by (auto simp: clean_comp_def stack_ok_def comp_ok_def)
    qed
  next
    case 3
    then have "clean_comp ab c st = (c # ns) @ replicate k dotdot"
      using s by (auto simp: clean_comp_def comp_ok_def name_ok_def)
    with 3 s show ?thesis unfolding stack_ok_def by (metis list.pred_inject(2))
  qed
qed

lemma fold_stack_ok:
  "stack_ok ab st \<Longrightarrow> list_all (\<lambda>c. slash \<notin> set c) cs \<Longrightarrow> stack_ok ab (fold (clean_comp ab) cs st)"
  by (induction cs arbitrary: st) (auto intro: stack_ok_step)

lemma split_slash_free: "list_all (\<lambda>c. slash \<notin> set c) (split_char slash p)"
  by (simp add: list_all_iff split_char_sep_free)

text \<open>The components of a cleaned path: parent references first, then names.\<close>

lemma comps_shape:
  "\<exists>k ns. comps p = replicate k dotdot @ ns \<and> list_all comp_ok ns \<and> (rooted p \<longrightarrow> k = 0)"
proof -
  have "stack_ok (rooted p) (fold (clean_comp (rooted p)) (split_char slash p) [])"
    by (rule fold_stack_ok) (simp_all add: stack_ok_def split_slash_free)
  then obtain ns k where "fold (clean_comp (rooted p)) (split_char slash p) [] = ns @ replicate k dotdot"
    "list_all comp_ok ns" "rooted p \<longrightarrow> k = 0" by (auto simp: stack_ok_def)
  then have "comps p = replicate k dotdot @ rev ns \<and> list_all comp_ok (rev ns) \<and> (rooted p \<longrightarrow> k = 0)"
    by (simp add: comps_def clean_comps_def list_all_iff)
  then show ?thesis by blast
qed

lemma comps_name_ok: "list_all name_ok (comps p)"
proof -
  obtain k ns where c: "comps p = replicate k dotdot @ ns" "list_all comp_ok ns"
    using comps_shape by blast
  have "name_ok dotdot" by (simp add: name_ok_def)
  then have "list_all name_ok (replicate k dotdot)" by (simp add: list_all_iff)
  moreover have "list_all name_ok ns" using c(2) by (simp add: list_all_iff comp_ok_def)
  ultimately show ?thesis by (simp add: c(1))
qed

lemma clean_comps_names:
  assumes "list_all comp_ok cs"
  shows "fold (clean_comp ab) cs st = rev cs @ st"
  using assms by (induction cs arbitrary: st) (auto simp: clean_comp_def comp_ok_def name_ok_def)

lemma split_join_names:
  assumes "list_all name_ok cs" "cs \<noteq> []"
  shows "split_char slash (join_str [slash] cs) = cs"
  by (rule split_join_char) (use assms in \<open>auto simp: list_all_iff name_ok_def\<close>)

lemma join_not_rooted:
  assumes "list_all name_ok cs"
  shows "\<not> rooted (join_str [slash] cs)"
proof (cases cs)
  case (Cons c cs')
  with assms have "c \<noteq> []" "slash \<notin> set c" by (auto simp: name_ok_def)
  then have "hd c \<noteq> slash" by (metis hd_in_set)
  with Cons \<open>c \<noteq> []\<close> show ?thesis by (cases cs') (auto simp: rooted_def)
qed (simp add: rooted_def)

lemma comps_abs:
  assumes "list_all comp_ok cs"
  shows "comps (slash # join_str [slash] cs) = cs" "rooted (slash # join_str [slash] cs)"
proof -
  have "list_all name_ok cs" using assms by (auto simp: list_all_iff comp_ok_def)
  then have "cs = [] \<or> split_char slash (join_str [slash] cs) = cs" using split_join_names by blast
  then show "comps (slash # join_str [slash] cs) = cs"
    using clean_comps_names [OF assms] 
    by (auto simp: comps_def clean_comps_def rooted_def clean_comp_def)
qed (simp add: rooted_def)

section \<open>UTF-8\<close>

text \<open>\<open>utf8.DecodeRuneInString\<close>: the rune and its length; an invalid byte is U+FFFD of length 1.\<close>

definition rune_error :: int where "rune_error = 0xFFFD"

definition cont_byte :: "int \<Rightarrow> int \<Rightarrow> string \<Rightarrow> nat \<Rightarrow> bool" where
  "cont_byte lo hi s i \<longleftrightarrow> i < length s \<and> lo \<le> of_char (s ! i) \<and> of_char (s ! i) \<le> hi"

definition byte_at :: "string \<Rightarrow> nat \<Rightarrow> int" where
  "byte_at s i = of_char (s ! i)"

definition decode_rune :: "string \<Rightarrow> int \<times> nat" where
  "decode_rune s =
     (if s = [] then (rune_error, 0)
      else
        let b = byte_at s 0 in
        if b < 0x80 then (b, 1)
        else if 0xC2 \<le> b \<and> b \<le> 0xDF \<and> cont_byte 0x80 0xBF s 1 then
          ((b - 0xC0) * 64 + (byte_at s 1 - 0x80), 2)
        else if 0xE0 \<le> b \<and> b \<le> 0xEF \<and>
            cont_byte (if b = 0xE0 then 0xA0 else 0x80) (if b = 0xED then 0x9F else 0xBF) s 1 \<and> cont_byte 0x80 0xBF s 2 then
          ((b - 0xE0) * 4096 + (byte_at s 1 - 0x80) * 64 + (byte_at s 2 - 0x80), 3)
        else if 0xF0 \<le> b \<and> b \<le> 0xF4 \<and>
            cont_byte (if b = 0xF0 then 0x90 else 0x80) (if b = 0xF4 then 0x8F else 0xBF) s 1 \<and>
            cont_byte 0x80 0xBF s 2 \<and> cont_byte 0x80 0xBF s 3 then
          ((b - 0xF0) * 262144 + (byte_at s 1 - 0x80) * 4096 + (byte_at s 2 - 0x80) * 64 + (byte_at s 3 - 0x80), 4)
        else (rune_error, 1))"

lemma decode_rune_pos: "s \<noteq> [] \<Longrightarrow> 0 < snd (decode_rune s)"
  by (simp add: decode_rune_def Let_def)

lemma decode_rune_ascii: "s \<noteq> [] \<Longrightarrow> of_char (hd s) < (0x80 :: int) \<Longrightarrow> decode_rune s = (of_char (hd s), 1)"
  by (cases s) (simp_all add: decode_rune_def byte_at_def)

section \<open>Globs\<close>

text \<open>One (possibly escaped) character of a class: \<open>None\<close> is \<open>ErrBadPattern\<close>.\<close>

definition getEsc :: "string \<Rightarrow> (int \<times> string) option" where
  "getEsc chunk =
     (if chunk = [] \<or> hd chunk = CHR ''-'' \<or> hd chunk = CHR '']'' then None
      else
        let c1 = (if hd chunk = CHR 0x5C then tl chunk else chunk)
        in if c1 = [] then None
           else (case decode_rune c1 of (r, n) \<Rightarrow>
                   if r = rune_error \<and> n = 1 then None
                   else if drop n c1 = [] then None
                   else Some (r, drop n c1)))"

lemma getEsc_shorter: "getEsc chunk = Some (r, rest) \<Longrightarrow> length rest < length chunk \<and> rest \<noteq> []"
  using decode_rune_pos [of chunk] decode_rune_pos [of "tl chunk"]
  by (cases chunk) (auto simp: getEsc_def Let_def split: if_splits prod.splits)

text \<open>The ranges of a class up to its closing bracket; the result says whether \<open>r\<close> is in one.\<close>

function class_loop :: "int \<Rightarrow> bool \<Rightarrow> bool \<Rightarrow> string \<Rightarrow> (bool \<times> string) option" where
  "class_loop r matched some_range chunk =
     (if chunk \<noteq> [] \<and> hd chunk = CHR '']'' \<and> some_range then Some (matched, tl chunk)
      else (case getEsc chunk of
              None \<Rightarrow> None
            | Some (lo, c1) \<Rightarrow>
                if hd c1 = CHR ''-'' then
                  (case getEsc (tl c1) of
                     None \<Rightarrow> None
                   | Some (hi, c2) \<Rightarrow> class_loop r (matched \<or> lo \<le> r \<and> r \<le> hi) True c2)
                else class_loop r (matched \<or> lo \<le> r \<and> r \<le> lo) True c1))"
  by pat_completeness auto
termination
  by (relation "measure (\<lambda>(r, m, sr, chunk). length chunk)") (auto dest!: getEsc_shorter)

declare class_loop.simps [simp del]

lemma class_loop_shorter: "class_loop r m sr chunk = Some (b, rest) \<Longrightarrow> length rest < length chunk"
proof (induction r m sr chunk rule: class_loop.induct)
  case (1 r m sr chunk)
  show ?case
  proof (cases "chunk \<noteq> [] \<and> hd chunk = CHR '']'' \<and> sr")
    case True
    with "1.prems" show ?thesis by (subst (asm) class_loop.simps) auto
  next
    case False
    with "1.prems" obtain lo c1 where e: "getEsc chunk = Some (lo, c1)"
      by (subst (asm) class_loop.simps) (auto split: option.splits)
    show ?thesis
    proof (cases "hd c1 = CHR ''-''")
      case True
      with "1.prems" False e obtain hi c2 where e2: "getEsc (tl c1) = Some (hi, c2)"
        and "class_loop r (m \<or> lo \<le> r \<and> r \<le> hi) True c2 = Some (b, rest)"
        by (subst (asm) class_loop.simps) (auto split: option.splits)
      from "1.IH"(1) [OF False e refl True e2 refl this(2)] getEsc_shorter [OF e] getEsc_shorter [OF e2]
      show ?thesis by auto
    next
      case no: False
      with "1.prems" False e have "class_loop r (m \<or> lo \<le> r \<and> r \<le> lo) True c1 = Some (b, rest)"
        by (subst (asm) class_loop.simps) auto
      from "1.IH"(2) [OF False e refl no this] getEsc_shorter [OF e] show ?thesis by simp
    qed
  qed
qed

text \<open>
  \<open>matchChunk\<close>.  The text is \<open>None\<close> once the match has failed and only the syntax of the rest
  is checked.  The result is \<open>None\<close> for \<open>ErrBadPattern\<close>, else what is left of the text, if it
  matched.
\<close>

function matchChunk :: "string \<Rightarrow> string option \<Rightarrow> string option option" where
  "matchChunk [] s = Some s"
| "matchChunk (p # chunk) s =
     (let s1 = (if s = Some [] then None else s) in
      if p = CHR ''['' then
        (let r = (case s1 of None \<Rightarrow> 0 | Some t \<Rightarrow> fst (decode_rune t));
             s2 = map_option (\<lambda>t. drop (snd (decode_rune t)) t) s1;
             negated = (chunk \<noteq> [] \<and> hd chunk = CHR ''^'')
         in (case class_loop r False False (if negated then tl chunk else chunk) of
               None \<Rightarrow> None
             | Some (matched, rest) \<Rightarrow> matchChunk rest (if matched = negated then None else s2)))
      else if p = CHR ''?'' then
        matchChunk chunk
          (case s1 of None \<Rightarrow> None | Some t \<Rightarrow> if hd t = slash then None else Some (drop (snd (decode_rune t)) t))
      else if p = CHR 0x5C then
        (case chunk of
           [] \<Rightarrow> None
         | c # rest \<Rightarrow>
             matchChunk rest (case s1 of None \<Rightarrow> None | Some t \<Rightarrow> if c \<noteq> hd t then None else Some (tl t)))
      else matchChunk chunk (case s1 of None \<Rightarrow> None | Some t \<Rightarrow> if p \<noteq> hd t then None else Some (tl t)))"
  by pat_completeness auto
termination
proof (relation "measure (\<lambda>(chunk, s). length chunk)", goal_cases)
  case (2 p chunk s s1 r s2 negated res matched rest)
  then have "length rest < length (if negated then tl chunk else chunk)"
    using class_loop_shorter by fastforce
  then show ?case by (auto split: if_splits)
qed auto

declare matchChunk.simps(2) [simp del]

text \<open>\<open>scanChunk\<close>: leading stars, then up to the next star outside a class.\<close>

fun scan_end :: "bool \<Rightarrow> string \<Rightarrow> string \<times> string" where
  "scan_end inrange [] = ([], [])"
| "scan_end inrange (c # p) =
     (if c = CHR 0x5C then
        (case p of
           [] \<Rightarrow> ([c], [])
         | d # q \<Rightarrow> (case scan_end inrange q of (chunk, rest) \<Rightarrow> (c # d # chunk, rest)))
      else if c = CHR ''*'' \<and> \<not> inrange then ([], c # p)
      else (case scan_end (if c = CHR ''['' then True else if c = CHR '']'' then False else inrange) p of
              (chunk, rest) \<Rightarrow> (c # chunk, rest)))"

definition scanChunk :: "string \<Rightarrow> bool \<times> string \<times> string" where
  "scanChunk p =
     (let q = dropWhile (\<lambda>c. c = CHR ''*'') p in (p \<noteq> [] \<and> hd p = CHR ''*'', scan_end False q))"

lemma scan_end_append: "scan_end b p = (chunk, rest) \<Longrightarrow> p = chunk @ rest"
  by (induction b p arbitrary: chunk rest rule: scan_end.induct)
    (auto split: if_splits list.splits prod.splits)

lemma scan_end_empty: "scan_end False p = ([], rest) \<Longrightarrow> p = [] \<or> hd p = CHR ''*''"
  by (cases p) (auto split: if_splits list.splits prod.splits)

lemma scanChunk_shorter:
  assumes "scanChunk p = (star, chunk, rest)" "p \<noteq> []"
  shows "length rest < length p"
proof -
  let ?q = "dropWhile (\<lambda>c. c = CHR ''*'') p"
  from assms have q: "scan_end False ?q = (chunk, rest)" "star \<longleftrightarrow> hd p = CHR ''*''" by (auto simp: scanChunk_def Let_def)
  have len: "length ?q \<le> length p" by (simp add: length_dropWhile_le)
  have l: "length ?q = length chunk + length rest" using scan_end_append [OF q(1)] by (metis length_append)
  show ?thesis
  proof (cases star)
    case True
    with q(2) assms(2) have "length ?q < length p" by (cases p) (auto simp: le_imp_less_Suc length_dropWhile_le)
    with l show ?thesis by simp
  next
    case False
    then have "?q = p" using q(2) assms(2) by (cases p) auto
    with False q assms(2) have "chunk \<noteq> []" using scan_end_empty by fastforce
    with l len show ?thesis by (cases chunk) auto
  qed
qed

text \<open>The rest of a pattern after a mismatch: only its syntax is checked.\<close>

function syntax_ok :: "string \<Rightarrow> bool" where
  "syntax_ok p =
     (if p = [] then True
      else (case scanChunk p of (star, chunk, rest) \<Rightarrow>
              if matchChunk chunk (Some []) = None then False else syntax_ok rest))"
  by pat_completeness auto
termination by (relation "measure length") (auto intro!: scanChunk_shorter [OF sym])

declare syntax_ok.simps [simp del]

text \<open>The positions a star can skip to; the outer \<open>None\<close> is a bad pattern, the inner one no match.\<close>

fun skip_loop :: "string \<Rightarrow> bool \<Rightarrow> string \<Rightarrow> string option option" where
  "skip_loop chunk final [] = Some None"
| "skip_loop chunk final (c # s) =
     (if c = slash then Some None
      else (case matchChunk chunk (Some s) of
              None \<Rightarrow> None
            | Some (Some t) \<Rightarrow> if final \<and> t \<noteq> [] then skip_loop chunk final s else Some (Some t)
            | Some None \<Rightarrow> skip_loop chunk final s))"

text \<open>\<open>path.Match\<close>: \<open>None\<close> is \<open>ErrBadPattern\<close>.\<close>

function Match_glob :: "string \<Rightarrow> string \<Rightarrow> bool option" where
  "Match_glob p s =
     (if p = [] then Some (s = [])
      else (case scanChunk p of (star, chunk, rest) \<Rightarrow>
        if star \<and> chunk = [] then Some (slash \<notin> set s)
        else (case matchChunk chunk (Some s) of
                None \<Rightarrow> None
              | Some m \<Rightarrow>
                  if m \<noteq> None \<and> (m = Some [] \<or> rest \<noteq> []) then Match_glob rest (the m)
                  else if star then
                    (case skip_loop chunk (rest = []) s of
                       None \<Rightarrow> None
                     | Some None \<Rightarrow> if syntax_ok rest then Some False else None
                     | Some (Some t) \<Rightarrow> Match_glob rest t)
                  else if syntax_ok rest then Some False else None)))"
  by pat_completeness auto
termination
  by (relation "measure (\<lambda>(p, s). length p)") (auto intro!: scanChunk_shorter [OF sym])

declare Match_glob.simps [simp del]

subsection \<open>Syntax\<close>

text \<open>Whether a pattern is well formed does not depend on the text it is matched against.\<close>

lemma class_loop_indep:
  "map_option snd (class_loop r m sr c) = map_option snd (class_loop r' m' sr c)"
proof (induction r m sr c arbitrary: r' m' rule: class_loop.induct)
  case (1 r m sr chunk)
  show ?case
  proof (cases "chunk \<noteq> [] \<and> hd chunk = CHR '']'' \<and> sr")
    case True
    then show ?thesis by (subst (1 2) class_loop.simps) auto
  next
    case False
    show ?thesis
    proof (cases "getEsc chunk")
      case None
      with False show ?thesis by (subst (1 2) class_loop.simps) auto
    next
      case (Some x)
      obtain lo c1 where x: "x = (lo, c1)" by (cases x)
      with Some have e: "getEsc chunk = Some (lo, c1)" by simp
      show ?thesis
      proof (cases "hd c1 = CHR ''-''")
        case True
        show ?thesis
        proof (cases "getEsc (tl c1)")
          case None
          with False e True show ?thesis by (subst (1 2) class_loop.simps) auto
        next
          case (Some y)
          obtain hi c2 where "y = (hi, c2)" by (cases y)
          with Some have e2: "getEsc (tl c1) = Some (hi, c2)" by simp
          from "1.IH"(1) [OF False e refl True e2 refl] False e True e2
          show ?thesis by (subst (1 2) class_loop.simps) auto
        qed
      next
        case no: False
        from "1.IH"(2) [OF False e refl no] False e no show ?thesis by (subst (1 2) class_loop.simps) auto
      qed
    qed
  qed
qed

lemma class_loop_cases:
  "(class_loop r m sr c = None \<and> (\<forall>r' m'. class_loop r' m' sr c = None)) \<or>
   (\<exists>rest. \<forall>r' m'. \<exists>b. class_loop r' m' sr c = Some (b, rest))"
proof (cases "class_loop r m sr c")
  case None
  then have "class_loop r' m' sr c = None" for r' m' using class_loop_indep [of r m sr c r' m'] by simp
  with None show ?thesis by simp
next
  case (Some x)
  have "\<exists>b. class_loop r' m' sr c = Some (b, snd x)" for r' m'
  proof -
    have "map_option snd (class_loop r' m' sr c) = Some (snd x)"
      using class_loop_indep [of r' m' sr c r m] Some by simp
    then show ?thesis by (auto simp: map_option_eq_Some)
  qed
  then have "\<forall>r' m'. \<exists>b. class_loop r' m' sr c = Some (b, snd x)" by (intro allI)
  then show ?thesis by (intro disjI2 exI)
qed

lemma matchChunk_one:
  "matchChunk (CHR ''?'' # q) s = matchChunk q (case if s = Some [] then None else s of None \<Rightarrow> None
     | Some t \<Rightarrow> if hd t = slash then None else Some (drop (snd (decode_rune t)) t))"
  by (simp add: matchChunk.simps(2))

lemma matchChunk_literal:
  "p \<noteq> CHR ''['' \<Longrightarrow> p \<noteq> CHR ''?'' \<Longrightarrow> p \<noteq> CHR 0x5C \<Longrightarrow>
     matchChunk (p # q) s = matchChunk q (case if s = Some [] then None else s of None \<Rightarrow> None
       | Some t \<Rightarrow> if p \<noteq> hd t then None else Some (tl t))"
  by (simp add: matchChunk.simps(2))

lemma matchChunk_escaped:
  "matchChunk (CHR 0x5C # c # q) s = matchChunk q (case if s = Some [] then None else s of None \<Rightarrow> None
     | Some t \<Rightarrow> if c \<noteq> hd t then None else Some (tl t))"
  by (simp add: matchChunk.simps(2))

lemma matchChunk_plain:
  "p \<noteq> CHR ''['' \<Longrightarrow> p \<noteq> CHR 0x5C \<Longrightarrow> \<exists>t. matchChunk (p # q) s = matchChunk q t"
  using matchChunk_one matchChunk_literal by blast

lemma matchChunk_escape: "\<exists>t. matchChunk (CHR 0x5C # c # q) s = matchChunk q t"
  using matchChunk_escaped by blast

lemma matchChunk_class:
  "(\<forall>s. matchChunk (CHR ''['' # q) s = None) \<or>
   (\<exists>rest. length rest \<le> length q \<and> (\<forall>s. \<exists>t. matchChunk (CHR ''['' # q) s = matchChunk rest t))"
proof -
  let ?c = "if q \<noteq> [] \<and> hd q = CHR ''^'' then tl q else q"
  from class_loop_cases [of 0 False False ?c] show ?thesis
  proof
    assume "class_loop 0 False False ?c = None \<and> (\<forall>r' m'. class_loop r' m' False ?c = None)"
    then show ?thesis by (simp add: matchChunk.simps(2) Let_def)
  next
    assume "\<exists>rest. \<forall>r' m'. \<exists>b. class_loop r' m' False ?c = Some (b, rest)"
    then obtain rest where r: "\<forall>r' m'. \<exists>b. class_loop r' m' False ?c = Some (b, rest)" by (elim exE)
    then obtain b where "class_loop 0 False False ?c = Some (b, rest)" by blast
    from class_loop_shorter [OF this] have len: "length rest \<le> length q" by (cases q) (auto split: if_splits)
    have "\<exists>t. matchChunk (CHR ''['' # q) s = matchChunk rest t" for s
    proof -
      let ?s1 = "if s = Some [] then None else s"
      let ?r = "case ?s1 of None \<Rightarrow> 0 | Some t \<Rightarrow> fst (decode_rune t)"
      from r obtain b where "class_loop ?r False False ?c = Some (b, rest)" by blast
      then have "matchChunk (CHR ''['' # q) s =
          matchChunk rest (if b = (q \<noteq> [] \<and> hd q = CHR ''^'') then None else map_option (\<lambda>t. drop (snd (decode_rune t)) t) ?s1)"
        unfolding matchChunk.simps(2) Let_def by (simp only: refl if_True option.case prod.case)
      then show ?thesis by blast
    qed
    with len show ?thesis by blast
  qed
qed

lemma matchChunk_indep: "matchChunk chunk s = None \<longleftrightarrow> matchChunk chunk t = None"
proof (induction chunk arbitrary: s t rule: length_induct)
  case (1 chunk)
  show ?case
  proof (cases chunk)
    case (Cons p q)
    have IH: "matchChunk c s = None \<longleftrightarrow> matchChunk c t = None" if "length c \<le> length q" for c s t
      using 1 [rule_format, of c s t] that Cons by simp
    consider "p = CHR ''[''" | "p = CHR 0x5C" | "p \<noteq> CHR ''['' \<and> p \<noteq> CHR 0x5C" by blast
    then show ?thesis
    proof cases
      case 1
      with matchChunk_class [of q] IH show ?thesis by (metis Cons)
    next
      case 2
      then show ?thesis
      proof (cases q)
        case Nil
        with 2 show ?thesis by (simp add: Cons matchChunk.simps(2) Let_def)
      next
        case q: (Cons d u)
        obtain s' t' where "matchChunk chunk s = matchChunk u s'" "matchChunk chunk t = matchChunk u t'"
          using matchChunk_escape [of d u] 2 Cons q by metis
        with IH [of u s' t'] q show ?thesis by simp
      qed
    next
      case 3
      then obtain s' t' where "matchChunk chunk s = matchChunk q s'" "matchChunk chunk t = matchChunk q t'"
        using matchChunk_plain [of p q] Cons by metis
      with IH [of q s' t'] show ?thesis by simp
    qed
  qed simp
qed

lemma skip_loop_None: "skip_loop chunk fin s = None \<Longrightarrow> matchChunk chunk (Some []) = None"
  by (induction chunk fin s rule: skip_loop.induct)
    (auto split: if_splits option.splits dest: iffD1 [OF matchChunk_indep])

lemma scanChunk_star_only:
  assumes "scanChunk p = (True, [], rest)"
  shows "rest = []"
proof -
  let ?q = "dropWhile (\<lambda>c. c = CHR ''*'') p"
  from assms have "scan_end False ?q = ([], rest)" by (auto simp: scanChunk_def Let_def)
  from scan_end_empty [OF this] scan_end_append [OF this] have "?q = []"
    by (metis (full_types) hd_dropWhile)
  with \<open>scan_end False ?q = ([], rest)\<close> show ?thesis by simp
qed

lemma Match_glob_syntax: "Match_glob p s = None \<longleftrightarrow> \<not> syntax_ok p"
proof (induction p s rule: Match_glob.induct)
  case (1 p s)
  show ?case
  proof (cases "p = []")
    case True
    then show ?thesis by (simp add: Match_glob.simps syntax_ok.simps)
  next
    case False
    obtain star chunk rest where sc: "scanChunk p = (star, chunk, rest)" by (cases "scanChunk p")
    have syn: "syntax_ok p \<longleftrightarrow> matchChunk chunk (Some []) \<noteq> None \<and> syntax_ok rest"
      using False sc by (subst syntax_ok.simps) simp
    show ?thesis
    proof (cases "star \<and> chunk = []")
      case True
      with sc have "rest = []" using scanChunk_star_only by simp
      with True False sc syn show ?thesis by (simp add: Match_glob.simps [of p] syntax_ok.simps)
    next
      case nostar: False
      show ?thesis
      proof (cases "matchChunk chunk (Some s)")
        case None
        then have "matchChunk chunk (Some []) = None" using matchChunk_indep by blast
        with None False nostar sc syn show ?thesis by (simp add: Match_glob.simps [of p])
      next
        case (Some m)
        then have ok: "syntax_ok p \<longleftrightarrow> syntax_ok rest" using syn matchChunk_indep by (metis option.distinct(1))
        have skip: "skip_loop chunk fin s \<noteq> None" for fin
          using Some skip_loop_None matchChunk_indep by (metis option.distinct(1))
        show ?thesis
        proof (cases "m \<noteq> None \<and> (m = Some [] \<or> rest \<noteq> [])")
          case True
          from "1.IH"(1) [OF False sc [symmetric] refl nostar Some True] show ?thesis
            using False sc nostar Some True ok by (auto simp: Match_glob.simps [of p])
        next
          case go: False
          show ?thesis
          proof (cases "star \<and> (\<exists>t. skip_loop chunk (rest = []) s = Some (Some t))")
            case True
            then obtain t where t: "skip_loop chunk (rest = []) s = Some (Some t)" by blast
            from True have st: star by simp
            from "1.IH"(2) [OF False sc [symmetric] refl nostar Some go st t refl] show ?thesis
              using False sc nostar Some go st t ok by (auto simp: Match_glob.simps [of p])
          next
            case nt: False
            then have "star \<Longrightarrow> skip_loop chunk (rest = []) s = Some None"
              using skip by (metis not_None_eq)
            then show ?thesis
              using False sc nostar Some go ok by (cases star) (auto simp: Match_glob.simps [of p])
          qed
        qed
      qed
    qed
  qed
qed

subsection \<open>Stars do not cross slashes\<close>

abbreviation slashes :: "string \<Rightarrow> nat" where "slashes s \<equiv> count_list s slash"

lemma cont_bytes_not_slash:
  "cont_byte lo hi s i \<Longrightarrow> 0x80 \<le> lo \<Longrightarrow> s ! i \<noteq> slash"
  by (auto simp: cont_byte_def)

lemma decode_rune_no_slash:
  assumes "s \<noteq> []" "hd s \<noteq> slash"
  shows "slash \<notin> set (take (snd (decode_rune s)) s)"
proof -
  obtain c u where s: "s = c # u" using assms(1) by (cases s) auto
  have nth: "slash \<notin> set (take n s)" if "\<And>i. i < n \<Longrightarrow> i < length s \<Longrightarrow> s ! i \<noteq> slash" for n
    using that by (auto simp: in_set_conv_nth)
  show ?thesis
  proof (rule nth)
    fix i
    assume i: "i < snd (decode_rune s)" "i < length s"
    show "s ! i \<noteq> slash"
    proof (cases i)
      case 0
      with assms s show ?thesis by simp
    next
      case (Suc j)
      then have "i = 1 \<or> i = 2 \<or> i = 3" using i(1)
        by (auto simp: decode_rune_def Let_def split: if_splits)
      then show ?thesis
        using i(1) Suc cont_bytes_not_slash [of _ _ s] unfolding decode_rune_def Let_def
        by (auto simp: numeral_2_eq_2 numeral_3_eq_3 split: if_splits)
    qed
  qed
qed

lemma matchChunk_none: "matchChunk chunk None \<noteq> Some (Some t)"
proof (induction chunk arbitrary: t rule: length_induct)
  case (1 chunk)
  then have IH: "length c < length chunk \<Longrightarrow> matchChunk c None \<noteq> Some (Some t)" for c t by blast
  show ?case
  proof (cases chunk)
    case (Cons p q)
    consider "p = CHR ''[''" | "p = CHR ''?''" | "p = CHR 0x5C" | "p \<noteq> CHR ''['' \<and> p \<noteq> CHR ''?'' \<and> p \<noteq> CHR 0x5C"
      by blast
    then show ?thesis
    proof cases
      case 1
      let ?c = "if q \<noteq> [] \<and> hd q = CHR ''^'' then tl q else q"
      show ?thesis
      proof (cases "class_loop 0 False False ?c")
        case None
        with 1 Cons show ?thesis by (simp add: matchChunk.simps(2) Let_def)
      next
        case (Some x)
        obtain b rest where x: "class_loop 0 False False ?c = Some (b, rest)" using Some by (cases x) auto
        have "length rest < length chunk" using class_loop_shorter [OF x] Cons by (cases q) (auto split: if_splits)
        with IH have "matchChunk rest None \<noteq> Some (Some t)" by blast
        moreover have "matchChunk chunk None = matchChunk rest None"
          using x 1 Cons unfolding matchChunk.simps(2) Let_def by (simp add: matchChunk.simps(2) Let_def)
        ultimately show ?thesis by simp
      qed
    qed (use IH Cons in \<open>auto simp: matchChunk.simps(2) split: list.splits\<close>)
  qed simp
qed

lemma matchChunk_slashes:
  "matchChunk chunk (Some s) = Some (Some t) \<Longrightarrow> CHR ''['' \<notin> set chunk \<Longrightarrow>
     \<exists>u. s = u @ t \<and> slashes u = slashes chunk"
proof (induction chunk arbitrary: s rule: length_induct)
  case (1 chunk)
  show ?case
  proof (cases chunk)
    case Nil
    with "1.prems" show ?thesis by simp
  next
    case (Cons p q)
    have IH: "\<exists>u. s' = u @ t \<and> slashes u = slashes q'"
      if "matchChunk q' (Some s') = Some (Some t)" "length q' \<le> length q" "set q' \<subseteq> set q" for q' s'
      using "1.IH" [rule_format, of q' s'] that Cons "1.prems"(2) by auto
    consider (q) "p = CHR ''?''" | (e) "p = CHR 0x5C" | (l) "p \<noteq> CHR ''['' \<and> p \<noteq> CHR ''?'' \<and> p \<noteq> CHR 0x5C"
      using "1.prems"(2) Cons by auto
    then show ?thesis
    proof cases
      case q
      with "1.prems"(1) Cons obtain c s' where s: "s = c # s'" by (cases s) (simp_all add: matchChunk_one matchChunk_none)
      with "1.prems"(1) Cons q have c: "c \<noteq> slash" by (auto simp: matchChunk_one matchChunk_none)
      let ?n = "snd (decode_rune s)"
      have "matchChunk q (Some (drop ?n s)) = Some (Some t)"
        using "1.prems"(1) Cons q s c by (simp add: matchChunk_one)
      from IH [OF this] obtain u where "drop ?n s = u @ t" "slashes u = slashes q" by auto
      moreover have "slashes (take ?n s) = 0" using decode_rune_no_slash [of s] s c by (simp add: count_list_0_iff)
      ultimately show ?thesis
        using Cons q by (intro exI [of _ "take ?n s @ u"]) (simp add: count_list_append, metis append_take_drop_id)
    next
      case e
      show ?thesis
      proof (cases q)
        case Nil
        with e "1.prems"(1) Cons show ?thesis by (simp add: matchChunk.simps(2) split: if_splits)
      next
        case q: (Cons d q')
        with e "1.prems"(1) Cons obtain s' where "s = d # s'" "matchChunk q' (Some s') = Some (Some t)"
          by (cases s) (auto simp: matchChunk_escaped matchChunk_none split: if_splits)
        moreover from IH [OF this(2)] q obtain u where "s' = u @ t" "slashes u = slashes q'" by auto
        ultimately show ?thesis using e q Cons by (intro exI [of _ "d # u"]) auto
      qed
    next
      case l
      with "1.prems"(1) Cons obtain s' where "s = p # s'" "matchChunk q (Some s') = Some (Some t)"
        by (cases s) (auto simp: matchChunk_literal matchChunk_none split: if_splits)
      moreover from IH [OF this(2)] obtain u where "s' = u @ t" "slashes u = slashes q" by auto
      ultimately show ?thesis using Cons by (intro exI [of _ "p # u"]) auto
    qed
  qed
qed

lemma skip_loop_slashes:
  "skip_loop chunk fin s = Some (Some t) \<Longrightarrow> CHR ''['' \<notin> set chunk \<Longrightarrow>
     \<exists>u. s = u @ t \<and> slashes u = slashes chunk"
proof (induction s)
  case (Cons c s)
  then have c: "c \<noteq> slash" by auto
  consider "matchChunk chunk (Some s) = Some (Some t)" | "skip_loop chunk fin s = Some (Some t)"
    using Cons.prems(1) by (auto split: if_splits option.splits)
  then have "\<exists>u. s = u @ t \<and> slashes u = slashes chunk"
  proof cases
    case 1
    then show ?thesis using matchChunk_slashes Cons.prems(2) by blast
  next
    case 2
    then show ?thesis using Cons.IH Cons.prems(2) by blast
  qed
  then obtain u where "s = u @ t" "slashes u = slashes chunk" by blast
  with c show ?case by (intro exI [of _ "c # u"]) simp
qed simp

lemma scanChunk_slashes:
  assumes "scanChunk p = (star, chunk, rest)"
  shows "slashes p = slashes chunk + slashes rest" "set chunk \<union> set rest \<subseteq> set p"
proof -
  let ?q = "dropWhile (\<lambda>c. c = CHR ''*'') p"
  have "scan_end False ?q = (chunk, rest)" using assms by (simp add: scanChunk_def Let_def)
  then have q: "?q = chunk @ rest" by (rule scan_end_append)
  have p: "p = takeWhile (\<lambda>c. c = CHR ''*'') p @ ?q" by simp
  have "slashes (takeWhile (\<lambda>c. c = CHR ''*'') p) = 0"
    by (auto simp: count_list_0_iff dest: set_takeWhileD)
  with q show "slashes p = slashes chunk + slashes rest"
    by (subst p) (simp only: count_list_append)
  show "set chunk \<union> set rest \<subseteq> set p" using q set_dropWhileD by (metis set_append subsetI)
qed

lemma Match_glob_slashes:
  "Match_glob p s = Some True \<Longrightarrow> CHR ''['' \<notin> set p \<Longrightarrow> slashes s = slashes p"
proof (induction p s rule: Match_glob.induct)
  case (1 p s)
  show ?case
  proof (cases "p = []")
    case True
    with "1.prems" show ?thesis by (simp add: Match_glob.simps)
  next
    case False
    obtain star chunk rest where sc: "scanChunk p = (star, chunk, rest)" by (cases "scanChunk p")
    note sl = scanChunk_slashes [OF sc]
    have br: "CHR ''['' \<notin> set chunk" "CHR ''['' \<notin> set rest" using sl(2) "1.prems"(2) by auto
    show ?thesis
    proof (cases "star \<and> chunk = []")
      case True
      with sc have "rest = []" using scanChunk_star_only by simp
      with True "1.prems"(1) False sc sl(1) show ?thesis
        by (simp add: Match_glob.simps [of p] count_list_0_iff)
    next
      case nostar: False
      from "1.prems"(1) False sc nostar obtain m where m: "matchChunk chunk (Some s) = Some m"
        by (auto simp: Match_glob.simps [of p] split: option.splits)
      show ?thesis
      proof (cases "m \<noteq> None \<and> (m = Some [] \<or> rest \<noteq> [])")
        case True
        then obtain t where t: "m = Some t" by auto
        have "Match_glob rest t = Some True"
          using "1.prems"(1) False sc nostar m True t by (auto simp: Match_glob.simps [of p])
        from "1.IH"(1) [OF False sc [symmetric] refl nostar m True] t this br(2)
        have "slashes t = slashes rest" by simp
        moreover obtain u where "s = u @ t" "slashes u = slashes chunk"
          using matchChunk_slashes m t br(1) by blast
        ultimately show ?thesis using sl(1) by (simp add: count_list_append)
      next
        case go: False
        have st: star and "\<exists>t. skip_loop chunk (rest = []) s = Some (Some t) \<and> Match_glob rest t = Some True"
          using "1.prems"(1) False sc nostar m go by (auto simp: Match_glob.simps [of p] split: if_splits option.splits)
        then obtain t where t: "skip_loop chunk (rest = []) s = Some (Some t)" "Match_glob rest t = Some True" by blast
        from "1.IH"(2) [OF False sc [symmetric] refl nostar m go st t(1) refl t(2) br(2)]
        have "slashes t = slashes rest" .
        moreover obtain u where "s = u @ t" "slashes u = slashes chunk"
          using skip_loop_slashes t(1) br(1) by blast
        ultimately show ?thesis using sl(1) by (simp add: count_list_append)
      qed
    qed
  qed
qed

end
