(* ===== verification/FileOps.thy ===== *)
theory FileOps
  imports GoPath
begin

text \<open>
  The agent's file operations, \<open>src/internal/agent/fs/fs.go\<close>: resolution of a path against the
  file root, stat, list, chunked download and upload, compare-and-swap edits and mode changes.

  The host's file system is a map from absolute paths (lists of names) to nodes; \<open>walk\<close> is the
  kernel's path resolution, which follows symbolic links.  Every existing node is accessible,
  writes succeed, and the umask is 022.  The hash (as hexadecimal text) and the random suffixes
  are arguments.
\<close>

section \<open>The file system\<close>

datatype node = Reg string nat | Folder nat | Link string

type_synonym filesys = "string list \<rightharpoonup> node"

datatype errno = ENOENT | ENOTDIR | ELOOP | EISDIR

text \<open>
  \<open>walk\<close>: the components still to go, from the directory reached so far; \<open>fuel\<close> is the number
  of links that may still be followed (Linux allows 40).
\<close>

function walk :: "filesys \<Rightarrow> nat \<Rightarrow> bool \<Rightarrow> string list \<Rightarrow> string list \<Rightarrow> errno + string list" where
  "walk fs fuel follow pre [] = Inr pre"
| "walk fs fuel follow pre (c # cs) =
     (if c = dotdot then walk fs fuel follow (butlast pre) cs
      else (case fs (pre @ [c]) of
              None \<Rightarrow> Inl ENOENT
            | Some (Folder m) \<Rightarrow> walk fs fuel follow (pre @ [c]) cs
            | Some (Reg b m) \<Rightarrow> if cs = [] then Inr (pre @ [c]) else Inl ENOTDIR
            | Some (Link target) \<Rightarrow>
                if cs = [] \<and> \<not> follow then Inr (pre @ [c])
                else (case fuel of
                        0 \<Rightarrow> Inl ELOOP
                      | Suc n \<Rightarrow> walk fs n follow (if rooted target then [] else pre) (comps target @ cs))))"
  by pat_completeness auto
termination
  by (relation "measures [\<lambda>(fs, fuel, follow, pre, cs). fuel, \<lambda>(fs, fuel, follow, pre, cs). length cs]") auto

declare walk.simps(2) [simp del]

definition max_links :: nat where "max_links = 40"

definition locate :: "filesys \<Rightarrow> bool \<Rightarrow> string \<Rightarrow> errno + string list" where
  "locate fs follow p = walk fs max_links follow [] (comps p)"

definition node_at :: "filesys \<Rightarrow> string list \<Rightarrow> node option" where
  "node_at fs q = (if q = [] then Some (Folder 493) else fs q)"

definition Lstat :: "filesys \<Rightarrow> string \<Rightarrow> errno + node" where
  "Lstat fs p =
     (case locate fs False p of
        Inl e \<Rightarrow> Inl e
      | Inr q \<Rightarrow> (case node_at fs q of None \<Rightarrow> Inl ENOENT | Some n \<Rightarrow> Inr n))"

fun is_dir :: "node \<Rightarrow> bool" where
  "is_dir (Folder m) = True"
| "is_dir n = False"

fun is_link :: "node \<Rightarrow> bool" where
  "is_link (Link t) = True"
| "is_link n = False"

fun node_size :: "node \<Rightarrow> int" where
  "node_size (Reg b m) = int (length b)"
| "node_size n = 0"

section \<open>Resolving a path\<close>

datatype bad_path = Traversal | Escapes | MissingDir | SymlinkAt string | NotDirAt string

datatype fs_error =
    RootUnavailable
  | BadPath bad_path
  | CapExceeded
  | Conflict
  | Other string

fun resolve_loop :: "filesys \<Rightarrow> string \<Rightarrow> string \<Rightarrow> string list \<Rightarrow> fs_error + string" where
  "resolve_loop fs full prefix [] = Inr full"
| "resolve_loop fs full prefix (p # ps) =
     (let prefix1 = Join2 prefix p; isFinal = (ps = [])
      in case Lstat fs prefix1 of
           Inl e \<Rightarrow>
             if e = ENOENT then (if isFinal then Inr full else Inl (BadPath MissingDir))
             else Inl (Other prefix1)
         | Inr n \<Rightarrow>
             if is_link n then Inl (BadPath (SymlinkAt p))
             else if \<not> isFinal \<and> \<not> is_dir n then Inl (BadPath (NotDirAt p))
             else resolve_loop fs full prefix1 ps)"

definition parent_ref :: "string \<Rightarrow> bool" where
  "parent_ref r \<longleftrightarrow> r = dotdot \<or> has_prefix r (dotdot @ [slash])"

text \<open>The part that \<open>ResolvePath\<close> and \<open>resolvePathForUpload\<close> share, up to the walk.\<close>

definition resolve_lexical :: "string \<Rightarrow> string \<Rightarrow> (fs_error + string) + (string \<times> string list)" where
  "resolve_lexical root path =
     (if root = [] then Inl (Inl RootUnavailable)
      else
        let rel = Clean (trim_prefix path [slash]) in
        if rel = dot \<or> rel = [] then Inl (Inr root)
        else if rel = dotdot then Inl (Inl (BadPath Traversal))
        else if has_prefix rel (dotdot @ [slash]) then Inl (Inl (BadPath Traversal))
        else
          let full = Join2 root rel in
          if (case Rel root full of None \<Rightarrow> False | Some r \<Rightarrow> parent_ref r) then Inl (Inl (BadPath Escapes))
          else Inr (full, split_char slash rel))"

definition ResolvePath :: "filesys \<Rightarrow> string \<Rightarrow> string \<Rightarrow> fs_error + string" where
  "ResolvePath fs root path =
     (case resolve_lexical root path of
        Inl res \<Rightarrow> res
      | Inr (full, parts) \<Rightarrow> resolve_loop fs full root parts)"

text \<open>Missing directories on the way are made.\<close>

definition put :: "filesys \<Rightarrow> string list \<Rightarrow> node \<Rightarrow> filesys" where
  "put fs q n = fs(q \<mapsto> n)"

fun upload_loop :: "filesys \<Rightarrow> string \<Rightarrow> string \<Rightarrow> string list \<Rightarrow> (fs_error + string) \<times> filesys" where
  "upload_loop fs full prefix [] = (Inr full, fs)"
| "upload_loop fs full prefix (p # ps) =
     (let prefix1 = Join2 prefix p; isFinal = (ps = [])
      in case Lstat fs prefix1 of
           Inl e \<Rightarrow>
             if e = ENOENT then
               (if isFinal then (Inr full, fs)
                else (case locate fs True (Dir prefix1) of
                        Inl e1 \<Rightarrow> (Inl (Other prefix1), fs)
                      | Inr d \<Rightarrow> upload_loop (put fs (d @ [Base prefix1]) (Folder 493)) full prefix1 ps))
             else (Inl (Other prefix1), fs)
         | Inr n \<Rightarrow>
             if is_link n then (Inl (BadPath (SymlinkAt p)), fs)
             else if \<not> isFinal \<and> \<not> is_dir n then (Inl (BadPath (NotDirAt p)), fs)
             else upload_loop fs full prefix1 ps)"

definition resolvePathForUpload :: "filesys \<Rightarrow> string \<Rightarrow> string \<Rightarrow> (fs_error + string) \<times> filesys" where
  "resolvePathForUpload fs root path =
     (case resolve_lexical root path of
        Inl res \<Rightarrow> (res, fs)
      | Inr (full, parts) \<Rightarrow> upload_loop fs full root parts)"

section \<open>Operations\<close>

record fs_config =
  MaxTransfer :: int
  MaxChunk :: int
  MaxListEntries :: int
  MaxEditSize :: int

definition fill :: "fs_config \<Rightarrow> fs_config" where
  "fill c = \<lparr>MaxTransfer = (if MaxTransfer c \<le> 0 then 256 * 2 ^ 20 else MaxTransfer c),
     MaxChunk = (if MaxChunk c \<le> 0 then 256 * 2 ^ 10 else MaxChunk c),
     MaxListEntries = (if MaxListEntries c \<le> 0 then 2048 else MaxListEntries c),
     MaxEditSize = (if MaxEditSize c \<le> 0 then 2 ^ 20 else MaxEditSize c)\<rparr>"

text \<open>\<open>fmt.Sprintf("%04o", perm)\<close>.\<close>

fun octal :: "nat \<Rightarrow> string" where
  "octal n = (if n < 8 then [digit_char n] else octal (n div 8) @ [digit_char (n mod 8)])"

declare octal.simps [simp del]

definition mode_text :: "nat \<Rightarrow> string" where
  "mode_text m = (let o8 = octal (m mod 512) in replicate (4 - length o8) (CHR ''0'') @ o8)"

fun node_mode :: "node \<Rightarrow> nat" where
  "node_mode (Reg b m) = m"
| "node_mode (Folder m) = m"
| "node_mode (Link t) = 511"

record stat_info =
  si_Size :: int
  si_Mode :: string
  si_SHA256 :: string
  si_IsDir :: bool
  si_IsSymlink :: bool

definition StatPath :: "(string \<Rightarrow> string) \<Rightarrow> filesys \<Rightarrow> string \<Rightarrow> string \<Rightarrow> fs_error + stat_info" where
  "StatPath sha fs root path =
     bind_res (ResolvePath fs root path) (\<lambda>clean.
       case Lstat fs clean of
         Inl e \<Rightarrow> Inl (Other clean)
       | Inr n \<Rightarrow> Inr \<lparr>si_Size = node_size n, si_Mode = mode_text (node_mode n),
           si_SHA256 = (case n of Reg b m \<Rightarrow> sha b | _ \<Rightarrow> []), si_IsDir = is_dir n, si_IsSymlink = is_link n\<rparr>)"

text \<open>\<open>names\<close>: what \<open>os.ReadDir\<close> lists in a directory, sorted.\<close>

record list_entry =
  le_Name :: string
  le_IsDir :: bool
  le_IsSymlink :: bool
  le_Size :: int
  le_Mode :: string

definition List_dir ::
  "(string list \<Rightarrow> string list) \<Rightarrow> filesys \<Rightarrow> string \<Rightarrow> string \<Rightarrow> fs_config \<Rightarrow> fs_error + (list_entry list \<times> bool)" where
  "List_dir names fs root path c0 =
     (let c = fill c0
      in bind_res (ResolvePath fs root path) (\<lambda>clean.
           case locate fs False clean of
             Inl e \<Rightarrow> Inl (Other clean)
           | Inr q \<Rightarrow>
               (case node_at fs q of
                  Some (Folder m) \<Rightarrow>
                    (let infos = names q; truncated = int (length infos) > MaxListEntries c;
                         shown = (if truncated then take (nat (MaxListEntries c)) infos else infos)
                     in Inr (concat (map (\<lambda>x. case fs (q @ [x]) of
                               None \<Rightarrow> []
                             | Some n \<Rightarrow> [\<lparr>le_Name = x, le_IsDir = is_dir n, le_IsSymlink = is_link n,
                                 le_Size = node_size n, le_Mode = mode_text (node_mode n)\<rparr>]) shown), truncated))
                | _ \<Rightarrow> Inl (Other clean))))"

text \<open>A chunk, the size of the file, and whether it was the last one.\<close>

definition DownloadAt ::
  "filesys \<Rightarrow> string \<Rightarrow> string \<Rightarrow> int \<Rightarrow> fs_config \<Rightarrow> fs_error + (string \<times> int \<times> bool)" where
  "DownloadAt fs root path offset c0 =
     (let c = fill c0
      in bind_res (ResolvePath fs root path) (\<lambda>clean.
           case Lstat fs clean of
             Inr (Reg b m) \<Rightarrow>
               (let sz = int (length b)
                in if offset < 0 \<or> offset > sz then Inl (Other clean)
                   else if offset = sz then Inr ([], sz, True)
                   else
                     let buf = take (nat (MaxChunk c)) (drop (nat offset) b)
                     in Inr (buf, sz, offset + int (length buf) \<ge> sz))
           | _ \<Rightarrow> Inl (Other clean)))"

definition tempSuffix :: string where "tempSuffix = ''.partout-tmp-''"

fun contains :: "string \<Rightarrow> string \<Rightarrow> bool" where
  "contains s p = (has_prefix s p \<or> (case s of [] \<Rightarrow> False | c # t \<Rightarrow> contains t p))"

declare contains.simps [simp del]

definition checkTemp :: "string \<Rightarrow> bool" where
  "checkTemp tempPath \<longleftrightarrow> contains (Base tempPath) tempSuffix"

text \<open>\<open>rand\<close> is the random suffix; creating an existing file fails.\<close>

definition UploadBegin ::
  "string \<Rightarrow> filesys \<Rightarrow> string \<Rightarrow> string \<Rightarrow> int \<Rightarrow> fs_config \<Rightarrow> (fs_error + string) \<times> filesys" where
  "UploadBegin rand fs root target totalSize c0 =
     (let c = fill c0
      in if totalSize < 0 then (Inl (Other target), fs)
         else if totalSize > MaxTransfer c then (Inl CapExceeded, fs)
         else (case resolvePathForUpload fs root target of
                 (Inl e, fs1) \<Rightarrow> (Inl e, fs1)
               | (Inr clean, fs1) \<Rightarrow>
                   (let tempPath = Join2 (Dir clean) (Base clean @ tempSuffix @ rand)
                    in case locate fs1 True (Dir tempPath) of
                         Inl e \<Rightarrow> (Inl (Other tempPath), fs1)
                       | Inr d \<Rightarrow>
                           if node_at fs1 (d @ [Base tempPath]) \<noteq> None then (Inl (Other tempPath), fs1)
                           else (Inr tempPath, put fs1 (d @ [Base tempPath]) (Reg [] 384)))))"

text \<open>\<open>UploadChunk\<close> takes no root.\<close>

definition UploadChunk :: "filesys \<Rightarrow> string \<Rightarrow> int \<Rightarrow> string \<Rightarrow> fs_config \<Rightarrow> (fs_error + int) \<times> filesys" where
  "UploadChunk fs tempPath offset bs c0 =
     (let c = fill c0
      in if offset < 0 \<or> bs = [] then (Inl (Other tempPath), fs)
         else if \<not> checkTemp tempPath then (Inl (Other tempPath), fs)
         else (case locate fs False tempPath of
                 Inl e \<Rightarrow> (Inl (Other tempPath), fs)
               | Inr q \<Rightarrow>
                   (case node_at fs q of
                      Some (Reg b m) \<Rightarrow>
                        (if offset \<noteq> int (length b) then (Inl (Other tempPath), fs)
                         else if int (length b) + int (length bs) > MaxTransfer c then (Inl CapExceeded, fs)
                         else (Inr (int (length b) + int (length bs)), put fs q (Reg (b @ bs) m)))
                    | _ \<Rightarrow> (Inl (Other tempPath), fs))))"

text \<open>\<open>strconv.ParseUint(t, 8, 32)\<close> without the sign and underscore forms it rejects.\<close>

definition octal_digit :: "char \<Rightarrow> bool" where
  "octal_digit ch \<longleftrightarrow> CHR ''0'' \<le> ch \<and> ch \<le> CHR ''7''"

definition parse_octal :: "string \<Rightarrow> nat option" where
  "parse_octal t =
     (if t = [] \<or> \<not> list_all octal_digit t then None
      else let v = foldl (\<lambda>n ch. 8 * n + (of_char ch - 48)) 0 t in if v \<ge> 2 ^ 32 then None else Some v)"

definition parseMode :: "string \<Rightarrow> nat option" where
  "parseMode s = parse_octal (trim_prefix s ''0'')"

text \<open>\<open>os.Chmod\<close> keeps the permission bits and Go's own bits 23, 22 and 20 (set-uid, set-gid, sticky).\<close>

definition chmod_bits :: "nat \<Rightarrow> nat" where
  "chmod_bits v = v mod 512 + (if odd (v div 2 ^ 23) then 2048 else 0) + (if odd (v div 2 ^ 22) then 1024 else 0) +
     (if odd (v div 2 ^ 20) then 512 else 0)"

fun set_mode :: "nat \<Rightarrow> node \<Rightarrow> node" where
  "set_mode m (Reg b m0) = Reg b m"
| "set_mode m (Folder m0) = Folder m"
| "set_mode m (Link t) = Link t"

definition remove :: "filesys \<Rightarrow> string list \<Rightarrow> filesys" where
  "remove fs q = fs(q := None)"

text \<open>\<open>os.Remove\<close>; a directory is taken to hold something, so that removing it fails.\<close>

definition os_Remove :: "filesys \<Rightarrow> string \<Rightarrow> filesys option" where
  "os_Remove fs p =
     (case locate fs False p of
        Inl e \<Rightarrow> None
      | Inr q \<Rightarrow> (case node_at fs q of None \<Rightarrow> None | Some (Folder m) \<Rightarrow> None | Some n \<Rightarrow> Some (remove fs q)))"

definition remove_path :: "filesys \<Rightarrow> string \<Rightarrow> filesys" where
  "remove_path fs p = (case os_Remove fs p of None \<Rightarrow> fs | Some fs1 \<Rightarrow> fs1)"

text \<open>\<open>os.Chmod\<close> follows links.\<close>

definition os_Chmod :: "filesys \<Rightarrow> string \<Rightarrow> nat \<Rightarrow> filesys option" where
  "os_Chmod fs p v =
     (case locate fs True p of
        Inl e \<Rightarrow> None
      | Inr q \<Rightarrow> (case node_at fs q of None \<Rightarrow> None | Some n \<Rightarrow> Some (put fs q (set_mode (chmod_bits v) n))))"

text \<open>Renaming a file over a file or a free name; over a directory it fails.\<close>

definition rename :: "filesys \<Rightarrow> string list \<Rightarrow> string \<Rightarrow> filesys option" where
  "rename fs q target =
     (case (node_at fs q, locate fs True (Dir target)) of
        (Some n, Inr d) \<Rightarrow>
          (case node_at fs (d @ [Base target]) of
             Some (Folder m) \<Rightarrow> None
           | _ \<Rightarrow> Some ((remove fs q)(d @ [Base target] \<mapsto> n)))
      | _ \<Rightarrow> None)"

text \<open>A temporary file that is a directory does not occur.\<close>

definition commit_mode :: "filesys \<Rightarrow> string \<Rightarrow> string \<Rightarrow> filesys option" where
  "commit_mode fs tempPath mode =
     (if mode = [] then Some fs
      else (case parseMode mode of None \<Rightarrow> None | Some v \<Rightarrow> os_Chmod fs tempPath v))"

definition UploadCommit ::
  "(string \<Rightarrow> string) \<Rightarrow> filesys \<Rightarrow> string \<Rightarrow> string \<Rightarrow> string \<Rightarrow> string \<Rightarrow> int \<Rightarrow> (fs_error + string) \<times> filesys" where
  "UploadCommit sha fs root tempPath target mode totalSize =
     (if \<not> checkTemp tempPath then (Inl (Other tempPath), fs)
      else (case ResolvePath fs root target of
              Inl e \<Rightarrow> (Inl e, remove_path fs tempPath)
            | Inr clean \<Rightarrow>
                if Dir tempPath \<noteq> Dir clean then (Inl (Other clean), remove_path fs tempPath)
                else (case locate fs False tempPath of
                        Inl e \<Rightarrow> (Inl (Other tempPath), fs)
                      | Inr q \<Rightarrow>
                          (case node_at fs q of
                             None \<Rightarrow> (Inl (Other tempPath), fs)
                           | Some n \<Rightarrow>
                               if totalSize > 0 \<and> node_size n \<noteq> totalSize then (Inl (Other tempPath), remove_path fs tempPath)
                               else (case commit_mode fs tempPath mode of
                                       None \<Rightarrow> (Inl (Other mode), remove_path fs tempPath)
                                     | Some fs1 \<Rightarrow>
                                         (case rename fs1 q clean of
                                            None \<Rightarrow> (Inl (Other clean), remove_path fs1 tempPath)
                                          | Some fs2 \<Rightarrow>
                                              (case n of
                                                 Reg b m \<Rightarrow> (Inr (sha b), fs2)
                                               | _ \<Rightarrow> (Inl (Other clean), fs2))))))))"

definition UploadAbort :: "filesys \<Rightarrow> string \<Rightarrow> (fs_error + unit) \<times> filesys" where
  "UploadAbort fs tempPath =
     (if \<not> checkTemp tempPath then (Inl (Other tempPath), fs)
      else (case os_Remove fs tempPath of
              None \<Rightarrow> (Inl (Other tempPath), fs)
            | Some fs1 \<Rightarrow> (Inr (), fs1)))"

text \<open>Nothing but a file can be at the temporary path of an edit.\<close>

definition EditCAS ::
  "(string \<Rightarrow> string) \<Rightarrow> string \<Rightarrow> filesys \<Rightarrow> string \<Rightarrow> string \<Rightarrow> string \<Rightarrow> string \<Rightarrow> fs_config
   \<Rightarrow> (fs_error + string) \<times> filesys" where
  "EditCAS sha rand fs root path expected bs c0 =
     (let c = fill c0
      in if int (length bs) > MaxEditSize c then (Inl CapExceeded, fs)
         else (case ResolvePath fs root path of
                 Inl e \<Rightarrow> (Inl e, fs)
               | Inr clean \<Rightarrow>
                   (case Lstat fs clean of
                      Inr (Reg b m) \<Rightarrow>
                        (if expected \<noteq> [] \<and> lower expected \<noteq> lower (sha b) then (Inl Conflict, fs)
                         else
                           let tmp = clean @ tempSuffix @ rand
                           in case locate fs True (Dir tmp) of
                                Inl e \<Rightarrow> (Inl (Other tmp), fs)
                              | Inr d \<Rightarrow>
                                  (let fs1 = put fs (d @ [Base tmp]) (Reg bs (chmod_bits (m mod 512)))
                                   in case rename fs1 (d @ [Base tmp]) clean of
                                        None \<Rightarrow> (Inl (Other clean), remove fs1 (d @ [Base tmp]))
                                      | Some fs2 \<Rightarrow> (Inr (sha bs), fs2)))
                    | _ \<Rightarrow> (Inl (Other clean), fs))))"

definition SetPerm ::
  "filesys \<Rightarrow> string \<Rightarrow> string \<Rightarrow> string \<Rightarrow> string \<Rightarrow> string \<Rightarrow> (fs_error + unit) \<times> filesys" where
  "SetPerm fs root path mode user grp =
     (if user \<noteq> [] \<or> grp \<noteq> [] then (Inl (Other path), fs)
      else if mode = [] then (Inl (Other path), fs)
      else (case ResolvePath fs root path of
              Inl e \<Rightarrow> (Inl e, fs)
            | Inr clean \<Rightarrow>
                (case locate fs False clean of
                   Inl e \<Rightarrow> (Inl (Other clean), fs)
                 | Inr q \<Rightarrow>
                     (case node_at fs q of
                        None \<Rightarrow> (Inl (Other clean), fs)
                      | Some n \<Rightarrow>
                          if is_link n then (Inl (Other clean), fs)
                          else (case parseMode mode of
                                  None \<Rightarrow> (Inl (Other mode), fs)
                                | Some v \<Rightarrow> (Inr (), put fs q (set_mode (chmod_bits v) n)))))))"

section \<open>Absolute paths\<close>

definition abs_path :: "string list \<Rightarrow> string" where
  "abs_path cs = slash # join_str [slash] cs"

lemma split_char_append: "split_char c (x @ c # y) = split_char c x @ split_char c y"
proof (induction x)
  case (Cons a x)
  then show ?case by (cases "split_char c x") auto
qed simp

lemma join_str_snoc: "cs \<noteq> [] \<Longrightarrow> join_str sep (cs @ [x]) = join_str sep cs @ sep @ x"
  by (induction sep cs rule: join_str.induct) auto

lemma abs_path_snoc: "abs_path (cs @ [x]) = (if cs = [] then slash # x else abs_path cs @ slash # x)"
  by (simp add: abs_path_def join_str_snoc)

lemma clean_comps_skip: "fold (clean_comp ab) cs st = fold (clean_comp ab) (filter (\<lambda>c. c \<noteq> []) cs) st"
  by (induction cs arbitrary: st) (auto simp: clean_comp_def)

lemma split_abs_path:
  assumes "list_all comp_ok cs"
  shows "filter (\<lambda>c. c \<noteq> []) (split_char slash (abs_path cs)) = cs"
proof -
  have n: "list_all name_ok cs" "filter (\<lambda>c. c \<noteq> []) cs = cs"
    using assms by (auto simp: list_all_iff comp_ok_def name_ok_def filter_id_conv)
  then have "cs = [] \<or> split_char slash (join_str [slash] cs) = cs" using split_join_names by blast
  with n show ?thesis by (auto simp: abs_path_def)
qed

lemma comps_abs_path: "list_all comp_ok cs \<Longrightarrow> comps (abs_path cs) = cs"
  by (simp add: abs_path_def comps_abs)

lemma Clean_abs: "rooted p \<Longrightarrow> Clean p = abs_path (comps p)"
  by (simp add: Clean_def comps_def abs_path_def path_text_def)

lemma Join2_abs:
  assumes "list_all comp_ok cs" "list_all comp_ok (filter (\<lambda>c. c \<noteq> []) (split_char slash r))"
  shows "Join2 (abs_path cs) r = abs_path (cs @ filter (\<lambda>c. c \<noteq> []) (split_char slash r))"
proof (cases "r = []")
  case True
  have "rooted (abs_path cs)" by (simp add: abs_path_def rooted_def)
  then show ?thesis using True assms by (simp add: Join2_def Clean_abs comps_abs_path)
next
  case False
  let ?p = "abs_path cs @ [slash] @ r"
  let ?r = "filter (\<lambda>c. c \<noteq> []) (split_char slash r)"
  have r: "rooted ?p" by (simp add: abs_path_def rooted_def)
  have "split_char slash ?p = split_char slash (abs_path cs) @ split_char slash r"
    by (simp add: split_char_append)
  then have "filter (\<lambda>c. c \<noteq> []) (split_char slash ?p) = cs @ ?r"
    using split_abs_path [OF assms(1)] by simp
  moreover have "list_all comp_ok (cs @ ?r)" using assms by simp
  ultimately have "comps ?p = cs @ ?r"
    unfolding comps_def clean_comps_def using clean_comps_skip clean_comps_names by (metis append_Nil2 rev_rev_ident)
  moreover have "abs_path cs \<noteq> []" by (simp add: abs_path_def)
  ultimately show ?thesis using r False by (simp add: Join2_def Clean_abs)
qed

lemma Join2_name:
  assumes "list_all comp_ok cs" "comp_ok p"
  shows "Join2 (abs_path cs) p = abs_path (cs @ [p])"
proof -
  have "split_char slash p = [p]" "p \<noteq> []"
    using assms(2) by (auto simp: comp_ok_def name_ok_def intro: split_char_sep_free_id)
  with Join2_abs [OF assms(1), of p] assms(2) show ?thesis by simp
qed

lemma Dir_abs_path:
  assumes "list_all comp_ok cs" "comp_ok x"
  shows "Dir (abs_path (cs @ [x])) = abs_path cs"
proof -
  have x: "slash \<notin> set (rev x)" using assms(2) by (simp add: comp_ok_def name_ok_def)
  have "abs_path (cs @ [x]) = (if cs = [] then [] else abs_path cs) @ [slash] @ x" by (simp add: abs_path_snoc)
  then have "rev (abs_path (cs @ [x])) = rev x @ slash # rev (if cs = [] then [] else abs_path cs)" by simp
  moreover have "dropWhile (\<lambda>c. c \<noteq> slash) (rev x @ slash # u) = slash # u" for u
    using x by (induction "rev x") (auto simp: dropWhile_append)
  ultimately have "dropWhile (\<lambda>c. c \<noteq> slash) (rev (abs_path (cs @ [x]))) = slash # rev (if cs = [] then [] else abs_path cs)"
    by simp
  then have "Dir (abs_path (cs @ [x])) = Clean ((if cs = [] then [] else abs_path cs) @ [slash])" by (simp add: Dir_def)
  also have "\<dots> = abs_path cs"
  proof -
    let ?p = "(if cs = [] then [] else abs_path cs) @ [slash]"
    have r: "rooted ?p" by (simp add: abs_path_def rooted_def)
    have "split_char slash ?p = split_char slash (if cs = [] then [] else abs_path cs) @ [[]]"
      by (simp add: split_char_append [of _ _ "[]", simplified])
    then have "filter (\<lambda>c. c \<noteq> []) (split_char slash ?p) = cs" using split_abs_path [OF assms(1)] by simp
    then have "comps ?p = cs"
      unfolding comps_def clean_comps_def using clean_comps_skip clean_comps_names [OF assms(1)] by (metis append_Nil2 rev_rev_ident)
    with r show ?thesis by (simp add: Clean_abs)
  qed
  finally show ?thesis .
qed

lemma Base_abs_path:
  assumes "comp_ok x"
  shows "Base (abs_path (cs @ [x])) = x"
proof -
  obtain y ys where y: "rev x = y # ys" using assms by (cases "rev x") (auto simp: comp_ok_def name_ok_def)
  have x: "slash \<notin> set (rev x)" using assms by (simp add: comp_ok_def name_ok_def)
  have e: "rev (abs_path (cs @ [x])) = rev x @ slash # rev (if cs = [] then [] else abs_path cs)"
    by (simp add: abs_path_snoc)
  have "y \<noteq> slash" using x y by auto
  then have "dropWhile (\<lambda>c. c = slash) (rev (abs_path (cs @ [x]))) = rev (abs_path (cs @ [x]))"
    unfolding e y by simp
  moreover have "takeWhile (\<lambda>c. c \<noteq> slash) (rev (abs_path (cs @ [x]))) = rev x"
    unfolding e using x by (simp add: takeWhile_append)
  moreover have "abs_path (cs @ [x]) \<noteq> []" by (simp add: abs_path_def)
  ultimately show ?thesis unfolding Base_def Let_def by simp
qed

section \<open>Confinement\<close>

definition folder_at :: "filesys \<Rightarrow> string list \<Rightarrow> bool" where
  "folder_at fs q \<longleftrightarrow> (\<exists>m. node_at fs q = Some (Folder m))"

lemma folder_at_Nil [simp]: "folder_at fs []"
  by (simp add: folder_at_def node_at_def)

text \<open>Every proper part of the path is a directory, and the path itself is no link.\<close>

definition clear :: "filesys \<Rightarrow> string list \<Rightarrow> bool" where
  "clear fs q \<longleftrightarrow> (\<forall>k < length q. folder_at fs (take k q)) \<and> (\<forall>t. fs q \<noteq> Some (Link t))"

definition all_folders :: "filesys \<Rightarrow> string list \<Rightarrow> bool" where
  "all_folders fs q \<longleftrightarrow> (\<forall>k \<le> length q. folder_at fs (take k q))"

lemma all_folders_snoc:
  "all_folders fs (q @ [c]) \<longleftrightarrow> all_folders fs q \<and> folder_at fs (q @ [c])"
proof -
  have "(\<forall>k \<le> Suc (length q). folder_at fs (take k (q @ [c]))) \<longleftrightarrow>
      (\<forall>k \<le> length q. folder_at fs (take k (q @ [c]))) \<and> folder_at fs (take (Suc (length q)) (q @ [c]))"
    using le_Suc_eq by auto
  then show ?thesis by (simp add: all_folders_def)
qed

lemma clear_snoc: "clear fs (q @ [c]) \<longleftrightarrow> all_folders fs q \<and> (\<forall>t. fs (q @ [c]) \<noteq> Some (Link t))"
  by (auto simp: clear_def all_folders_def less_Suc_eq_le)

lemma all_folders_append: "all_folders fs (a @ b) \<Longrightarrow> all_folders fs a"
  unfolding all_folders_def by (metis (no_types) append_take_drop_id le_add1 length_append order_trans take_append
      diff_is_0_eq take0 append_Nil2)

lemma all_folders_clear: "all_folders fs q \<Longrightarrow> fs [] = None \<Longrightarrow> clear fs q"
proof (cases q rule: rev_cases)
  case Nil
  then show "fs [] = None \<Longrightarrow> clear fs q" by (simp add: clear_def)
next
  case (snoc q1 c)
  assume "all_folders fs q"
  then have "all_folders fs q1" "folder_at fs (q1 @ [c])" using snoc by (simp_all add: all_folders_snoc)
  then show "clear fs q" using snoc by (auto simp: clear_snoc folder_at_def node_at_def)
qed

text \<open>The kernel stays on a path whose proper parts are directories.\<close>

lemma walk_folders:
  "all_folders fs (pre @ cs) \<Longrightarrow> list_all comp_ok cs \<Longrightarrow> walk fs fuel follow pre (cs @ ds) = walk fs fuel follow (pre @ cs) ds"
proof (induction cs arbitrary: pre)
  case (Cons c cs)
  have "folder_at fs (take (Suc (length pre)) (pre @ c # cs))"
    using Cons.prems(1) by (simp add: all_folders_def del: take_append)
  then have "folder_at fs (pre @ [c])" by simp
  then obtain m where "fs (pre @ [c]) = Some (Folder m)" by (auto simp: folder_at_def node_at_def)
  moreover have "c \<noteq> dotdot" using Cons.prems(2) by (simp add: comp_ok_def)
  ultimately show ?case using Cons.IH [of "pre @ [c]"] Cons.prems by (simp add: walk.simps(2))
qed simp

lemma locate_folder:
  assumes "all_folders fs q" "list_all comp_ok q"
  shows "locate fs follow (abs_path q) = Inr q"
  using walk_folders [of fs "[]" q max_links follow "[]"] assms
  by (simp add: locate_def comps_abs_path)

lemma locate_clear:
  assumes "clear fs (q @ [c])" "list_all comp_ok (q @ [c])"
  shows "locate fs follow (abs_path (q @ [c])) = (if fs (q @ [c]) = None then Inl ENOENT else Inr (q @ [c]))"
proof -
  have "all_folders fs q" "c \<noteq> dotdot" using assms by (auto simp: clear_snoc comp_ok_def)
  then show ?thesis
    using walk_folders [of fs "[]" q max_links follow "[c]"] assms
    by (cases "fs (q @ [c])")
      (auto simp: locate_def comps_abs_path walk.simps(2) clear_snoc split: node.split)
qed

lemma Lstat_step:
  assumes "all_folders fs q" "list_all comp_ok (q @ [c])"
  shows "Lstat fs (abs_path (q @ [c])) = (case fs (q @ [c]) of None \<Rightarrow> Inl ENOENT | Some n \<Rightarrow> Inr n)"
proof -
  have c: "c \<noteq> dotdot" using assms by (simp add: comp_ok_def)
  have "locate fs False (abs_path (q @ [c])) = (if fs (q @ [c]) = None then Inl ENOENT else Inr (q @ [c]))"
    using walk_folders [of fs "[]" q max_links False "[c]"] assms c
    by (cases "fs (q @ [c])") (auto simp: locate_def comps_abs_path walk.simps(2) split: node.split)
  then show ?thesis by (auto simp: Lstat_def node_at_def split: option.split)
qed

lemma Lstat_folder:
  assumes "all_folders fs q" "list_all comp_ok q"
  shows "\<exists>m. Lstat fs (abs_path q) = Inr (Folder m)"
proof -
  have "folder_at fs (take (length q) q)" using assms(1) unfolding all_folders_def by blast
  then show ?thesis using locate_folder [OF assms, of False] by (auto simp: Lstat_def folder_at_def)
qed

text \<open>The components the walk of \<open>ResolvePath\<close> meets: names, and the empty one before a second slash.\<close>

definition part_ok :: "string \<Rightarrow> bool" where
  "part_ok p \<longleftrightarrow> p = [] \<or> comp_ok p"

abbreviation names_of :: "string list \<Rightarrow> string list" where
  "names_of ps \<equiv> filter (\<lambda>p. p \<noteq> []) ps"

lemma names_of_ok: "list_all part_ok ps \<Longrightarrow> list_all comp_ok (names_of ps)"
  by (induction ps) (auto simp: part_ok_def)

lemma comp_ok_nonempty: "comp_ok p \<Longrightarrow> p \<noteq> []"
  by (simp add: comp_ok_def name_ok_def)

lemma Join2_Nil: "list_all comp_ok q \<Longrightarrow> Join2 (abs_path q) [] = abs_path q"
  using Join2_abs [of q "[]"] by simp

lemma resolve_loop_clear:
  "resolve_loop fs full (abs_path pre) ps = Inr res \<Longrightarrow> all_folders fs pre \<Longrightarrow> fs [] = None \<Longrightarrow>
     list_all comp_ok pre \<Longrightarrow> list_all part_ok ps \<Longrightarrow> res = full \<and> clear fs (pre @ names_of ps)"
proof (induction ps arbitrary: pre)
  case Nil
  then show ?case by (simp add: all_folders_clear)
next
  case (Cons p ps)
  show ?case
  proof (cases "p = []")
    case True
    obtain m where "Lstat fs (abs_path pre) = Inr (Folder m)" using Lstat_folder Cons.prems by blast
    with Cons.prems True have "resolve_loop fs full (abs_path pre) ps = Inr res" by (simp add: Join2_Nil)
    with Cons.IH Cons.prems True show ?thesis by simp
  next
    case False
    with Cons.prems(5) have p: "comp_ok p" by (simp add: part_ok_def)
    have ok: "list_all comp_ok (pre @ [p])" using Cons.prems(4) p by simp
    have j: "Join2 (abs_path pre) p = abs_path (pre @ [p])" using Join2_name Cons.prems(4) p by blast
    note l = Lstat_step [OF Cons.prems(2) ok]
    show ?thesis
    proof (cases "fs (pre @ [p])")
      case None
      with Cons.prems(1) l j have "ps = []" "res = full" by (auto split: if_splits)
      with None p Cons.prems(2) show ?thesis by (simp add: clear_snoc comp_ok_nonempty)
    next
      case (Some n)
      with Cons.prems(1) l j have nl: "\<not> is_link n" "ps \<noteq> [] \<Longrightarrow> is_dir n"
        and rest: "resolve_loop fs full (abs_path (pre @ [p])) ps = Inr res"
        by (auto simp: Let_def split: if_splits)
      show ?thesis
      proof (cases "ps = []")
        case True
        with nl Some Cons.prems rest p show ?thesis by (auto simp: clear_snoc comp_ok_nonempty)
      next
        case False
        with nl Some have "folder_at fs (pre @ [p])" by (cases n) (auto simp: folder_at_def node_at_def)
        then have "all_folders fs (pre @ [p])" using Cons.prems(2) by (simp add: all_folders_snoc)
        from Cons.IH [OF rest this Cons.prems(3) ok] Cons.prems(5) p show ?thesis
          by (simp add: comp_ok_nonempty)
      qed
    qed
  qed
qed

text \<open>A root as \<open>PrepareFileRoot\<close> leaves it: a clean absolute path to a directory, through directories.\<close>

definition root_ok :: "filesys \<Rightarrow> string \<Rightarrow> bool" where
  "root_ok fs root \<longleftrightarrow> list_all comp_ok (comps root) \<and> root = abs_path (comps root) \<and> all_folders fs (comps root) \<and> fs [] = None"

lemma Clean_rel_parts:
  assumes "rel = Clean p" "rel \<noteq> dot" "rel \<noteq> dotdot" "\<not> has_prefix rel (dotdot @ [slash])"
  shows "list_all part_ok (split_char slash rel) \<and> names_of (split_char slash rel) = comps p \<and>
    (comps p \<noteq> [] \<longrightarrow> split_char slash rel \<in> {comps p, [] # comps p})"
proof -
  obtain k ns where c: "comps p = replicate k dotdot @ ns" "list_all comp_ok ns" "rooted p \<longrightarrow> k = 0"
    using comps_shape by blast
  have rel: "rel = path_text (rooted p) (comps p)" using assms(1) by (simp add: Clean_def comps_def)
  have k: "k = 0"
  proof (rule ccontr)
    assume "k \<noteq> 0"
    then obtain j where "comps p = dotdot # replicate j dotdot @ ns" using c(1) by (cases k) auto
    moreover have "\<not> rooted p" using c(3) \<open>k \<noteq> 0\<close> by blast
    ultimately show False
      using assms(3,4) rel by (cases "replicate j dotdot @ ns") (auto simp: path_text_def has_prefix_def)
  qed
  with c have all: "list_all comp_ok (comps p)" "list_all name_ok (comps p)"
    using comps_name_ok [of p] by simp_all
  show ?thesis
  proof (cases "rooted p")
    case True
    with rel have "rel = abs_path (comps p)" by (simp add: path_text_def abs_path_def)
    moreover have "comps p = [] \<or> split_char slash (join_str [slash] (comps p)) = comps p"
      using split_join_names all(2) by blast
    ultimately show ?thesis using all(1) split_abs_path [OF all(1)]
      by (auto simp: abs_path_def part_ok_def list_all_iff)
  next
    case False
    with rel assms(2) have "comps p \<noteq> []" "rel = join_str [slash] (comps p)"
      by (auto simp: path_text_def)
    then have "split_char slash rel = comps p" using split_join_names all(2) by blast
    with all show ?thesis by (auto simp: part_ok_def list_all_iff comp_ok_nonempty filter_id_conv)
  qed
qed

lemma resolve_lexical_parts:
  assumes "resolve_lexical root path = Inr (full, parts)" "list_all comp_ok (comps root)" "root = abs_path (comps root)"
  shows "list_all part_ok parts \<and> full = abs_path (comps root @ names_of parts) \<and>
    (names_of parts \<noteq> [] \<longrightarrow> parts \<in> {names_of parts, [] # names_of parts})"
proof -
  from assms(1) obtain rel where rel: "rel = Clean (trim_prefix path [slash])" "rel \<noteq> dot" "rel \<noteq> dotdot"
    "\<not> has_prefix rel (dotdot @ [slash])" "full = Join2 root rel" "parts = split_char slash rel"
    by (auto simp: resolve_lexical_def Let_def split: if_splits)
  from Clean_rel_parts [OF rel(1-4)] rel(6) have p: "list_all part_ok parts"
    "names_of parts \<noteq> [] \<longrightarrow> parts \<in> {names_of parts, [] # names_of parts}" by simp_all
  have "Join2 (abs_path (comps root)) rel = abs_path (comps root @ names_of parts)"
    using Join2_abs [OF assms(2), of rel] names_of_ok [OF p(1)] rel(6) by simp
  with assms(3) rel(5) p show ?thesis by simp
qed

lemma ResolvePath_clear:
  assumes "root_ok fs root" "ResolvePath fs root path = Inr full"
  shows "\<exists>cs. list_all comp_ok cs \<and> full = abs_path (comps root @ cs) \<and> clear fs (comps root @ cs)"
proof -
  have r: "list_all comp_ok (comps root)" "root = abs_path (comps root)" "all_folders fs (comps root)" "fs [] = None"
    using assms(1) by (auto simp: root_ok_def)
  from assms(2) consider "resolve_lexical root path = Inl (Inr full)"
    | parts f where "resolve_lexical root path = Inr (f, parts)" "resolve_loop fs f root parts = Inr full"
    by (auto simp: ResolvePath_def split: sum.splits prod.splits)
  then show ?thesis
  proof cases
    case 1
    then have "full = root" by (auto simp: resolve_lexical_def Let_def split: if_splits)
    with r show ?thesis by (intro exI [of _ "[]"]) (simp add: all_folders_clear)
  next
    case 2
    from resolve_lexical_parts [OF 2(1) r(1,2)] have p: "list_all part_ok parts"
      "f = abs_path (comps root @ names_of parts)" by simp_all
    from 2(2) r(2) have "resolve_loop fs f (abs_path (comps root)) parts = Inr full" by simp
    from resolve_loop_clear [OF this r(3,4,1) p(1)] have "full = f" "clear fs (comps root @ names_of parts)" by simp_all
    with p names_of_ok show ?thesis by blast
  qed
qed

text \<open>C3: The file root confines: when \<open>ResolvePath\<close> accepts a path, the path it returns names the root or
  something below it, and following it, even through its last component, the kernel meets no symbolic
  link: it ends at just that place or finds nothing there.\<close>

theorem ResolvePath_confined:
  assumes "root_ok fs root" "ResolvePath fs root path = Inr full"
  shows "\<exists>cs. list_all comp_ok cs \<and> full = abs_path (comps root @ cs) \<and>
           locate fs True full \<in> {Inr (comps root @ cs), Inl ENOENT}"
proof -
  from ResolvePath_clear [OF assms] obtain cs where cs: "list_all comp_ok cs"
    "full = abs_path (comps root @ cs)" "clear fs (comps root @ cs)" by blast
  have r: "list_all comp_ok (comps root)" "all_folders fs (comps root)" using assms(1) by (auto simp: root_ok_def)
  have "locate fs True full \<in> {Inr (comps root @ cs), Inl ENOENT}"
  proof (cases cs rule: rev_cases)
    case Nil
    with locate_folder [OF r(2,1)] cs(2) show ?thesis by simp
  next
    case (snoc cs1 c)
    with locate_clear [of fs "comps root @ cs1" c True] cs r(1) show ?thesis by simp
  qed
  with cs show ?thesis by blast
qed

text \<open>A small host: the file root \<open>/srv\<close> with a file, a directory, and a link out of it.\<close>

definition host_sample :: filesys where
  "host_sample = [[''srv''] \<mapsto> Folder 488, [''srv'', ''a''] \<mapsto> Reg ''old'' 420, [''srv'', ''d''] \<mapsto> Folder 493,
     [''srv'', ''out''] \<mapsto> Link ''/etc'', [''etc''] \<mapsto> Folder 493, [''etc'', ''x.partout-tmp-1''] \<mapsto> Reg [] 420]"

lemma host_sample_root: "root_ok host_sample ''/srv''"
proof -
  have "comps ''/srv'' = [''srv'']" by code_simp
  then show ?thesis
    by (auto simp: root_ok_def all_folders_def folder_at_def node_at_def host_sample_def comp_ok_def name_ok_def
        abs_path_def le_Suc_eq)
qed

theorem ResolvePath_confined_witness:
  "\<exists>cs. list_all comp_ok cs \<and> ''/srv/d/new'' = abs_path (comps ''/srv'' @ cs) \<and>
        locate host_sample True ''/srv/d/new'' \<in> {Inr (comps ''/srv'' @ cs), Inl ENOENT}"
proof (rule ResolvePath_confined [OF host_sample_root])
  show "ResolvePath host_sample ''/srv'' ''/x/../d//new'' = Inr ''/srv/d/new''" by code_simp
qed

section \<open>Edits\<close>

lemma temp_name_ok: "comp_ok c \<Longrightarrow> slash \<notin> set rand \<Longrightarrow> comp_ok (c @ tempSuffix @ rand)"
  by (auto simp: comp_ok_def name_ok_def tempSuffix_def)

lemma all_folders_put:
  "all_folders fs q \<Longrightarrow> length q < length t \<Longrightarrow> all_folders (fs(t := n)) q"
  by (auto simp: all_folders_def folder_at_def node_at_def)

text \<open>Renaming a file within a directory.\<close>

lemma rename_within:
  assumes "all_folders fs q" "list_all comp_ok (q @ [c])" "fs t = Some n" "length t = Suc (length q)"
    "\<forall>m. fs (q @ [c]) \<noteq> Some (Folder m)"
  shows "rename fs t (abs_path (q @ [c])) = Some ((remove fs t)(q @ [c] \<mapsto> n))"
proof -
  have c: "list_all comp_ok q" "comp_ok c" using assms(2) by simp_all
  have "t \<noteq> []" using assms(4) by auto
  then show ?thesis
    using assms locate_folder [OF assms(1) c(1), of True]
    by (auto simp: rename_def Dir_abs_path [OF c] Base_abs_path [OF c(2)] node_at_def split: option.split node.split)
qed

text \<open>A compare-and-swap edit of a file below the root: if the caller's checksum is not that of the
  file's current content nothing changes and the answer is a conflict; otherwise the file has the new
  content and its old permissions, the answer is the new checksum, and no other file is touched.\<close>

theorem EditCAS_replaces:
  assumes "root_ok fs root" "ResolvePath fs root path = Inr clean" "locate fs False clean = Inr q"
    and "fs q = Some (Reg b m)" "int (length bs) \<le> MaxEditSize (fill c)"
    and "slash \<notin> set rand" "fs (butlast q @ [last q @ tempSuffix @ rand]) = None"
  shows "EditCAS sha rand fs root path expected bs c =
     (if expected \<noteq> [] \<and> lower expected \<noteq> lower (sha b) then (Inl Conflict, fs)
      else (Inr (sha bs), fs(q \<mapsto> Reg bs (m mod 512))))"
proof -
  from ResolvePath_clear [OF assms(1,2)] obtain cs where cs: "list_all comp_ok cs"
    "clean = abs_path (comps root @ cs)" "clear fs (comps root @ cs)" by blast
  have r: "list_all comp_ok (comps root)" "all_folders fs (comps root)" using assms(1) by (auto simp: root_ok_def)
  have "cs \<noteq> []"
  proof
    assume "cs = []"
    with locate_folder [OF r(2,1)] cs(2) assms(3) have "q = comps root" by simp
    moreover have "folder_at fs (comps root)" using r(2) unfolding all_folders_def by (metis order_refl take_all)
    ultimately show False using assms(1,4) by (auto simp: folder_at_def node_at_def root_ok_def split: if_splits)
  qed
  then obtain q1 x where q1: "comps root @ cs = q1 @ [x]" by (metis append_is_Nil_conv rev_exhaust)
  have ok: "list_all comp_ok (q1 @ [x])" "list_all comp_ok q1" "comp_ok x"
  proof -
    have "list_all comp_ok (comps root @ cs)" using r(1) cs(1) by simp
    then show "list_all comp_ok (q1 @ [x])" "list_all comp_ok q1" "comp_ok x" by (simp_all add: q1)
  qed
  have cl: "clear fs (q1 @ [x])" "all_folders fs q1" using cs(3) q1 by (simp_all add: clear_snoc)
  have qq: "q = q1 @ [x]" using locate_clear [OF cl(1) ok(1)] cs(2) q1 assms(3) by (simp split: if_splits)
  have clean: "clean = abs_path (q1 @ [x])" using cs(2) q1 by simp
  have ls: "Lstat fs clean = Inr (Reg b m)"
    unfolding clean using Lstat_step [OF cl(2) ok(1)] qq assms(4) by simp
  let ?x = "x @ tempSuffix @ rand"
  have okx: "comp_ok ?x" using temp_name_ok ok(3) assms(6) by blast
  have tmp: "clean @ tempSuffix @ rand = abs_path (q1 @ [?x])" by (simp add: clean abs_path_snoc)
  have free: "fs (q1 @ [?x]) = None" using assms(7) qq by simp
  have ne: "q1 @ [?x] \<noteq> q1 @ [x]" by (simp add: tempSuffix_def)
  have mode: "chmod_bits (m mod 512) = m mod 512"
  proof -
    have "m mod 512 div 2 ^ k = 0" if "k \<in> {20, 22, 23 :: nat}" for k using that by auto
    then show ?thesis by (simp add: chmod_bits_def)
  qed
  let ?fs1 = "put fs (q1 @ [?x]) (Reg bs (m mod 512))"
  have "rename ?fs1 (q1 @ [?x]) clean = Some ((remove ?fs1 (q1 @ [?x]))(q1 @ [x] \<mapsto> Reg bs (m mod 512)))"
    unfolding clean
    by (rule rename_within) (use cl(2) ok(1) ne assms(4) qq in \<open>auto simp: put_def all_folders_put\<close>)
  moreover have "(remove ?fs1 (q1 @ [?x]))(q1 @ [x] \<mapsto> Reg bs (m mod 512)) = fs(q \<mapsto> Reg bs (m mod 512))"
    using free ne qq by (auto simp: remove_def put_def fun_eq_iff)
  ultimately show ?thesis
    using assms(2,5) ls locate_folder [OF cl(2) ok(2), of True]
    by (simp add: EditCAS_def Let_def tmp Dir_abs_path [OF ok(2) okx] Base_abs_path [OF okx] mode)
qed

theorem EditCAS_replaces_witness:
  "EditCAS (\<lambda>b. b) ''7'' host_sample ''/srv'' ''a'' ''OLD'' ''new'' \<lparr>MaxTransfer = 0, MaxChunk = 0, MaxListEntries = 0, MaxEditSize = 0\<rparr> =
     (Inr ''new'', host_sample([''srv'', ''a''] \<mapsto> Reg ''new'' 420))"
proof -
  have "ResolvePath host_sample ''/srv'' ''a'' = Inr ''/srv/a''" "locate host_sample False ''/srv/a'' = Inr [''srv'', ''a'']"
    "lower ''OLD'' = lower ''old''" by code_simp+
  then show ?thesis
    using EditCAS_replaces [OF host_sample_root, of "''a''" "''/srv/a''" "[''srv'', ''a'']" "''old''" 420 "''new''"
      "\<lparr>MaxTransfer = 0, MaxChunk = 0, MaxListEntries = 0, MaxEditSize = 0\<rparr>" "''7''" "\<lambda>b. b" "''OLD''"]
    by (simp add: host_sample_def fill_def tempSuffix_def)
qed

section \<open>Uploads\<close>

lemma upload_loop_clear:
  "upload_loop fs full (abs_path pre) ps = (Inr res, fs1) \<Longrightarrow> all_folders fs pre \<Longrightarrow> fs [] = None \<Longrightarrow>
     list_all comp_ok (pre @ ps) \<Longrightarrow>
     res = full \<and> clear fs1 (pre @ ps) \<and> all_folders fs1 pre \<and> fs1 [] = None \<and> (\<forall>q. fs q \<noteq> None \<longrightarrow> fs1 q = fs q)"
proof (induction ps arbitrary: pre fs)
  case Nil
  then show ?case by (auto simp: all_folders_clear)
next
  case (Cons p ps)
  have ok: "list_all comp_ok (pre @ [p])" "list_all comp_ok pre" "comp_ok p" using Cons.prems(4) by simp_all
  have j: "Join2 (abs_path pre) p = abs_path (pre @ [p])" using Join2_name ok by blast
  note l = Lstat_step [OF Cons.prems(2) ok(1)]
  show ?case
  proof (cases "fs (pre @ [p])")
    case None
    show ?thesis
    proof (cases "ps = []")
      case True
      with None Cons.prems l j show ?thesis by (auto simp: Let_def clear_snoc)
    next
      case False
      let ?fs = "put fs (pre @ [p]) (Folder 493)"
      have u: "upload_loop ?fs full (abs_path (pre @ [p])) ps = (Inr res, fs1)"
        using Cons.prems(1) None False l j locate_folder [OF Cons.prems(2) ok(2), of True]
        by (simp add: Let_def Dir_abs_path [OF ok(2,3)] Base_abs_path [OF ok(3)])
      have a: "all_folders ?fs (pre @ [p])"
        using Cons.prems(2) by (auto simp: all_folders_snoc put_def all_folders_put folder_at_def node_at_def)
      have "?fs [] = None" "list_all comp_ok ((pre @ [p]) @ ps)" using Cons.prems(3,4) by (simp_all add: put_def)
      from Cons.IH [OF u a this] None show ?thesis
        by (auto simp: all_folders_snoc put_def split: if_splits)
    qed
  next
    case (Some n)
    with Cons.prems(1) l j have nl: "\<not> is_link n" "ps \<noteq> [] \<Longrightarrow> is_dir n"
      and rest: "upload_loop fs full (abs_path (pre @ [p])) ps = (Inr res, fs1)"
      by (auto simp: Let_def split: if_splits)
    show ?thesis
    proof (cases "ps = []")
      case True
      with nl Some Cons.prems rest show ?thesis by (auto simp: clear_snoc)
    next
      case False
      with nl Some have "folder_at fs (pre @ [p])" by (cases n) (auto simp: folder_at_def node_at_def)
      then have "all_folders fs (pre @ [p])" using Cons.prems(2) by (simp add: all_folders_snoc)
      from Cons.IH [OF rest this Cons.prems(3)] Cons.prems(4) show ?thesis by (simp add: all_folders_snoc)
    qed
  qed
qed

lemma resolve_loop_succeeds:
  "clear fs (pre @ ps) \<Longrightarrow> all_folders fs pre \<Longrightarrow> list_all comp_ok (pre @ ps) \<Longrightarrow>
     resolve_loop fs full (abs_path pre) ps = Inr full"
proof (induction ps arbitrary: pre)
  case (Cons p ps)
  have ok: "list_all comp_ok (pre @ [p])" "list_all comp_ok pre" "comp_ok p" using Cons.prems(3) by simp_all
  have j: "Join2 (abs_path pre) p = abs_path (pre @ [p])" using Join2_name ok by blast
  note l = Lstat_step [OF Cons.prems(2) ok(1)]
  show ?case
  proof (cases "ps = []")
    case True
    with Cons.prems(1) have "\<forall>t. fs (pre @ [p]) \<noteq> Some (Link t)" by (simp add: clear_snoc)
    with True l j show ?thesis by (cases "fs (pre @ [p])") (auto simp: Let_def split: node.split elim: is_link.elims)
  next
    case False
    have "folder_at fs (take (Suc (length pre)) (pre @ p # ps))"
      using Cons.prems(1) False unfolding clear_def by (simp del: take_append)
    then have "folder_at fs (pre @ [p])" by simp
    then obtain m where m: "fs (pre @ [p]) = Some (Folder m)" by (auto simp: folder_at_def node_at_def)
    have "all_folders fs (pre @ [p])" using Cons.prems(2) \<open>folder_at fs (pre @ [p])\<close> by (simp add: all_folders_snoc)
    from Cons.IH [OF _ this] Cons.prems m l j False show ?thesis by (simp add: Let_def)
  qed
qed simp

text \<open>Sending the pieces of an upload, each at the offset the previous answer gave.\<close>

fun upload_chunks :: "filesys \<Rightarrow> string \<Rightarrow> int \<Rightarrow> string list \<Rightarrow> fs_config \<Rightarrow> (fs_error + int) \<times> filesys" where
  "upload_chunks fs temp off [] c = (Inr off, fs)"
| "upload_chunks fs temp off (x # xs) c =
     (case UploadChunk fs temp off x c of
        (Inl e, fs1) \<Rightarrow> (Inl e, fs1)
      | (Inr n, fs1) \<Rightarrow> upload_chunks fs1 temp n xs c)"

lemma upload_chunks_append:
  assumes "checkTemp temp" "t \<noteq> []"
  shows "fs t = Some (Reg b m) \<Longrightarrow> (\<And>fs'. (\<forall>q. q \<noteq> t \<longrightarrow> fs' q = fs q) \<Longrightarrow> fs' t \<noteq> None \<Longrightarrow> (\<forall>m l. fs' t \<noteq> Some (Folder m) \<and> fs' t \<noteq> Some (Link l)) \<Longrightarrow>
       locate fs' False temp = Inr t) \<Longrightarrow>
     \<forall>x \<in> set xs. x \<noteq> [] \<Longrightarrow> int (length b + length (concat xs)) \<le> MaxTransfer (fill c) \<Longrightarrow>
     upload_chunks fs temp (int (length b)) xs c =
       (Inr (int (length b + length (concat xs))), fs(t \<mapsto> Reg (b @ concat xs) m))"
proof (induction xs arbitrary: fs b)
  case (Cons x xs)
  let ?fs = "fs(t \<mapsto> Reg (b @ x) m)"
  have "locate fs False temp = Inr t" by (rule Cons.prems(2)) (simp_all add: Cons.prems(1))
  with Cons.prems(1,3,4) assms have "UploadChunk fs temp (int (length b)) x c = (Inr (int (length (b @ x))), ?fs)"
    by (simp add: UploadChunk_def Let_def node_at_def put_def)
  moreover have "upload_chunks ?fs temp (int (length (b @ x))) xs c =
      (Inr (int (length (b @ x) + length (concat xs))), ?fs(t \<mapsto> Reg ((b @ x) @ concat xs) m))"
    by (rule Cons.IH) (use Cons.prems in \<open>auto\<close>)
  ultimately show ?case by (simp add: fun_eq_iff)
qed (auto simp: fun_eq_iff)

lemma upload_loop_full: "upload_loop fs full pre ps = (Inr res, fs1) \<Longrightarrow> res = full"
  by (induction fs full pre ps rule: upload_loop.induct) (auto simp: Let_def split: sum.splits if_splits)

lemma loops_skip_empty:
  assumes "all_folders fs pre" "list_all comp_ok pre" "ps \<noteq> []"
  shows "upload_loop fs full (abs_path pre) ([] # ps) = upload_loop fs full (abs_path pre) ps"
    and "resolve_loop fs full (abs_path pre) ([] # ps) = resolve_loop fs full (abs_path pre) ps"
  using Lstat_folder [OF assms(1,2)] Join2_Nil [OF assms(2)] by (auto simp: Let_def)

lemma upload_resolved:
  assumes "root_ok fs root" "resolvePathForUpload fs root path = (Inr clean, fs1)" "clean \<noteq> root"
  shows "\<exists>q x. clean = abs_path (q @ [x]) \<and> list_all comp_ok (q @ [x]) \<and> clear fs1 (q @ [x]) \<and>
     fs1 [] = None \<and> (\<forall>fs2. clear fs2 (q @ [x]) \<longrightarrow> all_folders fs2 q \<longrightarrow> ResolvePath fs2 root path = Inr clean)"
proof -
  have r: "list_all comp_ok (comps root)" "root = abs_path (comps root)" "all_folders fs (comps root)" "fs [] = None"
    using assms(1) by (auto simp: root_ok_def)
  from assms(2,3) obtain full parts where lex: "resolve_lexical root path = Inr (full, parts)"
    "upload_loop fs full root parts = (Inr clean, fs1)"
    by (auto simp: resolvePathForUpload_def resolve_lexical_def Let_def split: sum.splits prod.splits if_splits)
  from resolve_lexical_parts [OF lex(1) r(1,2)] have p: "list_all part_ok parts"
    "full = abs_path (comps root @ names_of parts)" "names_of parts \<noteq> [] \<longrightarrow> parts \<in> {names_of parts, [] # names_of parts}"
    by simp_all
  have cf: "clean = full" using upload_loop_full lex(2) by blast
  have ne: "names_of parts \<noteq> []" using p(2) cf assms(3) r(2) by auto
  with p(3) have parts: "parts = names_of parts \<or> parts = [] # names_of parts" by blast
  let ?ns = "names_of parts"
  have ok: "list_all comp_ok (comps root @ ?ns)" using r(1) names_of_ok [OF p(1)] by simp
  have "upload_loop fs full (abs_path (comps root)) ?ns = (Inr clean, fs1)"
    using parts lex(2) r loops_skip_empty(1) [OF r(3,1) ne, of full] by metis
  from upload_loop_clear [OF this r(3,4) ok] have u: "clear fs1 (comps root @ ?ns)" "fs1 [] = None" by simp_all
  obtain q x where qx: "comps root @ ?ns = q @ [x]" using ne by (metis append_is_Nil_conv rev_exhaust)
  have "ResolvePath fs2 root path = Inr clean" if "clear fs2 (q @ [x])" "all_folders fs2 q" for fs2
  proof -
    have "q = comps root @ butlast ?ns" using qx ne by (metis butlast_append butlast_snoc)
    with that(2) have a: "all_folders fs2 (comps root)" by (metis all_folders_append)
    have "clear fs2 (comps root @ ?ns)" using that(1) qx by simp
    from resolve_loop_succeeds [OF this a ok, of full] have "resolve_loop fs2 full root parts = Inr clean"
      using parts loops_skip_empty(2) [OF a r(1) ne, of full] r(2) cf by metis
    then show ?thesis using lex(1) by (simp add: ResolvePath_def)
  qed
  with u ok qx p(2) cf show ?thesis by (intro exI [of _ q] exI [of _ x]) simp
qed

lemma contains_append: "contains (a @ p @ b) p"
  by (induction a) (auto simp: contains.simps [of "_ @ _"] contains.simps [of "_ # _"])

text \<open>C31: An upload arrives whole: whatever pieces the content is cut into, begin, the pieces in order and
  commit leave the target with exactly the content and answer its checksum; the temporary file is
  gone and nothing else has changed since it was created.\<close>

theorem upload_roundtrip:
  assumes "root_ok fs root" "UploadBegin rand fs root path sz c = (Inr temp, fs1)"
    and "fst (resolvePathForUpload fs root path) = Inr clean" "clean \<noteq> root" "slash \<notin> set rand"
    and "\<forall>x \<in> set xs. x \<noteq> []" "sz = int (length (concat xs))"
    and "\<forall>m. Lstat fs1 clean \<noteq> Inr (Folder m)"
  shows "\<exists>fs2 t q. upload_chunks fs1 temp 0 xs c = (Inr sz, fs2) \<and> locate fs1 False temp = Inr t \<and>
     fs1 t = Some (Reg [] 384) \<and> comps clean = q \<and>
     UploadCommit sha fs2 root temp path [] sz =
       (Inr (sha (concat xs)), fs1(t := None, q \<mapsto> Reg (concat xs) 384))"
proof -
  from assms(3) obtain fs0 where res: "resolvePathForUpload fs root path = (Inr clean, fs0)"
    by (cases "resolvePathForUpload fs root path") simp
  from upload_resolved [OF assms(1) res assms(4)] obtain q x where q: "clean = abs_path (q @ [x])"
    "list_all comp_ok (q @ [x])" "clear fs0 (q @ [x])" "fs0 [] = None"
    "\<And>fs2. clear fs2 (q @ [x]) \<Longrightarrow> all_folders fs2 q \<Longrightarrow> ResolvePath fs2 root path = Inr clean" by blast
  have ok: "list_all comp_ok q" "comp_ok x" "all_folders fs0 q" using q by (simp_all add: clear_snoc)
  let ?x = "x @ tempSuffix @ rand"
  let ?t = "q @ [?x]"
  have okx: "comp_ok ?x" using temp_name_ok ok(2) assms(5) by blast
  have okt: "list_all comp_ok ?t" using ok(1) okx by simp
  have names: "Dir clean = abs_path q" "Base clean = x" "Join2 (abs_path q) ?x = abs_path ?t"
    "Dir (abs_path ?t) = abs_path q" "Base (abs_path ?t) = ?x"
    using q(1) ok okx by (simp_all add: Dir_abs_path Base_abs_path Join2_name)
  have beg: "sz \<le> MaxTransfer (fill c)" "fs0 ?t = None" "temp = abs_path ?t" "fs1 = fs0(?t \<mapsto> Reg [] 384)"
    using assms(2) res locate_folder [OF ok(3,1), of True]
    by (auto simp: UploadBegin_def Let_def names node_at_def put_def split: if_splits)
  have ct: "checkTemp temp" using contains_append [of x tempSuffix rand] by (simp add: checkTemp_def beg(3) names)
  have ne: "?t \<noteq> q @ [x]" by (simp add: tempSuffix_def)
  have folders: "all_folders fs' q" if "\<forall>p. p \<noteq> ?t \<longrightarrow> fs' p = fs1 p" for fs'
    using ok(3) that beg(4) by (auto simp: all_folders_def folder_at_def node_at_def)
      (metis append_eq_conv_conj length_append_singleton lessI less_le_not_le length_take min.absorb2)
  have loc: "locate fs' False temp = Inr ?t"
    if "\<forall>p. p \<noteq> ?t \<longrightarrow> fs' p = fs1 p" "fs' ?t \<noteq> None" "\<forall>m l. fs' ?t \<noteq> Some (Folder m) \<and> fs' ?t \<noteq> Some (Link l)" for fs'
  proof -
    have "clear fs' ?t" using folders [OF that(1)] that(3) by (simp add: clear_snoc)
    from locate_clear [OF this okt, of False] that(2) beg(3) show ?thesis by simp
  qed
  have t1: "fs1 ?t = Some (Reg [] 384)" by (simp add: beg(4))
  let ?fs2 = "fs1(?t \<mapsto> Reg (concat xs) 384)"
  have chunks: "upload_chunks fs1 temp 0 xs c = (Inr sz, ?fs2)"
  proof -
    have "upload_chunks fs1 temp (int (length ([] :: string))) xs c =
        (Inr (int (length ([] :: string) + length (concat xs))), fs1(?t \<mapsto> Reg ([] @ concat xs) 384))"
      by (rule upload_chunks_append [of temp ?t fs1 "[]" 384, OF ct]) (use t1 loc assms(6,7) beg(1) in auto)
    then show ?thesis using assms(7) by simp
  qed
  have f2: "all_folders ?fs2 q" by (rule folders) simp
  have target: "\<forall>m. fs1 (q @ [x]) \<noteq> Some (Folder m)" "\<forall>l. fs1 (q @ [x]) \<noteq> Some (Link l)"
  proof -
    have "\<And>fs'. \<forall>p. p \<noteq> ?t \<longrightarrow> fs' p = fs1 p \<Longrightarrow> all_folders fs' q" by (rule folders)
    then have "all_folders fs1 q" by blast
    from Lstat_step [OF this q(2)] assms(8) q(1) show "\<forall>m. fs1 (q @ [x]) \<noteq> Some (Folder m)" by (auto split: option.splits)
    show "\<forall>l. fs1 (q @ [x]) \<noteq> Some (Link l)" using q(3) ne beg(4) by (simp add: clear_snoc)
  qed
  have "clear ?fs2 (q @ [x])" using f2 target(2) ne by (simp add: clear_snoc)
  from q(5) [OF this f2] have rp: "ResolvePath ?fs2 root path = Inr clean" .
  have "rename ?fs2 ?t clean = Some ((remove ?fs2 ?t)(q @ [x] \<mapsto> Reg (concat xs) 384))"
    unfolding q(1) by (rule rename_within) (use f2 q(2) target(1) ne in auto)
  moreover have "(remove ?fs2 ?t)(q @ [x] \<mapsto> Reg (concat xs) 384) = fs1(?t := None, q @ [x] \<mapsto> Reg (concat xs) 384)"
    by (auto simp: remove_def fun_eq_iff)
  moreover have "locate ?fs2 False temp = Inr ?t" by (rule loc) simp_all
  ultimately have "UploadCommit sha ?fs2 root temp path [] sz =
       (Inr (sha (concat xs)), fs1(?t := None, q @ [x] \<mapsto> Reg (concat xs) 384))"
    using ct rp assms(7) by (simp add: UploadCommit_def beg(3) names commit_mode_def node_at_def)
  moreover have "locate fs1 False temp = Inr ?t" by (rule loc) (simp_all add: t1)
  moreover have "comps clean = q @ [x]" using q(1,2) by (simp add: comps_abs_path)
  ultimately show ?thesis using chunks t1 by blast
qed

definition no_limits :: fs_config where
  "no_limits = \<lparr>MaxTransfer = 0, MaxChunk = 0, MaxListEntries = 0, MaxEditSize = 0\<rparr>"

theorem upload_roundtrip_witness:
  "\<exists>fs2 t q. upload_chunks (host_sample([''srv'', ''n''] \<mapsto> Folder 493, [''srv'', ''n'', ''b.partout-tmp-7''] \<mapsto> Reg [] 384))
       ''/srv/n/b.partout-tmp-7'' 0 [''ab'', ''c''] no_limits = (Inr 3, fs2) \<and>
     locate (host_sample([''srv'', ''n''] \<mapsto> Folder 493, [''srv'', ''n'', ''b.partout-tmp-7''] \<mapsto> Reg [] 384)) False
       ''/srv/n/b.partout-tmp-7'' = Inr t \<and>
     (host_sample([''srv'', ''n''] \<mapsto> Folder 493, [''srv'', ''n'', ''b.partout-tmp-7''] \<mapsto> Reg [] 384)) t = Some (Reg [] 384) \<and>
     comps ''/srv/n/b'' = q \<and>
     UploadCommit (\<lambda>b. b) fs2 ''/srv'' ''/srv/n/b.partout-tmp-7'' ''n/b'' [] 3 =
       (Inr (concat [''ab'', ''c'']), (host_sample([''srv'', ''n''] \<mapsto> Folder 493, [''srv'', ''n'', ''b.partout-tmp-7''] \<mapsto> Reg [] 384))
          (t := None, q \<mapsto> Reg (concat [''ab'', ''c'']) 384))"
proof (rule upload_roundtrip [OF host_sample_root, of "''7''" "''n/b''"])
  have dir: "resolvePathForUpload host_sample ''/srv'' ''n/b'' =
      (Inr ''/srv/n/b'', host_sample([''srv'', ''n''] \<mapsto> Folder 493))"
  proof -
    have "resolve_lexical ''/srv'' ''n/b'' = Inr (''/srv/n/b'', [''n'', ''b''])" "Join2 ''/srv'' ''n'' = ''/srv/n''"
      "Join2 ''/srv/n'' ''b'' = ''/srv/n/b''" "Lstat host_sample ''/srv/n'' = Inl ENOENT"
      "locate host_sample True (Dir ''/srv/n'') = Inr [''srv'']" "Base ''/srv/n'' = ''n''"
      "Lstat (host_sample([''srv'', ''n''] \<mapsto> Folder 493)) ''/srv/n/b'' = Inl ENOENT" by code_simp+
    then show ?thesis by (simp add: resolvePathForUpload_def put_def)
  qed
  then show "fst (resolvePathForUpload host_sample ''/srv'' ''n/b'') = Inr ''/srv/n/b''" by simp
  have "Join2 (Dir ''/srv/n/b'') (Base ''/srv/n/b'' @ tempSuffix @ ''7'') = ''/srv/n/b.partout-tmp-7''"
    "locate (host_sample([''srv'', ''n''] \<mapsto> Folder 493)) True (Dir ''/srv/n/b.partout-tmp-7'') = Inr [''srv'', ''n'']"
    "Base ''/srv/n/b.partout-tmp-7'' = ''b.partout-tmp-7''" by code_simp+
  with dir show "UploadBegin ''7'' host_sample ''/srv'' ''n/b'' 3 no_limits =
      (Inr ''/srv/n/b.partout-tmp-7'', host_sample([''srv'', ''n''] \<mapsto> Folder 493, [''srv'', ''n'', ''b.partout-tmp-7''] \<mapsto> Reg [] 384))"
    by (simp add: UploadBegin_def no_limits_def fill_def put_def node_at_def host_sample_def)
  have "Lstat (host_sample([''srv'', ''n''] \<mapsto> Folder 493, [''srv'', ''n'', ''b.partout-tmp-7''] \<mapsto> Reg [] 384)) ''/srv/n/b'' = Inl ENOENT"
    by code_simp
  then show "\<forall>m. Lstat (host_sample([''srv'', ''n''] \<mapsto> Folder 493, [''srv'', ''n'', ''b.partout-tmp-7''] \<mapsto> Reg [] 384)) ''/srv/n/b'' \<noteq> Inr (Folder m)"
    by simp
qed simp_all

section \<open>Temporary files outside the root\<close>

text \<open>The operations on a temporary file take no root: any file of the host whose name contains the
  suffix of temporary files can be appended to by \<open>UploadChunk\<close> and removed by \<open>UploadAbort\<close>,
  wherever it is, although no caller is meant to reach a path outside the root.\<close>

theorem temp_ops_leave_root:
  assumes "checkTemp temp" "locate fs False temp = Inr t" "fs t = Some (Reg b m)" "t \<noteq> []"
    and "bs \<noteq> []" "int (length b + length bs) \<le> MaxTransfer (fill c)"
  shows "UploadChunk fs temp (int (length b)) bs c = (Inr (int (length b + length bs)), fs(t \<mapsto> Reg (b @ bs) m)) \<and>
    UploadAbort fs temp = (Inr (), fs(t := None))"
  using assms by (simp add: UploadChunk_def UploadAbort_def os_Remove_def node_at_def put_def remove_def)

theorem temp_ops_leave_root_witness:
  "root_ok host_sample ''/srv'' \<and>
   UploadChunk host_sample ''/etc/x.partout-tmp-1'' 0 ''evil'' no_limits =
     (Inr 4, host_sample([''etc'', ''x.partout-tmp-1''] \<mapsto> Reg ''evil'' 420)) \<and>
   UploadAbort host_sample ''/etc/x.partout-tmp-1'' = (Inr (), host_sample([''etc'', ''x.partout-tmp-1''] := None))"
proof -
  have "checkTemp ''/etc/x.partout-tmp-1''" "locate host_sample False ''/etc/x.partout-tmp-1'' = Inr [''etc'', ''x.partout-tmp-1'']"
    by code_simp+
  from temp_ops_leave_root [OF this, of "[]" 420 "''evil''" no_limits] host_sample_root show ?thesis
    by (simp add: host_sample_def no_limits_def fill_def)
qed

text \<open>An upload to the root itself is accepted and creates its temporary file beside the root, in the
  parent directory.\<close>

theorem upload_begins_beside_root:
  assumes "root_ok fs root" "comps root \<noteq> []" "slash \<notin> set rand" "0 \<le> sz" "sz \<le> MaxTransfer (fill c)"
    and "t = butlast (comps root) @ [last (comps root) @ tempSuffix @ rand]" "fs t = None"
  shows "UploadBegin rand fs root [] sz c = (Inr (abs_path t), fs(t \<mapsto> Reg [] 384)) \<and>
    take (length (comps root)) t \<noteq> comps root"
proof -
  have r: "list_all comp_ok (comps root)" "root = abs_path (comps root)" "all_folders fs (comps root)"
    using assms(1) by (auto simp: root_ok_def)
  obtain q x where qx: "comps root = q @ [x]" using assms(2) by (metis rev_exhaust)
  have ok: "list_all comp_ok q" "comp_ok x" "all_folders fs q" using r(1,3) qx by (simp_all add: all_folders_snoc)
  have okx: "comp_ok (x @ tempSuffix @ rand)" using temp_name_ok ok(2) assms(3) by blast
  have "Clean [] = dot" by code_simp
  then have res: "resolvePathForUpload fs root [] = (Inr root, fs)"
    using r(2) by (auto simp: resolvePathForUpload_def resolve_lexical_def trim_prefix_def has_prefix_def abs_path_def Let_def)
  have rt: "root = abs_path (q @ [x])" using r(2) qx by simp
  have "t = q @ [x @ tempSuffix @ rand]" using assms(6) qx by simp
  with res rt assms(4,5,7) have "UploadBegin rand fs root [] sz c = (Inr (abs_path t), fs(t \<mapsto> Reg [] 384))"
    using locate_folder [OF ok(3,1), of True] ok(1,2) okx
    by (simp add: UploadBegin_def Let_def Dir_abs_path Base_abs_path Join2_name node_at_def put_def)
  moreover have "take (length (comps root)) t \<noteq> comps root" by (simp add: assms(6) qx tempSuffix_def)
  ultimately show ?thesis by blast
qed

theorem upload_begins_beside_root_witness:
  "UploadBegin ''7'' host_sample ''/srv'' [] 3 no_limits =
     (Inr (abs_path [''srv.partout-tmp-7'']), host_sample([''srv.partout-tmp-7''] \<mapsto> Reg [] 384)) \<and>
   take (length (comps ''/srv'')) [''srv.partout-tmp-7''] \<noteq> comps ''/srv''"
proof (rule upload_begins_beside_root [OF host_sample_root])
  have c: "comps ''/srv'' = [''srv'']" by code_simp
  then show "comps ''/srv'' \<noteq> []" "[''srv.partout-tmp-7''] = butlast (comps ''/srv'') @ [last (comps ''/srv'') @ tempSuffix @ ''7'']"
    by (simp_all add: tempSuffix_def)
qed (simp_all add: no_limits_def fill_def host_sample_def)

section \<open>Downloads\<close>

text \<open>Asking for chunk after chunk until one is the last.\<close>

primrec download_all ::
  "nat \<Rightarrow> filesys \<Rightarrow> string \<Rightarrow> string \<Rightarrow> int \<Rightarrow> fs_config \<Rightarrow> (fs_error + string) option" where
  "download_all 0 fs root path off c = None"
| "download_all (Suc fuel) fs root path off c =
     (case DownloadAt fs root path off c of
        Inl e \<Rightarrow> Some (Inl e)
      | Inr (bs, sz, fin) \<Rightarrow>
          if fin then Some (Inr bs)
          else (case download_all fuel fs root path (off + int (length bs)) c of
                  None \<Rightarrow> None
                | Some r \<Rightarrow> Some (bind_res r (\<lambda>rest. Inr (bs @ rest)))))"

lemma MaxChunk_pos: "0 < MaxChunk (fill c)"
  by (simp add: fill_def)

text \<open>Downloading chunk by chunk ends and gives the file: within as many requests as the file has
  bytes, plus one, a last chunk comes, and the chunks together are the content.\<close>

theorem downloads_cover:
  assumes "ResolvePath fs root path = Inr clean" "Lstat fs clean = Inr (Reg b m)"
  shows "off \<le> length b \<Longrightarrow> length b - off < fuel \<Longrightarrow>
    download_all fuel fs root path (int off) c = Some (Inr (drop off b))"
proof (induction fuel arbitrary: off)
  case (Suc fuel)
  let ?k = "nat (MaxChunk (fill c))"
  have k: "0 < ?k" using MaxChunk_pos by simp
  show ?case
  proof (cases "off = length b \<or> length b \<le> off + ?k")
    case True
    with assms Suc.prems k show ?thesis by (auto simp: DownloadAt_def Let_def)
  next
    case False
    then have d: "DownloadAt fs root path (int off) c = Inr (take ?k (drop off b), int (length b), False)"
      using assms Suc.prems k by (auto simp: DownloadAt_def Let_def)
    have len: "length (take ?k (drop off b)) = ?k"
      using False by (auto simp: min_def not_le)
    have "download_all fuel fs root path (int (off + ?k)) c = Some (Inr (drop (off + ?k) b))"
      by (rule Suc.IH) (use False k Suc.prems in auto)
    moreover have "take ?k (drop off b) @ drop (off + ?k) b = drop off b"
      by (metis append_take_drop_id drop_drop add.commute)
    ultimately show ?thesis using d len by (simp del: length_take)
  qed
qed simp

theorem downloads_cover_witness:
  "download_all 4 host_sample ''/srv'' ''a'' (int 0) (no_limits\<lparr>MaxChunk := 2\<rparr>) = Some (Inr (drop 0 ''old''))"
proof (rule downloads_cover)
  show "ResolvePath host_sample ''/srv'' ''a'' = Inr ''/srv/a''" "Lstat host_sample ''/srv/a'' = Inr (Reg ''old'' 420)"
    by code_simp+
qed simp_all

section \<open>Modes\<close>

text \<open>A mode with a set-uid digit is accepted and loses it; \<open>0\<close> is rejected.\<close>

lemma mode_4755_drops_setuid: "parseMode ''4755'' = Some 2541 \<and> chmod_bits 2541 = 493 \<and> parseMode ''0'' = None"
proof -
  have "parseMode ''0'' = None" by code_simp
  moreover have "parseMode ''4755'' = Some 2541"
    by (simp add: parseMode_def parse_octal_def trim_prefix_def has_prefix_def octal_digit_def less_eq_char_def)
  moreover have "chmod_bits 2541 = 493" by (simp add: chmod_bits_def)
  ultimately show ?thesis by simp
qed

end
