(* ===== verification/Elevation.thy ===== *)
theory Elevation
  imports GoPath
begin

text \<open>
  The elevation policy of the agent, \<open>src/internal/agent/elevate/\<close>: rules and their matching
  (\<open>policy.go\<close>), the runner every action goes through (\<open>elevate.go\<close>), the explanation given
  to users (\<open>explain.go\<close>) and the sudoers drop-in derived from the policy (\<open>sudoers.go\<close>).

  The JSON decoder, the policy hash, \<open>exec.LookPath\<close> and the reads of files are arguments.
\<close>

section \<open>Rules\<close>

record elev_rule =
  el_Allow :: string
  el_Args :: "string list"
  el_Verbs :: "string list"
  el_Units :: "string list"
  el_Files :: "string list"
  el_Env :: "string list"
  el_Full :: bool
  el_ArgsPrefix :: "string list"

datatype elev_decision = Denied | Elevated

definition allowAlts :: "elev_rule \<Rightarrow> string list" where
  "allowAlts r = filter (\<lambda>a. a \<noteq> []) (map trim_space (split_char (CHR ''|'') (el_Allow r)))"

text \<open>A glob that errs does not match.\<close>

definition glob :: "string \<Rightarrow> string \<Rightarrow> bool" where
  "glob g s \<longleftrightarrow> Match_glob g s = Some True"

fun globs :: "string list \<Rightarrow> string list \<Rightarrow> bool" where
  "globs [] args = True"
| "globs (w # ws) [] = False"
| "globs (w # ws) (a # args) = (glob w a \<and> globs ws args)"

text \<open>The matcher of a rule for one allowed name.\<close>

definition matches_args :: "elev_rule \<Rightarrow> string list \<Rightarrow> bool" where
  "matches_args r args =
     (if el_ArgsPrefix r \<noteq> [] then
        (if length args < length (el_ArgsPrefix r) then False else globs (el_ArgsPrefix r) args)
      else if el_Args r \<noteq> [] then
        (if length args \<noteq> length (el_Args r) then False else globs (el_Args r) args)
      else if el_Verbs r \<noteq> [] then
        (if length args \<noteq> 2 then False
         else if args ! 0 \<notin> set (el_Verbs r) then False
         else list_ex (\<lambda>g. glob g (args ! 1)) (el_Units r))
      else if el_Files r \<noteq> [] then
        (if length args \<noteq> 1 then False else list_ex (\<lambda>g. glob g (args ! 0)) (el_Files r))
      else args = [])"

definition rule_matches :: "elev_rule \<Rightarrow> string \<Rightarrow> string list \<Rightarrow> bool" where
  "rule_matches r name args =
     (if el_Full r then True else if name \<in> set (allowAlts r) then matches_args r args else False)"

datatype rule_error =
    FullNotStandalone nat
  | EmptyAllow nat
  | SeveralMatchers nat string
  | VerbsWithoutUnits nat string
  | BadGlob nat string string

definition bad_glob :: "string list \<Rightarrow> string option" where
  "bad_glob gs = find (\<lambda>g. Match_glob g ''x'' = None) gs"

definition of_bool_nat :: "bool \<Rightarrow> nat" where "of_bool_nat b = (if b then 1 else 0)"

definition validate :: "nat \<Rightarrow> elev_rule \<Rightarrow> rule_error option" where
  "validate i r =
     (if el_Full r then
        (if allowAlts r \<noteq> [] \<or> el_ArgsPrefix r \<noteq> [] \<or> el_Args r \<noteq> [] \<or> el_Verbs r \<noteq> [] \<or> el_Units r \<noteq> [] \<or>
            el_Files r \<noteq> [] \<or> el_Env r \<noteq> []
         then Some (FullNotStandalone i) else None)
      else if allowAlts r = [] then Some (EmptyAllow i)
      else if of_bool_nat (el_ArgsPrefix r \<noteq> []) + of_bool_nat (el_Args r \<noteq> []) + of_bool_nat (el_Verbs r \<noteq> []) +
          of_bool_nat (el_Files r \<noteq> []) > 1 then Some (SeveralMatchers i (el_Allow r))
      else if el_Verbs r \<noteq> [] \<and> el_Units r = [] then Some (VerbsWithoutUnits i (el_Allow r))
      else (case bad_glob (el_ArgsPrefix r @ el_Args r) of
              Some g \<Rightarrow> Some (BadGlob i (el_Allow r) g)
            | None \<Rightarrow> (case bad_glob (el_Units r @ el_Files r) of
                         Some g \<Rightarrow> Some (BadGlob i (el_Allow r) g)
                       | None \<Rightarrow> None)))"

section \<open>Policies\<close>

record elev_policy =
  ep_Rules :: "elev_rule list"
  ep_sources :: "string list"

text \<open>\<open>Check\<close> on a nil policy denies.\<close>

definition Check :: "elev_policy option \<Rightarrow> string \<Rightarrow> string list \<Rightarrow> elev_decision" where
  "Check p name args =
     (case p of
        None \<Rightarrow> Denied
      | Some pol \<Rightarrow> if list_ex (\<lambda>r. rule_matches r name args) (ep_Rules pol) then Elevated else Denied)"

definition RuleFor :: "elev_policy option \<Rightarrow> string \<Rightarrow> string list \<Rightarrow> elev_rule option" where
  "RuleFor p name args =
     (case p of None \<Rightarrow> None | Some pol \<Rightarrow> find (\<lambda>r. rule_matches r name args) (ep_Rules pol))"

fun rule_at :: "nat \<Rightarrow> elev_rule list \<Rightarrow> string \<Rightarrow> string list \<Rightarrow> (nat \<times> elev_rule) option" where
  "rule_at i [] name args = None"
| "rule_at i (r # rs) name args = (if rule_matches r name args then Some (i, r) else rule_at (Suc i) rs name args)"

datatype tier = Strict | Broad | FullTier

definition wide :: "elev_rule \<Rightarrow> bool" where
  "wide r \<longleftrightarrow>
     (if el_ArgsPrefix r \<noteq> [] then True
      else if list_ex (\<lambda>a. CHR ''*'' \<in> set a \<or> CHR ''?'' \<in> set a) (el_Args r) then True
      else el_Units r \<noteq> [] \<or> el_Files r \<noteq> [])"

definition Tier :: "elev_policy option \<Rightarrow> tier option" where
  "Tier p =
     (case p of
        None \<Rightarrow> None
      | Some pol \<Rightarrow>
          Some (if list_ex el_Full (ep_Rules pol) then FullTier
                else if list_ex wide (ep_Rules pol) then Broad else Strict))"

datatype load_error =
    BadJSON
  | BadRule rule_error
  | FullNotAlone
  | ReadDir
  | StatError
  | NoPolicyAt string
  | ReadPolicy string
  | InFile string load_error

fun validate_all :: "nat \<Rightarrow> elev_rule list \<Rightarrow> rule_error option" where
  "validate_all i [] = None"
| "validate_all i (r # rs) = (case validate i r of Some e \<Rightarrow> Some e | None \<Rightarrow> validate_all (Suc i) rs)"

text \<open>\<open>unmarshal\<close> decodes the \<open>rules\<close> of a JSON document.\<close>

definition LoadPolicyJSON :: "(string \<Rightarrow> elev_rule list option) \<Rightarrow> string \<Rightarrow> load_error + elev_policy" where
  "LoadPolicyJSON unmarshal b =
     (case unmarshal b of
        None \<Rightarrow> Inl BadJSON
      | Some rs \<Rightarrow>
          (case validate_all 0 rs of
             Some e \<Rightarrow> Inl (BadRule e)
           | None \<Rightarrow>
               if length (filter el_Full rs) > 0 \<and> length rs > 1 then Inl FullNotAlone
               else Inr \<lparr>ep_Rules = rs, ep_sources = []\<rparr>))"

text \<open>What \<open>os.Stat\<close> and \<open>os.ReadDir\<close> find at a path.\<close>

datatype stat_result =
    NotThere
  | StatFails
  | PlainFile
  | Directory "(string \<times> bool) list option" \<comment> \<open>names, and whether a directory; \<open>None\<close>: unreadable\<close>

fun load_files ::
  "(string \<Rightarrow> elev_rule list option) \<Rightarrow> (string \<Rightarrow> string option) \<Rightarrow> string list \<Rightarrow> elev_policy \<Rightarrow> load_error + elev_policy" where
  "load_files unmarshal read [] pol = Inr pol"
| "load_files unmarshal read (f # fs) pol =
     (case read f of
        None \<Rightarrow> Inl (ReadPolicy f)
      | Some b \<Rightarrow>
          (case LoadPolicyJSON unmarshal b of
             Inl e \<Rightarrow> Inl (InFile f e)
           | Inr part \<Rightarrow>
               load_files unmarshal read fs
                 (pol\<lparr>ep_Rules := ep_Rules pol @ ep_Rules part, ep_sources := ep_sources pol @ [f]\<rparr>)))"

definition Load_elevation ::
  "(string \<Rightarrow> elev_rule list option) \<Rightarrow> (string \<Rightarrow> stat_result) \<Rightarrow> (string \<Rightarrow> string option) \<Rightarrow> string
   \<Rightarrow> load_error + elev_policy option" where
  "Load_elevation unmarshal stat read p0 =
     (let p = trim_space p0; with_files = (\<lambda>fs. bind_res (load_files unmarshal read fs \<lparr>ep_Rules = [], ep_sources = []\<rparr>) (\<lambda>pol. Inr (Some pol)))
      in if p = [] then Inr None
         else (case stat p of
                 StatFails \<Rightarrow> Inl StatError
               | NotThere \<Rightarrow> Inl (NoPolicyAt p)
               | PlainFile \<Rightarrow> with_files [p]
               | Directory None \<Rightarrow> Inl ReadDir
               | Directory (Some entries) \<Rightarrow>
                   (let fs = sort (map (\<lambda>(n, d). Join2 p n) (filter (\<lambda>(n, d). \<not> d \<and> has_suffix n ''.json'') entries))
                    in if fs = [] then Inr None else with_files fs)))"

section \<open>The runner\<close>

datatype elev_mode = ModeNone | ModeSudo

text \<open>\<open>Parse\<close> of a mode name; \<open>None\<close> is the error.\<close>

definition Parse_mode :: "string \<Rightarrow> elev_mode option" where
  "Parse_mode v =
     (let l = lower (trim_space v)
      in if l = [] \<or> l = ''none'' then Some ModeNone
         else if l = ''sudo'' \<or> l = ''sudoers'' then Some ModeSudo
         else None)"

definition Mode_Run :: "elev_mode \<Rightarrow> string \<Rightarrow> string list \<Rightarrow> string \<times> string list" where
  "Mode_Run m name args =
     (if m \<noteq> ModeSudo then (name, args) else (''sudo'', [''-n'', ''--'', name] @ args))"

record policy_runner =
  pr_Mode :: elev_mode
  pr_policy :: "elev_policy option"

text \<open>\<open>Wrap\<close>; the flag says whether \<open>OutOfScope\<close> is called.\<close>

definition Wrap_reports :: "policy_runner \<Rightarrow> string \<Rightarrow> string list \<Rightarrow> (string \<times> string list) \<times> bool" where
  "Wrap_reports r name args =
     (if pr_policy r \<noteq> None \<and> pr_Mode r = ModeSudo \<and> Check (pr_policy r) name args = Denied
      then ((name, args), True)
      else (Mode_Run (pr_Mode r) name args, False))"

definition Wrap :: "policy_runner \<Rightarrow> string \<Rightarrow> string list \<Rightarrow> string \<times> string list" where
  "Wrap r name args = fst (Wrap_reports r name args)"

definition Elevates :: "policy_runner \<Rightarrow> string \<Rightarrow> string list \<Rightarrow> bool" where
  "Elevates r name args =
     (if pr_Mode r \<noteq> ModeSudo then False
      else if pr_policy r = None then True
      else Check (pr_policy r) name args = Elevated)"

text \<open>The reasons that \<open>Explain\<close> words.\<close>

datatype elev_note =
    ElevationOff elev_mode
  | LegacyPushedThroughSudo
  | RuleMatched "elev_rule option"
  | NoRuleMatches
  | NoPolicyLoaded

definition Runner_Explain :: "policy_runner \<Rightarrow> string \<Rightarrow> string list \<Rightarrow> bool \<times> elev_note" where
  "Runner_Explain r name args =
     (if pr_Mode r \<noteq> ModeSudo then (False, ElevationOff (pr_Mode r))
      else if pr_policy r = None then (True, LegacyPushedThroughSudo)
      else if Check (pr_policy r) name args = Elevated then (True, RuleMatched (RuleFor (pr_policy r) name args))
      else (False, NoRuleMatches))"

record explain_result =
  ex_Elevated :: bool
  ex_Note :: elev_note
  ex_RuleIndex :: int
  ex_Rule :: "elev_rule option"
  ex_Tier :: "tier option"

definition Explain :: "elev_policy option \<Rightarrow> string \<Rightarrow> string list \<Rightarrow> explain_result" where
  "Explain p name args =
     (case p of
        None \<Rightarrow> \<lparr>ex_Elevated = False, ex_Note = NoPolicyLoaded, ex_RuleIndex = -1, ex_Rule = None, ex_Tier = None\<rparr>
      | Some pol \<Rightarrow>
          (let none = \<lparr>ex_Elevated = False, ex_Note = NoRuleMatches, ex_RuleIndex = -1, ex_Rule = None, ex_Tier = Tier p\<rparr>
           in if Check p name args = Elevated then
                (case rule_at 0 (ep_Rules pol) name args of
                   None \<Rightarrow> none
                 | Some (i, r) \<Rightarrow> \<lparr>ex_Elevated = True, ex_Note = RuleMatched (Some r), ex_RuleIndex = int i,
                                   ex_Rule = Some r, ex_Tier = Tier p\<rparr>)
              else none))"

text \<open>
  \<open>ReadFile\<close>: the direct read gives the content, or whether it failed for want of permission;
  \<open>sudo_cat\<close> is the elevated read.
\<close>

definition ReadFile_elevated ::
  "elev_mode \<Rightarrow> elev_policy option \<Rightarrow> (bool + string) \<Rightarrow> string option \<Rightarrow> string \<Rightarrow> string option \<times> bool" where
  "ReadFile_elevated m p direct sudo_cat path =
     (case direct of
        Inr b \<Rightarrow> (Some b, False)
      | Inl eacces \<Rightarrow>
          if m \<noteq> ModeSudo \<or> \<not> eacces then (None, False)
          else if p \<noteq> None \<and> Check p ''cat'' [path] \<noteq> Elevated then (None, False)
          else (sudo_cat, True))"

text \<open>
  \<open>describeRule\<close> and the texts of the notes that show a rule.
\<close>

definition describeRule :: "elev_rule option \<Rightarrow> string" where
  "describeRule rule =
     (case rule of
        None \<Rightarrow> ''<unknown rule>''
      | Some r \<Rightarrow>
          join_str '' ''
            (el_Allow r #
             (if el_Verbs r \<noteq> [] \<or> el_Units r \<noteq> [] then
                (if el_Verbs r \<noteq> [] then [''verbs='' @ join_str '','' (el_Verbs r)] else []) @
                (if el_Units r \<noteq> [] then [''units='' @ join_str '','' (el_Units r)] else [])
              else if el_Args r \<noteq> [] then [''args='' @ join_str '' '' (el_Args r)]
              else if el_Files r \<noteq> [] then [''files='' @ join_str '','' (el_Files r)]
              else [''(bare command, no arguments)''])))"

text \<open>
  The choice \<open>runElevated\<close> of \<open>agent.go\<close> makes for a dispatched command: the command run, and
  the flag and note reported with the result.  \<open>pol\<close> is the agent's own pointer to the policy.
\<close>

definition runElevated ::
  "elev_mode \<Rightarrow> elev_policy option \<Rightarrow> policy_runner \<Rightarrow> string \<Rightarrow> string list
   \<Rightarrow> (string \<times> string list) \<times> bool \<times> elev_note" where
  "runElevated m pol r name args =
     (case Runner_Explain r name args of (elev, note) \<Rightarrow>
        if m = ModeSudo \<and> Check pol name args = Denied then ((name, args), False, note)
        else (Mode_Run m name args, elev, note))"

section \<open>The sudoers drop-in\<close>

definition sudoersArg :: "string \<Rightarrow> string" where
  "sudoersArg a =
     (if a = [] then [CHR 0x22, CHR 0x22]
      else concat (map (\<lambda>c. if c \<in> {CHR 0x5C, CHR '','', CHR ''='', CHR '':''} then [CHR 0x5C, c] else [c]) a))"

definition sudoersLine :: "string \<Rightarrow> string list \<Rightarrow> string" where
  "sudoersLine abi args = join_str '' '' (abi # map sudoersArg args)"

record grant =
  gr_abi :: string
  gr_args :: "string list"
  gr_env :: "string list"

definition rule_patterns :: "elev_rule \<Rightarrow> string list list" where
  "rule_patterns r =
     (if el_ArgsPrefix r \<noteq> [] then [el_ArgsPrefix r @ [''*'']]
      else if el_Args r \<noteq> [] then [el_Args r]
      else if el_Verbs r \<noteq> [] then concat (map (\<lambda>v. map (\<lambda>u. [v, u]) (el_Units r)) (el_Verbs r))
      else if el_Files r \<noteq> [] then map (\<lambda>f. [f]) (el_Files r)
      else [[[]]])"

text \<open>The grants of a policy, and the names that were not found (with the index of the rule).\<close>

fun rule_grants :: "(string \<Rightarrow> string option) \<Rightarrow> nat \<Rightarrow> elev_rule list \<Rightarrow> grant list \<times> (string \<times> nat) list" where
  "rule_grants lookPath i [] = ([], [])"
| "rule_grants lookPath i (r # rs) =
     (case rule_grants lookPath (Suc i) rs of (gs, skipped) \<Rightarrow>
        (concat (map (\<lambda>alt. case lookPath alt of
             None \<Rightarrow> []
           | Some abi \<Rightarrow> map (\<lambda>a. \<lparr>gr_abi = abi, gr_args = a, gr_env = el_Env r\<rparr>) (rule_patterns r)) (allowAlts r)) @ gs,
         concat (map (\<lambda>alt. case lookPath alt of None \<Rightarrow> [(alt, i)] | Some abi \<Rightarrow> []) (allowAlts r)) @ skipped))"

text \<open>Identical lines are merged, in the order of first use; the environments of a line add up.\<close>

fun add_line :: "string \<Rightarrow> string list \<Rightarrow> (string \<times> string list) list \<Rightarrow> (string \<times> string list) list" where
  "add_line l env [] = [(l, env)]"
| "add_line l env ((k, e) # ls) = (if k = l then (k, e @ env) # ls else (k, e) # add_line l env ls)"

definition merge_lines :: "grant list \<Rightarrow> (string \<times> string list) list" where
  "merge_lines gs = fold (\<lambda>g. add_line (sudoersLine (gr_abi g) (gr_args g)) (gr_env g)) gs []"

definition line_abi :: "string \<Rightarrow> string" where
  "line_abi l = (case str_fields l of [] \<Rightarrow> [] | f # fs \<Rightarrow> f)"

fun first_uses :: "string list \<Rightarrow> string list" where
  "first_uses [] = []"
| "first_uses (x # xs) = x # filter (\<lambda>y. y \<noteq> x) (first_uses xs)"

text \<open>Letters and digits stand; any other rune, of however many bytes, becomes one underscore.\<close>

definition alnum_rune :: "int \<Rightarrow> bool" where
  "alnum_rune r \<longleftrightarrow> r \<in> {97..122} \<or> r \<in> {65..90} \<or> r \<in> {48..57}"

function sanitizeAliasName :: "string \<Rightarrow> string" where
  "sanitizeAliasName [] = []"
| "sanitizeAliasName (c # s) =
     (case decode_rune (c # s) of (r, n) \<Rightarrow>
        (if alnum_rune r then c else CHR ''_'') # sanitizeAliasName (drop (n - 1) s))"
  by pat_completeness auto
termination by (relation "measure length") auto

definition alias_name :: "string \<Rightarrow> string" where
  "alias_name abi = ''PARTOUT_'' @ upper (sanitizeAliasName (Base abi))"

text \<open>The drop-in before it is written out: aliases with their lines, and the lines with \<open>SETENV\<close>.\<close>

record drop_in =
  di_aliases :: "(string \<times> string list) list"
  di_setenv :: "string list"
  di_skipped :: "(string \<times> nat) list"

definition plain_lines :: "(string \<times> string list) list \<Rightarrow> string list" where
  "plain_lines ls = map fst (filter (\<lambda>(l, env). env = []) ls)"

definition drop_in_of :: "(string \<Rightarrow> string option) \<Rightarrow> elev_policy \<Rightarrow> drop_in" where
  "drop_in_of lookPath pol =
     (case rule_grants lookPath 0 (ep_Rules pol) of (gs, skipped) \<Rightarrow>
        let ls = merge_lines gs
        in \<lparr>di_aliases = filter (\<lambda>(a, lines). lines \<noteq> [])
              (map (\<lambda>abi. (alias_name abi, filter (\<lambda>l. line_abi l = abi) (plain_lines ls)))
                 (first_uses (map (\<lambda>(l, env). line_abi l) ls))),
            di_setenv = map fst (filter (\<lambda>(l, env). env \<noteq> []) ls),
            di_skipped = skipped\<rparr>)"

definition nl :: char where "nl = CHR 0x0A"
definition el_dash :: string where "el_dash = [CHR 0xE2, CHR 0x80, CHR 0x94]"

definition file_head :: "string \<Rightarrow> string" where
  "file_head sha =
     ''# /etc/sudoers.d/partout-agent '' @ el_dash @ '' GENERATED by `partout ctl elevation install-sudoers`'' @ [nl] @
     ''# Do not edit by hand: edit the elevation policy (PARTOUT_ELEVATION_POLICY)'' @ [nl] @
     ''# and re-run the install. policy-sha256: '' @ sha @ [nl]"

definition full_text :: "string \<Rightarrow> string \<Rightarrow> string" where
  "full_text sha user =
     file_head sha @ ''#'' @ [nl] @
     ''# !!! FULL TIER '' @ el_dash @ '' the agent user can run ANY command as root via sudo.  !!!'' @ [nl] @
     ''# This is the explicit escape hatch above the broad default: zero'' @ [nl] @
     ''# host-local containment for a compromise of the partout user. Server-'' @ [nl] @
     ''# side guardrails (policy deny-list, approvals, audit) still apply.'' @ [nl] @
     ''#tier: full (policy-sha256 '' @ sha @ '')'' @ [nl] @ [nl] @
     user @ '' ALL=(root) NOPASSWD: ALL'' @ [nl]"

definition spec_parts :: "drop_in \<Rightarrow> string list" where
  "spec_parts d = map fst (di_aliases d) @ map (\<lambda>l. ''SETENV: '' @ l) (di_setenv d)"

definition scoped_text :: "string \<Rightarrow> string \<Rightarrow> drop_in \<Rightarrow> string" where
  "scoped_text sha user d =
     file_head sha @
     concat (map (\<lambda>(alt, i). ''# skipped: '' @ alt @ '' (rule '' @ show_nat i @ '', not found on PATH)'' @ [nl]) (di_skipped d)) @
     [nl] @
     concat (map (\<lambda>(a, lines). ''Cmnd_Alias '' @ a @ '' = '' @
       join_str ('', '' @ [CHR 0x5C, nl] @ ''        '') lines @ [nl]) (di_aliases d)) @
     [nl] @
     user @ '' ALL=(root) NOPASSWD: '' @ join_str '', '' (spec_parts d) @ [nl]"

text \<open>\<open>sha\<close> is the hash of the rules.\<close>

definition RenderSudoers ::
  "(string \<Rightarrow> string option) \<Rightarrow> (elev_rule list \<Rightarrow> string) \<Rightarrow> elev_policy option \<Rightarrow> string \<Rightarrow> string option" where
  "RenderSudoers lookPath sha p user =
     (case p of
        None \<Rightarrow> None
      | Some pol \<Rightarrow>
          if ep_Rules pol = [] then None
          else if user = [] then None
          else if Tier p = Some FullTier then Some (full_text (sha (ep_Rules pol)) user)
          else Some (scoped_text (sha (ep_Rules pol)) user (drop_in_of lookPath pol)))"

section \<open>One decision everywhere\<close>

lemma Check_cases: "Check p name args = Elevated \<or> Check p name args = Denied"
  by (cases "Check p name args") simp_all

lemma rule_at_find:
  "rule_at i rs name args = None \<longleftrightarrow> find (\<lambda>r. rule_matches r name args) rs = None"
  "rule_at i rs name args = Some (k, r) \<Longrightarrow>
     find (\<lambda>r. rule_matches r name args) rs = Some r \<and> i \<le> k \<and> k < i + length rs \<and> rs ! (k - i) = r"
proof (induction rs arbitrary: i)
  case (Cons x rs)
  { case 1 then show ?case using Cons.IH(1) by simp }
  { case 2
    show ?case
    proof (cases "rule_matches x name args")
      case False
      with 2 have "rule_at (Suc i) rs name args = Some (k, r)" by simp
      from Cons.IH(2) [OF this] False show ?thesis by (auto simp: nth_Cons' Suc_diff_le)
    qed (use 2 in auto)
  }
qed simp_all

lemma Explain_agrees:
  "ex_Elevated (Explain (Some pol) name args) \<longleftrightarrow> Check (Some pol) name args = Elevated"
  "ex_Elevated (Explain (Some pol) name args) \<Longrightarrow> ex_Rule (Explain (Some pol) name args) = RuleFor (Some pol) name args"
proof -
  have "list_ex (\<lambda>r. rule_matches r name args) (ep_Rules pol) \<longleftrightarrow> find (\<lambda>r. rule_matches r name args) (ep_Rules pol) \<noteq> None"
    by (auto simp: list_ex_iff find_None_iff)
  then show "ex_Elevated (Explain (Some pol) name args) \<longleftrightarrow> Check (Some pol) name args = Elevated"
    using rule_at_find(1) [of 0 "ep_Rules pol" name args]
    by (auto simp: Explain_def Check_def Let_def split: option.splits)
  show "ex_Elevated (Explain (Some pol) name args) \<Longrightarrow> ex_Rule (Explain (Some pol) name args) = RuleFor (Some pol) name args"
    using rule_at_find(2) [of 0 "ep_Rules pol" name args]
    by (auto simp: Explain_def RuleFor_def Let_def split: option.splits if_splits)
qed

lemma no_rule: "\<not> ex_Elevated (Explain p name args) \<Longrightarrow> ex_Rule (Explain p name args) = None"
  by (auto simp: Explain_def Let_def split: option.splits if_splits)

lemma not_elevated_rule: "Check p name args = Denied \<Longrightarrow> RuleFor p name args = None"
  by (auto simp: Check_def RuleFor_def list_ex_iff find_None_iff split: option.splits if_splits)


text \<open>In sudo mode without a policy the runner pushes every command through sudo and its
  explanation says so, and terminals and task steps do that; a dispatched command runs without
  privileges, is reported as not elevated, and carries the note that it was pushed through sudo.\<close>

theorem legacy_dispatch_not_elevated:
  "runElevated ModeSudo None \<lparr>pr_Mode = ModeSudo, pr_policy = None\<rparr> name args =
     ((name, args), False, LegacyPushedThroughSudo) \<and>
   Wrap \<lparr>pr_Mode = ModeSudo, pr_policy = None\<rparr> name args = (''sudo'', [''-n'', ''--'', name] @ args)"
  by (simp add: runElevated_def Runner_Explain_def Check_def Wrap_def Wrap_reports_def Mode_Run_def)

section \<open>What a loaded policy grants\<close>

definition rule_globs :: "elev_rule \<Rightarrow> string list" where
  "rule_globs r = el_ArgsPrefix r @ el_Args r @ el_Units r @ el_Files r"

lemma bad_glob_None: "bad_glob gs = None \<longleftrightarrow> (\<forall>g \<in> set gs. \<forall>s. Match_glob g s \<noteq> None)"
  by (auto simp: bad_glob_def find_None_iff Match_glob_syntax)

lemma validate_None:
  assumes "validate i r = None"
  shows "\<forall>g \<in> set (rule_globs r). \<forall>s. Match_glob g s \<noteq> None"
    and "rule_patterns r \<noteq> []"
    and "el_Full r \<longleftrightarrow> allowAlts r = []"
proof -
  show "\<forall>g \<in> set (rule_globs r). \<forall>s. Match_glob g s \<noteq> None"
  proof (cases "el_Full r")
    case True
    with assms show ?thesis by (auto simp: validate_def rule_globs_def split: if_splits)
  next
    case False
    with assms have "bad_glob (el_ArgsPrefix r @ el_Args r) = None" "bad_glob (el_Units r @ el_Files r) = None"
      by (auto simp: validate_def split: if_splits option.splits)
    then show ?thesis by (auto simp: bad_glob_None rule_globs_def)
  qed
  show "rule_patterns r \<noteq> []"
    using assms by (cases "el_Verbs r"; cases "el_Units r")
      (auto simp: validate_def rule_patterns_def split: if_splits)
  show "el_Full r \<longleftrightarrow> allowAlts r = []"
    using assms by (auto simp: validate_def split: if_splits)
qed

lemma validate_all_None: "validate_all i rs = None \<Longrightarrow> r \<in> set rs \<Longrightarrow> \<exists>j. validate j r = None"
  by (induction rs arbitrary: i) (auto split: option.splits)

text \<open>C16: A policy document that loads is well formed: no pattern of a rule is ever rejected by the glob
  matcher, whatever argument it meets; a rule that is not the full grant names a command and yields
  at least one sudoers pattern; and a full grant is the only rule of its document.\<close>

theorem loaded_policy_sound:
  assumes "LoadPolicyJSON unmarshal b = Inr pol" "r \<in> set (ep_Rules pol)"
  shows "(\<forall>g \<in> set (rule_globs r). \<forall>s. Match_glob g s \<noteq> None) \<and> rule_patterns r \<noteq> [] \<and>
    (if el_Full r then ep_Rules pol = [r] else allowAlts r \<noteq> [])"
proof -
  from assms obtain rs where rs: "validate_all 0 rs = None" "ep_Rules pol = rs"
    "\<not> (length (filter el_Full rs) > 0 \<and> length rs > 1)"
    by (auto simp: LoadPolicyJSON_def split: option.splits if_splits)
  obtain j where v: "validate j r = None" using validate_all_None rs assms(2) by blast
  have "ep_Rules pol = [r]" if "el_Full r"
  proof -
    have "filter el_Full rs \<noteq> []" using that assms(2) rs(2) by (auto simp: filter_empty_conv)
    then have "length rs \<le> 1" using rs(3) by auto
    with assms(2) rs(2) show ?thesis by (cases rs) auto
  qed
  then show ?thesis using validate_None [OF v] by auto
qed

definition haproxy_rule :: elev_rule where
  "haproxy_rule = \<lparr>el_Allow = ''systemctl'', el_Args = [], el_Verbs = [''restart''], el_Units = [''haproxy*''],
     el_Files = [], el_Env = [], el_Full = False, el_ArgsPrefix = []\<rparr>"

theorem loaded_policy_sound_witness:
  "Match_glob ''haproxy*'' ''web'' \<noteq> None \<and> rule_patterns haproxy_rule \<noteq> [] \<and> allowAlts haproxy_rule \<noteq> []"
proof -
  let ?pol = "\<lparr>ep_Rules = [haproxy_rule], ep_sources = []\<rparr>"
  have "validate 0 haproxy_rule = None" by code_simp
  then have "LoadPolicyJSON (\<lambda>b. Some [haproxy_rule]) [] = Inr ?pol"
    by (simp add: LoadPolicyJSON_def haproxy_rule_def)
  from loaded_policy_sound [OF this, of haproxy_rule] show ?thesis
    by (simp add: haproxy_rule_def rule_globs_def)
qed

text \<open>The arguments a rule accepts, by the number of slashes in each.\<close>

definition same_segments :: "elev_rule \<Rightarrow> string list \<Rightarrow> bool" where
  "same_segments r args =
     (if el_ArgsPrefix r \<noteq> [] then
        length (el_ArgsPrefix r) \<le> length args \<and>
        map slashes (take (length (el_ArgsPrefix r)) args) = map slashes (el_ArgsPrefix r)
      else if el_Args r \<noteq> [] then map slashes args = map slashes (el_Args r)
      else if el_Verbs r \<noteq> [] then
        (\<exists>v \<in> set (el_Verbs r). \<exists>u \<in> set (el_Units r). \<exists>a. args = [v, a] \<and> slashes a = slashes u)
      else if el_Files r \<noteq> [] then (\<exists>f \<in> set (el_Files r). \<exists>a. args = [a] \<and> slashes a = slashes f)
      else args = [])"

lemma glob_slashes: "glob g s \<Longrightarrow> CHR ''['' \<notin> set g \<Longrightarrow> slashes s = slashes g"
  by (simp add: glob_def Match_glob_slashes)

lemma globs_slashes:
  "globs ws args \<Longrightarrow> \<forall>w \<in> set ws. CHR ''['' \<notin> set w \<Longrightarrow> length ws \<le> length args \<Longrightarrow>
     map slashes (take (length ws) args) = map slashes ws"
  by (induction ws args rule: globs.induct) (auto simp: glob_slashes)

lemma matches_same_segments:
  assumes "matches_args r args" "\<forall>g \<in> set (rule_globs r). CHR ''['' \<notin> set g"
  shows "same_segments r args"
proof -
  consider (prefix) "el_ArgsPrefix r \<noteq> []" | (args) "el_ArgsPrefix r = []" "el_Args r \<noteq> []"
    | (verbs) "el_ArgsPrefix r = []" "el_Args r = []" "el_Verbs r \<noteq> []"
    | (files) "el_ArgsPrefix r = []" "el_Args r = []" "el_Verbs r = []" "el_Files r \<noteq> []"
    | (bare) "el_ArgsPrefix r = []" "el_Args r = []" "el_Verbs r = []" "el_Files r = []" by blast
  then show ?thesis
  proof cases
    case prefix
    with assms globs_slashes [of "el_ArgsPrefix r" args] show ?thesis
      by (auto simp: matches_args_def same_segments_def rule_globs_def split: if_splits)
  next
    case args
    with assms globs_slashes [of "el_Args r" "args"] show ?thesis
      by (auto simp: matches_args_def same_segments_def rule_globs_def split: if_splits)
  next
    case verbs
    with assms(1) have "length args = 2" by (auto simp: matches_args_def split: if_splits)
    then obtain v a where "args = [v, a]" by (auto simp: numeral_2_eq_2 length_Suc_conv)
    with verbs assms show ?thesis
      by (auto simp: matches_args_def same_segments_def rule_globs_def list_ex_iff split: if_splits intro: glob_slashes)
  next
    case files
    with assms(1) obtain a where "args = [a]" by (cases args) (auto simp: matches_args_def split: if_splits)
    with files assms show ?thesis
      by (auto simp: matches_args_def same_segments_def rule_globs_def list_ex_iff intro: glob_slashes)
  next
    case bare
    with assms show ?thesis by (simp add: matches_args_def same_segments_def)
  qed
qed

text \<open>A scoped policy stays within its scope: when a command is elevated under rules none of which
  is the full grant or uses a character class, some rule names the command and each of its patterns
  has as many slashes as the argument it matched, so a wildcard never reaches into another directory
  level, and nothing but the rule's own number of arguments is accepted unless it is a prefix grant.\<close>

theorem elevated_stays_in_segments:
  assumes "Check (Some pol) name args = Elevated"
    and "\<forall>r \<in> set (ep_Rules pol). \<not> el_Full r \<and> (\<forall>g \<in> set (rule_globs r). CHR ''['' \<notin> set g)"
  shows "\<exists>r \<in> set (ep_Rules pol). name \<in> set (allowAlts r) \<and> same_segments r args"
proof -
  from assms(1) obtain r where r: "r \<in> set (ep_Rules pol)" "rule_matches r name args"
    by (auto simp: Check_def list_ex_iff split: if_splits)
  with assms(2) show ?thesis
    using matches_same_segments by (auto simp: rule_matches_def split: if_splits)
qed

theorem elevated_stays_in_segments_witness:
  "\<exists>r \<in> set [haproxy_rule]. ''systemctl'' \<in> set (allowAlts r) \<and> same_segments r [''restart'', ''haproxy-1'']"
proof -
  have "Check (Some \<lparr>ep_Rules = [haproxy_rule], ep_sources = []\<rparr>) ''systemctl'' [''restart'', ''haproxy-1''] = Elevated"
    by code_simp
  from elevated_stays_in_segments [OF this] show ?thesis
    by (simp add: haproxy_rule_def rule_globs_def)
qed

section \<open>What the drop-in grants\<close>

definition grant_line :: "grant \<Rightarrow> string" where
  "grant_line g = sudoersLine (gr_abi g) (gr_args g)"

definition merged :: "(string \<times> string list) list \<Rightarrow> grant set \<Rightarrow> bool" where
  "merged ls G \<longleftrightarrow> distinct (map fst ls) \<and> fst ` set ls = grant_line ` G \<and>
     (\<forall>(l, env) \<in> set ls. env \<noteq> [] \<longleftrightarrow> (\<exists>g \<in> G. grant_line g = l \<and> gr_env g \<noteq> []))"

lemma fst_add_line: "fst ` set (add_line l env ls) = insert l (fst ` set ls)"
proof (induction ls)
  case (Cons x ls)
  then show ?case by (cases x) (simp add: insert_commute)
qed simp

lemma distinct_add_line: "distinct (map fst ls) \<Longrightarrow> distinct (map fst (add_line l env ls))"
proof (induction ls)
  case (Cons x ls)
  obtain k e where x: "x = (k, e)" by (cases x)
  have "k \<notin> set (map fst (add_line l env ls))" if "k \<noteq> l"
    using that Cons.prems x fst_add_line [of l env ls] by auto
  with Cons x show ?case by auto
qed simp

lemma in_add_line:
  "distinct (map fst ls) \<Longrightarrow> (k, e) \<in> set (add_line l env ls) \<Longrightarrow>
     (k \<noteq> l \<and> (k, e) \<in> set ls) \<or> (k = l \<and> (\<exists>e0. (k, e0) \<in> set ls \<and> e = e0 @ env)) \<or>
     (k = l \<and> l \<notin> fst ` set ls \<and> e = env)"
proof (induction ls)
  case (Cons x ls)
  obtain k1 e1 where x: "x = (k1, e1)" by (cases x)
  show ?case
  proof (cases "k1 = l")
    case True
    with Cons.prems x have "(k, e) = (l, e1 @ env) \<or> (k, e) \<in> set ls \<and> k \<noteq> l" by force
    with x True show ?thesis by auto
  next
    case False
    with Cons.prems x have "(k, e) = (k1, e1) \<or> (k, e) \<in> set (add_line l env ls)" by auto
    then show ?thesis
    proof
      assume "(k, e) \<in> set (add_line l env ls)"
      from Cons.IH [OF _ this] Cons.prems(1) x False show ?thesis by auto
    qed (use x False in simp)
  qed
qed simp

lemma merged_add:
  assumes "merged ls G"
  shows "merged (add_line (grant_line g) (gr_env g) ls) (insert g G)"
proof -
  note d = assms [unfolded merged_def]
  have "env \<noteq> [] \<longleftrightarrow> (\<exists>h \<in> insert g G. grant_line h = k \<and> gr_env h \<noteq> [])"
    if kin: "(k, env) \<in> set (add_line (grant_line g) (gr_env g) ls)" for k env
  proof -
    from in_add_line [OF conjunct1 [OF d] kin] consider
        (other) "k \<noteq> grant_line g" "(k, env) \<in> set ls"
      | (old) e0 where "k = grant_line g" "(k, e0) \<in> set ls" "env = e0 @ gr_env g"
      | (new) "k = grant_line g" "grant_line g \<notin> fst ` set ls" "env = gr_env g" by blast
    then show ?thesis
    proof cases
      case other
      then show ?thesis using d by auto
    next
      case old
      then have "e0 \<noteq> [] \<longleftrightarrow> (\<exists>h \<in> G. grant_line h = k \<and> gr_env h \<noteq> [])" using d by auto
      with old show ?thesis by auto
    next
      case new
      then have "\<And>h. h \<in> G \<Longrightarrow> grant_line h \<noteq> k" using d by (metis imageI)
      with new show ?thesis by auto
    qed
  qed
  then show ?thesis
    using d unfolding merged_def by (auto simp: fst_add_line distinct_add_line)
qed

lemma merged_lines: "merged (merge_lines gs) (set gs)"
proof (induction gs rule: rev_induct)
  case Nil
  show ?case by (simp add: merged_def merge_lines_def)
next
  case (snoc g gs)
  from merged_add [OF this, of g] show ?case by (simp add: merge_lines_def grant_line_def insert_commute)
qed

lemma set_first_uses: "set (first_uses xs) = set xs"
  by (induction xs) auto

lemma set_rule_grants:
  "set (fst (rule_grants lookPath i rs)) =
     {\<lparr>gr_abi = abi, gr_args = a, gr_env = el_Env r\<rparr> | r alt abi a.
        r \<in> set rs \<and> alt \<in> set (allowAlts r) \<and> lookPath alt = Some abi \<and> a \<in> set (rule_patterns r)}"
proof (induction rs arbitrary: i)
  case (Cons r rs)
  show ?case
    unfolding rule_grants.simps using Cons.IH [of "Suc i"]
    by (cases "rule_grants lookPath (Suc i) rs") (auto split: option.splits, blast+)
qed simp

lemma grouped_lines:
  "set (concat (map snd (filter (\<lambda>(a, lines). lines \<noteq> []) (map (\<lambda>k. (nm k, filter (\<lambda>l. key l = k) xs)) ks)))) =
     {l \<in> set xs. key l \<in> set ks}"
  by (induction ks) (auto simp: filter_empty_conv)

text \<open>The sudoers drop-in grants what the policy says and nothing else: its command lines are those of
  the patterns of the rules, for the commands found on the host; and a line may set the environment
  exactly when a rule that yields it asks for variables.\<close>

theorem drop_in_grants:
  "set (concat (map snd (di_aliases (drop_in_of lookPath pol)))) \<union> set (di_setenv (drop_in_of lookPath pol)) =
     {sudoersLine abi a | r alt abi a. r \<in> set (ep_Rules pol) \<and> alt \<in> set (allowAlts r) \<and>
        lookPath alt = Some abi \<and> a \<in> set (rule_patterns r)} \<and>
   set (di_setenv (drop_in_of lookPath pol)) =
     {sudoersLine abi a | r alt abi a. r \<in> set (ep_Rules pol) \<and> alt \<in> set (allowAlts r) \<and>
        lookPath alt = Some abi \<and> a \<in> set (rule_patterns r) \<and> el_Env r \<noteq> []}"
proof -
  let ?gs = "fst (rule_grants lookPath 0 (ep_Rules pol))"
  let ?ls = "merge_lines ?gs"
  have m: "merged ?ls (set ?gs)" by (rule merged_lines)
  have d: "di_setenv (drop_in_of lookPath pol) = map fst (filter (\<lambda>(l, env). env \<noteq> []) ?ls)"
    "di_aliases (drop_in_of lookPath pol) = filter (\<lambda>(a, lines). lines \<noteq> [])
       (map (\<lambda>abi. (alias_name abi, filter (\<lambda>l. line_abi l = abi) (plain_lines ?ls)))
         (first_uses (map (\<lambda>(l, env). line_abi l) ?ls)))"
    by (simp_all add: drop_in_of_def Let_def split: prod.split)
  have lines: "fst ` set ?ls = {sudoersLine abi a | r alt abi a. r \<in> set (ep_Rules pol) \<and> alt \<in> set (allowAlts r) \<and>
        lookPath alt = Some abi \<and> a \<in> set (rule_patterns r)}"
  proof -
    have "fst ` set ?ls = grant_line ` set ?gs" using m by (simp add: merged_def)
    also have "\<dots> = {sudoersLine abi a | r alt abi a. r \<in> set (ep_Rules pol) \<and> alt \<in> set (allowAlts r) \<and>
        lookPath alt = Some abi \<and> a \<in> set (rule_patterns r)}"
      by (force simp: set_rule_grants grant_line_def)
    finally show ?thesis .
  qed
  have env: "set (di_setenv (drop_in_of lookPath pol)) = {grant_line g | g. g \<in> set ?gs \<and> gr_env g \<noteq> []}" (is "?L = ?R")
  proof
    show "?L \<subseteq> ?R" using m by (fastforce simp: d(1) merged_def)
    show "?R \<subseteq> ?L"
    proof
      fix l
      assume "l \<in> ?R"
      then obtain g where g: "g \<in> set ?gs" "gr_env g \<noteq> []" "l = grant_line g" by blast
      with m obtain env where "(l, env) \<in> set ?ls" by (force simp: merged_def)
      moreover from this m g have "env \<noteq> []" by (auto simp: merged_def)
      ultimately show "l \<in> ?L" by (force simp: d(1))
    qed
  qed
  have all: "set (concat (map snd (di_aliases (drop_in_of lookPath pol)))) = set (plain_lines ?ls)"
    unfolding d(2) grouped_lines set_first_uses by (auto simp: plain_lines_def)
  have "set (plain_lines ?ls) \<union> ?L = fst ` set ?ls"
    by (force simp: d(1) plain_lines_def)
  moreover have "?R = {sudoersLine abi a | r alt abi a. r \<in> set (ep_Rules pol) \<and> alt \<in> set (allowAlts r) \<and>
        lookPath alt = Some abi \<and> a \<in> set (rule_patterns r) \<and> el_Env r \<noteq> []}"
    by (force simp: set_rule_grants grant_line_def)
  ultimately show ?thesis using all lines env by simp
qed

section \<open>Loading drop-ins\<close>

text \<open>A full grant must be the only rule of its document, but documents are merged without that
  check: a directory with a scoped document and a full one loads as one policy of the full tier.\<close>

definition full_rule :: elev_rule where
  "full_rule = \<lparr>el_Allow = [], el_Args = [], el_Verbs = [], el_Units = [], el_Files = [], el_Env = [],
     el_Full = True, el_ArgsPrefix = []\<rparr>"

lemma merged_documents_mix_tiers:
  "Load_elevation (\<lambda>b. if b = ''a'' then Some [haproxy_rule] else Some [full_rule])
     (\<lambda>p. Directory (Some [(''1.json'', False), (''2.json'', False)]))
     (\<lambda>f. if f = ''/e/1.json'' then Some ''a'' else Some ''b'') ''/e'' =
   Inr (Some \<lparr>ep_Rules = [haproxy_rule, full_rule], ep_sources = [''/e/1.json'', ''/e/2.json'']\<rparr>)"
proof -
  have v: "validate 0 haproxy_rule = None" "validate 0 full_rule = None" by code_simp+
  have t: "trim_space ''/e'' = ''/e''" by (rule trim_space_plain) code_simp
  have j: "sort (map (\<lambda>(n, d). Join2 ''/e'' n) (filter (\<lambda>(n, d). \<not> d \<and> has_suffix n ''.json'')
      [(''1.json'', False), (''2.json'', False)])) = [''/e/1.json'', ''/e/2.json'']" by code_simp
  show ?thesis
    by (simp only: Load_elevation_def t Let_def j stat_result.case option.case)
      (simp add: LoadPolicyJSON_def v)
qed

text \<open>A path that does not exist is an error, not the absence of a policy.\<close>

lemma missing_policy_is_an_error:
  "trim_space p \<noteq> [] \<Longrightarrow> stat (trim_space p) = NotThere \<Longrightarrow>
     Load_elevation unmarshal stat read p = Inl (NoPolicyAt (trim_space p))"
  by (simp add: Load_elevation_def Let_def)

text \<open>Units without verbs pass the validation, but such a rule matches the bare command only.\<close>

lemma units_without_verbs:
  "validate 0 (haproxy_rule\<lparr>el_Verbs := []\<rparr>) = None \<and>
   rule_matches (haproxy_rule\<lparr>el_Verbs := []\<rparr>) ''systemctl'' [''restart'', ''haproxy''] = False \<and>
   rule_matches (haproxy_rule\<lparr>el_Verbs := []\<rparr>) ''systemctl'' [] = True"
  by code_simp

end
