(* ===== verification/TaskRunner.thy ===== *)
theory TaskRunner
  imports FileOps Elevation Guardrail When
begin

text \<open>
  Task runs on the agent: the executor of a step (\<open>src/internal/agent/task/executor.go\<close>), the
  runner (\<open>task.go\<close>), the reboot hook the agent installs (\<open>agent.go\<close>) and the continuation of a
  run after a reboot (\<open>src/internal/agent/resume/resume.go\<close>).

  The host is a state of any type with its file system as a part; running a command is a
  function of the argument vector that may change it.  The template engine and the secret cache
  are arguments.  Times of step results and log lines are left out; the maps of a step are lists
  in the order the code happens to visit them.
\<close>

section \<open>The host\<close>

record 'w host =
  h_fs :: "'w \<Rightarrow> filesys"
  h_set :: "filesys \<Rightarrow> 'w \<Rightarrow> 'w"
  h_run :: "string \<times> string list \<Rightarrow> (string \<times> string) list \<Rightarrow> 'w \<Rightarrow> (string option \<times> string) \<times> 'w"
  h_render :: "(string \<rightharpoonup> string) \<Rightarrow> (string \<times> string) list \<Rightarrow> string \<Rightarrow> string + string"
  h_now :: "'w \<Rightarrow> int" \<comment> \<open>nanoseconds\<close>
  h_boot :: "'w \<Rightarrow> int option" \<comment> \<open>\<open>BootAge\<close>: time since boot, nanoseconds\<close>
  h_ctx :: "'w \<Rightarrow> string option" \<comment> \<open>the error of the run's context, if it is over\<close>
  h_io :: "'w \<Rightarrow> string option" \<comment> \<open>the error of writing a marker file, if writing fails\<close>

text \<open>\<open>os.ReadFile\<close>, \<open>os.WriteFile\<close> with mode 0644, and \<open>os.Stat\<close> succeeding.\<close>

definition read_file :: "filesys \<Rightarrow> string \<Rightarrow> string option" where
  "read_file fs p =
     (case locate fs True p of
        Inl e \<Rightarrow> None
      | Inr q \<Rightarrow> (case node_at fs q of Some (Reg b m) \<Rightarrow> Some b | _ \<Rightarrow> None))"

definition write_file :: "filesys \<Rightarrow> string \<Rightarrow> string \<Rightarrow> filesys option" where
  "write_file fs p b =
     (case locate fs True p of
        Inr q \<Rightarrow> (case node_at fs q of Some (Reg b0 m) \<Rightarrow> Some (put fs q (Reg b m)) | _ \<Rightarrow> None)
      | Inl e \<Rightarrow>
          if e \<noteq> ENOENT then None
          else (case locate fs True (Dir p) of
                  Inl e1 \<Rightarrow> None
                | Inr d \<Rightarrow> (case fs (d @ [Base p]) of None \<Rightarrow> Some (put fs (d @ [Base p]) (Reg b 420)) | Some n \<Rightarrow> None)))"

definition file_exists :: "filesys \<Rightarrow> string \<Rightarrow> bool" where
  "file_exists fs p = (case locate fs True p of Inl e \<Rightarrow> False | Inr q \<Rightarrow> node_at fs q \<noteq> None)"

section \<open>The executor\<close>

record executor =
  x_facts :: "string \<rightharpoonup> string"
  x_fileRoot :: string
  x_runner :: policy_runner
  x_secrets :: "(string \<Rightarrow> string option) option"
  x_flush :: bool

datatype step_state = StOK | StChanged | StFailed | StSkipped

text \<open>The texts of a result, with the errors they wrap.\<close>

datatype detail =
    Msg string
  | GuardError when_error
  | AssertError when_error
  | PathError string fs_error
  | CommandFailed string string \<comment> \<open>what failed, and the (truncated) output\<close>
  | CmdOutput string
  | WriteFailed string
  | Wrote nat
  | RenderError string
  | NoBackend string
  | UnsupportedState string
  | SecretUnavailable string

record step_result =
  sr_Index :: int
  sr_Name :: string
  sr_State :: step_state
  sr_Detail :: detail

definition truncate :: "string \<Rightarrow> nat \<Rightarrow> string" where
  "truncate s mx = (if length s \<le> mx then s else take mx s @ ''...'')"

definition getFact :: "executor \<Rightarrow> string \<Rightarrow> string" where
  "getFact x k = (case x_facts x k of None \<Rightarrow> [] | Some v \<Rightarrow> v)"

text \<open>Commands run plainly, and through the elevation runner.\<close>

definition run_plain :: "('w, 'z) host_scheme \<Rightarrow> string \<Rightarrow> string list \<Rightarrow> 'w \<Rightarrow> (string option \<times> string) \<times> 'w" where
  "run_plain H name args w = h_run H (name, args) [] w"

definition run_wrapped ::
  "('w, 'z) host_scheme \<Rightarrow> executor \<Rightarrow> string \<Rightarrow> string list \<Rightarrow> 'w \<Rightarrow> (string option \<times> string) \<times> 'w" where
  "run_wrapped H x name args w = h_run H (Wrap (x_runner x) name args) [] w"

definition safe_path :: string where
  "safe_path = ''/usr/local/sbin:/usr/local/bin:/usr/sbin:/usr/bin:/sbin:/bin''"

type_synonym 'w step_outcome = "step_state \<times> detail \<times> 'w"

definition doCommand :: "('w, 'z) host_scheme \<Rightarrow> executor \<Rightarrow> pbTaskStep \<Rightarrow> 'w \<Rightarrow> 'w step_outcome" where
  "doCommand H x s w =
     (if s_Command s = [] then (StFailed, Msg ''empty command'', w)
      else (case h_run H (Wrap (x_runner x) (s_Command s) (s_Args s)) ((''PATH'', safe_path) # s_Env s) w of
              ((Some err, out), w1) \<Rightarrow> (StFailed, CommandFailed (''exit '' @ err) (truncate out 500), w1)
            | ((None, out), w1) \<Rightarrow> (StOK, CmdOutput (truncate out 500), w1)))"

text \<open>The end of \<open>doFile\<close> and \<open>doTemplate\<close>: write when the content differs.\<close>

definition ensure_content ::
  "('w, 'z) host_scheme \<Rightarrow> string \<Rightarrow> string \<Rightarrow> detail \<Rightarrow> 'w \<Rightarrow> 'w step_outcome" where
  "ensure_content H path content same w =
     (if read_file (h_fs H w) path = Some content then (StOK, same, w)
      else (case write_file (h_fs H w) path content of
              None \<Rightarrow> (StFailed, WriteFailed path, w)
            | Some fs \<Rightarrow> (StChanged, Wrote (length content), h_set H fs w)))"

definition doFile :: "('w, 'z) host_scheme \<Rightarrow> executor \<Rightarrow> pbTaskStep \<Rightarrow> 'w \<Rightarrow> 'w step_outcome" where
  "doFile H x s w =
     (case ResolvePath (h_fs H w) (x_fileRoot x) (s_Path s) of
        Inl e \<Rightarrow> (StFailed, PathError ''file path: '' e, w)
      | Inr path \<Rightarrow>
          if s_Content s = [] then (StOK, Msg ''no content change'', w)
          else ensure_content H path (s_Content s) (Msg ''content matches'') w)"

definition doTemplate :: "('w, 'z) host_scheme \<Rightarrow> executor \<Rightarrow> pbTaskStep \<Rightarrow> 'w \<Rightarrow> 'w step_outcome" where
  "doTemplate H x s w =
     (case ResolvePath (h_fs H w) (x_fileRoot x) (s_Path s) of
        Inl e \<Rightarrow> (StFailed, PathError ''template path: '' e, w)
      | Inr path \<Rightarrow>
          if s_Template s = [] then (StFailed, Msg ''empty template content'', w)
          else (case h_render H (x_facts x) (s_Vars s) (s_Template s) of
                  Inl err \<Rightarrow> (StFailed, RenderError err, w)
                | Inr content \<Rightarrow> ensure_content H path content (Msg ''template output unchanged'') w))"

text \<open>Query, then one elevated command if the state is not the wanted one.\<close>

definition ensure_state ::
  "('w, 'z) host_scheme \<Rightarrow> executor \<Rightarrow> string \<times> string list \<Rightarrow> (string option \<times> string \<Rightarrow> bool) \<Rightarrow> string
   \<Rightarrow> string \<times> string list \<Rightarrow> string \<Rightarrow> string \<Rightarrow> 'w \<Rightarrow> 'w step_outcome" where
  "ensure_state H x query okq already action failing note w =
     (case run_plain H (fst query) (snd query) w of
        (r, w1) \<Rightarrow>
          if okq r then (StOK, Msg already, w1)
          else (case run_wrapped H x (fst action) (snd action) w1 of
                  ((Some err, out), w2) \<Rightarrow> (StFailed, CommandFailed failing (truncate out 300), w2)
                | ((None, out), w2) \<Rightarrow> (StChanged, Msg note, w2)))"

definition succeeded :: "string option \<times> string \<Rightarrow> bool" where
  "succeeded r \<longleftrightarrow> fst r = None"

definition doPkg ::
  "('w, 'z) host_scheme \<Rightarrow> executor \<Rightarrow> string \<times> string list \<Rightarrow> string \<Rightarrow> string \<Rightarrow> string \<Rightarrow> string \<Rightarrow> 'w
   \<Rightarrow> 'w step_outcome" where
  "doPkg H x query short mgr pkg desired w =
     (if desired \<in> {''present'', ''installed'', ''latest''} then
        ensure_state H x query succeeded ''already installed'' (mgr, [''-y'', ''install'', pkg]) (short @ '' install failed'')
          ''installed package'' w
      else if desired \<in> {''absent'', ''removed''} then
        ensure_state H x query (\<lambda>r. \<not> succeeded r) ''already absent'' (mgr, [''-y'', ''remove'', pkg]) (short @ '' remove failed'')
          ''removed package'' w
      else (StFailed, UnsupportedState desired, w))"

definition doApt :: "('w, 'z) host_scheme \<Rightarrow> executor \<Rightarrow> string \<Rightarrow> string \<Rightarrow> 'w \<Rightarrow> 'w step_outcome" where
  "doApt H x pkg desired w = doPkg H x (''dpkg-query'', [''-W'', pkg]) ''apt'' ''apt-get'' pkg desired w"

definition doDnf :: "('w, 'z) host_scheme \<Rightarrow> executor \<Rightarrow> string \<Rightarrow> string \<Rightarrow> 'w \<Rightarrow> 'w step_outcome" where
  "doDnf H x pkg desired w = doPkg H x (''rpm'', [''-q'', pkg]) ''dnf'' ''dnf'' pkg desired w"

definition apt_distros :: "string list" where
  "apt_distros = [''ubuntu'', ''debian'', ''linuxmint'', ''pop'']"

definition dnf_distros :: "string list" where
  "dnf_distros = [''rhel'', ''centos'', ''rocky'', ''alma'', ''fedora'', ''ol'']"

definition doPackage :: "('w, 'z) host_scheme \<Rightarrow> executor \<Rightarrow> pbTaskStep \<Rightarrow> 'w \<Rightarrow> 'w step_outcome" where
  "doPackage H x s w =
     (if s_Package s = [] then (StFailed, Msg ''empty package name'', w)
      else
        let desired = (if s_State s = [] then ''latest'' else s_State s); distro = getFact x ''host.distro''
        in if distro \<in> set apt_distros then doApt H x (s_Package s) desired w
           else if distro \<in> set dnf_distros then doDnf H x (s_Package s) desired w
           else (StFailed, NoBackend distro, w))"

definition isNoOpUpgrade :: "string \<Rightarrow> bool" where
  "isNoOpUpgrade out \<longleftrightarrow> contains out ''0 upgraded, 0 newly installed'' \<or> contains out ''Nothing to do.''"

definition doUpgrade :: "('w, 'z) host_scheme \<Rightarrow> executor \<Rightarrow> 'w \<Rightarrow> 'w step_outcome" where
  "doUpgrade H x w =
     (let distro = getFact x ''host.distro'';
          go = (\<lambda>refresh app.
            case run_wrapped H x (fst refresh) (snd refresh) w of
              (r, w1) \<Rightarrow>
                (case run_wrapped H x (fst app) (snd app) w1 of
                   ((Some err, out), w2) \<Rightarrow> (StFailed, CommandFailed ''upgrade failed'' (truncate out 300), w2)
                 | ((None, out), w2) \<Rightarrow>
                     if isNoOpUpgrade out then (StOK, Msg ''no updates available'', w2)
                     else (StChanged, CmdOutput (truncate out 300), w2)))
      in if distro \<in> set apt_distros then go (''apt-get'', [''-qq'', ''update'']) (''apt-get'', [''-y'', ''upgrade''])
         else if distro \<in> set dnf_distros then go (''dnf'', [''-q'', ''makecache'']) (''dnf'', [''-y'', ''upgrade''])
         else (StFailed, NoBackend distro, w))"

definition doService :: "('w, 'z) host_scheme \<Rightarrow> executor \<Rightarrow> pbTaskStep \<Rightarrow> 'w \<Rightarrow> 'w step_outcome" where
  "doService H x s w =
     (if s_Service s = [] then (StFailed, Msg ''empty service name'', w)
      else
        let svc = s_Service s; desired = (if s_State s = [] then ''started'' else s_State s);
            active = (\<lambda>r. trim_space (snd r) = ''active'')
        in if desired \<in> {''started'', ''running'', ''enabled''} then
             ensure_state H x (''systemctl'', [''is-active'', svc]) active ''already active''
               (''systemctl'', [''start'', svc]) ''start failed'' ''started service'' w
           else if desired \<in> {''stopped'', ''disabled''} then
             ensure_state H x (''systemctl'', [''is-active'', svc]) (\<lambda>r. \<not> active r) ''already stopped''
               (''systemctl'', [''stop'', svc]) ''stop failed'' ''stopped service'' w
           else (case run_plain H ''systemctl'' [''is-active'', svc] w of (r, w1) \<Rightarrow> (StFailed, UnsupportedState desired, w1)))"

definition doUser :: "('w, 'z) host_scheme \<Rightarrow> executor \<Rightarrow> pbTaskStep \<Rightarrow> 'w \<Rightarrow> 'w step_outcome" where
  "doUser H x s w =
     (if s_User s = [] then (StFailed, Msg ''empty user name'', w)
      else ensure_state H x (''id'', [s_User s]) succeeded ''user exists''
             (''useradd'', [''--system'', ''--no-create-home'', s_User s]) ''useradd failed'' ''created user'' w)"

definition doGroup :: "('w, 'z) host_scheme \<Rightarrow> executor \<Rightarrow> pbTaskStep \<Rightarrow> 'w \<Rightarrow> 'w step_outcome" where
  "doGroup H x s w =
     (if s_Group s = [] then (StFailed, Msg ''empty group name'', w)
      else ensure_state H x (''getent'', [''group'', s_Group s]) succeeded ''group exists''
             (''groupadd'', [s_Group s]) ''groupadd failed'' ''created group'' w)"

text \<open>
  The evaluator's result: \<open>Eval\<close> always returns (\<open>Eval_returns\<close>), so the value is taken out.
  An assertion is evaluated without the file predicate of the host.
\<close>

definition eval_guard :: "(string \<rightharpoonup> string) \<Rightarrow> (string \<Rightarrow> bool) \<Rightarrow> string \<Rightarrow> when_error + bool" where
  "eval_guard facts exs e = the (Eval (facts, exs) e)"

definition doAssert :: "executor \<Rightarrow> pbTaskStep \<Rightarrow> 'w \<Rightarrow> 'w step_outcome" where
  "doAssert x s w =
     (if s_Expr s = [] then (StFailed, Msg ''empty expression'', w)
      else (case eval_guard (x_facts x) (\<lambda>_. False) (s_Expr s) of
              Inl err \<Rightarrow> (StFailed, AssertError err, w)
            | Inr False \<Rightarrow> (StFailed, Msg (''assert false: '' @ s_Expr s), w)
            | Inr True \<Rightarrow> (StOK, Msg ''assert passed'', w)))"

definition doStep :: "('w, 'z) host_scheme \<Rightarrow> executor \<Rightarrow> pbTaskStep \<Rightarrow> 'w \<Rightarrow> 'w step_outcome" where
  "doStep H x s w =
     (let k = s_Kind s in
      if k = ''command'' then doCommand H x s w
      else if k = ''file'' then doFile H x s w
      else if k = ''package'' then doPackage H x s w
      else if k = ''upgrade'' then doUpgrade H x w
      else if k = ''service'' then doService H x s w
      else if k = ''user'' then doUser H x s w
      else if k = ''group'' then doGroup H x s w
      else if k = ''template'' then doTemplate H x s w
      else if k = ''assert'' then doAssert x s w
      else if k = ''reboot'' then
        (StFailed, Msg ''reboot step must be run via the task Runner (marker hook missing)'', w)
      else (StFailed, Msg (''unknown kind: '' @ k), w))"

section \<open>Secret references\<close>

definition secret_prefix :: string where "secret_prefix = ''secret:''"

definition isRef :: "string \<Rightarrow> bool" where
  "isRef v = has_prefix v secret_prefix"

definition ref_name :: "string \<Rightarrow> string" where
  "ref_name v = trim_prefix v secret_prefix"

definition resolve_ref :: "(string \<Rightarrow> string option) \<Rightarrow> string \<Rightarrow> string" where
  "resolve_ref sec v =
     (if \<not> isRef v then v
      else if ref_name v = [] then v
      else (case sec (ref_name v) of None \<Rightarrow> v | Some val \<Rightarrow> val))"

definition stuck_ref :: "string \<Rightarrow> bool" where
  "stuck_ref v \<longleftrightarrow> isRef v \<and> ref_name v \<noteq> []"

text \<open>The values of a step in the order they are checked.\<close>

definition step_values :: "pbTaskStep \<Rightarrow> string list" where
  "step_values s = s_Args s @ map snd (s_Env s) @ map snd (s_Vars s) @ [s_Content s, s_Template s, s_Command s]"

definition needs_secrets :: "pbTaskStep \<Rightarrow> bool" where
  "needs_secrets s \<longleftrightarrow> list_ex isRef (step_values s)"

definition render_step :: "(string \<Rightarrow> string option) \<Rightarrow> pbTaskStep \<Rightarrow> pbTaskStep" where
  "render_step sec s =
     s\<lparr>s_Args := map (resolve_ref sec) (s_Args s),
       s_Env := map (\<lambda>(k, v). (k, resolve_ref sec v)) (s_Env s),
       s_Vars := map (\<lambda>(k, v). (k, resolve_ref sec v)) (s_Vars s),
       s_Content := resolve_ref sec (s_Content s), s_Template := resolve_ref sec (s_Template s),
       s_Command := resolve_ref sec (s_Command s)\<rparr>"

text \<open>The error is the name of the first reference that stayed.\<close>

definition renderSecrets :: "executor \<Rightarrow> pbTaskStep \<Rightarrow> string + pbTaskStep" where
  "renderSecrets x s =
     (case x_secrets x of
        None \<Rightarrow> Inr s
      | Some sec \<Rightarrow>
          if \<not> needs_secrets s then Inr s
          else
            let out = render_step sec s
            in (case find stuck_ref (step_values out) of
                  Some v \<Rightarrow> Inl (ref_name v)
                | None \<Rightarrow> Inr out))"

section \<open>One step\<close>

definition step_name :: "pbTaskStep \<Rightarrow> string" where
  "step_name s = (if s_Name s = [] then s_Kind s else s_Name s)"

definition mk_result :: "int \<Rightarrow> pbTaskStep \<Rightarrow> step_state \<Rightarrow> detail \<Rightarrow> step_result" where
  "mk_result i s st d = \<lparr>sr_Index = i, sr_Name = step_name s, sr_State = st, sr_Detail = d\<rparr>"

definition guard_result :: "('w, 'z) host_scheme \<Rightarrow> executor \<Rightarrow> pbTaskStep \<Rightarrow> 'w \<Rightarrow> when_error + bool" where
  "guard_result H x s w =
     (if s_When s = [] then Inr True else eval_guard (x_facts x) (file_exists (h_fs H w)) (s_When s))"

definition Step :: "('w, 'z) host_scheme \<Rightarrow> executor \<Rightarrow> int \<Rightarrow> pbTaskStep \<Rightarrow> 'w \<Rightarrow> step_result \<times> 'w" where
  "Step H x i s w =
     (case guard_result H x s w of
        Inl err \<Rightarrow> (mk_result i s StFailed (GuardError err), w)
      | Inr False \<Rightarrow> (mk_result i s StSkipped (Msg ''when guard false''), w)
      | Inr True \<Rightarrow>
          (case renderSecrets x s of
             Inl name \<Rightarrow> (mk_result i s StFailed (SecretUnavailable name), w)
           | Inr s1 \<Rightarrow> (case doStep H x s1 w of (st, d, w1) \<Rightarrow> (mk_result i s st d, w1))))"


section \<open>Rebooting\<close>

definition reboot_commands :: "(string \<times> string list) list" where
  "reboot_commands = [(''systemctl'', [''reboot'']), (''shutdown'', [''-r'', ''now'']), (''reboot'', [])]"

fun defaultReboot ::
  "('w, 'z) host_scheme \<Rightarrow> executor \<Rightarrow> (string \<times> string list) list \<Rightarrow> detail \<Rightarrow> 'w \<Rightarrow> detail option \<times> 'w" where
  "defaultReboot H x [] lastErr w = (Some lastErr, w)"
| "defaultReboot H x (c # cs) lastErr w =
     (case run_wrapped H x (fst c) (snd c) w of
        ((None, out), w1) \<Rightarrow> (None, w1)
      | ((Some err, out), w1) \<Rightarrow>
          defaultReboot H x cs
            (CommandFailed (join_str '' '' (snd (Wrap (x_runner x) (fst c) (snd c)))) (truncate out 200)) w1)"

definition DoReboot :: "('w, 'z) host_scheme \<Rightarrow> executor \<Rightarrow> 'w \<Rightarrow> (step_state \<times> detail) \<times> 'w" where
  "DoReboot H x w =
     (case (if x_flush x then h_ctx H w else None) of
        Some err \<Rightarrow> ((StFailed, Msg (''reboot cancelled before command: '' @ err)), w)
      | None \<Rightarrow>
          (case defaultReboot H x reboot_commands (Msg []) w of
             (Some err, w1) \<Rightarrow> ((StFailed, err), w1)
           | (None, w1) \<Rightarrow> ((StChanged, Msg ''reboot initiated; resuming after boot''), w1)))"

section \<open>The runner\<close>

datatype run_error = NoErr | FailedStep nat string detail | Note detail | Reason string

record run_result =
  tres_State :: string
  tres_Error :: run_error
  tres_Steps :: "step_result list"

record reboot_ctx =
  rc_Run :: pbTaskRun
  rc_JobID :: string
  rc_JobTrigger :: string
  rc_MaxRunS :: int
  rc_RebootIndex :: nat
  rc_Done :: "step_result list"

text \<open>\<open>'m\<close> is the state the hooks write: for the agent's hooks, the marker directory.\<close>

record ('w, 'm) runner =
  rn_JobID :: string
  rn_JobTrigger :: string
  rn_MaxRunS :: int
  rn_hook :: "(reboot_ctx \<Rightarrow> 'w \<Rightarrow> 'm \<Rightarrow> string option \<times> 'm) option"
  rn_abort :: "(string \<Rightarrow> 'm \<Rightarrow> 'm) option"

definition reboot_name :: "pbTaskStep \<Rightarrow> string" where
  "reboot_name s = (if s_Name s \<noteq> [] then s_Name s else ''reboot'')"

definition reboot_result :: "nat \<Rightarrow> pbTaskStep \<Rightarrow> step_state \<Rightarrow> detail \<Rightarrow> step_result" where
  "reboot_result i s st d = \<lparr>sr_Index = int i, sr_Name = reboot_name s, sr_State = st, sr_Detail = d\<rparr>"

definition runReboot ::
  "('w, 'z) host_scheme \<Rightarrow> executor \<Rightarrow> ('w, 'm) runner \<Rightarrow> pbTaskRun \<Rightarrow> nat \<Rightarrow> step_result list \<Rightarrow> pbTaskStep
   \<Rightarrow> 'm \<Rightarrow> 'w \<Rightarrow> run_result \<times> 'm \<times> 'w" where
  "runReboot H x rn tr i acc s m w =
     (case (case rn_hook rn of
              None \<Rightarrow> (None, m)
            | Some hook \<Rightarrow>
                hook \<lparr>rc_Run = tr, rc_JobID = rn_JobID rn, rc_JobTrigger = rn_JobTrigger rn,
                  rc_MaxRunS = rn_MaxRunS rn, rc_RebootIndex = i, rc_Done = acc\<rparr> w m) of
        (Some err, m1) \<Rightarrow>
          (\<lparr>tres_State = ''failed'', tres_Error = FailedStep i ''reboot'' (Msg err),
             tres_Steps = acc @ [reboot_result i s StFailed (Msg (''marker: '' @ err))]\<rparr>, m1, w)
      | (None, m1) \<Rightarrow>
          (case DoReboot H x w of
             ((st, d), w1) \<Rightarrow>
               if st = StChanged \<or> st = StOK then
                 (\<lparr>tres_State = ''rebooting'', tres_Error = Note d, tres_Steps = acc @ [reboot_result i s StChanged d]\<rparr>, m1, w1)
               else
                 (\<lparr>tres_State = ''failed'', tres_Error = FailedStep i ''reboot'' d,
                    tres_Steps = acc @ [reboot_result i s StFailed d]\<rparr>,
                  (case rn_abort rn of None \<Rightarrow> m1 | Some abort \<Rightarrow> abort (tr_RunId tr) m1), w1)))"

fun run_steps ::
  "('w, 'z) host_scheme \<Rightarrow> executor \<Rightarrow> ('w, 'm) runner \<Rightarrow> pbTaskRun \<Rightarrow> nat \<Rightarrow> pbTaskStep list \<Rightarrow> step_result list
   \<Rightarrow> 'm \<Rightarrow> 'w \<Rightarrow> run_result \<times> 'm \<times> 'w" where
  "run_steps H x rn tr i [] acc m w = (\<lparr>tres_State = ''succeeded'', tres_Error = NoErr, tres_Steps = acc\<rparr>, m, w)"
| "run_steps H x rn tr i (s # ss) acc m w =
     (if s_Kind s = ''reboot'' then runReboot H x rn tr i acc s m w
      else (case Step H x (int i) s w of
              (sr, w1) \<Rightarrow>
                if sr_State sr = StFailed then
                  (\<lparr>tres_State = ''failed'', tres_Error = FailedStep i (s_Kind s) (sr_Detail sr), tres_Steps = acc @ [sr]\<rparr>, m, w1)
                else run_steps H x rn tr (Suc i) ss (acc @ [sr]) m w1))"

definition Runner_Run ::
  "('w, 'z) host_scheme \<Rightarrow> executor \<Rightarrow> ('w, 'm) runner \<Rightarrow> pbTaskRun \<Rightarrow> 'm \<Rightarrow> 'w \<Rightarrow> run_result \<times> 'm \<times> 'w" where
  "Runner_Run H x rn tr m w = run_steps H x rn tr 0 (tr_Steps tr) [] m w"

section \<open>Resume markers\<close>

record marker =
  m_RunID :: string
  m_Kind :: string
  m_JobID :: string
  m_TaskID :: string
  m_TaskVersion :: int
  m_StartIdx :: nat
  m_Steps :: "pbTaskStep list"
  m_DoneSteps :: "step_result list"
  m_MaxRunS :: int
  m_Decision :: "pbDecision option"
  m_CreatedAt :: int

text \<open>The directory: run ids and markers, one file each; an unreadable file is not in the list.\<close>

type_synonym marker_files = "(string \<times> marker) list"

definition safe_char :: "char \<Rightarrow> bool" where
  "safe_char ch \<longleftrightarrow> char_in (CHR ''A'') (CHR ''Z'') ch \<or> char_in (CHR ''a'') (CHR ''z'') ch \<or> char_in (CHR ''0'') (CHR ''9'') ch \<or>
     ch = CHR ''_'' \<or> ch = CHR ''-''"

definition safeID :: "string \<Rightarrow> bool" where
  "safeID s \<longleftrightarrow> s \<noteq> [] \<and> list_all safe_char s"

fun marker_put :: "string \<Rightarrow> marker \<Rightarrow> marker_files \<Rightarrow> marker_files" where
  "marker_put k v [] = [(k, v)]"
| "marker_put k v ((k1, v1) # ms) = (if k1 = k then (k, v) # ms else (k1, v1) # marker_put k v ms)"

definition Save_marker :: "string option \<Rightarrow> marker \<Rightarrow> marker_files \<Rightarrow> string option \<times> marker_files" where
  "Save_marker io mk ms =
     (if \<not> safeID (m_RunID mk) then (Some (''resume: unsafe run id '' @ m_RunID mk), ms)
      else (case io of Some err \<Rightarrow> (Some err, ms) | None \<Rightarrow> (None, marker_put (m_RunID mk) mk ms)))"

text \<open>\<open>os.ReadDir\<close> gives the entries in the order of their names.\<close>

definition List_markers :: "marker_files \<Rightarrow> marker list" where
  "List_markers ms = map snd (sort_key (\<lambda>e. fst e @ ''.json'') ms)"

definition Delete_marker :: "string \<Rightarrow> marker_files \<Rightarrow> marker_files" where
  "Delete_marker i ms = (if safeID i then filter (\<lambda>e. fst e \<noteq> i) ms else ms)"

text \<open>The hooks of the agent; no store when its directory could not be made.\<close>

definition marker_of :: "int \<Rightarrow> reboot_ctx \<Rightarrow> marker" where
  "marker_of created rc =
     \<lparr>m_RunID = tr_RunId (rc_Run rc), m_Kind = (if rc_JobID rc \<noteq> [] then ''job'' else ''task''), m_JobID = rc_JobID rc,
      m_TaskID = tr_TaskId (rc_Run rc), m_TaskVersion = tr_TaskVersion (rc_Run rc), m_StartIdx = rc_RebootIndex rc,
      m_Steps = drop (Suc (rc_RebootIndex rc)) (tr_Steps (rc_Run rc)), m_DoneSteps = rc_Done rc,
      m_MaxRunS = rc_MaxRunS rc, m_Decision = tr_Decision (rc_Run rc), m_CreatedAt = created\<rparr>"

definition second :: int where "second = 1000000000"

definition rebootHook ::
  "('w, 'z) host_scheme \<Rightarrow> reboot_ctx \<Rightarrow> 'w \<Rightarrow> marker_files option \<Rightarrow> string option \<times> marker_files option" where
  "rebootHook H rc w store =
     (case store of
        None \<Rightarrow> (Some ''resume store unavailable'', None)
      | Some ms \<Rightarrow>
          (case Save_marker (h_io H w) (marker_of (h_now H w div second) rc) ms of (err, ms1) \<Rightarrow> (err, Some ms1)))"

definition rebootAbort :: "string \<Rightarrow> marker_files option \<Rightarrow> marker_files option" where
  "rebootAbort i store = map_option (Delete_marker i) store"

section \<open>Continuing after the reboot\<close>

record job_report =
  jr_RunID :: string
  jr_JobID :: string
  jr_State :: string
  jr_Error :: run_error
  jr_ScheduledAt :: int
  jr_Trigger :: string
  jr_RetryOf :: nat

datatype report = JobRunReport job_report | TaskRunReport string string run_error "step_result list"

definition resume_report :: "marker \<Rightarrow> string \<Rightarrow> run_error \<Rightarrow> step_result list \<Rightarrow> report" where
  "resume_report mk st err steps =
     (if m_Kind mk = ''job'' then
        JobRunReport \<lparr>jr_RunID = m_RunID mk, jr_JobID = m_JobID mk, jr_State = st, jr_Error = err,
          jr_ScheduledAt = m_CreatedAt mk, jr_Trigger = ''resume'', jr_RetryOf = 0\<rparr>
      else TaskRunReport (m_RunID mk) st err steps)"

type_synonym 'w resume_state = "marker_files option \<times> 'w \<times> report list"

definition failMarker :: "marker \<Rightarrow> string \<Rightarrow> 'w resume_state \<Rightarrow> 'w resume_state" where
  "failMarker mk reason = (\<lambda>(store, w, reps).
     (map_option (Delete_marker (m_RunID mk)) store, w, reps @ [resume_report mk ''failed'' (Reason reason) []]))"

definition resumed_run :: "marker \<Rightarrow> pbTaskRun" where
  "resumed_run mk = \<lparr>tr_RunId = m_RunID mk, tr_TaskId = m_TaskID mk, tr_TaskVersion = m_TaskVersion mk,
     tr_Steps = m_Steps mk, tr_Decision = m_Decision mk\<rparr>"

definition resumed_runner :: "('w, 'z) host_scheme \<Rightarrow> marker \<Rightarrow> ('w, marker_files option) runner" where
  "resumed_runner H mk = \<lparr>rn_JobID = m_JobID mk, rn_JobTrigger = [], rn_MaxRunS = m_MaxRunS mk,
     rn_hook = Some (rebootHook H), rn_abort = Some rebootAbort\<rparr>"

definition reindexed :: "marker \<Rightarrow> step_result list \<Rightarrow> step_result list" where
  "reindexed mk rs =
     map (\<lambda>(i, r). r\<lparr>sr_Index := int (m_StartIdx mk + 1 + i)\<rparr>) (zip [0..<length rs] rs)"

definition resume_run :: "('w, 'z) host_scheme \<Rightarrow> executor \<Rightarrow> marker \<Rightarrow> 'w resume_state \<Rightarrow> 'w resume_state" where
  "resume_run H x mk = (\<lambda>(store, w, reps).
     (case Runner_Run H x (resumed_runner H mk) (resumed_run mk) store w of
        (res, store1, w1) \<Rightarrow>
          let st = (if h_ctx H w1 = Some ''context deadline exceeded'' \<and> tres_State res \<noteq> ''succeeded'' then ''timeout''
                    else tres_State res)
          in (map_option (Delete_marker (m_RunID mk)) store1, w1,
              reps @ [resume_report mk st (tres_Error res) (m_DoneSteps mk @ reindexed mk (tres_Steps res))])))"

definition resumeOne ::
  "('w, 'z) host_scheme \<Rightarrow> executor \<Rightarrow> regex \<Rightarrow> (string \<Rightarrow> string \<Rightarrow> string \<Rightarrow> bool) \<Rightarrow> Guard \<Rightarrow> marker
   \<Rightarrow> 'w resume_state \<Rightarrow> 'w resume_state" where
  "resumeOne H x rx verify g mk = (\<lambda>(store, w, reps).
     (case h_boot H w of
        None \<Rightarrow> failMarker mk ''cannot verify reboot (system uptime unreadable)'' (store, w, reps)
      | Some age \<Rightarrow>
          if age \<ge> h_now H w - m_CreatedAt mk * second then
            failMarker mk ''host did not reboot after the resume marker (reboot command failed?)'' (store, w, reps)
          else if \<not> loaded g then (store, w, reps)
          else (case RecheckTask rx verify g (resumed_run mk) of
                  (False, reason) \<Rightarrow> failMarker mk (''resume denied by policy: '' @ reason) (store, w, reps)
                | (True, reason) \<Rightarrow> resume_run H x mk (store, w, reps))))"

definition ResumePending ::
  "('w, 'z) host_scheme \<Rightarrow> executor \<Rightarrow> regex \<Rightarrow> (string \<Rightarrow> string \<Rightarrow> string \<Rightarrow> bool) \<Rightarrow> Guard
   \<Rightarrow> 'w resume_state \<Rightarrow> 'w resume_state" where
  "ResumePending H x rx verify g st =
     (case fst st of
        None \<Rightarrow> st
      | Some ms \<Rightarrow> fold (resumeOne H x rx verify g) (List_markers ms) st)"


section \<open>Writing files\<close>

lemma write_resolved:
  assumes "root_ok fs root" "ResolvePath fs root path = Inr full" "write_file fs full b = Some fs1"
  shows "read_file fs1 full = Some b \<and> ResolvePath fs1 root path = Inr full"
proof -
  have r: "list_all comp_ok (comps root)" "root = abs_path (comps root)" "all_folders fs (comps root)" "fs [] = None"
    using assms(1) by (auto simp: root_ok_def)
  from ResolvePath_clear [OF assms(1,2)] obtain cs where cs: "list_all comp_ok cs"
    "full = abs_path (comps root @ cs)" "clear fs (comps root @ cs)" by blast
  have "cs \<noteq> []"
  proof
    assume "cs = []"
    then show False using assms(3) locate_folder [OF r(3,1), of True] r(3) cs(2)
      by (auto simp: write_file_def all_folders_def folder_at_def split: option.splits node.splits)
  qed
  then obtain q c where qc: "comps root @ cs = q @ [c]" by (metis append_butlast_last_id append_is_Nil_conv)
  have ok: "list_all comp_ok (q @ [c])" using r(1) cs(1) qc by (metis list_all_append)
  have okq: "list_all comp_ok q" "comp_ok c" using ok by simp_all
  have fq: "all_folders fs q" using cs(3) qc by (simp add: clear_snoc)
  obtain m where fs1: "fs1 = fs(q @ [c] \<mapsto> Reg b m)"
    using assms(3) cs(2) qc locate_clear [of fs q c True] cs(3) ok locate_folder [OF fq okq(1), of True]
    by (auto simp: write_file_def put_def node_at_def Dir_abs_path [OF okq] Base_abs_path [OF okq(2)]
        split: if_splits option.splits node.splits)
  have c1: "clear fs1 (q @ [c])" using fq fs1 by (simp add: clear_snoc all_folders_put)
  have len: "length (comps root) < length (q @ [c])" using qc \<open>cs \<noteq> []\<close> by (metis length_append length_greater_0_conv less_add_same_cancel1)
  then have rf: "all_folders fs1 (comps root)" using r(3) fs1 by (metis all_folders_put)
  have rd: "read_file fs1 full = Some b"
    using locate_clear [OF c1 ok, of True] fs1 cs(2) qc by (simp add: read_file_def node_at_def)
  from assms(2) consider "resolve_lexical root path = Inl (Inr full)"
    | parts f where "resolve_lexical root path = Inr (f, parts)" "resolve_loop fs f root parts = Inr full"
    by (auto simp: ResolvePath_def split: sum.splits prod.splits)
  then have "ResolvePath fs1 root path = Inr full"
  proof cases
    case 1
    then show ?thesis by (simp add: ResolvePath_def)
  next
    case 2
    from resolve_lexical_parts [OF 2(1) r(1,2)] have p: "list_all part_ok parts"
      "f = abs_path (comps root @ names_of parts)" "names_of parts \<noteq> [] \<longrightarrow> parts \<in> {names_of parts, [] # names_of parts}"
      by simp_all
    from 2(2) r(2) have "resolve_loop fs f (abs_path (comps root)) parts = Inr full" by simp
    from resolve_loop_clear [OF this r(3,4,1) p(1)] have "full = f" by simp
    then have "abs_path (comps root @ names_of parts) = abs_path (comps root @ cs)" using p(2) cs(2) by simp
    then have "comps root @ names_of parts = comps root @ cs"
      using comps_abs_path names_of_ok [OF p(1)] cs(1) r(1) by (metis list_all_append)
    then have n: "names_of parts = cs" by simp
    have "resolve_loop fs1 f (abs_path (comps root)) cs = Inr f"
      using resolve_loop_succeeds [of fs1 "comps root" cs f] c1 rf ok qc by simp
    moreover have "parts = cs \<or> parts = [] # cs" using p(3) n \<open>cs \<noteq> []\<close> by auto
    moreover note loops_skip_empty(2) [OF rf r(1) \<open>cs \<noteq> []\<close>, of f]
    ultimately have "resolve_loop fs1 f root parts = Inr f" using r(2) by auto
    with 2(1) \<open>full = f\<close> show ?thesis by (simp add: ResolvePath_def)
  qed
  with rd show ?thesis by simp
qed

text \<open>A file step is idempotent: run again after it reported a change, the same step finds its content in
  place, reports \<open>ok\<close> and changes nothing.\<close>

theorem doFile_idempotent:
  assumes "\<And>fs. h_fs H (h_set H fs w) = fs" "root_ok (h_fs H w) (x_fileRoot x)"
    and "doFile H x s w = (StChanged, d, w1)"
  shows "doFile H x s w1 = (StOK, Msg ''content matches'', w1)"
proof -
  from assms(3) obtain path where p: "ResolvePath (h_fs H w) (x_fileRoot x) (s_Path s) = Inr path" "s_Content s \<noteq> []"
    by (auto simp: doFile_def split: sum.splits if_splits)
  with assms(3) obtain fs1 where w: "write_file (h_fs H w) path (s_Content s) = Some fs1" "w1 = h_set H fs1 w"
    by (auto simp: doFile_def ensure_content_def split: option.splits if_splits)
  from write_resolved [OF assms(2) p(1) w(1)] p(2) w(2) assms(1) show ?thesis
    by (simp add: doFile_def ensure_content_def)
qed

section \<open>Runs\<close>

text \<open>The results of all the steps, executed one after the other whatever they report, and the states between.\<close>

fun step_trace :: "('w, 'z) host_scheme \<Rightarrow> executor \<Rightarrow> nat \<Rightarrow> pbTaskStep list \<Rightarrow> 'w \<Rightarrow> (step_result \<times> 'w) list" where
  "step_trace H x i [] w = []"
| "step_trace H x i (s # ss) w = (case Step H x (int i) s w of (sr, w1) \<Rightarrow> (sr, w1) # step_trace H x (Suc i) ss w1)"

definition fine :: "step_result \<Rightarrow> bool" where
  "fine sr \<longleftrightarrow> sr_State sr \<noteq> StFailed"

fun upto_failure :: "(step_result \<times> 'w) list \<Rightarrow> (step_result \<times> 'w) list" where
  "upto_failure [] = []"
| "upto_failure (p # ps) = p # (if fine (fst p) then upto_failure ps else [])"

lemma run_steps_trace:
  "\<forall>s \<in> set ss. s_Kind s \<noteq> ''reboot'' \<Longrightarrow>
     tres_Steps (fst (run_steps H x rn tr i ss acc m w)) = acc @ map fst (upto_failure (step_trace H x i ss w)) \<and>
     tres_State (fst (run_steps H x rn tr i ss acc m w)) =
       (if list_all (fine \<circ> fst) (step_trace H x i ss w) then ''succeeded'' else ''failed'') \<and>
     snd (run_steps H x rn tr i ss acc m w) = (m, last (w # map snd (upto_failure (step_trace H x i ss w))))"
proof (induction ss arbitrary: i acc w)
  case (Cons s ss)
  obtain sr w1 where sr: "Step H x (int i) s w = (sr, w1)" by (cases "Step H x (int i) s w")
  with Cons.IH [of "Suc i" "acc @ [sr]" w1] Cons.prems show ?case
    by (simp add: fine_def)
qed simp

text \<open>A task run is its steps in order up to the first that fails: the results are those of the steps
  executed one after the other, cut after the first failure; the run succeeds just when none fails; and
  what is left behind is what the executed steps left.\<close>

theorem Run_stops_at_failure:
  assumes "\<forall>s \<in> set (tr_Steps tr). s_Kind s \<noteq> ''reboot''"
  shows "tres_Steps (fst (Runner_Run H x rn tr m w)) = map fst (upto_failure (step_trace H x 0 (tr_Steps tr) w)) \<and>
    tres_State (fst (Runner_Run H x rn tr m w)) =
      (if list_all (fine \<circ> fst) (step_trace H x 0 (tr_Steps tr) w) then ''succeeded'' else ''failed'') \<and>
    snd (Runner_Run H x rn tr m w) = (m, last (w # map snd (upto_failure (step_trace H x 0 (tr_Steps tr) w))))"
  using run_steps_trace [OF assms(1), of H x rn tr 0 "[]" m w] by (simp add: Runner_Run_def)

text \<open>A reboot step ignores its guard: whatever its \<open>when\<close> expression, false or not even an
  expression, the run is the same, so a host is rebooted by a step whose guard excludes it.\<close>

theorem reboot_ignores_guard:
  "run_steps H x rn tr i (s\<lparr>s_Kind := ''reboot'', s_When := e\<rparr> # ss) acc m w =
   run_steps H x rn tr i (s\<lparr>s_Kind := ''reboot''\<rparr> # ss) acc m w"
proof -
  have "reboot_result i (s\<lparr>s_Kind := ''reboot'', s_When := e\<rparr>) = reboot_result i (s\<lparr>s_Kind := ''reboot''\<rparr>)"
    by (intro ext) (simp add: reboot_result_def reboot_name_def)
  then have "runReboot H x rn tr i acc (s\<lparr>s_Kind := ''reboot'', s_When := e\<rparr>) m w =
      runReboot H x rn tr i acc (s\<lparr>s_Kind := ''reboot''\<rparr>) m w"
    by (simp only: runReboot_def)
  then show ?thesis by simp
qed

lemma guard_false_skips:
  "guard_result H x s w = Inr False \<Longrightarrow> Step H x i s w = (mk_result i s StSkipped (Msg ''when guard false''), w)"
  by (simp add: Step_def)

lemma renderSecrets_clean:
  "renderSecrets x s = Inr s1 \<Longrightarrow> x_secrets x \<noteq> None \<Longrightarrow> \<forall>v \<in> set (step_values s1). \<not> stuck_ref v"
  by (auto simp: renderSecrets_def needs_secrets_def list_ex_iff stuck_ref_def find_None_iff Let_def split: option.splits if_splits)

lemma step_values_render: "step_values (render_step sec s) = map (resolve_ref sec) (step_values s)"
  by (simp add: step_values_def render_step_def case_prod_beta)

lemma renderSecrets_missing:
  assumes "x_secrets x = Some sec" "v \<in> set (step_values s)" "stuck_ref v" "sec (ref_name v) = None"
  shows "\<exists>name. renderSecrets x s = Inl name"
proof -
  have "resolve_ref sec v = v" using assms(4) by (simp add: resolve_ref_def)
  then have "v \<in> set (step_values (render_step sec s))" using assms(2) by (force simp: step_values_render)
  then have "find stuck_ref (step_values (render_step sec s)) \<noteq> None" using assms(3) by (auto simp: find_None_iff)
  moreover have "needs_secrets s" using assms(2,3) by (auto simp: needs_secrets_def list_ex_iff stuck_ref_def)
  ultimately show ?thesis using assms(1) by (auto simp: renderSecrets_def Let_def)
qed

text \<open>C19: Secrets fail closed: with a secret cache, a step that refers to a secret the cache does not have
  ends as failed (or was skipped by its guard) and nothing is executed; and whatever step is executed has no
  reference left in its arguments, environment, variables, content, template or command.\<close>

theorem secrets_fail_closed:
  assumes "x_secrets x = Some sec"
  shows "((\<exists>v \<in> set (step_values s). stuck_ref v \<and> sec (ref_name v) = None) \<longrightarrow>
      snd (Step H x i s w) = w \<and> sr_State (fst (Step H x i s w)) \<in> {StFailed, StSkipped}) \<and>
    (\<forall>s1. renderSecrets x s = Inr s1 \<longrightarrow> (\<forall>v \<in> set (step_values s1). \<not> stuck_ref v))"
proof -
  have "snd (Step H x i s w) = w \<and> sr_State (fst (Step H x i s w)) \<in> {StFailed, StSkipped}"
    if "v \<in> set (step_values s)" "stuck_ref v" "sec (ref_name v) = None" for v
    using renderSecrets_missing [OF assms that] by (auto simp: Step_def mk_result_def split: sum.split bool.split)
  moreover have "\<forall>v \<in> set (step_values s1). \<not> stuck_ref v" if "renderSecrets x s = Inr s1" for s1
    using renderSecrets_clean [OF that] assms by simp
  ultimately show ?thesis by blast
qed


section \<open>Reboots and resumption\<close>

lemma run_steps_prefix:
  "\<forall>s \<in> set pre. s_Kind s \<noteq> ''reboot'' \<Longrightarrow> list_all (fine \<circ> fst) (step_trace H x i pre w) \<Longrightarrow>
     run_steps H x rn tr i (pre @ ss) acc m w =
       run_steps H x rn tr (i + length pre) ss (acc @ map fst (step_trace H x i pre w)) m
         (last (w # map snd (step_trace H x i pre w)))"
proof (induction pre arbitrary: i acc w)
  case (Cons s pre)
  obtain sr w1 where sr: "Step H x (int i) s w = (sr, w1)" by (cases "Step H x (int i) s w")
  with Cons.IH [of "Suc i" w1 "acc @ [sr]"] Cons.prems show ?case by (simp add: fine_def)
qed simp

lemma Step_index: "Step H x i s w = ((fst (Step H x j s w))\<lparr>sr_Index := i\<rparr>, snd (Step H x j s w))"
  by (simp add: Step_def mk_result_def case_prod_beta split: sum.split bool.split)

lemma reindex_trace:
  "map (\<lambda>(j, r). r\<lparr>sr_Index := int (k + j)\<rparr>)
     (zip [i..<i + length (upto_failure (step_trace H x i ss w))] (map fst (upto_failure (step_trace H x i ss w)))) =
   map fst (upto_failure (step_trace H x (k + i) ss w))"
proof (induction ss arbitrary: i w)
  case (Cons s ss)
  obtain sr w1 where sr: "Step H x (int i) s w = (sr, w1)" by (cases "Step H x (int i) s w")
  then have sk: "Step H x (int (k + i)) s w = (sr\<lparr>sr_Index := int (k + i)\<rparr>, w1)"
    using Step_index [of H x "int (k + i)" s w "int i"] by simp
  show ?case
  proof (cases "fine sr")
    case True
    then have "fine (sr\<lparr>sr_Index := int (k + i)\<rparr>)" by (simp add: fine_def)
    with True sr sk Cons.IH [of "Suc i" w1] show ?thesis by (simp add: upt_conv_Cons del: upt_Suc of_nat_add)
  next
    case False
    then have "\<not> fine (sr\<lparr>sr_Index := int (k + i)\<rparr>)" by (simp add: fine_def)
    with False sr sk show ?thesis by (simp del: of_nat_add)
  qed
qed simp

lemma reindexed_trace:
  "reindexed mk (map fst (upto_failure (step_trace H x 0 ss w))) =
   map fst (upto_failure (step_trace H x (Suc (m_StartIdx mk)) ss w))"
  using reindex_trace [of "Suc (m_StartIdx mk)" 0 H x ss w] by (simp add: reindexed_def)

lemma marker_put_in: "(k, v) \<in> set (marker_put k v ms)"
  by (induction ms) auto

lemma deleted_gone: "safeID i \<Longrightarrow> e \<in> set (Delete_marker i ms) \<Longrightarrow> fst e \<noteq> i"
  by (simp add: Delete_marker_def)

definition may_resume ::
  "('w, 'z) host_scheme \<Rightarrow> regex \<Rightarrow> (string \<Rightarrow> string \<Rightarrow> string \<Rightarrow> bool) \<Rightarrow> Guard \<Rightarrow> marker \<Rightarrow> 'w \<Rightarrow> bool" where
  "may_resume H rx verify g mk w \<longleftrightarrow> loaded g \<and> fst (RecheckTask rx verify g (resumed_run mk)) \<and>
     (case h_boot H w of None \<Rightarrow> False | Some age \<Rightarrow> age < h_now H w - m_CreatedAt mk * second)"

lemma resumeOne_runs:
  "may_resume H rx verify g mk w \<Longrightarrow> resumeOne H x rx verify g mk (store, w, reps) = resume_run H x mk (store, w, reps)"
  by (auto simp: may_resume_def resumeOne_def split: option.splits prod.splits bool.splits)

text \<open>C20: Nothing is resumed without permission: if processing a marker changes the host at all, then the
  host has booted since the marker was written, a policy bundle is loaded, and the re-check of the
  remaining steps under the run's signed decision allows them.\<close>

theorem resume_needs_permission:
  assumes "resumeOne H x rx verify g mk (store, w, reps) = (store1, w1, reps1)" "w1 \<noteq> w"
  shows "may_resume H rx verify g mk w"
  using assms by (auto simp: resumeOne_def failMarker_def may_resume_def split: option.splits if_splits prod.splits bool.splits)

lemma resume_reports:
  assumes "may_resume H rx verify g mk w2" "\<forall>s \<in> set (m_Steps mk). s_Kind s \<noteq> ''reboot''"
    and "\<And>w'. h_ctx H w' = None" "m_Kind mk = ''task''"
  shows "snd (snd (resumeOne H x rx verify g mk (store, w2, []))) =
    [TaskRunReport (m_RunID mk)
       (if list_all (fine \<circ> fst) (step_trace H x 0 (m_Steps mk) w2) then ''succeeded'' else ''failed'')
       (tres_Error (fst (Runner_Run H x (resumed_runner H mk) (resumed_run mk) store w2)))
       (m_DoneSteps mk @ map fst (upto_failure (step_trace H x (Suc (m_StartIdx mk)) (m_Steps mk) w2)))]"
proof -
  have st: "tr_Steps (resumed_run mk) = m_Steps mk" by (simp add: resumed_run_def)
  obtain res2 st2 w3 where run2: "Runner_Run H x (resumed_runner H mk) (resumed_run mk) store w2 = (res2, st2, w3)"
    by (cases "Runner_Run H x (resumed_runner H mk) (resumed_run mk) store w2")
  from run_steps_trace [OF assms(2), of H x "resumed_runner H mk" "resumed_run mk" 0 "[]" store w2] run2 st
  have "tres_Steps res2 = map fst (upto_failure (step_trace H x 0 (m_Steps mk) w2))"
     "tres_State res2 = (if list_all (fine \<circ> fst) (step_trace H x 0 (m_Steps mk) w2) then ''succeeded'' else ''failed'')"
    by (simp_all add: Runner_Run_def)
  then show ?thesis
    using run2 assms(3,4) reindexed_trace [of mk H x "m_Steps mk" w2]
    by (simp add: resumeOne_runs [OF assms(1)] resume_run_def resume_report_def)
qed



text \<open>A chained reboot loses the rest of its run: when the steps left by a marker begin with another
  reboot step, processing the marker reboots the host again and reports \<open>rebooting\<close>, but the new marker
  for the steps that still follow is deleted with the old one, so that nothing will continue the run.\<close>

theorem chained_reboot_lost:
  assumes "may_resume H rx verify g mk w" "m_Steps mk = s # ss" "s_Kind s = ''reboot''" "m_Kind mk = ''task''"
    and "safeID (m_RunID mk)" "h_io H w = None" "h_ctx H w1 = None" "DoReboot H x w = ((StChanged, d), w1)"
  shows "\<exists>ms1 steps. resumeOne H x rx verify g mk (Some ms, w, reps) =
       (Some ms1, w1, reps @ [TaskRunReport (m_RunID mk) ''rebooting'' (Note d) steps]) \<and>
     (\<forall>e \<in> set ms1. fst e \<noteq> m_RunID mk)"
proof -
  have "tres_State (fst (Runner_Run H x (resumed_runner H mk) (resumed_run mk) (Some ms) w)) = ''rebooting'' \<and>
      tres_Error (fst (Runner_Run H x (resumed_runner H mk) (resumed_run mk) (Some ms) w)) = Note d \<and>
      snd (snd (Runner_Run H x (resumed_runner H mk) (resumed_run mk) (Some ms) w)) = w1 \<and>
      (\<exists>ms1. fst (snd (Runner_Run H x (resumed_runner H mk) (resumed_run mk) (Some ms) w)) = Some ms1)"
    using assms(2-8) by (simp add: Runner_Run_def resumed_run_def runReboot_def resumed_runner_def rebootHook_def
        Save_marker_def marker_of_def)
  then obtain res ms1 where r: "Runner_Run H x (resumed_runner H mk) (resumed_run mk) (Some ms) w = (res, Some ms1, w1)"
    "tres_State res = ''rebooting''" "tres_Error res = Note d"
    by (cases "Runner_Run H x (resumed_runner H mk) (resumed_run mk) (Some ms) w") auto
  then show ?thesis
    using assms(4,5,7) deleted_gone [OF assms(5)]
    by (auto simp: resumeOne_runs [OF assms(1)] resume_run_def resume_report_def)
qed


section \<open>Instances\<close>

text \<open>A host whose commands all succeed and are counted; it has been up for five nanoseconds.\<close>

definition counting_host :: "(filesys \<times> nat) host" where
  "counting_host = \<lparr>h_fs = fst, h_set = (\<lambda>fs w. (fs, snd w)), h_run = (\<lambda>c env w. ((None, []), (fst w, Suc (snd w)))),
     h_render = (\<lambda>facts vars t. Inr t), h_now = (\<lambda>w. 10 * second), h_boot = (\<lambda>w. Some 5), h_ctx = (\<lambda>w. None),
     h_io = (\<lambda>w. None)\<rparr>"

definition plain_exec :: executor where
  "plain_exec = \<lparr>x_facts = Map.empty, x_fileRoot = ''/srv'', x_runner = \<lparr>pr_Mode = ModeNone, pr_policy = None\<rparr>,
     x_secrets = Some (\<lambda>n. if n = ''db'' then Some ''pw'' else None), x_flush = False\<rparr>"

definition write_step :: pbTaskStep where
  "write_step = cmd_step\<lparr>s_Kind := ''file'', s_Path := ''a'', s_Content := ''new''\<rparr>"

definition reboot_step :: pbTaskStep where
  "reboot_step = cmd_step\<lparr>s_Kind := ''reboot''\<rparr>"

definition reboot_run :: pbTaskRun where
  "reboot_run = \<lparr>tr_RunId = ''r1'', tr_TaskId = ''t'', tr_TaskVersion = 1, tr_Steps = [cmd_step, reboot_step, cmd_step],
     tr_Decision = Some allow_dec\<rparr>"

definition agent_runner :: "(filesys \<times> nat, marker_files option) runner" where
  "agent_runner = \<lparr>rn_JobID = [], rn_JobTrigger = [], rn_MaxRunS = 0, rn_hook = Some (rebootHook counting_host),
     rn_abort = Some rebootAbort\<rparr>"

definition chained_marker :: marker where
  "chained_marker = \<lparr>m_RunID = ''r1'', m_Kind = ''task'', m_JobID = [], m_TaskID = ''t'', m_TaskVersion = 1, m_StartIdx = 0,
     m_Steps = [reboot_step, cmd_step], m_DoneSteps = [], m_MaxRunS = 0, m_Decision = Some allow_dec, m_CreatedAt = 0\<rparr>"

theorem doFile_idempotent_witness:
  "doFile counting_host plain_exec write_step (host_sample([''srv'', ''a''] \<mapsto> Reg ''new'' 420), 0) =
     (StOK, Msg ''content matches'', (host_sample([''srv'', ''a''] \<mapsto> Reg ''new'' 420), 0))"
proof (rule doFile_idempotent [where w = "(host_sample, 0)" and d = "Wrote 3"])
  have "ResolvePath host_sample ''/srv'' ''a'' = Inr ''/srv/a''" "read_file host_sample ''/srv/a'' \<noteq> Some ''new''" by code_simp+
  moreover have "write_file host_sample ''/srv/a'' ''new'' = Some (host_sample([''srv'', ''a''] \<mapsto> Reg ''new'' 420))"
  proof -
    have "locate host_sample True ''/srv/a'' = Inr [''srv'', ''a'']" by code_simp
    then show ?thesis by (simp add: write_file_def node_at_def host_sample_def put_def)
  qed
  ultimately show "doFile counting_host plain_exec write_step (host_sample, 0) =
      (StChanged, Wrote 3, host_sample([''srv'', ''a''] \<mapsto> Reg ''new'' 420), 0)"
    by (simp add: doFile_def ensure_content_def counting_host_def plain_exec_def write_step_def)
qed (simp_all add: counting_host_def plain_exec_def host_sample_root)

theorem Run_stops_at_failure_witness:
  "map sr_State (tres_Steps (fst (Runner_Run counting_host plain_exec agent_runner
     (reboot_run\<lparr>tr_Steps := [cmd_step, cmd_step\<lparr>s_Command := []\<rparr>, cmd_step]\<rparr>) None (Map.empty, 0)))) = [StOK, StFailed]"
proof -
  have "map sr_State (map fst (upto_failure (step_trace counting_host plain_exec 0
     [cmd_step, cmd_step\<lparr>s_Command := []\<rparr>, cmd_step] (Map.empty, 0)))) = [StOK, StFailed]" by code_simp
  then show ?thesis
    using Run_stops_at_failure [of "reboot_run\<lparr>tr_Steps := [cmd_step, cmd_step\<lparr>s_Command := []\<rparr>, cmd_step]\<rparr>" counting_host
        plain_exec agent_runner None "(Map.empty, 0)"]
    by (simp add: cmd_step_def)
qed

theorem secrets_fail_closed_witness:
  "sr_State (fst (Step counting_host plain_exec 0 (cmd_step\<lparr>s_Args := [''secret:api'']\<rparr>) (host_sample, 0))) \<in> {StFailed, StSkipped}"
proof -
  have "stuck_ref ''secret:api'' \<and> ref_name ''secret:api'' = ''api''" by code_simp
  then show ?thesis
    using secrets_fail_closed [of plain_exec "\<lambda>n. if n = ''db'' then Some ''pw'' else None"
        "cmd_step\<lparr>s_Args := [''secret:api'']\<rparr>" counting_host 0 "(host_sample, 0)"]
    by (simp add: plain_exec_def step_values_def)
qed

lemma chained_may_resume: "may_resume counting_host (\<lambda>_. None) (\<lambda>_ _ _. True) (guard2 []) chained_marker (host_sample, n)"
proof -
  have "fst (RecheckTask (\<lambda>_. None) (\<lambda>_ _ _. True) (guard2 []) (resumed_run chained_marker))" by code_simp
  then show ?thesis by (simp add: may_resume_def counting_host_def chained_marker_def second_def guard2_def)
qed

theorem chained_reboot_lost_witness:
  "\<exists>ms1 steps. resumeOne counting_host plain_exec (\<lambda>_. None) (\<lambda>_ _ _. True) (guard2 []) chained_marker (Some [], (host_sample, 0), []) =
       (Some ms1, (host_sample, Suc 0), [] @ [TaskRunReport (m_RunID chained_marker) ''rebooting''
          (Note (Msg ''reboot initiated; resuming after boot'')) steps]) \<and>
     (\<forall>e \<in> set ms1. fst e \<noteq> m_RunID chained_marker)"
proof (rule chained_reboot_lost [OF chained_may_resume])
  show "m_Steps chained_marker = reboot_step # [cmd_step]" "s_Kind reboot_step = ''reboot''" "m_Kind chained_marker = ''task''"
    "h_io counting_host (host_sample, 0) = None" "h_ctx counting_host (host_sample, Suc 0) = None"
    by (simp_all add: chained_marker_def reboot_step_def counting_host_def)
  show "safeID (m_RunID chained_marker)" by code_simp
  show "DoReboot counting_host plain_exec (host_sample, 0) =
      ((StChanged, Msg ''reboot initiated; resuming after boot''), (host_sample, Suc 0))"
    by (simp add: DoReboot_def reboot_commands_def run_wrapped_def counting_host_def plain_exec_def)
qed

theorem resume_needs_permission_witness:
  "may_resume counting_host (\<lambda>_. None) (\<lambda>_ _ _. True) (guard2 []) (chained_marker\<lparr>m_Steps := [cmd_step]\<rparr>) (Map.empty, 0)"
proof -
  have "snd (fst (snd (resumeOne counting_host plain_exec (\<lambda>_. None) (\<lambda>_ _ _. True) (guard2 [])
      (chained_marker\<lparr>m_Steps := [cmd_step]\<rparr>) (Some [], (Map.empty, 0), [])))) = 1" by code_simp
  then show ?thesis
    using resume_needs_permission [of counting_host plain_exec "\<lambda>_. None" "\<lambda>_ _ _. True" "guard2 []"
        "chained_marker\<lparr>m_Steps := [cmd_step]\<rparr>" "Some []" "(Map.empty, 0)" "[]"]
    by (cases "resumeOne counting_host plain_exec (\<lambda>_. None) (\<lambda>_ _ _. True) (guard2 [])
      (chained_marker\<lparr>m_Steps := [cmd_step]\<rparr>) (Some [], (Map.empty, 0), [])") auto
qed



section \<open>Assertions\<close>

text \<open>An assertion about files never sees the host: the evaluator it builds has no file predicate.\<close>

definition passwd_exists :: string where
  "passwd_exists = ''file.exists('' @ [CHR 0x22] @ ''/etc/passwd'' @ [CHR 0x22] @ '')''"

lemma file_assertion_false: "eval_guard f (\<lambda>_. False) passwd_exists = Inr False"
  by code_simp

lemma file_assertions_fail:
  "doAssert x (s\<lparr>s_Expr := passwd_exists\<rparr>) w = (StFailed, Msg (''assert false: '' @ passwd_exists), w)"
  using file_assertion_false [of "x_facts x"] by (simp add: doAssert_def passwd_exists_def)

end
