(* ===== verification/Jobs.thy ===== *)
theory Jobs
  imports TaskRunner "HOL-Library.AList"
begin

text \<open>
  The agent's job scheduler (\<open>src/internal/agent/jobs/jobs.go\<close>): assignments, their cron entries and
  their file on disk, and the runs in flight with the overlap and the retry policy.

  A run (\<open>fire\<close>) is split where other goroutines can come between: the section under the lock that
  registers it, the check and the run of the task, and the deferred reset of its run state.  Run
  states are cells with an address, because a run keeps a pointer to the one it started with.  The
  cron library is a table of entries and two parsers.  A retry that sleeps is in a list.
\<close>

section \<open>State\<close>

record assignment =
  as_JobID :: string
  as_Name :: string
  as_Cron :: string
  as_Timezone :: string
  as_TaskID :: string
  as_TaskVersion :: int
  as_Steps :: "pbTaskStep list"
  as_MaxRunS :: int
  as_OverlapPolicy :: string
  as_FailurePolicy :: string
  as_RetryBackoffS :: int
  as_SelectorSnapshot :: string
  as_Version :: int
  as_Decision :: "pbDecision option"

text \<open>\<open>runState\<close>: \<open>cancel\<close> is the run whose context it cancels.\<close>

record run_cell =
  rs_running :: bool
  rs_cancel :: "nat option"

record fire_state =
  fi_assign :: assignment
  fi_cell :: nat
  fi_sched :: int \<comment> \<open>nanoseconds\<close>
  fi_trigger :: string
  fi_retry :: nat
  fi_cancelled :: bool
  fi_reported :: bool

record scheduler =
  sc_assigns :: "(string \<times> assignment) list"
  sc_states :: "(string \<times> nat) list"
  sc_entries :: "(string \<times> nat) list"
  sc_cron :: "(nat \<times> string \<times> assignment) list" \<comment> \<open>the library's entries: id, spec, job\<close>
  sc_cells :: "run_cell list"
  sc_fires :: "(nat \<times> fire_state) list"
  sc_next :: nat \<comment> \<open>the next id of an entry or a run\<close>
  sc_retries :: "(assignment \<times> nat) list"
  sc_disk :: "assignment list option"
  sc_reports :: "job_report list"

definition New_scheduler :: "assignment list option \<Rightarrow> scheduler" where
  "New_scheduler disk = \<lparr>sc_assigns = [], sc_states = [], sc_entries = [], sc_cron = [], sc_cells = [], sc_fires = [],
     sc_next = 0, sc_retries = [], sc_disk = disk, sc_reports = []\<rparr>"

datatype jobs_error = BadCron string | AddEntry string | PersistFailed string | NoAssignment string

section \<open>Assignments\<close>

record cron_lib =
  cron_parses :: "string \<Rightarrow> bool"
  cron_adds :: "string \<Rightarrow> bool"

definition scheduleLocked :: "cron_lib \<Rightarrow> assignment \<Rightarrow> scheduler \<Rightarrow> jobs_error option \<times> scheduler" where
  "scheduleLocked cl a s =
     (if \<not> cron_parses cl (as_Cron a) then (Some (BadCron (as_Cron a)), s)
      else if \<not> cron_adds cl (as_Cron a) then (Some (AddEntry (as_Cron a)), s)
      else (None, s\<lparr>sc_cron := AList.update (sc_next s) (as_Cron a, a) (sc_cron s),
                    sc_entries := AList.update (as_JobID a) (sc_next s) (sc_entries s),
                    sc_next := Suc (sc_next s)\<rparr>))"

definition persistLocked :: "string option \<Rightarrow> scheduler \<Rightarrow> jobs_error option \<times> scheduler" where
  "persistLocked io s =
     (case io of
        Some err \<Rightarrow> (Some (PersistFailed err), s)
      | None \<Rightarrow> (None, s\<lparr>sc_disk := Some (map snd (sc_assigns s))\<rparr>))"

definition drop_entry :: "string \<Rightarrow> scheduler \<Rightarrow> scheduler" where
  "drop_entry j s =
     (case map_of (sc_entries s) j of
        None \<Rightarrow> s
      | Some old \<Rightarrow> s\<lparr>sc_cron := AList.delete old (sc_cron s), sc_entries := AList.delete j (sc_entries s)\<rparr>)"

definition Apply_assignment ::
  "cron_lib \<Rightarrow> string option \<Rightarrow> assignment \<Rightarrow> scheduler \<Rightarrow> jobs_error option \<times> scheduler" where
  "Apply_assignment cl io a s =
     (let s1 = drop_entry (as_JobID a) s;
          s2 = s1\<lparr>sc_assigns := AList.update (as_JobID a) a (sc_assigns s1)\<rparr>
      in case scheduleLocked cl a s2 of
           (Some err, s3) \<Rightarrow> (Some err, s3\<lparr>sc_assigns := AList.delete (as_JobID a) (sc_assigns s3)\<rparr>)
         | (None, s3) \<Rightarrow> persistLocked io s3)"

definition cancel_fire :: "nat \<Rightarrow> scheduler \<Rightarrow> scheduler" where
  "cancel_fire f s = s\<lparr>sc_fires := map (\<lambda>(i, r). (i, if i = f then r\<lparr>fi_cancelled := True\<rparr> else r)) (sc_fires s)\<rparr>"

definition cancel_cell :: "run_cell \<Rightarrow> scheduler \<Rightarrow> scheduler" where
  "cancel_cell rs s = (case rs_cancel rs of None \<Rightarrow> s | Some f \<Rightarrow> cancel_fire f s)"

definition Remove_assignment :: "string option \<Rightarrow> string \<Rightarrow> scheduler \<Rightarrow> scheduler" where
  "Remove_assignment io j s =
     (let s1 = drop_entry j s;
          s2 = s1\<lparr>sc_assigns := AList.delete j (sc_assigns s1)\<rparr>;
          s3 = (case map_of (sc_states s2) j of None \<Rightarrow> s2 | Some c \<Rightarrow> cancel_cell (sc_cells s2 ! c) s2)
      in snd (persistLocked io (s3\<lparr>sc_states := AList.delete j (sc_states s3)\<rparr>)))"

text \<open>\<open>Load\<close> at the start of a process; an entry whose cron expression is refused stays without one.\<close>

definition load_one :: "cron_lib \<Rightarrow> assignment \<Rightarrow> scheduler \<Rightarrow> scheduler" where
  "load_one cl a s = snd (scheduleLocked cl a (s\<lparr>sc_assigns := AList.update (as_JobID a) a (sc_assigns s)\<rparr>))"

definition Load_jobs :: "cron_lib \<Rightarrow> scheduler \<Rightarrow> scheduler" where
  "Load_jobs cl s = (case sc_disk s of None \<Rightarrow> s | Some list \<Rightarrow> fold (load_one cl) list s)"

definition restart :: "cron_lib \<Rightarrow> scheduler \<Rightarrow> scheduler" where
  "restart cl s = Load_jobs cl (New_scheduler (sc_disk s))"

section \<open>Runs\<close>

definition add_report :: "job_report \<Rightarrow> scheduler \<Rightarrow> scheduler" where
  "add_report r s = s\<lparr>sc_reports := sc_reports s @ [r]\<rparr>"

definition cell_of :: "string \<Rightarrow> scheduler \<Rightarrow> nat \<times> scheduler" where
  "cell_of j s =
     (case map_of (sc_states s) j of
        Some c \<Rightarrow> (c, s)
      | None \<Rightarrow> (length (sc_cells s), s\<lparr>sc_cells := sc_cells s @ [\<lparr>rs_running = False, rs_cancel = None\<rparr>],
                   sc_states := AList.update j (length (sc_cells s)) (sc_states s)\<rparr>))"

text \<open>The section of \<open>fire\<close> under the lock; a skipped run is only reported.\<close>

definition fire_begin :: "assignment \<Rightarrow> int \<Rightarrow> string \<Rightarrow> nat \<Rightarrow> scheduler \<Rightarrow> scheduler" where
  "fire_begin a at trigger retry s =
     (case cell_of (as_JobID a) s of
        (c, s1) \<Rightarrow>
          let rs = sc_cells s1 ! c in
          if as_OverlapPolicy a = ''skip'' \<and> rs_running rs then
            add_report \<lparr>jr_RunID = [], jr_JobID = as_JobID a, jr_State = ''skipped'', jr_Error = NoErr,
              jr_ScheduledAt = at div second, jr_Trigger = trigger, jr_RetryOf = retry\<rparr> s1
          else
            let s2 = (if as_OverlapPolicy a = ''replace'' \<and> rs_running rs then cancel_cell rs s1 else s1);
                f = sc_next s2
            in s2\<lparr>sc_cells := (sc_cells s2)[c := \<lparr>rs_running = True, rs_cancel = Some f\<rparr>],
                  sc_fires := (f, \<lparr>fi_assign = a, fi_cell = c, fi_sched = at, fi_trigger = trigger, fi_retry = retry,
                     fi_cancelled = False, fi_reported = False\<rparr>) # sc_fires s2,
                  sc_next := Suc f\<rparr>)"

text \<open>\<open>%d\<close> of the time is a function of the library's formatting.\<close>

definition job_run_id :: "(int \<Rightarrow> string) \<Rightarrow> fire_state \<Rightarrow> string" where
  "job_run_id decimal r = ''jr_'' @ as_JobID (fi_assign r) @ ''_'' @ decimal (fi_sched r)"

definition fire_task :: "(int \<Rightarrow> string) \<Rightarrow> fire_state \<Rightarrow> pbTaskRun" where
  "fire_task decimal r = \<lparr>tr_RunId = job_run_id decimal r, tr_TaskId = as_TaskID (fi_assign r),
     tr_TaskVersion = as_TaskVersion (fi_assign r), tr_Steps = as_Steps (fi_assign r),
     tr_Decision = as_Decision (fi_assign r)\<rparr>"

definition fire_report :: "(int \<Rightarrow> string) \<Rightarrow> fire_state \<Rightarrow> string \<Rightarrow> run_error \<Rightarrow> job_report" where
  "fire_report decimal r st err = \<lparr>jr_RunID = job_run_id decimal r, jr_JobID = as_JobID (fi_assign r), jr_State = st,
     jr_Error = err, jr_ScheduledAt = fi_sched r div second, jr_Trigger = fi_trigger r, jr_RetryOf = fi_retry r\<rparr>"

text \<open>The policy check of \<open>fire\<close>: the reason of a denial, if it is denied.\<close>

definition fire_denied ::
  "regex \<Rightarrow> (string \<Rightarrow> string \<Rightarrow> string \<Rightarrow> bool) \<Rightarrow> Guard option \<Rightarrow> pbTaskRun \<Rightarrow> string option" where
  "fire_denied rx verify guard tr =
     (if tr_Decision tr = None then Some ''no signed policy decision in assignment (re-save the job)''
      else (case guard of
              None \<Rightarrow> Some ''no policy guardrail available to verify decision''
            | Some g \<Rightarrow> (case RecheckTask rx verify g tr of (True, reason) \<Rightarrow> None | (False, reason) \<Rightarrow> Some reason)))"

text \<open>A cancelled run sees its context as cancelled.\<close>

definition fire_host :: "('w, 'z) host_scheme \<Rightarrow> fire_state \<Rightarrow> ('w, 'z) host_scheme" where
  "fire_host H r = (if fi_cancelled r then H\<lparr>h_ctx := (\<lambda>w. Some ''context canceled'')\<rparr> else H)"

definition fire_runner :: "('w, 'm) runner \<Rightarrow> fire_state \<Rightarrow> ('w, 'm) runner" where
  "fire_runner hooks r = hooks\<lparr>rn_JobID := as_JobID (fi_assign r), rn_JobTrigger := fi_trigger r,
     rn_MaxRunS := as_MaxRunS (fi_assign r)\<rparr>"

definition wants_retry :: "fire_state \<Rightarrow> string \<Rightarrow> bool" where
  "wants_retry r st \<longleftrightarrow> st = ''failed'' \<and> as_FailurePolicy (fi_assign r) = ''retry'' \<and>
     as_RetryBackoffS (fi_assign r) > 0 \<and> fi_retry r < 3"

definition job_outcome :: "('w, 'z) host_scheme \<Rightarrow> 'w \<Rightarrow> run_result \<Rightarrow> string \<times> run_error" where
  "job_outcome H w res =
     (if h_ctx H w = Some ''context deadline exceeded'' \<and> tres_State res \<noteq> ''succeeded'' then
        (''timeout'', if tres_Error res = NoErr then Reason ''job run exceeded max_run_s'' else tres_Error res)
      else (tres_State res, tres_Error res))"

text \<open>The check and the run.\<close>

definition mark_reported :: "nat \<Rightarrow> scheduler \<Rightarrow> scheduler" where
  "mark_reported f s = s\<lparr>sc_fires := map (\<lambda>(i, r). (i, if i = f then r\<lparr>fi_reported := True\<rparr> else r)) (sc_fires s)\<rparr>"

definition fire_run ::
  "('w, 'z) host_scheme \<Rightarrow> executor \<Rightarrow> ('w, 'm) runner \<Rightarrow> (int \<Rightarrow> string) \<Rightarrow> regex \<Rightarrow>
   (string \<Rightarrow> string \<Rightarrow> string \<Rightarrow> bool) \<Rightarrow> Guard option \<Rightarrow> nat \<Rightarrow> scheduler \<times> 'm \<times> 'w \<Rightarrow> scheduler \<times> 'm \<times> 'w" where
  "fire_run H x hooks decimal rx verify guard f = (\<lambda>(s, m, w).
     (case map_of (sc_fires s) f of
        None \<Rightarrow> (s, m, w)
      | Some r \<Rightarrow>
          if fi_reported r then (s, m, w)
          else
            (case fire_denied rx verify guard (fire_task decimal r) of
               Some reason \<Rightarrow> (mark_reported f (add_report (fire_report decimal r ''denied'' (Reason reason)) s), m, w)
             | None \<Rightarrow>
                 (case Runner_Run (fire_host H r) x (fire_runner hooks r) (fire_task decimal r) m w of
                    (res, m1, w1) \<Rightarrow>
                      (case job_outcome (fire_host H r) w1 res of
                         (st, err) \<Rightarrow>
                           let s1 = mark_reported f (add_report (fire_report decimal r st err) s)
                           in (if wants_retry r st then s1\<lparr>sc_retries := sc_retries s1 @ [(fi_assign r, Suc (fi_retry r))]\<rparr> else s1,
                               m1, w1))))))"

text \<open>The deferred reset, through the pointer the run holds.\<close>

definition fire_end :: "nat \<Rightarrow> scheduler \<Rightarrow> scheduler" where
  "fire_end f s =
     (case map_of (sc_fires s) f of
        None \<Rightarrow> s
      | Some r \<Rightarrow>
          if \<not> fi_reported r then s
          else s\<lparr>sc_cells := (sc_cells s)[fi_cell r := \<lparr>rs_running = False, rs_cancel = None\<rparr>],
                 sc_fires := AList.delete f (sc_fires s)\<rparr>)"

definition RunNow :: "string \<Rightarrow> int \<Rightarrow> scheduler \<Rightarrow> jobs_error option \<times> scheduler" where
  "RunNow j now s =
     (case map_of (sc_assigns s) j of
        None \<Rightarrow> (Some (NoAssignment j), s)
      | Some a \<Rightarrow> (None, fire_begin a now ''manual'' 0 s))"

text \<open>The sleeping retry at position \<open>k\<close> wakes up; the cron loop reaches the entry \<open>e\<close>.\<close>

definition retry_wakes :: "nat \<Rightarrow> int \<Rightarrow> scheduler \<Rightarrow> scheduler" where
  "retry_wakes k now s =
     (if k < length (sc_retries s) then
        (case sc_retries s ! k of
           (a, n) \<Rightarrow> fire_begin a now ''cron'' n (s\<lparr>sc_retries := take k (sc_retries s) @ drop (Suc k) (sc_retries s)\<rparr>))
      else s)"

definition cron_fires :: "nat \<Rightarrow> int \<Rightarrow> scheduler \<Rightarrow> scheduler" where
  "cron_fires e now s =
     (case map_of (sc_cron s) e of None \<Rightarrow> s | Some (spec, a) \<Rightarrow> fire_begin a now ''cron'' 0 s)"


section \<open>Steps and reachable states\<close>

text \<open>
  What can happen to the scheduler of one process: an assignment or its removal arrives, a run is asked
  for, a cron entry or a sleeping retry fires, a run is checked and executed, or it returns.
  \<open>pol\<close> is the set of overlap policies of the assignments that arrive.
\<close>

record ('w, 'm) job_env =
  je_host :: "'w host"
  je_exec :: executor
  je_hooks :: "('w, 'm) runner"
  je_decimal :: "int \<Rightarrow> string"
  je_rx :: regex
  je_verify :: "string \<Rightarrow> string \<Rightarrow> string \<Rightarrow> bool"
  je_cron :: cron_lib

definition exec_fire :: "('w, 'm) job_env \<Rightarrow> Guard option \<Rightarrow> nat \<Rightarrow> scheduler \<times> 'm \<times> 'w \<Rightarrow> scheduler \<times> 'm \<times> 'w" where
  "exec_fire E guard f st = fire_run (je_host E) (je_exec E) (je_hooks E) (je_decimal E) (je_rx E) (je_verify E) guard f st"

inductive sched_reach :: "('w, 'm) job_env \<Rightarrow> string set \<Rightarrow> scheduler \<times> 'm \<times> 'w \<Rightarrow> bool" for E pol where
  start: "sched_reach E pol (New_scheduler None, m, w)"
| assign: "sched_reach E pol (s, m, w) \<Longrightarrow> as_OverlapPolicy a \<in> pol \<Longrightarrow>
    sched_reach E pol (snd (Apply_assignment (je_cron E) io a s), m, w)"
| unassign: "sched_reach E pol (s, m, w) \<Longrightarrow> sched_reach E pol (Remove_assignment io j s, m, w)"
| now: "sched_reach E pol (s, m, w) \<Longrightarrow> sched_reach E pol (snd (RunNow j t s), m, w)"
| clock: "sched_reach E pol (s, m, w) \<Longrightarrow> sched_reach E pol (cron_fires e t s, m, w)"
| wake: "sched_reach E pol (s, m, w) \<Longrightarrow> sched_reach E pol (retry_wakes k t s, m, w)"
| runs: "sched_reach E pol st \<Longrightarrow> sched_reach E pol (exec_fire E guard f st)"
| returns: "sched_reach E pol (s, m, w) \<Longrightarrow> sched_reach E pol (fire_end f s, m, w)"

text \<open>
  An invariant that every step keeps follows for the reachable states from the two operations that
  start runs and the four that do not.
\<close>

definition all_known :: "(assignment \<Rightarrow> bool) \<Rightarrow> scheduler \<Rightarrow> bool" where
  "all_known P s \<longleftrightarrow> (\<forall>(j, a) \<in> set (sc_assigns s). P a) \<and> (\<forall>(e, sp, a) \<in> set (sc_cron s). P a) \<and>
     (\<forall>(a, n) \<in> set (sc_retries s). P a) \<and> (\<forall>(i, r) \<in> set (sc_fires s). P (fi_assign r))"

definition retry_bound :: "scheduler \<Rightarrow> bool" where
  "retry_bound s \<longleftrightarrow> (\<forall>(a, n) \<in> set (sc_retries s). n \<le> 3) \<and> (\<forall>(i, r) \<in> set (sc_fires s). fi_retry r \<le> 3) \<and>
     (\<forall>r \<in> set (sc_reports s). jr_RetryOf r \<le> 3)"

definition runs_ok :: "scheduler \<Rightarrow> bool" where
  "runs_ok s \<longleftrightarrow> distinct (map fst (sc_fires s)) \<and> (\<forall>(i, r) \<in> set (sc_fires s). i < sc_next s \<and> fi_cell r < length (sc_cells s)) \<and>
     (\<forall>(j, c) \<in> set (sc_states s). c < length (sc_cells s))"

text \<open>Under the policy \<open>skip\<close>: a run in flight owns its cell, and unless cancelled is in the cell of its job.\<close>

definition skip_owned :: "scheduler \<Rightarrow> bool" where
  "skip_owned s \<longleftrightarrow> (\<forall>(i, r) \<in> set (sc_fires s).
     sc_cells s ! fi_cell r = \<lparr>rs_running = True, rs_cancel = Some i\<rparr> \<and>
     (\<not> fi_cancelled r \<longrightarrow> map_of (sc_states s) (as_JobID (fi_assign r)) = Some (fi_cell r)))"


section \<open>What the operations leave alone\<close>

lemma in_update: "e \<in> set (AList.update k v al) \<Longrightarrow> e = (k, v) \<or> e \<in> set al"
  by (induction al) (auto split: if_splits)

lemma in_delete: "e \<in> set (AList.delete k al) \<Longrightarrow> e \<in> set al \<and> fst e \<noteq> k"
  by (auto simp: AList.delete_eq)

lemma drop_entry_frame [simp]:
  "sc_assigns (drop_entry j s) = sc_assigns s" "sc_states (drop_entry j s) = sc_states s"
  "sc_cells (drop_entry j s) = sc_cells s" "sc_fires (drop_entry j s) = sc_fires s" "sc_next (drop_entry j s) = sc_next s"
  "sc_retries (drop_entry j s) = sc_retries s" "sc_disk (drop_entry j s) = sc_disk s"
  "sc_reports (drop_entry j s) = sc_reports s"
  by (simp_all add: drop_entry_def split: option.split)

lemma drop_entry_cron: "set (sc_cron (drop_entry j s)) \<subseteq> set (sc_cron s)"
  by (auto simp: drop_entry_def dest: in_delete split: option.splits)

lemma scheduleLocked_frame [simp]:
  "sc_assigns (snd (scheduleLocked cl a s)) = sc_assigns s" "sc_states (snd (scheduleLocked cl a s)) = sc_states s"
  "sc_cells (snd (scheduleLocked cl a s)) = sc_cells s" "sc_fires (snd (scheduleLocked cl a s)) = sc_fires s"
  "sc_retries (snd (scheduleLocked cl a s)) = sc_retries s" "sc_disk (snd (scheduleLocked cl a s)) = sc_disk s"
  "sc_reports (snd (scheduleLocked cl a s)) = sc_reports s"
  by (simp_all add: scheduleLocked_def)

lemma scheduleLocked_next: "sc_next s \<le> sc_next (snd (scheduleLocked cl a s))"
  by (simp add: scheduleLocked_def)

lemma scheduleLocked_cron: "e \<in> set (sc_cron (snd (scheduleLocked cl a s))) \<Longrightarrow> snd (snd e) = a \<or> e \<in> set (sc_cron s)"
  by (auto simp: scheduleLocked_def dest: in_update split: if_splits)

lemma persistLocked_frame [simp]:
  "sc_assigns (snd (persistLocked io s)) = sc_assigns s" "sc_states (snd (persistLocked io s)) = sc_states s"
  "sc_cells (snd (persistLocked io s)) = sc_cells s" "sc_fires (snd (persistLocked io s)) = sc_fires s"
  "sc_retries (snd (persistLocked io s)) = sc_retries s" "sc_reports (snd (persistLocked io s)) = sc_reports s"
  "sc_cron (snd (persistLocked io s)) = sc_cron s" "sc_next (snd (persistLocked io s)) = sc_next s"
  "sc_entries (snd (persistLocked io s)) = sc_entries s"
  by (simp_all add: persistLocked_def split: option.split)

lemma Apply_cases:
  obtains (bad) err where "fst (Apply_assignment cl io a s) = Some err"
      "snd (Apply_assignment cl io a s) = (drop_entry (as_JobID a) s)\<lparr>sc_assigns := AList.delete (as_JobID a) (AList.update (as_JobID a) a (sc_assigns s))\<rparr>"
      "\<not> (cron_parses cl (as_Cron a) \<and> cron_adds cl (as_Cron a))"
  | (good) "Apply_assignment cl io a s = persistLocked io (snd (scheduleLocked cl a
       ((drop_entry (as_JobID a) s)\<lparr>sc_assigns := AList.update (as_JobID a) a (sc_assigns s)\<rparr>)))"
      "cron_parses cl (as_Cron a)" "cron_adds cl (as_Cron a)"
proof (cases "cron_parses cl (as_Cron a) \<and> cron_adds cl (as_Cron a)")
  case True
  then show ?thesis
    by (intro good) (simp_all only: Apply_assignment_def scheduleLocked_def Let_def drop_entry_frame, simp_all)
next
  case False
  let ?e = "if cron_parses cl (as_Cron a) then AddEntry (as_Cron a) else BadCron (as_Cron a)"
  from False have "Apply_assignment cl io a s = (Some ?e,
      (drop_entry (as_JobID a) s)\<lparr>sc_assigns := AList.delete (as_JobID a) (AList.update (as_JobID a) a (sc_assigns s))\<rparr>)"
    by (simp add: Apply_assignment_def scheduleLocked_def Let_def)
  with False show ?thesis by (intro bad [of ?e]) simp_all
qed

lemma Apply_frame [simp]:
  "sc_states (snd (Apply_assignment cl io a s)) = sc_states s" "sc_cells (snd (Apply_assignment cl io a s)) = sc_cells s"
  "sc_fires (snd (Apply_assignment cl io a s)) = sc_fires s" "sc_retries (snd (Apply_assignment cl io a s)) = sc_retries s"
  "sc_reports (snd (Apply_assignment cl io a s)) = sc_reports s"
  by (cases rule: Apply_cases [of cl io a s]; simp)+

lemma Apply_next: "sc_next s \<le> sc_next (snd (Apply_assignment cl io a s))"
proof (cases rule: Apply_cases [of cl io a s])
  case good
  then show ?thesis
    using scheduleLocked_next [of "(drop_entry (as_JobID a) s)\<lparr>sc_assigns := AList.update (as_JobID a) a (sc_assigns s)\<rparr>" cl a] by simp
qed simp

lemma all_known_Apply:
  assumes "all_known P s" "P a"
  shows "all_known P (snd (Apply_assignment cl io a s))"
proof (cases rule: Apply_cases [of cl io a s])
  case bad
  then show ?thesis using assms drop_entry_cron [of "as_JobID a" s]
    by (fastforce simp: all_known_def dest: in_update in_delete)
next
  case good
  have "P (snd (snd e))" if "e \<in> set (sc_cron (snd (Apply_assignment cl io a s)))" for e
  proof -
    let ?s = "(drop_entry (as_JobID a) s)\<lparr>sc_assigns := AList.update (as_JobID a) a (sc_assigns s)\<rparr>"
    from that good have "snd (snd e) = a \<or> e \<in> set (sc_cron ?s)" by (auto dest: scheduleLocked_cron)
    then show ?thesis using assms drop_entry_cron [of "as_JobID a" s] by (cases e) (auto simp: all_known_def)
  qed
  then show ?thesis using assms good by (fastforce simp: all_known_def dest: in_update)
qed

lemma cancel_fire_frame [simp]:
  "sc_assigns (cancel_fire f s) = sc_assigns s" "sc_cron (cancel_fire f s) = sc_cron s"
  "sc_states (cancel_fire f s) = sc_states s" "sc_cells (cancel_fire f s) = sc_cells s"
  "sc_retries (cancel_fire f s) = sc_retries s" "sc_reports (cancel_fire f s) = sc_reports s"
  "sc_next (cancel_fire f s) = sc_next s" "map fst (sc_fires (cancel_fire f s)) = map fst (sc_fires s)"
  by (simp_all add: cancel_fire_def case_prod_beta comp_def)

lemma cancel_cell_frame [simp]:
  "sc_assigns (cancel_cell rs s) = sc_assigns s" "sc_cron (cancel_cell rs s) = sc_cron s"
  "sc_states (cancel_cell rs s) = sc_states s" "sc_cells (cancel_cell rs s) = sc_cells s"
  "sc_retries (cancel_cell rs s) = sc_retries s" "sc_reports (cancel_cell rs s) = sc_reports s"
  "sc_next (cancel_cell rs s) = sc_next s" "map fst (sc_fires (cancel_cell rs s)) = map fst (sc_fires s)"
  by (simp_all add: cancel_cell_def split: option.split)

text \<open>Cancelling touches one flag.\<close>

lemma cancel_cell_fires:
  "(i, r) \<in> set (sc_fires (cancel_cell rs s)) \<Longrightarrow>
     \<exists>r0. (i, r0) \<in> set (sc_fires s) \<and> (r = r0 \<and> rs_cancel rs \<noteq> Some i \<or> r = r0\<lparr>fi_cancelled := True\<rparr> \<and> rs_cancel rs = Some i)"
  by (auto simp: cancel_cell_def cancel_fire_def split: option.splits)

section \<open>Steps keep the invariants\<close>

definition sched_ok :: "(assignment \<Rightarrow> bool) \<Rightarrow> scheduler \<Rightarrow> bool" where
  "sched_ok P s \<longleftrightarrow> all_known P s \<and> retry_bound s \<and> runs_ok s"

lemma sched_ok_Apply: "sched_ok P s \<Longrightarrow> P a \<Longrightarrow> sched_ok P (snd (Apply_assignment cl io a s))"
  using all_known_Apply [of P s a cl io] Apply_next [of s cl io a]
  by (fastforce simp: sched_ok_def retry_bound_def runs_ok_def)

lemma sched_ok_Remove:
  assumes "sched_ok P s"
  shows "sched_ok P (Remove_assignment io j s)"
proof -
  let ?s2 = "(drop_entry j s)\<lparr>sc_assigns := AList.delete j (sc_assigns s)\<rparr>"
  have k2: "sched_ok P ?s2"
    using assms drop_entry_cron [of j s] by (fastforce simp: sched_ok_def all_known_def retry_bound_def runs_ok_def dest: in_delete)
  have k3: "sched_ok P (cancel_cell rs ?s2)" for rs
    using k2 by (fastforce simp: sched_ok_def all_known_def retry_bound_def runs_ok_def dest!: cancel_cell_fires)
  have k4: "sched_ok P (snd (persistLocked io (s3\<lparr>sc_states := AList.delete j (sc_states s3)\<rparr>)))" if "sched_ok P s3" for s3
    using that by (fastforce simp: sched_ok_def all_known_def retry_bound_def runs_ok_def dest: in_delete)
  show ?thesis using k2 k3 k4 by (simp add: Remove_assignment_def Let_def split: option.split)
qed


lemma cell_of_frame:
  assumes "cell_of j s = (c, s1)"
  shows "sc_assigns s1 = sc_assigns s \<and> sc_cron s1 = sc_cron s \<and> sc_retries s1 = sc_retries s \<and>
    sc_reports s1 = sc_reports s \<and> sc_fires s1 = sc_fires s \<and> sc_next s1 = sc_next s \<and>
    map_of (sc_states s1) j = Some c \<and> (\<forall>j1. j1 \<noteq> j \<longrightarrow> map_of (sc_states s1) j1 = map_of (sc_states s) j1) \<and>
    length (sc_cells s) \<le> length (sc_cells s1) \<and> (\<forall>k < length (sc_cells s). sc_cells s1 ! k = sc_cells s ! k) \<and>
    (\<forall>d. map_of (sc_states s) j = Some d \<longrightarrow> c = d) \<and>
    (map_of (sc_states s) j = None \<longrightarrow> c = length (sc_cells s) \<and> \<not> rs_running (sc_cells s1 ! c))"
  using assms by (auto simp: cell_of_def AList.update_conv' nth_append split: option.splits)

lemma cell_of_ok:
  assumes "cell_of j s = (c, s1)" "runs_ok s"
  shows "runs_ok s1 \<and> c < length (sc_cells s1)"
proof (cases "map_of (sc_states s) j")
  case None
  with assms show ?thesis by (fastforce simp: cell_of_def runs_ok_def dest: in_update)
next
  case (Some d)
  with assms map_of_SomeD [OF Some] show ?thesis by (auto simp: cell_of_def runs_ok_def)
qed

text \<open>What the locked section does: nothing but a report, or a new run on the cell of its job.\<close>

lemma fire_begin_cases:
  obtains (skips) c s1 r where "cell_of (as_JobID a) s = (c, s1)" "fire_begin a at tg n s = add_report r s1" "jr_RetryOf r = n"
      "as_OverlapPolicy a = ''skip''" "rs_running (sc_cells s1 ! c)"
  | (starts) c s1 s2 where "cell_of (as_JobID a) s = (c, s1)" "s2 = s1 \<or> s2 = cancel_cell (sc_cells s1 ! c) s1"
      "as_OverlapPolicy a = ''skip'' \<Longrightarrow> s2 = s1 \<and> \<not> rs_running (sc_cells s1 ! c)"
      "fire_begin a at tg n s = s2\<lparr>sc_cells := (sc_cells s2)[c := \<lparr>rs_running = True, rs_cancel = Some (sc_next s2)\<rparr>],
         sc_fires := (sc_next s2, \<lparr>fi_assign = a, fi_cell = c, fi_sched = at, fi_trigger = tg, fi_retry = n,
           fi_cancelled = False, fi_reported = False\<rparr>) # sc_fires s2, sc_next := Suc (sc_next s2)\<rparr>"
proof -
  obtain c s1 where c: "cell_of (as_JobID a) s = (c, s1)" by (cases "cell_of (as_JobID a) s")
  show ?thesis
  proof (cases "as_OverlapPolicy a = ''skip'' \<and> rs_running (sc_cells s1 ! c)")
    case True
    then show ?thesis using c
      by (intro skips [of c s1 "\<lparr>jr_RunID = [], jr_JobID = as_JobID a, jr_State = ''skipped'', jr_Error = NoErr,
              jr_ScheduledAt = at div second, jr_Trigger = tg, jr_RetryOf = n\<rparr>"]) (simp_all add: fire_begin_def)
  next
    case False
    then show ?thesis using c
      by (intro starts [of c s1 "if as_OverlapPolicy a = ''replace'' \<and> rs_running (sc_cells s1 ! c) then cancel_cell (sc_cells s1 ! c) s1 else s1"])
        (auto simp: fire_begin_def Let_def)
  qed
qed

lemma sched_ok_fire_begin:
  assumes "sched_ok P s" "P a" "n \<le> 3"
  shows "sched_ok P (fire_begin a at tg n s)"
proof (cases rule: fire_begin_cases [of a s at tg n])
  case (skips c s1 r)
  with assms cell_of_frame [OF skips(1)] cell_of_ok [OF skips(1)] show ?thesis
    by (auto simp: sched_ok_def all_known_def retry_bound_def runs_ok_def add_report_def)
next
  case (starts c s1 s2)
  have s1: "sched_ok P s1" "c < length (sc_cells s1)"
    using assms(1) cell_of_frame [OF starts(1)] cell_of_ok [OF starts(1)]
    by (auto simp: sched_ok_def all_known_def retry_bound_def)
  have "sched_ok P (cancel_cell (sc_cells s1 ! c) s1)"
    using s1(1) by (fastforce simp: sched_ok_def all_known_def retry_bound_def runs_ok_def dest!: cancel_cell_fires)
  with s1 starts(2) have s2: "sched_ok P s2" "c < length (sc_cells s2)" by auto
  have nf: "sc_next s2 \<notin> fst ` set (sc_fires s2)" using s2(1) by (fastforce simp: sched_ok_def runs_ok_def)
  show ?thesis unfolding starts(4)
    using s2 assms(2,3) nf by (fastforce simp: sched_ok_def all_known_def retry_bound_def runs_ok_def)
qed

lemma sched_ok_fire_end:
  "sched_ok P s \<Longrightarrow> sched_ok P (fire_end f s)"
  by (auto simp: fire_end_def sched_ok_def all_known_def retry_bound_def runs_ok_def AList.distinct_delete
      dest: in_delete split: option.split)

lemma mark_reported_frame [simp]:
  "sc_assigns (mark_reported f s) = sc_assigns s" "sc_cron (mark_reported f s) = sc_cron s"
  "sc_states (mark_reported f s) = sc_states s" "sc_cells (mark_reported f s) = sc_cells s"
  "sc_retries (mark_reported f s) = sc_retries s" "sc_reports (mark_reported f s) = sc_reports s"
  "sc_next (mark_reported f s) = sc_next s" "map fst (sc_fires (mark_reported f s)) = map fst (sc_fires s)"
  by (simp_all add: mark_reported_def case_prod_beta comp_def)

lemma mark_reported_fires:
  "(i, r) \<in> set (sc_fires (mark_reported f s)) \<Longrightarrow>
     \<exists>r0. (i, r0) \<in> set (sc_fires s) \<and> (r = r0 \<or> r = r0\<lparr>fi_reported := True\<rparr>)"
  by (auto simp: mark_reported_def)

lemma sched_ok_mark: "sched_ok P s \<Longrightarrow> sched_ok P (mark_reported f s)"
  by (fastforce simp: sched_ok_def all_known_def retry_bound_def runs_ok_def dest!: mark_reported_fires)

lemma sched_ok_report: "sched_ok P s \<Longrightarrow> jr_RetryOf r \<le> 3 \<Longrightarrow> sched_ok P (add_report r s)"
  by (auto simp: sched_ok_def all_known_def retry_bound_def runs_ok_def add_report_def)

lemma fire_run_cases:
  obtains (idle) "fire_run H x hooks dec rx verify guard f (s, m, w) = (s, m, w)"
  | (denied) r reason where "map_of (sc_fires s) f = Some r"
      "fire_denied rx verify guard (fire_task dec r) = Some reason"
      "fire_run H x hooks dec rx verify guard f (s, m, w) =
         (mark_reported f (add_report (fire_report dec r ''denied'' (Reason reason)) s), m, w)"
  | (ran) r st err m1 w1 where "map_of (sc_fires s) f = Some r" "fire_denied rx verify guard (fire_task dec r) = None"
      "fire_run H x hooks dec rx verify guard f (s, m, w) =
         (let s1 = mark_reported f (add_report (fire_report dec r st err) s)
          in if wants_retry r st then s1\<lparr>sc_retries := sc_retries s1 @ [(fi_assign r, Suc (fi_retry r))]\<rparr> else s1, m1, w1)"
proof (cases "map_of (sc_fires s) f")
  case None
  then show ?thesis by (intro idle) (simp add: fire_run_def)
next
  case (Some r)
  show ?thesis
  proof (cases "fi_reported r")
    case True
    with Some show ?thesis by (intro idle) (simp add: fire_run_def)
  next
    case False
    show ?thesis
    proof (cases "fire_denied rx verify guard (fire_task dec r)")
      case None
      obtain res m1 w1 where r1: "Runner_Run (fire_host H r) x (fire_runner hooks r) (fire_task dec r) m w = (res, m1, w1)"
        by (cases "Runner_Run (fire_host H r) x (fire_runner hooks r) (fire_task dec r) m w")
      obtain st err where o: "job_outcome (fire_host H r) w1 res = (st, err)" by (cases "job_outcome (fire_host H r) w1 res")
      show ?thesis by (rule ran [OF Some None]) (simp add: fire_run_def Some False None r1 o Let_def)
    next
      case (Some reason)
      show ?thesis by (rule denied [OF \<open>map_of (sc_fires s) f = Some r\<close> Some])
        (simp add: fire_run_def \<open>map_of (sc_fires s) f = Some r\<close> False Some)
    qed
  qed
qed

lemma sched_ok_fire_run:
  assumes "sched_ok P s"
  shows "sched_ok P (fst (fire_run H x hooks dec rx verify guard f (s, m, w)))"
proof (cases rule: fire_run_cases [of H x hooks dec rx verify guard f s m w])
  case (denied r reason)
  from map_of_SomeD [OF denied(1)] assms have "fi_retry r \<le> 3" by (auto simp: sched_ok_def retry_bound_def)
  with denied(3) assms show ?thesis by (simp add: sched_ok_mark sched_ok_report fire_report_def)
next
  case (ran r st err m1 w1)
  from map_of_SomeD [OF ran(1)] assms have r: "fi_retry r \<le> 3" "P (fi_assign r)"
    by (auto simp: sched_ok_def retry_bound_def all_known_def)
  then have "sched_ok P (mark_reported f (add_report (fire_report dec r st err) s))"
    using assms by (simp add: sched_ok_mark sched_ok_report fire_report_def)
  then show ?thesis using ran(3) r
    by (auto simp: Let_def sched_ok_def all_known_def retry_bound_def runs_ok_def wants_retry_def)
qed (use assms in simp)

lemma sched_ok_RunNow: "sched_ok P s \<Longrightarrow> sched_ok P (snd (RunNow j t s))"
  using map_of_SomeD [of "sc_assigns s" j]
  by (auto simp: RunNow_def sched_ok_def [of P s] all_known_def intro!: sched_ok_fire_begin split: option.split)

lemma sched_ok_cron_fires: "sched_ok P s \<Longrightarrow> sched_ok P (cron_fires e t s)"
  using map_of_SomeD [of "sc_cron s" e]
  by (auto simp: cron_fires_def sched_ok_def [of P s] all_known_def intro!: sched_ok_fire_begin split: option.split)

lemma sched_ok_retry_wakes:
  assumes "sched_ok P s"
  shows "sched_ok P (retry_wakes k t s)"
proof (cases "k < length (sc_retries s)")
  case True
  obtain a n where an: "sc_retries s ! k = (a, n)" by (cases "sc_retries s ! k")
  then have "(a, n) \<in> set (sc_retries s)" using True nth_mem by metis
  then have "P a" "n \<le> 3" using assms by (auto simp: sched_ok_def all_known_def retry_bound_def)
  moreover have "sched_ok P (s\<lparr>sc_retries := take k (sc_retries s) @ drop (Suc k) (sc_retries s)\<rparr>)"
    using assms by (auto simp: sched_ok_def all_known_def retry_bound_def runs_ok_def dest!: in_set_takeD in_set_dropD)
  ultimately show ?thesis using True an by (simp add: retry_wakes_def sched_ok_fire_begin)
qed (use assms in \<open>simp add: retry_wakes_def\<close>)

lemma sched_ok_New: "sched_ok P (New_scheduler d)"
  by (simp add: New_scheduler_def sched_ok_def all_known_def retry_bound_def runs_ok_def)

lemma reach_ok: "sched_reach E pol st \<Longrightarrow> sched_ok (\<lambda>a. as_OverlapPolicy a \<in> pol) (fst st)"
  by (induction rule: sched_reach.induct)
    (auto simp: sched_ok_New sched_ok_Apply sched_ok_Remove sched_ok_RunNow sched_ok_cron_fires sched_ok_retry_wakes
      exec_fire_def sched_ok_fire_end sched_ok_fire_run)

text \<open>Retries are bounded: whatever happens to the scheduler, no run is reported, waiting or in flight with a
  retry number above three.\<close>

theorem retries_bounded:
  assumes "sched_reach E pol (s, m, w)"
  shows "list_all (\<lambda>r. jr_RetryOf r \<le> 3) (sc_reports s) \<and> list_all (\<lambda>(a, n). n \<le> 3) (sc_retries s) \<and>
    list_all (\<lambda>(i, r). fi_retry r \<le> 3) (sc_fires s)"
  using reach_ok [OF assms] by (auto simp: sched_ok_def retry_bound_def list_all_iff)

section \<open>The policy \<open>skip\<close>\<close>

lemma skip_owned_frame:
  "sc_fires t = sc_fires s \<Longrightarrow> sc_cells t = sc_cells s \<Longrightarrow> sc_states t = sc_states s \<Longrightarrow> skip_owned t = skip_owned s"
  by (simp add: skip_owned_def)

lemma skip_owned_same_cell:
  assumes "skip_owned s" "(i, r) \<in> set (sc_fires s)" "(k, q) \<in> set (sc_fires s)" "fi_cell r = fi_cell q"
  shows "i = k"
proof -
  have "sc_cells s ! fi_cell r = \<lparr>rs_running = True, rs_cancel = Some i\<rparr>"
    "sc_cells s ! fi_cell q = \<lparr>rs_running = True, rs_cancel = Some k\<rparr>" using assms by (auto simp: skip_owned_def)
  with assms(4) show ?thesis by simp
qed

lemma skip_owned_Remove:
  assumes "skip_owned s"
  shows "skip_owned (Remove_assignment io j s)"
proof -
  let ?s2 = "(drop_entry j s)\<lparr>sc_assigns := AList.delete j (sc_assigns s)\<rparr>"
  have s2: "skip_owned ?s2" "sc_states ?s2 = sc_states s" "sc_cells ?s2 = sc_cells s"
    using assms by (simp_all add: skip_owned_frame [of ?s2 s])
  have end2: "skip_owned (snd (persistLocked io (s3\<lparr>sc_states := AList.delete j (sc_states s3)\<rparr>)))"
    if "skip_owned s3" "\<forall>(i, r) \<in> set (sc_fires s3). \<not> fi_cancelled r \<longrightarrow> as_JobID (fi_assign r) \<noteq> j" for s3
    using that by (fastforce simp: skip_owned_def)
  show ?thesis
  proof (cases "map_of (sc_states s) j")
    case None
    have "\<forall>(i, r) \<in> set (sc_fires ?s2). \<not> fi_cancelled r \<longrightarrow> as_JobID (fi_assign r) \<noteq> j"
      using s2(1) None by (auto simp: skip_owned_def)
    with end2 [OF s2(1)] None show ?thesis by (simp add: Remove_assignment_def Let_def)
  next
    case (Some c)
    let ?s3 = "cancel_cell (sc_cells s ! c) ?s2"
    have s3: "skip_owned ?s3"
      using s2(1) by (fastforce simp: skip_owned_def dest!: cancel_cell_fires)
    have "as_JobID (fi_assign r) \<noteq> j" if ir: "(i, r) \<in> set (sc_fires ?s3)" "\<not> fi_cancelled r" for i r
    proof
      assume j: "as_JobID (fi_assign r) = j"
      from cancel_cell_fires [OF ir(1)] ir(2) have "(i, r) \<in> set (sc_fires ?s2)" "rs_cancel (sc_cells s ! c) \<noteq> Some i" by auto
      with s2 ir(2) j Some show False by (auto simp: skip_owned_def)
    qed
    then have "\<forall>(i, r) \<in> set (sc_fires ?s3). \<not> fi_cancelled r \<longrightarrow> as_JobID (fi_assign r) \<noteq> j" by blast
    with end2 [OF s3] Some show ?thesis by (simp add: Remove_assignment_def Let_def)
  qed
qed

lemma skip_owned_fire_begin:
  assumes "skip_owned s" "runs_ok s" "as_OverlapPolicy a = ''skip''"
  shows "skip_owned (fire_begin a at tg n s)"
proof -
  have s1: "skip_owned s1 \<and> (\<forall>(i, r) \<in> set (sc_fires s1). \<not> rs_running (sc_cells s1 ! c) \<longrightarrow> fi_cell r \<noteq> c)"
    if c: "cell_of (as_JobID a) s = (c, s1)" for c s1
  proof -
    note f = cell_of_frame [OF c]
    have "sc_cells s1 ! fi_cell r = \<lparr>rs_running = True, rs_cancel = Some i\<rparr> \<and>
      (\<not> fi_cancelled r \<longrightarrow> map_of (sc_states s1) (as_JobID (fi_assign r)) = Some (fi_cell r))"
      if ir: "(i, r) \<in> set (sc_fires s)" for i r
    proof -
      have o: "sc_cells s ! fi_cell r = \<lparr>rs_running = True, rs_cancel = Some i\<rparr>"
        "\<not> fi_cancelled r \<Longrightarrow> map_of (sc_states s) (as_JobID (fi_assign r)) = Some (fi_cell r)"
        "fi_cell r < length (sc_cells s)"
        using ir assms(1,2) by (auto simp: skip_owned_def runs_ok_def)
      with f show ?thesis by (cases "as_JobID (fi_assign r) = as_JobID a") auto
    qed
    with f show ?thesis by (fastforce simp: skip_owned_def)
  qed
  show ?thesis
  proof (cases rule: fire_begin_cases [of a s at tg n])
    case (skips c s1 r)
    with s1 [OF skips(1)] show ?thesis by (simp add: skip_owned_def add_report_def)
  next
    case (starts c s1 s2)
    from starts(3) assms(3) have s2: "s2 = s1" "\<not> rs_running (sc_cells s1 ! c)" by auto
    from cell_of_ok [OF starts(1) assms(2)] cell_of_frame [OF starts(1)] have c: "c < length (sc_cells s1)"
      "map_of (sc_states s1) (as_JobID a) = Some c" by auto
    show ?thesis unfolding starts(4) s2(1)
      using s1 [OF starts(1)] s2(2) c by (fastforce simp: skip_owned_def)
  qed
qed

lemma skip_owned_fire_end:
  assumes "skip_owned s" "runs_ok s"
  shows "skip_owned (fire_end f s)"
proof (cases "map_of (sc_fires s) f")
  case (Some r)
  have fr: "(f, r) \<in> set (sc_fires s)" using map_of_SomeD [OF Some] .
  have "skip_owned (s\<lparr>sc_cells := (sc_cells s)[fi_cell r := \<lparr>rs_running = False, rs_cancel = None\<rparr>],
      sc_fires := AList.delete f (sc_fires s)\<rparr>)"
  proof -
    have "fi_cell r1 \<noteq> fi_cell r" if "(i, r1) \<in> set (sc_fires s)" "i \<noteq> f" for i r1
      using skip_owned_same_cell [OF assms(1) that(1) fr] that(2) by blast
    then show ?thesis using assms(1) by (fastforce simp: skip_owned_def dest!: in_delete)
  qed
  with Some assms(1) show ?thesis by (simp add: fire_end_def)
qed (use assms in \<open>simp add: fire_end_def\<close>)

lemma skip_owned_fire_run:
  assumes "skip_owned s"
  shows "skip_owned (fst (fire_run H x hooks dec rx verify guard f (s, m, w)))"
proof -
  have m: "skip_owned (mark_reported f (add_report r s))" for r
    using assms by (fastforce simp: skip_owned_def add_report_def dest!: mark_reported_fires)
  show ?thesis
    by (cases rule: fire_run_cases [of H x hooks dec rx verify guard f s m w])
      (use m assms in \<open>auto simp: Let_def skip_owned_frame [of "_\<lparr>sc_retries := _\<rparr>"]\<close>)
qed

lemma skip_owned_starts:
  assumes "skip_owned s" "sched_ok (\<lambda>a. as_OverlapPolicy a \<in> {''skip''}) s"
  shows "skip_owned (snd (RunNow j t s))" "skip_owned (cron_fires e t s)" "skip_owned (retry_wakes k t s)"
proof -
  have r: "runs_ok s" and known: "all_known (\<lambda>a. as_OverlapPolicy a \<in> {''skip''}) s" using assms(2) by (auto simp: sched_ok_def)
  show "skip_owned (snd (RunNow j t s))"
    using assms(1) r known map_of_SomeD [of "sc_assigns s" j]
    by (auto simp: RunNow_def all_known_def intro!: skip_owned_fire_begin split: option.split)
  show "skip_owned (cron_fires e t s)"
    using assms(1) r known map_of_SomeD [of "sc_cron s" e]
    by (auto simp: cron_fires_def all_known_def intro!: skip_owned_fire_begin split: option.split)
  show "skip_owned (retry_wakes k t s)"
  proof (cases "k < length (sc_retries s)")
    case True
    obtain a n where an: "sc_retries s ! k = (a, n)" by (cases "sc_retries s ! k")
    then have "(a, n) \<in> set (sc_retries s)" using True nth_mem by metis
    then have p: "as_OverlapPolicy a = ''skip''" using known by (auto simp: all_known_def)
    let ?s = "s\<lparr>sc_retries := take k (sc_retries s) @ drop (Suc k) (sc_retries s)\<rparr>"
    have "skip_owned ?s" "runs_ok ?s" using assms(1) r by (simp_all add: skip_owned_frame [of ?s s] runs_ok_def)
    then show ?thesis using True an p by (simp add: retry_wakes_def skip_owned_fire_begin)
  qed (use assms in \<open>simp add: retry_wakes_def\<close>)
qed

lemma reach_skip: "sched_reach E {''skip''} st \<Longrightarrow> skip_owned (fst st)"
proof (induction rule: sched_reach.induct)
  case (assign s m w a io)
  then show ?case by (simp add: skip_owned_frame [of "snd (Apply_assignment (je_cron E) io a s)" s])
next
  case (runs st guard f)
  then show ?case by (cases st) (simp add: exec_fire_def skip_owned_fire_run)
next
  case (returns s m w f)
  then show ?case using reach_ok [OF returns.hyps] by (simp add: skip_owned_fire_end sched_ok_def)
next
  case start
  then show ?case by (simp add: New_scheduler_def skip_owned_def)
qed (auto dest!: reach_ok simp: skip_owned_starts skip_owned_Remove)

text \<open>C21: Under the overlap policy \<open>skip\<close> runs of a job do not overlap: whatever the interleaving of the clock,
  manual starts, retries, changes of the assignments and returning runs, two runs of the same job in
  flight that have not been cancelled are the same run.\<close>

theorem skip_never_overlaps:
  assumes "sched_reach E {''skip''} (s, m, w)" "(i, r) \<in> set (sc_fires s)" "(k, q) \<in> set (sc_fires s)"
    and "\<not> fi_cancelled r" "\<not> fi_cancelled q" "as_JobID (fi_assign r) = as_JobID (fi_assign q)"
  shows "i = k \<and> r = q"
proof -
  have o: "skip_owned s" "distinct (map fst (sc_fires s))"
    using reach_skip [OF assms(1)] reach_ok [OF assms(1)] by (auto simp: sched_ok_def runs_ok_def)
  then have "map_of (sc_states s) (as_JobID (fi_assign r)) = Some (fi_cell r)"
    "map_of (sc_states s) (as_JobID (fi_assign q)) = Some (fi_cell q)" using assms(2-5) by (auto simp: skip_owned_def)
  with assms(6) have "i = k" using skip_owned_same_cell [OF o(1) assms(2,3)] by simp
  with o(2) assms(2,3) show ?thesis by (auto dest: eq_key_imp_eq_value)
qed


section \<open>The policy \<open>replace\<close>\<close>

text \<open>Under \<open>replace\<close> a run can escape being replaced: when a run that was replaced returns, it clears the
  run state that its replacement now owns, so that the next run of the job starts without cancelling
  the replacement, and both are in flight.\<close>

theorem replacement_escapes:
  assumes "map_of (sc_states s) j = Some c" "c < length (sc_cells s)"
    and "map_of (sc_fires s) f1 = Some r1" "fi_cell r1 = c" "fi_reported r1"
    and "map_of (sc_fires s) f2 = Some r2" "f2 \<noteq> f1" "\<not> fi_cancelled r2" "f2 < sc_next s"
    and "as_OverlapPolicy a = ''replace''" "as_JobID a = j"
  shows "\<exists>r3. map_of (sc_fires (fire_begin a at tg n (fire_end f1 s))) f2 = Some r2 \<and>
    map_of (sc_fires (fire_begin a at tg n (fire_end f1 s))) (sc_next s) = Some r3 \<and> \<not> fi_cancelled r3 \<and> fi_assign r3 = a"
proof -
  have e: "fire_end f1 s = s\<lparr>sc_cells := (sc_cells s)[c := \<lparr>rs_running = False, rs_cancel = None\<rparr>],
      sc_fires := AList.delete f1 (sc_fires s)\<rparr>"
    using assms(3-5) by (simp add: fire_end_def)
  have "cell_of j (fire_end f1 s) = (c, fire_end f1 s)" using assms(1) e by (simp add: cell_of_def)
  moreover have "\<not> rs_running (sc_cells (fire_end f1 s) ! c)" using e assms(2) by simp
  ultimately show ?thesis
    using assms(6-11) e by (simp add: fire_begin_def Let_def)
qed

section \<open>The file\<close>

definition jobs_ok :: "cron_lib \<Rightarrow> scheduler \<Rightarrow> bool" where
  "jobs_ok cl s \<longleftrightarrow> (\<forall>(j, a) \<in> set (sc_assigns s). j = as_JobID a \<and> cron_parses cl (as_Cron a) \<and> cron_adds cl (as_Cron a)) \<and>
     distinct (map fst (sc_assigns s))"

lemma jobs_ok_frame: "sc_assigns t = sc_assigns s \<Longrightarrow> jobs_ok cl t = jobs_ok cl s"
  by (simp add: jobs_ok_def)

lemma fire_begin_assigns [simp]: "sc_assigns (fire_begin a at tg n s) = sc_assigns s"
proof (cases rule: fire_begin_cases [of a s at tg n])
  case (skips c s1 r)
  then show ?thesis using cell_of_frame [OF skips(1)] by (simp add: add_report_def)
next
  case (starts c s1 s2)
  then show ?thesis using cell_of_frame [OF starts(1)] by auto
qed

lemma jobs_ok_Apply:
  assumes "jobs_ok cl s"
  shows "jobs_ok cl (snd (Apply_assignment cl io a s))"
proof (cases rule: Apply_cases [of cl io a s])
  case bad
  with assms show ?thesis by (auto simp: jobs_ok_def AList.delete_update_same AList.distinct_delete dest: in_delete)
next
  case good
  with assms show ?thesis by (auto simp: jobs_ok_def AList.distinct_update dest: in_update)
qed

lemma reach_jobs_ok: "sched_reach E pol st \<Longrightarrow> jobs_ok (je_cron E) (fst st)"
proof (induction rule: sched_reach.induct)
  case (unassign s m w io j)
  then show ?case
    by (auto simp: Remove_assignment_def Let_def jobs_ok_def AList.distinct_delete dest!: in_delete split: option.split)
next
  case (runs st guard f)
  obtain s m w where "st = (s, m, w)" by (cases st)
  with runs show ?case
    by (cases rule: fire_run_cases [of "je_host E" "je_exec E" "je_hooks E" "je_decimal E" "je_rx E" "je_verify E" guard f s m w])
      (auto simp: exec_fire_def jobs_ok_def add_report_def Let_def)
next
  case start
  then show ?case by (simp add: New_scheduler_def jobs_ok_def)
qed (auto simp: jobs_ok_Apply RunNow_def cron_fires_def retry_wakes_def fire_end_def
    jobs_ok_frame [of "fire_begin a at tg n s" "s" for a at tg n s] jobs_ok_frame [of "_\<lparr>sc_cells := _, sc_fires := _\<rparr>"]
    jobs_ok_frame [of "_\<lparr>sc_retries := _\<rparr>"] split: option.split prod.split)

lemma update_fresh: "k \<notin> fst ` set al \<Longrightarrow> AList.update k v al = al @ [(k, v)]"
  by (induction al) auto

lemma Load_assigns:
  "jobs_ok cl (s\<lparr>sc_assigns := sc_assigns s @ rest\<rparr>) \<Longrightarrow>
     sc_assigns (fold (load_one cl) (map snd rest) s) = sc_assigns s @ rest"
proof (induction rest arbitrary: s)
  case (Cons p rest)
  obtain a where p: "p = (as_JobID a, a)" using Cons.prems by (cases p) (auto simp: jobs_ok_def)
  with Cons.prems have j: "as_JobID a \<notin> fst ` set (sc_assigns s)" by (auto simp: jobs_ok_def)
  then have l: "sc_assigns (load_one cl a s) = sc_assigns s @ [(as_JobID a, a)]" by (simp add: load_one_def update_fresh)
  then have "jobs_ok cl ((load_one cl a s)\<lparr>sc_assigns := sc_assigns (load_one cl a s) @ rest\<rparr>)"
    using Cons.prems p jobs_ok_frame [of "(load_one cl a s)\<lparr>sc_assigns := sc_assigns (load_one cl a s) @ rest\<rparr>"
        "s\<lparr>sc_assigns := sc_assigns s @ p # rest\<rparr>" cl] by simp
  from Cons.IH [OF this] l p show ?case by simp
qed simp

lemma load_keeps_entry:
  assumes "map_of (sc_entries s) j = Some e" "map_of (sc_cron s) e = Some v" "e < sc_next s" "j \<noteq> as_JobID a"
  shows "map_of (sc_entries (load_one cl a s)) j = Some e \<and> map_of (sc_cron (load_one cl a s)) e = Some v \<and>
    e < sc_next (load_one cl a s)"
  using assms by (auto simp: load_one_def scheduleLocked_def AList.update_conv')

lemma Load_entries:
  "jobs_ok cl (s\<lparr>sc_assigns := rest\<rparr>) \<Longrightarrow> (j, a) \<in> set rest \<Longrightarrow>
     \<exists>e. map_of (sc_entries (fold (load_one cl) (map snd rest) s)) j = Some e \<and>
         map_of (sc_cron (fold (load_one cl) (map snd rest) s)) e = Some (as_Cron a, a)"
proof -
  have keep: "\<exists>e. map_of (sc_entries (fold (load_one cl) (map snd rest) s)) j = Some e \<and>
         map_of (sc_cron (fold (load_one cl) (map snd rest) s)) e = Some v"
    if "\<exists>e. map_of (sc_entries s) j = Some e \<and> map_of (sc_cron s) e = Some v \<and> e < sc_next s"
      "\<forall>a \<in> snd ` set rest. as_JobID a \<noteq> j" for rest s j v
    using that
  proof (induction rest arbitrary: s)
    case (Cons p rest)
    from Cons.prems(1) obtain e where e: "map_of (sc_entries s) j = Some e" "map_of (sc_cron s) e = Some v" "e < sc_next s"
      by blast
    have "j \<noteq> as_JobID (snd p)" using Cons.prems(2) by auto
    from load_keeps_entry [OF e this, of cl] Cons.IH [of "load_one cl (snd p) s"] Cons.prems(2) show ?case by auto
  qed auto
  show "jobs_ok cl (s\<lparr>sc_assigns := rest\<rparr>) \<Longrightarrow> (j, a) \<in> set rest \<Longrightarrow> ?thesis"
  proof (induction rest arbitrary: s)
    case (Cons p rest)
    show ?case
    proof (cases "p = (j, a)")
      case True
      have "\<forall>b \<in> snd ` set rest. as_JobID b \<noteq> j"
      proof
        fix b assume "b \<in> snd ` set rest"
        then obtain k where k: "(k, b) \<in> set rest" by auto
        then have "k \<noteq> j" using Cons.prems(1) True by (auto simp: jobs_ok_def rev_image_eqI)
        moreover have "k = as_JobID b" using Cons.prems(1) k by (auto simp: jobs_ok_def)
        ultimately show "as_JobID b \<noteq> j" by simp
      qed
      moreover have "\<exists>e. map_of (sc_entries (load_one cl a s)) j = Some e \<and>
          map_of (sc_cron (load_one cl a s)) e = Some (as_Cron a, a) \<and> e < sc_next (load_one cl a s)"
        using Cons.prems(1) True by (auto simp: jobs_ok_def load_one_def scheduleLocked_def AList.update_conv')
      ultimately show ?thesis using keep [of "load_one cl a s" j "(as_Cron a, a)" rest] True by simp
    next
      case False
      with Cons.prems Cons.IH [of "load_one cl (snd p) s"] show ?thesis by (auto simp: jobs_ok_def)
    qed
  qed simp
qed

text \<open>Assignments survive a restart: after a successful \<open>Apply\<close>, or a \<open>Remove\<close> whose file could be written, the scheduler of
  a new process has just the assignments of the old one, and each of them has a cron entry with
  its own expression.\<close>

theorem assignments_survive_restart:
  assumes "sched_reach E pol (s, m, w)"
    and "fst (Apply_assignment (je_cron E) io a s) = None \<and> t = snd (Apply_assignment (je_cron E) io a s) \<or>
         t = Remove_assignment None j s"
  shows "sc_assigns (restart (je_cron E) t) = sc_assigns t \<and>
    (\<forall>(k, b) \<in> set (sc_assigns t). \<exists>e. map_of (sc_entries (restart (je_cron E) t)) k = Some e \<and>
       map_of (sc_cron (restart (je_cron E) t)) e = Some (as_Cron b, b))"
proof -
  have d: "sc_disk t = Some (map snd (sc_assigns t))"
    using assms(2)
  proof
    assume a: "fst (Apply_assignment (je_cron E) io a s) = None \<and> t = snd (Apply_assignment (je_cron E) io a s)"
    then show ?thesis
      by (cases rule: Apply_cases [of "je_cron E" io a s]) (auto simp: persistLocked_def split: option.splits)
  qed (simp add: Remove_assignment_def Let_def persistLocked_def)
  have "jobs_ok (je_cron E) t"
    using assms(2) reach_jobs_ok [OF assms(1)] reach_jobs_ok [OF unassign [OF assms(1), of None j]]
    by (auto simp: jobs_ok_Apply)
  then have ok: "jobs_ok (je_cron E) ((New_scheduler (sc_disk t))\<lparr>sc_assigns := sc_assigns t\<rparr>)" by (simp add: jobs_ok_def)
  have r: "restart (je_cron E) t = fold (load_one (je_cron E)) (map snd (sc_assigns t)) (New_scheduler (sc_disk t))"
    using d by (simp add: restart_def Load_jobs_def New_scheduler_def)
  show ?thesis
    using Load_assigns [of "je_cron E" "New_scheduler (sc_disk t)" "sc_assigns t"] ok
      Load_entries [OF ok] unfolding r by (auto simp: New_scheduler_def)
qed

text \<open>An update with a bad cron expression half removes the job: \<open>Apply\<close> answers an error and the job is
  gone from the running scheduler, but not from the file, so that a restart brings the old assignment
  back.\<close>

theorem bad_cron_half_removes:
  assumes "\<not> cron_parses cl (as_Cron a)" "sc_disk s = Some list" "b \<in> set list" "as_JobID b = as_JobID a"
    and "distinct (map as_JobID list)"
  shows "fst (Apply_assignment cl io a s) = Some (BadCron (as_Cron a)) \<and>
    map_of (sc_assigns (snd (Apply_assignment cl io a s))) (as_JobID a) = None \<and>
    map_of (sc_assigns (restart cl (snd (Apply_assignment cl io a s)))) (as_JobID a) = Some b"
proof -
  have e: "Apply_assignment cl io a s = (Some (BadCron (as_Cron a)),
      (drop_entry (as_JobID a) s)\<lparr>sc_assigns := AList.delete (as_JobID a) (AList.update (as_JobID a) a (sc_assigns s))\<rparr>)"
    using assms(1) by (simp add: Apply_assignment_def scheduleLocked_def Let_def)
  have load: "map_of (sc_assigns (fold (load_one cl) list s)) j = (case find (\<lambda>b. as_JobID b = j) list of Some b \<Rightarrow> Some b | None \<Rightarrow> map_of (sc_assigns s) j)"
    if "distinct (map as_JobID list)" for list s j
    using that
  proof (induction list arbitrary: s)
    case (Cons c list)
    have "\<forall>b \<in> set list. as_JobID b \<noteq> as_JobID c" using Cons.prems by (metis distinct.simps(2) imageI list.set_map list.simps(9))
    then have "find (\<lambda>b. as_JobID b = as_JobID c) list = None" by (auto simp: find_None_iff)
    with Cons show ?case by (auto simp: load_one_def AList.update_conv' split: option.split)
  qed simp
  have "find (\<lambda>b. as_JobID b = as_JobID a) list = Some b"
    using assms(3-5)
  proof (induction list)
    case (Cons c list)
    then have "as_JobID c \<notin> as_JobID ` set list" by simp
    then have "b \<in> set list \<Longrightarrow> as_JobID b \<noteq> as_JobID c" by (metis imageI)
    with Cons show ?case by auto
  qed simp
  with e assms(2) load [OF assms(5)] show ?thesis
    by (simp add: restart_def Load_jobs_def New_scheduler_def AList.delete_conv')
qed

text \<open>A removed job can still run: \<open>Remove\<close> leaves a retry that sleeps, and when it wakes up it starts a
  run of the assignment that was removed.\<close>

theorem removed_job_retries:
  assumes "sc_retries s = (a, n) # q"
  shows "map_of (sc_assigns (Remove_assignment io (as_JobID a) s)) (as_JobID a) = None \<and>
    (\<exists>f r. map_of (sc_fires (retry_wakes 0 t (Remove_assignment io (as_JobID a) s))) f = Some r \<and>
       fi_assign r = a \<and> \<not> fi_cancelled r)"
proof -
  let ?t = "Remove_assignment io (as_JobID a) s"
  have t: "sc_retries ?t = (a, n) # q" "map_of (sc_states ?t) (as_JobID a) = None"
    "map_of (sc_assigns ?t) (as_JobID a) = None"
    using assms by (auto simp: Remove_assignment_def Let_def AList.delete_conv' split: option.split)
  let ?t1 = "?t\<lparr>sc_retries := q\<rparr>"
  have "cell_of (as_JobID a) ?t1 = (length (sc_cells ?t1), snd (cell_of (as_JobID a) ?t1))"
    "\<not> rs_running (sc_cells (snd (cell_of (as_JobID a) ?t1)) ! length (sc_cells ?t1))"
    using t(2) by (simp_all add: cell_of_def)
  then have "\<exists>f r. map_of (sc_fires (fire_begin a t ''cron'' n ?t1)) f = Some r \<and> fi_assign r = a \<and> \<not> fi_cancelled r"
    by (auto simp: fire_begin_def Let_def split: prod.split)
  then show ?thesis using t by (simp add: retry_wakes_def)
qed

text \<open>The time zone of an assignment does not reach the clock: entries are the same for every zone.\<close>

lemma timezone_ignored:
  "map (\<lambda>(e, sp, b). (e, sp, as_JobID b)) (sc_cron (snd (scheduleLocked cl (a\<lparr>as_Timezone := tz\<rparr>) s))) =
   map (\<lambda>(e, sp, b). (e, sp, as_JobID b)) (sc_cron (snd (scheduleLocked cl a s)))"
proof -
  have "map (\<lambda>(e, sp, b). (e, sp, as_JobID b)) (AList.update k (c, a\<lparr>as_Timezone := tz\<rparr>) al) =
      map (\<lambda>(e, sp, b). (e, sp, as_JobID b)) (AList.update k (c, a) al)" for k :: nat and c :: string and al
    by (induction al) auto
  then show ?thesis by (simp add: scheduleLocked_def)
qed

text \<open>A scheduled run needs a permission: if checking and executing a run changes the host, then its
  assignment carries a decision, the agent has a guardrail, and its re-check of the task under that decision
  allows it.\<close>

theorem fire_needs_permission:
  assumes "fire_run H x hooks dec rx verify guard f (s, m, w) = (s1, m1, w1)" "w1 \<noteq> w"
  shows "\<exists>r g. map_of (sc_fires s) f = Some r \<and> as_Decision (fi_assign r) \<noteq> None \<and> guard = Some g \<and>
    fst (RecheckTask rx verify g (fire_task dec r))"
proof -
  obtain r where "map_of (sc_fires s) f = Some r" "fire_denied rx verify guard (fire_task dec r) = None"
    using assms by (cases rule: fire_run_cases [of H x hooks dec rx verify guard f s m w]) auto
  then show ?thesis by (auto simp: fire_denied_def fire_task_def split: if_splits option.splits prod.splits bool.splits)
qed


section \<open>Instances\<close>

definition nightly :: assignment where
  "nightly = \<lparr>as_JobID = ''j1'', as_Name = ''nightly'', as_Cron = ''@daily'', as_Timezone = [], as_TaskID = ''t'', as_TaskVersion = 1,
     as_Steps = [cmd_step], as_MaxRunS = 0, as_OverlapPolicy = ''replace'', as_FailurePolicy = ''retry'', as_RetryBackoffS = 5,
     as_SelectorSnapshot = [], as_Version = 1, as_Decision = Some allow_dec\<rparr>"

definition any_cron :: cron_lib where
  "any_cron = \<lparr>cron_parses = (\<lambda>c. c = ''@daily''), cron_adds = (\<lambda>c. True)\<rparr>"

definition job_env1 :: "(filesys \<times> nat, marker_files option) job_env" where
  "job_env1 = \<lparr>je_host = counting_host, je_exec = plain_exec, je_hooks = agent_runner, je_decimal = (\<lambda>t. ''7''),
     je_rx = (\<lambda>_. None), je_verify = (\<lambda>_ _ _. True), je_cron = any_cron\<rparr>"

abbreviation run_fire :: "nat \<Rightarrow> scheduler \<Rightarrow> scheduler" where
  "run_fire f s \<equiv> fst (exec_fire job_env1 (Some (guard2 [])) f (s, None, (Map.empty, 0)))"

text \<open>Two runs of the job, the first replaced and about to return.\<close>

definition two_runs :: scheduler where
  "two_runs = run_fire 1 (snd (RunNow ''j1'' 0 (snd (RunNow ''j1'' 0
     (snd (Apply_assignment any_cron None nightly (New_scheduler None)))))))"

theorem retries_bounded_witness:
  "list_all (\<lambda>r. jr_RetryOf r \<le> 3) (sc_reports (snd (RunNow ''j1'' 0 (New_scheduler None))))"
proof -
  have "sched_reach job_env1 {} (snd (RunNow ''j1'' 0 (New_scheduler None)), None, (Map.empty, 0))"
    by (intro now start)
  from retries_bounded [OF this] show ?thesis by simp
qed

theorem replacement_escapes_witness:
  "\<exists>r3. map_of (sc_fires (fire_begin nightly 0 ''cron'' 0 (fire_end 1 two_runs))) 2 = map_of (sc_fires two_runs) 2 \<and>
    map_of (sc_fires (fire_begin nightly 0 ''cron'' 0 (fire_end 1 two_runs))) (sc_next two_runs) = Some r3 \<and>
    \<not> fi_cancelled r3 \<and> fi_assign r3 = nightly"
proof -
  have t: "map_of (sc_states two_runs) ''j1'' = Some 0" "0 < length (sc_cells two_runs)" "sc_next two_runs = 3"
    "map_option fi_cell (map_of (sc_fires two_runs) 1) = Some 0" "map_option fi_reported (map_of (sc_fires two_runs) 1) = Some True"
    "map_option fi_cancelled (map_of (sc_fires two_runs) 2) = Some False"
    by code_simp+
  then obtain r1 r2 where r: "map_of (sc_fires two_runs) 1 = Some r1" "map_of (sc_fires two_runs) 2 = Some r2" by auto
  show ?thesis unfolding r(2)
    by (rule replacement_escapes [OF t(1,2) r(1) _ _ r(2)]) (use t r in \<open>simp_all add: nightly_def\<close>)
qed

definition skip_runs :: scheduler where
  "skip_runs = snd (RunNow ''j1'' 5 (snd (RunNow ''j1'' 0 (snd (Apply_assignment any_cron None
      (nightly\<lparr>as_OverlapPolicy := ''skip''\<rparr>) (New_scheduler None))))))"

theorem skip_never_overlaps_witness:
  "map jr_State (sc_reports skip_runs) = [''skipped''] \<and> hd (sc_fires skip_runs) = last (sc_fires skip_runs)"
proof -
  have "sched_reach job_env1 {''skip''} (skip_runs, None, (Map.empty, 0))"
    unfolding skip_runs_def using assign [OF start, of "nightly\<lparr>as_OverlapPolicy := ''skip''\<rparr>" "{''skip''}" job_env1]
    by (intro now) (simp add: job_env1_def)
  moreover have "sc_fires skip_runs \<noteq> []" "\<not> fi_cancelled (snd (hd (sc_fires skip_runs)))"
    "\<not> fi_cancelled (snd (last (sc_fires skip_runs)))" "map jr_State (sc_reports skip_runs) = [''skipped'']"
    "as_JobID (fi_assign (snd (hd (sc_fires skip_runs)))) = as_JobID (fi_assign (snd (last (sc_fires skip_runs))))"
    by code_simp+
  ultimately show ?thesis
    using skip_never_overlaps [of job_env1 skip_runs None "(Map.empty, 0)" "fst (hd (sc_fires skip_runs))" "snd (hd (sc_fires skip_runs))"
        "fst (last (sc_fires skip_runs))" "snd (last (sc_fires skip_runs))"] by (simp add: prod_eq_iff)
qed

theorem assignments_survive_restart_witness:
  "sc_assigns (restart any_cron (snd (Apply_assignment any_cron None nightly (New_scheduler None)))) = [(''j1'', nightly)]"
proof -
  have "sched_reach job_env1 {} (New_scheduler None, None, (Map.empty, 0))" by (rule start)
  from assignments_survive_restart [OF this, of None nightly "snd (Apply_assignment any_cron None nightly (New_scheduler None))"]
  show ?thesis
    by (simp add: job_env1_def Apply_assignment_def drop_entry_def New_scheduler_def scheduleLocked_def any_cron_def nightly_def
        persistLocked_def)
qed

theorem bad_cron_half_removes_witness:
  "map_of (sc_assigns (restart any_cron (snd (Apply_assignment any_cron None (nightly\<lparr>as_Cron := ''x''\<rparr>)
     (New_scheduler (Some [nightly])))))) ''j1'' = Some nightly"
  using bad_cron_half_removes [of any_cron "nightly\<lparr>as_Cron := ''x''\<rparr>" "New_scheduler (Some [nightly])" "[nightly]" nightly None]
  by (simp add: any_cron_def nightly_def New_scheduler_def)

theorem removed_job_retries_witness:
  "\<exists>f r. map_of (sc_fires (retry_wakes 0 9 (Remove_assignment None ''j1''
     ((New_scheduler None)\<lparr>sc_retries := [(nightly, 1)]\<rparr>)))) f = Some r \<and> fi_assign r = nightly"
  using removed_job_retries [of "(New_scheduler None)\<lparr>sc_retries := [(nightly, 1)]\<rparr>" nightly 1 "[]" None 9]
  by (auto simp: nightly_def)

theorem fire_needs_permission_witness:
  "\<exists>r g. map_of (sc_fires two_runs) 2 = Some r \<and> as_Decision (fi_assign r) \<noteq> None \<and> Some (guard2 []) = Some g \<and>
    fst (RecheckTask (\<lambda>_. None) (\<lambda>_ _ _. True) g (fire_task (\<lambda>t. ''7'') r))"
proof -
  have "snd (snd (snd (fire_run counting_host plain_exec agent_runner (\<lambda>t. ''7'') (\<lambda>_. None) (\<lambda>_ _ _. True) (Some (guard2 [])) 2
      (two_runs, None, (Map.empty, 0))))) = 1" by code_simp
  then show ?thesis
    using fire_needs_permission [of counting_host plain_exec agent_runner "\<lambda>t. ''7''" "\<lambda>_. None" "\<lambda>_ _ _. True" "Some (guard2 [])" 2
        two_runs None "(Map.empty, 0)"]
    by (cases "fire_run counting_host plain_exec agent_runner (\<lambda>t. ''7'') (\<lambda>_. None) (\<lambda>_ _ _. True) (Some (guard2 [])) 2
      (two_runs, None, (Map.empty, 0))") auto
qed

end
