(* ===== verification/SelfUpdate.thy ===== *)
theory SelfUpdate
  imports GoPath Version When
begin

text \<open>
  Agent self update: the release manifest (\<open>src/internal/release/release.go\<close>), verification of a
  directive, the marker file, the swap of the binary and the roll back
  (\<open>src/internal/agent/update/update.go\<close>), the directive's execution (\<open>agent.go\<close>, \<open>execUpdate\<close> and
  \<open>postConnectUpdateCheck\<close>), and the boot guard that runs before the agent
  (\<open>deploy/systemd/partout-update-guard.sh\<close>).

  Files are a map from paths to bytes.  A file operation can be refused, or for a write be torn
  after some bytes; a crash stops a list of operations anywhere, inside a write too.  Base64,
  the signature check, SHA-256, the download and the output of a binary's \<open>--version\<close> are arguments.
\<close>

section \<open>Releases\<close>

record manifest =
  mf_Version :: string
  mf_Arch :: string
  mf_Kind :: string
  mf_SHA256 :: string

definition Canonical :: "manifest \<Rightarrow> string" where
  "Canonical m = join_str ''|'' [mf_Version m, mf_Arch m, mf_Kind m, lower (mf_SHA256 m)]"

definition hex_char :: "char \<Rightarrow> bool" where
  "hex_char c \<longleftrightarrow> char_in (CHR ''0'') (CHR ''9'') c \<or> char_in (CHR ''a'') (CHR ''f'') c \<or> char_in (CHR ''A'') (CHR ''F'') c"

text \<open>\<open>Valid\<close>; decoding 64 characters fails exactly on one that is no hexadecimal digit.\<close>

definition manifest_valid :: "manifest \<Rightarrow> bool" where
  "manifest_valid m \<longleftrightarrow> mf_Version m \<noteq> [] \<and> mf_Arch m \<noteq> [] \<and> mf_Kind m \<in> {''agent'', ''server''} \<and>
     length (mf_SHA256 m) = 64 \<and> list_all hex_char (lower (mf_SHA256 m))"

record update_lib =
  ul_b64 :: "string \<Rightarrow> string option"
  ul_verify :: "string \<Rightarrow> string \<Rightarrow> string \<Rightarrow> bool" \<comment> \<open>Ed25519: key, message, signature\<close>
  ul_sha :: "string \<Rightarrow> string" \<comment> \<open>hexadecimal digest\<close>
  ul_download :: "string \<Rightarrow> string option" \<comment> \<open>the artifact of a grant\<close>
  ul_report :: "string \<Rightarrow> string option" \<comment> \<open>what a binary prints for --version, if it runs\<close>

definition Verify_release :: "update_lib \<Rightarrow> string \<Rightarrow> manifest \<Rightarrow> string \<Rightarrow> bool" where
  "Verify_release L pub m sig \<longleftrightarrow> length pub = 32 \<and> length sig = 64 \<and> ul_verify L pub (Canonical m) sig"

definition PubKeyFromB64 :: "update_lib \<Rightarrow> string \<Rightarrow> string option" where
  "PubKeyFromB64 L s =
     (case ul_b64 L (trim_space s) of None \<Rightarrow> None | Some b \<Rightarrow> if length b \<noteq> 32 then None else Some b)"

record directive =
  di_ReleaseId :: string
  di_Version :: string
  di_Arch :: string
  di_Kind :: string
  di_Sha256 :: string
  di_Signature :: string
  di_Unsigned :: bool
  di_Grant :: string

definition directive_manifest :: "directive \<Rightarrow> manifest" where
  "directive_manifest d = \<lparr>mf_Version = di_Version d, mf_Arch = di_Arch d, mf_Kind = di_Kind d, mf_SHA256 = di_Sha256 d\<rparr>"

datatype verify_error = WrongKind | WrongArch | BadManifest | UnsignedRefused | NoReleaseKey | BadReleaseKey | BadBase64 | BadSignature

text \<open>\<open>Verify\<close>: \<open>None\<close> is acceptance.\<close>

definition Verify_directive :: "update_lib \<Rightarrow> string \<Rightarrow> directive \<Rightarrow> string \<Rightarrow> verify_error option" where
  "Verify_directive L host_arch d key =
     (if di_Kind d \<noteq> ''agent'' then Some WrongKind
      else if di_Arch d \<noteq> host_arch then Some WrongArch
      else if \<not> manifest_valid (directive_manifest d) then Some BadManifest
      else if di_Unsigned d then (if key \<noteq> [] then Some UnsignedRefused else None)
      else if key = [] then Some NoReleaseKey
      else (case PubKeyFromB64 L key of
              None \<Rightarrow> Some BadReleaseKey
            | Some pub \<Rightarrow>
                (case ul_b64 L (trim_space (di_Signature d)) of
                   None \<Rightarrow> Some BadBase64
                 | Some sig \<Rightarrow> if Verify_release L pub (directive_manifest d) sig then None else Some BadSignature)))"

text \<open>\<open>ValidateBinary\<close>, without the retry on a busy file.\<close>

definition first_line :: "string \<Rightarrow> string" where
  "first_line s = (let l = trim_space s in if CHR 0x0A \<in> set l then trim_space (fst (cut_char (CHR 0x0A) l)) else l)"

definition ValidateBinary :: "update_lib \<Rightarrow> string \<Rightarrow> string \<Rightarrow> bool" where
  "ValidateBinary L artifact want =
     (case ul_report L artifact of
        None \<Rightarrow> False
      | Some out \<Rightarrow>
          (case cut_char (CHR '' '') (first_line out) of
             (name, ver, found) \<Rightarrow> found \<and> name = ''partout'' \<and> Equal ver want))"

section \<open>Files\<close>

type_synonym disk = "string \<rightharpoonup> string"

datatype fop = FWrite string string | FRename string string | FRemove string

fun fexec :: "fop \<Rightarrow> disk \<Rightarrow> disk" where
  "fexec (FWrite p b) fs = fs(p \<mapsto> b)"
| "fexec (FRename a b) fs = (case fs a of None \<Rightarrow> fs | Some x \<Rightarrow> (fs(a := None))(b \<mapsto> x))"
| "fexec (FRemove p) fs = fs(p := None)"

datatype fault = Fine | Refused | Torn nat

type_synonym faults = "fop \<Rightarrow> fault"

text \<open>One operation: whether it succeeds, and what it leaves.  Renaming a missing file fails.\<close>

definition attempt :: "faults \<Rightarrow> fop \<Rightarrow> disk \<Rightarrow> bool \<times> disk" where
  "attempt F op fs =
     (case op of
        FRename a b \<Rightarrow> if F op = Fine \<and> fs a \<noteq> None then (True, fexec op fs) else (False, fs)
      | FWrite p b \<Rightarrow>
          (case F op of
             Fine \<Rightarrow> (True, fexec op fs)
           | Refused \<Rightarrow> (False, fs)
           | Torn n \<Rightarrow> (False, fs(p \<mapsto> take n b)))
      | FRemove p \<Rightarrow> if F op = Fine then (True, fexec op fs) else (False, fs))"

section \<open>The marker\<close>

record update_marker =
  um_TargetVersion :: string
  um_ReleaseID :: string
  um_PrevBinary :: string
  um_StartedAt :: int

definition newline :: char where "newline = CHR 0x0A"

definition marker_text :: "update_marker \<Rightarrow> string" where
  "marker_text m = ''target_version='' @ um_TargetVersion m @ [newline] @ ''release_id='' @ um_ReleaseID m @ [newline] @
     ''prev_binary='' @ um_PrevBinary m @ [newline] @ ''started_at='' @ show_int (um_StartedAt m) @ [newline]"

text \<open>\<open>strconv.ParseInt(s, 10, 64)\<close> with its error dropped.\<close>

definition ParseInt10 :: "string \<Rightarrow> int" where
  "ParseInt10 s =
     (let neg = (s \<noteq> [] \<and> hd s = CHR ''-''); ds = (if s \<noteq> [] \<and> hd s \<in> {CHR ''-'', CHR ''+''} then tl s else s)
      in if ds = [] \<or> \<not> list_all is_digit ds then 0
         else if neg then max (- dec_val ds 0) (- (2 ^ 63)) else min (dec_val ds 0) (2 ^ 63 - 1))"

definition empty_marker :: update_marker where
  "empty_marker = \<lparr>um_TargetVersion = [], um_ReleaseID = [], um_PrevBinary = [], um_StartedAt = 0\<rparr>"

definition marker_line :: "string \<Rightarrow> update_marker \<Rightarrow> update_marker" where
  "marker_line raw m =
     (let line = trim_space raw in
      if line = [] \<or> has_prefix line ''#'' then m
      else (case cut_char (CHR ''='') line of
              (k0, v, ok) \<Rightarrow>
                let k = trim_space k0 in
                if \<not> ok then m
                else if k = ''target_version'' then m\<lparr>um_TargetVersion := v\<rparr>
                else if k = ''release_id'' then m\<lparr>um_ReleaseID := v\<rparr>
                else if k = ''prev_binary'' then m\<lparr>um_PrevBinary := v\<rparr>
                else if k = ''started_at'' then m\<lparr>um_StartedAt := ParseInt10 (trim_space v)\<rparr>
                else m))"

definition parse_marker :: "string \<Rightarrow> update_marker" where
  "parse_marker s = fold marker_line (split_char newline s) empty_marker"

text \<open>\<open>ReadMarker\<close>; a marker without a target counts as absent.\<close>

definition ReadMarker :: "disk \<Rightarrow> string \<Rightarrow> update_marker option" where
  "ReadMarker fs path =
     (case fs path of
        None \<Rightarrow> None
      | Some s \<Rightarrow> let m = parse_marker s in if um_TargetVersion m = [] then None else Some m)"

definition marker_ops :: "string \<Rightarrow> update_marker \<Rightarrow> fop list" where
  "marker_ops path m = [FWrite (path @ ''.tmp'') (marker_text m), FRename (path @ ''.tmp'') path]"

fun run_ops :: "faults \<Rightarrow> fop list \<Rightarrow> disk \<Rightarrow> bool \<times> disk" where
  "run_ops F [] fs = (True, fs)"
| "run_ops F (op # ops) fs = (case attempt F op fs of (False, fs1) \<Rightarrow> (False, fs1) | (True, fs1) \<Rightarrow> run_ops F ops fs1)"

definition WriteMarker :: "faults \<Rightarrow> string \<Rightarrow> update_marker \<Rightarrow> disk \<Rightarrow> bool \<times> disk" where
  "WriteMarker F path m fs = run_ops F (marker_ops path m) fs"

definition RemoveMarker :: "faults \<Rightarrow> string \<Rightarrow> disk \<Rightarrow> bool \<times> disk" where
  "RemoveMarker F path fs = (if fs path = None then (True, fs) else attempt F (FRemove path) fs)"

definition MarkerPath :: "string \<Rightarrow> string" where
  "MarkerPath dataDir = Join2 dataDir ''update.json''"

section \<open>The swap\<close>

definition PrevBinaryPath :: "string \<Rightarrow> string" where
  "PrevBinaryPath bin = Join2 (Dir bin) ''partout.old''"

definition StagingPath :: "string \<Rightarrow> string" where
  "StagingPath bin = Join2 (Dir bin) ''partout.new''"

datatype swap_error = ReadCurrent | WriteN1 | Staging | RenameIntoPlace

definition drop_staging :: "faults \<Rightarrow> string \<Rightarrow> disk \<Rightarrow> disk" where
  "drop_staging F bin fs = snd (attempt F (FRemove (StagingPath bin)) fs)"

definition Swap :: "faults \<Rightarrow> string \<Rightarrow> string \<Rightarrow> disk \<Rightarrow> (swap_error + string \<times> nat) \<times> disk" where
  "Swap F bin artifact fs =
     (case fs bin of
        None \<Rightarrow> (Inl ReadCurrent, fs)
      | Some cur \<Rightarrow>
          let prev = PrevBinaryPath bin; op = FWrite (StagingPath bin) artifact in
          (case (if fs prev = Some cur then (True, fs) else attempt F (FWrite prev cur) fs) of
             (False, fs1) \<Rightarrow> (Inl WriteN1, fs1)
           | (True, fs1) \<Rightarrow>
               (case attempt F op fs1 of
                  (False, fs2) \<Rightarrow> (Inl Staging, if F op = Refused then fs2 else drop_staging F bin fs2)
                | (True, fs2) \<Rightarrow>
                    (case attempt F (FRename (StagingPath bin) bin) fs2 of
                       (False, fs3) \<Rightarrow> (Inl RenameIntoPlace, drop_staging F bin fs3)
                     | (True, fs3) \<Rightarrow> (Inr (prev, length cur), fs3)))))"

text \<open>\<open>RestoreN1\<close>; the Boolean is success.\<close>

definition RestoreN1 :: "faults \<Rightarrow> string \<Rightarrow> string \<Rightarrow> disk \<Rightarrow> bool \<times> disk" where
  "RestoreN1 F bin prev fs =
     (if prev = [] \<or> fs prev = None then (False, fs) else attempt F (FRename prev bin) fs)"

text \<open>\<open>PostBootCheck\<close> of a process that runs \<open>current\<close>; \<open>bin\<close> is \<open>CurrentBinary\<close>, if it resolves.\<close>

definition PostBootCheck ::
  "faults \<Rightarrow> string option \<Rightarrow> string \<Rightarrow> string \<Rightarrow> disk \<Rightarrow> update_marker option \<times> disk" where
  "PostBootCheck F bin markerPath current fs =
     (case ReadMarker fs markerPath of
        None \<Rightarrow> (None, fs)
      | Some m \<Rightarrow>
          if Equal current (um_TargetVersion m) then (Some m, fs)
          else
            let fs1 = (if um_PrevBinary m \<noteq> [] then
                         (case bin of None \<Rightarrow> fs | Some b \<Rightarrow> snd (RestoreN1 F b (um_PrevBinary m) fs))
                       else fs)
            in (None, snd (RemoveMarker F markerPath fs1)))"

section \<open>Executing a directive\<close>

record update_cfg =
  uc_ReleaseKey :: string
  uc_DataDir :: string
  uc_Arch :: string
  uc_Version :: string \<comment> \<open>the running version\<close>
  uc_Binary :: "string option"
  uc_Now :: int

definition maxUpdateArtifact :: nat where "maxUpdateArtifact = 104857600"

definition downloadUpdateArtifact :: "update_lib \<Rightarrow> string \<Rightarrow> string option" where
  "downloadUpdateArtifact L grant =
     (case ul_download L grant of None \<Rightarrow> None | Some b \<Rightarrow> if length b > maxUpdateArtifact then None else Some b)"

datatype update_outcome =
    UpdFailed string \<comment> \<open>the stage\<close>
  | UpdVerified
  | UpdSwapped \<comment> \<open>reported, then the process exits\<close>

definition started_marker :: "update_cfg \<Rightarrow> directive \<Rightarrow> string \<Rightarrow> update_marker" where
  "started_marker c d bin = \<lparr>um_TargetVersion = di_Version d, um_ReleaseID = di_ReleaseId d,
     um_PrevBinary = PrevBinaryPath bin, um_StartedAt = uc_Now c\<rparr>"

definition execUpdate :: "update_lib \<Rightarrow> faults \<Rightarrow> update_cfg \<Rightarrow> directive \<Rightarrow> disk \<Rightarrow> update_outcome \<times> disk" where
  "execUpdate L F c d fs =
     (if Verify_directive L (uc_Arch c) d (uc_ReleaseKey c) \<noteq> None then (UpdFailed ''verify'', fs)
      else if Equal (di_Version d) (uc_Version c) then (UpdVerified, fs)
      else
        (case downloadUpdateArtifact L (di_Grant d) of
           None \<Rightarrow> (UpdFailed ''download'', fs)
         | Some art \<Rightarrow>
             if ul_sha L art \<noteq> lower (di_Sha256 d) then (UpdFailed ''integrity'', fs)
             else if \<not> ValidateBinary L art (di_Version d) then (UpdFailed ''binary'', fs)
             else
               (case uc_Binary c of
                  None \<Rightarrow> (UpdFailed ''swap'', fs)
                | Some bin \<Rightarrow>
                    let mp = MarkerPath (uc_DataDir c); marked = (uc_DataDir c \<noteq> []) in
                    (case (if marked then WriteMarker F mp (started_marker c d bin) fs else (True, fs)) of
                       (False, fs1) \<Rightarrow> (UpdFailed ''marker'', fs1)
                     | (True, fs1) \<Rightarrow>
                         (case Swap F bin art fs1 of
                            (Inl err, fs2) \<Rightarrow>
                              (UpdFailed ''swap'', if marked then snd (RemoveMarker F mp fs2) else fs2)
                          | (Inr (prev, n), fs2) \<Rightarrow>
                              if n = 0 then (UpdFailed ''swap'', fs2) else (UpdSwapped, fs2))))))"

text \<open>\<open>beginUpdate\<close> and \<open>endUpdate\<close>: the slot is kept only by an update that ends the process.\<close>

definition update_directive ::
  "update_lib \<Rightarrow> faults \<Rightarrow> update_cfg \<Rightarrow> directive \<Rightarrow> bool \<times> disk \<Rightarrow> update_outcome option \<times> bool \<times> disk" where
  "update_directive L F c d = (\<lambda>(busy, fs).
     (if busy then (None, True, fs)
      else (case execUpdate L F c d fs of (r, fs1) \<Rightarrow> (Some r, r = UpdSwapped, fs1))))"

text \<open>\<open>postConnectUpdateCheck\<close>: the release it reports as verified.\<close>

definition postConnectUpdateCheck :: "faults \<Rightarrow> update_cfg \<Rightarrow> disk \<Rightarrow> string option \<times> disk" where
  "postConnectUpdateCheck F c fs =
     (if uc_DataDir c = [] then (None, fs)
      else (case ReadMarker fs (MarkerPath (uc_DataDir c)) of
              None \<Rightarrow> (None, fs)
            | Some m \<Rightarrow>
                if \<not> Equal (um_TargetVersion m) (uc_Version c) then (None, fs)
                else (case RemoveMarker F (MarkerPath (uc_DataDir c)) fs of
                        (False, fs1) \<Rightarrow> (None, fs1)
                      | (True, fs1) \<Rightarrow> (Some (um_ReleaseID m), fs1))))"

section \<open>The boot guard\<close>

text \<open>\<open>get\<close> of the script: the first line that starts with the key.\<close>

definition guard_get :: "string \<Rightarrow> string \<Rightarrow> string" where
  "guard_get key s =
     (case find (\<lambda>l. has_prefix l (key @ ''='')) (split_char newline s) of
        None \<Rightarrow> [] | Some l \<Rightarrow> drop (length key + 1) l)"

definition guard_version :: "update_lib \<Rightarrow> string \<Rightarrow> string" where
  "guard_version L binary =
     (case ul_report L binary of
        None \<Rightarrow> []
      | Some out \<Rightarrow> (case str_fields (first_line out) of [] \<Rightarrow> [] | fs \<Rightarrow> last fs))"

definition health_window :: int where "health_window = 180"

definition boot_guard :: "update_lib \<Rightarrow> string \<Rightarrow> string \<Rightarrow> int \<Rightarrow> disk \<Rightarrow> disk" where
  "boot_guard L bin mp now fs =
     (case fs mp of
        None \<Rightarrow> fs
      | Some s \<Rightarrow>
          let target = guard_get ''target_version'' s; prev = guard_get ''prev_binary'' s;
              started = (if guard_get ''started_at'' s = [] then now else ParseInt10 (guard_get ''started_at'' s));
              cur = (case fs bin of None \<Rightarrow> [] | Some b \<Rightarrow> guard_version L b)
          in if target = [] then fs(mp := None)
             else if trim_prefix cur ''v'' = trim_prefix target ''v'' \<and> now - started \<le> health_window then fs
             else
               let fs1 = (if prev \<noteq> [] \<and> fs prev \<noteq> None then fexec (FRename prev bin) fs else fs)
               in fs1(mp := None))"

section \<open>Crashes\<close>

text \<open>The file operations of an update that passes its checks, in order.\<close>

definition swap_ops :: "string \<Rightarrow> string \<Rightarrow> string \<Rightarrow> disk \<Rightarrow> fop list" where
  "swap_ops bin cur artifact fs =
     (if fs (PrevBinaryPath bin) = Some cur then [] else [FWrite (PrevBinaryPath bin) cur]) @
     [FWrite (StagingPath bin) artifact, FRename (StagingPath bin) bin]"

definition update_ops :: "update_cfg \<Rightarrow> directive \<Rightarrow> string \<Rightarrow> string \<Rightarrow> string \<Rightarrow> disk \<Rightarrow> fop list" where
  "update_ops c d bin cur artifact fs =
     marker_ops (MarkerPath (uc_DataDir c)) (started_marker c d bin) @ swap_ops bin cur artifact fs"

text \<open>The process dies after \<open>k\<close> operations; if the next one is a write, perhaps after \<open>j\<close> of its bytes.\<close>

fun torn :: "nat option \<Rightarrow> fop \<Rightarrow> disk \<Rightarrow> disk" where
  "torn (Some j) (FWrite p b) fs = fs(p \<mapsto> take j b)"
| "torn n op fs = fs"

fun crashed :: "nat \<Rightarrow> nat option \<Rightarrow> fop list \<Rightarrow> disk \<Rightarrow> disk" where
  "crashed k n [] fs = fs"
| "crashed k n (op # ops) fs = (case k of 0 \<Rightarrow> torn n op fs | Suc k1 \<Rightarrow> crashed k1 n ops (fexec op fs))"

definition paths_ok :: "update_cfg \<Rightarrow> string \<Rightarrow> bool" where
  "paths_ok c bin \<longleftrightarrow> distinct [bin, PrevBinaryPath bin, StagingPath bin, MarkerPath (uc_DataDir c), MarkerPath (uc_DataDir c) @ ''.tmp'']"

section \<open>The marker file\<close>

definition clean_field :: "string \<Rightarrow> bool" where
  "clean_field v \<longleftrightarrow> newline \<notin> set v \<and> (v \<noteq> [] \<longrightarrow> plain_char (last v))"

definition clean_marker :: "update_marker \<Rightarrow> bool" where
  "clean_marker m \<longleftrightarrow> clean_field (um_TargetVersion m) \<and> clean_field (um_ReleaseID m) \<and> clean_field (um_PrevBinary m) \<and>
     - (2 ^ 63) \<le> um_StartedAt m \<and> um_StartedAt m < 2 ^ 63"

lemma show_nat_is_digits: "list_all is_digit (show_nat n)"
proof -
  have "is_digit (digit_char d)" if "d < 10" for d
    using that by (auto simp: is_digit_def less_eq_char_def of_char_digit)
  then show ?thesis using show_nat_digits by (fastforce simp: list_all_iff)
qed

lemma is_digit_plain: "is_digit ch \<Longrightarrow> plain_char ch \<and> ch \<noteq> newline \<and> ch \<noteq> CHR ''-'' \<and> ch \<noteq> CHR ''+''"
  by (auto simp: is_digit_def plain_char_def newline_def less_eq_char_def less_char_def)

lemma ParseInt10_show: "- (2 ^ 63) \<le> i \<Longrightarrow> i < 2 ^ 63 \<Longrightarrow> ParseInt10 (show_int i) = i"
proof -
  assume i: "- (2 ^ 63) \<le> i" "i < 2 ^ 63"
  have ds: "show_nat n \<noteq> []" "list_all is_digit (show_nat n)" for n by (simp_all add: show_nat_is_digits)
  have hd: "hd (show_nat n) \<noteq> CHR ''-'' \<and> hd (show_nat n) \<noteq> CHR ''+''" for n
    using ds [of n] is_digit_plain by (cases "show_nat n") auto
  show ?thesis using i ds hd by (auto simp: ParseInt10_def show_int_def dec_val_show_nat Let_def)
qed

lemma show_int_clean: "clean_field (show_int i)" "show_int i \<noteq> []" "plain_char (hd (show_int i))"
proof -
  have n: "newline \<notin> set (show_nat n)" "plain_char (last (show_nat n))" "plain_char (hd (show_nat n))" for n
    using show_nat_is_digits [of n] is_digit_plain show_nat_not_nil [of n]
    by (auto simp: list_all_iff)
  have m: "plain_char (CHR ''-'')" "CHR ''-'' \<noteq> newline" by (simp_all add: plain_char_def newline_def less_char_def)
  show "clean_field (show_int i)" "show_int i \<noteq> []" "plain_char (hd (show_int i))"
    using n m by (auto simp: clean_field_def show_int_def)
qed

lemma key_line:
  assumes "clean_field v" "key \<noteq> []" "plain_char (hd key)" "CHR ''='' \<notin> set key" "plain_char (last key)" "hd key \<noteq> CHR ''#''"
  shows "marker_line (key @ CHR ''='' # v) m =
    (if key = ''target_version'' then m\<lparr>um_TargetVersion := v\<rparr>
     else if key = ''release_id'' then m\<lparr>um_ReleaseID := v\<rparr>
     else if key = ''prev_binary'' then m\<lparr>um_PrevBinary := v\<rparr>
     else if key = ''started_at'' then m\<lparr>um_StartedAt := ParseInt10 (trim_space v)\<rparr>
     else m)"
proof -
  have pe: "plain_char (CHR ''='')" by (simp add: plain_char_def less_char_def)
  have t: "trim_space (key @ CHR ''='' # v) = key @ CHR ''='' # v"
    using assms pe by (intro trim_space_plain) (auto simp: clean_field_def)
  have c: "cut_char (CHR ''='') (key @ CHR ''='' # v) = (key, v, True)"
    using assms(4) by (auto simp: cut_char_def takeWhile_append dropWhile_append)
  have k: "trim_space key = key" using assms by (intro trim_space_plain) auto
  have h: "\<not> has_prefix (key @ CHR ''='' # v) ''#''" using assms(2,6) by (cases key) (auto simp: has_prefix_def)
  show ?thesis by (simp add: marker_line_def t c k h Let_def)
qed

lemma marker_lines:
  assumes "clean_marker m"
  shows "split_char newline (marker_text m) =
    [''target_version='' @ um_TargetVersion m, ''release_id='' @ um_ReleaseID m, ''prev_binary='' @ um_PrevBinary m,
     ''started_at='' @ show_int (um_StartedAt m), []]"
proof -
  have nl: "newline \<notin> set (''target_version='' @ um_TargetVersion m)" "newline \<notin> set (''release_id='' @ um_ReleaseID m)"
    "newline \<notin> set (''prev_binary='' @ um_PrevBinary m)" "newline \<notin> set (''started_at='' @ show_int (um_StartedAt m))"
    using assms show_int_clean(1) by (auto simp: clean_marker_def clean_field_def newline_def)
  have "marker_text m = (''target_version='' @ um_TargetVersion m) @ newline # (''release_id='' @ um_ReleaseID m) @ newline #
     (''prev_binary='' @ um_PrevBinary m) @ newline # (''started_at='' @ show_int (um_StartedAt m)) @ newline # []"
    by (simp add: marker_text_def)
  then show ?thesis
    by (simp only: split_char_append_sep [OF nl(1)] split_char_append_sep [OF nl(2)] split_char_append_sep [OF nl(3)]
        split_char_append_sep [OF nl(4)] split_char.simps)
qed

lemma k_roundtrip:
  assumes "clean_marker m"
  shows "parse_marker (marker_text m) = m"
proof -
  have k: "list_all (\<lambda>key. key \<noteq> [] \<and> plain_char (hd key) \<and> CHR ''='' \<notin> set key \<and> plain_char (last key) \<and> hd key \<noteq> CHR ''#'')
    [''target_version'', ''release_id'', ''prev_binary'', ''started_at'']" by code_simp
  have i: "trim_space (show_int (um_StartedAt m)) = show_int (um_StartedAt m)"
    using show_int_clean [of "um_StartedAt m"] by (intro trim_space_plain) (auto simp: clean_field_def)
  have l: "marker_line (''target_version='' @ v) n = n\<lparr>um_TargetVersion := v\<rparr>"
    "marker_line (''release_id='' @ v) n = n\<lparr>um_ReleaseID := v\<rparr>"
    "marker_line (''prev_binary='' @ v) n = n\<lparr>um_PrevBinary := v\<rparr>"
    "marker_line (''started_at='' @ v) n = n\<lparr>um_StartedAt := ParseInt10 (trim_space v)\<rparr>" if "clean_field v" for v n
    using k key_line [OF that, of "''target_version''" n] key_line [OF that, of "''release_id''" n]
      key_line [OF that, of "''prev_binary''" n] key_line [OF that, of "''started_at''" n] by simp_all
  have "marker_line [] n = n" for n by (simp add: marker_line_def)
  moreover have "clean_field (um_TargetVersion m)" "clean_field (um_ReleaseID m)" "clean_field (um_PrevBinary m)"
    "clean_field (show_int (um_StartedAt m))" "ParseInt10 (show_int (um_StartedAt m)) = um_StartedAt m"
    using assms show_int_clean(1) ParseInt10_show by (auto simp: clean_marker_def)
  ultimately show ?thesis
    by (simp add: parse_marker_def marker_lines [OF assms] l i empty_marker_def del: append.simps)
qed


text \<open>The marker of an update survives the disk: reading back what was written gives the same marker, as long as
  its fields hold no newline and do not end in white space.\<close>

theorem marker_roundtrip:
  assumes "clean_marker m"
  shows "parse_marker (marker_text m) = m"
  by (rule k_roundtrip [OF assms])

section \<open>Updates\<close>

lemma guard_get_marker:
  assumes "clean_marker m"
  shows "guard_get ''target_version'' (marker_text m) = um_TargetVersion m"
    and "guard_get ''prev_binary'' (marker_text m) = um_PrevBinary m"
    and "guard_get ''started_at'' (marker_text m) = show_int (um_StartedAt m)"
  by (simp_all add: guard_get_def marker_lines [OF assms] has_prefix_def)

definition all_fine :: faults where "all_fine = (\<lambda>op. Fine)"

lemma update_ops_unfold:
  "update_ops c d bin cur art fs =
     [FWrite (MarkerPath (uc_DataDir c) @ ''.tmp'') (marker_text (started_marker c d bin)),
      FRename (MarkerPath (uc_DataDir c) @ ''.tmp'') (MarkerPath (uc_DataDir c))] @
     (if fs (PrevBinaryPath bin) = Some cur then [] else [FWrite (PrevBinaryPath bin) cur]) @
     [FWrite (StagingPath bin) art, FRename (StagingPath bin) bin]"
  by (simp add: update_ops_def marker_ops_def swap_ops_def)

text \<open>C5: An update is never caught half way: wherever the process dies while the marker is written and the
  binary is swapped, inside a write included, the binary's file holds the whole old binary or the
  whole new one.\<close>

theorem update_crash_atomic:
  assumes "paths_ok c bin" "fs bin = Some cur"
  shows "crashed k n (update_ops c d bin cur art fs) fs bin \<in> {Some cur, Some art}"
proof -
  have "torn n (FWrite p b) gs q = gs q" if "p \<noteq> q" for p b gs and q :: string
    using that by (cases n) auto
  then show ?thesis
    using assms unfolding update_ops_unfold paths_ok_def by (auto split: nat.split)
qed

lemma Swap_fine:
  assumes "paths_ok c bin" "fs bin = Some cur"
  shows "Swap all_fine bin art fs =
    (Inr (PrevBinaryPath bin, length cur), fs(PrevBinaryPath bin \<mapsto> cur, StagingPath bin := None, bin \<mapsto> art))"
  using assms by (auto simp: Swap_def all_fine_def attempt_def paths_ok_def Let_def fun_eq_iff)

lemma WriteMarker_fine:
  "WriteMarker all_fine p m fs = (True, fs(p @ ''.tmp'' := None, p \<mapsto> marker_text m))"
  by (auto simp: WriteMarker_def marker_ops_def all_fine_def attempt_def fun_eq_iff)

text \<open>What a file system looks like after an update.\<close>

definition updated :: "update_cfg \<Rightarrow> directive \<Rightarrow> string \<Rightarrow> string \<Rightarrow> string \<Rightarrow> disk \<Rightarrow> disk" where
  "updated c d bin cur art fs = fs(MarkerPath (uc_DataDir c) @ ''.tmp'' := None,
     MarkerPath (uc_DataDir c) \<mapsto> marker_text (started_marker c d bin), PrevBinaryPath bin \<mapsto> cur, StagingPath bin := None, bin \<mapsto> art)"

lemma execUpdate_run:
  assumes "Verify_directive L (uc_Arch c) d (uc_ReleaseKey c) = None" "\<not> Equal (di_Version d) (uc_Version c)"
    and "downloadUpdateArtifact L (di_Grant d) = Some art" "ul_sha L art = lower (di_Sha256 d)"
    and "ValidateBinary L art (di_Version d)" "uc_Binary c = Some bin" "uc_DataDir c \<noteq> []"
    and "paths_ok c bin" "fs bin = Some cur" "cur \<noteq> []"
  shows "execUpdate L all_fine c d fs = (UpdSwapped, updated c d bin cur art fs)"
proof -
  let ?fs1 = "fs(MarkerPath (uc_DataDir c) @ ''.tmp'' := None, MarkerPath (uc_DataDir c) \<mapsto> marker_text (started_marker c d bin))"
  have p: "?fs1 bin = Some cur" using assms(8,9) by (auto simp: paths_ok_def)
  show ?thesis
    using assms(1-7,10) by (simp add: execUpdate_def WriteMarker_fine Swap_fine [of c bin ?fs1 cur art, OF assms(8) p] updated_def Let_def)
qed

text \<open>A directive that passes every check is carried out: the new binary is in place, the old one is kept
  beside it, no staging file is left, the marker on disk names the target version, the release and the
  kept binary, and no other file has changed.\<close>

theorem execUpdate_installs:
  assumes "Verify_directive L (uc_Arch c) d (uc_ReleaseKey c) = None" "\<not> Equal (di_Version d) (uc_Version c)"
    and "downloadUpdateArtifact L (di_Grant d) = Some art" "ul_sha L art = lower (di_Sha256 d)"
    and "ValidateBinary L art (di_Version d)" "uc_Binary c = Some bin" "uc_DataDir c \<noteq> []"
    and "paths_ok c bin" "fs bin = Some cur" "cur \<noteq> []" "clean_marker (started_marker c d bin)" "di_Version d \<noteq> []"
  shows "execUpdate L all_fine c d fs = (UpdSwapped, updated c d bin cur art fs) \<and>
    ReadMarker (updated c d bin cur art fs) (MarkerPath (uc_DataDir c)) = Some (started_marker c d bin)"
proof -
  have "execUpdate L all_fine c d fs = (UpdSwapped, updated c d bin cur art fs)"
    by (rule execUpdate_run) (use assms in simp_all)
  moreover have "updated c d bin cur art fs (MarkerPath (uc_DataDir c)) = Some (marker_text (started_marker c d bin))"
    using assms(8) by (auto simp: updated_def paths_ok_def)
  moreover have "parse_marker (marker_text (started_marker c d bin)) = started_marker c d bin"
    "um_TargetVersion (started_marker c d bin) = di_Version d"
    using assms(11) k_roundtrip by (simp_all add: started_marker_def)
  ultimately show ?thesis using assms(12) by (simp add: ReadMarker_def Let_def)
qed

text \<open>An update that does not come up is undone: when the marker is still there after the health window, the boot
  guard puts the old binary back and removes the marker.\<close>

theorem stale_update_undone:
  assumes "paths_ok c bin" "clean_marker (started_marker c d bin)" "di_Version d \<noteq> []" "PrevBinaryPath bin \<noteq> []"
    and "health_window < now - uc_Now c"
  shows "boot_guard L bin (MarkerPath (uc_DataDir c)) now (updated c d bin cur art fs) =
    (updated c d bin cur art fs)(PrevBinaryPath bin := None, bin \<mapsto> cur, MarkerPath (uc_DataDir c) := None)"
proof -
  have u: "updated c d bin cur art fs (MarkerPath (uc_DataDir c)) = Some (marker_text (started_marker c d bin))"
    "updated c d bin cur art fs (PrevBinaryPath bin) = Some cur"
    using assms(1) by (auto simp: updated_def paths_ok_def)
  have s: "ParseInt10 (show_int (uc_Now c)) = uc_Now c"
    using assms(2) ParseInt10_show by (simp add: clean_marker_def started_marker_def)
  show ?thesis
    using assms(3-5) u s show_int_clean(2)
    by (simp add: boot_guard_def guard_get_marker [OF assms(2)] Let_def) (simp add: started_marker_def)
qed

lemma crashed_after_marker:
  assumes "paths_ok c bin" "fs (PrevBinaryPath bin) \<noteq> Some cur" "fs1 = crashed 2 n (update_ops c d bin cur art fs) fs"
  shows "fs1 (MarkerPath (uc_DataDir c)) = Some (marker_text (started_marker c d bin)) \<and> fs1 bin = fs bin \<and>
    fs1 (PrevBinaryPath bin) = (case n of None \<Rightarrow> fs (PrevBinaryPath bin) | Some j \<Rightarrow> Some (take j cur))"
  using assms unfolding update_ops_unfold paths_ok_def by (auto simp: numeral_2_eq_2 split: option.split)

text \<open>A crash before the swap can destroy the working binary: when the process dies right after the marker is
  written, the guard, instead of running the untouched current binary, replaces it with what
  \<open>partout.old\<close> holds at that moment: the binary before the current one, or, if the copy had begun, a
  truncated copy of the current one.\<close>

theorem crash_before_swap_rolls_back_too_far:
  assumes "paths_ok c bin" "fs bin = Some cur" "fs (PrevBinaryPath bin) = Some old" "old \<noteq> cur"
    and "clean_marker (started_marker c d bin)" "di_Version d \<noteq> []" "PrevBinaryPath bin \<noteq> []"
    and "trim_prefix (guard_version L cur) ''v'' \<noteq> trim_prefix (di_Version d) ''v''"
  shows "boot_guard L bin (MarkerPath (uc_DataDir c)) now (crashed 2 n (update_ops c d bin cur art fs) fs) bin =
    Some (case n of None \<Rightarrow> old | Some j \<Rightarrow> take j cur)"
proof -
  let ?fs1 = "crashed 2 n (update_ops c d bin cur art fs) fs"
  have s: "?fs1 (MarkerPath (uc_DataDir c)) = Some (marker_text (started_marker c d bin))" "?fs1 bin = Some cur"
    "?fs1 (PrevBinaryPath bin) = Some (case n of None \<Rightarrow> old | Some j \<Rightarrow> take j cur)"
    using crashed_after_marker [OF assms(1) _ refl, of fs cur n d art] assms(2-4) by (auto split: option.split)
  have mp: "bin \<noteq> MarkerPath (uc_DataDir c)" using assms(1) by (auto simp: paths_ok_def)
  show ?thesis
    using s(2,3) mp assms(6-8)
    by (simp add: boot_guard_def s(1) guard_get_marker [OF assms(5)] Let_def) (simp add: started_marker_def)
qed

lemma attempt_other:
  "p \<noteq> q \<Longrightarrow> snd (attempt F (FWrite p b) fs) q = fs q"
  "a \<noteq> q \<Longrightarrow> t \<noteq> q \<Longrightarrow> snd (attempt F (FRename a t) fs) q = fs q"
  "p \<noteq> q \<Longrightarrow> snd (attempt F (FRemove p) fs) q = fs q"
  by (auto simp: attempt_def split: fault.split option.split)

lemma Swap_binary:
  assumes "paths_ok c bin"
  shows "snd (Swap F bin art fs) bin \<in> {fs bin, Some art}"
proof (cases "fs bin")
  case None
  then show ?thesis by (simp add: Swap_def)
next
  case (Some cur)
  have p: "PrevBinaryPath bin \<noteq> bin" "StagingPath bin \<noteq> bin" using assms by (auto simp: paths_ok_def)
  obtain ok1 fs1 where 1: "(if fs (PrevBinaryPath bin) = Some cur then (True, fs) else attempt F (FWrite (PrevBinaryPath bin) cur) fs) = (ok1, fs1)"
    by (meson surj_pair)
  have f1: "fs1 bin = fs bin" using 1 attempt_other(1) [of "PrevBinaryPath bin" bin F cur fs] p by (auto split: if_splits)
  obtain ok2 fs2 where 2: "attempt F (FWrite (StagingPath bin) art) fs1 = (ok2, fs2)" by (meson surj_pair)
  have f2: "fs2 bin = fs bin" using 2 attempt_other(1) [of "StagingPath bin" bin F art fs1] p f1 by auto
  obtain ok3 fs3 where 3: "attempt F (FRename (StagingPath bin) bin) fs2 = (ok3, fs3)" by (meson surj_pair)
  have f3: "ok2 \<Longrightarrow> fs3 bin \<in> {fs bin, Some art}" and f3': "\<not> ok3 \<Longrightarrow> fs3 = fs2"
    using 2 3 f2 p by (auto simp: attempt_def split: if_splits fault.splits option.splits)
  have d: "drop_staging F bin g bin = g bin" for g
    using p by (simp add: drop_staging_def attempt_other)
  show ?thesis using Some f2 f3 f3' f1 d by (simp add: Swap_def Let_def 1 2 3 split: bool.split)
qed

text \<open>Only a verified binary is installed: whatever file operations fail on the way, if executing a directive
  changes the binary then the directive was accepted under the release key and the host's
  architecture, and the new content is the downloaded artifact, whole, with the digest the directive
  names, and it runs and reports the version the directive names.\<close>

theorem execUpdate_verified:
  assumes "uc_Binary c = Some bin" "paths_ok c bin" "snd (execUpdate L F c d fs) bin \<noteq> fs bin"
  shows "Verify_directive L (uc_Arch c) d (uc_ReleaseKey c) = None \<and>
    (\<exists>art. snd (execUpdate L F c d fs) bin = Some art \<and> ul_sha L art = lower (di_Sha256 d) \<and> ValidateBinary L art (di_Version d))"
proof -
  let ?mp = "MarkerPath (uc_DataDir c)"
  have p: "?mp \<noteq> bin" "?mp @ ''.tmp'' \<noteq> bin" using assms(2) by (auto simp: paths_ok_def)
  have wm: "snd (WriteMarker F ?mp m fs) bin = fs bin" for m
    using p attempt_other(1) [of "?mp @ ''.tmp''" bin F "marker_text m" fs]
      attempt_other(2) [of "?mp @ ''.tmp''" bin ?mp F "snd (attempt F (FWrite (?mp @ ''.tmp'') (marker_text m)) fs)"]
    by (auto simp: WriteMarker_def marker_ops_def split: prod.split bool.split)
  have rm: "snd (RemoveMarker F ?mp g) bin = g bin" for g
    using p by (auto simp: RemoveMarker_def attempt_other)
  from assms(1,3) obtain art where art: "Verify_directive L (uc_Arch c) d (uc_ReleaseKey c) = None"
    "downloadUpdateArtifact L (di_Grant d) = Some art" "ul_sha L art = lower (di_Sha256 d)"
    "ValidateBinary L art (di_Version d)" "\<not> Equal (di_Version d) (uc_Version c)"
    by (auto simp: execUpdate_def split: if_splits option.splits)
  obtain ok1 fs1 where 1: "(if uc_DataDir c \<noteq> [] then WriteMarker F ?mp (started_marker c d bin) fs else (True, fs)) = (ok1, fs1)"
    by (meson surj_pair)
  have f1: "fs1 bin = fs bin" using 1 wm [of "started_marker c d bin"] by (auto split: if_splits)
  obtain r fs2 where 2: "Swap F bin art fs1 = (r, fs2)" by (meson surj_pair)
  have f2: "fs2 bin \<in> {fs bin, Some art}" using 2 Swap_binary [OF assms(2), of F art fs1] f1 by simp
  have "snd (execUpdate L F c d fs) bin \<in> {fs bin, Some art}"
    using art assms(1) f1 f2 rm by (auto simp: execUpdate_def Let_def 1 2 split: bool.split sum.split)
  with assms(3) art show ?thesis by auto
qed


section \<open>Instances\<close>

definition agent_bin :: string where "agent_bin = ''/usr/local/bin/partout''"

definition cfg1 :: update_cfg where
  "cfg1 = \<lparr>uc_ReleaseKey = [], uc_DataDir = ''/var/lib/partout/agent'', uc_Arch = ''linux-amd64'', uc_Version = ''0.9.4'',
     uc_Binary = Some agent_bin, uc_Now = 1000\<rparr>"

definition directive1 :: directive where
  "directive1 = \<lparr>di_ReleaseId = ''rel_1'', di_Version = ''v0.9.5'', di_Arch = ''linux-amd64'', di_Kind = ''agent'',
     di_Sha256 = replicate 64 (CHR ''a''), di_Signature = [], di_Unsigned = True, di_Grant = ''g''\<rparr>"

text \<open>Here a binary is the version it reports.\<close>

definition lib1 :: update_lib where
  "lib1 = \<lparr>ul_b64 = Some, ul_verify = (\<lambda>k m s. True), ul_sha = (\<lambda>b. replicate 64 (CHR ''a'')), ul_download = (\<lambda>g. Some ''0.9.5''),
     ul_report = (\<lambda>b. Some (''partout '' @ b))\<rparr>"

definition disk1 :: disk where
  "disk1 = [agent_bin \<mapsto> ''0.9.4'', ''/usr/local/bin/partout.old'' \<mapsto> ''0.9.3'']"

lemma agent_paths:
  "PrevBinaryPath agent_bin = ''/usr/local/bin/partout.old''" "StagingPath agent_bin = ''/usr/local/bin/partout.new''"
  "MarkerPath (uc_DataDir cfg1) = ''/var/lib/partout/agent/update.json''"
  by code_simp+

lemma paths1: "paths_ok cfg1 agent_bin"
  by (simp add: paths_ok_def agent_paths) (simp add: agent_bin_def)

lemma marker1: "clean_marker (started_marker cfg1 directive1 agent_bin)"
  by (simp add: clean_marker_def clean_field_def started_marker_def agent_paths)
    (simp add: cfg1_def directive1_def newline_def plain_char_def less_char_def)

theorem marker_roundtrip_witness:
  "parse_marker (marker_text (started_marker cfg1 directive1 agent_bin)) = started_marker cfg1 directive1 agent_bin"
  by (rule marker_roundtrip [OF marker1])

theorem update_crash_atomic_witness:
  "crashed 3 (Some 2) (update_ops cfg1 directive1 agent_bin ''0.9.4'' ''0.9.5'' disk1) disk1 agent_bin \<in> {Some ''0.9.4'', Some ''0.9.5''}"
  by (rule update_crash_atomic [OF paths1]) (simp add: disk1_def agent_bin_def)

lemma checks1:
  "Verify_directive lib1 (uc_Arch cfg1) directive1 (uc_ReleaseKey cfg1) = None" "\<not> Equal (di_Version directive1) (uc_Version cfg1)"
  "ul_sha lib1 ''0.9.5'' = lower (di_Sha256 directive1)" "ValidateBinary lib1 ''0.9.5'' (di_Version directive1)"
  by code_simp+

lemma dl1: "downloadUpdateArtifact lib1 (di_Grant directive1) = Some ''0.9.5''"
  by (simp add: downloadUpdateArtifact_def lib1_def maxUpdateArtifact_def)

theorem execUpdate_installs_witness:
  "fst (execUpdate lib1 all_fine cfg1 directive1 disk1) = UpdSwapped"
proof -
  have "execUpdate lib1 all_fine cfg1 directive1 disk1 = (UpdSwapped, updated cfg1 directive1 agent_bin ''0.9.4'' ''0.9.5'' disk1) \<and>
    ReadMarker (updated cfg1 directive1 agent_bin ''0.9.4'' ''0.9.5'' disk1) (MarkerPath (uc_DataDir cfg1)) =
      Some (started_marker cfg1 directive1 agent_bin)"
  proof (rule execUpdate_installs [OF checks1(1,2) dl1 checks1(3,4) _ _ paths1 _ _ marker1])
  qed (simp_all add: cfg1_def directive1_def disk1_def agent_bin_def)
  then show ?thesis by simp
qed

theorem stale_update_undone_witness:
  "boot_guard lib1 agent_bin (MarkerPath (uc_DataDir cfg1)) 2000 (updated cfg1 directive1 agent_bin ''0.9.4'' ''0.9.5'' disk1) agent_bin =
     Some ''0.9.4''"
proof -
  have "boot_guard lib1 agent_bin (MarkerPath (uc_DataDir cfg1)) 2000 (updated cfg1 directive1 agent_bin ''0.9.4'' ''0.9.5'' disk1) =
    (updated cfg1 directive1 agent_bin ''0.9.4'' ''0.9.5'' disk1)(PrevBinaryPath agent_bin := None, agent_bin \<mapsto> ''0.9.4'',
       MarkerPath (uc_DataDir cfg1) := None)"
    by (rule stale_update_undone [OF paths1 marker1])
      (simp_all add: agent_paths, simp_all add: directive1_def cfg1_def health_window_def)
  then show ?thesis by (simp add: agent_paths) (simp add: agent_bin_def)
qed

theorem crash_before_swap_rolls_back_too_far_witness:
  "boot_guard lib1 agent_bin (MarkerPath (uc_DataDir cfg1)) 1001
     (crashed 2 (Some 3) (update_ops cfg1 directive1 agent_bin ''0.9.4'' ''0.9.5'' disk1) disk1) agent_bin = Some ''0.9''"
proof -
  have v: "trim_prefix (guard_version lib1 ''0.9.4'') ''v'' \<noteq> trim_prefix (di_Version directive1) ''v''" by code_simp
  have "boot_guard lib1 agent_bin (MarkerPath (uc_DataDir cfg1)) 1001
     (crashed 2 (Some 3) (update_ops cfg1 directive1 agent_bin ''0.9.4'' ''0.9.5'' disk1) disk1) agent_bin =
     Some (case Some 3 of None \<Rightarrow> ''0.9.3'' | Some j \<Rightarrow> take j ''0.9.4'')"
    by (rule crash_before_swap_rolls_back_too_far [OF paths1 _ _ _ marker1 _ _ v])
      (simp_all add: agent_paths disk1_def, simp_all add: agent_bin_def directive1_def)
  then show ?thesis by simp
qed

theorem execUpdate_verified_witness:
  "ValidateBinary lib1 ''0.9.5'' (di_Version directive1)"
proof -
  have e: "snd (execUpdate lib1 all_fine cfg1 directive1 disk1) agent_bin = Some ''0.9.5''"
    by (subst execUpdate_run [where cur = "''0.9.4''", OF checks1(1,2) dl1 checks1(3,4) _ _ paths1])
      (simp_all add: cfg1_def disk1_def agent_bin_def updated_def)
  then have "snd (execUpdate lib1 all_fine cfg1 directive1 disk1) agent_bin \<noteq> disk1 agent_bin"
    by (simp add: disk1_def agent_bin_def)
  from execUpdate_verified [OF _ paths1 this] e show ?thesis by (auto simp: cfg1_def)
qed

end
