(* ===== verification/AgentPkg.thy ===== *)
theory AgentPkg
  imports TaskRunner
begin

text \<open>
  Package operations on the agent: the backends and their parsers
  (\<open>src/internal/agent/pkg/pkg.go\<close>) and the apply flow with its journals (\<open>agent.go\<close>, \<open>execPkgOp\<close>,
  \<open>execPkgApply\<close>, \<open>countPkgChanges\<close>).  Commands run on the host of \<open>TaskRunner\<close>; the
  regular expressions of the two update parsers are arguments, as the Go regexp library is.
\<close>

section \<open>Parsers\<close>

record pkg_update =
  pu_Name :: string
  pu_Installed :: string
  pu_Available :: string

definition tab :: char where "tab = CHR 0x09"

definition lines_of :: "string \<Rightarrow> string list" where
  "lines_of s = split_char (CHR 0x0A) s"

text \<open>One line of \<open>parseDpkgQuery\<close> and of \<open>parseRPMQA\<close>.\<close>

definition dpkg_line :: "string \<Rightarrow> pkg_update list" where
  "dpkg_line line =
     (let f = str_fields line in
      if length f < 3 then []
      else if f ! 2 \<noteq> ''installed'' then []
      else [\<lparr>pu_Name = f ! 0, pu_Installed = f ! 1, pu_Available = []\<rparr>])"

definition parseDpkgQuery :: "string \<Rightarrow> pkg_update list" where
  "parseDpkgQuery b = concat (map dpkg_line (lines_of b))"

definition rpm_line :: "string \<Rightarrow> pkg_update list" where
  "rpm_line line =
     (let f = str_fields line in
      if length f < 2 then [] else [\<lparr>pu_Name = f ! 0, pu_Installed = f ! 1, pu_Available = []\<rparr>])"

definition parseRPMQA :: "string \<Rightarrow> pkg_update list" where
  "parseRPMQA b = concat (map rpm_line (lines_of b))"

definition last20 :: "string list \<Rightarrow> string list" where
  "last20 ls = drop (length ls - 20) ls"

definition summarizeDNF :: "string \<Rightarrow> string" where
  "summarizeDNF s = join_str [CHR 0x0A] (last20 (lines_of s))"

text \<open>A scanner's lines: without a last empty one, and without a carriage return at the end.\<close>

definition drop_cr :: "string \<Rightarrow> string" where
  "drop_cr l = (if l \<noteq> [] \<and> last l = CHR 0x0D then butlast l else l)"

definition scan_lines :: "string \<Rightarrow> string list" where
  "scan_lines s = (let ls = lines_of s in map drop_cr (if last ls = [] then butlast ls else ls))"

definition summarizeAptUpgrade :: "string \<Rightarrow> string" where
  "summarizeAptUpgrade s = join_str [CHR 0x0A] (last20 (scan_lines s))"

text \<open>\<open>FindStringSubmatch\<close> of the three patterns: the groups, the whole match first.\<close>

record pkg_patterns =
  px_inst :: "string \<Rightarrow> string list"
  px_inst_brk :: "string \<Rightarrow> string list"
  px_dnf :: "string \<Rightarrow> string list"

definition apt_line :: "pkg_patterns \<Rightarrow> string \<Rightarrow> pkg_update list" where
  "apt_line px line =
     (if \<not> has_prefix line ''Inst '' then []
      else
        let m = px_inst px line in
        if length m \<ge> 5 then [\<lparr>pu_Name = m ! 1, pu_Installed = m ! 3, pu_Available = m ! 4\<rparr>]
        else
          let b = px_inst_brk px line in
          if length b \<ge> 4 then
            [\<lparr>pu_Name = fst (cut_char (CHR '':'') (b ! 1)), pu_Installed = b ! 2, pu_Available = b ! 3\<rparr>]
          else [])"

definition parseAptUpgrade :: "pkg_patterns \<Rightarrow> string \<Rightarrow> pkg_update list" where
  "parseAptUpgrade px s = concat (map (apt_line px) (scan_lines s))"

definition dnf_line :: "pkg_patterns \<Rightarrow> string \<Rightarrow> pkg_update list" where
  "dnf_line px raw =
     (let line = trim_space raw in
      if line = [] then []
      else
        let m = px_dnf px line in
        if length m < 4 then [] else [\<lparr>pu_Name = m ! 1, pu_Installed = [], pu_Available = m ! 3\<rparr>])"

definition parseDNFCheck :: "pkg_patterns \<Rightarrow> string \<Rightarrow> pkg_update list" where
  "parseDNFCheck px s = concat (map (dnf_line px) (scan_lines s))"

section \<open>Backends\<close>

datatype backend = Apt | Dnf | Noop

definition SelectBackend :: "(string \<rightharpoonup> string) \<Rightarrow> backend" where
  "SelectBackend facts =
     (let d = (case facts ''host.distro'' of None \<Rightarrow> [] | Some v \<Rightarrow> v) in
      if d \<in> set apt_distros then Apt else if d \<in> set dnf_distros then Dnf else Noop)"

type_synonym ('a, 'w) hostm = "'w \<Rightarrow> (string + 'a) \<times> 'w"

definition run_elev ::
  "('w, 'z) host_scheme \<Rightarrow> policy_runner \<Rightarrow> string \<Rightarrow> string list \<Rightarrow> (string \<times> string) list \<Rightarrow> 'w \<Rightarrow> (string option \<times> string) \<times> 'w" where
  "run_elev H r name args env w = h_run H (Wrap r name args) env w"

text \<open>\<open>run\<close>: the output is trimmed.\<close>

definition run_query :: "('w, 'z) host_scheme \<Rightarrow> string \<Rightarrow> string list \<Rightarrow> 'w \<Rightarrow> (string option \<times> string) \<times> 'w" where
  "run_query H name args w = (case h_run H (name, args) [] w of ((err, out), w1) \<Rightarrow> ((err, trim_space out), w1))"

definition apt_focus :: "string list" where
  "apt_focus = [''-o'', ''Dpkg::Progress-Focus=full'']"

definition refresh :: "('w, 'z) host_scheme \<Rightarrow> policy_runner \<Rightarrow> string \<Rightarrow> string list \<Rightarrow> 'w \<Rightarrow> 'w" where
  "refresh H r name args w = (if Elevates r name args then snd (run_elev H r name args [] w) else w)"

definition rpm_inventory_line :: "string \<Rightarrow> (string \<rightharpoonup> string) \<Rightarrow> (string \<rightharpoonup> string)" where
  "rpm_inventory_line line m = (case cut_char tab line of (name, ver, ok) \<Rightarrow> if ok then m(name \<mapsto> ver) else m)"

definition rpmInventory :: "('w, 'z) host_scheme \<Rightarrow> 'w \<Rightarrow> (string + (string \<rightharpoonup> string)) \<times> 'w" where
  "rpmInventory H w =
     (case run_query H ''rpm'' [''-qa'', ''--qf'', ''%{NAME}'' @ [tab] @ ''%{VERSION}-%{RELEASE}'' @ [CHR 0x0A]] w of
        ((Some err, out), w1) \<Rightarrow> (Inl err, w1)
      | ((None, out), w1) \<Rightarrow> (Inr (fold rpm_inventory_line (lines_of out) Map.empty), w1))"

definition dnfListWithInstalled :: "('w, 'z) host_scheme \<Rightarrow> pkg_update list \<Rightarrow> 'w \<Rightarrow> pkg_update list \<times> 'w" where
  "dnfListWithInstalled H ups w =
     (case rpmInventory H w of
        (Inl err, w1) \<Rightarrow> (ups, w1)
      | (Inr known, w1) \<Rightarrow>
          (map (\<lambda>u. u\<lparr>pu_Installed := (case known (pu_Name u) of None \<Rightarrow> [] | Some v \<Rightarrow> v)\<rparr>) ups, w1))"

definition List_updates ::
  "('w, 'z) host_scheme \<Rightarrow> pkg_patterns \<Rightarrow> policy_runner \<Rightarrow> backend \<Rightarrow> (pkg_update list, 'w) hostm" where
  "List_updates H px r b w =
     (case b of
        Apt \<Rightarrow>
          (case run_query H ''apt-get'' (apt_focus @ [''-s'', ''upgrade'']) (refresh H r ''apt-get'' [''-qq'', ''update''] w) of
             ((Some err, out), w1) \<Rightarrow> (Inl (''apt-get upgrade -s: '' @ err), w1)
           | ((None, out), w1) \<Rightarrow> (Inr (parseAptUpgrade px out), w1))
      | Dnf \<Rightarrow>
          (case run_query H ''dnf'' [''check-update''] (refresh H r ''dnf'' [''-q'', ''makecache''] w) of
             ((Some err, out), w1) \<Rightarrow>
               if err = ''exit status 100'' then
                 (case dnfListWithInstalled H (parseDNFCheck px out) w1 of (ups, w2) \<Rightarrow> (Inr ups, w2))
               else (Inl (''dnf check-update: '' @ err), w1)
           | ((None, out), w1) \<Rightarrow> (Inr [], w1))
      | Noop \<Rightarrow> (Inr [], w))"

definition truncateStr :: "string \<Rightarrow> nat \<Rightarrow> string" where
  "truncateStr s n = (if length s \<le> n then s else take n s @ '' '' @ map char_of [0xE2, 0x80, 0xA6 :: nat])"

definition DryRun :: "('w, 'z) host_scheme \<Rightarrow> policy_runner \<Rightarrow> backend \<Rightarrow> (string, 'w) hostm" where
  "DryRun H r b w =
     (case b of
        Apt \<Rightarrow>
          (case run_query H ''apt-get'' (apt_focus @ [''-s'', ''upgrade'']) w of
             ((Some err, out), w1) \<Rightarrow> (Inl (''apt-get -s upgrade: '' @ err), w1)
           | ((None, out), w1) \<Rightarrow> (Inr (summarizeAptUpgrade out), w1))
      | Dnf \<Rightarrow>
          (case run_elev H r ''dnf'' [''upgrade'', ''--assumeno''] [] w of
             ((Some err, out), w1) \<Rightarrow>
               if err = ''exit status 1'' then (Inr (summarizeDNF out), w1)
               else (Inl (''dnf upgrade --assumeno: '' @ err @ '': '' @ truncateStr out 300), w1)
           | ((None, out), w1) \<Rightarrow> (Inr (summarizeDNF out), w1))
      | Noop \<Rightarrow> (Inr ''no-op: package backend not installed for this distro'', w))"

definition root_phrases :: "string list" where
  "root_phrases = [''Permission denied'', ''permission denied'', ''lock file'', ''are you root'',
     ''superuser privileges'', ''cannot open lock'', ''This command has to be run'']"

text \<open>\<open>elevHint\<close>: whether the remedy is added to the error.\<close>

definition elevHint :: "policy_runner \<Rightarrow> string \<Rightarrow> string list \<Rightarrow> string \<Rightarrow> bool" where
  "elevHint r name args err \<longleftrightarrow> \<not> Elevates r name args \<and> list_ex (contains err) root_phrases"

definition hinted :: "policy_runner \<Rightarrow> string \<Rightarrow> string list \<Rightarrow> string \<Rightarrow> string" where
  "hinted r name args err = (if elevHint r name args err then err @ '' - elevation is OFF on this host'' else err)"

definition Apply_upgrade :: "('w, 'z) host_scheme \<Rightarrow> policy_runner \<Rightarrow> backend \<Rightarrow> (unit, 'w) hostm" where
  "Apply_upgrade H r b w =
     (case b of
        Apt \<Rightarrow>
          (case run_elev H r ''apt-get'' (apt_focus @ [''-y'', ''-o'', ''Dpkg::Options::=--force-confdef'',
                  ''-o'', ''Dpkg::Options::=--force-confold'', ''upgrade'']) [(''DEBIAN_FRONTEND'', ''noninteractive'')] w of
             ((Some err, out), w1) \<Rightarrow>
               (Inl (hinted r ''apt-get'' [''upgrade''] (''apt-get upgrade: '' @ err @ '': '' @ out)), w1)
           | ((None, out), w1) \<Rightarrow> (Inr (), w1))
      | Dnf \<Rightarrow>
          (case run_elev H r ''dnf'' [''-y'', ''upgrade''] [(''LANG'', ''en_US.UTF-8'')] w of
             ((Some err, out), w1) \<Rightarrow>
               (Inl (hinted r ''dnf'' [''-y'', ''upgrade''] (''dnf upgrade: '' @ err @ '': '' @ out)), w1)
           | ((None, out), w1) \<Rightarrow> (Inr (), w1))
      | Noop \<Rightarrow> (Inl ''package backend not available for this distro'', w))"

definition Installed_pkgs :: "('w, 'z) host_scheme \<Rightarrow> backend \<Rightarrow> (pkg_update list, 'w) hostm" where
  "Installed_pkgs H b w =
     (case b of
        Apt \<Rightarrow>
          (case h_run H (''dpkg-query'', [''-W'', ''-f'', ''${Package}'' @ [tab] @ ''${Version}'' @ [tab] @ ''${Status}'' @ [CHR 0x0A]])
                  [(''DEBIAN_FRONTEND'', ''noninteractive'')] w of
             ((Some err, out), w1) \<Rightarrow> (Inl (''dpkg-query -W: '' @ err @ '': '' @ out), w1)
           | ((None, out), w1) \<Rightarrow> (Inr (parseDpkgQuery out), w1))
      | Dnf \<Rightarrow>
          (case h_run H (''rpm'', [''-qa'', ''--qf'', ''%{NAME}'' @ [tab] @ ''%{VERSION}-%{RELEASE}'' @ [tab] @ ''%{EPOCH}'' @ [CHR 0x0A]]) [] w of
             ((Some err, out), w1) \<Rightarrow> (Inl (''rpm -qa: '' @ err @ '': '' @ out), w1)
           | ((None, out), w1) \<Rightarrow> (Inr (parseRPMQA out), w1))
      | Noop \<Rightarrow> (Inr [], w))"

section \<open>The apply flow\<close>

record pkg_result =
  pr_Code :: int
  pr_Error :: string
  pr_Updates :: "pkg_update list"
  pr_Before :: "pkg_update list"
  pr_After :: "pkg_update list"
  pr_DryRunSummary :: string
  pr_Applied :: bool
  pr_AppliedCount :: nat

definition pkg_result0 :: pkg_result where
  "pkg_result0 = \<lparr>pr_Code = 0, pr_Error = [], pr_Updates = [], pr_Before = [], pr_After = [], pr_DryRunSummary = [],
     pr_Applied = False, pr_AppliedCount = 0\<rparr>"

definition afterByName :: "pkg_update list \<Rightarrow> (string \<rightharpoonup> string)" where
  "afterByName us = fold (\<lambda>u m. m(pu_Name u \<mapsto> pu_Installed u)) us Map.empty"

definition countPkgChanges :: "pkg_update list \<Rightarrow> pkg_update list \<Rightarrow> nat" where
  "countPkgChanges before after =
     length (filter (\<lambda>u. case afterByName after (pu_Name u) of None \<Rightarrow> False | Some v \<Rightarrow> v \<noteq> pu_Installed u) before)"

definition execPkgApply ::
  "('w, 'z) host_scheme \<Rightarrow> policy_runner \<Rightarrow> backend \<Rightarrow> bool \<Rightarrow> 'w \<Rightarrow> pkg_result \<times> 'w" where
  "execPkgApply H r b dry_only w =
     (case Installed_pkgs H b w of
        (Inl err, w1) \<Rightarrow> (pkg_result0\<lparr>pr_Code := 500, pr_Error := ''journal: '' @ err\<rparr>, w1)
      | (Inr before, w1) \<Rightarrow>
          (case DryRun H r b w1 of
             (Inl err, w2) \<Rightarrow> (pkg_result0\<lparr>pr_Code := 500, pr_Error := ''dry-run: '' @ err\<rparr>, w2)
           | (Inr summary, w2) \<Rightarrow>
               if dry_only then (pkg_result0\<lparr>pr_DryRunSummary := summary, pr_Before := before\<rparr>, w2)
               else
                 (case Apply_upgrade H r b w2 of
                    (Inl err, w3) \<Rightarrow>
                      (pkg_result0\<lparr>pr_Code := 500, pr_Error := ''apply: '' @ err, pr_DryRunSummary := summary, pr_Before := before\<rparr>, w3)
                  | (Inr _, w3) \<Rightarrow>
                      (case Installed_pkgs H b w3 of
                         (Inl err, w4) \<Rightarrow>
                           (pkg_result0\<lparr>pr_Code := 500, pr_Error := ''after-journal: '' @ err, pr_DryRunSummary := summary,
                              pr_Before := before\<rparr>, w4)
                       | (Inr after, w4) \<Rightarrow>
                           (pkg_result0\<lparr>pr_Applied := True, pr_AppliedCount := countPkgChanges before after,
                              pr_DryRunSummary := summary, pr_Before := before, pr_After := after\<rparr>, w4)))))"

definition execPkgOp ::
  "('w, 'z) host_scheme \<Rightarrow> pkg_patterns \<Rightarrow> policy_runner \<Rightarrow> (string \<rightharpoonup> string) \<Rightarrow> pbPkgOp \<Rightarrow> 'w \<Rightarrow> pkg_result \<times> 'w" where
  "execPkgOp H px r facts p w =
     (case p_Kind p of
        PKG_LIST_UPDATES \<Rightarrow>
          (case List_updates H px r (SelectBackend facts) w of
             (Inl err, w1) \<Rightarrow> (pkg_result0\<lparr>pr_Code := 500, pr_Error := err\<rparr>, w1)
           | (Inr ups, w1) \<Rightarrow> (pkg_result0\<lparr>pr_Updates := ups\<rparr>, w1))
      | PKG_APPLY \<Rightarrow> execPkgApply H r (SelectBackend facts) (p_DryRun p) w
      | _ \<Rightarrow> (pkg_result0\<lparr>pr_Code := 400, pr_Error := ''unsupported package operation''\<rparr>, w))"


section \<open>Fields of a line\<close>

definition word :: "string \<Rightarrow> bool" where
  "word x \<longleftrightarrow> x \<noteq> [] \<and> list_all plain_char x"

definition blank :: "char \<Rightarrow> bool" where
  "blank c \<longleftrightarrow> c = tab \<or> c = CHR '' ''"

lemma space_len_blank: "blank c \<Longrightarrow> space_len space_encodings (c # s) = 1"
proof -
  have hp: "has_prefix (x # t) (y # e) = (x = y \<and> has_prefix t e)" "has_prefix t []" for x y :: char and t e
    by (simp_all add: has_prefix_def)
  have "space_len space_encodings (tab # s) = 1" "space_len space_encodings (CHR '' '' # s) = 1"
    by (simp_all add: space_len_def space_encodings_def tab_def hp)
  then show "blank c \<Longrightarrow> ?thesis" by (auto simp: blank_def)
qed

lemma fields_word: "list_all plain_char x \<Longrightarrow> str_fields_from cur (x @ s) = str_fields_from (cur @ x) s"
proof (induction x arbitrary: cur)
  case (Cons c x)
  then have "space_len space_encodings (c # x @ s) = 0" by (simp add: space_len_plain)
  with Cons show ?case by (subst str_fields_from.simps) simp
qed simp

lemma fields_sep:
  assumes "word x" "blank c"
  shows "str_fields_from [] (x @ c # s) = x # str_fields_from [] s"
proof -
  have "str_fields_from [] (x @ c # s) = str_fields_from x (c # s)" using assms(1) fields_word [of x "[]"] by (simp add: word_def)
  also have "\<dots> = x # str_fields_from [] s"
    using space_len_blank [OF assms(2), of s] assms(1) by (subst str_fields_from.simps) (simp add: word_def)
  finally show ?thesis .
qed

lemma fields_last: "word x \<Longrightarrow> str_fields_from [] x = [x]"
  using fields_word [of x "[]" "[]"] by (simp add: word_def str_fields_from.simps [of x "[]"])

lemma fields3:
  assumes "word a" "word b" "word c" "blank s" "blank t"
  shows "str_fields (a @ s # b @ t # c) = [a, b, c]"
  using fields_sep [OF assms(1,4)] fields_sep [OF assms(2,5)] fields_last [OF assms(3)] by (simp add: str_fields_def)

section \<open>The inventory of a Debian host\<close>

text \<open>What \<open>dpkg-query -W\<close> prints for the format the backend asks for: \<open>Status\<close> has three words, the
  wanted, the error and the package state.\<close>

record dpkg_row =
  dr_Package :: string
  dr_Version :: string
  dr_Want :: string
  dr_Eflag :: string
  dr_State :: string

definition dpkg_output_line :: "dpkg_row \<Rightarrow> string" where
  "dpkg_output_line r = dr_Package r @ tab # dr_Version r @ tab # dr_Want r @ CHR '' '' # dr_Eflag r @ CHR '' '' # dr_State r"

definition dpkg_output :: "dpkg_row list \<Rightarrow> string" where
  "dpkg_output rs = concat (map (\<lambda>r. dpkg_output_line r @ [CHR 0x0A]) rs)"

definition dpkg_row_ok :: "dpkg_row \<Rightarrow> bool" where
  "dpkg_row_ok r \<longleftrightarrow> word (dr_Package r) \<and> word (dr_Version r) \<and> word (dr_Eflag r) \<and> word (dr_State r) \<and>
     dr_Want r \<in> {''unknown'', ''install'', ''hold'', ''deinstall'', ''purge''}"

lemma word_no_newline: "word x \<Longrightarrow> CHR 0x0A \<notin> set x"
  by (auto simp: word_def list_all_iff plain_char_def less_char_def)

lemma want_word: "dr_Want r \<in> {''unknown'', ''install'', ''hold'', ''deinstall'', ''purge''} \<Longrightarrow> word (dr_Want r)"
  by (auto simp: word_def plain_char_def less_char_def)

lemma dpkg_row_line:
  assumes "dpkg_row_ok r"
  shows "str_fields (dpkg_output_line r) = [dr_Package r, dr_Version r, dr_Want r, dr_Eflag r, dr_State r]"
    and "CHR 0x0A \<notin> set (dpkg_output_line r)"
proof -
  have w: "word (dr_Package r)" "word (dr_Version r)" "word (dr_Want r)" "word (dr_Eflag r)" "word (dr_State r)"
    using assms want_word by (auto simp: dpkg_row_ok_def)
  have b: "blank tab" "blank (CHR '' '')" by (simp_all add: blank_def)
  show "str_fields (dpkg_output_line r) = [dr_Package r, dr_Version r, dr_Want r, dr_Eflag r, dr_State r]"
    by (simp add: str_fields_def dpkg_output_line_def fields_sep [OF w(1) b(1)] fields_sep [OF w(2) b(1)]
        fields_sep [OF w(3) b(2)] fields_sep [OF w(4) b(2)] fields_last [OF w(5)])
  show "CHR 0x0A \<notin> set (dpkg_output_line r)"
    using w word_no_newline by (auto simp: dpkg_output_line_def tab_def)
qed

lemma dpkg_inventory_empty: "\<forall>r \<in> set rs. dpkg_row_ok r \<Longrightarrow> parseDpkgQuery (dpkg_output rs) = []"
proof (induction rs)
  case Nil
  then show ?case by (simp add: parseDpkgQuery_def dpkg_output_def lines_of_def dpkg_line_def str_fields_def str_fields_from.simps)
next
  case (Cons r rs)
  have ok: "dpkg_row_ok r" using Cons.prems by simp
  have "lines_of (dpkg_output (r # rs)) = dpkg_output_line r # lines_of (dpkg_output rs)"
    using split_char_append_sep [OF dpkg_row_line(2) [OF ok]] by (simp add: lines_of_def dpkg_output_def)
  moreover have "dr_Want r \<noteq> ''installed''" using ok by (auto simp: dpkg_row_ok_def)
  then have "dpkg_line (dpkg_output_line r) = []" by (simp add: dpkg_line_def dpkg_row_line(1) [OF ok])
  ultimately show ?case using Cons by (simp add: parseDpkgQuery_def)
qed

text \<open>On a Debian host the package journals are always empty: for whatever packages \<open>dpkg-query\<close> lists in
  its own format, a successful apply reports no package before, none after and no change, because the third
  field of the line is the wanted action, never the word \<open>installed\<close>.\<close>

theorem dpkg_journals_empty:
  assumes "\<And>w. \<exists>rs. (\<forall>r \<in> set rs. dpkg_row_ok r) \<and>
      snd (fst (h_run H (''dpkg-query'', [''-W'', ''-f'', ''${Package}'' @ [tab] @ ''${Version}'' @ [tab] @ ''${Status}'' @ [CHR 0x0A]])
        [(''DEBIAN_FRONTEND'', ''noninteractive'')] w)) = dpkg_output rs"
    and "pr_Applied (fst (execPkgApply H r Apt dry w))"
  shows "pr_Before (fst (execPkgApply H r Apt dry w)) = [] \<and> pr_After (fst (execPkgApply H r Apt dry w)) = [] \<and>
    pr_AppliedCount (fst (execPkgApply H r Apt dry w)) = 0"
proof -
  have i: "pkgs = []" if "Installed_pkgs H Apt v = (Inr pkgs, v1)" for v pkgs v1
  proof -
    obtain rs where rs: "\<forall>r \<in> set rs. dpkg_row_ok r"
      "snd (fst (h_run H (''dpkg-query'', [''-W'', ''-f'', ''${Package}'' @ [tab] @ ''${Version}'' @ [tab] @ ''${Status}'' @ [CHR 0x0A]])
        [(''DEBIAN_FRONTEND'', ''noninteractive'')] v)) = dpkg_output rs"
      using assms(1) by blast
    then show ?thesis using that dpkg_inventory_empty [OF rs(1)]
      by (auto simp: Installed_pkgs_def split: prod.splits option.splits)
  qed
  show ?thesis
  proof (cases "Installed_pkgs H Apt w")
    case (Pair b1 w1)
    show ?thesis
    proof (cases b1)
      case (Inl err)
      with Pair assms(2) show ?thesis by (simp add: execPkgApply_def pkg_result0_def)
    next
      case (Inr before)
      then have b: "before = []" using i Pair by blast
      obtain d w2 where d: "DryRun H r Apt w1 = (d, w2)" by (meson surj_pair)
      obtain a w3 where a: "Apply_upgrade H r Apt w2 = (a, w3)" by (meson surj_pair)
      obtain c w4 where c: "Installed_pkgs H Apt w3 = (c, w4)" by (meson surj_pair)
      show ?thesis
        using assms(2) Pair Inr d a c i [of w3] b
        by (cases d; cases a; cases c) (auto simp: execPkgApply_def pkg_result0_def countPkgChanges_def split: if_splits)
    qed
  qed
qed

section \<open>Counting changes\<close>

lemma afterByName_map_of: "distinct (map pu_Name us) \<Longrightarrow> afterByName us k = map_option pu_Installed (find (\<lambda>u. pu_Name u = k) us)"
proof -
  have "fold (\<lambda>u m. m(pu_Name u \<mapsto> pu_Installed u)) us m k =
      (case find (\<lambda>u. pu_Name u = k) us of None \<Rightarrow> m k | Some u \<Rightarrow> Some (pu_Installed u))"
    if "distinct (map pu_Name us)" for m :: "string \<rightharpoonup> string"
    using that
  proof (induction us arbitrary: m)
    case (Cons u us)
    then have "pu_Name u \<notin> pu_Name ` set us" by simp
    then have "find (\<lambda>v. pu_Name v = pu_Name u) us = None" by (auto simp: find_None_iff image_iff)
    with Cons show ?case by (auto split: option.split)
  qed simp
  then show "distinct (map pu_Name us) \<Longrightarrow> ?thesis" by (auto simp: afterByName_def split: option.split)
qed

text \<open>The number of changed packages is the number of packages of the first journal that the second has
  with another version, when a journal names a package once.\<close>

theorem countPkgChanges_counts:
  assumes "distinct (map pu_Name before)" "distinct (map pu_Name after)"
  shows "countPkgChanges before after =
    card {u \<in> set before. \<exists>v \<in> set after. pu_Name v = pu_Name u \<and> pu_Installed v \<noteq> pu_Installed u}"
proof -
  have f: "(\<exists>v. find (\<lambda>v. pu_Name v = pu_Name u) after = Some v \<and> pu_Installed v \<noteq> pu_Installed u) \<longleftrightarrow>
      (\<exists>v \<in> set after. pu_Name v = pu_Name u \<and> pu_Installed v \<noteq> pu_Installed u)" for u :: pkg_update
  proof -
    have "find (\<lambda>v. pu_Name v = pu_Name u) after = Some v" if "v \<in> set after" "pu_Name v = pu_Name u" for v
    proof -
      have "find (\<lambda>v. pu_Name v = pu_Name u) after \<noteq> None" using that by (auto simp: find_None_iff)
      then obtain x where x: "find (\<lambda>v. pu_Name v = pu_Name u) after = Some x" by blast
      then have "x \<in> set after" "pu_Name x = pu_Name u" by (auto simp: find_Some_iff)
      with that assms(2) have "x = v" by (auto simp: distinct_map inj_on_def)
      with x show ?thesis by simp
    qed
    moreover have "v \<in> set after \<and> pu_Name v = pu_Name u" if "find (\<lambda>v. pu_Name v = pu_Name u) after = Some v" for v
      using that by (auto simp: find_Some_iff)
    ultimately show ?thesis by blast
  qed
  have "countPkgChanges before after =
      length (filter (\<lambda>u. \<exists>v \<in> set after. pu_Name v = pu_Name u \<and> pu_Installed v \<noteq> pu_Installed u) before)"
    unfolding countPkgChanges_def
    by (intro arg_cong [where f = length] filter_cong refl)
      (simp add: afterByName_map_of [OF assms(2)] f [symmetric] split: option.split)
  also have "\<dots> = card (set (filter (\<lambda>u. \<exists>v \<in> set after. pu_Name v = pu_Name u \<and> pu_Installed v \<noteq> pu_Installed u) before))"
    using assms(1) by (intro distinct_card [symmetric]) (simp add: distinct_filter distinct_map)
  also have "\<dots> = card {u \<in> set before. \<exists>v \<in> set after. pu_Name v = pu_Name u \<and> pu_Installed v \<noteq> pu_Installed u}"
    by (intro arg_cong [where f = card]) auto
  finally show ?thesis .
qed

section \<open>Instances\<close>

definition bash_row :: dpkg_row where
  "bash_row = \<lparr>dr_Package = ''bash'', dr_Version = ''5.2'', dr_Want = ''install'', dr_Eflag = ''ok'', dr_State = ''installed''\<rparr>"

definition debian_host :: "unit host" where
  "debian_host = \<lparr>h_fs = (\<lambda>w. Map.empty), h_set = (\<lambda>fs w. w),
     h_run = (\<lambda>c env w. ((None, if fst c = ''dpkg-query'' then dpkg_output [bash_row] else []), w)),
     h_render = (\<lambda>facts vars t. Inr t), h_now = (\<lambda>w. 0), h_boot = (\<lambda>w. None), h_ctx = (\<lambda>w. None), h_io = (\<lambda>w. None)\<rparr>"

lemma bash_row_ok: "dpkg_row_ok bash_row"
  by (simp add: dpkg_row_ok_def bash_row_def word_def plain_char_def less_char_def)

theorem dpkg_journals_empty_witness:
  "pr_Applied (fst (execPkgApply debian_host \<lparr>pr_Mode = ModeNone, pr_policy = None\<rparr> Apt False ())) \<and>
   pr_AppliedCount (fst (execPkgApply debian_host \<lparr>pr_Mode = ModeNone, pr_policy = None\<rparr> Apt False ())) = 0"
proof -
  have a: "pr_Applied (fst (execPkgApply debian_host \<lparr>pr_Mode = ModeNone, pr_policy = None\<rparr> Apt False ()))"
    by (simp add: execPkgApply_def Installed_pkgs_def DryRun_def run_query_def Apply_upgrade_def run_elev_def debian_host_def)
  have "pr_AppliedCount (fst (execPkgApply debian_host \<lparr>pr_Mode = ModeNone, pr_policy = None\<rparr> Apt False ())) = 0"
  proof (rule dpkg_journals_empty [THEN conjunct2, THEN conjunct2, OF _ a])
    show "\<exists>rs. (\<forall>r \<in> set rs. dpkg_row_ok r) \<and>
      snd (fst (h_run debian_host (''dpkg-query'', [''-W'', ''-f'', ''${Package}'' @ [tab] @ ''${Version}'' @ [tab] @ ''${Status}'' @ [CHR 0x0A]])
        [(''DEBIAN_FRONTEND'', ''noninteractive'')] w)) = dpkg_output rs" for w
      using bash_row_ok by (intro exI [of _ "[bash_row]"]) (simp add: debian_host_def)
  qed
  with a show ?thesis by simp
qed

theorem countPkgChanges_counts_witness:
  "countPkgChanges [\<lparr>pu_Name = ''a'', pu_Installed = ''1'', pu_Available = []\<rparr>] [\<lparr>pu_Name = ''a'', pu_Installed = ''2'', pu_Available = []\<rparr>] =
   card {u \<in> set [\<lparr>pu_Name = ''a'', pu_Installed = ''1'', pu_Available = []\<rparr>].
     \<exists>v \<in> set [\<lparr>pu_Name = ''a'', pu_Installed = ''2'', pu_Available = []\<rparr>]. pu_Name v = pu_Name u \<and> pu_Installed v \<noteq> pu_Installed u}"
  by (rule countPkgChanges_counts) simp_all

end
