(* ===== verification/Rollout.thy ===== *)
theory Rollout
  imports Stream "HOL-Library.Product_Lexorder"
begin

text \<open>
  Rolling fleet updates: the orchestrator (\<open>src/internal/server/updates/updates.go\<close>), its tables
  (\<open>src/internal/store/updates.go\<close>), and the download grants and the queue of directives of the
  stream (\<open>src/internal/server/stream/updates.go\<close>).

  The database answers without errors, and one call is one step.  Fresh ids and grant tokens are
  functions of a counter; the approval request a run parks on is a row with its payload.
\<close>

definition ActionUpdateApply :: string where "ActionUpdateApply = ''update.apply''"

section \<open>Tables\<close>

record update_run =
  un_ID :: string
  un_Version :: string
  un_ReleaseID :: string
  un_Arch :: string
  un_Selector :: string
  un_CanaryHosts :: string
  un_CanaryCount :: int
  un_WavePct :: int
  un_Status :: string
  un_CurrentWave :: int
  un_TotalHosts :: nat
  un_Done :: nat
  un_Failed :: nat
  un_Skipped :: nat
  un_Error :: string
  un_ApprovalID :: string
  un_CreatedBy :: string
  un_CreatedAt :: int

record update_host =
  uh_ID :: string
  uh_RunID :: string
  uh_HostID :: string
  uh_Status :: string
  uh_Version :: string
  uh_Error :: string
  uh_UpdatedAt :: int

record update_params =
  up_ReleaseID :: string
  up_Version :: string
  up_Selector :: string
  up_Canary :: int
  up_WavePct :: int
  up_CanaryHosts :: "string list"
  up_Actor :: string
  up_ActorRole :: string
  up_Park :: bool

text \<open>An approval request of this module: its id, run, and the parameters in its payload, if it has them.\<close>

record update_request =
  uq_ID :: string
  uq_RunID :: string
  uq_Params :: "update_params option"

text \<open>The manager next to the server process: the two tables of runs, its requests, its loops and its audit trail.\<close>

record rollout =
  ro_srv :: server
  ro_runs :: "update_run list"
  ro_hosts :: "update_host list"
  ro_requests :: "update_request list"
  ro_loops :: "string list"
  ro_dispatches :: "(string \<times> string) list" \<comment> \<open>audit \<open>update.dispatch\<close>: run, host\<close>
  ro_next :: nat

record rollout_env =
  re_time :: int \<comment> \<open>nanoseconds\<close>
  re_hooks :: hooks
  re_id :: "string \<Rightarrow> nat \<Rightarrow> string"
  re_token :: "nat \<Rightarrow> string option"
  re_rx :: regex
  re_unmarshal :: "string \<Rightarrow> Match option"
  re_approvals :: bool \<comment> \<open>the approvals controller is wired\<close>

definition re_now :: "rollout_env \<Rightarrow> int" where "re_now E = unix (re_time E)"

definition on_server :: "(server \<Rightarrow> server) \<Rightarrow> rollout \<Rightarrow> rollout" where
  "on_server f s = s\<lparr>ro_srv := f (ro_srv s)\<rparr>"

definition TerminalRunHost :: "string \<Rightarrow> bool" where
  "TerminalRunHost st \<longleftrightarrow> st \<in> {''verified'', ''skipped'', ''failed_rollback'', ''timed_out''}"

definition TerminalUpdateRun :: "string \<Rightarrow> bool" where
  "TerminalUpdateRun st \<longleftrightarrow> st \<in> {''completed'', ''failed'', ''aborted''}"

definition GetUpdateRun :: "string \<Rightarrow> rollout \<Rightarrow> update_run option" where
  "GetUpdateRun i s = sql_get un_ID i (ro_runs s)"

definition SetUpdateRunStatus :: "string \<Rightarrow> string \<Rightarrow> string \<Rightarrow> rollout \<Rightarrow> rollout" where
  "SetUpdateRunStatus i st err s =
     s\<lparr>ro_runs := sql_update (\<lambda>r. un_ID r = i) (\<lambda>r. r\<lparr>un_Status := st, un_Error := err\<rparr>) (ro_runs s)\<rparr>"

definition SetUpdateRunCounters :: "string \<Rightarrow> int \<Rightarrow> nat \<Rightarrow> nat \<Rightarrow> nat \<Rightarrow> nat \<Rightarrow> rollout \<Rightarrow> rollout" where
  "SetUpdateRunCounters i wave ttl dn fl sk s =
     s\<lparr>ro_runs := sql_update (\<lambda>r. un_ID r = i)
        (\<lambda>r. r\<lparr>un_CurrentWave := wave, un_TotalHosts := ttl, un_Done := dn, un_Failed := fl, un_Skipped := sk\<rparr>) (ro_runs s)\<rparr>"

definition SetUpdateRunApproval :: "string \<Rightarrow> string \<Rightarrow> rollout \<Rightarrow> rollout" where
  "SetUpdateRunApproval i apr s =
     s\<lparr>ro_runs := sql_update (\<lambda>r. un_ID r = i) (\<lambda>r. r\<lparr>un_ApprovalID := apr\<rparr>) (ro_runs s)\<rparr>"

definition ListUpdateHosts :: "string \<Rightarrow> rollout \<Rightarrow> update_host list" where
  "ListUpdateHosts i s = sort_key (\<lambda>h. (uh_UpdatedAt h, uh_ID h)) (filter (\<lambda>h. uh_RunID h = i) (ro_hosts s))"

definition GetUpdateHost :: "string \<Rightarrow> string \<Rightarrow> rollout \<Rightarrow> update_host option" where
  "GetUpdateHost i host s = find (\<lambda>h. uh_RunID h = i \<and> uh_HostID h = host) (ro_hosts s)"

text \<open>\<open>ORDER BY updated_at DESC LIMIT 1\<close>; among rows of the same time the first in the table.\<close>

definition newer :: "update_host \<Rightarrow> update_host option \<Rightarrow> update_host option" where
  "newer h b = (case b of None \<Rightarrow> Some h | Some h1 \<Rightarrow> if uh_UpdatedAt h > uh_UpdatedAt h1 then Some h else Some h1)"

definition ActiveUpdateHostFor :: "string \<Rightarrow> rollout \<Rightarrow> update_host option" where
  "ActiveUpdateHostFor host s =
     fold newer (filter (\<lambda>h. uh_HostID h = host \<and> \<not> TerminalRunHost (uh_Status h)) (ro_hosts s)) None"

definition SetUpdateHostStatus :: "rollout_env \<Rightarrow> string \<Rightarrow> string \<Rightarrow> string \<Rightarrow> string \<Rightarrow> rollout \<Rightarrow> rollout" where
  "SetUpdateHostStatus E i st ver err s =
     s\<lparr>ro_hosts := sql_update (\<lambda>h. uh_ID h = i)
        (\<lambda>h. h\<lparr>uh_Status := st, uh_Version := ver, uh_Error := err, uh_UpdatedAt := re_now E\<rparr>) (ro_hosts s)\<rparr>"

definition clearPending :: "string \<Rightarrow> rollout \<Rightarrow> rollout" where
  "clearPending agent s = on_server (DeletePendingUpdate agent) s"

definition FindRelease :: "string \<Rightarrow> rollout \<Rightarrow> Release option" where
  "FindRelease i s = GetRelease i (ro_srv s)"

definition GetReleaseByVer :: "string \<Rightarrow> string \<Rightarrow> string \<Rightarrow> rollout \<Rightarrow> Release option" where
  "GetReleaseByVer ver arch kind s =
     find (\<lambda>r. rl_Version r = ver \<and> rl_Arch r = arch \<and> rl_Kind r = kind) (releases (ro_srv s))"

section \<open>Dispatching a host\<close>

text \<open>A fresh token, the grant it stands for, and the directive on the stream or in the queue.\<close>

definition new_grant :: "rollout_env \<Rightarrow> string \<Rightarrow> string \<Rightarrow> rollout \<Rightarrow> string option \<times> rollout" where
  "new_grant E agent rel s =
     (case re_token E (ro_next s) of
        None \<Rightarrow> (None, s)
      | Some tok \<Rightarrow>
          (case IssueUpdateGrant (re_time E) tok agent rel (ro_srv s) of
             None \<Rightarrow> (None, s)
           | Some sv \<Rightarrow> (Some tok, s\<lparr>ro_srv := sv, ro_next := Suc (ro_next s)\<rparr>)))"

definition agent_directive :: "Release \<Rightarrow> string \<Rightarrow> UpdateDirective" where
  "agent_directive rel tok = \<lparr>ud_ReleaseId = rl_ID rel, ud_Version = rl_Version rel, ud_Arch = rl_Arch rel, ud_Kind = ''agent'',
     ud_Sha256 = rl_SHA256 rel, ud_Signature = rl_Signature rel, ud_Grant = tok, ud_Unsigned = (rl_Signature rel = [])\<rparr>"

definition dispatchHost :: "rollout_env \<Rightarrow> update_run \<Rightarrow> update_host \<Rightarrow> Release \<Rightarrow> rollout \<Rightarrow> bool \<times> rollout" where
  "dispatchHost E r h rel s =
     (case new_grant E (uh_HostID h) (rl_ID rel) s of
        (None, s1) \<Rightarrow> (False, s1)
      | (Some tok, s1) \<Rightarrow>
          let s2 = on_server (QueueUpdateDirective (re_hooks E) (re_time E) (uh_HostID h) (agent_directive rel tok)) s1;
              s3 = SetUpdateHostStatus E (uh_ID h) ''dispatching'' [] [] s2
          in (True, s3\<lparr>ro_dispatches := ro_dispatches s3 @ [(un_ID r, uh_HostID h)]\<rparr>))"

section \<open>Creating a run\<close>

definition update_action :: "string \<Rightarrow> string \<Rightarrow> Action" where
  "update_action host role = zero_action\<lparr>ac_ActionClass := ActionUpdateApply, ac_HostID := host, ac_ActorRole := role\<rparr>"

text \<open>\<open>rules, _ := GetPolicyRules()\<close>: no rules when the table cannot be read.\<close>

definition rules_now :: "rollout_env \<Rightarrow> rollout \<Rightarrow> Rule list" where
  "rules_now E s = (case GetPolicyRules (re_unmarshal E) (pol (ro_srv s)) of Inl err \<Rightarrow> [] | Inr rs \<Rightarrow> rs)"

definition update_effect :: "rollout_env \<Rightarrow> rollout \<Rightarrow> string \<Rightarrow> string \<Rightarrow> string" where
  "update_effect E s role host = d_Effect (Evaluate (re_rx E) (rules_now E s) (update_action host role))"

definition splitIDs :: "string \<Rightarrow> string list" where
  "splitIDs s = (if s = [] then [] else filter (\<lambda>p. p \<noteq> []) (map trim_space (split_char (CHR '','') s)))"

datatype update_error =
    NoRelease | WrongReleaseKind | ManyArchs | NeedRelease | BadSelector sel_error | NoHosts | CanaryNotInFleet string
  | CanaryDenied string | NoApprovals | RunNotFound | WrongStatus string | CanaryFailed string | NothingToDo | MissingRunID

definition resolveRelease :: "string \<Rightarrow> string \<Rightarrow> rollout \<Rightarrow> update_error + Release" where
  "resolveRelease i ver0 s =
     (if i \<noteq> [] then
        (case FindRelease i s of
           None \<Rightarrow> Inl NoRelease
         | Some rel \<Rightarrow> if rl_Kind rel \<noteq> ''agent'' then Inl WrongReleaseKind else Inr rel)
      else if ver0 = [] then Inl NeedRelease
      else
        let ver = trim_prefix (trim_space ver0) ''v'' in
        (case (GetReleaseByVer ver ''linux-amd64'' ''agent'' s, GetReleaseByVer ver ''linux-arm64'' ''agent'' s) of
           (None, None) \<Rightarrow> Inl NoRelease
         | (Some rel, None) \<Rightarrow> Inr rel
         | (None, Some rel) \<Rightarrow> Inr rel
         | (Some _, Some _) \<Rightarrow> Inl ManyArchs))"

definition ensureLoop :: "string \<Rightarrow> rollout \<Rightarrow> rollout" where
  "ensureLoop i s = (if i \<in> set (ro_loops s) then s else s\<lparr>ro_loops := i # ro_loops s\<rparr>)"

definition stopLoop :: "string \<Rightarrow> rollout \<Rightarrow> rollout" where
  "stopLoop i s = s\<lparr>ro_loops := removeAll i (ro_loops s)\<rparr>"

definition new_request :: "rollout_env \<Rightarrow> string \<Rightarrow> update_params option \<Rightarrow> rollout \<Rightarrow> string \<times> rollout" where
  "new_request E i p s =
     (let q = re_id E ''apr'' (ro_next s)
      in (q, s\<lparr>ro_requests := ro_requests s @ [\<lparr>uq_ID = q, uq_RunID = i, uq_Params = p\<rparr>], ro_next := Suc (ro_next s)\<rparr>))"

fun host_rows :: "rollout_env \<Rightarrow> string \<Rightarrow> string list \<Rightarrow> string list \<Rightarrow> nat \<Rightarrow> update_host list" where
  "host_rows E i denied [] n = []"
| "host_rows E i denied (h # hs) n =
     \<lparr>uh_ID = re_id E ''uh'' n, uh_RunID = i, uh_HostID = h, uh_Status = (if h \<in> set denied then ''skipped'' else ''queued''),
      uh_Version = [], uh_Error = (if h \<in> set denied then ''policy'' else []), uh_UpdatedAt = re_now E\<rparr>
     # host_rows E i denied hs (Suc n)"

definition wave_pct :: "int \<Rightarrow> int" where
  "wave_pct p = (if p \<le> 0 then 25 else if p > 100 then 100 else p)"

definition canary_cohort :: "update_params \<Rightarrow> string list \<Rightarrow> string list" where
  "canary_cohort p ids =
     (if up_CanaryHosts p = [] \<and> up_Canary p > 0 then take (nat (up_Canary p)) ids else up_CanaryHosts p)"

text \<open>
  \<open>StartRun\<close>: the release, the hosts of the selector, the canary cohort and the policy of every host
  decide whether there is a run at all; then it is a draft, waits for an approval, or starts.
\<close>

record run_plan =
  rp_Sel :: string
  rp_Release :: Release
  rp_IDs :: "string list"
  rp_Cohort :: "string list"
  rp_Denied :: "string list"
  rp_Approval :: "string list"

definition plan_run :: "rollout_env \<Rightarrow> update_params \<Rightarrow> rollout \<Rightarrow> update_error + run_plan" where
  "plan_run E p s =
     (let sel = (if up_Selector p = [] then ''all'' else up_Selector p) in
      case resolveRelease (up_ReleaseID p) (up_Version p) s of
        Inl err \<Rightarrow> Inl err
      | Inr rel \<Rightarrow>
          (case ResolveSelector (hosts (ro_srv s)) sel of
             Inl err \<Rightarrow> Inl (BadSelector err)
           | Inr infos \<Rightarrow>
               let ids = sort (map ID infos) in
               if ids = [] then Inl NoHosts
               else (case find (\<lambda>c. c \<notin> set ids) (up_CanaryHosts p) of
                       Some c \<Rightarrow> Inl (CanaryNotInFleet c)
                     | None \<Rightarrow>
                         let eff = update_effect E s (up_ActorRole p);
                             denied = filter (\<lambda>h. eff h = EffectDeny) ids;
                             cohort = canary_cohort p ids
                         in (case find (\<lambda>c. c \<in> set denied) cohort of
                               Some c \<Rightarrow> Inl (CanaryDenied c)
                             | None \<Rightarrow> Inr \<lparr>rp_Sel = sel, rp_Release = rel, rp_IDs = ids, rp_Cohort = cohort,
                                 rp_Denied = denied, rp_Approval = filter (\<lambda>h. eff h = EffectRequireApproval) ids\<rparr>))))"

definition run_row :: "rollout_env \<Rightarrow> update_params \<Rightarrow> run_plan \<Rightarrow> string \<Rightarrow> string \<Rightarrow> int \<Rightarrow> update_run" where
  "run_row E p pl i st wave =
     \<lparr>un_ID = i, un_Version = rl_Version (rp_Release pl), un_ReleaseID = rl_ID (rp_Release pl), un_Arch = rl_Arch (rp_Release pl),
      un_Selector = rp_Sel pl, un_CanaryHosts = join_str '','' (rp_Cohort pl), un_CanaryCount = up_Canary p,
      un_WavePct = wave_pct (up_WavePct p), un_Status = st, un_CurrentWave = wave, un_TotalHosts = length (rp_IDs pl),
      un_Done = 0, un_Failed = 0, un_Skipped = length (rp_Denied pl), un_Error = [], un_ApprovalID = [],
      un_CreatedBy = up_Actor p, un_CreatedAt = re_now E\<rparr>"

text \<open>\<open>CreateUpdateRun\<close> and \<open>AddUpdateHosts\<close>, the ids of the host rows taken from \<open>n\<close> on.\<close>

definition add_run :: "rollout_env \<Rightarrow> run_plan \<Rightarrow> nat \<Rightarrow> update_run \<Rightarrow> rollout \<Rightarrow> rollout" where
  "add_run E pl n r s = s\<lparr>ro_runs := ro_runs s @ [r], ro_hosts := ro_hosts s @ host_rows E (un_ID r) (rp_Denied pl) (rp_IDs pl) n\<rparr>"

definition StartRun :: "rollout_env \<Rightarrow> update_params \<Rightarrow> rollout \<Rightarrow> (update_error + update_run) \<times> rollout" where
  "StartRun E p s =
     (case plan_run E p s of
        Inl err \<Rightarrow> (Inl err, s)
      | Inr pl \<Rightarrow>
          let n = ro_next s; i = re_id E ''run'' n; s1 = s\<lparr>ro_next := n + 1 + length (rp_IDs pl)\<rparr> in
          if up_Park p then let r = run_row E p pl i ''draft'' 0 in (Inr r, add_run E pl (Suc n) r s1)
          else if rp_Approval pl \<noteq> [] then
            (if \<not> re_approvals E then (Inl NoApprovals, s1)
             else (case new_request E i (Some p) s1 of
                     (q, s2) \<Rightarrow>
                       let r = run_row E p pl i ''pending'' 0
                       in (Inr (r\<lparr>un_ApprovalID := q\<rparr>), SetUpdateRunApproval i q (add_run E pl (Suc n) r s2))))
          else
            let r = (if rp_Cohort pl \<noteq> [] then run_row E p pl i ''canary'' 0 else run_row E p pl i ''rolling'' 1)
            in (Inr r, ensureLoop i (add_run E pl (Suc n) r s1)))"

text \<open>\<open>DispatchApprovedRun\<close>: the run of an approved request, its status decided by the payload.\<close>

definition DispatchApprovedRun :: "update_request \<Rightarrow> rollout \<Rightarrow> update_error option \<times> rollout" where
  "DispatchApprovedRun q s =
     (if uq_RunID q = [] then (Some MissingRunID, s)
      else (case GetUpdateRun (uq_RunID q) s of
              None \<Rightarrow> (Some RunNotFound, s)
            | Some r \<Rightarrow>
                if un_Status r \<noteq> ''pending'' then (Some (WrongStatus (un_Status r)), s)
                else
                  let wants = (case uq_Params q of None \<Rightarrow> False | Some p \<Rightarrow> up_CanaryHosts p \<noteq> [] \<or> up_Canary p > 0);
                      st = (if wants \<and> un_CanaryHosts r \<noteq> [] then ''canary'' else ''rolling'')
                  in (None, ensureLoop (un_ID r) (SetUpdateRunStatus (un_ID r) st [] s))))"

section \<open>Results\<close>

definition OnResult :: "rollout_env \<Rightarrow> string \<Rightarrow> pbUpdateResult \<Rightarrow> rollout \<Rightarrow> rollout" where
  "OnResult E agent r s =
     (case ActiveUpdateHostFor agent s of
        None \<Rightarrow> s
      | Some row \<Rightarrow>
          if ur_Phase r = ''failed'' then
            clearPending agent (SetUpdateHostStatus E (uh_ID row) ''failed_rollback'' [] (ur_Error r) s)
          else if ur_Phase r = ''swapped'' then SetUpdateHostStatus E (uh_ID row) ''restarting'' [] [] s
          else if ur_Phase r = ''verified'' then
            clearPending agent (SetUpdateHostStatus E (uh_ID row) ''verified'' (ur_Version r) [] s)
          else s)"

section \<open>Operator actions\<close>

definition failedStatus :: "string \<Rightarrow> bool" where
  "failedStatus st \<longleftrightarrow> st \<in> {''failed_rollback'', ''timed_out''}"

definition inFlightStatus :: "string \<Rightarrow> bool" where
  "inFlightStatus st \<longleftrightarrow> st \<in> {''dispatching'', ''restarting''}"

fun retry_loop :: "rollout_env \<Rightarrow> update_run \<Rightarrow> Release \<Rightarrow> update_host list \<Rightarrow> nat \<times> rollout \<Rightarrow> nat \<times> rollout" where
  "retry_loop E r rel [] acc = acc"
| "retry_loop E r rel (h # hs) (n, s) =
     (if \<not> failedStatus (uh_Status h) then retry_loop E r rel hs (n, s)
      else (case dispatchHost E r h rel s of
              (False, s1) \<Rightarrow> retry_loop E r rel hs (n, s1)
            | (True, s1) \<Rightarrow> retry_loop E r rel hs (Suc n, s1)))"

definition Retry :: "rollout_env \<Rightarrow> string \<Rightarrow> rollout \<Rightarrow> update_error option \<times> rollout" where
  "Retry E i s =
     (case GetUpdateRun i s of
        None \<Rightarrow> (Some RunNotFound, s)
      | Some r \<Rightarrow>
          if un_Status r \<notin> {''paused_failure'', ''rolling'', ''canary''} then (Some (WrongStatus (un_Status r)), s)
          else
            (case (if un_Status r = ''canary'' then
                     find (\<lambda>c. case GetUpdateHost i c s of None \<Rightarrow> False | Some h \<Rightarrow> failedStatus (uh_Status h))
                       (splitIDs (un_CanaryHosts r))
                   else None) of
               Some c \<Rightarrow> (Some (CanaryFailed c), s)
             | None \<Rightarrow>
                 (case FindRelease (un_ReleaseID r) s of
                    None \<Rightarrow> (Some NoRelease, s)
                  | Some rel \<Rightarrow>
                      (case retry_loop E r rel (ListUpdateHosts i s) (0, s) of
                         (n, s1) \<Rightarrow>
                           if n = 0 then (Some NothingToDo, s1)
                           else (None, ensureLoop i (SetUpdateRunStatus i ''rolling'' [] s1))))))"

definition skip_rows :: "rollout_env \<Rightarrow> string \<Rightarrow> update_host list \<Rightarrow> rollout \<Rightarrow> rollout" where
  "skip_rows E why hs s = fold (\<lambda>h s. clearPending (uh_HostID h) (SetUpdateHostStatus E (uh_ID h) ''skipped'' [] why s)) hs s"

definition Skip :: "rollout_env \<Rightarrow> string \<Rightarrow> rollout \<Rightarrow> update_error option \<times> rollout" where
  "Skip E i s =
     (case GetUpdateRun i s of
        None \<Rightarrow> (Some RunNotFound, s)
      | Some r \<Rightarrow>
          if un_Status r \<noteq> ''paused_failure'' then (Some (WrongStatus (un_Status r)), s)
          else
            let hs = filter (\<lambda>h. failedStatus (uh_Status h)) (ListUpdateHosts i s);
                s1 = skip_rows E ''skipped by operator'' hs s
            in if hs = [] then (Some NothingToDo, s1)
               else (None, ensureLoop i (SetUpdateRunStatus i ''rolling'' [] s1)))"

definition Abort :: "rollout_env \<Rightarrow> string \<Rightarrow> string \<Rightarrow> rollout \<Rightarrow> update_error option \<times> rollout" where
  "Abort E i actor s =
     (case GetUpdateRun i s of
        None \<Rightarrow> (Some RunNotFound, s)
      | Some r \<Rightarrow>
          if TerminalUpdateRun (un_Status r) then (Some (WrongStatus (un_Status r)), s)
          else
            let s1 = SetUpdateRunStatus i ''aborted'' (''aborted by '' @ actor) s;
                hs = filter (\<lambda>h. \<not> TerminalRunHost (uh_Status h)) (ListUpdateHosts i s1)
            in (None, stopLoop i (skip_rows E ''run aborted'' hs s1)))"

text \<open>The first half of \<open>Start\<close>: the queued hosts whose update the rules deny now are skipped.\<close>

definition exclude_denied :: "rollout_env \<Rightarrow> update_run \<Rightarrow> update_host list \<Rightarrow> rollout \<Rightarrow> rollout" where
  "exclude_denied E r hs s =
     (let denied = filter (\<lambda>h. update_effect E s ''admin'' (uh_HostID h) = EffectDeny) hs;
          s1 = skip_rows E ''policy'' denied s
      in if denied \<noteq> [] then
           SetUpdateRunCounters (un_ID r) (un_CurrentWave r) (un_TotalHosts r) (un_Done r) (un_Failed r)
             (un_Skipped r + length denied) s1
         else s1)"

definition Start_draft :: "rollout_env \<Rightarrow> string \<Rightarrow> rollout \<Rightarrow> update_error option \<times> rollout" where
  "Start_draft E i s =
     (case GetUpdateRun i s of
        None \<Rightarrow> (Some RunNotFound, s)
      | Some r \<Rightarrow>
          if un_Status r \<noteq> ''draft'' then (Some (WrongStatus (un_Status r)), s)
          else
            let hs = filter (\<lambda>h. uh_Status h = ''queued'') (ListUpdateHosts i s);
                s2 = exclude_denied E r hs s
            in if list_ex (\<lambda>h. update_effect E s ''admin'' (uh_HostID h) = EffectRequireApproval) hs then
                 (if \<not> re_approvals E then (Some NoApprovals, s2)
                  else (case new_request E i None s2 of
                          (q, s3) \<Rightarrow> (None, SetUpdateRunStatus i ''pending'' [] (SetUpdateRunApproval i q s3))))
               else
                 let st = (if un_CanaryCount r > 0 \<and> un_CanaryHosts r \<noteq> [] then ''canary'' else ''rolling'')
                 in (None, ensureLoop i (SetUpdateRunStatus i st [] s2)))"

definition MaybeDraft :: "rollout_env \<Rightarrow> Release \<Rightarrow> string \<Rightarrow> rollout \<Rightarrow> update_run option \<times> rollout" where
  "MaybeDraft E rel actor s =
     (if list_ex (\<lambda>r. un_ReleaseID r = rl_ID rel \<and> \<not> TerminalUpdateRun (un_Status r))
           (take 100 (sort_key (\<lambda>r. - un_CreatedAt r) (ro_runs s))) then (None, s)
      else (case StartRun E \<lparr>up_ReleaseID = rl_ID rel, up_Version = [], up_Selector = ''all'', up_Canary = 1, up_WavePct = 25,
                up_CanaryHosts = [], up_Actor = actor, up_ActorRole = ''admin'', up_Park = True\<rparr> s of
              (Inl err, s1) \<Rightarrow> (None, s1)
            | (Inr r, s1) \<Rightarrow> (Some r, s1)))"

section \<open>The run loop\<close>

definition hostTimeoutS :: int where "hostTimeoutS = 900"

definition sweep :: "rollout_env \<Rightarrow> update_host list \<Rightarrow> rollout \<Rightarrow> rollout" where
  "sweep E hs s = fold (\<lambda>h s. if inFlightStatus (uh_Status h) \<and> re_now E - uh_UpdatedAt h > hostTimeoutS
     then clearPending (uh_HostID h) (SetUpdateHostStatus E (uh_ID h) ''timed_out'' [] ''no result'' s) else s) hs s"

definition count_status :: "(string \<Rightarrow> bool) \<Rightarrow> update_host list \<Rightarrow> nat" where
  "count_status p hs = length (filter (\<lambda>h. p (uh_Status h)) hs)"

text \<open>Dispatching a list of hosts; a host that cannot be dispatched is failed.\<close>

definition dispatch_or_fail :: "rollout_env \<Rightarrow> update_run \<Rightarrow> Release \<Rightarrow> update_host \<Rightarrow> rollout \<Rightarrow> rollout" where
  "dispatch_or_fail E r rel h s =
     (case dispatchHost E r h rel s of
        (True, s1) \<Rightarrow> s1
      | (False, s1) \<Rightarrow> SetUpdateHostStatus E (uh_ID h) ''failed_rollback'' [] ''dispatch'' s1)"

definition dispatch_all :: "rollout_env \<Rightarrow> update_run \<Rightarrow> Release \<Rightarrow> update_host list \<Rightarrow> rollout \<Rightarrow> rollout" where
  "dispatch_all E r rel hs s = fold (dispatch_or_fail E r rel) hs s"

definition waveSize :: "nat \<Rightarrow> int \<Rightarrow> nat" where
  "waveSize ttl pct = (let n = int ttl * pct div 100 in if n < 1 then 1 else nat n)"

definition canary_tick :: "rollout_env \<Rightarrow> update_run \<Rightarrow> update_host list \<Rightarrow> rollout \<Rightarrow> update_error option \<times> rollout" where
  "canary_tick E r hs s =
     (let cohort = splitIDs (un_CanaryHosts r); i = un_ID r;
          mine = filter (\<lambda>h. uh_HostID h \<in> set cohort) hs in
      case (if cohort \<noteq> [] then
              (case FindRelease (un_ReleaseID r) s of
                 None \<Rightarrow> None
               | Some rel \<Rightarrow> Some (dispatch_all E r rel (filter (\<lambda>h. uh_Status h = ''queued'') mine) s))
            else Some s) of
        None \<Rightarrow> (Some NoRelease, s)
      | Some s1 \<Rightarrow>
          if list_ex (\<lambda>h. failedStatus (uh_Status h)) mine then
            (None, SetUpdateRunStatus i ''failed'' ''canary failed (hard gate)'' s1)
          else if list_all (\<lambda>h. TerminalRunHost (uh_Status h)) mine then
            (None, SetUpdateRunStatus i ''rolling'' []
               (SetUpdateRunCounters i 1 (un_TotalHosts r) (count_status (\<lambda>st. st = ''verified'') hs)
                  (count_status failedStatus hs) (count_status (\<lambda>st. st = ''skipped'') hs) s1))
          else (None, s1))"

definition rolling_tick :: "rollout_env \<Rightarrow> update_run \<Rightarrow> update_host list \<Rightarrow> rollout \<Rightarrow> update_error option \<times> rollout" where
  "rolling_tick E r hs s =
     (let i = un_ID r; queued = filter (\<lambda>h. uh_Status h = ''queued'') hs in
      if list_ex (\<lambda>h. inFlightStatus (uh_Status h)) hs then (None, s)
      else if list_ex (\<lambda>h. failedStatus (uh_Status h)) hs then
        (None, SetUpdateRunStatus i ''paused_failure'' ''wave failed; operator must retry/skip/abort'' s)
      else if queued = [] then (None, SetUpdateRunStatus i ''completed'' [] s)
      else (case FindRelease (un_ReleaseID r) s of
              None \<Rightarrow> (Some NoRelease, s)
            | Some rel \<Rightarrow>
                let s1 = SetUpdateRunCounters i (un_CurrentWave r + 1) (un_TotalHosts r)
                           (count_status (\<lambda>st. st = ''verified'') hs) 0 (count_status (\<lambda>st. st = ''skipped'') hs) s
                in (None, dispatch_all E r rel (take (waveSize (length hs) (un_WavePct r)) queued) s1)))"

definition step_run :: "rollout_env \<Rightarrow> string \<Rightarrow> rollout \<Rightarrow> update_error option \<times> rollout" where
  "step_run E i s =
     (case GetUpdateRun i s of
        None \<Rightarrow> (Some RunNotFound, s)
      | Some r \<Rightarrow>
          if TerminalUpdateRun (un_Status r) then (None, s)
          else
            let hs = ListUpdateHosts i s;
                dn = count_status (\<lambda>st. st = ''verified'') hs; fl = count_status failedStatus hs;
                sk = count_status (\<lambda>st. st = ''skipped'') hs;
                s1 = sweep E hs s;
                s2 = (if un_Done r \<noteq> dn \<or> un_Failed r \<noteq> fl \<or> un_Skipped r \<noteq> sk then
                        SetUpdateRunCounters i (un_CurrentWave r) (un_TotalHosts r) dn fl sk s1
                      else s1)
            in if un_Status r = ''canary'' then canary_tick E r hs s2
               else if un_Status r = ''rolling'' then rolling_tick E r hs s2
               else (None, s2))"

text \<open>One turn of \<open>runLoop\<close>: an error fails the run and ends the loop.\<close>

definition loop_turn :: "rollout_env \<Rightarrow> string \<Rightarrow> rollout \<Rightarrow> rollout" where
  "loop_turn E i s =
     (if i \<notin> set (ro_loops s) then s
      else (case step_run E i s of
              (None, s1) \<Rightarrow> s1
            | (Some err, s1) \<Rightarrow> stopLoop i (SetUpdateRunStatus i ''failed'' ''step'' s1)))"

definition ResumeAll :: "rollout \<Rightarrow> rollout" where
  "ResumeAll s = fold ensureLoop
     (map un_ID (filter (\<lambda>r. \<not> TerminalUpdateRun (un_Status r) \<and> un_Status r \<noteq> ''pending'') (sort_key un_CreatedAt (ro_runs s)))) s"

section \<open>What the operations keep\<close>

text \<open>
  A host is busy from its dispatch until it is verified or an operator has dealt with its failure.
  \<open>touch X s s'\<close>: the runs stand, no row appears, goes or moves, and only rows of \<open>X\<close> may have
  become busy.
\<close>

definition busy :: "string \<Rightarrow> bool" where "busy st \<longleftrightarrow> inFlightStatus st \<or> failedStatus st"

definition row_ids :: "string \<Rightarrow> rollout \<Rightarrow> string set" where
  "row_ids i s = uh_ID ` {h \<in> set (ro_hosts s). uh_RunID h = i}"

definition busy_ids :: "string \<Rightarrow> rollout \<Rightarrow> string set" where
  "busy_ids i s = uh_ID ` {h \<in> set (ro_hosts s). uh_RunID h = i \<and> busy (uh_Status h)}"

definition row_key :: "update_host \<Rightarrow> string \<times> string \<times> string" where
  "row_key h = (uh_ID h, uh_RunID h, uh_HostID h)"

definition touch :: "string set \<Rightarrow> rollout \<Rightarrow> rollout \<Rightarrow> bool" where
  "touch X s s' \<longleftrightarrow> map row_key (ro_hosts s') = map row_key (ro_hosts s) \<and> ro_runs s' = ro_runs s \<and> ro_next s \<le> ro_next s'
     \<and> (\<forall>i. busy_ids i s' \<subseteq> busy_ids i s \<union> (X \<inter> row_ids i s))"

named_theorems touches

lemma row_ids_keys: "row_ids i s = (\<lambda>(u, r, h). u) ` {k \<in> set (map row_key (ro_hosts s)). (case k of (u, r, h) \<Rightarrow> r = i)}"
  by (force simp: row_ids_def row_key_def)

lemma touch_row_ids: "touch X s s' \<Longrightarrow> row_ids i s' = row_ids i s"
  unfolding touch_def row_ids_keys by metis

lemma touch_refl [touches]: "touch X s s"
  by (auto simp: touch_def)

lemma touch_trans: "touch X s s' \<Longrightarrow> touch Y s' s'' \<Longrightarrow> touch (X \<union> Y) s s''"
  using touch_row_ids [of X s s'] by (fastforce simp: touch_def)

lemma touch_mono: "touch X s s' \<Longrightarrow> X \<subseteq> Y \<Longrightarrow> touch Y s s'"
  by (fastforce simp: touch_def)

lemma touch_same: "ro_hosts s' = ro_hosts s \<Longrightarrow> ro_runs s' = ro_runs s \<Longrightarrow> ro_next s \<le> ro_next s' \<Longrightarrow> touch X s s'"
  by (auto simp: touch_def busy_ids_def)

lemma touch_set_busy: "touch {x} s (SetUpdateHostStatus E x st v e s)"
  by (auto simp: touch_def SetUpdateHostStatus_def row_key_def sql_update_def busy_ids_def row_ids_def image_iff split: if_splits)

lemma touch_set_idle [touches]: "\<not> busy st \<Longrightarrow> touch X s (SetUpdateHostStatus E x st v e s)"
  by (auto simp: touch_def SetUpdateHostStatus_def row_key_def sql_update_def busy_ids_def row_ids_def image_iff split: if_splits)

lemma touch_DeletePending [touches]: "touch X s (clearPending a s)"
  by (rule touch_same) (auto simp: clearPending_def on_server_def)

lemma touch_server [touches]: "touch X s (on_server f s)"
  by (rule touch_same) (auto simp: on_server_def)

lemma touch_grant [touches]: "touch X s (snd (new_grant E a r s))"
  by (rule touch_same) (auto simp: new_grant_def split: option.splits)

lemma touch_dispatches [touches]: "touch X s (s\<lparr>ro_dispatches := d\<rparr>)"
  by (rule touch_same) auto

lemma touch_step: "touch X s s' \<Longrightarrow> touch X s' s'' \<Longrightarrow> touch X s s''"
  using touch_trans [of X s s' X s''] by simp

lemma touch_dispatchHost: "touch {uh_ID h} s (snd (dispatchHost E r h rel s))"
proof (cases "new_grant E (uh_HostID h) (rl_ID rel) s")
  case (Pair g s1)
  have 1: "touch {uh_ID h} s s1" using touch_grant [of "{uh_ID h}" s E "uh_HostID h" "rl_ID rel"] Pair by simp
  show ?thesis
  proof (cases g)
    case None
    with 1 show ?thesis by (simp add: dispatchHost_def Pair)
  next
    case (Some tok)
    show ?thesis
      by (simp add: dispatchHost_def Pair Some Let_def)
        (rule touch_step [OF 1 touch_step [OF touch_server touch_step [OF touch_set_busy touch_dispatches]]])
  qed
qed

lemma touch_dispatch_or_fail: "touch {uh_ID h} s (dispatch_or_fail E r rel h s)"
proof (cases "dispatchHost E r h rel s")
  case (Pair b s1)
  then have 1: "touch {uh_ID h} s s1" using touch_dispatchHost [of h s E r rel] by simp
  with Pair touch_step [OF 1 touch_set_busy] show ?thesis by (cases b) (simp_all add: dispatch_or_fail_def)
qed

lemma touch_fold:
  assumes "\<And>h s. h \<in> set hs \<Longrightarrow> touch X s (f h s)"
  shows "touch X s (fold f hs s)"
  using assms by (induction hs arbitrary: s) (auto intro: touch_refl touch_step)

lemma touch_dispatch_all: "touch (uh_ID ` set hs) s (dispatch_all E r rel hs s)"
  unfolding dispatch_all_def by (rule touch_fold, rule touch_mono, rule touch_dispatch_or_fail) auto

lemma busy_simps [simp]:
  "\<not> busy ''skipped''" "\<not> busy ''verified''" "\<not> busy ''queued''" "busy ''timed_out''" "busy ''failed_rollback''"
  "busy ''dispatching''" "busy ''restarting''"
  by (auto simp: busy_def inFlightStatus_def failedStatus_def)

lemma touch_skip_rows [touches]: "touch X s (skip_rows E why hs s)"
  unfolding skip_rows_def by (intro touch_fold) (rule touch_step [OF touch_set_idle touch_DeletePending], simp)

lemma touch_sweep: "touch (uh_ID ` {h \<in> set hs. inFlightStatus (uh_Status h)}) s (sweep E hs s)"
  unfolding sweep_def
  by (rule touch_fold) (auto intro!: touch_refl touch_step [OF touch_mono [OF touch_set_busy] touch_DeletePending])

lemma touch_retry_loop:
  "touch (uh_ID ` {h \<in> set hs. failedStatus (uh_Status h)}) s (snd (retry_loop E r rel hs (n, s)))"
proof (induction hs arbitrary: n s)
  case Nil
  show ?case by (simp add: touch_refl)
next
  case (Cons h hs)
  have up: "touch (uh_ID ` {h' \<in> set (h # hs). failedStatus (uh_Status h')}) s1 (snd (retry_loop E r rel hs (k, s1)))" for k s1
    by (rule touch_mono [OF Cons.IH]) auto
  show ?case
  proof (cases "failedStatus (uh_Status h)")
    case False
    then show ?thesis using up by simp
  next
    case True
    obtain b s1 where d: "dispatchHost E r h rel s = (b, s1)" by (cases "dispatchHost E r h rel s")
    have "touch (uh_ID ` {h' \<in> set (h # hs). failedStatus (uh_Status h')}) s s1"
      using touch_mono [OF touch_dispatchHost [of h s E r rel]] d True by auto
    from touch_step [OF this up] d True show ?thesis by (cases b) auto
  qed
qed

section \<open>The invariant\<close>

definition cohort_ids :: "update_run \<Rightarrow> rollout \<Rightarrow> string set" where
  "cohort_ids r s = uh_ID ` {h \<in> set (ro_hosts s). uh_RunID h = un_ID r \<and> uh_HostID h \<in> set (splitIDs (un_CanaryHosts r))}"

definition row_count :: "string \<Rightarrow> rollout \<Rightarrow> nat" where
  "row_count i s = length (filter (\<lambda>h. uh_RunID h = i) (ro_hosts s))"

definition phase_ok :: "rollout \<Rightarrow> update_run \<Rightarrow> string set \<Rightarrow> bool" where
  "phase_ok s r B \<longleftrightarrow>
     (un_Status r \<in> {''draft'', ''pending''} \<longrightarrow> B = {}) \<and>
     (un_Status r = ''canary'' \<longrightarrow> B \<subseteq> cohort_ids r s) \<and>
     (un_Status r \<in> {''rolling'', ''paused_failure''} \<longrightarrow> card B \<le> waveSize (row_count (un_ID r) s) (un_WavePct r))"

definition rollout_inv :: "(string \<Rightarrow> nat \<Rightarrow> string) \<Rightarrow> rollout \<Rightarrow> bool" where
  "rollout_inv idf s \<longleftrightarrow>
     distinct (map un_ID (ro_runs s)) \<and> distinct (map uh_ID (ro_hosts s)) \<and>
     distinct (map (\<lambda>h. (uh_RunID h, uh_HostID h)) (ro_hosts s)) \<and>
     un_ID ` set (ro_runs s) \<subseteq> idf ''run'' ` {..<ro_next s} \<and> uh_RunID ` set (ro_hosts s) \<subseteq> idf ''run'' ` {..<ro_next s} \<and>
     uh_ID ` set (ro_hosts s) \<subseteq> idf ''uh'' ` {..<ro_next s} \<and>
     (\<forall>r\<in>set (ro_runs s). phase_ok s r (busy_ids (un_ID r) s))"

lemma finite_busy_ids [simp]: "finite (busy_ids i s)" "finite (row_ids i s)"
  by (simp_all add: busy_ids_def row_ids_def)

lemma phase_ok_mono: "phase_ok s r B \<Longrightarrow> finite B \<Longrightarrow> A \<subseteq> B \<Longrightarrow> phase_ok s r A"
  unfolding phase_ok_def by (meson card_mono le_trans subset_empty subset_trans)

lemma keys_eqD:
  assumes "map row_key (ro_hosts s') = map row_key (ro_hosts s)"
  shows "cohort_ids r s' = cohort_ids r s" "row_count i s' = row_count i s" "phase_ok s' r B = phase_ok s r B"
proof -
  have c: "cohort_ids r s = (\<lambda>(u, i, h). u) ` {k \<in> set (map row_key (ro_hosts s)). (case k of (u, i, h) \<Rightarrow> i = un_ID r \<and> h \<in> set (splitIDs (un_CanaryHosts r)))}" for s
    by (force simp: cohort_ids_def row_key_def)
  have n: "row_count i s = length (filter (\<lambda>(u, j, h). j = i) (map row_key (ro_hosts s)))" for i s
    by (simp add: row_count_def filter_map o_def row_key_def)
  show 1: "cohort_ids r s' = cohort_ids r s" "row_count i s' = row_count i s" for i unfolding c n assms by simp_all
  show "phase_ok s' r B = phase_ok s r B" by (simp add: phase_ok_def 1)
qed

lemma inv_touch:
  assumes i: "rollout_inv idf s" and f: "touch X s s'"
    and ok: "\<And>r. r \<in> set (ro_runs s) \<Longrightarrow> phase_ok s r (busy_ids (un_ID r) s \<union> (X \<inter> row_ids (un_ID r) s))"
  shows "rollout_inv idf s'"
proof -
  have k: "map row_key (ro_hosts s') = map row_key (ro_hosts s)" and r: "ro_runs s' = ro_runs s" and n: "ro_next s \<le> ro_next s'"
    and b: "busy_ids i s' \<subseteq> busy_ids i s \<union> (X \<inter> row_ids i s)" for i
    using f by (auto simp: touch_def)
  have m: "map f (ro_hosts s') = map f (ro_hosts s)" if "f = g \<circ> row_key" for f :: "update_host \<Rightarrow> 'b" and g
    using k by (metis list.map_comp that)
  have "map uh_ID (ro_hosts s') = map uh_ID (ro_hosts s)" by (rule m [of _ fst]) (auto simp: row_key_def)
  moreover have u: "map uh_RunID (ro_hosts s') = map uh_RunID (ro_hosts s)" by (rule m [of _ "fst \<circ> snd"]) (auto simp: row_key_def)
  moreover have "map (\<lambda>h. (uh_RunID h, uh_HostID h)) (ro_hosts s') = map (\<lambda>h. (uh_RunID h, uh_HostID h)) (ro_hosts s)"
    by (rule m [of _ snd]) (auto simp: row_key_def)
  ultimately have sets: "uh_ID ` set (ro_hosts s') = uh_ID ` set (ro_hosts s)" "uh_RunID ` set (ro_hosts s') = uh_RunID ` set (ro_hosts s)"
    and ds: "distinct (map uh_ID (ro_hosts s'))" "distinct (map (\<lambda>h. (uh_RunID h, uh_HostID h)) (ro_hosts s'))"
    using i by (metis list.set_map, metis list.set_map, simp_all add: rollout_inv_def)
  have "{..<ro_next s} \<subseteq> {..<ro_next s'}" using n by auto
  with i sets ds show ?thesis
    unfolding rollout_inv_def r keys_eqD(3) [OF k]
    by (intro conjI ballI phase_ok_mono [OF ok _ b]) (auto 0 3)
qed

text \<open>Updates that make no row busy that is not busy keep the invariant.\<close>

lemma inv_quiet:
  assumes "rollout_inv idf s" "touch X s s'" and "\<And>i. X \<inter> row_ids i s \<subseteq> busy_ids i s"
  shows "rollout_inv idf s'"
proof (rule inv_touch [OF assms(1,2)])
  fix r assume "r \<in> set (ro_runs s)"
  moreover have "busy_ids (un_ID r) s \<union> (X \<inter> row_ids (un_ID r) s) = busy_ids (un_ID r) s" using assms(3) by blast
  ultimately show "phase_ok s r (busy_ids (un_ID r) s \<union> (X \<inter> row_ids (un_ID r) s))" using assms(1) by (simp add: rollout_inv_def)
qed

lemma inv_quiet0: "rollout_inv idf s \<Longrightarrow> touch {} s s' \<Longrightarrow> rollout_inv idf s'"
  by (erule inv_quiet) auto

lemma busy_rows_quiet:
  assumes "rollout_inv idf s" "H \<subseteq> {h \<in> set (ro_hosts s). busy (uh_Status h)}"
  shows "uh_ID ` H \<inter> row_ids i s \<subseteq> busy_ids i s"
proof
  fix x assume "x \<in> uh_ID ` H \<inter> row_ids i s"
  then obtain h h' where h: "h \<in> H" "x = uh_ID h" and h': "h' \<in> set (ro_hosts s)" "uh_RunID h' = i" "x = uh_ID h'"
    by (auto simp: row_ids_def)
  have "h' = h"
    using assms h h' by (auto simp: rollout_inv_def distinct_map dest!: inj_onD)
  with h h' assms(2) show "x \<in> busy_ids i s" by (auto simp: busy_ids_def)
qed

lemma phase_ok_fields [simp]:
  "phase_ok s (r\<lparr>un_Error := e\<rparr>) B = phase_ok s r B" "phase_ok s (r\<lparr>un_ApprovalID := q\<rparr>) B = phase_ok s r B"
  "phase_ok s (r\<lparr>un_CurrentWave := w, un_TotalHosts := t, un_Done := d, un_Failed := fl, un_Skipped := sk\<rparr>) B = phase_ok s r B"
  by (auto simp: phase_ok_def cohort_ids_def)

lemma inv_run_update:
  assumes i: "rollout_inv idf s" and f: "\<And>r. un_ID (f r) = un_ID r"
    and ok: "\<And>r. r \<in> set (ro_runs s) \<Longrightarrow> un_ID r = i \<Longrightarrow> phase_ok s (f r) (busy_ids i s)"
  shows "rollout_inv idf (s\<lparr>ro_runs := sql_update (\<lambda>r. un_ID r = i) f (ro_runs s)\<rparr>)"
proof -
  have m: "map un_ID (sql_update (\<lambda>r. un_ID r = i) f (ro_runs s)) = map un_ID (ro_runs s)"
    by (auto simp: sql_update_def f)
  have p: "phase_ok (s\<lparr>ro_runs := x\<rparr>) r B = phase_ok s r B" "busy_ids j (s\<lparr>ro_runs := x\<rparr>) = busy_ids j s" for x r B j
    by (rule keys_eqD(3), simp) (simp add: busy_ids_def)
  have "phase_ok s r (busy_ids (un_ID r) s)" if "r \<in> set (sql_update (\<lambda>r. un_ID r = i) f (ro_runs s))" for r
  proof -
    from that obtain r0 where r0: "r0 \<in> set (ro_runs s)" "r = (if un_ID r0 = i then f r0 else r0)"
      by (auto simp: sql_update_def)
    show ?thesis
    proof (cases "un_ID r0 = i")
      case True
      with ok [OF r0(1)] r0(2) f show ?thesis by simp
    next
      case False
      with i r0 show ?thesis by (simp add: rollout_inv_def)
    qed
  qed
  moreover have "un_ID ` set (sql_update (\<lambda>r. un_ID r = i) f (ro_runs s)) = un_ID ` set (ro_runs s)"
    by (rule image_sql_update) (rule f)
  ultimately show ?thesis using i unfolding rollout_inv_def by (simp add: m p)
qed

lemma inv_status:
  assumes "rollout_inv idf s"
    "\<And>r. r \<in> set (ro_runs s) \<Longrightarrow> un_ID r = i \<Longrightarrow> phase_ok s (r\<lparr>un_Status := st\<rparr>) (busy_ids i s)"
  shows "rollout_inv idf (SetUpdateRunStatus i st e s)"
  unfolding SetUpdateRunStatus_def by (rule inv_run_update) (use assms in auto)

lemma inv_free_status:
  "rollout_inv idf s \<Longrightarrow> st \<notin> {''draft'', ''pending'', ''canary'', ''rolling'', ''paused_failure''}
   \<Longrightarrow> rollout_inv idf (SetUpdateRunStatus i st e s)"
  by (rule inv_status) (auto simp: phase_ok_def)

lemma inv_counters: "rollout_inv idf s \<Longrightarrow> rollout_inv idf (SetUpdateRunCounters i w t d fl sk s)"
  unfolding SetUpdateRunCounters_def by (rule inv_run_update) (auto simp: rollout_inv_def)

lemma inv_approval: "rollout_inv idf s \<Longrightarrow> rollout_inv idf (SetUpdateRunApproval i q s)"
  unfolding SetUpdateRunApproval_def by (rule inv_run_update) (auto simp: rollout_inv_def)

lemma inv_same:
  "rollout_inv idf s \<Longrightarrow> ro_hosts s' = ro_hosts s \<Longrightarrow> ro_runs s' = ro_runs s \<Longrightarrow> ro_next s \<le> ro_next s' \<Longrightarrow> rollout_inv idf s'"
  by (erule inv_quiet0) (rule touch_same)

lemma inv_loops: "rollout_inv idf s \<Longrightarrow> rollout_inv idf (ensureLoop i s)" "rollout_inv idf s \<Longrightarrow> rollout_inv idf (stopLoop i s)"
  by (auto simp: ensureLoop_def stopLoop_def intro: inv_same)

lemma inv_skip_rows: "rollout_inv idf s \<Longrightarrow> rollout_inv idf (skip_rows E why hs s)"
  by (erule inv_quiet0) (rule touch_skip_rows)

lemma set_ListUpdateHosts: "set (ListUpdateHosts i s) = {h \<in> set (ro_hosts s). uh_RunID h = i}"
  by (auto simp: ListUpdateHosts_def)

lemma the_run:
  assumes "rollout_inv idf s" "GetUpdateRun i s = Some r"
  shows "r \<in> set (ro_runs s)" "un_ID r = i" "phase_ok s r (busy_ids i s)" "\<And>r'. r' \<in> set (ro_runs s) \<Longrightarrow> un_ID r' = i \<Longrightarrow> r' = r"
proof -
  show 1: "r \<in> set (ro_runs s)" "un_ID r = i" using assms(2) by (auto simp: GetUpdateRun_def dest: sql_get_SomeD)
  with assms(1) show "phase_ok s r (busy_ids i s)" by (auto simp: rollout_inv_def)
  show "r' \<in> set (ro_runs s) \<Longrightarrow> un_ID r' = i \<Longrightarrow> r' = r" for r'
    using 1 assms(1) by (auto simp: rollout_inv_def distinct_map dest: inj_onD)
qed

text \<open>Setting the status of a run that has one keeps the invariant when the new phase allows its busy hosts.\<close>

lemma inv_set_status:
  assumes "rollout_inv idf s" "GetUpdateRun i s = Some r" "phase_ok s (r\<lparr>un_Status := st\<rparr>) (busy_ids i s)"
  shows "rollout_inv idf (SetUpdateRunStatus i st e s)"
  by (rule inv_status [OF assms(1)]) (use the_run(4) [OF assms(1,2)] assms(3) in blast)

lemma inv_Skip: "rollout_inv idf s \<Longrightarrow> rollout_inv idf (snd (Skip E i s))"
proof (cases "GetUpdateRun i s")
  case (Some r)
  assume i: "rollout_inv idf s"
  let ?s1 = "skip_rows E ''skipped by operator'' (filter (\<lambda>h. failedStatus (uh_Status h)) (ListUpdateHosts i s)) s"
  note i1 = inv_skip_rows [OF i, of E "''skipped by operator''"]
  have "ro_runs ?s1 = ro_runs s" using touch_skip_rows by (auto simp: touch_def)
  with Some have g: "GetUpdateRun i ?s1 = Some r" by (simp add: GetUpdateRun_def)
  show ?thesis
  proof (cases "un_Status r = ''paused_failure''")
    case True
    have "phase_ok ?s1 (r\<lparr>un_Status := ''rolling''\<rparr>) (busy_ids i ?s1)"
      using the_run(3) [OF i1 g] True by (auto simp: phase_ok_def)
    from inv_loops(1) [OF inv_set_status [OF i1 g this]] Some True i1 show ?thesis
      by (simp add: Skip_def Let_def)
  qed (use Some i in \<open>simp add: Skip_def\<close>)
qed (simp add: Skip_def)

lemma inv_Abort: "rollout_inv idf s \<Longrightarrow> rollout_inv idf (snd (Abort E i a s))"
  by (auto simp: Abort_def Let_def split: option.splits intro!: inv_loops inv_skip_rows inv_free_status)

lemma inv_OnResult:
  assumes i: "rollout_inv idf s" and a: "ActiveUpdateHostFor a s = Some row" "inFlightStatus (uh_Status row)"
  shows "rollout_inv idf (OnResult E a ph s)"
proof -
  have "fold newer hs b = Some h \<Longrightarrow> h \<in> set hs \<or> b = Some h" for hs b h
    by (induction hs arbitrary: b) (fastforce simp: newer_def split: option.splits if_splits)+
  with a have r: "row \<in> set (ro_hosts s)" by (force simp: ActiveUpdateHostFor_def)
  have q: "rollout_inv idf (SetUpdateHostStatus E (uh_ID row) st v e s)" for st v e
    by (rule inv_quiet [OF i touch_set_busy])
      (use busy_rows_quiet [OF i, of "{row}"] r a(2) in \<open>simp add: busy_def\<close>)
  have d: "rollout_inv idf t \<Longrightarrow> rollout_inv idf (clearPending x t)" for t x
    by (erule inv_quiet0) (rule touch_DeletePending)
  show ?thesis using i a by (simp add: OnResult_def q d)
qed

lemma GetUpdateRun_runs: "ro_runs s' = ro_runs s \<Longrightarrow> GetUpdateRun i s' = GetUpdateRun i s"
  by (simp add: GetUpdateRun_def)

lemma touch_runs: "touch X s s' \<Longrightarrow> ro_runs s' = ro_runs s"
  by (simp add: touch_def)

text \<open>A failed host of a canary run is in its cohort.\<close>

lemma canary_failed_found:
  assumes i: "rollout_inv idf s" and r: "GetUpdateRun i s = Some r" "un_Status r = ''canary''"
    and h: "h \<in> set (ListUpdateHosts i s)" "busy (uh_Status h)"
  shows "uh_HostID h \<in> set (splitIDs (un_CanaryHosts r))" "GetUpdateHost i (uh_HostID h) s = Some h"
proof -
  note h' = h(1) [unfolded set_ListUpdateHosts]
  have "busy_ids i s \<subseteq> cohort_ids r s" using the_run(3) [OF i r(1)] r(2) by (simp add: phase_ok_def)
  moreover have "uh_ID h \<in> busy_ids i s" using h' h(2) by (auto simp: busy_ids_def)
  ultimately obtain g where g: "g \<in> set (ro_hosts s)" "uh_HostID g \<in> set (splitIDs (un_CanaryHosts r))" "uh_ID g = uh_ID h"
    by (auto simp: cohort_ids_def)
  with i h' have "g = h" by (auto simp: rollout_inv_def distinct_map dest: inj_onD)
  with g show "uh_HostID h \<in> set (splitIDs (un_CanaryHosts r))" by simp
  obtain g where "GetUpdateHost i (uh_HostID h) s = Some g"
    using h' by (cases "GetUpdateHost i (uh_HostID h) s") (auto simp: GetUpdateHost_def find_None_iff)
  moreover from this have "g \<in> set (ro_hosts s)" "uh_RunID g = i" "uh_HostID g = uh_HostID h"
    by (auto simp: GetUpdateHost_def find_Some_iff)
  with i h' have "g = h" by (auto simp: rollout_inv_def distinct_map dest: inj_onD)
  ultimately show "GetUpdateHost i (uh_HostID h) s = Some h" by simp
qed

lemma retry_loop_none:
  "\<forall>h\<in>set hs. \<not> failedStatus (uh_Status h) \<Longrightarrow> retry_loop E r rel hs acc = acc"
  by (induction hs arbitrary: acc) (auto elim: retry_loop.elims)

lemma inv_Retry:
  assumes i: "rollout_inv idf s"
  shows "rollout_inv idf (snd (Retry E i s))"
proof (cases "\<exists>r rel. GetUpdateRun i s = Some r \<and> FindRelease (un_ReleaseID r) s = Some rel \<and> un_Status r \<in> {''paused_failure'', ''rolling''}")
  case True
  then obtain r rel where r: "GetUpdateRun i s = Some r" "FindRelease (un_ReleaseID r) s = Some rel" "un_Status r \<in> {''paused_failure'', ''rolling''}"
    by blast
  obtain n s1 where l: "retry_loop E r rel (ListUpdateHosts i s) (0, s) = (n, s1)" by fastforce
  let ?X = "uh_ID ` {h \<in> set (ListUpdateHosts i s). failedStatus (uh_Status h)}"
  have f: "touch ?X s s1" using touch_retry_loop [of "ListUpdateHosts i s" s E r rel 0] l by simp
  have i1: "rollout_inv idf s1"
  proof (rule inv_quiet [OF i f])
    show "?X \<inter> row_ids j s \<subseteq> busy_ids j s" for j
      by (rule busy_rows_quiet [OF i, of "{h \<in> set (ListUpdateHosts i s). failedStatus (uh_Status h)}"])
        (auto simp: set_ListUpdateHosts busy_def)
  qed
  have g: "GetUpdateRun i s1 = Some r" using r(1) GetUpdateRun_runs [OF touch_runs [OF f]] by simp
  have "phase_ok s1 (r\<lparr>un_Status := ''rolling''\<rparr>) (busy_ids i s1)"
    using the_run(3) [OF i1 g] r(3) by (auto simp: phase_ok_def)
  note i2 = inv_loops(1) [OF inv_set_status [OF i1 g this]]
  have "snd (Retry E i s) = (if n = 0 then s1 else ensureLoop i (SetUpdateRunStatus i ''rolling'' [] s1))"
    using r l by (cases "un_Status r = ''rolling''") (simp_all add: Retry_def)
  with i1 i2 show ?thesis by simp
next
  case False
  show ?thesis
  proof (cases "\<exists>h\<in>set (ListUpdateHosts i s). failedStatus (uh_Status h)")
    case none: False
    then have "retry_loop E r rel (ListUpdateHosts i s) (0, s) = (0, s)" for r rel by (simp add: retry_loop_none)
    with i show ?thesis by (auto simp: Retry_def split: option.splits)
  next
    case True
    then obtain h where h: "h \<in> set (ListUpdateHosts i s)" "failedStatus (uh_Status h)" by blast
    have "find (\<lambda>c. case GetUpdateHost i c s of None \<Rightarrow> False | Some h \<Rightarrow> failedStatus (uh_Status h)) (splitIDs (un_CanaryHosts r)) \<noteq> None"
      if "GetUpdateRun i s = Some r" "un_Status r = ''canary''" for r
      using canary_failed_found [OF i that h(1)] h(2) by (auto simp: find_None_iff busy_def)
    with False i show ?thesis by (auto simp: Retry_def split: option.splits)
  qed
qed

lemma inv_new_request: "rollout_inv idf s \<Longrightarrow> rollout_inv idf (snd (new_request E i p s))"
  by (erule inv_same) (auto simp: new_request_def Let_def)

text \<open>A run without busy hosts may enter any phase.\<close>

lemma inv_enter:
  assumes i: "rollout_inv idf s" and b: "busy_ids i s = {}"
  shows "rollout_inv idf (SetUpdateRunStatus i st e s)"
  by (rule inv_status [OF i]) (auto simp: b phase_ok_def)

lemma busy_ids_simps [simp]:
  "busy_ids i (SetUpdateRunCounters j w t d fl sk s) = busy_ids i s" "busy_ids i (SetUpdateRunApproval j q s) = busy_ids i s"
  "busy_ids i (SetUpdateRunStatus j st e s) = busy_ids i s" "busy_ids i (snd (new_request E j p s)) = busy_ids i s"
  by (simp_all add: busy_ids_def SetUpdateRunCounters_def SetUpdateRunApproval_def SetUpdateRunStatus_def new_request_def Let_def)

lemma touch_busy: "touch {} s s' \<Longrightarrow> busy_ids i s' \<subseteq> busy_ids i s"
  by (auto simp: touch_def)

lemma inv_Start_draft:
  assumes i: "rollout_inv idf s"
  shows "rollout_inv idf (snd (Start_draft E i s))"
proof (cases "\<exists>r. GetUpdateRun i s = Some r \<and> un_Status r = ''draft''")
  case True
  then obtain r where r: "GetUpdateRun i s = Some r" "un_Status r = ''draft''" by blast
  have b: "busy_ids i s = {}" using the_run(3) [OF i r(1)] r(2) by (simp add: phase_ok_def)
  let ?hs = "filter (\<lambda>h. uh_Status h = ''queued'') (ListUpdateHosts i s)"
  let ?s2 = "exclude_denied E r ?hs s"
  have "busy_ids i (skip_rows E why hs s) = {}" for why hs using touch_busy [OF touch_skip_rows, of i E why hs s] b by blast
  then have "busy_ids i ?s2 = {}" "rollout_inv idf ?s2"
    using i by (simp_all add: exclude_denied_def Let_def inv_counters inv_skip_rows)
  note b2 = this(1) and i2 = this(2)
  obtain q s3 where q: "new_request E i None ?s2 = (q, s3)" by fastforce
  have i3: "rollout_inv idf s3" "busy_ids i s3 = {}"
    using inv_new_request [OF i2, of E i None] busy_ids_simps(4) [of i E i None ?s2] q b2 by simp_all
  have "snd (Start_draft E i s) \<in> {?s2, SetUpdateRunStatus i ''pending'' [] (SetUpdateRunApproval i q s3),
      ensureLoop i (SetUpdateRunStatus i ''canary'' [] ?s2), ensureLoop i (SetUpdateRunStatus i ''rolling'' [] ?s2)}"
    using r q by (simp add: Start_draft_def Let_def)
  then show ?thesis
    using i2 inv_loops(1) [OF inv_enter [OF i2 b2]] inv_enter [OF inv_approval [OF i3(1)]] i3(2) by auto
qed (use i in \<open>auto simp: Start_draft_def split: option.splits\<close>)

lemma inv_DispatchApprovedRun:
  assumes i: "rollout_inv idf s"
  shows "rollout_inv idf (snd (DispatchApprovedRun q s))"
proof -
  have "busy_ids j s = {}" if "GetUpdateRun j s = Some r" "un_Status r = ''pending''" for j r
    using the_run(3) [OF i that(1)] that(2) by (simp add: phase_ok_def)
  moreover have "un_ID r = j" if "GetUpdateRun j s = Some r" for j r
    using that by (auto simp: GetUpdateRun_def dest: sql_get_SomeD)
  ultimately show ?thesis using i
    by (auto simp: DispatchApprovedRun_def Let_def split: option.splits intro!: inv_loops inv_enter)
qed

lemma host_rows_facts:
  "map uh_HostID (host_rows E i d ids n) = ids" "\<forall>h\<in>set (host_rows E i d ids n). uh_RunID h = i \<and> \<not> busy (uh_Status h)"
  "map uh_ID (host_rows E i d ids n) = map (re_id E ''uh'') [n..<n + length ids]"
  by (induction ids arbitrary: n) (auto simp: upt_rec)

lemma inv_add_run:
  assumes i: "rollout_inv idf s" and id: "inj (idf ''run'')" "inj (idf ''uh'')" "re_id E = idf"
    and r: "un_ID r = idf ''run'' (ro_next s)" and ids: "distinct ids"
  shows "rollout_inv idf (s\<lparr>ro_next := ro_next s + 1 + length ids, ro_runs := ro_runs s @ [r],
            ro_hosts := ro_hosts s @ host_rows E (un_ID r) d ids (Suc (ro_next s))\<rparr>)" (is "rollout_inv idf ?t")
proof -
  let ?n = "ro_next s" and ?i = "un_ID r" and ?new = "host_rows E (un_ID r) d ids (Suc (ro_next s))"
  have new: "map uh_ID ?new = map (idf ''uh'') [Suc ?n..<Suc ?n + length ids]" "map uh_HostID ?new = ids"
    "h \<in> set ?new \<Longrightarrow> uh_RunID h = ?i \<and> \<not> busy (uh_Status h)" for h
    using host_rows_facts [of E ?i d ids "Suc ?n"] id(3) by simp_all
  have fresh: "?i \<notin> idf ''run'' ` {..<?n}" using r id(1) by (auto dest: injD)
  have old: "h \<in> set (ro_hosts s) \<Longrightarrow> uh_RunID h \<noteq> ?i" "q \<in> set (ro_runs s) \<Longrightarrow> un_ID q \<noteq> ?i" for h q
    using fresh i unfolding rollout_inv_def image_subset_iff by metis+
  have set_new: "uh_ID ` set ?new = idf ''uh'' ` {Suc ?n..<Suc ?n + length ids}"
    by (metis atLeastLessThan_upt list.set_map new(1))
  have disj: "idf ''uh'' ` {..<?n} \<inter> idf ''uh'' ` {Suc ?n..<Suc ?n + length ids} = {}"
    using id(2) by (subst image_Int [symmetric]) auto
  have d1: "distinct (map uh_ID (ro_hosts s @ ?new))"
  proof -
    have "distinct (map uh_ID ?new)" using id(2) by (simp add: new(1) distinct_map inj_on_subset)
    moreover have "uh_ID ` set (ro_hosts s) \<inter> uh_ID ` set ?new = {}"
      using i disj unfolding rollout_inv_def set_new by blast
    ultimately show ?thesis using i by (simp add: rollout_inv_def)
  qed
  have d2: "distinct (map (\<lambda>h. (uh_RunID h, uh_HostID h)) (ro_hosts s @ ?new))"
  proof -
    have "distinct (map uh_HostID ?new)" by (simp add: new(2) ids)
    then have "distinct (map (\<lambda>h. (uh_RunID h, uh_HostID h)) ?new)" by (auto simp: distinct_map inj_on_def)
    then show ?thesis using i old(1) new(3) by (auto simp: rollout_inv_def)
  qed
  have b: "busy_ids j ?t = busy_ids j s" for j using new(3) by (auto simp: busy_ids_def)
  have p: "phase_ok ?t q B = phase_ok s q B" if "q \<in> set (ro_runs s)" for q B
  proof -
    have "filter (\<lambda>h. uh_RunID h = un_ID q) ?new = []" using old(2) [OF that] new(3) by (auto simp: filter_empty_conv)
    moreover have "h \<in> set ?new \<Longrightarrow> uh_RunID h \<noteq> un_ID q" for h using old(2) [OF that] new(3) by auto
    ultimately show ?thesis by (auto simp: phase_ok_def row_count_def cohort_ids_def)
  qed
  have b0: "busy_ids ?i s = {}" using old(1) by (auto simp: busy_ids_def)
  have "phase_ok ?t q (busy_ids (un_ID q) ?t)" if "q \<in> set (ro_runs ?t)" for q
    using that i p b0 unfolding b by (auto simp: rollout_inv_def) (simp add: phase_ok_def)
  moreover have "uh_RunID ` set (ro_hosts ?t) \<subseteq> idf ''run'' ` {..<ro_next ?t}"
  proof -
    have "uh_RunID ` set ?new \<subseteq> {idf ''run'' ?n}" using new(3) r by auto
    then show ?thesis using i by (auto simp: rollout_inv_def)
  qed
  moreover have "uh_ID ` set (ro_hosts ?t) \<subseteq> idf ''uh'' ` {..<ro_next ?t}"
    using i by (auto simp: rollout_inv_def image_Un set_new)
  moreover have "distinct (map un_ID (ro_runs ?t))" "un_ID ` set (ro_runs ?t) \<subseteq> idf ''run'' ` {..<ro_next ?t}"
    using i old(2) r by (auto simp: rollout_inv_def)
  ultimately show ?thesis using d1 d2 unfolding rollout_inv_def by simp
qed

lemma plan_distinct: "hosts_inv (hosts (ro_srv s)) \<Longrightarrow> plan_run E p s = Inr pl \<Longrightarrow> distinct (rp_IDs pl)"
  by (auto simp: plan_run_def Let_def ResolveSelector_def split: sum.splits option.splits if_splits dest!: store_resolver.Resolve_correct)

lemma inv_StartRun:
  assumes i: "rollout_inv idf s" and id: "inj (idf ''run'')" "inj (idf ''uh'')" "re_id E = idf" and db: "hosts_inv (hosts (ro_srv s))"
  shows "rollout_inv idf (snd (StartRun E p s))"
proof (cases "plan_run E p s")
  case (Inl err)
  with i show ?thesis by (simp add: StartRun_def)
next
  case (Inr pl)
  let ?n = "ro_next s"
  let ?s1 = "s\<lparr>ro_next := ?n + 1 + length (rp_IDs pl)\<rparr>"
  have row: "un_ID (run_row E p pl j st w) = j" for j st w by (simp add: run_row_def)
  have new: "rollout_inv idf (add_run E pl (Suc ?n) r t)"
    if "un_ID r = idf ''run'' ?n" "ro_runs t = ro_runs s" "ro_hosts t = ro_hosts s" "?n + 1 + length (rp_IDs pl) \<le> ro_next t" for r t
    by (rule inv_same [OF inv_add_run [OF i id that(1) plan_distinct [OF db Inr], of "rp_Denied pl"]])
      (use that in \<open>simp_all add: add_run_def\<close>)
  have "rollout_inv idf ?s1" by (rule inv_same [OF i]) auto
  moreover have "rollout_inv idf (add_run E pl (Suc ?n) (run_row E p pl (idf ''run'' ?n) st w) ?s1)" for st w
    by (rule new) (simp_all add: row)
  moreover have "rollout_inv idf (add_run E pl (Suc ?n) (run_row E p pl (idf ''run'' ?n) st w) (snd (new_request E j q ?s1)))" for st w j q
    by (rule new) (simp_all add: row new_request_def Let_def)
  ultimately show ?thesis
    by (auto simp: StartRun_def Inr Let_def id(3) case_prod_beta intro!: inv_loops inv_approval)
qed

section \<open>One tick\<close>

lemma phase_ok_cong:
  "un_ID r' = un_ID r \<Longrightarrow> un_CanaryHosts r' = un_CanaryHosts r \<Longrightarrow> un_WavePct r' = un_WavePct r \<Longrightarrow> un_Status r' = un_Status r
   \<Longrightarrow> phase_ok s r' B = phase_ok s r B"
  by (simp add: phase_ok_def cohort_ids_def)

lemma rows_disjoint: "rollout_inv idf s \<Longrightarrow> i \<noteq> j \<Longrightarrow> row_ids i s \<inter> row_ids j s = {}"
  by (auto simp: row_ids_def rollout_inv_def distinct_map dest: inj_onD)

text \<open>Rows of one run becoming busy keep the invariant when the phase of that run allows it.\<close>

lemma inv_dispatch:
  assumes i: "rollout_inv idf s" and f: "touch X s s'" and X: "X \<subseteq> row_ids i s"
    and ok: "\<And>r. r \<in> set (ro_runs s) \<Longrightarrow> un_ID r = i \<Longrightarrow> phase_ok s r (busy_ids i s \<union> X)"
  shows "rollout_inv idf s'"
proof (rule inv_touch [OF i f])
  fix r assume r: "r \<in> set (ro_runs s)"
  show "phase_ok s r (busy_ids (un_ID r) s \<union> (X \<inter> row_ids (un_ID r) s))"
  proof (cases "un_ID r = i")
    case True
    with ok [OF r True] X show ?thesis by (simp add: Int_absorb2)
  next
    case False
    have "X \<inter> row_ids (un_ID r) s = {}" using X rows_disjoint [OF i] False by blast
    with i r show ?thesis by (simp add: rollout_inv_def)
  qed
qed

lemma counters_rows:
  "r' \<in> set (ro_runs (SetUpdateRunCounters j w t d fl sk s)) \<Longrightarrow>
   \<exists>x\<in>set (ro_runs s). un_ID r' = un_ID x \<and> un_CanaryHosts r' = un_CanaryHosts x \<and> un_WavePct r' = un_WavePct x \<and> un_Status r' = un_Status x"
  unfolding SetUpdateRunCounters_def sql_update_def by force

text \<open>The state a tick acts on: swept and recounted.\<close>

definition swept :: "rollout_env \<Rightarrow> update_run \<Rightarrow> rollout \<Rightarrow> rollout" where
  "swept E r s =
     (let hs = ListUpdateHosts (un_ID r) s; s1 = sweep E hs s;
          dn = count_status (\<lambda>st. st = ''verified'') hs; fl = count_status failedStatus hs;
          sk = count_status (\<lambda>st. st = ''skipped'') hs
      in if un_Done r \<noteq> dn \<or> un_Failed r \<noteq> fl \<or> un_Skipped r \<noteq> sk then
           SetUpdateRunCounters (un_ID r) (un_CurrentWave r) (un_TotalHosts r) dn fl sk s1 else s1)"

lemma swept_facts:
  assumes i: "rollout_inv idf s" and r: "GetUpdateRun i s = Some r"
  shows "rollout_inv idf (swept E r s)"
    and "busy_ids i (swept E r s) \<subseteq> busy_ids i s"
    and "r' \<in> set (ro_runs (swept E r s)) \<Longrightarrow> un_ID r' = i \<Longrightarrow> phase_ok t (r'\<lparr>un_Status := st\<rparr>) B = phase_ok t (r\<lparr>un_Status := st\<rparr>) B \<and> un_Status r' = un_Status r \<and> phase_ok t r' B = phase_ok t r B"
    and "phase_ok (swept E r s) q B = phase_ok s q B" "row_ids j (swept E r s) = row_ids j s" "cohort_ids q (swept E r s) = cohort_ids q s"
    and "releases (ro_srv (swept E r s)) = releases (ro_srv s)"
proof -
  let ?hs = "ListUpdateHosts i s"
  let ?X = "uh_ID ` {h \<in> set ?hs. inFlightStatus (uh_Status h)}"
  have id: "un_ID r = i" using the_run(2) [OF i r] .
  have f: "touch ?X s (sweep E ?hs s)" by (rule touch_sweep)
  have sub: "{h \<in> set ?hs. inFlightStatus (uh_Status h)} \<subseteq> {h \<in> set (ro_hosts s). busy (uh_Status h)}"
    by (auto simp: set_ListUpdateHosts busy_def)
  have i1: "rollout_inv idf (sweep E ?hs s)"
    using inv_quiet [OF i f] busy_rows_quiet [OF i sub] by blast
  then show "rollout_inv idf (swept E r s)" by (simp add: swept_def id Let_def inv_counters)
  have "busy_ids i (sweep E ?hs s) \<subseteq> busy_ids i s" using f busy_rows_quiet [OF i sub, of i] unfolding touch_def by blast
  then show "busy_ids i (swept E r s) \<subseteq> busy_ids i s" by (simp add: swept_def id Let_def)
  have k: "map row_key (ro_hosts (swept E r s)) = map row_key (ro_hosts s)"
    using f by (simp add: swept_def id Let_def touch_def SetUpdateRunCounters_def)
  show "phase_ok (swept E r s) q B = phase_ok s q B" "cohort_ids q (swept E r s) = cohort_ids q s" by (rule keys_eqD [OF k])+
  show "row_ids j (swept E r s) = row_ids j s" unfolding row_ids_keys k ..
  have "releases (ro_srv (sweep E hs s)) = releases (ro_srv s)" for hs s
    unfolding sweep_def by (induction hs arbitrary: s) (auto simp: clearPending_def on_server_def DeletePendingUpdate_def SetUpdateHostStatus_def)
  then show "releases (ro_srv (swept E r s)) = releases (ro_srv s)" by (simp add: swept_def Let_def SetUpdateRunCounters_def)
  assume r': "r' \<in> set (ro_runs (swept E r s))" "un_ID r' = i"
  have sr: "ro_runs (sweep E ?hs s) = ro_runs s" by (rule touch_runs [OF f])
  have "\<exists>x\<in>set (ro_runs s). un_ID r' = un_ID x \<and> un_CanaryHosts r' = un_CanaryHosts x \<and> un_WavePct r' = un_WavePct x \<and> un_Status r' = un_Status x"
    using r'(1) counters_rows [of r' _ _ _ _ _ _ "sweep E ?hs s", unfolded sr] unfolding swept_def id Let_def
    by (cases "r' \<in> set (ro_runs s)") (blast, auto simp: sr split: if_splits)
  with r'(2) the_run(4) [OF i r] have "un_ID r' = un_ID r \<and> un_CanaryHosts r' = un_CanaryHosts r \<and> un_WavePct r' = un_WavePct r \<and> un_Status r' = un_Status r"
    by metis
  then show "phase_ok t (r'\<lparr>un_Status := st\<rparr>) B = phase_ok t (r\<lparr>un_Status := st\<rparr>) B \<and> un_Status r' = un_Status r \<and> phase_ok t r' B = phase_ok t r B"
    using phase_ok_cong [of "r'\<lparr>un_Status := st\<rparr>" "r\<lparr>un_Status := st\<rparr>" t B] phase_ok_cong [of r' r t B] by simp
qed

lemma step_run_swept:
  assumes "rollout_inv idf s" "GetUpdateRun i s = Some r"
  shows "step_run E i s =
    (if TerminalUpdateRun (un_Status r) then (None, s)
     else if un_Status r = ''canary'' then canary_tick E r (ListUpdateHosts i s) (swept E r s)
     else if un_Status r = ''rolling'' then rolling_tick E r (ListUpdateHosts i s) (swept E r s)
     else (None, swept E r s))"
  using assms the_run(2) [OF assms] by (simp add: step_run_def swept_def Let_def)

lemma busyE: "busy st \<Longrightarrow> TerminalRunHost st \<Longrightarrow> failedStatus st"
  by (auto simp: busy_def TerminalRunHost_def inFlightStatus_def failedStatus_def)

lemma inv_canary_tick:
  assumes i: "rollout_inv idf s" and r: "GetUpdateRun i s = Some r" "un_Status r = ''canary''"
  shows "rollout_inv idf (snd (canary_tick E r (ListUpdateHosts i s) (swept E r s)))"
proof -
  let ?hs = "ListUpdateHosts i s" and ?s2 = "swept E r s"
  let ?mine = "filter (\<lambda>h. uh_HostID h \<in> set (splitIDs (un_CanaryHosts r))) ?hs"
  let ?q = "filter (\<lambda>h. uh_Status h = ''queued'') ?mine"
  note sw = swept_facts [OF i r(1), where E = E]
  have id: "un_ID r = i" by (rule the_run(2) [OF i r(1)])
  have cohort: "busy_ids i s \<subseteq> cohort_ids r s" using the_run(3) [OF i r(1)] r(2) by (simp add: phase_ok_def)
  have d: "rollout_inv idf (dispatch_all E r rel ?q ?s2)" for rel
  proof (rule inv_dispatch [OF sw(1) touch_dispatch_all])
    show "uh_ID ` set ?q \<subseteq> row_ids i ?s2" unfolding sw(5) by (auto simp: row_ids_def set_ListUpdateHosts)
    fix r' assume r': "r' \<in> set (ro_runs ?s2)" "un_ID r' = i"
    have "phase_ok ?s2 r (busy_ids i ?s2 \<union> uh_ID ` set ?q)"
      using cohort sw(2) r(2) unfolding sw(4) by (auto simp: phase_ok_def cohort_ids_def set_ListUpdateHosts id)
    with sw(3) [OF r']
    show "phase_ok ?s2 r' (busy_ids i ?s2 \<union> uh_ID ` set ?q)" by simp
  qed
  have quiet: "rollout_inv idf (SetUpdateRunStatus i ''rolling'' e (SetUpdateRunCounters i w t dn fl sk ?s2)) \<and>
      dispatch_all E r rel ?q ?s2 = ?s2"
    if "list_all (\<lambda>h. TerminalRunHost (uh_Status h)) ?mine" "\<not> list_ex (\<lambda>h. failedStatus (uh_Status h)) ?mine" for rel e w t dn fl sk
  proof -
    have "busy_ids i s = {}"
    proof (rule ccontr)
      assume "busy_ids i s \<noteq> {}"
      then obtain h where h: "h \<in> set ?hs" "busy (uh_Status h)" by (auto simp: busy_ids_def set_ListUpdateHosts)
      from canary_failed_found(1) [OF i r h] h(1) have "h \<in> set ?mine" by simp
      with that(1,2) h(2) show False unfolding list_all_iff list_ex_iff by (auto dest: busyE)
    qed
    moreover have "?q = []" using that(1) by (auto simp: filter_empty_conv list_all_iff TerminalRunHost_def)
    ultimately have "dispatch_all E r rel ?q ?s2 = ?s2" "busy_ids i ?s2 = {}" using sw(2) by (simp_all add: dispatch_all_def)
    with sw(1) show ?thesis by (simp add: inv_enter inv_counters)
  qed
  have failed: "rollout_inv idf t \<Longrightarrow> rollout_inv idf (SetUpdateRunStatus i ''failed'' e t)" for t e
    by (erule inv_free_status) simp
  show ?thesis
    using sw(1) d quiet
    by (auto simp: canary_tick_def Let_def id failed split: option.splits)
qed

lemma inv_rolling_tick:
  assumes i: "rollout_inv idf s" and r: "GetUpdateRun i s = Some r" "un_Status r = ''rolling''"
  shows "rollout_inv idf (snd (rolling_tick E r (ListUpdateHosts i s) (swept E r s)))"
proof -
  let ?hs = "ListUpdateHosts i s" and ?s2 = "swept E r s"
  let ?q = "take (waveSize (length ?hs) (un_WavePct r)) (filter (\<lambda>h. uh_Status h = ''queued'') ?hs)"
  note sw = swept_facts [OF i r(1), where E = E]
  have id: "un_ID r = i" by (rule the_run(2) [OF i r(1)])
  have len: "length ?hs = row_count i s" by (simp add: ListUpdateHosts_def row_count_def)
  have paused: "rollout_inv idf (SetUpdateRunStatus i ''paused_failure'' e ?s2)" for e
  proof (rule inv_status [OF sw(1)])
    fix r' assume r': "r' \<in> set (ro_runs ?s2)" "un_ID r' = i"
    have "phase_ok ?s2 r' (busy_ids i ?s2)" using sw(1) r' by (auto simp: rollout_inv_def)
    with sw(3) [OF r'] r(2) show "phase_ok ?s2 (r'\<lparr>un_Status := ''paused_failure''\<rparr>) (busy_ids i ?s2)"
      by (auto simp: phase_ok_def)
  qed
  have d: "rollout_inv idf (dispatch_all E r rel ?q (SetUpdateRunCounters i w t dn fl sk ?s2))"
    if "\<not> list_ex (\<lambda>h. inFlightStatus (uh_Status h)) ?hs" "\<not> list_ex (\<lambda>h. failedStatus (uh_Status h)) ?hs" for rel w t dn fl sk
  proof (rule inv_dispatch [OF inv_counters [OF sw(1)] touch_dispatch_all])
    let ?s3 = "SetUpdateRunCounters i w t dn fl sk ?s2"
    have s3: "row_ids i ?s3 = row_ids i ?s2" "phase_ok ?s3 x B = phase_ok ?s2 x B" for x B
      by (simp add: row_ids_def SetUpdateRunCounters_def) (rule keys_eqD(3), simp add: SetUpdateRunCounters_def)
    have q: "set ?q \<subseteq> set ?hs" by (meson filter_is_subset set_take_subset subset_trans)
    then show "uh_ID ` set ?q \<subseteq> row_ids i ?s3" unfolding s3 sw(5) by (auto simp: row_ids_def set_ListUpdateHosts)
    fix r' assume r': "r' \<in> set (ro_runs ?s3)" "un_ID r' = i"
    have "busy_ids i s = {}" using that by (auto simp: busy_ids_def busy_def list_ex_iff set_ListUpdateHosts)
    then have b: "busy_ids i ?s3 = {}" using sw(2) by auto
    have "card (uh_ID ` set ?q) \<le> length ?q" by (meson card_image_le card_length finite_set le_trans)
    also have "\<dots> \<le> waveSize (row_count i s) (un_WavePct r)" by (simp add: len)
    finally have "phase_ok s r (uh_ID ` set ?q)" by (simp add: phase_ok_def id r(2))
    moreover obtain r2 where r2: "r2 \<in> set (ro_runs ?s2)" "un_ID r2 = i" "un_ID r' = un_ID r2" "un_CanaryHosts r' = un_CanaryHosts r2"
        "un_WavePct r' = un_WavePct r2" "un_Status r' = un_Status r2"
      using counters_rows [OF r'(1)] r'(2) by metis
    ultimately show "phase_ok ?s3 r' (busy_ids i ?s3 \<union> uh_ID ` set ?q)"
      using sw(3) [OF r2(1,2)] phase_ok_cong [OF r2(3-6)]
      by (simp only: b s3 sw(4) Un_empty_left)
  qed
  show ?thesis
    using sw(1) d paused unfolding rolling_tick_def Let_def id
    by (auto split: option.splits intro!: inv_free_status)
qed

lemma inv_loop_turn:
  assumes i: "rollout_inv idf s"
  shows "rollout_inv idf (loop_turn E i s)"
proof -
  have "rollout_inv idf (snd (step_run E i s))"
  proof (cases "GetUpdateRun i s")
    case None
    with i show ?thesis by (simp add: step_run_def)
  next
    case (Some r)
    then show ?thesis
      using i inv_canary_tick [OF i Some] inv_rolling_tick [OF i Some] swept_facts(1) [OF i Some]
      by (simp add: step_run_swept [OF i Some])
  qed
  with i show ?thesis
    by (auto simp: loop_turn_def split: prod.splits option.splits intro!: inv_loops inv_free_status)
qed

section \<open>The rollout as a transition system\<close>

text \<open>
  The states the manager and its callers can reach: runs created, started, approved, retried, skipped
  and aborted, ticks of their loops, results of hosts that have a directive in hand, reconnecting
  agents, and anything that happens to the server's other tables (\<open>rol_server\<close>: hosts, rules, releases,
  queues).  \<open>idf\<close> makes the ids.
\<close>

inductive roll_reach :: "(string \<Rightarrow> nat \<Rightarrow> string) \<Rightarrow> rollout \<Rightarrow> bool" for idf where
  rol_empty: "ro_runs s = [] \<Longrightarrow> ro_hosts s = [] \<Longrightarrow> roll_reach idf s"
| rol_create: "roll_reach idf s \<Longrightarrow> re_id E = idf \<Longrightarrow> hosts_inv (hosts (ro_srv s)) \<Longrightarrow> roll_reach idf (snd (StartRun E p s))"
| rol_draft: "roll_reach idf s \<Longrightarrow> re_id E = idf \<Longrightarrow> hosts_inv (hosts (ro_srv s)) \<Longrightarrow> roll_reach idf (snd (MaybeDraft E rel actor s))"
| rol_start: "roll_reach idf s \<Longrightarrow> roll_reach idf (snd (Start_draft E i s))"
| rol_approve: "roll_reach idf s \<Longrightarrow> roll_reach idf (snd (DispatchApprovedRun q s))"
| rol_tick: "roll_reach idf s \<Longrightarrow> roll_reach idf (loop_turn E i s)"
| rol_result: "roll_reach idf s \<Longrightarrow> ActiveUpdateHostFor a s = Some row \<Longrightarrow> inFlightStatus (uh_Status row)
    \<Longrightarrow> roll_reach idf (OnResult E a ph s)"
| rol_retry: "roll_reach idf s \<Longrightarrow> roll_reach idf (snd (Retry E i s))"
| rol_skip: "roll_reach idf s \<Longrightarrow> roll_reach idf (snd (Skip E i s))"
| rol_abort: "roll_reach idf s \<Longrightarrow> roll_reach idf (snd (Abort E i actor s))"
| rol_server: "roll_reach idf s \<Longrightarrow> roll_reach idf (on_server f s)"
| rol_resume: "roll_reach idf s \<Longrightarrow> roll_reach idf (ResumeAll (s\<lparr>ro_loops := []\<rparr>))"

lemma ResumeAll_same: "ro_hosts (ResumeAll s) = ro_hosts s \<and> ro_runs (ResumeAll s) = ro_runs s \<and> ro_next (ResumeAll s) = ro_next s"
proof -
  have "ro_hosts (fold ensureLoop is s) = ro_hosts s \<and> ro_runs (fold ensureLoop is s) = ro_runs s \<and> ro_next (fold ensureLoop is s) = ro_next s" for "is"
    by (induction "is" arbitrary: s) (auto simp: ensureLoop_def)
  then show ?thesis by (simp add: ResumeAll_def)
qed

lemma roll_reach_inv:
  assumes "roll_reach idf s" "inj (idf ''run'')" "inj (idf ''uh'')"
  shows "rollout_inv idf s"
  using assms(1)
proof induction
  case (rol_empty s)
  then show ?case by (simp add: rollout_inv_def)
next
  case (rol_create s E p)
  with assms(2,3) show ?case by (intro inv_StartRun)
next
  case (rol_draft s E rel actor)
  have "rollout_inv idf (snd (StartRun E p s))" for p using rol_draft assms(2,3) by (intro inv_StartRun)
  moreover have "snd (MaybeDraft E rel actor s) \<in> insert s (range (\<lambda>p. snd (StartRun E p s)))"
    by (simp add: MaybeDraft_def case_prod_beta split: sum.split)
  ultimately show ?case using rol_draft.IH by auto
next
  case (rol_result s a row E ph)
  then show ?case by (intro inv_OnResult)
next
  case (rol_server s f)
  then show ?case using inv_quiet0 [OF _ touch_server] by blast
next
  case (rol_resume s)
  then show ?case using ResumeAll_same [of "s\<lparr>ro_loops := []\<rparr>"] by (intro inv_same [OF rol_resume.IH]) auto
qed (simp_all add: inv_Start_draft inv_DispatchApprovedRun inv_loop_turn inv_Retry inv_Skip inv_Abort)



section \<open>What the gate does not cover\<close>

lemma newest_row:
  assumes "\<And>h. h \<in> set hs \<Longrightarrow> h \<noteq> b \<Longrightarrow> uh_UpdatedAt h < uh_UpdatedAt b"
  shows "b \<in> set hs \<or> acc = Some b \<Longrightarrow> (\<And>h. acc = Some h \<Longrightarrow> h \<noteq> b \<Longrightarrow> uh_UpdatedAt h < uh_UpdatedAt b)
    \<Longrightarrow> fold newer hs acc = Some b"
  using assms
proof (induction hs arbitrary: acc)
  case Nil
  then show ?case by simp
next
  case (Cons x xs)
  have n: "newer x acc = Some b \<or> (b \<in> set xs \<and> (\<forall>h. newer x acc = Some h \<longrightarrow> h \<noteq> b \<longrightarrow> uh_UpdatedAt h < uh_UpdatedAt b))"
  proof (cases acc)
    case None
    then show ?thesis using Cons.prems by (cases "x = b") (auto simp: newer_def)
  next
    case (Some h)
    then show ?thesis using Cons.prems(2) [of h] Cons.prems(1) Cons.prems(3) [of x]
      by (cases "h = b"; cases "x = b") (auto simp: newer_def)
  qed
  show ?case
    using n by (simp, intro Cons.IH) (use Cons.prems(3) in auto)
qed

text \<open>
  A result is credited to the newest unfinished row of the agent, whatever run it belongs to.
  While a run is updating a host, a later row of the same host (such as the queued row of the draft
  that an uploaded release creates) takes the host's result: the draft's row becomes verified although
  nothing of that draft was ever sent, and the row that was updated stays in flight.
\<close>
theorem result_credits_newest_row:
  assumes "distinct (map uh_ID (ro_hosts s))"
    and "a \<in> set (ro_hosts s)" "uh_HostID a = agent" "uh_Status a = ''restarting''" "uh_ID a \<noteq> uh_ID b"
    and "b \<in> set (ro_hosts s)" "uh_HostID b = agent" "uh_Status b = ''queued''"
    and "\<And>h. h \<in> set (ro_hosts s) \<Longrightarrow> uh_HostID h = agent \<Longrightarrow> \<not> TerminalRunHost (uh_Status h) \<Longrightarrow> h \<noteq> b \<Longrightarrow> uh_UpdatedAt h < uh_UpdatedAt b"
    and "ur_Phase res = ''verified''"
  shows "a \<in> set (ro_hosts (OnResult E agent res s)) \<and>
    b\<lparr>uh_Status := ''verified'', uh_Version := ur_Version res, uh_Error := [], uh_UpdatedAt := re_now E\<rparr> \<in> set (ro_hosts (OnResult E agent res s))"
proof -
  have "ActiveUpdateHostFor agent s = Some b"
    unfolding ActiveUpdateHostFor_def by (rule newest_row) (use assms(6-9) in \<open>auto simp: TerminalRunHost_def\<close>)
  then have "ro_hosts (OnResult E agent res s) =
      sql_update (\<lambda>h. uh_ID h = uh_ID b) (\<lambda>h. h\<lparr>uh_Status := ''verified'', uh_Version := ur_Version res, uh_Error := [], uh_UpdatedAt := re_now E\<rparr>) (ro_hosts s)"
    using assms(10) by (simp add: OnResult_def clearPending_def on_server_def SetUpdateHostStatus_def)
  then show ?thesis using assms(2,5,6) by (force simp: set_sql_update)
qed

text \<open>
  A draft that has to be approved loses its canary phase. Starting the draft parks it on a request
  whose payload has no parameters; when that request is approved the run goes straight to its waves,
  although a canary cohort is recorded on it.
\<close>
theorem approved_draft_skips_canary:
  assumes "GetUpdateRun i s = Some r" "un_Status r = ''draft''" "i \<noteq> []" "re_approvals E"
    and "h \<in> set (ListUpdateHosts i s)" "uh_Status h = ''queued''" "update_effect E s ''admin'' (uh_HostID h) = EffectRequireApproval"
  shows "\<exists>q s1 s2 r2. Start_draft E i s = (None, s1) \<and> q \<in> set (ro_requests s1) \<and> uq_RunID q = i \<and>
    DispatchApprovedRun q s1 = (None, s2) \<and> GetUpdateRun i s2 = Some r2 \<and>
    un_CanaryHosts r2 = un_CanaryHosts r \<and> un_CanaryCount r2 = un_CanaryCount r \<and> un_Status r2 = ''rolling''"
proof -
  let ?hs = "filter (\<lambda>h. uh_Status h = ''queued'') (ListUpdateHosts i s)"
  obtain s2 where s2: "s2 = exclude_denied E r ?hs s" by simp
  have g: "\<exists>r1. GetUpdateRun i s2 = Some r1 \<and> un_ID r1 = i \<and> un_CanaryHosts r1 = un_CanaryHosts r \<and> un_CanaryCount r1 = un_CanaryCount r"
    using assms(1) GetUpdateRun_runs [OF touch_runs [OF touch_skip_rows], of i E "''policy''" _ s]
    by (auto simp: s2 exclude_denied_def Let_def SetUpdateRunCounters_def GetUpdateRun_def sql_get_update dest: sql_get_SomeD)
  have "list_ex (\<lambda>h. update_effect E s ''admin'' (uh_HostID h) = EffectRequireApproval) ?hs"
    using assms(5-7) by (auto simp: list_ex_iff)
  then have st: "Start_draft E i s = (case new_request E i None s2 of
      (q, s3) \<Rightarrow> (None, SetUpdateRunStatus i ''pending'' [] (SetUpdateRunApproval i q s3)))"
    using assms(1,2,4) by (simp add: Start_draft_def Let_def s2)
  let ?q = "\<lparr>uq_ID = re_id E ''apr'' (ro_next s2), uq_RunID = i, uq_Params = None\<rparr>"
  obtain s3 where s3: "Start_draft E i s = (None, s3)" "?q \<in> set (ro_requests s3)"
      "\<exists>r1. GetUpdateRun i s3 = Some r1 \<and> un_CanaryHosts r1 = un_CanaryHosts r \<and> un_CanaryCount r1 = un_CanaryCount r \<and> un_Status r1 = ''pending'' \<and> un_ID r1 = i"
    using g st by (auto simp: new_request_def Let_def SetUpdateRunStatus_def SetUpdateRunApproval_def GetUpdateRun_def sql_get_update dest: sql_get_SomeD)
  then have "\<exists>s4 r2. DispatchApprovedRun ?q s3 = (None, s4) \<and> GetUpdateRun i s4 = Some r2 \<and>
      un_CanaryHosts r2 = un_CanaryHosts r \<and> un_CanaryCount r2 = un_CanaryCount r \<and> un_Status r2 = ''rolling''"
    using assms(3) by (auto simp: DispatchApprovedRun_def Let_def ensureLoop_def SetUpdateRunStatus_def GetUpdateRun_def sql_get_update)
  with s3 show ?thesis by fastforce
qed

lemma skip_rows_server:
  "offlineQueue (ro_srv (skip_rows E why hs s)) = offlineQueue (ro_srv s) \<and> net (ro_srv (skip_rows E why hs s)) = net (ro_srv s)
   \<and> sends (ro_srv (skip_rows E why hs s)) = sends (ro_srv s)"
  unfolding skip_rows_def
  by (induction hs arbitrary: s) (auto simp: clearPending_def on_server_def DeletePendingUpdate_def SetUpdateHostStatus_def)

text \<open>
  Aborting a run does not stop the directives it has queued. A directive dispatched to an offline
  host waits in the queue of the stream handler; aborting the run removes the pending row and marks
  the host skipped, but when the host reconnects within the queue's window the drain still sends it
  the directive, and the host updates.
\<close>
theorem aborted_update_still_delivered:
  assumes "sessions (ro_srv s) (uh_HostID h) = None" "offlineQueue (ro_srv s) (uh_HostID h) = []" "offlineCap (ro_srv s) > 0"
    and "dispatchHost E r h rel s = (True, s1)" "Abort E2 (un_ID r) actor s1 = (None, s2)"
    and "t \<le> re_time E + offlineTTL (ro_srv s)" "net (ro_srv s2) (sends (ro_srv s2))"
  shows "\<exists>g. (sid, EUpdateDirective (agent_directive rel g)) \<in> set (sent (drainOffline hk t tok (uh_HostID h) sid (ro_srv s2)))"
proof -
  let ?a = "uh_HostID h"
  obtain g sv where g: "IssueUpdateGrant (re_time E) g ?a (rl_ID rel) (ro_srv s) = Some sv"
      "ro_srv s1 = QueueUpdateDirective (re_hooks E) (re_time E) ?a (agent_directive rel g) sv"
    using assms(4)
    by (auto simp: dispatchHost_def new_grant_def on_server_def SetUpdateHostStatus_def Let_def split: option.splits prod.splits)
  have q1: "offlineQueue (ro_srv s1) ?a = [\<lparr>q_env = EUpdateDirective (agent_directive rel g), q_expiresAt = re_time E + offlineTTL (ro_srv s)\<rparr>]"
    using g assms(1-3)
    by (auto simp: IssueUpdateGrant_def QueueUpdateDirective_def SendUpdateDirective_def UpsertPendingUpdate_def queueOffline_def Let_def
        split: if_splits)
  have "offlineQueue (ro_srv s2) = offlineQueue (ro_srv s1)"
    using assms(5) skip_rows_server
    by (auto simp: Abort_def Let_def stopLoop_def SetUpdateRunStatus_def split: option.splits if_splits)
  moreover have "(sid, e) \<in> set (sent st) \<Longrightarrow> (sid, e) \<in> set (sent (snd (deliverPendingUpdate t tok ?a sid st)))" for e st
    using deliverPendingUpdate_sent [of t tok ?a sid st] by auto
  ultimately show ?thesis using q1 assms(6,7)
    by (intro exI [of _ g])
      (auto simp: drainOffline_def Let_def sess_send_def DeletePendingUpdate_def split: option.splits)
qed

section \<open>A rollout comes to an end\<close>

text \<open>Rows with an id in \<open>X\<close> get a status; a round is a tick, then every host in flight reports itself verified.\<close>

definition marked :: "rollout_env \<Rightarrow> string set \<Rightarrow> string \<Rightarrow> string \<Rightarrow> update_host list \<Rightarrow> update_host list" where
  "marked E X st v hs = map (\<lambda>h. if uh_ID h \<in> X then h\<lparr>uh_Status := st, uh_Version := v, uh_Error := [], uh_UpdatedAt := re_now E\<rparr> else h) hs"

definition verified_result :: "string \<Rightarrow> pbUpdateResult" where
  "verified_result v = \<lparr>ur_ReleaseId = [], ur_Phase = ''verified'', ur_Error = [], ur_Version = v\<rparr>"

definition report_all :: "rollout_env \<Rightarrow> string \<Rightarrow> update_host list \<Rightarrow> rollout \<Rightarrow> rollout" where
  "report_all E v hs s = fold (\<lambda>h s. OnResult E (uh_HostID h) (verified_result v) s) hs s"

definition rollout_round :: "rollout_env \<Rightarrow> string \<Rightarrow> string \<Rightarrow> rollout \<Rightarrow> rollout" where
  "rollout_round E v i s =
     (let s1 = loop_turn E i s
      in report_all E v (filter (\<lambda>h. inFlightStatus (uh_Status h)) (ListUpdateHosts i s1)) s1)"

lemma marked_facts [simp]:
  "map uh_ID (marked E X st v hs) = map uh_ID hs" "map uh_HostID (marked E X st v hs) = map uh_HostID hs"
  "marked E {} st v hs = hs" "length (marked E X st v hs) = length hs"
  by (auto simp: marked_def)

lemma marked_union: "marked E X st v (marked E Y st v hs) = marked E (X \<union> Y) st v hs"
  by (auto simp: marked_def)

definition same_but_hosts :: "rollout \<Rightarrow> rollout \<Rightarrow> bool" where
  "same_but_hosts s s' \<longleftrightarrow> ro_runs s' = ro_runs s \<and> releases (ro_srv s') = releases (ro_srv s) \<and> ro_loops s' = ro_loops s"

text \<open>Evicting a queued envelope runs a hook of the execution engine; it leaves the releases alone.\<close>

definition keeps_releases :: "hooks \<Rightarrow> bool" where
  "keeps_releases hk \<longleftrightarrow> (case ResultHook hk of None \<Rightarrow> True | Some f \<Rightarrow> \<forall>e st. releases (f e st) = releases st)"

lemma queue_releases:
  assumes "keeps_releases hk"
  shows "releases (QueueUpdateDirective hk t a d st) = releases st"
proof -
  have x: "releases (expireQueued hk t qe st) = releases st" for qe st
    using assms by (auto simp: expireQueued_def keeps_releases_def UpdateRunState_def Let_def split: Envelope.split option.split)
  show ?thesis
    by (auto simp: QueueUpdateDirective_def SendUpdateDirective_def sess_send_def UpsertPendingUpdate_def queueOffline_def Let_def x
        split: option.split)
qed

lemma dispatch_all_marks:
  assumes "\<And>n. re_token E n \<noteq> None" "\<And>h. h \<in> set hs \<Longrightarrow> uh_HostID h \<noteq> []" "rl_ID rel \<noteq> []" "keeps_releases (re_hooks E)"
  shows "ro_hosts (dispatch_all E r rel hs s) = marked E (uh_ID ` set hs) ''dispatching'' [] (ro_hosts s)
    \<and> same_but_hosts s (dispatch_all E r rel hs s)"
  using assms(2)
proof (induction hs arbitrary: s)
  case Nil
  show ?case by (simp add: dispatch_all_def same_but_hosts_def)
next
  case (Cons h hs)
  obtain tok where "re_token E (ro_next s) = Some tok" using assms(1) by blast
  then have "ro_hosts (dispatch_or_fail E r rel h s) = marked E {uh_ID h} ''dispatching'' [] (ro_hosts s)
     \<and> same_but_hosts s (dispatch_or_fail E r rel h s)"
    using Cons.prems [of h] assms(3)
    using queue_releases [OF assms(4)]
    by (auto simp: dispatch_or_fail_def dispatchHost_def new_grant_def IssueUpdateGrant_def on_server_def
        SetUpdateHostStatus_def Let_def marked_def sql_update_def same_but_hosts_def)
  with Cons.IH [of "dispatch_or_fail E r rel h s"] Cons.prems show ?case
    by (simp add: dispatch_all_def marked_union same_but_hosts_def insert_commute)
qed

lemma report_one:
  assumes "distinct (map uh_HostID (ro_hosts s))" "h \<in> set (ro_hosts s)" "inFlightStatus (uh_Status h)"
  shows "ro_hosts (OnResult E (uh_HostID h) (verified_result v) s) = marked E {uh_ID h} ''verified'' v (ro_hosts s)
    \<and> same_but_hosts s (OnResult E (uh_HostID h) (verified_result v) s)"
proof -
  have t: "\<not> TerminalRunHost (uh_Status h)" using assms(3) by (auto simp: inFlightStatus_def TerminalRunHost_def)
  have "ActiveUpdateHostFor (uh_HostID h) s = Some h"
    unfolding ActiveUpdateHostFor_def
    by (rule newest_row) (use assms t in \<open>auto simp: distinct_map dest: inj_onD\<close>)
  then show ?thesis
    by (auto simp: OnResult_def clearPending_def on_server_def DeletePendingUpdate_def verified_result_def SetUpdateHostStatus_def marked_def sql_update_def same_but_hosts_def)
qed

lemma report_all_marks:
  assumes "distinct (map uh_ID (ro_hosts s))" "distinct (map uh_HostID (ro_hosts s))" "distinct (map uh_ID hs)"
    and "\<And>h. h \<in> set hs \<Longrightarrow> h \<in> set (ro_hosts s) \<and> inFlightStatus (uh_Status h)"
  shows "ro_hosts (report_all E v hs s) = marked E (uh_ID ` set hs) ''verified'' v (ro_hosts s) \<and> same_but_hosts s (report_all E v hs s)"
  using assms
proof (induction hs arbitrary: s)
  case Nil
  show ?case by (simp add: report_all_def same_but_hosts_def)
next
  case (Cons h hs)
  let ?t = "OnResult E (uh_HostID h) (verified_result v) s"
  have t: "ro_hosts ?t = marked E {uh_ID h} ''verified'' v (ro_hosts s)" "same_but_hosts s ?t"
    using report_one [of s h] Cons.prems(2) Cons.prems(4) [of h] by auto
  have "ro_hosts (report_all E v hs ?t) = marked E (uh_ID ` set hs) ''verified'' v (ro_hosts ?t) \<and> same_but_hosts ?t (report_all E v hs ?t)"
  proof (rule Cons.IH)
    fix g assume g: "g \<in> set hs"
    then have "uh_ID g \<noteq> uh_ID h" using Cons.prems(3) by (auto simp: image_iff)
    then have "g \<in> set (marked E {uh_ID h} ''verified'' v (ro_hosts s))"
      using Cons.prems(4) [of g] g by (force simp: marked_def)
    then show "g \<in> set (ro_hosts ?t) \<and> inFlightStatus (uh_Status g)" using Cons.prems(4) [of g] g t by simp
  qed (use Cons.prems t in simp_all)
  with t show ?case by (simp add: report_all_def marked_union same_but_hosts_def insert_commute)
qed

text \<open>A fleet with one rolling run whose hosts are at rest, \<open>q\<close> of them still queued.\<close>

definition fleet_rolling :: "string \<Rightarrow> nat \<Rightarrow> rollout \<Rightarrow> bool" where
  "fleet_rolling i q s \<longleftrightarrow>
     list_all (\<lambda>r. un_ID r = i \<and> un_Status r = ''rolling'' \<and> un_ReleaseID r \<noteq> [] \<and> FindRelease (un_ReleaseID r) s \<noteq> None) (ro_runs s) \<and>
     length (ro_runs s) = 1 \<and> i \<in> set (ro_loops s) \<and>
     distinct (map uh_ID (ro_hosts s)) \<and> distinct (map uh_HostID (ro_hosts s)) \<and>
     list_all (\<lambda>h. uh_RunID h = i \<and> uh_HostID h \<noteq> [] \<and> uh_Status h \<in> {''queued'', ''verified'', ''skipped''}) (ro_hosts s) \<and>
     length (filter (\<lambda>h. uh_Status h = ''queued'') (ro_hosts s)) = q"

definition fleet_done :: "string \<Rightarrow> rollout \<Rightarrow> bool" where
  "fleet_done i s \<longleftrightarrow> (\<exists>r. GetUpdateRun i s = Some r \<and> un_Status r = ''completed'') \<and>
     list_all (\<lambda>h. uh_Status h \<in> {''verified'', ''skipped''}) (ro_hosts s)"

lemma resting_not_in_flight:
  "list_all (\<lambda>h. uh_RunID h = i \<and> uh_HostID h \<noteq> [] \<and> uh_Status h \<in> {''queued'', ''verified'', ''skipped''}) hs
   \<Longrightarrow> h \<in> set hs \<Longrightarrow> \<not> inFlightStatus (uh_Status h) \<and> \<not> failedStatus (uh_Status h)"
  by (auto simp: list_all_iff inFlightStatus_def failedStatus_def)

lemma sweep_at_rest: "\<forall>h\<in>set hs. \<not> inFlightStatus (uh_Status h) \<Longrightarrow> sweep E hs s = s"
  by (induction hs) (auto simp: sweep_def)

text \<open>The counters a tick writes do not matter for its next step.\<close>

lemma recounted:
  assumes "ro_runs s = [r]" "un_ID r = i"
  shows "\<exists>r'. ro_runs (SetUpdateRunCounters i w t dn fl sk s) = [r'] \<and> un_ID r' = i \<and> un_Status r' = un_Status r \<and> un_ReleaseID r' = un_ReleaseID r"
    "ro_hosts (SetUpdateRunCounters i w t dn fl sk s) = ro_hosts s" "releases (ro_srv (SetUpdateRunCounters i w t dn fl sk s)) = releases (ro_srv s)"
    "ro_loops (SetUpdateRunCounters i w t dn fl sk s) = ro_loops s"
  using assms by (simp_all add: SetUpdateRunCounters_def sql_update_def)

lemma set_take_filter_sub: "h \<in> set (take n (filter p xs)) \<Longrightarrow> h \<in> set xs \<and> p h"
  by (drule in_set_takeD) simp

lemma rolling_turn:
  assumes f: "fleet_rolling i q s" and tok: "\<And>n. re_token E n \<noteq> None" and hk: "keeps_releases (re_hooks E)"
  obtains (finish) r where "q = 0" "ro_hosts (loop_turn E i s) = ro_hosts s" "ro_runs (loop_turn E i s) = [r]" "un_ID r = i" "un_Status r = ''completed''"
  | (wave) r D where "D \<noteq> []" "set D \<subseteq> {h \<in> set (ro_hosts s). uh_Status h = ''queued''}"
      "ro_hosts (loop_turn E i s) = marked E (uh_ID ` set D) ''dispatching'' [] (ro_hosts s)"
      "ro_runs (loop_turn E i s) = [r]" "un_ID r = i" "un_Status r = ''rolling''" "un_ReleaseID r \<noteq> []"
      "FindRelease (un_ReleaseID r) (loop_turn E i s) \<noteq> None" "i \<in> set (ro_loops (loop_turn E i s))"
proof -
  obtain r where r: "ro_runs s = [r]" "un_ID r = i" "un_Status r = ''rolling''" "un_ReleaseID r \<noteq> []" "FindRelease (un_ReleaseID r) s \<noteq> None"
    using f by (cases "ro_runs s") (auto simp: fleet_rolling_def)
  obtain rel where rel: "FindRelease (un_ReleaseID r) s = Some rel" "rl_ID rel \<noteq> []"
    using r(4,5) sql_get_SomeD [of rl_ID "un_ReleaseID r" "releases (ro_srv s)"] by (auto simp: FindRelease_def GetRelease_def)
  have lp: "i \<in> set (ro_loops s)" and rest: "list_all (\<lambda>h. uh_RunID h = i \<and> uh_HostID h \<noteq> [] \<and> uh_Status h \<in> {''queued'', ''verified'', ''skipped''}) (ro_hosts s)"
    and q: "length (filter (\<lambda>h. uh_Status h = ''queued'') (ro_hosts s)) = q" using f by (simp_all add: fleet_rolling_def)
  let ?hs = "ListUpdateHosts i s"
  have hs: "set ?hs = set (ro_hosts s)" using rest by (auto simp: set_ListUpdateHosts list_all_iff)
  have idle: "\<forall>h\<in>set ?hs. \<not> inFlightStatus (uh_Status h) \<and> \<not> failedStatus (uh_Status h)"
    using resting_not_in_flight [OF rest] hs by blast
  obtain s2 where s2: "s2 = swept E r s" by simp
  have sw: "sweep E ?hs s = s" using idle by (simp add: sweep_at_rest)
  have s2h: "ro_hosts s2 = ro_hosts s" "releases (ro_srv s2) = releases (ro_srv s)" "ro_loops s2 = ro_loops s"
    and s2r: "\<exists>r2. ro_runs s2 = [r2] \<and> un_ID r2 = i \<and> un_Status r2 = ''rolling'' \<and> un_ReleaseID r2 = un_ReleaseID r"
    using recounted [OF r(1,2)] r by (simp_all add: s2 swept_def Let_def sw)
  have step: "step_run E i s = rolling_tick E r ?hs s2"
    using r by (simp add: step_run_def GetUpdateRun_def sql_get_def TerminalUpdateRun_def s2 swept_def Let_def)
  have ex: "\<not> list_ex (\<lambda>h. inFlightStatus (uh_Status h)) ?hs" "\<not> list_ex (\<lambda>h. failedStatus (uh_Status h)) ?hs"
    using idle by (auto simp: list_ex_iff)
  let ?Q = "filter (\<lambda>h. uh_Status h = ''queued'') ?hs"
  show thesis
  proof (cases "?Q = []")
    case True
    then have "filter (\<lambda>h. uh_Status h = ''queued'') (ro_hosts s) = []" using hs by (auto simp: filter_empty_conv)
    moreover have "loop_turn E i s = SetUpdateRunStatus i ''completed'' [] s2"
      using step ex True lp r(2) by (simp add: loop_turn_def rolling_tick_def)
    ultimately show thesis using finish q s2h s2r by (auto simp: SetUpdateRunStatus_def sql_update_def)
  next
    case False
    let ?D = "take (waveSize (length ?hs) (un_WavePct r)) ?Q"
    obtain w t dn fl sk where turn: "loop_turn E i s = dispatch_all E r rel ?D (SetUpdateRunCounters i w t dn fl sk s2)"
      using step ex False lp r(2) rel s2h(2) by (simp add: loop_turn_def rolling_tick_def Let_def FindRelease_def GetRelease_def)
    obtain r2 where r2: "ro_runs s2 = [r2]" "un_ID r2 = i" "un_Status r2 = ''rolling''" "un_ReleaseID r2 = un_ReleaseID r" using s2r by blast
    note rc = recounted [OF r2(1,2), of w t dn fl sk]
    have D: "set ?D \<subseteq> {h \<in> set (ro_hosts s). uh_Status h = ''queued''}" using hs by (auto dest!: set_take_filter_sub)
    have names: "uh_HostID h \<noteq> []" if "h \<in> set ?D" for h using D that rest by (auto simp: list_all_iff)
    note m = dispatch_all_marks [OF tok names rel(2) hk, of ?D r "SetUpdateRunCounters i w t dn fl sk s2"]
    have "waveSize (length ?hs) (un_WavePct r) \<ge> 1" by (auto simp: waveSize_def Let_def Suc_le_eq)
    then have "?D \<noteq> []" using False by (simp add: Suc_le_eq)
    with wave [OF _ D] m rc r2 r turn s2h lp show thesis by (auto simp: same_but_hosts_def FindRelease_def GetRelease_def)
  qed
qed

lemma round_progress:
  assumes f: "fleet_rolling i q s" and tok: "\<And>n. re_token E n \<noteq> None" and hk: "keeps_releases (re_hooks E)"
  shows "(q = 0 \<and> fleet_done i (rollout_round E v i s)) \<or> (\<exists>q'<q. fleet_rolling i q' (rollout_round E v i s))"
proof (cases rule: rolling_turn [OF f tok hk, case_names finish wave])
  case (finish r)
  let ?s1 = "loop_turn E i s"
  have rest: "list_all (\<lambda>h. uh_RunID h = i \<and> uh_HostID h \<noteq> [] \<and> uh_Status h \<in> {''queued'', ''verified'', ''skipped''}) (ro_hosts s)"
    using f by (simp add: fleet_rolling_def)
  then have "filter (\<lambda>h. inFlightStatus (uh_Status h)) (ListUpdateHosts i ?s1) = []"
    using resting_not_in_flight [OF rest] finish(2) by (auto simp: filter_empty_conv set_ListUpdateHosts)
  then have "rollout_round E v i s = ?s1" by (simp add: rollout_round_def Let_def report_all_def)
  moreover have "fleet_done i ?s1"
    using finish rest f by (auto simp: fleet_done_def GetUpdateRun_def sql_get_def fleet_rolling_def list_all_iff filter_empty_conv)
  ultimately show ?thesis using finish(1) by simp
next
  case (wave r D)
  let ?s1 = "loop_turn E i s" and ?F = "filter (\<lambda>h. inFlightStatus (uh_Status h)) (ListUpdateHosts i (loop_turn E i s))"
  have rest: "list_all (\<lambda>h. uh_RunID h = i \<and> uh_HostID h \<noteq> [] \<and> uh_Status h \<in> {''queued'', ''verified'', ''skipped''}) (ro_hosts s)"
    and ds: "distinct (map uh_ID (ro_hosts s))" "distinct (map uh_HostID (ro_hosts s))"
    using f by (simp_all add: fleet_rolling_def)
  have one: "(inFlightStatus (uh_Status h) \<longleftrightarrow> uh_ID h \<in> uh_ID ` set D) \<and> uh_RunID h = i" if "h \<in> set (ro_hosts ?s1)" for h
  proof -
    from that wave(3) obtain x where x: "x \<in> set (ro_hosts s)"
        "h = (if uh_ID x \<in> uh_ID ` set D then x\<lparr>uh_Status := ''dispatching'', uh_Version := [], uh_Error := [], uh_UpdatedAt := re_now E\<rparr> else x)"
      by (auto simp: marked_def)
    have "\<not> inFlightStatus (uh_Status x)" "uh_RunID x = i"
      using resting_not_in_flight [OF rest x(1)] rest x(1) by (auto simp: list_all_iff)
    then show ?thesis by (cases "uh_ID x \<in> uh_ID ` set D") (simp_all add: x(2) inFlightStatus_def)
  qed
  have F: "set ?F = {h \<in> set (ro_hosts ?s1). uh_ID h \<in> uh_ID ` set D}"
    using one by (auto simp: set_ListUpdateHosts)
  have ids: "uh_ID ` set ?F = uh_ID ` set D"
  proof -
    have "uh_ID ` set (ro_hosts ?s1) = uh_ID ` set (ro_hosts s)" unfolding wave(3) by (metis list.set_map marked_facts(1))
    then have sub: "uh_ID ` set D \<subseteq> uh_ID ` set (ro_hosts ?s1)" using wave(2) by auto
    show ?thesis
    proof (rule equalityI)
      show "uh_ID ` set ?F \<subseteq> uh_ID ` set D" unfolding F by (rule image_subsetI) simp
      show "uh_ID ` set D \<subseteq> uh_ID ` set ?F"
      proof
        fix x assume x: "x \<in> uh_ID ` set D"
        with sub obtain h where "h \<in> set (ro_hosts ?s1)" "x = uh_ID h" by blast
        with x show "x \<in> uh_ID ` set ?F" unfolding F by simp
      qed
    qed
  qed
  have "distinct (map uh_ID (ro_hosts ?s1))" using ds wave(3) by simp
  then have dF: "distinct (map uh_ID ?F)" by (auto simp: ListUpdateHosts_def distinct_map intro: inj_on_subset)
  have rep: "ro_hosts (report_all E v ?F ?s1) = marked E (uh_ID ` set ?F) ''verified'' v (ro_hosts ?s1) \<and> same_but_hosts ?s1 (report_all E v ?F ?s1)"
    by (rule report_all_marks) (use ds wave(3) dF in \<open>auto simp: set_ListUpdateHosts\<close>)
  let ?t = "rollout_round E v i s"
  have h: "ro_hosts ?t = marked E (uh_ID ` set D) ''verified'' v (ro_hosts s)" and same: "same_but_hosts ?s1 ?t"
    using rep unfolding rollout_round_def Let_def ids wave(3) by (auto simp: marked_def)
  have less: "length (filter (\<lambda>h. uh_Status h = ''queued'') (ro_hosts ?t)) < q"
  proof -
    have "length (filter (\<lambda>h. uh_Status h = ''queued'') (ro_hosts ?t)) =
        length (filter (\<lambda>h. uh_Status h = ''queued'' \<and> uh_ID h \<notin> uh_ID ` set D) (ro_hosts s))"
      unfolding h marked_def filter_map length_map by (rule arg_cong [of _ _ length], rule filter_cong) auto
    also have "\<dots> < length (filter (\<lambda>h. uh_Status h = ''queued'') (ro_hosts s))"
    proof -
      obtain d where d: "d \<in> set D" using wave(1) by (cases D) auto
      then have "d \<in> set (filter (\<lambda>h. uh_Status h = ''queued'') (ro_hosts s))" using wave(2) by auto
      then have "length (filter (\<lambda>h. uh_ID h \<notin> uh_ID ` set D) (filter (\<lambda>h. uh_Status h = ''queued'') (ro_hosts s)))
          < length (filter (\<lambda>h. uh_Status h = ''queued'') (ro_hosts s))"
        by (rule length_filter_less) (use d in simp)
      then show ?thesis by (simp add: conj_commute)
    qed
    finally show ?thesis using f by (simp add: fleet_rolling_def)
  qed
  have "fleet_rolling i (length (filter (\<lambda>h. uh_Status h = ''queued'') (ro_hosts ?t))) ?t"
    using wave same ds rest h
    by (auto simp: fleet_rolling_def same_but_hosts_def FindRelease_def GetRelease_def list_all_iff) (auto simp: marked_def split: if_splits)
  with less show ?thesis by blast
qed

lemma done_stays: "fleet_done i s \<Longrightarrow> fleet_done i (rollout_round E v i s)"
proof -
  assume d: "fleet_done i s"
  then have "loop_turn E i s = s" by (auto simp: fleet_done_def loop_turn_def step_run_def TerminalUpdateRun_def)
  moreover have "filter (\<lambda>h. inFlightStatus (uh_Status h)) (ListUpdateHosts i s) = []"
    using d by (auto simp: fleet_done_def list_all_iff inFlightStatus_def filter_empty_conv set_ListUpdateHosts)
  ultimately show ?thesis using d by (simp add: rollout_round_def report_all_def Let_def)
qed


section \<open>Samples\<close>

definition demo_id :: "string \<Rightarrow> nat \<Rightarrow> string" where
  "demo_id k n = k @ replicate n (CHR ''x'')"

lemma inj_demo_id: "inj (demo_id k)"
  by (rule injI) (metis (no_types) append_eq_append_conv demo_id_def length_append length_replicate add_left_cancel)

definition any_update :: Match where
  "any_update = \<lparr>m_Hosts = [], m_Actions = [''update.apply''], m_ActorRoles = [], m_CommandRegex = [], m_EOL = []\<rparr>"

definition demo_env :: rollout_env where
  "demo_env = \<lparr>re_time = 100000000000, re_hooks = no_hooks, re_id = demo_id, re_token = (\<lambda>n. Some (demo_id ''tok'' n)),
     re_rx = (\<lambda>re. None), re_unmarshal = (\<lambda>m. Some any_update), re_approvals = True\<rparr>"

definition demo_release :: Release where
  "demo_release = \<lparr>rl_ID = ''rel'', rl_Version = ''0.9.4'', rl_Arch = ''linux-amd64'', rl_Kind = ''agent'', rl_SHA256 = ''ab'', rl_Signature = ''sig''\<rparr>"

text \<open>One host, one release, and the given rules of approval.\<close>

definition demo_rollout :: "PolicyRow list \<Rightarrow> rollout" where
  "demo_rollout rls = \<lparr>ro_srv = (init_server (\<lambda>n. True))\<lparr>hosts := one_host, releases := [demo_release],
       pol := \<lparr>policies = rls, bundle_meta = None\<rparr>\<rparr>,
     ro_runs = [], ro_hosts = [], ro_requests = [], ro_loops = [], ro_dispatches = [], ro_next = 0\<rparr>"

definition demo_params :: "int \<Rightarrow> bool \<Rightarrow> update_params" where
  "demo_params canary park = \<lparr>up_ReleaseID = ''rel'', up_Version = [], up_Selector = [], up_Canary = canary, up_WavePct = 0,
     up_CanaryHosts = [], up_Actor = ''root'', up_ActorRole = ''admin'', up_Park = park\<rparr>"

definition demo_started :: "int \<Rightarrow> rollout" where
  "demo_started canary = loop_turn demo_env ''run'' (snd (StartRun demo_env (demo_params canary False) (demo_rollout [])))"

lemma one_host_inv: "hosts_inv one_host"
  by (simp add: one_host_def empty_db_def hosts_inv_def keyed_def)

lemma demo_started_reach: "roll_reach demo_id (demo_started canary)"
  unfolding demo_started_def
  by (intro rol_tick rol_create rol_empty) (simp_all add: demo_rollout_def demo_env_def one_host_inv)




text \<open>The host of the sample rollout is offline; its run is aborted after the first tick.\<close>

definition demo_row :: update_host where
  "demo_row = \<lparr>uh_ID = ''u1'', uh_RunID = ''r1'', uh_HostID = ''h1'', uh_Status = ''queued'', uh_Version = [], uh_Error = [], uh_UpdatedAt = 1\<rparr>"

definition demo_run :: update_run where
  "demo_run = \<lparr>un_ID = ''r1'', un_Version = ''0.9.4'', un_ReleaseID = ''rel'', un_Arch = [], un_Selector = [], un_CanaryHosts = [],
     un_CanaryCount = 0, un_WavePct = 25, un_Status = ''rolling'', un_CurrentWave = 1, un_TotalHosts = 1, un_Done = 0, un_Failed = 0,
     un_Skipped = 0, un_Error = [], un_ApprovalID = [], un_CreatedBy = [], un_CreatedAt = 0\<rparr>"

definition demo_offline :: rollout where
  "demo_offline = (demo_rollout [])\<lparr>ro_runs := [demo_run], ro_hosts := [demo_row]\<rparr>"

theorem aborted_update_still_delivered_witness:
  "\<exists>s1 s2 g. dispatchHost demo_env demo_run demo_row demo_release demo_offline = (True, s1) \<and>
     Abort demo_env ''r1'' ''root'' s1 = (None, s2) \<and> map un_Status (ro_runs s2) = [''aborted''] \<and>
     (1, EUpdateDirective (agent_directive demo_release g)) \<in> set (sent (drainOffline no_hooks 200000000000 ''k'' ''h1'' 1 (ro_srv s2)))"
proof -
  let ?d = "dispatchHost demo_env demo_run demo_row demo_release demo_offline"
  let ?b = "Abort demo_env ''r1'' ''root'' (snd ?d)"
  have d: "fst ?d" by code_simp
  have b: "fst ?b = None" by code_simp
  have st: "map un_Status (ro_runs (snd ?b)) = [''aborted'']" by code_simp
  have n: "net (ro_srv (snd ?b)) (sends (ro_srv (snd ?b)))" by code_simp
  obtain s1 s2 where ds: "?d = (True, s1)" and bs: "Abort demo_env ''r1'' ''root'' s1 = (None, s2)"
      and s2: "map un_Status (ro_runs s2) = [''aborted'']" "net (ro_srv s2) (sends (ro_srv s2))"
    using d b st n by (metis prod.collapse)
  have id: "un_ID demo_run = ''r1''" "uh_HostID demo_row = ''h1''" by (simp_all add: demo_run_def demo_row_def)
  have pre: "sessions (ro_srv demo_offline) ''h1'' = None" "offlineQueue (ro_srv demo_offline) ''h1'' = []" "offlineCap (ro_srv demo_offline) > 0"
      "(200000000000::int) \<le> re_time demo_env + offlineTTL (ro_srv demo_offline)"
    by (simp_all add: demo_offline_def demo_rollout_def init_server_def demo_env_def)
  obtain g where "(1, EUpdateDirective (agent_directive demo_release g)) \<in> set (sent (drainOffline no_hooks 200000000000 ''k'' ''h1'' 1 (ro_srv s2)))"
    using aborted_update_still_delivered [where h = demo_row and s = demo_offline and r = demo_run and hk = no_hooks and tok = "''k''" and sid = 1,
        unfolded id, OF pre(1-3) ds bs pre(4) s2(2)] by blast
  with ds bs s2(1) show ?thesis by (intro exI [of _ s1] exI [of _ s2] exI [of _ g] conjI)
qed

text \<open>A host being updated by the first run, and the draft row of a second one.\<close>

definition demo_two_rows :: rollout where
  "demo_two_rows = (demo_rollout [])\<lparr>ro_hosts :=
     [\<lparr>uh_ID = ''a'', uh_RunID = ''r1'', uh_HostID = ''h1'', uh_Status = ''restarting'', uh_Version = [], uh_Error = [], uh_UpdatedAt = 10\<rparr>,
      \<lparr>uh_ID = ''b'', uh_RunID = ''r2'', uh_HostID = ''h1'', uh_Status = ''queued'', uh_Version = [], uh_Error = [], uh_UpdatedAt = 20\<rparr>]\<rparr>"

theorem result_credits_newest_row_witness:
  "map (\<lambda>h. (uh_ID h, uh_Status h)) (ro_hosts (OnResult demo_env ''h1'' (verified_result ''1.0'') demo_two_rows))
     = [(''a'', ''restarting''), (''b'', ''verified'')] \<and>
   hd (ro_hosts demo_two_rows) \<in> set (ro_hosts (OnResult demo_env ''h1'' (verified_result ''1.0'') demo_two_rows))"
proof -
  have "map (\<lambda>h. (uh_ID h, uh_Status h)) (ro_hosts (OnResult demo_env ''h1'' (verified_result ''1.0'') demo_two_rows))
     = [(''a'', ''restarting''), (''b'', ''verified'')]" by code_simp
  moreover have "hd (ro_hosts demo_two_rows) \<in> set (ro_hosts (OnResult demo_env ''h1'' (verified_result ''1.0'') demo_two_rows))"
  proof -
    obtain ra rb where rows: "ro_hosts demo_two_rows = [ra, rb]" "uh_ID ra = ''a''" "uh_ID rb = ''b''" "uh_HostID ra = ''h1''" "uh_HostID rb = ''h1''"
        "uh_Status ra = ''restarting''" "uh_Status rb = ''queued''" "uh_UpdatedAt ra = 10" "uh_UpdatedAt rb = 20"
      by (auto simp: demo_two_rows_def)
    have "ra \<in> set (ro_hosts (OnResult demo_env ''h1'' (verified_result ''1.0'') demo_two_rows))"
      by (rule result_credits_newest_row [where b = rb, THEN conjunct1]) (use rows in \<open>auto simp: verified_result_def\<close>)
    with rows(1) show ?thesis by simp
  qed
  ultimately show ?thesis by blast
qed

definition approval_rule :: PolicyRow where
  "approval_rule = \<lparr>pr_ID = ''ask'', pr_Name = ''ask'', pr_MatchJSON = [], pr_Effect = ''require_approval'', pr_Priority = 0, pr_CreatedUnix = 0\<rparr>"

definition demo_draft :: rollout where
  "demo_draft = snd (StartRun demo_env (demo_params 1 True) (demo_rollout [approval_rule]))"

theorem approved_draft_skips_canary_witness:
  "map un_CanaryHosts (ro_runs demo_draft) = [''h1''] \<and>
   (\<exists>q s1 s2 r2. Start_draft demo_env ''run'' demo_draft = (None, s1) \<and> q \<in> set (ro_requests s1) \<and>
      DispatchApprovedRun q s1 = (None, s2) \<and> GetUpdateRun ''run'' s2 = Some r2 \<and>
      un_CanaryHosts r2 = ''h1'' \<and> un_CanaryCount r2 = 1 \<and> un_Status r2 = ''rolling'')"
proof -
  have c: "map un_CanaryHosts (ro_runs demo_draft) = [''h1'']" by code_simp
  have g: "map_option (\<lambda>r. (un_Status r, un_CanaryHosts r, un_CanaryCount r)) (GetUpdateRun ''run'' demo_draft) = Some (''draft'', ''h1'', 1)"
    by code_simp
  have l: "map (\<lambda>h. (uh_Status h, uh_HostID h)) (ListUpdateHosts ''run'' demo_draft) = [(''queued'', ''h1'')]" by code_simp
  have e: "update_effect demo_env demo_draft ''admin'' ''h1'' = ''require_approval''" by code_simp
  obtain r where r: "GetUpdateRun ''run'' demo_draft = Some r" "un_Status r = ''draft''" "un_CanaryHosts r = ''h1''" "un_CanaryCount r = 1"
    using g by auto
  obtain h where h: "h \<in> set (ListUpdateHosts ''run'' demo_draft)" "uh_Status h = ''queued''" "uh_HostID h = ''h1''" using l by auto
  have "re_approvals demo_env" by (simp add: demo_env_def)
  from approved_draft_skips_canary [OF r(1,2) _ this h(1,2)] e h(3) r(3,4) c show ?thesis by auto
qed

end
