(* ===== verification/Secrets.thy ===== *)
theory Secrets
  imports Stream
begin

text \<open>
  Secrets end to end: the helpers of \<open>src/internal/cryptoutil/cryptoutil.go\<close>, the tables of
  \<open>src/internal/store/secrets.go\<close>, the server's manager and its master key
  (\<open>src/internal/server/secrets/secrets.go\<close>) and the references of task steps
  (\<open>src/internal/server/secrets/taskrefs.go\<close>).  The agent's cache is theory \<open>SecretCache\<close>.

  The primitives are parameters: Curve25519, HKDF-SHA256, AES-256-GCM and base64 are the fields
  of a record \<open>crypto\<close>, and \<open>crypto_laws\<close> states what is documented of them.  Reads of the random
  source are drawn from the state, one after the other.
\<close>

unbundle bit_operations_syntax

section \<open>Cryptographic helpers\<close>

record crypto =
  cy_mult :: "string \<Rightarrow> string \<Rightarrow> string"
  cy_base :: "string \<Rightarrow> string"
  cy_hkdf :: "string \<Rightarrow> string \<Rightarrow> string \<Rightarrow> string" \<comment> \<open>secret, salt, info\<close>
  cy_seal :: "string \<Rightarrow> string \<Rightarrow> string \<Rightarrow> string"
  cy_open :: "string \<Rightarrow> string \<Rightarrow> string \<Rightarrow> string option"
  cy_b64 :: "string \<Rightarrow> string"
  cy_unb64 :: "string \<Rightarrow> string option"

definition crypto_laws :: "crypto \<Rightarrow> bool" where
  "crypto_laws C \<longleftrightarrow>
     (\<forall>a b. length a = 32 \<longrightarrow> length b = 32 \<longrightarrow> cy_mult C a (cy_base C b) = cy_mult C b (cy_base C a)) \<and>
     (\<forall>a. length (cy_base C a) = 32) \<and> (\<forall>a b. length (cy_mult C a b) = 32) \<and>
     (\<forall>k s i. length (cy_hkdf C k s i) = 32) \<and>
     (\<forall>k n p. cy_open C k n (cy_seal C k n p) = Some p) \<and>
     (\<forall>s. cy_unb64 C (cy_b64 C s) = Some s) \<and>
     (\<forall>s d. cy_unb64 C s = Some d \<longrightarrow> 4 * length d \<le> 3 * length s)"

text \<open>The first and the last byte of a private key are masked.\<close>

definition mask_byte :: "8 word \<Rightarrow> 8 word \<Rightarrow> char \<Rightarrow> char" where
  "mask_byte a b c = char_of (unat ((word_of_nat (of_char c) AND a) OR b))"

definition clamp_key :: "string \<Rightarrow> string" where
  "clamp_key p = p[0 := mask_byte 248 0 (p ! 0), 31 := mask_byte 127 64 (p ! 31)]"

definition NewKeyPairX25519 :: "crypto \<Rightarrow> string \<Rightarrow> string \<times> string" where
  "NewKeyPairX25519 C rnd = (cy_base C (clamp_key rnd), clamp_key rnd)"

definition X25519 :: "crypto \<Rightarrow> string \<Rightarrow> string \<Rightarrow> string option" where
  "X25519 C priv pub = (if length priv \<noteq> 32 \<or> length pub \<noteq> 32 then None else Some (cy_mult C priv pub))"

text \<open>The context goes in as the salt; the info is empty.\<close>

definition DeriveKey :: "crypto \<Rightarrow> string \<Rightarrow> string \<Rightarrow> string" where
  "DeriveKey C master info = cy_hkdf C master info []"

definition Seal :: "crypto \<Rightarrow> string \<Rightarrow> string \<Rightarrow> string \<Rightarrow> string option" where
  "Seal C key nonce plaintext =
     (if length key \<noteq> 32 then None else Some (nonce @ cy_seal C key nonce plaintext))"

definition OpenKey :: "crypto \<Rightarrow> string \<Rightarrow> string \<Rightarrow> string option" where
  "OpenKey C key data =
     (if length key \<noteq> 32 then None
      else if length data < 12 then None
      else cy_open C key (take 12 data) (drop 12 data))"

definition InfoAtRest :: string where "InfoAtRest = ''partout:secret-at-rest:v1:''"

definition InfoE2E :: string where "InfoE2E = ''partout:secret-e2e:v1:''"

definition KeyFor :: "crypto \<Rightarrow> string \<Rightarrow> string \<Rightarrow> string" where
  "KeyFor C master secretID = DeriveKey C master (InfoAtRest @ secretID)"

definition E2EKey :: "crypto \<Rightarrow> string \<Rightarrow> string \<Rightarrow> int \<Rightarrow> string" where
  "E2EKey C shared name ver = DeriveKey C shared (InfoE2E @ name @ '':'' @ show_int ver)"

section \<open>The master key\<close>

text \<open>A key file: its permission bits and what reading it gives.\<close>

record key_file =
  kf_perm :: nat
  kf_bytes :: "string option"

datatype key_error = KeyDisabled | KeyLength nat | KeyMissing | KeyMode nat | KeyUnreadable

text \<open>32 raw bytes, or the base64 of 32 bytes.\<close>

definition key_bytes :: "crypto \<Rightarrow> string \<Rightarrow> key_error + string" where
  "key_bytes C e =
     (let b = (case cy_unb64 C e of Some k \<Rightarrow> if length k = 32 then k else e | None \<Rightarrow> e)
      in if length b \<noteq> 32 then Inl (KeyLength (length b)) else Inr b)"

definition loadKeyFile :: "crypto \<Rightarrow> (string \<rightharpoonup> key_file) \<Rightarrow> string \<Rightarrow> key_error + string" where
  "loadKeyFile C files f =
     (case files f of
        None \<Rightarrow> Inl KeyMissing
      | Some fi \<Rightarrow>
          if kf_perm fi \<noteq> 384 then Inl (KeyMode (kf_perm fi))
          else (case kf_bytes fi of None \<Rightarrow> Inl KeyUnreadable | Some b \<Rightarrow> key_bytes C (trim_space b)))"

text \<open>\<open>keyFile\<close> and \<open>key\<close> are the values of the two environment variables.\<close>

definition LoadMasterKey :: "crypto \<Rightarrow> (string \<rightharpoonup> key_file) \<Rightarrow> string \<Rightarrow> string \<Rightarrow> key_error + string" where
  "LoadMasterKey C files keyFile key =
     (if keyFile \<noteq> [] then loadKeyFile C files keyFile
      else if key \<noteq> [] then key_bytes C key
      else Inl KeyDisabled)"

definition LoadMasterKeyWithDefault ::
  "crypto \<Rightarrow> (string \<rightharpoonup> key_file) \<Rightarrow> string \<Rightarrow> string \<Rightarrow> string \<Rightarrow> key_error + string" where
  "LoadMasterKeyWithDefault C files keyFile key defaultPath =
     (case LoadMasterKey C files keyFile key of
        Inr k \<Rightarrow> Inr k
      | Inl e \<Rightarrow>
          if e \<noteq> KeyDisabled then Inl e
          else if defaultPath \<noteq> [] \<and> files defaultPath \<noteq> None then loadKeyFile C files defaultPath
          else Inl KeyDisabled)"

text \<open>\<open>rnd\<close> are the 32 random bytes.\<close>

definition BootstrapKey ::
  "crypto \<Rightarrow> string \<Rightarrow> (string \<rightharpoonup> key_file) \<Rightarrow> string \<Rightarrow> (key_error + string) \<times> (string \<rightharpoonup> key_file)" where
  "BootstrapKey C rnd files path =
     (case loadKeyFile C files path of
        Inr k \<Rightarrow> (Inr k, files)
      | Inl e \<Rightarrow>
          if e \<noteq> KeyMissing then (Inl e, files)
          else (Inr rnd, files(path \<mapsto> \<lparr>kf_perm = 384, kf_bytes = Some rnd\<rparr>)))"

section \<open>The tables\<close>

record secret_row =
  se_ID :: string
  se_Name :: string
  se_Selector :: string
  se_OfflineTTL :: int
  se_Created :: int
  se_Updated :: int

record version_row =
  sv_ID :: string
  sv_SecretID :: string
  sv_Version :: int
  sv_Ciphertext :: string
  sv_Created :: int
  sv_Revoked :: bool

record binding_row =
  sb_ID :: string
  sb_SecretID :: string
  sb_Version :: int
  sb_AgentID :: string
  sb_Ref :: string
  sb_Ts :: int

record secret_srv =
  ss_srv :: server
  ss_secrets :: "secret_row list"
  ss_versions :: "version_row list"
  ss_bindings :: "binding_row list"
  ss_rand :: "nat \<Rightarrow> nat \<Rightarrow> string" \<comment> \<open>the bytes of the k-th read of n bytes\<close>
  ss_reads :: nat

definition draw :: "nat \<Rightarrow> secret_srv \<Rightarrow> string \<times> secret_srv" where
  "draw n st = (ss_rand st (ss_reads st) n, st\<lparr>ss_reads := Suc (ss_reads st)\<rparr>)"

definition hex_digit :: "nat \<Rightarrow> char" where
  "hex_digit n = (if n < 10 then digit_char n else char_of (87 + n))"

definition hex_text :: "string \<Rightarrow> string" where
  "hex_text b = concat (map (\<lambda>c. [hex_digit (of_char c div 16), hex_digit (of_char c mod 16)]) b)"

text \<open>\<open>id.New\<close>.\<close>

definition id_New :: "string \<Rightarrow> secret_srv \<Rightarrow> string \<times> secret_srv" where
  "id_New prefix st = (case draw 6 st of (b, st1) \<Rightarrow> (prefix @ ''_'' @ hex_text b, st1))"

datatype secret_error =
    SecretIDRequired | CiphertextRequired | FirstVersion | SecretUnique | SecretForeignKey | SecretNotFound
  | BadName | ValueTooLarge | SecretExists string | SecretSelector sel_error | NoActiveVersion
  | UnknownAgent string | NotBound string string | DecryptFailed string int | BadAgentKey string
  | SecretSeal | SecretSend send_error

definition secret_named :: "string \<Rightarrow> secret_row \<Rightarrow> bool" where
  "secret_named x r \<longleftrightarrow> se_ID r = x \<or> se_Name r = x"

definition store_CreateSecret :: "int \<Rightarrow> secret_row \<Rightarrow> version_row \<Rightarrow> secret_srv \<Rightarrow> secret_error + secret_srv" where
  "store_CreateSecret now sec0 v1 st =
     (if se_ID sec0 = [] \<or> se_Name sec0 = [] then Inl SecretIDRequired
      else if sv_ID v1 = [] \<or> sv_Ciphertext v1 = [] then Inl CiphertextRequired
      else if sv_Version v1 \<noteq> 1 then Inl FirstVersion
      else
        let created = (if se_Created sec0 = 0 then now else se_Created sec0);
            sec = sec0\<lparr>se_Created := created, se_Updated := created\<rparr>
        in if se_ID sec \<in> se_ID ` set (ss_secrets st) \<or> se_Name sec \<in> se_Name ` set (ss_secrets st)
             \<or> sv_ID v1 \<in> sv_ID ` set (ss_versions st)
             \<or> (se_ID sec, 1) \<in> (\<lambda>v. (sv_SecretID v, sv_Version v)) ` set (ss_versions st) then Inl SecretUnique
           else Inr (st\<lparr>ss_secrets := ss_secrets st @ [sec],
                        ss_versions := ss_versions st @ [v1\<lparr>sv_SecretID := se_ID sec, sv_Revoked := False\<rparr>]\<rparr>))"

definition GetSecret :: "string \<Rightarrow> secret_srv \<Rightarrow> secret_row option" where
  "GetSecret x st = find (secret_named x) (ss_secrets st)"

definition ListSecrets :: "secret_srv \<Rightarrow> secret_row list" where
  "ListSecrets st = sort_key (\<lambda>r. - se_Created r) (ss_secrets st)"

text \<open>The versions and bindings of a deleted secret go with it (\<open>ON DELETE CASCADE\<close>).\<close>

definition store_DeleteSecret :: "string \<Rightarrow> secret_srv \<Rightarrow> secret_error + secret_srv" where
  "store_DeleteSecret x st =
     (let gone = se_ID ` set (filter (secret_named x) (ss_secrets st))
      in if rows_affected (secret_named x) (ss_secrets st) = 0 then Inl SecretNotFound
         else Inr (st\<lparr>ss_secrets := sql_delete (secret_named x) (ss_secrets st),
                      ss_versions := sql_delete (\<lambda>v. sv_SecretID v \<in> gone) (ss_versions st),
                      ss_bindings := sql_delete (\<lambda>b. sb_SecretID b \<in> gone) (ss_bindings st)\<rparr>))"

definition versions_of :: "string \<Rightarrow> secret_srv \<Rightarrow> version_row list" where
  "versions_of i st = filter (\<lambda>v. sv_SecretID v = i) (ss_versions st)"

definition next_version :: "string \<Rightarrow> secret_srv \<Rightarrow> int" where
  "next_version i st = fold max (map sv_Version (versions_of i st)) 0 + 1"

definition touch_secret :: "int \<Rightarrow> string \<Rightarrow> secret_srv \<Rightarrow> secret_srv" where
  "touch_secret now i st =
     st\<lparr>ss_secrets := sql_update (\<lambda>r. se_ID r = i) (\<lambda>r. r\<lparr>se_Updated := now\<rparr>) (ss_secrets st)\<rparr>"

definition store_RotateSecret :: "int \<Rightarrow> string \<Rightarrow> string \<Rightarrow> secret_srv \<Rightarrow> (secret_error + int) \<times> secret_srv" where
  "store_RotateSecret now i ciphertext st =
     (if ciphertext = [] then (Inl CiphertextRequired, st)
      else
        (let n = next_version i st
         in case id_New ''secv'' st of (vid, st1) \<Rightarrow>
              if vid \<in> sv_ID ` set (ss_versions st1) then (Inl SecretUnique, st1)
              else if i \<notin> se_ID ` set (ss_secrets st1) then (Inl SecretForeignKey, st1)
              else
                (Inr n, touch_secret now i
                   (st1\<lparr>ss_versions := sql_update (\<lambda>v. sv_SecretID v = i \<and> sv_Version v < n)
                          (\<lambda>v. v\<lparr>sv_Revoked := True\<rparr>)
                          (ss_versions st1 @ [\<lparr>sv_ID = vid, sv_SecretID = i, sv_Version = n,
                             sv_Ciphertext = ciphertext, sv_Created = now, sv_Revoked = False\<rparr>])\<rparr>))))"

definition store_RevokeSecretVersion :: "int \<Rightarrow> string \<Rightarrow> int \<Rightarrow> secret_srv \<Rightarrow> secret_error + secret_srv" where
  "store_RevokeSecretVersion now i n st =
     (let p = (\<lambda>v. sv_SecretID v = i \<and> sv_Version v = n \<and> \<not> sv_Revoked v)
      in if rows_affected p (ss_versions st) = 0 then Inl SecretNotFound
         else Inr (touch_secret now i
                (st\<lparr>ss_versions := sql_update p (\<lambda>v. v\<lparr>sv_Revoked := True\<rparr>) (ss_versions st)\<rparr>)))"

definition store_UpdateSecretMeta :: "int \<Rightarrow> string \<Rightarrow> string \<Rightarrow> int \<Rightarrow> secret_srv \<Rightarrow> secret_error + secret_srv" where
  "store_UpdateSecretMeta now x selector ttl st =
     (if rows_affected (secret_named x) (ss_secrets st) = 0 then Inl SecretNotFound
      else Inr (st\<lparr>ss_secrets := sql_update (secret_named x)
             (\<lambda>r. r\<lparr>se_Selector := selector, se_OfflineTTL := ttl, se_Updated := now\<rparr>) (ss_secrets st)\<rparr>))"

definition GetLatestSecretVersion :: "string \<Rightarrow> secret_srv \<Rightarrow> version_row option" where
  "GetLatestSecretVersion i st =
     (case sort_key (\<lambda>v. - sv_Version v) (filter (\<lambda>v. \<not> sv_Revoked v) (versions_of i st)) of
        [] \<Rightarrow> None | v # _ \<Rightarrow> Some v)"

definition GetSecretVersion :: "string \<Rightarrow> int \<Rightarrow> secret_srv \<Rightarrow> version_row option" where
  "GetSecretVersion i n st = find (\<lambda>v. sv_Version v = n) (versions_of i st)"

definition RecordSecretBinding :: "int \<Rightarrow> binding_row \<Rightarrow> secret_srv \<Rightarrow> (secret_error + unit) \<times> secret_srv" where
  "RecordSecretBinding now b0 st =
     (case (if sb_ID b0 = [] then id_New ''secb'' st else (sb_ID b0, st)) of (bid, st1) \<Rightarrow>
        let b = b0\<lparr>sb_ID := bid, sb_Ts := (if sb_Ts b0 = 0 then now else sb_Ts b0)\<rparr>
        in if bid \<in> sb_ID ` set (ss_bindings st1) then (Inl SecretUnique, st1)
           else if sb_SecretID b \<notin> se_ID ` set (ss_secrets st1) \<or> \<not> known_host (ss_srv st1) (sb_AgentID b)
             then (Inl SecretForeignKey, st1)
           else (Inr (), st1\<lparr>ss_bindings := ss_bindings st1 @ [b]\<rparr>))"

definition ListSecretBindings :: "string \<Rightarrow> nat \<Rightarrow> secret_srv \<Rightarrow> binding_row list" where
  "ListSecretBindings i limit st =
     take limit (sort_key (\<lambda>b. - sb_Ts b) (filter (\<lambda>b. sb_SecretID b = i) (ss_bindings st)))"

section \<open>The manager\<close>

record manager =
  mg_master :: string
  mg_digest :: string

definition New_manager :: "(string \<Rightarrow> string) \<Rightarrow> string option \<Rightarrow> key_error + manager" where
  "New_manager sha64 master =
     (case master of None \<Rightarrow> Inl KeyDisabled | Some k \<Rightarrow> Inr \<lparr>mg_master = k, mg_digest = sha64 k\<rparr>)"

definition name_char :: "char \<Rightarrow> bool" where
  "name_char c \<longleftrightarrow> c \<in> {CHR ''.'', CHR ''_'', CHR ''-''} \<or> (CHR ''a'' \<le> c \<and> c \<le> CHR ''z'')
     \<or> (CHR ''A'' \<le> c \<and> c \<le> CHR ''Z'') \<or> (CHR ''0'' \<le> c \<and> c \<le> CHR ''9'')"

definition validName :: "string \<Rightarrow> bool" where
  "validName n \<longleftrightarrow> n \<noteq> [] \<and> length n \<le> 64 \<and> list_all name_char n"

definition MaxValue :: nat where "MaxValue = 65536"

definition secret_audit ::
  "manager \<Rightarrow> int \<Rightarrow> string \<Rightarrow> string \<Rightarrow> int \<Rightarrow> string \<Rightarrow> string \<Rightarrow> string \<Rightarrow> string \<Rightarrow> secret_srv \<Rightarrow> secret_srv" where
  "secret_audit mg now kind secretID ver agent ref actor name st =
     st\<lparr>ss_srv := append_audit \<lparr>au_TS = now, au_Kind = kind, au_Actor = actor, au_AgentID = agent,
          au_Payload = [(''secret'', name), (''secret_id'', secretID), (''version'', show_int ver),
            (''master_digest'', mg_digest mg)]
            @ (if agent \<noteq> [] then [(''agent_id'', agent)] else [])
            @ (if ref \<noteq> [] then [(''ref'', ref)] else [])\<rparr> (ss_srv st)\<rparr>"

definition resolve_hosts :: "string \<Rightarrow> secret_srv \<Rightarrow> sel_error + string list" where
  "resolve_hosts expr st =
     (case ResolveSelector (hosts (ss_srv st)) (if expr = [] then ''all'' else expr) of
        Inl e \<Rightarrow> Inl e | Inr hs \<Rightarrow> Inr (map ID hs))"

definition CreateSecret ::
  "crypto \<Rightarrow> manager \<Rightarrow> int \<Rightarrow> string \<Rightarrow> string \<Rightarrow> string \<Rightarrow> int \<Rightarrow> string \<Rightarrow> secret_srv
   \<Rightarrow> (secret_error + secret_row) \<times> secret_srv" where
  "CreateSecret C mg now name vl selector ttl actor st =
     (if \<not> validName name then (Inl BadName, st)
      else if length vl > MaxValue then (Inl ValueTooLarge, st)
      else if GetSecret name st \<noteq> None then (Inl (SecretExists name), st)
      else
        (case (if selector \<noteq> [] then Parse selector else Inr []) of
           Inl e \<Rightarrow> (Inl (SecretSelector e), st)
         | Inr sel \<Rightarrow>
             (case id_New ''sec'' st of (secID, st1) \<Rightarrow>
              case draw 12 st1 of (nonce, st2) \<Rightarrow>
              case Seal C (KeyFor C (mg_master mg) secID) nonce vl of
                None \<Rightarrow> (Inl SecretSeal, st2)
              | Some ct \<Rightarrow>
                  (case id_New ''secv'' st2 of (vid, st3) \<Rightarrow>
                     let sec = \<lparr>se_ID = secID, se_Name = name, se_Selector = selector,
                                se_OfflineTTL = ttl, se_Created = 0, se_Updated = 0\<rparr>
                     in case store_CreateSecret now sec
                               \<lparr>sv_ID = vid, sv_SecretID = secID, sv_Version = 1, sv_Ciphertext = ct,
                                sv_Created = 0, sv_Revoked = False\<rparr> st3 of
                          Inl e \<Rightarrow> (Inl e, st3)
                        | Inr st4 \<Rightarrow> (Inr sec, secret_audit mg now ''secret.created'' secID 1 [] [] actor name st4)))))"

definition RotateSecret ::
  "crypto \<Rightarrow> manager \<Rightarrow> int \<Rightarrow> string \<Rightarrow> string \<Rightarrow> string \<Rightarrow> secret_srv \<Rightarrow> (secret_error + int) \<times> secret_srv" where
  "RotateSecret C mg now name vl actor st =
     (case GetSecret name st of
        None \<Rightarrow> (Inl SecretNotFound, st)
      | Some sec \<Rightarrow>
          if length vl > MaxValue then (Inl ValueTooLarge, st)
          else
            (case draw 12 st of (nonce, st1) \<Rightarrow>
             case Seal C (KeyFor C (mg_master mg) (se_ID sec)) nonce vl of
               None \<Rightarrow> (Inl SecretSeal, st1)
             | Some ct \<Rightarrow>
                 (case store_RotateSecret now (se_ID sec) ct st1 of
                    (Inl e, st2) \<Rightarrow> (Inl e, st2)
                  | (Inr v, st2) \<Rightarrow>
                      (Inr v, secret_audit mg now ''secret.rotated'' (se_ID sec) v [] [] actor name st2))))"

definition RevokeSecret ::
  "manager \<Rightarrow> int \<Rightarrow> string \<Rightarrow> string \<Rightarrow> secret_srv \<Rightarrow> secret_error option \<times> secret_srv" where
  "RevokeSecret mg now name actor st =
     (case GetSecret name st of
        None \<Rightarrow> (Some SecretNotFound, st)
      | Some sec \<Rightarrow>
          (case GetLatestSecretVersion (se_ID sec) st of
             None \<Rightarrow> (Some NoActiveVersion, st)
           | Some v \<Rightarrow>
               (case store_RevokeSecretVersion now (se_ID sec) (sv_Version v) st of
                  Inl e \<Rightarrow> (Some e, st)
                | Inr st1 \<Rightarrow>
                    (None, secret_audit mg now ''secret.revoked'' (se_ID sec) (sv_Version v) [] [] actor name st1))))"

definition UpdateMeta ::
  "manager \<Rightarrow> int \<Rightarrow> string \<Rightarrow> string \<Rightarrow> int option \<Rightarrow> string \<Rightarrow> secret_srv \<Rightarrow> secret_error option \<times> secret_srv" where
  "UpdateMeta mg now name selector0 ttl0 actor st =
     (case GetSecret name st of
        None \<Rightarrow> (Some SecretNotFound, st)
      | Some sec \<Rightarrow>
          (case (if selector0 = [] then Inr (se_Selector sec)
                 else case resolve_hosts selector0 st of Inl e \<Rightarrow> Inl e | Inr _ \<Rightarrow> Inr selector0) of
             Inl e \<Rightarrow> (Some (SecretSelector e), st)
           | Inr selector \<Rightarrow>
               (case store_UpdateSecretMeta now (se_ID sec) selector
                       (case ttl0 of None \<Rightarrow> se_OfflineTTL sec | Some n \<Rightarrow> n) st of
                  Inl e \<Rightarrow> (Some e, st)
                | Inr st1 \<Rightarrow> (None, secret_audit mg now ''secret.updated'' (se_ID sec) 0 [] [] actor name st1))))"

definition DeleteSecret ::
  "manager \<Rightarrow> int \<Rightarrow> string \<Rightarrow> string \<Rightarrow> secret_srv \<Rightarrow> secret_error option \<times> secret_srv" where
  "DeleteSecret mg now name actor st =
     (case GetSecret name st of
        None \<Rightarrow> (Some SecretNotFound, st)
      | Some sec \<Rightarrow>
          (case store_DeleteSecret (se_ID sec) st of
             Inl e \<Rightarrow> (Some e, st)
           | Inr st1 \<Rightarrow> (None, secret_audit mg now ''secret.deleted'' (se_ID sec) 0 [] [] actor name st1)))"

text \<open>What the read interface returns.\<close>

record secret_view =
  vw_ID :: string
  vw_Name :: string
  vw_Selector :: string
  vw_OfflineTTL :: int
  vw_Created :: int
  vw_Updated :: int
  vw_Version :: int
  vw_AgentCount :: nat

definition view_of :: "secret_srv \<Rightarrow> secret_row \<Rightarrow> sel_error + secret_view" where
  "view_of st sec =
     (case resolve_hosts (se_Selector sec) st of
        Inl e \<Rightarrow> Inl e
      | Inr hs \<Rightarrow> Inr \<lparr>vw_ID = se_ID sec, vw_Name = se_Name sec, vw_Selector = se_Selector sec,
          vw_OfflineTTL = se_OfflineTTL sec, vw_Created = se_Created sec, vw_Updated = se_Updated sec,
          vw_Version = (case GetLatestSecretVersion (se_ID sec) st of None \<Rightarrow> 0 | Some v \<Rightarrow> sv_Version v),
          vw_AgentCount = length hs\<rparr>)"

definition Get_view :: "string \<Rightarrow> secret_srv \<Rightarrow> secret_error + secret_view" where
  "Get_view name st =
     (case GetSecret name st of
        None \<Rightarrow> Inl SecretNotFound
      | Some sec \<Rightarrow> (case view_of st sec of Inl e \<Rightarrow> Inl (SecretSelector e) | Inr v \<Rightarrow> Inr v))"

definition List_views :: "secret_srv \<Rightarrow> secret_view list" where
  "List_views st =
     List.map_filter (\<lambda>sec. case view_of st sec of Inl e \<Rightarrow> None | Inr v \<Rightarrow> Some v) (ListSecrets st)"

definition Bindings :: "string \<Rightarrow> int \<Rightarrow> secret_srv \<Rightarrow> secret_error + binding_row list" where
  "Bindings name limit st =
     (case GetSecret name st of
        None \<Rightarrow> Inl SecretNotFound
      | Some sec \<Rightarrow> Inr (ListSecretBindings (se_ID sec) (nat (if limit \<le> 0 then 100 else limit)) st))"

definition SendSecretMaterialize :: "string \<Rightarrow> pbSecretMaterialize \<Rightarrow> server \<Rightarrow> send_error option \<times> server" where
  "SendSecretMaterialize agent sm st =
     (case sessions st agent of
        None \<Rightarrow> (Some NoSession, st)
      | Some sid \<Rightarrow>
          (case sess_send sid (ESecretMaterialize sm) st of
             (True, st1) \<Rightarrow> (None, st1) | (False, st1) \<Rightarrow> (Some SendFailed, st1)))"

text \<open>The envelope: the ephemeral key pair and the nonce are two reads of the random source.\<close>

definition seal_for ::
  "crypto \<Rightarrow> string \<Rightarrow> string \<Rightarrow> int \<Rightarrow> string \<Rightarrow> int \<Rightarrow> secret_srv \<Rightarrow> (secret_error + pbSecretMaterialize) \<times> secret_srv" where
  "seal_for C agentPub name ver plaintext ttl st =
     (case draw 32 st of (rnd, st1) \<Rightarrow>
      case NewKeyPairX25519 C rnd of (pub, priv) \<Rightarrow>
      case X25519 C priv agentPub of
        None \<Rightarrow> (Inl SecretSeal, st1)
      | Some shared \<Rightarrow>
          (case draw 12 st1 of (nonce, st2) \<Rightarrow>
           case Seal C (E2EKey C shared name ver) nonce plaintext of
             None \<Rightarrow> (Inl SecretSeal, st2)
           | Some sealed \<Rightarrow>
               (Inr \<lparr>sm_Ref = name, sm_Version = ver, sm_EphPub = pub, sm_Sealed = sealed, sm_CacheTtlS = ttl\<rparr>, st2)))"

definition materialized ::
  "manager \<Rightarrow> int \<Rightarrow> string \<Rightarrow> string \<Rightarrow> string \<Rightarrow> string \<Rightarrow> int \<Rightarrow> secret_srv \<Rightarrow> secret_srv" where
  "materialized mg now agent name ref secID ver st =
     secret_audit mg now ''secret.materialized'' secID ver agent ref ''system'' name
       (snd (RecordSecretBinding now \<lparr>sb_ID = [], sb_SecretID = secID, sb_Version = ver,
          sb_AgentID = agent, sb_Ref = ref, sb_Ts = 0\<rparr> st))"

text \<open>The checks of \<open>Materialize\<close>, in order, up to the agent's key.\<close>

definition materialize_checks ::
  "crypto \<Rightarrow> manager \<Rightarrow> string \<Rightarrow> string \<Rightarrow> secret_srv \<Rightarrow> secret_error + secret_row \<times> version_row \<times> string \<times> string" where
  "materialize_checks C mg agent name st =
     (case GetSecret name st of
        None \<Rightarrow> Inl SecretNotFound
      | Some sec \<Rightarrow>
      case Agent_get agent (hosts (ss_srv st)) of
        None \<Rightarrow> Inl (UnknownAgent agent)
      | Some a \<Rightarrow>
      case resolve_hosts (se_Selector sec) st of
        Inl e \<Rightarrow> Inl (SecretSelector e)
      | Inr hs \<Rightarrow>
      if agent \<notin> set hs then Inl (NotBound name agent)
      else
      case GetLatestSecretVersion (se_ID sec) st of
        None \<Rightarrow> Inl NoActiveVersion
      | Some sv \<Rightarrow>
      case OpenKey C (KeyFor C (mg_master mg) (se_ID sec)) (sv_Ciphertext sv) of
        None \<Rightarrow> Inl (DecryptFailed name (sv_Version sv))
      | Some plaintext \<Rightarrow>
      case cy_unb64 C (a_X25519Pub a) of
        None \<Rightarrow> Inl (BadAgentKey agent)
      | Some agentPub \<Rightarrow>
      if length agentPub \<noteq> 32 then Inl (BadAgentKey agent)
      else Inr (sec, sv, plaintext, agentPub))"

definition Materialize ::
  "crypto \<Rightarrow> manager \<Rightarrow> int \<Rightarrow> string \<Rightarrow> string \<Rightarrow> string \<Rightarrow> secret_srv \<Rightarrow> (secret_error + int) \<times> secret_srv" where
  "Materialize C mg now agent name ref st =
     (case materialize_checks C mg agent name st of
        Inl e \<Rightarrow> (Inl e, st)
      | Inr (sec, sv, plaintext, agentPub) \<Rightarrow>
      (case seal_for C agentPub name (sv_Version sv) plaintext (se_OfflineTTL sec) st of
        (Inl e, st1) \<Rightarrow> (Inl e, st1)
      | (Inr sm, st1) \<Rightarrow>
          (case SendSecretMaterialize agent sm (ss_srv st1) of
             (Some e, s2) \<Rightarrow> (Inl (SecretSend e), st1\<lparr>ss_srv := s2\<rparr>)
           | (None, s2) \<Rightarrow>
               (Inr (sv_Version sv),
                materialized mg now agent name ref (se_ID sec) (sv_Version sv) (st1\<lparr>ss_srv := s2\<rparr>)))))"

section \<open>References in task steps\<close>

definition ParseSecretRef :: "string \<Rightarrow> string \<times> bool" where
  "ParseSecretRef v =
     (if \<not> has_prefix v ''secret:'' then ([], False)
      else let name = trim_prefix v ''secret:'' in (name, name \<noteq> []))"

text \<open>The values of a step in the order they are scanned; maps are listed in some order.\<close>

definition scanned_values :: "pbTaskStep \<Rightarrow> string list" where
  "scanned_values s =
     [s_Command s] @ s_Args s @ map snd (s_Env s) @ [s_Content s, s_Template s] @ map snd (s_Vars s)
       @ [s_Path s, s_Service s, s_User s, s_Group s, s_Package s]"

definition add_ref :: "string \<Rightarrow> string list \<Rightarrow> string list" where
  "add_ref v names =
     (case ParseSecretRef v of (name, ok) \<Rightarrow> if \<not> ok \<or> name \<in> set names then names else names @ [name])"

definition StepSecretRefs :: "pbTaskStep list \<Rightarrow> string list" where
  "StepSecretRefs steps = fold add_ref (concat (map scanned_values steps)) []"

datatype 'e run_secret_error = SecretsDisabled "string list" | SecretFailed string 'e

fun mat_loop ::
  "(string \<Rightarrow> string \<Rightarrow> string \<Rightarrow> 's \<Rightarrow> ('e + int) \<times> 's) \<Rightarrow> string \<Rightarrow> string \<Rightarrow> string list \<Rightarrow> 's
   \<Rightarrow> 'e run_secret_error option \<times> 's" where
  "mat_loop mat agent ref [] st = (None, st)"
| "mat_loop mat agent ref (name # names) st =
     (case mat agent name ref st of
        (Inl e, st1) \<Rightarrow> (Some (SecretFailed name e), st1)
      | (Inr v, st1) \<Rightarrow> mat_loop mat agent ref names st1)"

definition MaterializeForRun ::
  "(string \<Rightarrow> string \<Rightarrow> string \<Rightarrow> 's \<Rightarrow> ('e + int) \<times> 's) option \<Rightarrow> string \<Rightarrow> string \<Rightarrow> string list \<Rightarrow> 's
   \<Rightarrow> 'e run_secret_error option \<times> 's" where
  "MaterializeForRun m agent ref refs st =
     (if refs = [] then (None, st)
      else (case m of None \<Rightarrow> (Some (SecretsDisabled refs), st)
                    | Some mat \<Rightarrow> mat_loop mat agent ref (sort refs) st))"

section \<open>The interface of a materializer\<close>

text \<open>
  What the dispatchers rely on: after a success the agent's stream carries the named secret
  (\<open>warm\<close>), and no later call takes it back.
\<close>

locale materializer =
  fixes mat :: "string \<Rightarrow> string \<Rightarrow> string \<Rightarrow> 's \<Rightarrow> ('e + int) \<times> 's"
    and warm :: "'s \<Rightarrow> string \<Rightarrow> string \<Rightarrow> bool"
  assumes delivers: "mat agent name ref s = (Inr v, s') \<Longrightarrow> warm s' agent name"
    and keeps: "warm s a n \<Longrightarrow> mat agent name ref s = (r, s') \<Longrightarrow> warm s' a n"
begin

lemma loop_keeps: "warm s a n \<Longrightarrow> mat_loop mat agent ref names s = (r, s') \<Longrightarrow> warm s' a n"
  by (induction names arbitrary: s) (auto split: prod.splits sum.splits dest: keeps)

lemma loop_warms:
  "mat_loop mat agent ref names s = (None, s') \<Longrightarrow> name \<in> set names \<Longrightarrow> warm s' agent name"
proof (induction names arbitrary: s)
  case (Cons n ns)
  then obtain v s1 where m: "mat agent n ref s = (Inr v, s1)" "mat_loop mat agent ref ns s1 = (None, s')"
    by (auto split: prod.splits sum.splits)
  from Cons.prems(2) consider "name = n" | "name \<in> set ns" by auto
  then show ?case
  proof cases
    case 1
    with m show ?thesis by (auto dest: delivers loop_keeps)
  next
    case 2
    with Cons.IH m(2) show ?thesis by blast
  qed
qed simp

lemma run_warms:
  "MaterializeForRun (Some mat) agent ref refs s = (None, s') \<Longrightarrow> name \<in> set refs \<Longrightarrow> warm s' agent name"
  by (auto simp: MaterializeForRun_def dest: loop_warms split: if_splits)

end

section \<open>What the manager sends\<close>

text \<open>The part of the server state the other services see.\<close>

lemma draw_fields [simp]:
  "ss_srv (snd (draw n st)) = ss_srv st" "ss_secrets (snd (draw n st)) = ss_secrets st"
  "ss_versions (snd (draw n st)) = ss_versions st" "ss_bindings (snd (draw n st)) = ss_bindings st"
  "ss_rand (snd (draw n st)) = ss_rand st"
  by (simp_all add: draw_def)

lemma id_New_fields [simp]:
  "ss_srv (snd (id_New p st)) = ss_srv st" "ss_secrets (snd (id_New p st)) = ss_secrets st"
  "ss_versions (snd (id_New p st)) = ss_versions st" "ss_bindings (snd (id_New p st)) = ss_bindings st"
  "ss_rand (snd (id_New p st)) = ss_rand st"
  by (simp_all add: id_New_def draw_def)

lemma seal_for_fields:
  "seal_for C pub name ver p ttl st = (r, st1) \<Longrightarrow>
     ss_srv st1 = ss_srv st \<and> ss_secrets st1 = ss_secrets st \<and> ss_versions st1 = ss_versions st \<and>
     ss_bindings st1 = ss_bindings st \<and> ss_rand st1 = ss_rand st"
  by (auto simp: seal_for_def draw_def NewKeyPairX25519_def split: option.splits)

lemma seal_for_Inr:
  assumes "seal_for C pub name ver p ttl st = (Inr sm, st1)"
  shows "sm_Ref sm = name \<and> sm_Version sm = ver \<and> sm_CacheTtlS sm = ttl"
  using assms by (auto simp: seal_for_def draw_def NewKeyPairX25519_def split: option.splits)

lemma RecordSecretBinding_fields:
  "RecordSecretBinding now b st = (r, st1) \<Longrightarrow>
     ss_srv st1 = ss_srv st \<and> ss_secrets st1 = ss_secrets st \<and> ss_versions st1 = ss_versions st"
  using id_New_fields [of "''secb''" st]
  by (cases "id_New ''secb'' st") (auto simp: RecordSecretBinding_def Let_def split: if_splits)

lemma materialized_fields:
  "sent (ss_srv (materialized mg now agent name ref i v st)) = sent (ss_srv st)"
  "sessions (ss_srv (materialized mg now agent name ref i v st)) = sessions (ss_srv st)"
  "ss_secrets (materialized mg now agent name ref i v st) = ss_secrets st"
  "ss_versions (materialized mg now agent name ref i v st) = ss_versions st"
proof -
  let ?b = "\<lparr>sb_ID = [], sb_SecretID = i, sb_Version = v, sb_AgentID = agent, sb_Ref = ref, sb_Ts = 0\<rparr>"
  obtain r st1 where b: "RecordSecretBinding now ?b st = (r, st1)" by fastforce
  note f = RecordSecretBinding_fields [OF b]
  show "sent (ss_srv (materialized mg now agent name ref i v st)) = sent (ss_srv st)"
    "sessions (ss_srv (materialized mg now agent name ref i v st)) = sessions (ss_srv st)"
    "ss_secrets (materialized mg now agent name ref i v st) = ss_secrets st"
    "ss_versions (materialized mg now agent name ref i v st) = ss_versions st"
    using f by (simp_all add: materialized_def b secret_audit_def append_audit_def)
qed

lemma materialize_checks_Inr:
  assumes "materialize_checks C mg agent name st = Inr (sec, sv, p, pub)"
  shows "GetSecret name st = Some sec" "\<exists>hs. resolve_hosts (se_Selector sec) st = Inr hs \<and> agent \<in> set hs"
    "GetLatestSecretVersion (se_ID sec) st = Some sv"
    "OpenKey C (KeyFor C (mg_master mg) (se_ID sec)) (sv_Ciphertext sv) = Some p"
    "\<exists>a. Agent_get agent (hosts (ss_srv st)) = Some a \<and> cy_unb64 C (a_X25519Pub a) = Some pub" "length pub = 32"
  using assms by (auto simp: materialize_checks_def split: option.splits sum.splits if_splits)

lemma SendSecretMaterialize_cases:
  assumes "SendSecretMaterialize agent sm st = (e, st')"
  shows "sessions st' = sessions st \<and>
    (e = None \<and> (\<exists>sid. sessions st agent = Some sid \<and> sent st' = sent st @ [(sid, ESecretMaterialize sm)]) \<or>
     e \<noteq> None \<and> sent st' = sent st)"
proof (cases "sessions st agent")
  case (Some sid)
  obtain ok s2 where s: "sess_send sid (ESecretMaterialize sm) st = (ok, s2)" by fastforce
  with assms Some have "st' = s2" "e = (if ok then None else Some SendFailed)"
    by (auto simp: SendSecretMaterialize_def split: bool.splits)
  with sess_send_fields [OF s] Some show ?thesis by (cases ok) auto
qed (use assms in \<open>auto simp: SendSecretMaterialize_def\<close>)

text \<open>Every way \<open>Materialize\<close> can end.\<close>

definition sends_secret :: "crypto \<Rightarrow> manager \<Rightarrow> string \<Rightarrow> string \<Rightarrow> secret_srv \<Rightarrow> nat \<Rightarrow> pbSecretMaterialize \<Rightarrow> bool" where
  "sends_secret C mg agent name st sid sm \<longleftrightarrow>
     sessions (ss_srv st) agent = Some sid \<and>
     (\<exists>sec sv plaintext agentPub st1.
        materialize_checks C mg agent name st = Inr (sec, sv, plaintext, agentPub) \<and>
        seal_for C agentPub name (sv_Version sv) plaintext (se_OfflineTTL sec) st = (Inr sm, st1))"

lemma Materialize_cases:
  assumes "Materialize C mg now agent name ref st = (r, st')"
  obtains e where "r = Inl e" "sent (ss_srv st') = sent (ss_srv st)" "sessions (ss_srv st') = sessions (ss_srv st)"
      "ss_secrets st' = ss_secrets st" "ss_versions st' = ss_versions st"
    | sid sm where "r = Inr (sm_Version sm)" "sends_secret C mg agent name st sid sm" "sm_Ref sm = name"
      "sent (ss_srv st') = sent (ss_srv st) @ [(sid, ESecretMaterialize sm)]"
      "sessions (ss_srv st') = sessions (ss_srv st)"
      "ss_secrets st' = ss_secrets st" "ss_versions st' = ss_versions st"
proof (cases "materialize_checks C mg agent name st")
  case (Inl e)
  with assms have "r = Inl e" "st' = st" by (simp_all add: Materialize_def)
  with that(1) show thesis by simp
next
  case (Inr x)
  then obtain sec sv p pub where x: "materialize_checks C mg agent name st = Inr (sec, sv, p, pub)" by (cases x) auto
  obtain q st1 where q: "seal_for C pub name (sv_Version sv) p (se_OfflineTTL sec) st = (q, st1)" by fastforce
  note f = seal_for_fields [OF q]
  show thesis
  proof (cases q)
    case (Inl e)
    with assms x q have "r = Inl e" "st' = st1" by (simp_all add: Materialize_def)
    with f that(1) show thesis by simp
  next
    case (Inr sm)
    note v = seal_for_Inr [OF q [unfolded Inr]]
    obtain e s2 where s: "SendSecretMaterialize agent sm (ss_srv st1) = (e, s2)" by fastforce
    note c = SendSecretMaterialize_cases [OF s]
    show thesis
    proof (cases e)
      case None
      with c f obtain sid where sid: "sessions (ss_srv st) agent = Some sid"
        "sent s2 = sent (ss_srv st) @ [(sid, ESecretMaterialize sm)]" "sessions s2 = sessions (ss_srv st)" by auto
      have "st' = materialized mg now agent name ref (se_ID sec) (sv_Version sv) (st1\<lparr>ss_srv := s2\<rparr>)"
        "r = Inr (sv_Version sv)"
        using assms x q Inr s None by (simp_all add: Materialize_def)
      moreover have "sends_secret C mg agent name st sid sm"
        using x q Inr sid(1) unfolding sends_secret_def by blast
      ultimately show thesis using that(2) [of sm sid] v f sid by (simp add: materialized_fields)
    next
      case (Some e')
      have "r = Inl (SecretSend e')" "st' = st1\<lparr>ss_srv := s2\<rparr>"
        using assms x q Inr s Some by (simp_all add: Materialize_def)
      with c f Some that(1) show thesis by simp
    qed
  qed
qed

definition warm_agent :: "secret_srv \<Rightarrow> string \<Rightarrow> string \<Rightarrow> bool" where
  "warm_agent st agent name \<longleftrightarrow>
     (\<exists>sid sm. sessions (ss_srv st) agent = Some sid \<and> (sid, ESecretMaterialize sm) \<in> set (sent (ss_srv st)) \<and>
        sm_Ref sm = name)"

interpretation mg_mat: materializer "Materialize C mg now" warm_agent for C mg now
proof unfold_locales
  fix agent name ref s v s'
  assume "Materialize C mg now agent name ref s = (Inr v, s')"
  then show "warm_agent s' agent name"
    by (rule Materialize_cases) (auto simp: warm_agent_def sends_secret_def)
next
  fix s a n agent name ref r s'
  assume "warm_agent s a n" "Materialize C mg now agent name ref s = (r, s')"
  then show "warm_agent s' a n"
    by (auto elim!: Materialize_cases simp: warm_agent_def)
qed

text \<open>
  A secret leaves the server only for a host its selector resolves to and that has a session: then
  exactly one envelope goes out on that session, it names the secret and carries the number of its
  active version.  When \<open>Materialize\<close> reports an error, nothing was sent.
\<close>
theorem materialize_only_bound:
  assumes "Materialize C mg now agent name ref st = (r, st')"
  shows "(case r of
      Inl e \<Rightarrow> sent (ss_srv st') = sent (ss_srv st)
    | Inr v \<Rightarrow> \<exists>sid sm sec hs sv. sent (ss_srv st') = sent (ss_srv st) @ [(sid, ESecretMaterialize sm)] \<and>
        sessions (ss_srv st) agent = Some sid \<and> sm_Ref sm = name \<and> sm_Version sm = v \<and>
        GetSecret name st = Some sec \<and> resolve_hosts (se_Selector sec) st = Inr hs \<and> agent \<in> set hs \<and>
        GetLatestSecretVersion (se_ID sec) st = Some sv \<and> sv_Version sv = v)"
  using assms
proof (cases rule: Materialize_cases)
  case (2 sid sm)
  then obtain sec sv p pub st1 where x: "materialize_checks C mg agent name st = Inr (sec, sv, p, pub)"
    "seal_for C pub name (sv_Version sv) p (se_OfflineTTL sec) st = (Inr sm, st1)" "sessions (ss_srv st) agent = Some sid"
    by (auto simp: sends_secret_def)
  from materialize_checks_Inr(2) [OF x(1)] obtain hs where "resolve_hosts (se_Selector sec) st = Inr hs" "agent \<in> set hs"
    by blast
  with 2 materialize_checks_Inr(1,3) [OF x(1)] seal_for_Inr [OF x(2)] x(3) show ?thesis by auto
qed simp

text \<open>
  A run whose steps name secrets is prepared only when every one of them reached the agent's stream:
  if \<open>MaterializeForRun\<close> over the references of the steps succeeds, then each value of a step that is a
  reference with a name is covered by an envelope on the agent's current session.
\<close>
theorem run_secrets_delivered:
  assumes "MaterializeForRun (Some (Materialize C mg now)) agent ref (StepSecretRefs steps) st = (None, st')"
    and "s \<in> set steps" "v \<in> set (scanned_values s)" "ParseSecretRef v = (name, True)"
  shows "warm_agent st' agent name"
proof -
  have keep: "x \<in> set ns \<Longrightarrow> x \<in> set (fold add_ref vs ns)" for x vs ns
    by (induction vs arbitrary: ns) (auto simp: add_ref_def split: prod.splits)
  have found: "name \<in> set (fold add_ref vs ns)" if "v \<in> set vs" for vs ns
    using that
  proof (induction vs arbitrary: ns)
    case (Cons w vs)
    have "name \<in> set (add_ref v ns)" using assms(4) by (auto simp: add_ref_def)
    with Cons keep show ?case by auto
  qed simp
  have "v \<in> set (concat (map scanned_values steps))" using assms(2,3) by auto
  then have "name \<in> set (StepSecretRefs steps)" unfolding StepSecretRefs_def by (rule found)
  with assms(1) show ?thesis by (rule mg_mat.run_warms)
qed

section \<open>The versions of a secret\<close>

text \<open>
  The versions of a secret are numbered from 1, the numbers in use are consecutive, and only the
  newest may be active.  Every operation of the manager keeps this.
\<close>

definition secret_inv :: "secret_srv \<Rightarrow> bool" where
  "secret_inv st \<longleftrightarrow> keyed se_ID (ss_secrets st) \<and>
     sv_SecretID ` set (ss_versions st) \<subseteq> se_ID ` set (ss_secrets st) \<and>
     (\<forall>i. map sv_Version (versions_of i st) = [1..int (length (versions_of i st))] \<and>
          (\<forall>v \<in> set (versions_of i st). \<not> sv_Revoked v \<longrightarrow> sv_Version v = int (length (versions_of i st))))"

lemma fold_max_upto: "fold max [1..int n] 0 = int n"
proof (induction n)
  case (Suc n)
  have "[1..int (Suc n)] = [1..int n] @ [int (Suc n)]" using upto_rec2 [of 1 "int (Suc n)"] by simp
  with Suc show ?case by simp
qed simp

lemma next_version_eq: "secret_inv st \<Longrightarrow> next_version i st = int (length (versions_of i st)) + 1"
  unfolding next_version_def secret_inv_def using fold_max_upto by metis

lemma secret_inv_cong:
  "ss_secrets st' = ss_secrets st \<Longrightarrow> ss_versions st' = ss_versions st \<Longrightarrow> secret_inv st' = secret_inv st"
  by (simp add: secret_inv_def versions_of_def)

lemma secret_inv_secrets:
  assumes "secret_inv st" "map se_ID (ss_secrets st') = map se_ID (ss_secrets st)" "ss_versions st' = ss_versions st"
  shows "secret_inv st'"
proof -
  have "se_ID ` set (ss_secrets st') = se_ID ` set (ss_secrets st)" using assms(2) by (metis list.set_map)
  with assms show ?thesis by (simp add: secret_inv_def versions_of_def keyed_def)
qed

lemma secret_inv_audit [simp]: "secret_inv (secret_audit mg now k i v ag ref actor name st) = secret_inv st"
  by (rule secret_inv_cong) (simp_all add: secret_audit_def)

lemma secret_inv_touch: "secret_inv st \<Longrightarrow> secret_inv (touch_secret now i st)"
  by (rule secret_inv_secrets) (simp_all add: touch_secret_def map_key_sql_update)

lemma secret_inv_create:
  assumes "secret_inv st" "store_CreateSecret now sec v1 st = Inr st'"
  shows "secret_inv st'"
proof -
  from assms(2) have new: "se_ID sec \<notin> se_ID ` set (ss_secrets st)"
    and st': "\<exists>sec'. se_ID sec' = se_ID sec \<and> ss_secrets st' = ss_secrets st @ [sec']"
      "ss_versions st' = ss_versions st @ [v1\<lparr>sv_SecretID := se_ID sec, sv_Revoked := False\<rparr>]"
      "sv_Version v1 = 1"
    by (auto simp: store_CreateSecret_def Let_def split: if_splits)
  from new assms(1) have none: "versions_of (se_ID sec) st = []"
    unfolding secret_inv_def versions_of_def filter_empty_conv by (metis image_eqI subsetD)
  have "versions_of i st' = (if i = se_ID sec then [v1\<lparr>sv_SecretID := se_ID sec, sv_Revoked := False\<rparr>] else versions_of i st)" for i
    using none st'(2) by (auto simp: versions_of_def)
  with assms(1) new st' show ?thesis by (auto simp: secret_inv_def keyed_def)
qed

text \<open>A flag update does not move versions between secrets.\<close>

lemma versions_of_update:
  assumes "ss_versions st' = sql_update p f (ss_versions st)" "\<And>v. p v \<Longrightarrow> sv_SecretID (f v) = sv_SecretID v"
  shows "versions_of i st' = sql_update p f (versions_of i st)"
proof -
  have "filter (\<lambda>v. sv_SecretID v = i) (sql_update p f vs) = sql_update p f (filter (\<lambda>v. sv_SecretID v = i) vs)" for vs
    using assms(2) by (induction vs) (auto simp: sql_update_def)
  with assms(1) show ?thesis by (simp add: versions_of_def)
qed

lemma version_range:
  assumes "secret_inv st" "v \<in> set (versions_of i st)"
  shows "1 \<le> sv_Version v" "sv_Version v < next_version i st"
proof -
  have "sv_Version v \<in> set (map sv_Version (versions_of i st))" using assms(2) by simp
  also have "\<dots> = {1..int (length (versions_of i st))}" using assms(1) by (simp add: secret_inv_def del: set_map)
  finally show "1 \<le> sv_Version v" "sv_Version v < next_version i st"
    using next_version_eq [OF assms(1)] by simp_all
qed

lemma rotate_versions:
  assumes "secret_inv st" "store_RotateSecret now i ct st = (Inr n, st')"
  obtains new where "versions_of i st' = map (\<lambda>v. v\<lparr>sv_Revoked := True\<rparr>) (versions_of i st) @ [new]"
    "sv_Ciphertext new = ct" "sv_Version new = n" "\<not> sv_Revoked new" "n = next_version i st"
    "\<And>j. j \<noteq> i \<Longrightarrow> versions_of j st' = versions_of j st" "ss_srv st' = ss_srv st"
    "map se_ID (ss_secrets st') = map se_ID (ss_secrets st)" "map se_Name (ss_secrets st') = map se_Name (ss_secrets st)"
    "i \<in> se_ID ` set (ss_secrets st)" "sv_SecretID ` set (ss_versions st') = insert i (sv_SecretID ` set (ss_versions st))"
proof -
  obtain vid st1 where d: "id_New ''secv'' st = (vid, st1)" by fastforce
  have f: "ss_secrets st1 = ss_secrets st" "ss_versions st1 = ss_versions st" "ss_srv st1 = ss_srv st"
    using id_New_fields(1-3) [of "''secv''" st] d by simp_all
  let ?p = "\<lambda>v. sv_SecretID v = i \<and> sv_Version v < n"
  let ?f = "\<lambda>v. v\<lparr>sv_Revoked := True\<rparr>"
  let ?new = "\<lparr>sv_ID = vid, sv_SecretID = i, sv_Version = n, sv_Ciphertext = ct, sv_Created = now, sv_Revoked = False\<rparr>"
  from assms(2) d f have i: "i \<in> se_ID ` set (ss_secrets st)" and n: "n = next_version i st"
    and st': "st' = touch_secret now i (st1\<lparr>ss_versions := sql_update ?p ?f (ss_versions st @ [?new])\<rparr>)"
    by (auto simp: store_RotateSecret_def Let_def split: if_splits)
  have vs: "ss_versions st' = sql_update ?p ?f (ss_versions st @ [?new])"
    and sec: "map se_ID (ss_secrets st') = map se_ID (ss_secrets st)" "map se_Name (ss_secrets st') = map se_Name (ss_secrets st)"
    by (simp_all add: st' touch_secret_def map_key_sql_update f)
  have vo: "versions_of j st' = sql_update ?p ?f (versions_of j st @ (if j = i then [?new] else []))" for j
    using versions_of_update [of st' ?p ?f "st\<lparr>ss_versions := ss_versions st @ [?new]\<rparr>" j] vs
    by (simp add: versions_of_def)
  have "\<forall>v \<in> set (versions_of i st). ?p v"
    using version_range(2) [OF assms(1)] n by (auto simp: versions_of_def)
  then have "versions_of i st' = map ?f (versions_of i st) @ [?new]" by (simp add: vo sql_update_def)
  moreover have "versions_of j st' = versions_of j st" if "j \<noteq> i" for j
  proof -
    have "\<forall>v \<in> set (versions_of j st). \<not> ?p v" using that by (auto simp: versions_of_def)
    then have "sql_update ?p ?f (versions_of j st) = versions_of j st"
      unfolding sql_update_def by (intro map_idI) auto
    with that show ?thesis by (simp add: vo)
  qed
  moreover have "sv_SecretID ` set (ss_versions st') = insert i (sv_SecretID ` set (ss_versions st))"
    unfolding vs by (subst image_sql_update) auto
  moreover have "ss_srv st' = ss_srv st" by (simp add: st' touch_secret_def f)
  ultimately show thesis using that [of ?new] n sec i by simp
qed

lemma secret_inv_rotate:
  assumes "secret_inv st" "store_RotateSecret now i ct st = (Inr n, st')"
  shows "secret_inv st'"
proof -
  from assms obtain new where r: "versions_of i st' = map (\<lambda>v. v\<lparr>sv_Revoked := True\<rparr>) (versions_of i st) @ [new]"
    "sv_Version new = n" "n = next_version i st" "\<And>j. j \<noteq> i \<Longrightarrow> versions_of j st' = versions_of j st"
    "map se_ID (ss_secrets st') = map se_ID (ss_secrets st)" "i \<in> se_ID ` set (ss_secrets st)"
    "sv_SecretID ` set (ss_versions st') = insert i (sv_SecretID ` set (ss_versions st))"
    by (rule rotate_versions) blast
  note n = next_version_eq [OF assms(1), of i]
  have ids: "se_ID ` set (ss_secrets st') = se_ID ` set (ss_secrets st)" using r(5) by (metis list.set_map)
  have up: "[1..int (length (versions_of i st)) + 1] = [1..int (length (versions_of i st))] @ [n]"
    using n r(3) upto_rec2 [of 1 "int (length (versions_of i st)) + 1"] by simp
  have "map sv_Version (versions_of j st') = [1..int (length (versions_of j st'))] \<and>
      (\<forall>v \<in> set (versions_of j st'). \<not> sv_Revoked v \<longrightarrow> sv_Version v = int (length (versions_of j st')))" for j
  proof (cases "j = i")
    case True
    have "map sv_Version (versions_of i st) = [1..int (length (versions_of i st))]"
      using assms(1) by (simp add: secret_inv_def)
    then show ?thesis using True up n r(1-3) by (auto simp: comp_def add.commute)
  next
    case False
    then show ?thesis using assms(1) r(4) by (simp add: secret_inv_def)
  qed
  then show ?thesis using assms(1) r ids by (auto simp: secret_inv_def keyed_def)
qed

lemma store_RotateSecret_Inl:
  assumes "store_RotateSecret now i ct st = (Inl e, st')"
  shows "ss_secrets st' = ss_secrets st \<and> ss_versions st' = ss_versions st \<and> ss_srv st' = ss_srv st"
proof -
  obtain vid st1 where d: "id_New ''secv'' st = (vid, st1)" by fastforce
  have "st' = st \<or> st' = st1" using assms d by (auto simp: store_RotateSecret_def Let_def split: if_splits)
  with id_New_fields [of "''secv''" st] d show ?thesis by auto
qed

lemma secret_inv_RotateSecret: "secret_inv st \<Longrightarrow> secret_inv (snd (RotateSecret C mg now name vl actor st))"
proof -
  assume inv: "secret_inv st"
  obtain nonce st1 where d: "draw 12 st = (nonce, st1)" by fastforce
  have i1: "secret_inv st1" using inv draw_fields(2,3) [of 12 st] d by (metis secret_inv_cong snd_conv)
  have "secret_inv st2" if "store_RotateSecret now i ct st1 = (r, st2)" for i ct r st2
  proof (cases r)
    case (Inl e)
    with i1 that store_RotateSecret_Inl show ?thesis by (metis secret_inv_cong)
  next
    case (Inr n)
    with i1 that show ?thesis by (auto intro: secret_inv_rotate)
  qed
  then show ?thesis using inv i1 d
    by (auto simp: RotateSecret_def split: option.splits prod.splits sum.splits)
qed

lemma secret_inv_CreateSecret: "secret_inv st \<Longrightarrow> secret_inv (snd (CreateSecret C mg now name vl sel ttl actor st))"
proof -
  assume inv: "secret_inv st"
  obtain secID st1 where 1: "id_New ''sec'' st = (secID, st1)" by fastforce
  obtain nonce st2 where 2: "draw 12 st1 = (nonce, st2)" by fastforce
  obtain vid st3 where 3: "id_New ''secv'' st2 = (vid, st3)" by fastforce
  have "secret_inv st2 = secret_inv st" "secret_inv st3 = secret_inv st"
    using id_New_fields(2,3) [of "''sec''" st] draw_fields(2,3) [of 12 st1] id_New_fields(2,3) [of "''secv''" st2] 1 2 3
    by (auto intro!: secret_inv_cong)
  with inv 1 2 3 show ?thesis
    by (auto simp: CreateSecret_def Let_def split: if_splits sum.splits option.splits dest: secret_inv_create)
qed

lemma secret_inv_RevokeSecret: "secret_inv st \<Longrightarrow> secret_inv (snd (RevokeSecret mg now name actor st))"
proof -
  assume inv: "secret_inv st"
  have "secret_inv st1" if "store_RevokeSecretVersion now i n st = Inr st1" for i n st1
  proof -
    let ?p = "\<lambda>v. sv_SecretID v = i \<and> sv_Version v = n \<and> \<not> sv_Revoked v"
    let ?s = "st\<lparr>ss_versions := sql_update ?p (\<lambda>v. v\<lparr>sv_Revoked := True\<rparr>) (ss_versions st)\<rparr>"
    have vo: "versions_of j ?s = sql_update ?p (\<lambda>v. v\<lparr>sv_Revoked := True\<rparr>) (versions_of j st)" for j
      by (rule versions_of_update) simp_all
    have "sv_SecretID ` set (ss_versions ?s) = sv_SecretID ` set (ss_versions st)"
      by simp (rule image_sql_update, simp)
    with inv have "secret_inv ?s"
      unfolding secret_inv_def vo by (auto simp: map_key_sql_update set_sql_update split: if_splits)
    with that show ?thesis
      by (auto simp: store_RevokeSecretVersion_def Let_def secret_inv_touch split: if_splits)
  qed
  with inv show ?thesis by (auto simp: RevokeSecret_def split: option.splits sum.splits)
qed

lemma secret_inv_UpdateMeta: "secret_inv st \<Longrightarrow> secret_inv (snd (UpdateMeta mg now name sel ttl actor st))"
proof -
  assume inv: "secret_inv st"
  have "secret_inv st1" if "store_UpdateSecretMeta now x sl t st = Inr st1" for x sl t st1
    using inv by (rule secret_inv_secrets)
      (use that in \<open>auto simp: store_UpdateSecretMeta_def map_key_sql_update split: if_splits\<close>)
  with inv show ?thesis
    by (auto simp: UpdateMeta_def split: option.splits sum.splits)
qed

lemma secret_inv_DeleteSecret: "secret_inv st \<Longrightarrow> secret_inv (snd (DeleteSecret mg now name actor st))"
proof -
  assume inv: "secret_inv st"
  have "secret_inv st1" if del: "store_DeleteSecret x st = Inr st1" for x st1
  proof -
    let ?gone = "se_ID ` set (filter (secret_named x) (ss_secrets st))"
    from del have s1: "ss_secrets st1 = sql_delete (secret_named x) (ss_secrets st)"
      "ss_versions st1 = sql_delete (\<lambda>v. sv_SecretID v \<in> ?gone) (ss_versions st)"
      by (auto simp: store_DeleteSecret_def Let_def split: if_splits)
    have vo: "versions_of i st1 = (if i \<in> ?gone then [] else versions_of i st)" for i
      unfolding versions_of_def s1(2) sql_delete_def filter_filter
      by (auto simp: filter_empty_conv intro: filter_cong)
    have "sv_SecretID ` set (ss_versions st1) \<subseteq> se_ID ` set (ss_secrets st1)"
    proof
      fix i assume "i \<in> sv_SecretID ` set (ss_versions st1)"
      then have "i \<notin> ?gone" "i \<in> se_ID ` set (ss_secrets st)"
        using inv unfolding secret_inv_def s1 by (auto simp: sql_delete_def)
      then show "i \<in> se_ID ` set (ss_secrets st1)" by (auto simp: s1 sql_delete_def)
    qed
    moreover have "keyed se_ID (ss_secrets st1)" using inv by (simp add: secret_inv_def s1 keyed_sql_delete)
    ultimately show ?thesis using inv by (simp add: secret_inv_def vo)
  qed
  with inv show ?thesis by (auto simp: DeleteSecret_def split: option.splits sum.splits)
qed

inductive secret_reach :: "crypto \<Rightarrow> manager \<Rightarrow> secret_srv \<Rightarrow> bool" for C mg where
  start: "ss_secrets st = [] \<Longrightarrow> ss_versions st = [] \<Longrightarrow> secret_reach C mg st"
| create: "secret_reach C mg st \<Longrightarrow> secret_reach C mg (snd (CreateSecret C mg now name vl sel ttl actor st))"
| rotate: "secret_reach C mg st \<Longrightarrow> secret_reach C mg (snd (RotateSecret C mg now name vl actor st))"
| revoke: "secret_reach C mg st \<Longrightarrow> secret_reach C mg (snd (RevokeSecret mg now name actor st))"
| meta: "secret_reach C mg st \<Longrightarrow> secret_reach C mg (snd (UpdateMeta mg now name sel dt actor st))"
| remove: "secret_reach C mg st \<Longrightarrow> secret_reach C mg (snd (DeleteSecret mg now name actor st))"
| deliver: "secret_reach C mg st \<Longrightarrow> secret_reach C mg (snd (Materialize C mg now agent name ref st))"
| other: "secret_reach C mg st \<Longrightarrow> secret_reach C mg (st\<lparr>ss_srv := s\<rparr>)"

lemma secret_reach_inv: "secret_reach C mg st \<Longrightarrow> secret_inv st"
proof (induction rule: secret_reach.induct)
  case (start st)
  then show ?case by (simp add: secret_inv_def versions_of_def keyed_def)
next
  case (deliver st now agent name ref)
  obtain r st' where m: "Materialize C mg now agent name ref st = (r, st')" by fastforce
  then have "ss_secrets st' = ss_secrets st" "ss_versions st' = ss_versions st" by (auto elim!: Materialize_cases)
  with deliver m show ?case by (simp add: secret_inv_cong [of st' st])
next
  case (other st s)
  then show ?case by (simp add: secret_inv_def versions_of_def)
qed (simp_all add: secret_inv_CreateSecret secret_inv_RotateSecret secret_inv_RevokeSecret secret_inv_UpdateMeta
    secret_inv_DeleteSecret)

text \<open>
  C24: In every state the manager can reach, the versions of a secret are numbered 1, 2, 3, \<dots> in the
  order they were stored, and at most the newest of them is active: what \<open>GetLatestSecretVersion\<close> finds is
  the last version stored, and once that one is revoked nothing older comes back.
\<close>
theorem newest_version_only:
  assumes "secret_reach C mg st"
  shows "map sv_Version (versions_of i st) = [1..int (length (versions_of i st))] \<and>
    GetLatestSecretVersion i st =
      (if versions_of i st = [] \<or> sv_Revoked (last (versions_of i st)) then None else Some (last (versions_of i st)))"
proof -
  let ?vs = "versions_of i st"
  have inv: "map sv_Version ?vs = [1..int (length ?vs)]" "\<forall>v \<in> set ?vs. \<not> sv_Revoked v \<longrightarrow> sv_Version v = int (length ?vs)"
    using secret_reach_inv [OF assms] by (simp_all add: secret_inv_def)
  have "filter (\<lambda>v. \<not> sv_Revoked v) ?vs = (if sv_Revoked (last ?vs) then [] else [last ?vs])" if ne: "?vs \<noteq> []"
  proof -
    obtain us u where u: "?vs = us @ [u]" using ne by (metis append_butlast_last_id)
    have "map sv_Version us @ [sv_Version u] = [1..int (length us)] @ [int (length us) + 1]"
      using inv(1) upto_rec2 [of 1 "int (length us) + 1"] by (simp add: u add.commute)
    then have "map sv_Version us = [1..int (length us)]" by simp
    then have "sv_Version v \<le> int (length us)" if "v \<in> set us" for v
      using that by (metis atLeastAtMost_iff in_set_conv_nth length_map nth_map nth_mem set_upto)
    then have "filter (\<lambda>v. \<not> sv_Revoked v) us = []" using inv(2) by (force simp: u filter_empty_conv)
    then show ?thesis by (simp add: u)
  qed
  then show ?thesis using inv(1)
    by (cases "?vs = []"; cases "sv_Revoked (last ?vs)") (simp_all add: GetLatestSecretVersion_def)
qed

section \<open>The master key survives a restart only by chance\<close>

text \<open>
  A key file may hold raw bytes, but it is read through \<open>strings.TrimSpace\<close>.
\<close>

lemma key_bytes_raw:
  assumes "crypto_laws C" "length k = 32"
  shows "key_bytes C k = Inr k"
proof -
  have "length d \<noteq> 32" if "cy_unb64 C k = Some d" for d
  proof
    assume "length d = 32"
    moreover have "4 * length d \<le> 3 * length k" using assms(1) that unfolding crypto_laws_def by blast
    ultimately show False using assms(2) by simp
  qed
  then show ?thesis using assms(2) by (auto simp: key_bytes_def split: option.split)
qed

text \<open>
  A master key made by \<open>BootstrapKey\<close> can be read back after a restart exactly when none of its
  random bytes form white space at either end.  Otherwise the next start either refuses the file because
  the key is too short, or - when the trimmed text happens to be the base64 of 32 bytes - takes another key.
\<close>
theorem bootstrap_key_reload:
  assumes "crypto_laws C" "files path = None" "length rnd = 32" "BootstrapKey C rnd files path = (r, files')"
  shows "r = Inr rnd \<and> (loadKeyFile C files' path = Inr rnd \<longleftrightarrow> trim_space rnd = rnd)"
proof -
  have b: "r = Inr rnd" "files' = files(path \<mapsto> \<lparr>kf_perm = 384, kf_bytes = Some rnd\<rparr>)"
    using assms(2,4) by (simp_all add: BootstrapKey_def loadKeyFile_def)
  have load: "loadKeyFile C files' path = key_bytes C (trim_space rnd)" by (simp add: b loadKeyFile_def)
  have "trim_space rnd = rnd" if "key_bytes C (trim_space rnd) = Inr rnd"
  proof -
    have short: "length (trim_space rnd) \<le> 32" using length_trim_space [of rnd] assms(3) by simp
    have "length d \<noteq> 32" if "cy_unb64 C (trim_space rnd) = Some d" for d
    proof
      assume "length d = 32"
      moreover have "4 * length d \<le> 3 * length (trim_space rnd)"
        using assms(1) that unfolding crypto_laws_def by blast
      ultimately show False using short by simp
    qed
    with that show ?thesis by (auto simp: key_bytes_def Let_def split: option.splits if_splits)
  qed
  with b(1) load key_bytes_raw [OF assms(1,3)] show ?thesis by auto
qed

text \<open>A box that encrypts nothing satisfies the laws, so it can stand in for the primitives in the samples.\<close>

definition plain_crypto :: crypto where
  "plain_crypto = \<lparr>cy_mult = (\<lambda>a b. replicate 32 CHR ''s''), cy_base = (\<lambda>a. replicate 32 CHR ''p''),
     cy_hkdf = (\<lambda>k s i. replicate 32 CHR ''k''), cy_seal = (\<lambda>k n p. p), cy_open = (\<lambda>k n c. Some c),
     cy_b64 = (\<lambda>s. s @ replicate (length s) CHR ''=''),
     cy_unb64 = (\<lambda>s. if even (length s) \<and> drop (length s div 2) s = replicate (length s div 2) CHR ''=''
                     then Some (take (length s div 2) s) else None)\<rparr>"

lemma plain_crypto_laws: "crypto_laws plain_crypto"
proof -
  have "4 * (length s div 2) \<le> 3 * length s" for s :: string by presburger
  then show ?thesis by (simp add: crypto_laws_def plain_crypto_def)
qed

theorem bootstrap_key_reload_witness:
  "loadKeyFile plain_crypto (snd (BootstrapKey plain_crypto (CHR 0x0A # replicate 31 CHR ''k'') Map.empty ''key'')) ''key''
     \<noteq> Inr (CHR 0x0A # replicate 31 CHR ''k'')"
proof -
  let ?k = "CHR 0x0A # replicate 31 CHR ''k''"
  obtain r files' where b: "BootstrapKey plain_crypto ?k Map.empty ''key'' = (r, files')" by fastforce
  have "trim_space ?k \<noteq> ?k" by code_simp
  with bootstrap_key_reload [OF plain_crypto_laws _ _ b] b show ?thesis by simp
qed

section \<open>Samples\<close>

definition host_row :: "string \<Rightarrow> string \<Rightarrow> Agent" where
  "host_row i key = \<lparr>a_ID = i, a_UUID = i, a_ED25519Pub = [], a_X25519Pub = key, a_TlsPub = [], a_TlsNotAfter = 0,
     a_Version = [], a_State = ''connected'', a_FirstSeen = 0, a_LastSeen = 0, a_Created = 0\<rparr>"

definition mgr1 :: manager where
  "mgr1 = \<lparr>mg_master = replicate 32 CHR ''m'', mg_digest = ''d''\<rparr>"

definition counted :: "nat \<Rightarrow> nat \<Rightarrow> string" where
  "counted k n = replicate n (char_of (65 + k))"

definition vault0 :: secret_srv where
  "vault0 = \<lparr>ss_srv = (init_server (\<lambda>_. True))
       \<lparr>hosts := empty_db\<lparr>agents := [host_row ''h1'' (cy_b64 plain_crypto (replicate 32 CHR ''p''))]\<rparr>,
        sessions := [''h1'' \<mapsto> 1]\<rparr>,
     ss_secrets = [], ss_versions = [], ss_bindings = [], ss_rand = counted, ss_reads = 0\<rparr>"

definition vault1 :: secret_srv where
  "vault1 = snd (CreateSecret plain_crypto mgr1 7 ''db'' ''pw1'' [] 60 ''root'' vault0)"

lemmas vault_defs = CreateSecret_def MaxValue_def GetSecret_def vault0_def mgr1_def id_New_def draw_def Seal_def
  KeyFor_def DeriveKey_def plain_crypto_def store_CreateSecret_def secret_audit_def append_audit_def counted_def
  Let_def

lemma name_db [simp]: "validName ''db''"
  by code_simp

lemma vault1_eq:
  "\<exists>sec. CreateSecret plain_crypto mgr1 7 ''db'' ''pw1'' [] 60 ''root'' vault0 = (Inr sec, vault1) \<and> se_Name sec = ''db''"
  by (simp add: vault1_def vault_defs)

text \<open>A secret whose selector matches no host yet can be created, but is then neither listed nor readable.\<close>

lemma unmatched_secret_hidden:
  "(case CreateSecret plain_crypto mgr1 7 ''db'' ''pw1'' ''tag:env=prod'' 60 ''root'' vault0 of (r, st) \<Rightarrow>
     is_ok r \<and> \<not> is_ok (Get_view ''db'' st) \<and> List_views st = [])"
proof -
  have "is_ok (Parse ''tag:env=prod'')" by code_simp
  then obtain ps where p: "Parse ''tag:env=prod'' = Inr ps" by (auto simp: is_ok_iff)
  have "\<not> is_ok (ResolveSelector (hosts (ss_srv vault0)) ''tag:env=prod'')" by code_simp
  then obtain e where r: "ResolveSelector (hosts (ss_srv vault0)) ''tag:env=prod'' = Inl e"
    by (cases "ResolveSelector (hosts (ss_srv vault0)) ''tag:env=prod''") auto
  from p r show ?thesis
    by (auto simp: vault_defs Get_view_def List_views_def view_of_def resolve_hosts_def secret_named_def
        ListSecrets_def List.map_filter_def)
qed

lemma vault_all: "resolve_hosts [] vault1 = Inr [''h1'']"
proof -
  have "is_ok (ResolveSelector (hosts (ss_srv vault0)) ''all'') \<and>
    (case ResolveSelector (hosts (ss_srv vault0)) ''all'' of Inl e \<Rightarrow> False | Inr hs \<Rightarrow> map ID hs = [''h1''])"
    by code_simp
  then have "resolve_hosts [] vault0 = Inr [''h1'']" by (auto simp: resolve_hosts_def split: sum.splits)
  then show ?thesis by (simp add: vault1_def vault_defs resolve_hosts_def)
qed

lemma vault1_row:
  "ss_secrets vault1 = [\<lparr>se_ID = ''sec_414141414141'', se_Name = ''db'', se_Selector = [], se_OfflineTTL = 60,
     se_Created = 7, se_Updated = 7\<rparr>]"
  "\<exists>v. ss_versions vault1 = [v] \<and> sv_SecretID v = ''sec_414141414141'' \<and> sv_Version v = 1 \<and> \<not> sv_Revoked v \<and>
     OpenKey plain_crypto (KeyFor plain_crypto (mg_master mgr1) ''sec_414141414141'') (sv_Ciphertext v) = Some ''pw1''"
  "hosts (ss_srv vault1) = empty_db\<lparr>agents := [host_row ''h1'' (cy_b64 plain_crypto (replicate 32 CHR ''p''))]\<rparr>"
  "sessions (ss_srv vault1) = [''h1'' \<mapsto> 1]" "net (ss_srv vault1) = (\<lambda>_. True)" "sent (ss_srv vault1) = []"
proof -
  have h: "hex_text (replicate 6 (char_of (65 :: nat))) = ''414141414141''" by code_simp
  show "ss_secrets vault1 = [\<lparr>se_ID = ''sec_414141414141'', se_Name = ''db'', se_Selector = [], se_OfflineTTL = 60,
     se_Created = 7, se_Updated = 7\<rparr>]"
    using h by (simp add: vault1_def vault_defs)
  show "\<exists>v. ss_versions vault1 = [v] \<and> sv_SecretID v = ''sec_414141414141'' \<and> sv_Version v = 1 \<and> \<not> sv_Revoked v \<and>
     OpenKey plain_crypto (KeyFor plain_crypto (mg_master mgr1) ''sec_414141414141'') (sv_Ciphertext v) = Some ''pw1''"
    using h by (simp add: vault1_def vault_defs OpenKey_def)
qed (simp_all add: vault1_def vault_defs init_server_def)

lemma vault1_sends:
  "\<exists>st'. Materialize plain_crypto mgr1 8 ''h1'' ''db'' ''tr1'' vault1 = (Inr 1, st')"
proof -
  obtain v where v: "ss_versions vault1 = [v]" "sv_SecretID v = ''sec_414141414141''" "sv_Version v = 1" "\<not> sv_Revoked v"
    "OpenKey plain_crypto (KeyFor plain_crypto (mg_master mgr1) ''sec_414141414141'') (sv_Ciphertext v) = Some ''pw1''"
    using vault1_row(2) by blast
  have c: "materialize_checks plain_crypto mgr1 ''h1'' ''db'' vault1 =
      Inr (hd (ss_secrets vault1), v, ''pw1'', replicate 32 CHR ''p'')"
    using v vault_all
    by (simp add: materialize_checks_def GetSecret_def secret_named_def vault1_row Agent_get_def sql_get_def
        GetLatestSecretVersion_def versions_of_def host_row_def) (simp add: plain_crypto_def)
  show ?thesis
    by (simp add: Materialize_def c vault1_row v seal_for_def draw_def NewKeyPairX25519_def X25519_def clamp_key_def
        Seal_def E2EKey_def DeriveKey_def SendSecretMaterialize_def sess_send_def Let_def)
      (simp add: plain_crypto_def vault1_def vault_defs)
qed

theorem materialize_only_bound_witness:
  "\<exists>st' sid sm. Materialize plain_crypto mgr1 8 ''h1'' ''db'' ''tr1'' vault1 = (Inr 1, st') \<and>
     sent (ss_srv st') = sent (ss_srv vault1) @ [(sid, ESecretMaterialize sm)] \<and> sm_Ref sm = ''db''"
proof -
  obtain st' where m: "Materialize plain_crypto mgr1 8 ''h1'' ''db'' ''tr1'' vault1 = (Inr 1, st')"
    using vault1_sends by blast
  from materialize_only_bound [OF m] m show ?thesis by auto
qed

definition env_step :: pbTaskStep where
  "env_step = \<lparr>s_Kind = ''command'', s_Name = [], s_When = [], s_Command = ''deploy'', s_Args = [],
     s_Env = [(''PASS'', ''secret:db'')], s_Path = [], s_Content = [], s_Template = [], s_Vars = [], s_Mode = [],
     s_Package = [], s_State = [], s_Service = [], s_User = [], s_Group = [], s_Expr = []\<rparr>"

lemma env_step_ref: "StepSecretRefs [env_step] = [''db'']" "ParseSecretRef ''secret:db'' = (''db'', True)"
  by code_simp+

theorem run_secrets_delivered_witness:
  "\<exists>st'. MaterializeForRun (Some (Materialize plain_crypto mgr1 8)) ''h1'' ''tr1'' (StepSecretRefs [env_step]) vault1
     = (None, st') \<and> warm_agent st' ''h1'' ''db''"
proof -
  obtain st' where m: "Materialize plain_crypto mgr1 8 ''h1'' ''db'' ''tr1'' vault1 = (Inr 1, st')"
    using vault1_sends by blast
  then have r: "MaterializeForRun (Some (Materialize plain_crypto mgr1 8)) ''h1'' ''tr1'' (StepSecretRefs [env_step]) vault1
     = (None, st')" by (simp add: env_step_ref MaterializeForRun_def)
  have "''secret:db'' \<in> set (scanned_values env_step)" by (simp add: scanned_values_def env_step_def)
  from run_secrets_delivered [OF r _ this env_step_ref(2)] r show ?thesis by simp
qed

theorem newest_version_only_witness:
  "GetLatestSecretVersion ''sec_414141414141'' vault1 \<noteq> None"
proof -
  have "secret_reach plain_crypto mgr1 vault1"
    unfolding vault1_def by (rule secret_reach.create, rule secret_reach.start) (simp_all add: vault0_def)
  from newest_version_only [OF this, of "''sec_414141414141''"] vault1_row(2) show ?thesis
    by (auto simp: versions_of_def)
qed

end
