(* ===== verification/SecretCache.thy ===== *)
theory SecretCache
  imports Secrets
begin

text \<open>
  The agent's cache of materialised secrets (\<open>src/internal/agent/secrets/secrets.go\<close>): the values in
  memory, the sealed forms in the cache file, and what a process that starts again finds there.  Times
  are in nanoseconds; \<open>io\<close> says whether the write of the cache file succeeds, and the file is the map its
  JSON holds.  With the manager of theory \<open>Secrets\<close> this gives the round trip of a value.
\<close>

record mem_entry =
  me_value :: string
  me_version :: int
  me_expires :: "int option"

record cached_entry =
  ce_Version :: int
  ce_EphPubB64 :: string
  ce_SealedB64 :: string
  ce_ExpiresUnix :: int

type_synonym sealed_map = "string \<rightharpoonup> cached_entry"

datatype cache_file = NoFile | Corrupt | Holds sealed_map

record secret_cache =
  ca_mem :: "string \<rightharpoonup> mem_entry"
  ca_file :: cache_file
  ca_xpriv :: string
  ca_loaded :: sealed_map

datatype cache_error = BadPrivateKey | BadEphPub nat | DecryptRef string | PersistRef string

text \<open>The entries a predicate keeps.\<close>

definition keep_entries :: "('v \<Rightarrow> bool) \<Rightarrow> (string \<rightharpoonup> 'v) \<Rightarrow> (string \<rightharpoonup> 'v)" where
  "keep_entries p m = (\<lambda>k. case m k of None \<Rightarrow> None | Some v \<Rightarrow> if p v then Some v else None)"

definition sealed_dead :: "int \<Rightarrow> cached_entry \<Rightarrow> bool" where
  "sealed_dead t e \<longleftrightarrow> ce_ExpiresUnix e > 0 \<and> unix t > ce_ExpiresUnix e"

definition mem_dead :: "int \<Rightarrow> mem_entry \<Rightarrow> bool" where
  "mem_dead t e \<longleftrightarrow> (case me_expires e of None \<Rightarrow> False | Some x \<Rightarrow> t > x)"

definition load_cache :: "int \<Rightarrow> cache_file \<Rightarrow> sealed_map" where
  "load_cache t file =
     keep_entries (\<lambda>e. \<not> sealed_dead t e) (case file of Holds m \<Rightarrow> m | NoFile \<Rightarrow> Map.empty | Corrupt \<Rightarrow> Map.empty)"

definition New_cache :: "int \<Rightarrow> cache_file \<Rightarrow> string \<Rightarrow> cache_error + secret_cache" where
  "New_cache t file xpriv =
     (if length xpriv \<noteq> 32 then Inl BadPrivateKey
      else Inr \<lparr>ca_mem = Map.empty, ca_file = file, ca_xpriv = xpriv, ca_loaded = load_cache t file\<rparr>)"

definition write_cache :: "bool \<Rightarrow> secret_cache \<Rightarrow> secret_cache" where
  "write_cache io c = (if io then c\<lparr>ca_file := Holds (ca_loaded c)\<rparr> else c)"

text \<open>\<open>time.Duration(ttl) * time.Second\<close>: a signed 64-bit product.\<close>

definition seconds :: "int \<Rightarrow> int" where
  "seconds ttl = signed_take_bit 63 (ttl * 1000000000)"

definition open_sealed :: "crypto \<Rightarrow> string \<Rightarrow> string \<Rightarrow> string \<Rightarrow> int \<Rightarrow> string \<Rightarrow> string option" where
  "open_sealed C xpriv ephPub ref ver sealed =
     (case X25519 C xpriv ephPub of
        None \<Rightarrow> None
      | Some shared \<Rightarrow> OpenKey C (DeriveKey C shared (InfoE2E @ ref @ '':'' @ show_int ver)) sealed)"

definition Handle_secret ::
  "crypto \<Rightarrow> int \<Rightarrow> bool \<Rightarrow> pbSecretMaterialize \<Rightarrow> secret_cache \<Rightarrow> (cache_error + string) \<times> secret_cache" where
  "Handle_secret C t io sm c =
     (if length (sm_EphPub sm) \<noteq> 32 then (Inl (BadEphPub (length (sm_EphPub sm))), c)
      else
        (case open_sealed C (ca_xpriv c) (sm_EphPub sm) (sm_Ref sm) (sm_Version sm) (sm_Sealed sm) of
           None \<Rightarrow> (Inl (DecryptRef (sm_Ref sm)), c)
         | Some plaintext \<Rightarrow>
             (let expires = t + seconds (sm_CacheTtlS sm);
                  c1 = c\<lparr>ca_mem := (ca_mem c)(sm_Ref sm \<mapsto> \<lparr>me_value = plaintext, me_version = sm_Version sm,
                         me_expires = (if sm_CacheTtlS sm > 0 then Some expires else None)\<rparr>)\<rparr>
              in if sm_CacheTtlS sm > 0 then
                   (let c2 = c1\<lparr>ca_loaded := (ca_loaded c1)(sm_Ref sm \<mapsto> \<lparr>ce_Version = sm_Version sm,
                               ce_EphPubB64 = cy_b64 C (sm_EphPub sm), ce_SealedB64 = cy_b64 C (sm_Sealed sm),
                               ce_ExpiresUnix = unix expires\<rparr>)\<rparr>
                    in if io then (Inr plaintext, write_cache io c2) else (Inl (PersistRef (sm_Ref sm)), c2))
                 else (Inr plaintext, c1))))"

definition Get_secret ::
  "crypto \<Rightarrow> int \<Rightarrow> bool \<Rightarrow> string \<Rightarrow> secret_cache \<Rightarrow> string option \<times> secret_cache" where
  "Get_secret C t io ref c =
     (case ca_mem c ref of
        Some e \<Rightarrow> if mem_dead t e then (None, c) else (Some (me_value e), c)
      | None \<Rightarrow>
          (case ca_loaded c ref of
             None \<Rightarrow> (None, c)
           | Some ce \<Rightarrow>
               if unix t > ce_ExpiresUnix ce then
                 (None, write_cache io (c\<lparr>ca_loaded := (ca_loaded c)(ref := None)\<rparr>))
               else
                 (case (cy_unb64 C (ce_EphPubB64 ce), cy_unb64 C (ce_SealedB64 ce)) of
                    (Some ephPub, Some sealed) \<Rightarrow>
                      (case open_sealed C (ca_xpriv c) ephPub ref (ce_Version ce) sealed of
                         None \<Rightarrow> (None, c)
                       | Some p \<Rightarrow> (Some p, c\<lparr>ca_mem := (ca_mem c)(ref \<mapsto> \<lparr>me_value = p,
                           me_version = ce_Version ce, me_expires = Some (ce_ExpiresUnix ce * 1000000000)\<rparr>)\<rparr>))
                  | _ \<Rightarrow> (None, c))))"

definition Drop_secret :: "bool \<Rightarrow> string \<Rightarrow> secret_cache \<Rightarrow> secret_cache" where
  "Drop_secret io ref c =
     (let c1 = c\<lparr>ca_mem := (ca_mem c)(ref := None)\<rparr>
      in if ca_loaded c ref = None then c1
         else write_cache io (c1\<lparr>ca_loaded := (ca_loaded c1)(ref := None)\<rparr>))"

text \<open>The file is written when an entry was dropped.\<close>

definition Prune_cache :: "int \<Rightarrow> bool \<Rightarrow> secret_cache \<Rightarrow> secret_cache" where
  "Prune_cache t io c =
     (let c1 = c\<lparr>ca_mem := keep_entries (\<lambda>e. \<not> mem_dead t e) (ca_mem c),
                 ca_loaded := keep_entries (\<lambda>e. \<not> sealed_dead t e) (ca_loaded c)\<rparr>
      in if (\<exists>e \<in> ran (ca_mem c). mem_dead t e) \<or> (\<exists>e \<in> ran (ca_loaded c). sealed_dead t e)
         then write_cache io c1 else c1)"

section \<open>The way of a value\<close>

lemma OpenKey_Seal:
  assumes "crypto_laws C" "length nonce = 12" "Seal C key nonce p = Some ct"
  shows "OpenKey C key ct = Some p"
proof -
  have "\<forall>k n p. cy_open C k n (cy_seal C k n p) = Some p" using assms(1) by (simp add: crypto_laws_def)
  with assms(2,3) show ?thesis by (auto simp: Seal_def OpenKey_def split: if_splits)
qed

lemma length_clamp [simp]: "length (clamp_key p) = length p"
  by (simp add: clamp_key_def)

text \<open>The random source gives as many bytes as asked for.\<close>

definition source_ok :: "secret_srv \<Rightarrow> bool" where
  "source_ok st \<longleftrightarrow> (\<forall>k n. length (ss_rand st k n) = n)"

lemma length_draw: "source_ok st \<Longrightarrow> draw n st = (b, st1) \<Longrightarrow> length b = n \<and> source_ok st1"
  by (auto simp: source_ok_def draw_def)

text \<open>What was sealed for the key pair of an agent opens there.\<close>

lemma seal_for_opens:
  assumes "crypto_laws C" "source_ok st" "length priv = 32"
    and "seal_for C (cy_base C priv) name ver p ttl st = (Inr sm, st1)"
  shows "length (sm_EphPub sm) = 32 \<and> open_sealed C priv (sm_EphPub sm) name ver (sm_Sealed sm) = Some p"
proof -
  obtain rnd st2 where d1: "draw 32 st = (rnd, st2)" by fastforce
  obtain nonce st3 where d2: "draw 12 st2 = (nonce, st3)" by fastforce
  have l1: "length rnd = 32" "source_ok st2" using length_draw [OF assms(2) d1] by auto
  have l2: "length nonce = 12" using length_draw [OF l1(2) d2] by auto
  have base: "length (cy_base C a) = 32" for a using assms(1) by (simp add: crypto_laws_def)
  let ?e = "clamp_key rnd"
  let ?shared = "cy_mult C ?e (cy_base C priv)"
  have dh: "cy_mult C priv (cy_base C ?e) = ?shared"
    using assms(1,3) l1(1) by (simp add: crypto_laws_def)
  obtain sealed where s: "Seal C (E2EKey C ?shared name ver) nonce p = Some sealed"
    and sm: "sm_EphPub sm = cy_base C ?e" "sm_Sealed sm = sealed"
    using assms(4) base l1(1)
    by (auto simp: seal_for_def d1 d2 NewKeyPairX25519_def X25519_def split: option.splits)
  have "OpenKey C (E2EKey C ?shared name ver) sealed = Some p" by (rule OpenKey_Seal [OF assms(1) l2 s])
  then show ?thesis using base assms(3) dh by (simp add: sm open_sealed_def X25519_def E2EKey_def)
qed

text \<open>\<open>RotateSecret\<close> makes the new value the active version of the secret it found.\<close>

lemma rotate_latest:
  assumes "crypto_laws C" "source_ok st" "secret_inv st"
    and "RotateSecret C mg now name vl actor st = (Inr n, st')"
  obtains sec sec' sv where "GetSecret name st = Some sec" "GetSecret name st' = Some sec'" "se_ID sec' = se_ID sec"
    "GetLatestSecretVersion (se_ID sec) st' = Some sv" "sv_Version sv = n"
    "OpenKey C (KeyFor C (mg_master mg) (se_ID sec)) (sv_Ciphertext sv) = Some vl"
proof -
  obtain sec where g: "GetSecret name st = Some sec" using assms(4) by (auto simp: RotateSecret_def split: option.splits)
  obtain nonce st1 where d: "draw 12 st = (nonce, st1)" by fastforce
  have st1: "ss_secrets st1 = ss_secrets st" "ss_versions st1 = ss_versions st"
    using draw_fields(2,3) [of 12 st] d by simp_all
  have inv1: "secret_inv st1" using assms(3) secret_inv_cong [OF st1] by simp
  obtain ct st2 where r: "Seal C (KeyFor C (mg_master mg) (se_ID sec)) nonce vl = Some ct"
    "store_RotateSecret now (se_ID sec) ct st1 = (Inr n, st2)"
    "st' = secret_audit mg now ''secret.rotated'' (se_ID sec) n [] [] actor name st2"
    using assms(4) g d by (auto simp: RotateSecret_def split: if_splits option.splits prod.splits sum.splits)
  from inv1 r(2) obtain new where v: "versions_of (se_ID sec) st2 = map (\<lambda>v. v\<lparr>sv_Revoked := True\<rparr>) (versions_of (se_ID sec) st1) @ [new]"
    "sv_Ciphertext new = ct" "sv_Version new = n" "\<not> sv_Revoked new"
    "map se_ID (ss_secrets st2) = map se_ID (ss_secrets st1)" "map se_Name (ss_secrets st2) = map se_Name (ss_secrets st1)"
    by (rule rotate_versions) blast
  have s': "ss_secrets st' = ss_secrets st2" "ss_versions st' = ss_versions st2" by (simp_all add: r(3) secret_audit_def)
  have same: "find (secret_named name) xs = Some x \<Longrightarrow> map se_ID ys = map se_ID xs \<Longrightarrow> map se_Name ys = map se_Name xs
      \<Longrightarrow> \<exists>y. find (secret_named name) ys = Some y \<and> se_ID y = se_ID x" for xs ys x
  proof (induction xs arbitrary: ys)
    case (Cons a xs)
    then obtain b zs where "ys = b # zs" "se_ID b = se_ID a" "se_Name b = se_Name a" by (cases ys) auto
    with Cons show ?case by (auto simp: secret_named_def split: if_splits)
  qed simp
  have "find (secret_named name) (ss_secrets st) = Some sec" using g by (simp add: GetSecret_def)
  from same [OF this, of "ss_secrets st'"] v(5,6) obtain sec' where "GetSecret name st' = Some sec'" "se_ID sec' = se_ID sec"
    by (auto simp: GetSecret_def s' st1)
  moreover have "filter (\<lambda>v. \<not> sv_Revoked v) (versions_of (se_ID sec) st') = [new]"
    using v(1,4) by (simp add: versions_of_def s' filter_map comp_def)
  then have "GetLatestSecretVersion (se_ID sec) st' = Some new" by (simp add: GetLatestSecretVersion_def)
  moreover have "OpenKey C (KeyFor C (mg_master mg) (se_ID sec)) (sv_Ciphertext new) = Some vl"
    using OpenKey_Seal [OF assms(1) _ r(1)] length_draw [OF assms(2) d] v(2) by simp
  ultimately show thesis using that g v(3) by blast
qed

text \<open>What \<open>Handle_secret\<close> leaves behind for a form it can open.\<close>

lemma Handle_secret_opens:
  assumes "length (sm_EphPub sm) = 32"
    and "open_sealed C (ca_xpriv c) (sm_EphPub sm) (sm_Ref sm) (sm_Version sm) (sm_Sealed sm) = Some p"
    and "Handle_secret C t io sm c = (r, c')"
  shows "(r = Inr p \<longleftrightarrow> sm_CacheTtlS sm \<le> 0 \<or> io) \<and> ca_xpriv c' = ca_xpriv c \<and>
    ca_mem c' = (ca_mem c)(sm_Ref sm \<mapsto> \<lparr>me_value = p, me_version = sm_Version sm,
      me_expires = (if sm_CacheTtlS sm > 0 then Some (t + seconds (sm_CacheTtlS sm)) else None)\<rparr>) \<and>
    ca_loaded c' = (if sm_CacheTtlS sm > 0 then (ca_loaded c)(sm_Ref sm \<mapsto>
        \<lparr>ce_Version = sm_Version sm, ce_EphPubB64 = cy_b64 C (sm_EphPub sm), ce_SealedB64 = cy_b64 C (sm_Sealed sm),
         ce_ExpiresUnix = unix (t + seconds (sm_CacheTtlS sm))\<rparr>) else ca_loaded c) \<and>
    ca_file c' = (if sm_CacheTtlS sm > 0 \<and> io then Holds (ca_loaded c') else ca_file c)"
  using assms by (auto simp: Handle_secret_def Let_def write_cache_def split: if_splits)

lemma Handle_secret_Inr:
  assumes "Handle_secret C t io sm c = (Inr p, c')"
  shows "length (sm_EphPub sm) = 32 \<and>
    open_sealed C (ca_xpriv c) (sm_EphPub sm) (sm_Ref sm) (sm_Version sm) (sm_Sealed sm) = Some p"
  using assms by (auto simp: Handle_secret_def Let_def split: if_splits option.splits)

text \<open>
  C33: A rotated secret reaches the host it is materialised on.  After \<open>RotateSecret\<close> stored a value, a
  successful \<open>Materialize\<close> sends the new version, and the agent that holds the private key of its enrolled
  public key gets exactly that value out of the envelope: \<open>Handle\<close> returns it (unless the cache file has to
  be written and cannot be), and \<open>Get\<close> gives it back until the cache window ends.
\<close>
theorem rotated_value_reaches_agent:
  assumes "crypto_laws C" "source_ok st" "secret_reach C mg st" "length priv = 32"
    and "RotateSecret C mg now name vl actor st = (Inr n, st1)"
    and "Materialize C mg t0 agent name ref st1 = (Inr v, st2)"
    and "map_option (\<lambda>a. cy_unb64 C (a_X25519Pub a)) (Agent_get agent (hosts (ss_srv st1))) = Some (Some (cy_base C priv))"
  shows "\<exists>sid sm. v = n \<and> sent (ss_srv st2) = sent (ss_srv st1) @ [(sid, ESecretMaterialize sm)] \<and>
    (\<forall>c t io r c' t' io'. ca_xpriv c = priv \<longrightarrow> Handle_secret C t io sm c = (r, c') \<longrightarrow>
       (r = Inr vl \<longleftrightarrow> sm_CacheTtlS sm \<le> 0 \<or> io) \<and>
       fst (Get_secret C t' io' name c') =
         (if sm_CacheTtlS sm > 0 \<and> t' > t + seconds (sm_CacheTtlS sm) then None else Some vl))"
proof -
  obtain sec sec' sv where "GetSecret name st = Some sec" and g: "GetSecret name st1 = Some sec'" "se_ID sec' = se_ID sec"
    "GetLatestSecretVersion (se_ID sec) st1 = Some sv" "sv_Version sv = n"
    "OpenKey C (KeyFor C (mg_master mg) (se_ID sec)) (sv_Ciphertext sv) = Some vl"
    by (rule rotate_latest [OF assms(1,2) secret_reach_inv [OF assms(3)] assms(5)])
  have src: "source_ok st1"
  proof -
    have "ss_rand st1 = ss_rand st"
      using assms(5) by (auto simp: RotateSecret_def store_RotateSecret_def secret_audit_def touch_secret_def draw_def
          id_New_def Let_def split: option.splits if_splits prod.splits)
    with assms(2) show ?thesis by (simp add: source_ok_def)
  qed
  from assms(6) obtain sid sm where m: "v = sm_Version sm" "sends_secret C mg agent name st1 sid sm" "sm_Ref sm = name"
    "sent (ss_srv st2) = sent (ss_srv st1) @ [(sid, ESecretMaterialize sm)]"
    by (auto elim!: Materialize_cases)
  from m(2) obtain sec1 sv1 p pub st3 where x: "materialize_checks C mg agent name st1 = Inr (sec1, sv1, p, pub)"
    "seal_for C pub name (sv_Version sv1) p (se_OfflineTTL sec1) st1 = (Inr sm, st3)" by (auto simp: sends_secret_def)
  note ck = materialize_checks_Inr [OF x(1)]
  have eqs: "sec1 = sec'" "sv1 = sv" "p = vl" using ck(1,3,4) g by auto
  have pub: "pub = cy_base C priv" using ck(5) assms(7) by auto
  note op = seal_for_opens [OF assms(1) src assms(4) x(2) [unfolded pub eqs]]
  note ver = seal_for_Inr [OF x(2)]
  have "(r = Inr vl \<longleftrightarrow> sm_CacheTtlS sm \<le> 0 \<or> io) \<and> fst (Get_secret C t' io' name c') =
       (if sm_CacheTtlS sm > 0 \<and> t' > t + seconds (sm_CacheTtlS sm) then None else Some vl)"
    if "ca_xpriv c = priv" "Handle_secret C t io sm c = (r, c')" for c t io r c' t' io'
  proof -
    have "open_sealed C (ca_xpriv c) (sm_EphPub sm) (sm_Ref sm) (sm_Version sm) (sm_Sealed sm) = Some vl"
      using op ver that(1) eqs m(3) by simp
    from Handle_secret_opens [OF _ this that(2)] op m(3) show ?thesis
      by (auto simp: Get_secret_def mem_dead_def)
  qed
  then show ?thesis using m(1,4) ver eqs g(4) by auto
qed

text \<open>
  The length of the cache window is computed in signed 64-bit nanoseconds.  Up to 9223372036 seconds
  it is what was asked for; from there to 18446744073 seconds the product wraps to a negative number, and
  a secret that arrives with such a window is unavailable at once - \<open>Handle\<close> accepts it, \<open>Get\<close> does not
  give it out.
\<close>
theorem cache_window_wraps:
  "(0 \<le> ttl \<and> ttl \<le> 9223372036 \<longrightarrow> seconds ttl = ttl * 1000000000) \<and>
   (9223372037 \<le> ttl \<and> ttl \<le> 18446744073 \<longrightarrow> seconds ttl < 0 \<and>
      (\<forall>C t io sm c p c'. sm_CacheTtlS sm = ttl \<longrightarrow> Handle_secret C t io sm c = (Inr p, c') \<longrightarrow>
         Get_secret C t io (sm_Ref sm) c' = (None, c')))"
proof (intro conjI impI allI)
  assume "0 \<le> ttl \<and> ttl \<le> 9223372036"
  then show "seconds ttl = ttl * 1000000000"
    unfolding seconds_def by (intro signed_take_bit_int_eq_self) simp_all
next
  assume *: "9223372037 \<le> ttl \<and> ttl \<le> 18446744073"
  let ?k = "ttl * 1000000000"
  have "(?k + 2 ^ 63) mod 2 ^ 64 = (?k + 2 ^ 63 - 2 ^ 64) mod 2 ^ 64" by (rule minus_mod_self2 [symmetric])
  also have "\<dots> = ?k - 2 ^ 63" using * by (subst mod_pos_pos_trivial) simp_all
  finally have "signed_take_bit 63 ?k = ?k - 2 ^ 64" by (simp add: signed_take_bit_eq_take_bit_shift take_bit_eq_mod)
  with * show neg: "seconds ttl < 0" by (simp add: seconds_def)
  fix C t io sm c p c'
  assume h: "sm_CacheTtlS sm = ttl" "Handle_secret C t io sm c = (Inr p, c')"
  from Handle_secret_Inr [OF h(2)] have "length (sm_EphPub sm) = 32"
    "open_sealed C (ca_xpriv c) (sm_EphPub sm) (sm_Ref sm) (sm_Version sm) (sm_Sealed sm) = Some p" by simp_all
  from Handle_secret_opens [OF this h(2)] h(1) * neg show "Get_secret C t io (sm_Ref sm) c' = (None, c')"
    by (simp add: Get_secret_def mem_dead_def)
qed

section \<open>What a restart brings back\<close>

lemma open_again:
  assumes "crypto_laws C" "ce_EphPubB64 ce = cy_b64 C e" "ce_SealedB64 ce = cy_b64 C sl"
  shows "cy_unb64 C (ce_EphPubB64 ce) = Some e \<and> cy_unb64 C (ce_SealedB64 ce) = Some sl"
  using assms by (simp add: crypto_laws_def)

text \<open>
  A secret that was delivered with a cache window and later replaced by a version without one comes
  back in its old form.  The running agent uses the new value; but the sealed old value stays in the cache
  file, so an agent that starts again within the old window gives out the value that was rotated away.
\<close>
theorem old_value_after_restart:
  assumes "crypto_laws C" "sm_CacheTtlS sm1 > 0" "sm_CacheTtlS sm2 \<le> 0" "sm_Ref sm2 = sm_Ref sm1"
    and "Handle_secret C t1 True sm1 c = (Inr x1, c1)" "Handle_secret C t2 io sm2 c1 = (Inr x2, c2)"
    and "New_cache t3 (ca_file c2) (ca_xpriv c) = Inr c3" "unix t3 \<le> unix (t1 + seconds (sm_CacheTtlS sm1))"
  shows "fst (Get_secret C t io' (sm_Ref sm1) c2) = Some x2 \<and> fst (Get_secret C t3 io' (sm_Ref sm1) c3) = Some x1"
proof -
  let ?ce = "\<lparr>ce_Version = sm_Version sm1, ce_EphPubB64 = cy_b64 C (sm_EphPub sm1),
    ce_SealedB64 = cy_b64 C (sm_Sealed sm1), ce_ExpiresUnix = unix (t1 + seconds (sm_CacheTtlS sm1))\<rparr>"
  note h1 = Handle_secret_Inr [OF assms(5)] and h2 = Handle_secret_Inr [OF assms(6)]
  have c1: "ca_file c1 = Holds (ca_loaded c1)" "ca_loaded c1 (sm_Ref sm1) = Some ?ce"
    using Handle_secret_opens [OF _ _ assms(5)] h1 assms(2) by auto
  have c2: "ca_file c2 = ca_file c1" "ca_mem c2 (sm_Ref sm1) = Some \<lparr>me_value = x2, me_version = sm_Version sm2, me_expires = None\<rparr>"
    using Handle_secret_opens [OF _ _ assms(6)] h2 assms(3,4) by auto
  have c3: "ca_mem c3 = Map.empty" "ca_loaded c3 (sm_Ref sm1) = Some ?ce" "ca_xpriv c3 = ca_xpriv c"
    using assms(7,8) c1 c2 by (auto simp: New_cache_def load_cache_def keep_entries_def sealed_dead_def split: if_splits)
  have "fst (Get_secret C t3 io' (sm_Ref sm1) c3) = Some x1"
    using c3 assms(8) h1 open_again [OF assms(1), of ?ce] by (simp add: Get_secret_def)
  then show ?thesis using c2 by (simp add: Get_secret_def mem_dead_def)
qed

text \<open>
  The states a cache can reach over several lives of the agent; \<open>S\<close> are the pairs of a reference and a
  vl that envelopes brought.
\<close>

inductive cache_reach :: "crypto \<Rightarrow> string \<Rightarrow> (string \<times> string) set \<Rightarrow> secret_cache \<Rightarrow> bool" for C xpriv where
  start: "New_cache t NoFile xpriv = Inr c \<Longrightarrow> cache_reach C xpriv {} c"
| handle: "cache_reach C xpriv S c \<Longrightarrow> Handle_secret C t io sm c = (Inr p, c') \<Longrightarrow>
    cache_reach C xpriv (insert (sm_Ref sm, p) S) c'"
| get: "cache_reach C xpriv S c \<Longrightarrow> cache_reach C xpriv S (snd (Get_secret C t io ref c))"
| drop: "cache_reach C xpriv S c \<Longrightarrow> cache_reach C xpriv S (Drop_secret io ref c)"
| prune: "cache_reach C xpriv S c \<Longrightarrow> cache_reach C xpriv S (Prune_cache t io c)"
| restart: "cache_reach C xpriv S c \<Longrightarrow> New_cache t (ca_file c) xpriv = Inr c' \<Longrightarrow> cache_reach C xpriv S c'"

text \<open>Every stored vl, open or sealed, is one of \<open>S\<close>.\<close>

definition sealed_from :: "crypto \<Rightarrow> string \<Rightarrow> (string \<times> string) set \<Rightarrow> sealed_map \<Rightarrow> bool" where
  "sealed_from C xpriv S m \<longleftrightarrow>
     (\<forall>ref ce e sl p. m ref = Some ce \<longrightarrow> cy_unb64 C (ce_EphPubB64 ce) = Some e \<longrightarrow> cy_unb64 C (ce_SealedB64 ce) = Some sl \<longrightarrow>
        open_sealed C xpriv e ref (ce_Version ce) sl = Some p \<longrightarrow> (ref, p) \<in> S)"

definition cache_from :: "crypto \<Rightarrow> string \<Rightarrow> (string \<times> string) set \<Rightarrow> secret_cache \<Rightarrow> bool" where
  "cache_from C xpriv S c \<longleftrightarrow> ca_xpriv c = xpriv \<and> (\<forall>ref e. ca_mem c ref = Some e \<longrightarrow> (ref, me_value e) \<in> S) \<and>
     sealed_from C xpriv S (ca_loaded c) \<and> (case ca_file c of Holds m \<Rightarrow> sealed_from C xpriv S m | _ \<Rightarrow> True)"

lemma sealed_fromD:
  "sealed_from C xpriv S m \<Longrightarrow> m ref = Some ce \<Longrightarrow> cy_unb64 C (ce_EphPubB64 ce) = Some e \<Longrightarrow>
    cy_unb64 C (ce_SealedB64 ce) = Some sl \<Longrightarrow> open_sealed C xpriv e ref (ce_Version ce) sl = Some p \<Longrightarrow> (ref, p) \<in> S"
  unfolding sealed_from_def by blast

lemma sealed_from_sub: "sealed_from C xpriv S m \<Longrightarrow> m' \<subseteq>\<^sub>m m \<Longrightarrow> sealed_from C xpriv S m'"
  unfolding sealed_from_def map_le_def by (metis domI)

lemma keep_entries_le: "keep_entries p m \<subseteq>\<^sub>m m"
  by (auto simp: keep_entries_def map_le_def split: option.splits if_splits)

lemma sealed_from_load:
  "(case file of Holds m \<Rightarrow> sealed_from C xpriv S m | _ \<Rightarrow> True) \<Longrightarrow> sealed_from C xpriv S (load_cache t file)"
  unfolding load_cache_def by (rule sealed_from_sub [OF _ keep_entries_le]) (auto simp: sealed_from_def split: cache_file.splits)

lemma cache_from_drop:
  "cache_from C xpriv S c \<Longrightarrow> m \<subseteq>\<^sub>m ca_mem c \<Longrightarrow> l \<subseteq>\<^sub>m ca_loaded c \<Longrightarrow>
     cache_from C xpriv S (c\<lparr>ca_mem := m, ca_loaded := l\<rparr>) \<and>
     cache_from C xpriv S (write_cache io (c\<lparr>ca_mem := m, ca_loaded := l\<rparr>))"
  unfolding cache_from_def write_cache_def by (auto intro: sealed_from_sub) (metis domI map_le_def)+

lemma cache_from_get:
  assumes "cache_from C xpriv S c" "Get_secret C t io ref c = (r, c')"
  shows "cache_from C xpriv S c' \<and> (\<forall>p. r = Some p \<longrightarrow> (ref, p) \<in> S)"
proof (cases "ca_mem c ref")
  case (Some e)
  with assms show ?thesis by (auto simp: Get_secret_def cache_from_def split: if_splits)
next
  case None
  show ?thesis
  proof (cases "ca_loaded c ref")
    case (Some ce)
    show ?thesis
    proof (cases "unix t > ce_ExpiresUnix ce")
      case True
      have "c' = write_cache io (c\<lparr>ca_mem := ca_mem c, ca_loaded := (ca_loaded c)(ref := None)\<rparr>)" "r = None"
        using assms(2) None Some True by (simp_all add: Get_secret_def)
      with cache_from_drop [OF assms(1), of "ca_mem c" "(ca_loaded c)(ref := None)"] show ?thesis
        by (simp add: map_le_def)
    next
      case False
      have "r = None \<and> c' = c \<or> (\<exists>p. r = Some p \<and> (ref, p) \<in> S \<and> c' = c\<lparr>ca_mem := (ca_mem c)(ref \<mapsto>
          \<lparr>me_value = p, me_version = ce_Version ce, me_expires = Some (ce_ExpiresUnix ce * 1000000000)\<rparr>)\<rparr>)"
      proof (cases "\<exists>e sl p. cy_unb64 C (ce_EphPubB64 ce) = Some e \<and> cy_unb64 C (ce_SealedB64 ce) = Some sl \<and>
          open_sealed C xpriv e ref (ce_Version ce) sl = Some p")
        case True
        then obtain e sl p where o: "cy_unb64 C (ce_EphPubB64 ce) = Some e" "cy_unb64 C (ce_SealedB64 ce) = Some sl"
          "open_sealed C xpriv e ref (ce_Version ce) sl = Some p" by blast
        have "sealed_from C xpriv S (ca_loaded c)" using assms(1) by (simp add: cache_from_def)
        then have "(ref, p) \<in> S" using Some o by (rule sealed_fromD)
        moreover have "r = Some p \<and> c' = c\<lparr>ca_mem := (ca_mem c)(ref \<mapsto>
            \<lparr>me_value = p, me_version = ce_Version ce, me_expires = Some (ce_ExpiresUnix ce * 1000000000)\<rparr>)\<rparr>"
          using assms None Some False o by (simp add: Get_secret_def cache_from_def)
        ultimately show ?thesis by blast
      next
        case no: False
        then show ?thesis using assms None Some False
          by (auto simp: Get_secret_def cache_from_def split: option.splits)
      qed
      with assms(1) show ?thesis by (auto simp: cache_from_def split: if_splits)
    qed
  qed (use assms None in \<open>auto simp: Get_secret_def\<close>)
qed

lemma sealed_from_mono: "sealed_from C xpriv S m \<Longrightarrow> sealed_from C xpriv (insert x S) m"
  unfolding sealed_from_def by blast

lemma cache_from_handle:
  assumes "crypto_laws C" "cache_from C xpriv S c" "Handle_secret C t io sm c = (Inr p, c')"
  shows "cache_from C xpriv (insert (sm_Ref sm, p) S) c'"
proof -
  note h = Handle_secret_Inr [OF assms(3)]
  from Handle_secret_opens [OF _ _ assms(3)] h
  have c': "ca_xpriv c' = ca_xpriv c"
    "ca_mem c' = (ca_mem c)(sm_Ref sm \<mapsto> \<lparr>me_value = p, me_version = sm_Version sm,
      me_expires = (if sm_CacheTtlS sm > 0 then Some (t + seconds (sm_CacheTtlS sm)) else None)\<rparr>)"
    "ca_loaded c' = (if sm_CacheTtlS sm > 0 then (ca_loaded c)(sm_Ref sm \<mapsto>
        \<lparr>ce_Version = sm_Version sm, ce_EphPubB64 = cy_b64 C (sm_EphPub sm), ce_SealedB64 = cy_b64 C (sm_Sealed sm),
         ce_ExpiresUnix = unix (t + seconds (sm_CacheTtlS sm))\<rparr>) else ca_loaded c)"
    "ca_file c' = (if sm_CacheTtlS sm > 0 \<and> io then Holds (ca_loaded c') else ca_file c)" by auto
  let ?S = "insert (sm_Ref sm, p) S"
  have old: "sealed_from C xpriv ?S (ca_loaded c)" "case ca_file c of Holds m \<Rightarrow> sealed_from C xpriv ?S m | _ \<Rightarrow> True"
    "ca_xpriv c = xpriv" "\<And>ref e. ca_mem c ref = Some e \<Longrightarrow> (ref, me_value e) \<in> S"
    using assms(2) by (auto simp: cache_from_def intro: sealed_from_mono split: cache_file.splits)
  have "sealed_from C xpriv ?S ((ca_loaded c)(sm_Ref sm \<mapsto>
        \<lparr>ce_Version = sm_Version sm, ce_EphPubB64 = cy_b64 C (sm_EphPub sm), ce_SealedB64 = cy_b64 C (sm_Sealed sm),
         ce_ExpiresUnix = x\<rparr>))" for x
    using old(1,3) h assms(1) unfolding sealed_from_def crypto_laws_def
    by (simp only: fun_upd_apply split: if_split) fastforce
  with old show ?thesis unfolding cache_from_def c' by (auto split: cache_file.splits)
qed

text \<open>
  The cache never makes a value up and never mixes references: whatever sequence of envelopes, reads,
  drops, prunes and restarts came before, a value \<open>Get\<close> returns for a reference is one that an accepted
  envelope brought for that very reference, and a value read back from the cache file is not older than
  its window.
\<close>
theorem Get_secret_provenance:
  assumes "crypto_laws C" "cache_reach C xpriv S c" "Get_secret C t io ref c = (Some p, c')"
  shows "(ref, p) \<in> S \<and> (ca_mem c ref = None \<longrightarrow> (\<exists>ce. ca_loaded c ref = Some ce \<and> unix t \<le> ce_ExpiresUnix ce))"
proof -
  have "cache_from C xpriv S c" using assms(2)
  proof (induction rule: cache_reach.induct)
    case (start t c)
    then show ?case
      by (auto simp: New_cache_def cache_from_def load_cache_def keep_entries_def sealed_from_def split: if_splits)
  next
    case (handle S c t io sm p c')
    then show ?case using cache_from_handle [OF assms(1)] by blast
  next
    case (get S c t io ref)
    then show ?case using cache_from_get by (metis prod.collapse)
  next
    case (drop S c io ref)
    have "(ca_mem c)(ref := None) \<subseteq>\<^sub>m ca_mem c" "(ca_loaded c)(ref := None) \<subseteq>\<^sub>m ca_loaded c" by (auto simp: map_le_def)
    from cache_from_drop [OF drop.IH this] cache_from_drop [OF drop.IH this(1), of "ca_loaded c"] show ?case
      by (auto simp: Drop_secret_def Let_def)
  next
    case (prune S c t io)
    from cache_from_drop [OF prune.IH keep_entries_le keep_entries_le] show ?case by (simp add: Prune_cache_def Let_def)
  next
    case (restart S c t c')
    then have "sealed_from C xpriv S (load_cache t (ca_file c))" by (simp add: cache_from_def sealed_from_load)
    with restart show ?case by (auto simp: New_cache_def cache_from_def split: if_splits)
  qed
  from cache_from_get [OF this assms(3)] assms(3) show ?thesis
    by (auto simp: Get_secret_def split: option.splits if_splits)
qed

section \<open>Samples\<close>

definition key1 :: string where "key1 = replicate 32 CHR ''p''"

definition env_of :: "int \<Rightarrow> int \<Rightarrow> string \<Rightarrow> pbSecretMaterialize" where
  "env_of ver ttl vl = \<lparr>sm_Ref = ''db'', sm_Version = ver, sm_EphPub = key1, sm_Sealed = ''twelve bytes'' @ vl,
     sm_CacheTtlS = ttl\<rparr>"

definition cache0 :: secret_cache where
  "cache0 = \<lparr>ca_mem = Map.empty, ca_file = NoFile, ca_xpriv = key1, ca_loaded = Map.empty\<rparr>"

lemma env_opens: "open_sealed plain_crypto key1 key1 ref ver (sm_Sealed (env_of v ttl vl)) = Some vl"
  by (simp add: open_sealed_def X25519_def key1_def OpenKey_def DeriveKey_def env_of_def)
    (simp add: plain_crypto_def)

lemma Handle_env:
  assumes "ca_xpriv c = key1"
  shows "\<exists>c'. Handle_secret plain_crypto t True (env_of v ttl vl) c = (Inr vl, c') \<and> ca_xpriv c' = key1"
proof -
  obtain r c' where h: "Handle_secret plain_crypto t True (env_of v ttl vl) c = (r, c')" by fastforce
  have "length (sm_EphPub (env_of v ttl vl)) = 32" by (simp add: env_of_def key1_def)
  from Handle_secret_opens [OF this _ h, of vl] env_opens [of "''db''" v v ttl vl] assms h show ?thesis
    by (simp add: env_of_def)
qed

theorem old_value_after_restart_witness:
  "\<exists>c2 c3. New_cache 3000000000 (ca_file c2) key1 = Inr c3 \<and>
     fst (Get_secret plain_crypto 3000000000 True ''db'' c2) = Some ''new'' \<and>
     fst (Get_secret plain_crypto 3000000000 True ''db'' c3) = Some ''old''"
proof -
  have k0: "ca_xpriv cache0 = key1" by (simp add: cache0_def)
  obtain c1 where c1: "Handle_secret plain_crypto 0 True (env_of 1 60 ''old'') cache0 = (Inr ''old'', c1)" "ca_xpriv c1 = key1"
    using Handle_env [OF k0] by blast
  obtain c2 where c2: "Handle_secret plain_crypto 1 True (env_of 2 0 ''new'') c1 = (Inr ''new'', c2)"
    using Handle_env [OF c1(2)] by blast
  obtain c3 where c3: "New_cache 3000000000 (ca_file c2) key1 = Inr c3" by (simp add: New_cache_def key1_def)
  have "unix 3000000000 \<le> unix (0 + seconds 60)" by (simp add: seconds_def signed_take_bit_int_eq_self unix_def)
  with old_value_after_restart [OF plain_crypto_laws _ _ _ c1(1) c2, of 3000000000 c3] c3 k0 show ?thesis
    by (auto simp: env_of_def)
qed

theorem cache_window_wraps_witness:
  "seconds 9223372036 = 9223372036000000000 \<and> seconds 9223372037 < 0"
  using cache_window_wraps [of 9223372036] cache_window_wraps [of 9223372037] by simp

theorem Get_secret_provenance_witness:
  "\<exists>c c'. cache_reach plain_crypto key1 {(''db'', ''old'')} c \<and>
     Get_secret plain_crypto 5 True ''db'' c = (Some ''old'', c') \<and> (''db'', ''old'') \<in> {(''db'', ''old'')}"
proof -
  have k0: "ca_xpriv cache0 = key1" by (simp add: cache0_def)
  have "New_cache 0 NoFile key1 = Inr cache0"
    by (simp add: New_cache_def key1_def cache0_def load_cache_def keep_entries_def)
  then have r0: "cache_reach plain_crypto key1 {} cache0" by (rule cache_reach.start)
  obtain c1 where c1: "Handle_secret plain_crypto 0 True (env_of 1 0 ''old'') cache0 = (Inr ''old'', c1)"
    using Handle_env [OF k0] by blast
  from cache_reach.handle [OF r0 c1] have r1: "cache_reach plain_crypto key1 {(''db'', ''old'')} c1"
    by (simp add: env_of_def)
  have g: "Get_secret plain_crypto 5 True ''db'' c1 = (Some ''old'', c1)"
    using Handle_secret_opens [OF _ _ c1] Handle_secret_Inr [OF c1]
    by (simp add: Get_secret_def mem_dead_def env_of_def)
  from Get_secret_provenance [OF plain_crypto_laws r1 g] g r1 show ?thesis by blast
qed

definition vault2 :: secret_srv where
  "vault2 = snd (RotateSecret plain_crypto mgr1 9 ''db'' ''pw2'' ''root'' vault1)"

lemma vault2_rotated: "RotateSecret plain_crypto mgr1 9 ''db'' ''pw2'' ''root'' vault1 = (Inr 2, vault2)"
proof -
  obtain v where v: "ss_versions vault1 = [v]" "sv_SecretID v = ''sec_414141414141''" "sv_Version v = 1"
    using vault1_row(2) by blast
  have nv: "next_version ''sec_414141414141'' (vault1\<lparr>ss_reads := k\<rparr>) = 2" for k
    using v by (simp add: next_version_def versions_of_def)
  have h: "hex_text (replicate 6 (char_of (69 :: nat))) = ''454545454545''"
    "hex_text (replicate 6 (char_of (67 :: nat))) = ''434343434343''" by code_simp+
  have "map sv_ID (ss_versions vault1) = [''secv_434343434343'']" using h by (simp add: vault1_def vault_defs)
  then have vid: "sv_ID v = ''secv_434343434343''" using v(1) by simp
  have r: "ss_rand vault1 = counted" "ss_reads vault1 = 3" using h by (simp_all add: vault1_def vault_defs)
  show ?thesis
    using v nv r h vid
    by (simp add: vault2_def RotateSecret_def GetSecret_def secret_named_def vault1_row draw_def MaxValue_def
        Seal_def KeyFor_def DeriveKey_def store_RotateSecret_def Let_def id_New_def)
      (simp add: plain_crypto_def counted_def)
qed

lemma vault_fields:
  "hosts (ss_srv vault2) = hosts (ss_srv vault1)" "sessions (ss_srv vault2) = sessions (ss_srv vault1)"
  "net (ss_srv vault2) = net (ss_srv vault1)"
  by (auto simp: vault2_def RotateSecret_def store_RotateSecret_def secret_audit_def append_audit_def touch_secret_def
      draw_def id_New_def Let_def split: option.splits)

theorem rotated_value_reaches_agent_witness:
  "\<exists>st2 sid sm. Materialize plain_crypto mgr1 10 ''h1'' ''db'' ''tr2'' vault2 = (Inr 2, st2) \<and>
     sent (ss_srv st2) = sent (ss_srv vault2) @ [(sid, ESecretMaterialize sm)] \<and>
     fst (Get_secret plain_crypto 0 True ''db'' (snd (Handle_secret plain_crypto 0 True sm cache0))) = Some ''pw2''"
proof -
  let ?priv = key1
  have priv: "length ?priv = 32" "ca_xpriv cache0 = ?priv" by (simp_all add: key1_def cache0_def)
  have src: "source_ok vault1" by (simp add: source_ok_def vault1_def vault_defs)
  have reach: "secret_reach plain_crypto mgr1 vault1"
    unfolding vault1_def by (rule secret_reach.create, rule secret_reach.start) (simp_all add: vault0_def)
  obtain sec sec' sv where l: "GetSecret ''db'' vault1 = Some sec" "GetSecret ''db'' vault2 = Some sec'" "se_ID sec' = se_ID sec"
    "GetLatestSecretVersion (se_ID sec) vault2 = Some sv" "sv_Version sv = 2"
    "OpenKey plain_crypto (KeyFor plain_crypto (mg_master mgr1) (se_ID sec)) (sv_Ciphertext sv) = Some ''pw2''"
    by (rule rotate_latest [OF plain_crypto_laws src secret_reach_inv [OF reach] vault2_rotated])
  have "se_Selector sec' = [] \<and> se_OfflineTTL sec' = 60"
    using l(2) by (auto simp: vault2_def RotateSecret_def store_RotateSecret_def GetSecret_def secret_named_def vault1_row
        secret_audit_def touch_secret_def sql_update_def draw_def id_New_def Let_def split: option.splits if_splits)
  moreover have "resolve_hosts [] vault2 = Inr [''h1'']"
    using vault_all by (simp add: resolve_hosts_def vault_fields)
  ultimately have c: "materialize_checks plain_crypto mgr1 ''h1'' ''db'' vault2 =
      Inr (sec', sv, ''pw2'', replicate 32 CHR ''p'')"
    using l by (simp add: materialize_checks_def vault_fields vault1_row Agent_get_def sql_get_def host_row_def)
      (simp add: plain_crypto_def)
  obtain q st3 where q: "seal_for plain_crypto (replicate 32 CHR ''p'') ''db'' 2 ''pw2'' (se_OfflineTTL sec') vault2 = (q, st3)"
    by fastforce
  have src2: "ss_rand vault2 = counted"
    by (auto simp: vault2_def RotateSecret_def store_RotateSecret_def vault1_def vault_defs touch_secret_def split: option.splits)
  obtain sm where sm: "q = Inr sm"
    using q src2 by (auto simp: seal_for_def draw_def NewKeyPairX25519_def X25519_def counted_def Seal_def E2EKey_def DeriveKey_def
        plain_crypto_def)
  note f = seal_for_fields [OF q]
  have "\<exists>st2. Materialize plain_crypto mgr1 10 ''h1'' ''db'' ''tr2'' vault2 = (Inr 2, st2)"
    using l(5) f by (simp add: Materialize_def c q sm SendSecretMaterialize_def vault_fields vault1_row sess_send_def Let_def)
  then obtain st2 where m: "Materialize plain_crypto mgr1 10 ''h1'' ''db'' ''tr2'' vault2 = (Inr 2, st2)" by blast
  have base: "map_option (\<lambda>a. cy_unb64 plain_crypto (a_X25519Pub a)) (Agent_get ''h1'' (hosts (ss_srv vault2))) =
      Some (Some (cy_base plain_crypto ?priv))"
    by (simp add: vault_fields vault1_row Agent_get_def sql_get_def host_row_def) (simp add: plain_crypto_def)
  from rotated_value_reaches_agent [OF plain_crypto_laws src reach priv(1) vault2_rotated m base]
  obtain sid sm' where s: "sent (ss_srv st2) = sent (ss_srv vault2) @ [(sid, ESecretMaterialize sm')]"
    and g: "\<And>c t io r c' t' io'. ca_xpriv c = ?priv \<Longrightarrow> Handle_secret plain_crypto t io sm' c = (r, c') \<Longrightarrow>
       fst (Get_secret plain_crypto t' io' ''db'' c') =
         (if sm_CacheTtlS sm' > 0 \<and> t' > t + seconds (sm_CacheTtlS sm') then None else Some ''pw2'')" by blast
  obtain r c' where h: "Handle_secret plain_crypto 0 True sm' cache0 = (r, c')" by fastforce
  have "sm_CacheTtlS sm' = 60"
  proof -
    from m obtain sid2 sm2 where "sends_secret plain_crypto mgr1 ''h1'' ''db'' vault2 sid2 sm2"
      "sent (ss_srv st2) = sent (ss_srv vault2) @ [(sid2, ESecretMaterialize sm2)]" by (auto elim!: Materialize_cases)
    with s c q sm \<open>se_Selector sec' = [] \<and> se_OfflineTTL sec' = 60\<close> show ?thesis
      using l(5) seal_for_Inr [of plain_crypto _ "''db''" 2 "''pw2''" 60] by (auto simp: sends_secret_def)
  qed
  then have "\<not> 0 > 0 + seconds (sm_CacheTtlS sm')" by (simp add: seconds_def signed_take_bit_int_eq_self)
  with g [OF priv(2) h, of 0 True] have "fst (Get_secret plain_crypto 0 True ''db'' c') = Some ''pw2''" by simp
  with m s h show ?thesis by auto
qed

end
