(* ===== verification/TaskDispatch.thy ===== *)
theory TaskDispatch
  imports Secrets Pipeline
begin

text \<open>
  The task orchestration of the server, \<open>src/internal/server/tasks/tasks.go\<close>: the policy gate over a
  task run and over each of its steps, the dispatch to the agent's stream with the secrets warmed
  first, the result, the approved and the late paths, and playbooks.

  Fresh ids are arguments and one call reads the clock once.  A record \<open>task_env\<close> carries what is not
  the controller's: the regular expressions, the signature, the JSON codecs, the text of an error,
  and \<open>te_await\<close>: what the other handlers did to the state while a call waits on a result slot, and
  what the wait gave.  The event broker is present.
\<close>

section \<open>Gating the steps\<close>

definition server_stepCommandLine :: "pbTaskStep \<Rightarrow> string \<times> bool" where
  "server_stepCommandLine s =
     (if s_Kind s = ''command'' then
        (if s_Command s = [] then ([], False)
         else (trim_space (join_str '' '' (s_Command s # s_Args s)), True))
      else if s_Kind s = ''reboot'' then (''reboot'', True)
      else ([], False))"

definition exec_step_action :: "Action \<Rightarrow> string \<Rightarrow> Action" where
  "exec_step_action base cl =
     (let a = base\<lparr>ac_ActionClass := ActionExec, ac_CommandLine := cl\<rparr>
      in case str_fields cl of [] \<Rightarrow> a | f # fs \<Rightarrow> a\<lparr>ac_Cmd := f, ac_Args := fs\<rparr>)"

fun StepActions :: "Action \<Rightarrow> pbTaskStep list \<Rightarrow> Action list" where
  "StepActions base [] = []"
| "StepActions base (s # ss) =
     (if s_Kind s \<in> {''package'', ''upgrade''} then [base\<lparr>ac_ActionClass := ActionPkgApply\<rparr>] else [])
     @ (case server_stepCommandLine s of (cl, isCmd) \<Rightarrow> if isCmd then [exec_step_action base cl] else [])
     @ StepActions base ss"

definition effect_rank :: "string \<Rightarrow> nat" where
  "effect_rank eff = (if eff = EffectDeny then 3 else if eff = EffectRequireApproval then 2 else 1)"

definition worse :: "Decision \<Rightarrow> Decision \<Rightarrow> Decision" where
  "worse combined d =
     (let c = (if effect_rank (d_Effect d) > effect_rank (d_Effect combined) then d else combined)
      in c\<lparr>d_MatchedRules := d_MatchedRules c @ d_MatchedRules d\<rparr>)"

definition EvaluateRunSteps :: "regex \<Rightarrow> Rule list \<Rightarrow> Action \<Rightarrow> pbTaskStep list \<Rightarrow> Decision" where
  "EvaluateRunSteps rx rs act steps =
     fold (\<lambda>sa combined. worse combined (Evaluate rx rs sa)) (StepActions act steps) (Evaluate rx rs act)"

section \<open>The controller\<close>

record pbStepResult =
  sp_StepIndex :: int
  sp_State :: string
  sp_Detail :: string
  sp_Started :: int
  sp_Finished :: int

record pbTaskRunResult =
  rp_State :: string
  rp_Error :: string
  rp_Steps :: "pbStepResult list"

type_synonym materialize = "string \<Rightarrow> string \<Rightarrow> string \<Rightarrow> secret_srv \<Rightarrow> (secret_error + int) \<times> secret_srv"

record task_ctl =
  tc_ident :: "string option"
  tc_approvals :: "approvals_ctl option"
  tc_secrets :: "materialize option"
  tc_eol :: "(string \<Rightarrow> string) option"

record task_actor =
  ta_Principal :: string
  ta_Role :: string

datatype task_fail =
    TaskNotCreated task_error
  | ApprovalsMissing string
  | ApprovalNotCreated approval_error
  | TaskApprovalRequired string string
  | SecretsNotReady "secret_error run_secret_error"
  | TaskNotSent send_error
  | NoTaskResult string
  | StepIndexPanic

record task_payload =
  tp_TaskID :: string
  tp_TaskVersion :: int
  tp_Reason :: string

record task_env =
  te_rx :: regex
  te_sign :: "string \<Rightarrow> string \<Rightarrow> string"
  te_match :: "string \<Rightarrow> Match option" \<comment> \<open>the JSON of a rule's match\<close>
  te_text :: "task_fail \<Rightarrow> string"
  te_marshal :: "task_payload \<Rightarrow> string"
  te_unmarshal :: "string \<Rightarrow> (string \<times> int) option" \<comment> \<open>the task id and version of a payload\<close>
  te_steps :: "string \<Rightarrow> pbTaskStep list option" \<comment> \<open>\<open>DecodeTaskSteps\<close>, on the wire type\<close>
  te_await :: "string \<Rightarrow> secret_srv \<Rightarrow> (string + pbTaskRunResult) \<times> secret_srv"

definition on_srv :: "(server \<Rightarrow> server) \<Rightarrow> secret_srv \<Rightarrow> secret_srv" where
  "on_srv f st = st\<lparr>ss_srv := f (ss_srv st)\<rparr>"

definition on_tasks :: "(task_db \<Rightarrow> task_db) \<Rightarrow> secret_srv \<Rightarrow> secret_srv" where
  "on_tasks f = on_srv (\<lambda>s. s\<lparr>taskdb := f (taskdb s)\<rparr>)"

abbreviation task_row :: "string \<Rightarrow> secret_srv \<Rightarrow> TaskRun option" where
  "task_row i st \<equiv> TaskRun_get i (taskdb (ss_srv st))"

definition finish_run :: "int \<Rightarrow> string \<Rightarrow> string \<Rightarrow> string \<Rightarrow> secret_srv \<Rightarrow> secret_srv" where
  "finish_run now i state err = on_tasks (\<lambda>db. snd (FinalizeTaskRun now i state err 0 db))"

definition task_audit :: "int \<Rightarrow> string \<Rightarrow> string \<Rightarrow> string \<Rightarrow> string \<Rightarrow> string \<Rightarrow> secret_srv \<Rightarrow> secret_srv" where
  "task_audit now agent runID actor state err =
     on_srv (\<lambda>s. emit ''task.run'' [(''agent_id'', agent), (''run_id'', runID), (''state'', state), (''actor'', actor)]
       (append_audit \<lparr>au_TS = now, au_Kind = ''task'', au_Actor = actor, au_AgentID = agent,
          au_Payload = [(''run_id'', runID), (''state'', state), (''error'', err)]\<rparr> s))"

text \<open>\<open>WaitTaskResult\<close> of the stream handler: the slot is removed however the wait ends.\<close>

definition WaitTaskResult :: "task_env \<Rightarrow> string \<Rightarrow> secret_srv \<Rightarrow> (string + pbTaskRunResult) \<times> secret_srv" where
  "WaitTaskResult E runID st =
     (case taskPending (ss_srv st) runID of
        None \<Rightarrow> (Inl (''stream: no pending task run '' @ runID), st)
      | Some _ \<Rightarrow>
          (case te_await E runID st of
             (r, st1) \<Rightarrow> (r, on_srv (\<lambda>s. s\<lparr>taskPending := (taskPending s)(runID := None)\<rparr>) st1)))"

section \<open>The result of a run\<close>

text \<open>A step that is not in the dispatched list looks its kind up by its index; \<open>False\<close> is the panic
  on a negative one.\<close>

definition step_kind :: "pbTaskStep list \<Rightarrow> nat \<Rightarrow> int \<Rightarrow> (string \<times> string) option" where
  "step_kind steps i idx =
     (let (kind, name) = (if i < length steps then (s_Kind (steps ! i), s_Name (steps ! i)) else (''unknown'', []))
      in if kind = ''unknown'' \<and> int (length steps) > idx then
           (if idx < 0 then None else Some (s_Kind (steps ! nat idx), name))
         else Some (kind, name))"

definition record_step_row :: "string \<Rightarrow> string \<Rightarrow> string \<Rightarrow> pbStepResult \<Rightarrow> task_db \<Rightarrow> task_db" where
  "record_step_row runID kind name sr db =
     (case RecordTaskRunStep \<lparr>ts_RunID = runID, ts_StepIdx = sp_StepIndex sr, ts_Kind = kind, ts_Name = name,
             ts_State = sp_State sr, ts_Detail = sp_Detail sr, ts_Started = sp_Started sr,
             ts_Finished = sp_Finished sr\<rparr> db of
        Inl e \<Rightarrow> db | Inr db' \<Rightarrow> db')"

fun record_steps :: "pbTaskStep list \<Rightarrow> string \<Rightarrow> nat \<Rightarrow> pbStepResult list \<Rightarrow> task_db \<Rightarrow> bool \<times> task_db" where
  "record_steps steps runID i [] db = (True, db)"
| "record_steps steps runID i (sr # srs) db =
     (case step_kind steps i (sp_StepIndex sr) of
        None \<Rightarrow> (False, db)
      | Some (kind, name) \<Rightarrow> record_steps steps runID (Suc i) srs (record_step_row runID kind name sr db))"

definition result_status :: "pbTaskRunResult \<Rightarrow> string \<times> string" where
  "result_status r = (if rp_State r \<noteq> ''succeeded'' then (rp_State r, rp_Error r) else (''succeeded'', []))"

definition take_result ::
  "int \<Rightarrow> string \<Rightarrow> string \<Rightarrow> pbTaskStep list \<Rightarrow> string \<Rightarrow> pbTaskRunResult \<Rightarrow> secret_srv
   \<Rightarrow> TaskRun option \<times> task_fail option \<times> secret_srv" where
  "take_result now runID agent steps actor r st =
     (let (ok, db) = record_steps steps runID 0 (rp_Steps r) (taskdb (ss_srv st)); st1 = on_tasks (\<lambda>_. db) st
      in if \<not> ok then (None, Some StepIndexPanic, st1)
         else
           (case result_status r of (status, err) \<Rightarrow>
              let st2 = task_audit now agent runID actor status [] (finish_run now runID status err st1)
              in (task_row runID st2, None, st2)))"

section \<open>Dispatch\<close>

text \<open>The secrets first, then the envelope.\<close>

definition warm_secrets ::
  "task_ctl \<Rightarrow> string \<Rightarrow> string \<Rightarrow> pbTaskStep list \<Rightarrow> secret_srv \<Rightarrow> secret_error run_secret_error option \<times> secret_srv" where
  "warm_secrets c agent runID steps st = MaterializeForRun (tc_secrets c) agent runID (StepSecretRefs steps) st"

definition send_run ::
  "task_ctl \<Rightarrow> string \<Rightarrow> pbTaskRun \<Rightarrow> secret_srv \<Rightarrow> task_fail option \<times> secret_srv" where
  "send_run c agent tr st =
     (case warm_secrets c agent (tr_RunId tr) (tr_Steps tr) st of
        (Some e, st1) \<Rightarrow> (Some (SecretsNotReady e), st1)
      | (None, st1) \<Rightarrow>
          (case SendTaskRun agent tr (ss_srv st1) of
             (Some e, s) \<Rightarrow> (Some (TaskNotSent e), st1\<lparr>ss_srv := s\<rparr>)
           | (None, s) \<Rightarrow> (None, st1\<lparr>ss_srv := s\<rparr>)))"

text \<open>\<open>int32(version)\<close>.\<close>

definition to_int32 :: "int \<Rightarrow> int" where
  "to_int32 n = (n + 2 ^ 31) mod 2 ^ 32 - 2 ^ 31"

definition fail_prefix :: "task_fail \<Rightarrow> string" where
  "fail_prefix e =
     (case e of SecretsNotReady _ \<Rightarrow> ''secrets: '' | TaskNotSent _ \<Rightarrow> ''dispatch: ''
      | NoTaskResult _ \<Rightarrow> ''timeout: '' | _ \<Rightarrow> [])"

definition run_failed :: "task_env \<Rightarrow> int \<Rightarrow> string \<Rightarrow> string \<Rightarrow> string \<Rightarrow> task_fail \<Rightarrow> secret_srv \<Rightarrow> secret_srv" where
  "run_failed E now agent runID actor e st =
     task_audit now agent runID actor ''error'' (te_text E e)
       (finish_run now runID ''failed'' (fail_prefix e @ te_text E e) st)"

definition dispatchRun ::
  "task_env \<Rightarrow> task_ctl \<Rightarrow> int \<Rightarrow> string \<Rightarrow> string \<Rightarrow> int \<Rightarrow> pbTaskStep list \<Rightarrow> string \<Rightarrow> pbDecision option
   \<Rightarrow> string \<Rightarrow> secret_srv \<Rightarrow> TaskRun option \<times> task_fail option \<times> secret_srv" where
  "dispatchRun E c now runID taskID ver steps agent dec actor st =
     (case send_run c agent \<lparr>tr_RunId = runID, tr_TaskId = taskID, tr_TaskVersion = to_int32 ver,
             tr_Steps = steps, tr_Decision = dec\<rparr> st of
        (Some e, st1) \<Rightarrow> (None, Some e, run_failed E now agent runID actor e st1)
      | (None, st1) \<Rightarrow>
          (case WaitTaskResult E runID st1 of
             (Inl err, st2) \<Rightarrow>
               (None, Some (NoTaskResult err), run_failed E now agent runID actor (NoTaskResult err) st2)
           | (Inr r, st2) \<Rightarrow> take_result now runID agent steps actor r st2))"

section \<open>Running a task\<close>

text \<open>The action the policy sees; an unknown host gives none of the host fields.\<close>

definition task_action :: "(string \<Rightarrow> string) option \<Rightarrow> string \<Rightarrow> string \<Rightarrow> hosts_db \<Rightarrow> Action" where
  "task_action eol agent role db =
     (let a = zero_action\<lparr>ac_ActorRole := role, ac_ActionClass := ActionTaskRun,
                ac_HostEOL := (case eol of None \<Rightarrow> [] | Some p \<Rightarrow> p agent)\<rparr>
      in case Agent_get agent db of
           None \<Rightarrow> a
         | Some h \<Rightarrow> a\<lparr>ac_HostID := a_ID h, ac_HostTags := Tags_of db agent, ac_HostRoles := Roles_of db agent\<rparr>)"

text \<open>Errors of the two policy reads are dropped: the rules are then none, the version 0.\<close>

definition rules_or_none :: "task_env \<Rightarrow> secret_srv \<Rightarrow> Rule list" where
  "rules_or_none E st = (case GetPolicyRules (te_match E) (pol (ss_srv st)) of Inl e \<Rightarrow> [] | Inr rs \<Rightarrow> rs)"

definition version_or_zero :: "secret_srv \<Rightarrow> 64 word" where
  "version_or_zero st = (case PolicyBundleVersion (pol (ss_srv st)) of Inl e \<Rightarrow> 0 | Inr v \<Rightarrow> v)"

definition task_decision ::
  "task_env \<Rightarrow> string \<Rightarrow> string \<Rightarrow> string \<Rightarrow> Action \<Rightarrow> Decision \<Rightarrow> secret_srv \<Rightarrow> pbDecision" where
  "task_decision E priv runID role act d st =
     \<lparr>pd_RunId = runID, pd_BundleVersion = version_or_zero st, pd_Effect = d_Effect d,
      pd_MatchedRules = d_MatchedRules d,
      pd_Sig = SignDecision (te_sign E) priv runID (version_or_zero st) (d_Effect d) (d_MatchedRules d) role [],
      pd_ActorRole = role, pd_ApprovalId = [], pd_EolState = ac_HostEOL act\<rparr>"

definition park_run ::
  "task_env \<Rightarrow> task_ctl \<Rightarrow> int \<Rightarrow> string \<Rightarrow> TaskRun \<Rightarrow> task_actor \<Rightarrow> string \<Rightarrow> Decision \<Rightarrow> secret_srv
   \<Rightarrow> TaskRun option \<times> task_fail option \<times> secret_srv" where
  "park_run E c now aid row actor hosteol d st =
     (case tc_approvals c of
        None \<Rightarrow>
          (Some row, Some (ApprovalsMissing (tn_TaskID row)),
           task_audit now (tn_AgentID row) (tn_ID row) (ta_Principal actor) ''denied''
             ''require_approval without approvals engine; failing closed''
             (finish_run now (tn_ID row) ''failed'' (''denied by policy: '' @ d_Reason d) st))
      | Some ap \<Rightarrow>
          (let st1 = on_tasks (\<lambda>db. snd (MarkTaskRunAwaiting (tn_ID row) db)) st
           in case NewRequest ap now aid
                     \<lparr>np_ActionClass = ActionTaskRun, np_AgentID = tn_AgentID row, np_ExecutionID = [],
                      np_RunID = tn_ID row, np_Actor = ta_Principal actor, np_ActorRole = ta_Role actor,
                      np_MatchedRules = d_MatchedRules d,
                      np_PayloadJSON = te_marshal E \<lparr>tp_TaskID = tn_TaskID row,
                        tp_TaskVersion = tn_TaskVersion row, tp_Reason = EOLReason hosteol\<rparr>\<rparr> (ss_srv st1) of
                (Inl e, s) \<Rightarrow>
                  (Some row, Some (ApprovalNotCreated e),
                   finish_run now (tn_ID row) ''failed''
                     (''approval request: '' @ te_text E (ApprovalNotCreated e)) (st1\<lparr>ss_srv := s\<rparr>))
              | (Inr req, s) \<Rightarrow>
                  (Some row, Some (TaskApprovalRequired (ap_ID req) (tn_ID row)),
                   task_audit now (tn_AgentID row) (tn_ID row) (ta_Principal actor) ''awaiting_approval''
                     (d_Reason d) (st1\<lparr>ss_srv := s\<rparr>))))"

definition new_run :: "int \<Rightarrow> string \<Rightarrow> string \<Rightarrow> int \<Rightarrow> string \<Rightarrow> TaskRun" where
  "new_run now runID taskID ver agent =
     \<lparr>tn_ID = runID, tn_TaskID = taskID, tn_TaskVersion = ver, tn_AgentID = agent, tn_State = [],
      tn_Started = now, tn_Finished = None, tn_Error = []\<rparr>"

definition Run_gated ::
  "task_env \<Rightarrow> task_ctl \<Rightarrow> int \<Rightarrow> string \<Rightarrow> string \<Rightarrow> TaskRun \<Rightarrow> pbTaskStep list \<Rightarrow> task_actor \<Rightarrow> secret_srv
   \<Rightarrow> TaskRun option \<times> task_fail option \<times> secret_srv" where
  "Run_gated E c now aid priv row steps actor st =
     (let act = task_action (tc_eol c) (tn_AgentID row) (ta_Role actor) (hosts (ss_srv st));
          d = EvaluateRunSteps (te_rx E) (rules_or_none E st) act steps
      in if d_Effect d = EffectDeny then
           (let st1 = task_audit now (tn_AgentID row) (tn_ID row) (ta_Principal actor) ''denied'' (d_Reason d)
                        (finish_run now (tn_ID row) ''failed'' (''denied by policy: '' @ d_Reason d) st)
            in (case task_row (tn_ID row) st1 of None \<Rightarrow> Some row | Some r \<Rightarrow> Some r, None, st1))
         else if d_Effect d = EffectRequireApproval then park_run E c now aid row actor (ac_HostEOL act) d st
         else dispatchRun E c now (tn_ID row) (tn_TaskID row) (tn_TaskVersion row) steps (tn_AgentID row)
                (if d_Effect d = EffectAllow
                 then Some (task_decision E priv (tn_ID row) (ta_Role actor) act d st) else None)
                (ta_Principal actor) st)"

definition Run ::
  "task_env \<Rightarrow> task_ctl \<Rightarrow> int \<Rightarrow> string \<Rightarrow> string \<Rightarrow> string \<Rightarrow> string \<Rightarrow> int \<Rightarrow> pbTaskStep list \<Rightarrow> task_actor
   \<Rightarrow> secret_srv \<Rightarrow> TaskRun option \<times> task_fail option \<times> secret_srv" where
  "Run E c now runID aid agent taskID ver steps actor st =
     (let row = new_run now runID taskID ver agent
      in case CreateTaskRun now row (taskdb (ss_srv st)) of
           Inl e \<Rightarrow> (None, Some (TaskNotCreated e), st)
         | Inr db \<Rightarrow>
             (let st1 = on_tasks (\<lambda>_. db) st
              in case tc_ident c of
                   None \<Rightarrow> dispatchRun E c now runID taskID ver steps agent None (ta_Principal actor) st1
                 | Some priv \<Rightarrow> Run_gated E c now aid priv row steps actor st1))"

section \<open>The approved run\<close>

datatype approved_fail =
    BadPayload | RunMissing | RunNotParked string | VersionMissing string int | StepsUndecoded
  | ApprovedFail task_fail

definition approved_task ::
  "task_env \<Rightarrow> ApprovalRequest \<Rightarrow> secret_srv \<Rightarrow> approved_fail + string \<times> int \<times> pbTaskStep list" where
  "approved_task E req st =
     (case te_unmarshal E (ap_PayloadJSON req) of
        None \<Rightarrow> Inl BadPayload
      | Some (taskID, ver) \<Rightarrow>
          (case task_row (ap_RunID req) st of
             None \<Rightarrow> Inl RunMissing
           | Some r \<Rightarrow>
               if tn_State r \<noteq> ''awaiting_approval'' then Inl (RunNotParked (tn_State r))
               else
                 (case TaskVersion_get taskID ver (taskdb (ss_srv st)) of
                    None \<Rightarrow> Inl (VersionMissing taskID ver)
                  | Some v \<Rightarrow>
                      (case te_steps E (tv_StepsJSON v) of
                         None \<Rightarrow> Inl StepsUndecoded
                       | Some steps \<Rightarrow> Inr (taskID, ver, steps)))))"

definition DispatchApprovedTaskRun ::
  "task_env \<Rightarrow> task_ctl \<Rightarrow> int \<Rightarrow> ApprovalRequest \<Rightarrow> pbDecision \<Rightarrow> secret_srv \<Rightarrow> approved_fail option \<times> secret_srv" where
  "DispatchApprovedTaskRun E c now req dec st =
     (case approved_task E req st of
        Inl e \<Rightarrow> (Some e, st)
      | Inr (taskID, ver, steps) \<Rightarrow>
          (case dispatchRun E c now (ap_RunID req) taskID ver steps (ap_AgentID req) (Some dec) (ap_Actor req) st of
             (_, err, st1) \<Rightarrow> (map_option ApprovedFail err, st1)))"

section \<open>Playbooks\<close>

datatype playbook_fail =
    PlaybookMissing | PlaybookTask string int | PlaybookSteps | PlaybookSelector sel_error

text \<open>\<open>errors.As\<close>: no error, or a parked run.\<close>

definition kept :: "task_fail option \<Rightarrow> bool" where
  "kept err = (case err of None \<Rightarrow> True | Some (TaskApprovalRequired _ _) \<Rightarrow> True | _ \<Rightarrow> False)"

text \<open>\<open>rid k\<close> and \<open>aid k\<close> are the fresh ids of the \<open>k\<close>-th host.\<close>

fun playbook_hosts ::
  "task_env \<Rightarrow> task_ctl \<Rightarrow> int \<Rightarrow> (nat \<Rightarrow> string) \<Rightarrow> (nat \<Rightarrow> string) \<Rightarrow> string \<Rightarrow> int \<Rightarrow> pbTaskStep list
   \<Rightarrow> task_actor \<Rightarrow> nat \<Rightarrow> string list \<Rightarrow> secret_srv \<Rightarrow> TaskRun list \<times> (string \<times> task_fail) list \<times> secret_srv" where
  "playbook_hosts E c now rid aid taskID ver steps actor k [] st = ([], [], st)"
| "playbook_hosts E c now rid aid taskID ver steps actor k (h # hs) st =
     (case Run E c now (rid k) (aid k) h taskID ver steps actor st of
        (r, err, st1) \<Rightarrow>
          (case playbook_hosts E c now rid aid taskID ver steps actor (Suc k) hs st1 of
             (rs, errs, st2) \<Rightarrow>
               if \<not> kept err then (rs, (h, the err) # errs, st2)
               else (case r of None \<Rightarrow> rs | Some x \<Rightarrow> x # rs, errs, st2)))"

definition RunPlaybook ::
  "task_env \<Rightarrow> task_ctl \<Rightarrow> int \<Rightarrow> (nat \<Rightarrow> string) \<Rightarrow> (nat \<Rightarrow> string) \<Rightarrow> string \<Rightarrow> task_actor \<Rightarrow> secret_srv
   \<Rightarrow> (playbook_fail + TaskRun list \<times> (string \<times> task_fail) list) \<times> secret_srv" where
  "RunPlaybook E c now rid aid playbookID actor st =
     (case Playbook_get playbookID (taskdb (ss_srv st)) of
        None \<Rightarrow> (Inl PlaybookMissing, st)
      | Some p \<Rightarrow>
          (case TaskVersion_get (pb_TaskID p) (pb_TaskVersion p) (taskdb (ss_srv st)) of
             None \<Rightarrow> (Inl (PlaybookTask (pb_TaskID p) (pb_TaskVersion p)), st)
           | Some v \<Rightarrow>
               (case te_steps E (tv_StepsJSON v) of
                  None \<Rightarrow> (Inl PlaybookSteps, st)
                | Some steps \<Rightarrow>
                    (case ResolveSelector (hosts (ss_srv st)) (pb_Selector p) of
                       Inl e \<Rightarrow> (Inl (PlaybookSelector e), st)
                     | Inr hs \<Rightarrow>
                         (case playbook_hosts E c now rid aid (pb_TaskID p) (pb_TaskVersion p) steps actor 0
                                 (map ID hs) st of
                            (rs, errs, st1) \<Rightarrow> (Inr (rs, errs), st1))))))"

section \<open>Late results\<close>

definition OnLateResult :: "int \<Rightarrow> string \<Rightarrow> string \<Rightarrow> pbTaskRunResult \<Rightarrow> secret_srv \<Rightarrow> bool \<times> secret_srv" where
  "OnLateResult now agent runID r st =
     (case task_row runID st of
        None \<Rightarrow> (False, st)
      | Some _ \<Rightarrow>
          (case result_status r of (status, err) \<Rightarrow>
             (True, task_audit now agent runID ''agent'' status []
                (finish_run now runID status err
                  (on_tasks (fold (record_step_row runID ''unknown'' []) (rp_Steps r)) st)))))"

definition ListRuns :: "int \<Rightarrow> secret_srv \<Rightarrow> TaskRun list" where
  "ListRuns limit st = ListTaskRuns (if limit \<le> 0 \<or> limit > 200 then 50 else limit) (taskdb (ss_srv st))"

section \<open>The worst effect wins\<close>

lemma effect_rank_worse [simp]:
  "effect_rank (d_Effect (worse c d)) = max (effect_rank (d_Effect c)) (effect_rank (d_Effect d))"
  by (simp add: worse_def Let_def max_def)

lemma effect_rank_fold:
  "effect_rank (d_Effect (fold (\<lambda>a c. worse c (f a)) as d)) =
     Max (insert (effect_rank (d_Effect d)) ((\<lambda>a. effect_rank (d_Effect (f a))) ` set as))"
proof (induction as arbitrary: d)
  case (Cons a as)
  show ?case
    by (simp add: Cons.IH) (cases "as = []"; simp add: max.assoc max.left_commute)
qed simp

lemma rank_allow: "effect_rank (d_Effect (Evaluate rx rs a)) = 1 \<longleftrightarrow> d_Effect (Evaluate rx rs a) = EffectAllow"
  by (auto simp: effect_rank_def Evaluate_eq(1))

lemma rank_pos: "1 \<le> effect_rank e"
  by (simp add: effect_rank_def)

lemma worse_effect: "d_Effect (worse c d) = d_Effect c \<or> d_Effect (worse c d) = d_Effect d"
  by (simp add: worse_def Let_def)

lemma fold_effect:
  "d_Effect (fold (\<lambda>a c. worse c (f a)) as d) \<in> insert (d_Effect d) ((\<lambda>a. d_Effect (f a)) ` set as)"
proof (induction as arbitrary: d)
  case (Cons a as)
  show ?case using Cons.IH [of "worse d (f a)"] worse_effect [of d "f a"] by auto
qed simp

text \<open>
  the gate over a task run is exactly as strict as its strictest part: the decision's effect
  has the largest rank (deny, then approval, then allow) among the task.run action and the
  actions of the package and command-like steps, and it is one of their effects.
\<close>

theorem EvaluateRunSteps_worst:
  "effect_rank (d_Effect (EvaluateRunSteps rx rs act steps)) =
     Max ((\<lambda>a. effect_rank (d_Effect (Evaluate rx rs a))) ` set (act # StepActions act steps)) \<and>
   d_Effect (EvaluateRunSteps rx rs act steps) \<in>
     (\<lambda>a. d_Effect (Evaluate rx rs a)) ` set (act # StepActions act steps)"
  unfolding EvaluateRunSteps_def
  using effect_rank_fold [of "Evaluate rx rs" "StepActions act steps" "Evaluate rx rs act"]
    fold_effect [of "Evaluate rx rs" "StepActions act steps" "Evaluate rx rs act"]
  by simp

lemma EvaluateRunSteps_effects:
  "d_Effect (EvaluateRunSteps rx rs act steps) \<in> {EffectDeny, EffectRequireApproval, EffectAllow}"
proof -
  have "d_Effect (Evaluate rx rs a) \<in> {EffectDeny, EffectRequireApproval, EffectAllow}" for a
    by (simp add: Evaluate_eq(1))
  then have "(\<lambda>a. d_Effect (Evaluate rx rs a)) ` A \<subseteq> {EffectDeny, EffectRequireApproval, EffectAllow}" for A
    by blast
  moreover have "d_Effect (EvaluateRunSteps rx rs act steps) \<in>
      (\<lambda>a. d_Effect (Evaluate rx rs a)) ` insert act (set (StepActions act steps))"
    using fold_effect [of "Evaluate rx rs" "StepActions act steps" "Evaluate rx rs act"]
    unfolding EvaluateRunSteps_def image_insert .
  ultimately show ?thesis by (rule subsetD)
qed

lemma EvaluateRunSteps_allow:
  "d_Effect (EvaluateRunSteps rx rs act steps) = EffectAllow \<longleftrightarrow>
     (\<forall>a \<in> set (act # StepActions act steps). d_Effect (Evaluate rx rs a) = EffectAllow)" (is "?l \<longleftrightarrow> ?r")
proof -
  let ?f = "\<lambda>a. effect_rank (d_Effect (Evaluate rx rs a))"
  have "?l \<longleftrightarrow> effect_rank (d_Effect (EvaluateRunSteps rx rs act steps)) = 1"
    using EvaluateRunSteps_effects [of rx rs act steps] by (auto simp: effect_rank_def)
  also have "\<dots> \<longleftrightarrow> Max (insert (?f act) (?f ` set (StepActions act steps))) = 1"
    unfolding EvaluateRunSteps_def effect_rank_fold ..
  also have "\<dots> \<longleftrightarrow> (\<forall>a \<in> set (act # StepActions act steps). ?f a \<le> 1)"
    using rank_pos [of "d_Effect (Evaluate rx rs act)"]
    by (subst Max_eq_iff) (auto intro: antisym simp: rank_pos le_antisym)
  also have "\<dots> \<longleftrightarrow> ?r" using rank_allow rank_pos by (metis le_antisym order_refl)
  finally show ?thesis .
qed

section \<open>Server and agent agree\<close>

lemma server_stepCommandLine_eq: "server_stepCommandLine s = stepCommandLine s"
  by (simp add: server_stepCommandLine_def stepCommandLine_def)

lemma exec_step_action_eq: "exec_step_action = step_exec_action"
  by (rule ext)+ (simp add: exec_step_action_def step_exec_action_def)

lemma StepActions_pass:
  "(\<forall>a \<in> set (StepActions act steps). d_Effect (Evaluate rx rs a) = EffectAllow) \<longleftrightarrow>
     (\<forall>s \<in> set steps. step_passes rx rs act s)"
proof (induction steps)
  case (Cons s ss)
  then show ?case
    by (cases "stepCommandLine s")
      (auto simp: step_passes_def server_stepCommandLine_eq exec_step_action_eq)
qed simp

lemma step_passes_perm: "set rs = set rs' \<Longrightarrow> step_passes rx rs a s \<longleftrightarrow> step_passes rx rs' a s"
  by (simp add: step_passes_def Evaluate_allow_iff)

lemma local_task_action:
  assumes "agentID g = agent" "hostTags g = Tags_of db agent" "hostRoles g = Roles_of db agent"
    and "hostEOL g = (case eol of None \<Rightarrow> [] | Some p \<Rightarrow> p agent)"
    and "Agent_get agent db = Some h" "a_ID h = agent"
    and "pd_ActorRole d = role" "pd_EolState d = (case eol of None \<Rightarrow> [] | Some p \<Rightarrow> p agent)"
  shows "local_action g d (zero_action\<lparr>ac_ActionClass := ActionTaskRun\<rparr>) = task_action eol agent role db"
  using assms by (simp add: local_action_def task_action_def eolFor_def zero_action_def Let_def)

section \<open>What a run puts on the streams\<close>

definition task_sent :: "string \<Rightarrow> secret_srv \<Rightarrow> pbTaskRun \<Rightarrow> bool" where
  "task_sent runID st tr \<longleftrightarrow> tr_RunId tr = runID \<and> ETaskRun tr \<in> snd ` set (sent (ss_srv st))"

text \<open>The other handlers, and the materializer, send no run of this id.\<close>

definition no_new_runs :: "string \<Rightarrow> (secret_srv \<Rightarrow> 'r \<times> secret_srv) \<Rightarrow> bool" where
  "no_new_runs runID f \<longleftrightarrow>
     (\<forall>s r s' tr. f s = (r, s') \<longrightarrow> task_sent runID s' tr \<longrightarrow> task_sent runID s tr)"

definition quiet_env :: "task_env \<Rightarrow> task_ctl \<Rightarrow> string \<Rightarrow> bool" where
  "quiet_env E c runID \<longleftrightarrow> no_new_runs runID (te_await E runID) \<and>
     (\<forall>m agent name ref. tc_secrets c = Some m \<longrightarrow> no_new_runs runID (m agent name ref))"

lemma task_sent_on_tasks [simp]: "task_sent i (on_tasks f st) = task_sent i st"
  by (rule ext) (simp add: task_sent_def on_tasks_def on_srv_def)

lemma task_sent_audit [simp]: "task_sent i (task_audit now agent run actor state err st) = task_sent i st"
  by (rule ext) (simp add: task_sent_def task_audit_def on_srv_def emit_def append_audit_def)

lemma task_sent_finish [simp]: "task_sent i (finish_run now run state err st) = task_sent i st"
  by (simp add: finish_run_def)

lemma task_sent_failed [simp]: "task_sent i (run_failed E now agent run actor e st) = task_sent i st"
  by (simp add: run_failed_def)

lemma NewRequest_sent: "NewRequest ap now i p s = (r, s') \<Longrightarrow> sent s' = sent s"
  by (auto simp: NewRequest_def Let_def approval_emit_def approval_audit_def emit_def append_audit_def
      split: sum.splits)

lemma task_sent_same: "sent s = sent (ss_srv st) \<Longrightarrow> task_sent i (st\<lparr>ss_srv := s\<rparr>) = task_sent i st"
  by (rule ext) (simp add: task_sent_def)

lemma no_new_runsD: "no_new_runs i f \<Longrightarrow> f s = (r, s') \<Longrightarrow> task_sent i s' tr \<Longrightarrow> task_sent i s tr"
  unfolding no_new_runs_def by blast

lemma mat_loop_quiet:
  "(\<And>name. no_new_runs i (mat agent name ref)) \<Longrightarrow> mat_loop mat agent ref names s = (r, s') \<Longrightarrow>
     task_sent i s' tr \<Longrightarrow> task_sent i s tr"
  by (induction names arbitrary: s) (auto split: prod.splits sum.splits dest: no_new_runsD)

lemma warm_secrets_quiet:
  assumes "quiet_env E c i" "warm_secrets c agent ref steps s = (r, s')" "task_sent i s' tr"
  shows "task_sent i s tr"
proof (cases "StepSecretRefs steps = [] \<or> tc_secrets c = None")
  case True
  then show ?thesis using assms(2,3) by (auto simp: warm_secrets_def MaterializeForRun_def split: if_splits)
next
  case False
  then obtain m where m: "tc_secrets c = Some m" by auto
  with assms(1) have "no_new_runs i (m agent name ref)" for name by (simp add: quiet_env_def)
  from mat_loop_quiet [of i m agent ref, OF this] show ?thesis
    using assms(2,3) False m by (auto simp: warm_secrets_def MaterializeForRun_def)
qed

lemma SendTaskRun_sent:
  "SendTaskRun agent tr s = (r, s') \<Longrightarrow> snd ` set (sent s') \<subseteq> insert (ETaskRun tr) (snd ` set (sent s))"
  by (auto simp: SendTaskRun_def sess_send_def Let_def split: option.splits if_splits prod.splits)

lemma send_run_sent:
  assumes "quiet_env E c i" "send_run c agent tr s = (r, s')" "task_sent i s' tr'"
  shows "tr' = tr \<or> task_sent i s tr'"
proof -
  obtain e s1 where w: "warm_secrets c agent (tr_RunId tr) (tr_Steps tr) s = (e, s1)" by fastforce
  show ?thesis
  proof (cases e)
    case (Some x)
    with w assms show ?thesis by (auto simp: send_run_def dest: warm_secrets_quiet)
  next
    case None
    obtain e2 s2 where t: "SendTaskRun agent tr (ss_srv s1) = (e2, s2)" by fastforce
    from assms(2) w None t have "s' = s1\<lparr>ss_srv := s2\<rparr>"
      by (auto simp: send_run_def split: option.splits)
    with assms(3) SendTaskRun_sent [OF t] have "tr' = tr \<or> task_sent i s1 tr'"
      by (auto simp: task_sent_def)
    with warm_secrets_quiet [OF assms(1) w] show ?thesis by blast
  qed
qed

lemma WaitTaskResult_quiet:
  assumes "quiet_env E c i" "WaitTaskResult E i s = (r, s')" "task_sent i s' tr"
  shows "task_sent i s tr"
proof (cases "taskPending (ss_srv s) i")
  case None
  then show ?thesis using assms by (simp add: WaitTaskResult_def)
next
  case (Some ch)
  obtain r1 s1 where a: "te_await E i s = (r1, s1)" by fastforce
  have "task_sent i s1 tr"
    using assms(2,3) Some a by (auto simp: WaitTaskResult_def on_srv_def task_sent_def)
  then show ?thesis using assms(1) a by (auto simp: quiet_env_def dest: no_new_runsD)
qed

lemma task_sent_take_result:
  "take_result now i agent steps actor r s = (x, y, s') \<Longrightarrow> task_sent j s' = task_sent j s"
  by (auto simp: take_result_def Let_def split: prod.splits if_splits)

lemma dispatchRun_sent:
  assumes "quiet_env E c i" "dispatchRun E c now i taskID ver steps agent dec actor s = (x, y, s')"
    and "task_sent i s' tr"
  shows "tr = \<lparr>tr_RunId = i, tr_TaskId = taskID, tr_TaskVersion = to_int32 ver, tr_Steps = steps,
    tr_Decision = dec\<rparr> \<or> task_sent i s tr"
proof -
  let ?tr = "\<lparr>tr_RunId = i, tr_TaskId = taskID, tr_TaskVersion = to_int32 ver, tr_Steps = steps, tr_Decision = dec\<rparr>"
  obtain e s1 where d: "send_run c agent ?tr s = (e, s1)" by fastforce
  note step = send_run_sent [OF assms(1) d]
  show ?thesis
  proof (cases e)
    case (Some err)
    with d assms(2,3) have "task_sent i s1 tr" by (auto simp: dispatchRun_def)
    with step show ?thesis by blast
  next
    case None
    obtain r s2 where w: "WaitTaskResult E i s1 = (r, s2)" by fastforce
    note quiet = WaitTaskResult_quiet [OF assms(1) w]
    from d w None assms(2,3) have "task_sent i s2 tr"
      by (auto simp: dispatchRun_def task_sent_take_result split: sum.splits)
    with quiet step show ?thesis by blast
  qed
qed

lemma park_run_sent:
  "park_run E c now aid row actor eolst d s = (x, y, s') \<Longrightarrow> task_sent i s' = task_sent i s"
proof -
  assume p: "park_run E c now aid row actor eolst d s = (x, y, s')"
  show ?thesis
  proof (cases "tc_approvals c")
    case None
    with p show ?thesis by (auto simp: park_run_def)
  next
    case (Some ap)
    with p show ?thesis
      by (auto simp: park_run_def Let_def task_sent_same [OF NewRequest_sent] split: sum.splits prod.splits)
  qed
qed

lemma policy_frame [simp]:
  "rules_or_none E (on_tasks f st) = rules_or_none E st"
  "version_or_zero (on_tasks f st) = version_or_zero st"
  "hosts (ss_srv (on_tasks f st)) = hosts (ss_srv st)"
  by (simp_all add: rules_or_none_def version_or_zero_def on_tasks_def on_srv_def)

lemma task_decision_frame [simp]: "task_decision E priv i role act d (on_tasks f st) = task_decision E priv i role act d st"
  by (simp add: task_decision_def)

text \<open>A run reaches a stream only when the policy allows it and all its steps.\<close>

lemma Run_sent:
  assumes "quiet_env E c i" "Run E c now i aid agent taskID ver steps actor st = (x, y, st')"
    and "tc_ident c = Some priv" "task_sent i st' tr" "\<not> task_sent i st tr"
    and a: "a = task_action (tc_eol c) agent (ta_Role actor) (hosts (ss_srv st))"
    and d: "d = EvaluateRunSteps (te_rx E) (rules_or_none E st) a steps"
  shows "d_Effect d = EffectAllow \<and>
    tr = \<lparr>tr_RunId = i, tr_TaskId = taskID, tr_TaskVersion = to_int32 ver, tr_Steps = steps,
      tr_Decision = Some (task_decision E priv i (ta_Role actor) a d st)\<rparr>"
proof -
  have "\<exists>db. CreateTaskRun now (new_run now i taskID ver agent) (taskdb (ss_srv st)) = Inr db"
    using assms(2,4,5) by (cases "CreateTaskRun now (new_run now i taskID ver agent) (taskdb (ss_srv st))")
      (auto simp: Run_def Let_def)
  then obtain db where db: "CreateTaskRun now (new_run now i taskID ver agent) (taskdb (ss_srv st)) = Inr db" ..
  let ?st = "on_tasks (\<lambda>_. db) st"
  have run: "Run_gated E c now aid priv (new_run now i taskID ver agent) steps actor ?st = (x, y, st')"
    using assms(2,3) db by (simp add: Run_def Let_def)
  have new: "\<not> task_sent i ?st tr" using assms(5) by simp
  have row: "tn_ID (new_run now i taskID ver agent) = i" "tn_TaskID (new_run now i taskID ver agent) = taskID"
    "tn_TaskVersion (new_run now i taskID ver agent) = ver" "tn_AgentID (new_run now i taskID ver agent) = agent"
    by (simp_all add: new_run_def)
  from EvaluateRunSteps_effects [of "te_rx E" "rules_or_none E st" a steps] consider
      "d_Effect d = EffectDeny" | "d_Effect d = EffectRequireApproval" | "d_Effect d = EffectAllow"
    unfolding d by auto
  then show ?thesis
  proof cases
    case 1
    with run new assms(4) show ?thesis by (auto simp: Run_gated_def row a d Let_def)
  next
    case 2
    with run new assms(4) show ?thesis
      by (auto simp: Run_gated_def row a d Let_def dest!: park_run_sent [where i = i])
  next
    case 3
    with run have "dispatchRun E c now i taskID ver steps agent
        (Some (task_decision E priv i (ta_Role actor) a d st)) (ta_Principal actor) ?st = (x, y, st')"
      by (simp add: Run_gated_def row a d Let_def)
    from dispatchRun_sent [OF assms(1) this assms(4)] new 3 show ?thesis by blast
  qed
qed

lemma task_allowed_at_agent:
  assumes "loaded g" "version g = pd_BundleVersion d" "set (rules g) = set rs" "serverPub g = pub"
    and "tr_Decision tr = Some d" "pd_ApprovalId d = []" "pd_Effect d = EffectAllow"
    and "pub \<noteq> [] \<longrightarrow> VerifyDecision verify pub (pd_RunId d) (pd_BundleVersion d) (pd_Effect d)
        (pd_MatchedRules d) (pd_ActorRole d) (pd_ApprovalId d) (pd_Sig d)"
    and "local_action g d (zero_action\<lparr>ac_ActionClass := ActionTaskRun\<rparr>) = a"
    and "d_Effect (EvaluateRunSteps rx rs a (tr_Steps tr)) = EffectAllow"
  shows "fst (RecheckTask rx verify g tr)"
proof -
  have c: "check_decision verify g ''task run'' (tr_Decision tr) = Inr d"
    using assms(1,2,4,5,8) by (simp add: check_decision_Inr)
  have e: "d_Effect (Evaluate rx rs a) = EffectAllow" "\<forall>s \<in> set (tr_Steps tr). step_passes rx rs a s"
    using assms(10) StepActions_pass [of a "tr_Steps tr" rx rs] by (simp_all add: EvaluateRunSteps_allow)
  have "d_Effect (Evaluate rx (rules g) a) = EffectAllow"
    using e(1) assms(3) by (simp add: Evaluate_allow_iff)
  moreover have "recheck_steps rx g a (tr_Steps tr) = None"
    using e(2) step_passes_perm [OF assms(3)] by (simp add: recheck_steps_None)
  ultimately show ?thesis
    using c assms(6,7,9) by (simp add: RecheckTask_def Let_def server_effect_check_def)
qed

text \<open>
  The guard that received the bundle pushed in the same state accepts every task run whose
  decision was signed for it over its steps.
\<close>

lemma pushed_guard_accepts:
  assumes push: "sent (pushPolicyBundle (te_match E) marshal hash64 pub64 eolp agent sid (ss_srv st)) =
      sent (ss_srv st) @ [(sid, EPolicyBundle b)]"
    and pol: "GetPolicyRules (te_match E) (pol (ss_srv st)) = Inr rs"
      "PolicyBundleVersion (pol (ss_srv st)) = Inr v" "v \<noteq> 0 \<or> rs = []"
    and json: "marshal (sort_key r_ID rs) \<noteq> []"
      "unmarshal (rules g) (marshal (sort_key r_ID rs)) = (sort_key r_ID rs, True)"
    and key: "pub64 \<noteq> []" "b64dec pub64 = Some pub" "\<And>m. verify pub m (te_sign E priv m)"
    and host: "agent \<noteq> []" "Agent_get agent (hosts (ss_srv st)) = Some h"
    and a: "a = task_action eolp agent role (hosts (ss_srv st))"
    and allow: "d_Effect (EvaluateRunSteps (te_rx E) (rules_or_none E st) a (tr_Steps tr)) = EffectAllow"
    and dec: "tr_Decision tr = Some (task_decision E priv i role a
      (EvaluateRunSteps (te_rx E) (rules_or_none E st) a (tr_Steps tr)) st)"
  shows "fst (RecheckTask (te_rx E) verify (fst (OnBundle marshal unmarshal b64dec b g fs)) tr)"
proof -
  let ?g = "fst (OnBundle marshal unmarshal b64dec b g fs)"
  let ?d = "task_decision E priv i role a (EvaluateRunSteps (te_rx E) (rules_or_none E st) a (tr_Steps tr)) st"
  have rs: "rules_or_none E st = rs" "version_or_zero st = v"
    using pol by (simp_all add: rules_or_none_def version_or_zero_def)
  note b = pushed_bundle [OF push pol]
  have g: "loaded ?g" "version ?g = v" "rules ?g = sort_key r_ID rs" "serverPub ?g = pub"
    "hostTags ?g = Tags_of (hosts (ss_srv st)) agent" "hostRoles ?g = Roles_of (hosts (ss_srv st)) agent"
    "agentID ?g = agent" "hostEOL ?g = (case eolp of None \<Rightarrow> [] | Some p \<Rightarrow> p agent)"
    using OnBundle_guard [of unmarshal g b "sort_key r_ID rs" b64dec pub ?g marshal fs] b json key(1,2) host(1)
    by auto
  have d: "pd_BundleVersion ?d = v" "pd_ApprovalId ?d = []" "pd_Effect ?d = EffectAllow"
    "pd_ActorRole ?d = role" "pd_EolState ?d = (case eolp of None \<Rightarrow> [] | Some p \<Rightarrow> p agent)"
    using allow rs host(2) a by (simp_all add: task_decision_def task_action_def Let_def)
  have id: "a_ID h = agent" using host(2) by (auto simp: Agent_get_def dest: sql_get_SomeD)
  show ?thesis
  proof (rule task_allowed_at_agent)
    show "set (rules ?g) = set rs" using g(3) by simp
    show "local_action ?g ?d (zero_action\<lparr>ac_ActionClass := ActionTaskRun\<rparr>) = a"
      unfolding a by (rule local_task_action [OF g(7,5,6,8) host(2) id d(4,5) [unfolded a]])
    show "d_Effect (EvaluateRunSteps (te_rx E) rs a (tr_Steps tr)) = EffectAllow"
      using allow rs by simp
    show "pub \<noteq> [] \<longrightarrow> VerifyDecision verify pub (pd_RunId ?d) (pd_BundleVersion ?d) (pd_Effect ?d)
        (pd_MatchedRules ?d) (pd_ActorRole ?d) (pd_ApprovalId ?d) (pd_Sig ?d)"
      using key(3) by (simp add: VerifyDecision_def SignDecision_def task_decision_def)
  qed (use g d dec in simp_all)
qed

text \<open>
  C25: server and agent agree on task runs, step by step: a run that \<open>Run\<close> puts on a stream is accepted
  by the agent's guardrail once it has received the bundle the server pushes in the same state.
  So every step the server cleared, the agent clears: the two command lines, the two step
  actions and the two views of the host coincide.  Asked of the environment: signatures verify,
  the rules survive their JSON text, the key decodes, and nobody else sends a run of this id.
\<close>

theorem dispatched_task_accepted:
  assumes "Run E c now i aid agent taskID ver steps actor st = (x, y, st')"
    and "quiet_env E c i" "task_sent i st' tr" "\<not> task_sent i st tr"
    and push: "sent (pushPolicyBundle (te_match E) marshal hash64 pub64 (tc_eol c) agent sid (ss_srv st)) =
      sent (ss_srv st) @ [(sid, EPolicyBundle b)]"
    and pol: "GetPolicyRules (te_match E) (pol (ss_srv st)) = Inr rs"
      "PolicyBundleVersion (pol (ss_srv st)) = Inr v" "v \<noteq> 0 \<or> rs = []"
    and json: "marshal (sort_key r_ID rs) \<noteq> []"
      "unmarshal (rules g) (marshal (sort_key r_ID rs)) = (sort_key r_ID rs, True)"
    and key: "tc_ident c = Some priv" "pub64 \<noteq> []" "b64dec pub64 = Some pub" "\<And>m. verify pub m (te_sign E priv m)"
    and host: "agent \<noteq> []" "Agent_get agent (hosts (ss_srv st)) = Some h"
  shows "fst (RecheckTask (te_rx E) verify (fst (OnBundle marshal unmarshal b64dec b g fs)) tr)"
proof -
  let ?a = "task_action (tc_eol c) agent (ta_Role actor) (hosts (ss_srv st))"
  note sent = Run_sent [OF assms(2,1) key(1) assms(3,4) refl refl]
  then have steps: "tr_Steps tr = steps" by simp
  show ?thesis
  proof (rule pushed_guard_accepts [where E = E and eolp = "tc_eol c" and marshal = marshal and ?hash64.0 = hash64
        and ?pub64.0 = pub64 and agent = agent and sid = sid and st = st and b = b and rs = rs and v = v
        and priv = priv and h = h and role = "ta_Role actor" and i = i and a = ?a and pub = pub])
    show "d_Effect (EvaluateRunSteps (te_rx E) (rules_or_none E st) ?a (tr_Steps tr)) = EffectAllow"
      "tr_Decision tr = Some (task_decision E priv i (ta_Role actor) ?a
        (EvaluateRunSteps (te_rx E) (rules_or_none E st) ?a (tr_Steps tr)) st)"
      using sent steps by simp_all
  qed (use push pol json key host in auto)
qed

section \<open>Rows\<close>

lemma task_row_finish:
  "task_row i (finish_run now j state err st) =
     map_option (\<lambda>r. if tn_ID r = j then r\<lparr>tn_State := state, tn_Error := err, tn_Finished := Some now\<rparr> else r)
       (task_row i st)"
  by (simp add: finish_run_def on_tasks_def on_srv_def FinalizeTaskRun_def Let_def TaskRun_get_def sql_get_update)

lemma task_row_audit [simp]: "task_row i (task_audit now agent run actor state err st) = task_row i st"
  by (simp add: task_audit_def on_srv_def emit_def append_audit_def)

lemma task_row_id: "task_row i st = Some r \<Longrightarrow> tn_ID r = i"
  by (auto simp: TaskRun_get_def dest: sql_get_SomeD)

lemma record_step_row_runs [simp]: "task_runs (record_step_row i kind name sr db) = task_runs db"
  by (auto simp: record_step_row_def RecordTaskRunStep_def split: sum.splits if_splits)

lemma fold_record_runs [simp]: "task_runs (fold (record_step_row i kind name) srs db) = task_runs db"
  by (induction srs arbitrary: db) simp_all

lemma record_steps_runs: "record_steps steps i k srs db = (ok, db') \<Longrightarrow> task_runs db' = task_runs db"
  by (induction srs arbitrary: k db) (auto split: option.splits)

lemma task_row_on_tasks:
  "task_runs (f (taskdb (ss_srv st))) = task_runs (taskdb (ss_srv st)) \<Longrightarrow> task_row i (on_tasks f st) = task_row i st"
  by (simp add: on_tasks_def on_srv_def TaskRun_get_def)

text \<open>
  a late result is taken from any agent and in any state of the run: whoever reports a known
  run id, and whether the run was denied, failed or finished, its row ends with the reported
  state and error.
\<close>

theorem late_result_overwrites:
  assumes "task_row i st = Some r"
  shows "fst (OnLateResult now agent i res st) \<and>
    task_row i (snd (OnLateResult now agent i res st)) =
      Some (r\<lparr>tn_State := rp_State res, tn_Finished := Some now,
        tn_Error := (if rp_State res = ''succeeded'' then [] else rp_Error res)\<rparr>)"
  using assms task_row_id [OF assms]
  by (simp add: OnLateResult_def task_row_finish task_row_on_tasks result_status_def)

text \<open>
  an unreadable rule table opens the gate: when \<open>GetPolicyRules\<close> fails, a task run is dispatched
  with an allow decision that no rule matched, where the command dispatch fails.
\<close>

theorem task_gate_fails_open:
  assumes "GetPolicyRules (te_match E) (pol (ss_srv st)) = Inl e"
  shows "Run_gated E c now aid priv row steps actor st =
    dispatchRun E c now (tn_ID row) (tn_TaskID row) (tn_TaskVersion row) steps (tn_AgentID row)
      (Some (task_decision E priv (tn_ID row) (ta_Role actor)
         (task_action (tc_eol c) (tn_AgentID row) (ta_Role actor) (hosts (ss_srv st)))
         (EvaluateRunSteps (te_rx E) [] (task_action (tc_eol c) (tn_AgentID row) (ta_Role actor) (hosts (ss_srv st))) steps)
         st)) (ta_Principal actor) st"
proof -
  have "d_Effect (EvaluateRunSteps (te_rx E) [] a steps) = EffectAllow" for a
    by (simp add: EvaluateRunSteps_allow Evaluate_allow_iff)
  with assms show ?thesis by (simp add: Run_gated_def rules_or_none_def Let_def)
qed

section \<open>Every run settles\<close>

definition settled :: "string \<Rightarrow> secret_srv \<Rightarrow> bool" where
  "settled i st \<longleftrightarrow>
     (case task_row i st of None \<Rightarrow> False | Some r \<Rightarrow> tn_Finished r \<noteq> None \<or> tn_State r = ''awaiting_approval'')"

definition keeps_row :: "string \<Rightarrow> (secret_srv \<Rightarrow> 'r \<times> secret_srv) \<Rightarrow> bool" where
  "keeps_row i f \<longleftrightarrow> (\<forall>s r s'. f s = (r, s') \<longrightarrow> task_row i s \<noteq> None \<longrightarrow> task_row i s' \<noteq> None)"

definition keeping_env :: "task_env \<Rightarrow> task_ctl \<Rightarrow> string \<Rightarrow> bool" where
  "keeping_env E c i \<longleftrightarrow> keeps_row i (te_await E i) \<and>
     (\<forall>m agent name ref. tc_secrets c = Some m \<longrightarrow> keeps_row i (m agent name ref))"

lemma keeps_rowD: "keeps_row i f \<Longrightarrow> f s = (r, s') \<Longrightarrow> task_row i s = Some x \<Longrightarrow> \<exists>x'. task_row i s' = Some x'"
  unfolding keeps_row_def by (metis not_None_eq)

lemma mat_loop_row:
  "(\<And>name. keeps_row i (mat agent name ref)) \<Longrightarrow> mat_loop mat agent ref names s = (r, s') \<Longrightarrow>
     task_row i s = Some x \<Longrightarrow> \<exists>x'. task_row i s' = Some x'"
proof (induction names arbitrary: s x)
  case (Cons n ns)
  obtain r1 s1 where m: "mat agent n ref s = (r1, s1)" by fastforce
  from keeps_rowD [OF Cons.prems(1) m Cons.prems(3)] obtain x1 where "task_row i s1 = Some x1" ..
  with Cons.IH [OF Cons.prems(1)] Cons.prems(2) m show ?case by (auto split: sum.splits)
qed auto

lemma warm_secrets_row:
  assumes "keeping_env E c i" "warm_secrets c agent ref steps s = (r, s')" "task_row i s = Some x"
  shows "\<exists>x'. task_row i s' = Some x'"
proof (cases "StepSecretRefs steps = [] \<or> tc_secrets c = None")
  case True
  then show ?thesis using assms(2,3) by (auto simp: warm_secrets_def MaterializeForRun_def split: if_splits)
next
  case False
  then obtain m where m: "tc_secrets c = Some m" by auto
  with assms(1) have "keeps_row i (m agent name ref)" for name by (simp add: keeping_env_def)
  from mat_loop_row [of i m agent ref, OF this] show ?thesis
    using assms(2,3) False m by (auto simp: warm_secrets_def MaterializeForRun_def)
qed

lemma SendTaskRun_taskdb: "SendTaskRun agent tr s = (r, s') \<Longrightarrow> taskdb s' = taskdb s"
  by (auto simp: SendTaskRun_def sess_send_def Let_def split: option.splits if_splits prod.splits)

lemma send_run_row:
  assumes "keeping_env E c i" "send_run c agent tr s = (r, s')" "task_row i s = Some x"
  shows "\<exists>x'. task_row i s' = Some x'"
proof -
  obtain e s1 where w: "warm_secrets c agent (tr_RunId tr) (tr_Steps tr) s = (e, s1)" by fastforce
  obtain e2 s2 where t: "SendTaskRun agent tr (ss_srv s1) = (e2, s2)" by fastforce
  from assms(2) w t have "s' = s1 \<or> s' = s1\<lparr>ss_srv := s2\<rparr>"
    by (auto simp: send_run_def split: option.splits)
  with warm_secrets_row [OF assms(1) w assms(3)] SendTaskRun_taskdb [OF t] show ?thesis by auto
qed

lemma WaitTaskResult_row:
  assumes "keeping_env E c i" "WaitTaskResult E i s = (r, s')" "task_row i s = Some x"
  shows "\<exists>x'. task_row i s' = Some x'"
proof (cases "taskPending (ss_srv s) i")
  case None
  with assms show ?thesis by (simp add: WaitTaskResult_def)
next
  case (Some ch)
  obtain r1 s1 where a: "te_await E i s = (r1, s1)" by fastforce
  have "\<exists>x'. task_row i s1 = Some x'"
    using assms(1,3) a by (auto simp: keeping_env_def dest: keeps_rowD)
  with assms(2) Some a show ?thesis by (auto simp: WaitTaskResult_def on_srv_def)
qed

lemma settled_finish: "task_row i st = Some r \<Longrightarrow> settled i (finish_run now i state err st)"
  using task_row_id [of i st r] by (simp add: settled_def task_row_finish)

lemma settled_audit [simp]: "settled i (task_audit now agent run actor state err st) = settled i st"
  by (simp add: settled_def)

lemma dispatchRun_settles:
  assumes "keeping_env E c i" "dispatchRun E c now i taskID ver steps agent dec actor s = (x, y, s')"
    and "task_row i s = Some r0" "y \<noteq> Some StepIndexPanic"
  shows "settled i s'"
proof -
  let ?tr = "\<lparr>tr_RunId = i, tr_TaskId = taskID, tr_TaskVersion = to_int32 ver, tr_Steps = steps, tr_Decision = dec\<rparr>"
  obtain e s1 where d: "send_run c agent ?tr s = (e, s1)" by fastforce
  from send_run_row [OF assms(1) d assms(3)] obtain r1 where r1: "task_row i s1 = Some r1" ..
  show ?thesis
  proof (cases e)
    case (Some err)
    with d assms(2) r1 show ?thesis by (auto simp: dispatchRun_def run_failed_def intro: settled_finish)
  next
    case None
    obtain r s2 where w: "WaitTaskResult E i s1 = (r, s2)" by fastforce
    from WaitTaskResult_row [OF assms(1) w r1] obtain r2 where r2: "task_row i s2 = Some r2" ..
    show ?thesis
    proof (cases r)
      case (Inl err)
      with d w None assms(2) r2 show ?thesis by (auto simp: dispatchRun_def run_failed_def intro: settled_finish)
    next
      case (Inr res)
      obtain ok db where rec: "record_steps steps i 0 (rp_Steps res) (taskdb (ss_srv s2)) = (ok, db)" by fastforce
      have "task_row i (on_tasks (\<lambda>_. db) s2) = Some r2"
        using record_steps_runs [OF rec] r2 by (simp add: task_row_on_tasks)
      with d w None Inr assms(2,4) rec show ?thesis
        by (auto simp: dispatchRun_def take_result_def result_status_def Let_def split: if_splits intro: settled_finish)
    qed
  qed
qed

lemma CreateTaskRun_row:
  assumes "CreateTaskRun now (new_run now i taskID ver agent) (taskdb (ss_srv st)) = Inr db"
  shows "\<exists>r. task_row i (on_tasks (\<lambda>_. db) st) = Some r"
  using assms
  by (auto simp: CreateTaskRun_def new_run_def Let_def on_tasks_def on_srv_def TaskRun_get_def sql_get_append
      split: if_splits option.splits)

lemma NewRequest_taskdb: "NewRequest ap now i p s = (r, s') \<Longrightarrow> taskdb s' = taskdb s"
  by (auto simp: NewRequest_def Let_def approval_emit_def approval_audit_def emit_def append_audit_def
      split: sum.splits)

lemma task_row_awaiting:
  "task_row i st = Some r \<Longrightarrow> task_row i (on_tasks (\<lambda>db. snd (MarkTaskRunAwaiting i db)) st) =
     Some (r\<lparr>tn_State := ''awaiting_approval'', tn_Error := []\<rparr>)"
  using task_row_id [of i st r]
  by (simp add: on_tasks_def on_srv_def MarkTaskRunAwaiting_def Let_def TaskRun_get_def sql_get_update)

lemma park_run_settles:
  assumes "park_run E c now aid row actor eolst d st = (x, y, st')" "tn_ID row = i" "task_row i st = Some r"
  shows "settled i st'"
proof (cases "tc_approvals c")
  case None
  with assms show ?thesis by (auto simp: park_run_def intro: settled_finish)
next
  case (Some ap)
  let ?st = "on_tasks (\<lambda>db. snd (MarkTaskRunAwaiting i db)) st"
  let ?p = "\<lparr>np_ActionClass = ActionTaskRun, np_AgentID = tn_AgentID row, np_ExecutionID = [],
    np_RunID = tn_ID row, np_Actor = ta_Principal actor, np_ActorRole = ta_Role actor,
    np_MatchedRules = d_MatchedRules d, np_PayloadJSON = te_marshal E \<lparr>tp_TaskID = tn_TaskID row,
      tp_TaskVersion = tn_TaskVersion row, tp_Reason = EOLReason eolst\<rparr>\<rparr>"
  obtain z s where n: "NewRequest ap now aid ?p (ss_srv ?st) = (z, s)" by fastforce
  have w: "task_row i (?st\<lparr>ss_srv := s\<rparr>) = Some (r\<lparr>tn_State := ''awaiting_approval'', tn_Error := []\<rparr>)"
    using NewRequest_taskdb [OF n] task_row_awaiting [OF assms(3)] by simp
  then have "settled i (?st\<lparr>ss_srv := s\<rparr>)" by (simp add: settled_def)
  with settled_finish [OF w] n Some assms(1,2) show ?thesis
    by (cases z) (auto simp: park_run_def Let_def)
qed


text \<open>A step result beyond the dispatched steps with a negative index panics the recording.\<close>

lemma step_kind_panics:
  "step_kind steps n idx = None \<longleftrightarrow> idx < 0 \<and> (length steps \<le> n \<or> s_Kind (steps ! n) = ''unknown'')"
  by (auto simp: step_kind_def)

section \<open>Witnesses\<close>

text \<open>One host on stream 1, one task, no rules, an agent that answers at once.\<close>

definition task_state :: secret_srv where
  "task_state = \<lparr>ss_srv = open_state\<lparr>taskdb := one_task, sessions := [''h1'' \<mapsto> 1]\<rparr>, ss_secrets = [],
     ss_versions = [], ss_bindings = [], ss_rand = (\<lambda>_ _. []), ss_reads = 0\<rparr>"

definition sample_env :: task_env where
  "sample_env = \<lparr>te_rx = (\<lambda>_. None), te_sign = (\<lambda>k m. m), te_match = sample_match, te_text = (\<lambda>_. []),
     te_marshal = (\<lambda>_. []), te_unmarshal = (\<lambda>_. None), te_steps = (\<lambda>_. None),
     te_await = (\<lambda>_ s. (Inr \<lparr>rp_State = ''succeeded'', rp_Error = [], rp_Steps =
       [\<lparr>sp_StepIndex = 0, sp_State = ''ok'', sp_Detail = [], sp_Started = 1, sp_Finished = 2\<rparr>]\<rparr>, s))\<rparr>"

definition sample_task_ctl :: task_ctl where
  "sample_task_ctl = \<lparr>tc_ident = Some ''k'', tc_approvals = None, tc_secrets = None, tc_eol = None\<rparr>"

definition bob :: task_actor where "bob = \<lparr>ta_Principal = ''bob'', ta_Role = ''operator''\<rparr>"

definition task_sample_out :: "TaskRun option \<times> task_fail option \<times> secret_srv" where
  "task_sample_out = Run sample_env sample_task_ctl 1 ''tr_1'' ''ap_1'' ''h1'' ''t1'' 1 [cmd_step] bob task_state"

definition task_push :: server where
  "task_push = pushPolicyBundle sample_match (\<lambda>_. ''1'') (\<lambda>s. s) ''pk'' None ''h1'' 1 (ss_srv task_state)"

lemma sample_quiet: "quiet_env sample_env sample_task_ctl i" "keeping_env sample_env sample_task_ctl i"
  by (simp_all add: quiet_env_def keeping_env_def no_new_runs_def keeps_row_def sample_env_def sample_task_ctl_def)

theorem dispatched_task_accepted_witness:
  "\<exists>b tr. sent task_push = [(1, EPolicyBundle b)] \<and> task_sent ''tr_1'' (snd (snd task_sample_out)) tr \<and>
    fst (RecheckTask (\<lambda>_. None) (\<lambda>p m s. m = s)
      (fst (OnBundle (\<lambda>_. ''1'') (\<lambda>_ _. ([], True)) Some b (NewGuard ''h1'')
        \<lparr>policy_json = None, policy_meta = None, server_pub = None\<rparr>)) tr)"
proof -
  let ?st' = "snd (snd task_sample_out)"
  have run: "Run sample_env sample_task_ctl 1 ''tr_1'' ''ap_1'' ''h1'' ''t1'' 1 [cmd_step] bob task_state =
      (fst task_sample_out, fst (snd task_sample_out), ?st')"
    by (simp add: task_sample_out_def)
  have "length (sent task_push) = 1 \<and> fst (hd (sent task_push)) = 1 \<and>
      (case snd (hd (sent task_push)) of EPolicyBundle b \<Rightarrow> True | _ \<Rightarrow> False)" by code_simp
  then obtain env where env: "sent task_push = [(1, env)]" "case env of EPolicyBundle b \<Rightarrow> True | _ \<Rightarrow> False"
    by (cases "sent task_push") (auto split del: Envelope.splits)
  then obtain b where b: "sent task_push = [(1, EPolicyBundle b)]" by (cases env) auto
  have "length (sent (ss_srv ?st')) = 1 \<and>
      (case snd (hd (sent (ss_srv ?st'))) of ETaskRun tr \<Rightarrow> tr_RunId tr = ''tr_1'' | _ \<Rightarrow> False)" by code_simp
  then obtain sid env' where env': "sent (ss_srv ?st') = [(sid, env')]"
    "case env' of ETaskRun tr \<Rightarrow> tr_RunId tr = ''tr_1'' | _ \<Rightarrow> False"
    by (cases "sent (ss_srv ?st')") (auto split del: Envelope.splits)
  then obtain tr where tr: "task_sent ''tr_1'' ?st' tr" by (cases env') (auto simp: task_sent_def)
  have e: "sent (ss_srv task_state) = []"
    "Agent_get ''h1'' (hosts (ss_srv task_state)) \<noteq> None"
    by (simp_all add: task_state_def open_state_def dispatch_state_def init_server_def empty_db_def Agent_get_def
        sql_get_def)
  then obtain h where h: "Agent_get ''h1'' (hosts (ss_srv task_state)) = Some h" by blast
  have p: "GetPolicyRules sample_match (pol (ss_srv task_state)) = Inr []"
    "PolicyBundleVersion (pol (ss_srv task_state)) = Inr 0" by code_simp+
  have c: "te_match sample_env = sample_match" "te_sign sample_env = (\<lambda>k m. m)" "te_rx sample_env = (\<lambda>_. None)"
    "tc_eol sample_task_ctl = None" "tc_ident sample_task_ctl = Some ''k''"
    by (simp_all add: sample_env_def sample_task_ctl_def)
  have "fst (RecheckTask (te_rx sample_env) (\<lambda>p m s. m = s)
      (fst (OnBundle (\<lambda>_. ''1'') (\<lambda>_ _. ([], True)) Some b (NewGuard ''h1'')
        \<lparr>policy_json = None, policy_meta = None, server_pub = None\<rparr>)) tr)"
    by (rule dispatched_task_accepted [OF run sample_quiet(1) tr, where rs = "[]" and v = 0 and priv = "''k''"
          and ?pub64.0 = "''pk''" and ?hash64.0 = "\<lambda>s. s" and sid = 1 and pub = "''pk''" and h = h])
      (use e b p c h in \<open>simp_all add: task_sent_def task_push_def\<close>)
  with b tr c(3) show ?thesis by metis
qed

theorem late_result_overwrites_witness:
  "task_row ''tr_1'' (snd (OnLateResult 9 ''h2'' ''tr_1'' \<lparr>rp_State = ''failed'', rp_Error = ''x'', rp_Steps = []\<rparr>
     (snd (snd task_sample_out)))) \<noteq> None"
proof -
  have "task_row ''tr_1'' (snd (snd task_sample_out)) \<noteq> None" by code_simp
  then obtain r where "task_row ''tr_1'' (snd (snd task_sample_out)) = Some r" by blast
  from late_result_overwrites [OF this] show ?thesis by simp
qed


text \<open>A policy row whose match does not decode.\<close>

definition unreadable_env :: task_env where "unreadable_env = sample_env\<lparr>te_match := \<lambda>_. None\<rparr>"

definition unreadable_state :: secret_srv where
  "unreadable_state = task_state\<lparr>ss_srv := dispatch_state\<lparr>taskdb := one_task, sessions := [''h1'' \<mapsto> 1]\<rparr>\<rparr>"

theorem task_gate_fails_open_witness:
  "sent (ss_srv (snd (snd (Run_gated unreadable_env sample_task_ctl 1 ''ap_1'' ''k''
     (new_run 1 ''tr_1'' ''t1'' 1 ''h1'') [cmd_step] bob unreadable_state)))) \<noteq> []"
proof -
  have "\<not> is_ok (GetPolicyRules (te_match unreadable_env) (pol (ss_srv unreadable_state)))" by code_simp
  then obtain e where "GetPolicyRules (te_match unreadable_env) (pol (ss_srv unreadable_state)) = Inl e"
    by (cases "GetPolicyRules (te_match unreadable_env) (pol (ss_srv unreadable_state))") auto
  then show ?thesis by (subst task_gate_fails_open) (assumption, code_simp)
qed

end
