(* ===== verification/JobService.thy ===== *)
theory JobService
  imports TaskDispatch
begin

text \<open>
  The scheduled-job controller of the server, \<open>src/internal/server/jobs/jobs.go\<close>: saving a job under the
  policy, pushing its assignments with one signed standing decision per host, the periodic
  reconcile, the reissue after an agent's update, manual runs with their approval path, and the
  reports of scheduled and manual runs.

  The controller has the fields of the task controller (\<open>task_ctl\<close>) and uses the same environment; its
  stream handler is present.  The goroutine that waits for a manual run's result is the operation
  \<open>job_wait\<close> of its own.
\<close>

section \<open>The stream calls\<close>

definition SendJobAssign :: "string \<Rightarrow> pbJobAssignment \<Rightarrow> server \<Rightarrow> send_error option \<times> server" where
  "SendJobAssign agent ja s =
     (case sessions s agent of
        None \<Rightarrow> (Some NoSession, s)
      | Some sid \<Rightarrow> (case sess_send sid (EJobAssign ja) s of (True, s1) \<Rightarrow> (None, s1) | (False, s1) \<Rightarrow> (Some SendFailed, s1)))"

definition SendJobUnassign :: "string \<Rightarrow> string \<Rightarrow> server \<Rightarrow> send_error option \<times> server" where
  "SendJobUnassign agent job s =
     (case sessions s agent of
        None \<Rightarrow> (Some NoSession, s)
      | Some sid \<Rightarrow> (case sess_send sid (EJobUnassign job) s of (True, s1) \<Rightarrow> (None, s1) | (False, s1) \<Rightarrow> (Some SendFailed, s1)))"

section \<open>Specifications and failures\<close>

record job_spec =
  sj_Name :: string
  sj_TaskID :: string
  sj_TaskVersion :: int
  sj_Cron :: string
  sj_Timezone :: string
  sj_Selector :: string
  sj_MaxRunS :: int
  sj_OverlapPolicy :: string
  sj_FailurePolicy :: string
  sj_RetryBackoffS :: int
  sj_Enabled :: bool
  sj_EnabledSet :: bool

datatype job_fail =
    NoTaskVersion string
  | JobTaskMissing string int
  | JobSteps
  | NoSigningKey
  | JobSelector string sel_error
  | JobDenied "(string \<times> string) list" \<comment> \<open>\<open>PolicyError\<close>: the hosts and why\<close>
  | NoHosts string
  | JobStoreFailed task_error
  | JobMissing
  | RunDenied string
  | RunNeedsEngine string
  | JobApprovalRequired string string
  | JobApprovalFailed approval_error
  | JobSecrets "secret_error run_secret_error"
  | JobNotSent send_error
  | JobRunMissing
  | JobRunNotParked string

definition job_audit :: "int \<Rightarrow> string \<Rightarrow> string \<Rightarrow> string \<Rightarrow> nat \<Rightarrow> string \<Rightarrow> secret_srv \<Rightarrow> secret_srv" where
  "job_audit now kind jobID selector n actor =
     on_srv (\<lambda>s. emit (''job.'' @ kind) [(''job_id'', jobID)]
       (append_audit \<lparr>au_TS = now, au_Kind = ''job'', au_Actor = (if actor = [] then ''system'' else actor),
          au_AgentID = [], au_Payload = [(''kind'', kind), (''job_id'', jobID), (''selector'', selector),
            (''hosts'', show_nat n)]\<rparr> s))"

definition job_emit :: "string \<Rightarrow> string \<Rightarrow> string \<Rightarrow> string \<Rightarrow> string \<Rightarrow> (string \<times> string) list \<Rightarrow> secret_srv \<Rightarrow> secret_srv" where
  "job_emit kind jobID agent state runID extra =
     on_srv (emit kind ([(''job_id'', jobID), (''agent_id'', agent), (''state'', state), (''run_id'', runID)] @ extra))"

abbreviation job_db :: "secret_srv \<Rightarrow> task_db" where
  "job_db st \<equiv> taskdb (ss_srv st)"

text \<open>The hosts of a selector; no match is the empty list.\<close>

definition selected :: "string \<Rightarrow> secret_srv \<Rightarrow> job_fail + string list" where
  "selected expr st =
     (case ResolveSelector (hosts (ss_srv st)) expr of
        Inr hs \<Rightarrow> Inr (map ID hs)
      | Inl (ErrNoMatch _) \<Rightarrow> Inr []
      | Inl e \<Rightarrow> Inl (JobSelector expr e))"

section \<open>Decisions\<close>

text \<open>\<open>Inl\<close> is the effect and the reason.\<close>

definition signTaskRunDecision ::
  "task_env \<Rightarrow> task_ctl \<Rightarrow> string \<Rightarrow> string \<Rightarrow> Action \<Rightarrow> pbTaskStep list \<Rightarrow> secret_srv
   \<Rightarrow> (string \<times> string) + pbDecision" where
  "signTaskRunDecision E c runID role act steps st =
     (case tc_ident c of
        None \<Rightarrow> Inl (EffectDeny, ''server signing identity not configured'')
      | Some priv \<Rightarrow>
          (let d = EvaluateRunSteps (te_rx E) (rules_or_none E st) act steps
           in if d_Effect d \<noteq> EffectAllow then Inl (d_Effect d, d_Reason d)
              else Inr (task_decision E priv runID role act d st)))"

text \<open>The loop of \<open>gatePolicy\<close>: decisions and denied hosts, both in order.\<close>

fun gate_hosts ::
  "task_env \<Rightarrow> task_ctl \<Rightarrow> string \<Rightarrow> string \<Rightarrow> pbTaskStep list \<Rightarrow> secret_srv \<Rightarrow> string list
   \<Rightarrow> (string \<times> pbDecision) list \<times> (string \<times> string) list" where
  "gate_hosts E c jobID role steps st [] = ([], [])"
| "gate_hosts E c jobID role steps st (a # as) =
     (case gate_hosts E c jobID role steps st as of (ds, denied) \<Rightarrow>
        (case signTaskRunDecision E c jobID role (task_action (tc_eol c) a role (hosts (ss_srv st))) steps st of
           Inr d \<Rightarrow> ((a, d) # ds, denied)
         | Inl (eff, reason) \<Rightarrow>
             (ds, (a, if eff = EffectRequireApproval then ''requires approval'' else reason) # denied)))"

definition gatePolicy ::
  "task_env \<Rightarrow> task_ctl \<Rightarrow> string \<Rightarrow> string \<Rightarrow> string \<Rightarrow> pbTaskStep list \<Rightarrow> secret_srv
   \<Rightarrow> job_fail + (string \<times> pbDecision) list" where
  "gatePolicy E c jobID selector role steps st =
     (if tc_ident c = None then Inl NoSigningKey
      else
        (case selected selector st of
           Inl e \<Rightarrow> Inl e
         | Inr as \<Rightarrow>
             (case gate_hosts E c jobID role steps st as of
                (ds, denied) \<Rightarrow> if denied \<noteq> [] then Inl (JobDenied denied) else Inr ds)))"

section \<open>Pushing assignments\<close>

definition assignment_msg ::
  "Job \<Rightarrow> job_spec \<Rightarrow> pbTaskStep list \<Rightarrow> pbDecision option \<Rightarrow> pbJobAssignment" where
  "assignment_msg job spec steps dec =
     \<lparr>jm_JobId = jb_ID job, jm_Name = jb_Name job, jm_Cron = jb_Cron job,
      jm_Timezone = (if sj_Timezone spec = [] then ''UTC'' else sj_Timezone spec),
      jm_TaskId = jb_TaskID job, jm_TaskVersion = to_int32 (jb_TaskVersion job), jm_Steps = steps,
      jm_MaxRunS = to_int32 (jb_MaxRunSeconds job), jm_OverlapPolicy = sj_OverlapPolicy spec,
      jm_FailurePolicy = sj_FailurePolicy spec, jm_RetryBackoffS = to_int32 (sj_RetryBackoffS spec),
      jm_SelectorSnapshot = sj_Selector spec, jm_Version = jb_Updated job, jm_Decision = dec\<rparr>"

definition assign_row :: "string \<Rightarrow> string \<Rightarrow> JobAssignment" where
  "assign_row job agent = \<lparr>ja_JobID = job, ja_AgentID = agent, ja_AssignedAt = 0, ja_LastRunAt = 0, ja_LastRunState = []\<rparr>"

definition push_one ::
  "int \<Rightarrow> Job \<Rightarrow> job_spec \<Rightarrow> pbTaskStep list \<Rightarrow> (string \<times> pbDecision) list \<Rightarrow> string \<Rightarrow> secret_srv \<Rightarrow> secret_srv" where
  "push_one now job spec steps decs agent st =
     (case AssignJob now (assign_row (jb_ID job) agent) (job_db st) of
        Inl e \<Rightarrow> st
      | Inr db \<Rightarrow>
          on_srv (\<lambda>s. snd (SendJobAssign agent (assignment_msg job spec steps (map_of decs agent)) s))
            (on_tasks (\<lambda>_. db) st))"

definition resolveAndPush ::
  "int \<Rightarrow> Job \<Rightarrow> job_spec \<Rightarrow> pbTaskStep list \<Rightarrow> (string \<times> pbDecision) list \<Rightarrow> secret_srv
   \<Rightarrow> (job_fail + string list) \<times> secret_srv" where
  "resolveAndPush now job spec steps decs st =
     (case selected (sj_Selector spec) st of
        Inl e \<Rightarrow> (Inl e, st)
      | Inr as \<Rightarrow> (Inr as, fold (push_one now job spec steps decs) as st))"

definition unassign_one :: "string \<Rightarrow> string \<Rightarrow> secret_srv \<Rightarrow> secret_srv" where
  "unassign_one job agent st =
     on_srv (\<lambda>s. snd (SendJobUnassign agent job s)) (on_tasks (UnassignJob job agent) st)"

definition reconcileAssignments :: "string \<Rightarrow> string list \<Rightarrow> secret_srv \<Rightarrow> secret_srv" where
  "reconcileAssignments job current st =
     fold (unassign_one job)
       (filter (\<lambda>a. a \<notin> set current) (map ja_AgentID (JobAssignmentsForJob job (job_db st)))) st"

section \<open>Create, update, delete\<close>

definition job_steps :: "task_env \<Rightarrow> string \<Rightarrow> int \<Rightarrow> secret_srv \<Rightarrow> job_fail + pbTaskStep list" where
  "job_steps E taskID ver st =
     (case TaskVersion_get taskID ver (job_db st) of
        None \<Rightarrow> Inl (JobTaskMissing taskID ver)
      | Some v \<Rightarrow> (case te_steps E (tv_StepsJSON v) of None \<Rightarrow> Inl JobSteps | Some steps \<Rightarrow> Inr steps))"

definition create_version :: "job_spec \<Rightarrow> secret_srv \<Rightarrow> job_fail + int" where
  "create_version spec st =
     (if sj_TaskVersion spec \<noteq> 0 then Inr (sj_TaskVersion spec)
      else (case LatestTaskVersion (sj_TaskID spec) (job_db st) of
              None \<Rightarrow> Inl (NoTaskVersion (sj_TaskID spec)) | Some v \<Rightarrow> Inr (tv_Version v)))"

text \<open>What happens before anything is written.\<close>

definition create_checks ::
  "task_env \<Rightarrow> task_ctl \<Rightarrow> string \<Rightarrow> job_spec \<Rightarrow> string \<Rightarrow> secret_srv
   \<Rightarrow> job_fail + int \<times> pbTaskStep list \<times> (string \<times> pbDecision) list" where
  "create_checks E c jobID spec role st =
     (case create_version spec st of
        Inl e \<Rightarrow> Inl e
      | Inr ver \<Rightarrow>
          (case job_steps E (sj_TaskID spec) ver st of
             Inl e \<Rightarrow> Inl e
           | Inr steps \<Rightarrow>
               (case gatePolicy E c jobID (sj_Selector spec) role steps st of
                  Inl e \<Rightarrow> Inl e
                | Inr decs \<Rightarrow> if decs = [] then Inl (NoHosts (sj_Selector spec)) else Inr (ver, steps, decs))))"

definition CreateJobSvc ::
  "task_env \<Rightarrow> task_ctl \<Rightarrow> int \<Rightarrow> string \<Rightarrow> job_spec \<Rightarrow> task_actor \<Rightarrow> secret_srv
   \<Rightarrow> Job option \<times> job_fail option \<times> secret_srv" where
  "CreateJobSvc E c now jobID spec actor st =
     (case create_checks E c jobID spec (ta_Role actor) st of
        Inl e \<Rightarrow> (None, Some e, st)
      | Inr (ver, steps, decs) \<Rightarrow>
          (let job = \<lparr>jb_ID = jobID, jb_Name = sj_Name spec, jb_TaskID = sj_TaskID spec, jb_TaskVersion = ver,
                 jb_Cron = sj_Cron spec, jb_Selector = sj_Selector spec, jb_MaxRunSeconds = sj_MaxRunS spec,
                 jb_Enabled = sj_Enabled spec, jb_Created = now, jb_Updated = now\<rparr>
           in case CreateJob now job (job_db st) of
                Inl e \<Rightarrow> (None, Some (JobStoreFailed e), st)
              | Inr db \<Rightarrow>
                  (case resolveAndPush now job spec steps decs (on_tasks (\<lambda>_. db) st) of
                     (Inl e, st1) \<Rightarrow> (Some job, Some e, st1)
                   | (Inr cur, st1) \<Rightarrow>
                       (Some job, None, job_audit now ''create'' jobID (sj_Selector spec) 0 (ta_Principal actor) st1))))"

definition merged_spec :: "Job \<Rightarrow> job_spec \<Rightarrow> job_spec" where
  "merged_spec job spec =
     spec\<lparr>sj_Name := (if sj_Name spec = [] then jb_Name job else sj_Name spec),
          sj_TaskID := (if sj_TaskID spec = [] then jb_TaskID job else sj_TaskID spec),
          sj_Cron := (if sj_Cron spec = [] then jb_Cron job else sj_Cron spec),
          sj_Selector := (if sj_Selector spec = [] then jb_Selector job else sj_Selector spec),
          sj_TaskVersion := (if sj_TaskVersion spec = 0 then jb_TaskVersion job else sj_TaskVersion spec),
          sj_MaxRunS := (if sj_MaxRunS spec = 0 then jb_MaxRunSeconds job else sj_MaxRunS spec),
          sj_OverlapPolicy := (if sj_OverlapPolicy spec = [] then ''skip'' else sj_OverlapPolicy spec),
          sj_FailurePolicy := (if sj_FailurePolicy spec = [] then ''no_retry'' else sj_FailurePolicy spec),
          sj_Enabled := (if sj_EnabledSet spec then sj_Enabled spec else jb_Enabled job)\<rparr>"

definition update_version :: "job_spec \<Rightarrow> secret_srv \<Rightarrow> int" where
  "update_version spec st =
     (if sj_TaskVersion spec \<noteq> 0 then sj_TaskVersion spec
      else (case LatestTaskVersion (sj_TaskID spec) (job_db st) of None \<Rightarrow> 0 | Some v \<Rightarrow> tv_Version v))"

definition update_checks ::
  "task_env \<Rightarrow> task_ctl \<Rightarrow> string \<Rightarrow> job_spec \<Rightarrow> string \<Rightarrow> secret_srv
   \<Rightarrow> job_fail + pbTaskStep list \<times> (string \<times> pbDecision) list" where
  "update_checks E c jobID spec role st =
     (case job_steps E (sj_TaskID spec) (update_version spec st) st of
        Inl e \<Rightarrow> Inl e
      | Inr steps \<Rightarrow>
          (case gatePolicy E c jobID (sj_Selector spec) role steps st of
             Inl e \<Rightarrow> Inl e | Inr decs \<Rightarrow> Inr (steps, decs)))"

definition updated_job :: "Job \<Rightarrow> job_spec \<Rightarrow> int \<Rightarrow> Job" where
  "updated_job job spec ver =
     job\<lparr>jb_Name := sj_Name spec, jb_TaskID := sj_TaskID spec, jb_TaskVersion := ver, jb_Cron := sj_Cron spec,
         jb_Selector := sj_Selector spec, jb_MaxRunSeconds := sj_MaxRunS spec, jb_Enabled := sj_Enabled spec\<rparr>"

definition UpdateJobSvc ::
  "task_env \<Rightarrow> task_ctl \<Rightarrow> int \<Rightarrow> string \<Rightarrow> job_spec \<Rightarrow> task_actor \<Rightarrow> secret_srv
   \<Rightarrow> Job option \<times> job_fail option \<times> secret_srv" where
  "UpdateJobSvc E c now jobID spec0 actor st =
     (case GetJob jobID (job_db st) of
        None \<Rightarrow> (None, Some JobMissing, st)
      | Some job0 \<Rightarrow>
          (let spec = merged_spec job0 spec0
           in case update_checks E c jobID spec (ta_Role actor) st of
                Inl e \<Rightarrow> (None, Some e, st)
              | Inr (steps, decs) \<Rightarrow>
                  (case UpdateJob now (updated_job job0 spec (update_version spec st)) (job_db st) of
                     (Inl e, db) \<Rightarrow> (None, Some (JobStoreFailed e), st)
                   | (Inr job, db) \<Rightarrow>
                       (case resolveAndPush now job spec steps decs (on_tasks (\<lambda>_. db) st) of
                          (Inl e, st1) \<Rightarrow> (Some job, Some e, st1)
                        | (Inr cur, st1) \<Rightarrow>
                            (Some job, None,
                             job_audit now ''update'' jobID (sj_Selector spec) (length (remdups cur)) (ta_Principal actor)
                               (reconcileAssignments jobID cur st1))))))"

definition DeleteJobSvc :: "int \<Rightarrow> string \<Rightarrow> task_actor \<Rightarrow> secret_srv \<Rightarrow> job_fail option \<times> secret_srv" where
  "DeleteJobSvc now jobID actor st =
     (let st1 = fold (unassign_one jobID) (map ja_AgentID (JobAssignmentsForJob jobID (job_db st))) st
      in case DeleteJob jobID (job_db st1) of
           Inl e \<Rightarrow> (Some (JobStoreFailed e), st1)
         | Inr db \<Rightarrow> (None, job_audit now ''delete'' jobID [] 0 (ta_Principal actor) (on_tasks (\<lambda>_. db) st1)))"

section \<open>Reissue and reconcile\<close>

text \<open>The action of \<open>hostTaskRunDecision\<close>: it has the host's id whether the host exists or not, and no role.\<close>

definition standing_action :: "task_ctl \<Rightarrow> string \<Rightarrow> secret_srv \<Rightarrow> Action" where
  "standing_action c host st =
     (let a = zero_action\<lparr>ac_HostID := host, ac_ActionClass := ActionTaskRun,
                ac_HostEOL := (case tc_eol c of None \<Rightarrow> [] | Some p \<Rightarrow> p host)\<rparr>
      in case Agent_get host (hosts (ss_srv st)) of
           None \<Rightarrow> a
         | Some h \<Rightarrow> a\<lparr>ac_HostTags := Tags_of (hosts (ss_srv st)) host, ac_HostRoles := Roles_of (hosts (ss_srv st)) host\<rparr>)"

definition hostTaskRunDecision ::
  "task_env \<Rightarrow> task_ctl \<Rightarrow> string \<Rightarrow> string \<Rightarrow> secret_srv \<Rightarrow> (string \<times> string) + pbDecision" where
  "hostTaskRunDecision E c jobID host st =
     (let steps = (case GetJob jobID (job_db st) of
                     None \<Rightarrow> []
                   | Some job \<Rightarrow> (case job_steps E (jb_TaskID job) (jb_TaskVersion job) st of Inl e \<Rightarrow> [] | Inr ss \<Rightarrow> ss))
      in signTaskRunDecision E c jobID ''system'' (standing_action c host st) steps st)"

text \<open>What the two paths send: the row keeps neither the time zone nor the policies.\<close>

definition row_msg :: "Job \<Rightarrow> pbTaskStep list \<Rightarrow> int \<Rightarrow> pbDecision \<Rightarrow> pbJobAssignment" where
  "row_msg job steps ver dec =
     \<lparr>jm_JobId = jb_ID job, jm_Name = jb_Name job, jm_Cron = jb_Cron job, jm_Timezone = ''UTC'',
      jm_TaskId = jb_TaskID job, jm_TaskVersion = to_int32 (jb_TaskVersion job), jm_Steps = steps,
      jm_MaxRunS = to_int32 (jb_MaxRunSeconds job), jm_OverlapPolicy = [], jm_FailurePolicy = [],
      jm_RetryBackoffS = 0, jm_SelectorSnapshot = [], jm_Version = ver, jm_Decision = Some dec\<rparr>"

definition reissue_job :: "task_env \<Rightarrow> task_ctl \<Rightarrow> int \<Rightarrow> string \<Rightarrow> Job \<Rightarrow> secret_srv \<Rightarrow> secret_srv" where
  "reissue_job E c now host job st =
     (if \<not> jb_Enabled job then st
      else
        (case selected (jb_Selector job) st of
           Inl e \<Rightarrow> st
         | Inr as \<Rightarrow>
             if host \<notin> set as then st
             else
               (case hostTaskRunDecision E c (jb_ID job) host st of
                  Inl _ \<Rightarrow> unassign_one (jb_ID job) host st
                | Inr dec \<Rightarrow>
                    (case AssignJob now (assign_row (jb_ID job) host) (job_db st) of
                       Inl e \<Rightarrow> st
                     | Inr db \<Rightarrow>
                         (let st1 = on_tasks (\<lambda>_. db) st
                          in case TaskVersion_get (jb_TaskID job) (jb_TaskVersion job) (job_db st1) of
                               None \<Rightarrow> st1
                             | Some v \<Rightarrow>
                                 (let steps = (case te_steps E (tv_StepsJSON v) of None \<Rightarrow> [] | Some ss \<Rightarrow> ss)
                                  in on_srv (\<lambda>s. snd (SendJobAssign host (row_msg job steps 0 dec) s)) st1))))))"

definition ReissueForHost :: "task_env \<Rightarrow> task_ctl \<Rightarrow> int \<Rightarrow> string \<Rightarrow> secret_srv \<Rightarrow> secret_srv" where
  "ReissueForHost E c now host st = fold (reissue_job E c now host) (ListJobs (job_db st)) st"

definition pushAssignment ::
  "task_env \<Rightarrow> int \<Rightarrow> Job \<Rightarrow> string \<Rightarrow> pbDecision \<Rightarrow> secret_srv \<Rightarrow> bool \<times> secret_srv" where
  "pushAssignment E now job agent dec st =
     (case AssignJob now (assign_row (jb_ID job) agent) (job_db st) of
        Inl e \<Rightarrow> (False, st)
      | Inr db \<Rightarrow>
          (let st1 = on_tasks (\<lambda>_. db) st
           in case job_steps E (jb_TaskID job) (jb_TaskVersion job) st1 of
                Inl e \<Rightarrow> (False, st1)
              | Inr steps \<Rightarrow>
                  (case SendJobAssign agent (row_msg job steps (jb_Updated job) dec) (ss_srv st1) of
                     (e, s) \<Rightarrow> (e = None, st1\<lparr>ss_srv := s\<rparr>))))"

definition reconcile_host ::
  "task_env \<Rightarrow> task_ctl \<Rightarrow> int \<Rightarrow> Job \<Rightarrow> string list \<Rightarrow> string \<Rightarrow> nat \<times> secret_srv \<Rightarrow> nat \<times> secret_srv" where
  "reconcile_host E c now job has agent acc =
     (case acc of (n, st) \<Rightarrow>
        if agent \<in> set has then (n, st)
        else (case hostTaskRunDecision E c (jb_ID job) agent st of
                Inl _ \<Rightarrow> (n, st)
              | Inr dec \<Rightarrow>
                  (case pushAssignment E now job agent dec st of
                     (ok, st1) \<Rightarrow> (if ok then Suc n else n, st1))))"

definition reconcile_job ::
  "task_env \<Rightarrow> task_ctl \<Rightarrow> int \<Rightarrow> Job \<Rightarrow> nat \<times> secret_srv \<Rightarrow> nat \<times> secret_srv" where
  "reconcile_job E c now job acc =
     (case acc of (n, st) \<Rightarrow>
        if \<not> jb_Enabled job then (n, st)
        else
          (case ResolveSelector (hosts (ss_srv st)) (jb_Selector job) of
             Inl e \<Rightarrow> (n, st)
           | Inr hs \<Rightarrow>
               (let has = map ja_AgentID (JobAssignmentsForJob (jb_ID job) (job_db st))
                in case fold (reconcile_host E c now job has) (map ID hs) (n, st) of
                     (n1, st1) \<Rightarrow>
                       (n1, fold (unassign_one (jb_ID job)) (filter (\<lambda>a. a \<notin> ID ` set hs) has) st1))))"

definition reconcileOnce :: "task_env \<Rightarrow> task_ctl \<Rightarrow> int \<Rightarrow> secret_srv \<Rightarrow> nat \<times> secret_srv" where
  "reconcileOnce E c now st = fold (reconcile_job E c now) (ListJobs (job_db st)) (0, st)"

section \<open>Reports\<close>

record pbJobRunResult =
  jq_RunId :: string
  jq_JobId :: string
  jq_State :: string
  jq_Error :: string
  jq_ScheduledAt :: int
  jq_StartedAt :: int
  jq_FinishedAt :: int
  jq_Trigger :: string

definition run_of_report :: "string \<Rightarrow> pbJobRunResult \<Rightarrow> Job option \<Rightarrow> JobRun" where
  "run_of_report agent r job =
     \<lparr>jn_ID = jq_RunId r, jn_JobID = jq_JobId r, jn_AgentID = agent,
      jn_TaskID = (case job of None \<Rightarrow> [] | Some j \<Rightarrow> jb_TaskID j),
      jn_TaskVersion = (case job of None \<Rightarrow> 0 | Some j \<Rightarrow> jb_TaskVersion j),
      jn_ScheduledAt = jq_ScheduledAt r, jn_StartedAt = jq_StartedAt r, jn_FinishedAt = jq_FinishedAt r,
      jn_State = jq_State r, jn_Trigger = jq_Trigger r, jn_Error = jq_Error r\<rparr>"

definition OnRunResult :: "int \<Rightarrow> string \<Rightarrow> pbJobRunResult \<Rightarrow> secret_srv \<Rightarrow> secret_srv" where
  "OnRunResult now agent r st =
     (let db = job_db st; run = run_of_report agent r (GetJob (jq_JobId r) db);
          stored = (if GetJobRun (jq_RunId r) db \<noteq> None
                    then Inr (FinalizeJobRun now (jq_RunId r) (jq_State r) (jq_Error r) db)
                    else CreateJobRun now run db)
      in case stored of
           Inl e \<Rightarrow> st
         | Inr db1 \<Rightarrow>
             job_emit ''job.run'' (jq_JobId r) agent (jq_State r) (jq_RunId r) []
               (job_audit now ''run'' (jq_JobId r) [] 0 ''agent''
                 (on_tasks (\<lambda>_. UpdateJobAssignmentState now (jq_JobId r) agent (jq_State r) (jq_FinishedAt r) db1) st)))"

definition OnTaskRunResult :: "int \<Rightarrow> string \<Rightarrow> string \<Rightarrow> pbTaskRunResult \<Rightarrow> secret_srv \<Rightarrow> secret_srv" where
  "OnTaskRunResult now agent runID r st =
     (case GetJobRun runID (job_db st) of
        None \<Rightarrow> st
      | Some run \<Rightarrow>
          (let status = (if rp_State r = [] then ''failed'' else rp_State r)
           in job_emit ''job.run'' (jn_JobID run) agent status runID []
                (job_audit now ''run'' (jn_JobID run) [] 0 ''agent''
                  (on_tasks (\<lambda>db. UpdateJobAssignmentState now (jn_JobID run) agent status now
                     (FinalizeJobRun now runID status (rp_Error r) db)) st))))"

text \<open>\<open>main.go\<close> tries the task controller first.\<close>

definition task_result_hook :: "int \<Rightarrow> string \<Rightarrow> string \<Rightarrow> pbTaskRunResult \<Rightarrow> secret_srv \<Rightarrow> secret_srv" where
  "task_result_hook now agent runID r st =
     (case OnLateResult now agent runID r st of
        (True, st1) \<Rightarrow> st1 | (False, st1) \<Rightarrow> OnTaskRunResult now agent runID r st1)"

definition job_wait :: "task_env \<Rightarrow> int \<Rightarrow> string \<Rightarrow> string \<Rightarrow> secret_srv \<Rightarrow> secret_srv" where
  "job_wait E now agent runID st =
     (case WaitTaskResult E runID st of
        (Inl _, st1) \<Rightarrow> st1 | (Inr r, st1) \<Rightarrow> OnTaskRunResult now agent runID r st1)"

section \<open>Manual runs\<close>

definition manual_run :: "int \<Rightarrow> string \<Rightarrow> string \<Rightarrow> Job \<Rightarrow> string \<Rightarrow> string \<Rightarrow> JobRun" where
  "manual_run now runID agent job state err =
     \<lparr>jn_ID = runID, jn_JobID = jb_ID job, jn_AgentID = agent, jn_TaskID = jb_TaskID job,
      jn_TaskVersion = jb_TaskVersion job, jn_ScheduledAt = now, jn_StartedAt = 0, jn_FinishedAt = 0,
      jn_State = state, jn_Trigger = ''manual'', jn_Error = err\<rparr>"

definition add_run :: "int \<Rightarrow> JobRun \<Rightarrow> secret_srv \<Rightarrow> secret_srv" where
  "add_run now r = on_tasks (\<lambda>db. case CreateJobRun now r db of Inl e \<Rightarrow> db | Inr db1 \<Rightarrow> db1)"

definition end_run :: "int \<Rightarrow> string \<Rightarrow> string \<Rightarrow> string \<Rightarrow> secret_srv \<Rightarrow> secret_srv" where
  "end_run now runID state err = on_tasks (FinalizeJobRun now runID state err)"

definition send_job_run ::
  "task_env \<Rightarrow> task_ctl \<Rightarrow> string \<Rightarrow> string \<Rightarrow> Job \<Rightarrow> pbTaskStep list \<Rightarrow> pbDecision \<Rightarrow> secret_srv
   \<Rightarrow> task_fail option \<times> secret_srv" where
  "send_job_run E c agent runID job steps dec st =
     send_run c agent \<lparr>tr_RunId = runID, tr_TaskId = jb_TaskID job,
       tr_TaskVersion = to_int32 (jb_TaskVersion job), tr_Steps = steps, tr_Decision = Some dec\<rparr> st"

definition job_fail_of :: "task_fail \<Rightarrow> job_fail" where
  "job_fail_of e =
     (case e of SecretsNotReady x \<Rightarrow> JobSecrets x | TaskNotSent x \<Rightarrow> JobNotSent x | _ \<Rightarrow> JobMissing)"

text \<open>The name of the audit event and its selector field differ with what failed.\<close>

definition run_now_failed ::
  "task_env \<Rightarrow> int \<Rightarrow> string \<Rightarrow> string \<Rightarrow> string \<Rightarrow> task_actor \<Rightarrow> task_fail \<Rightarrow> secret_srv \<Rightarrow> secret_srv" where
  "run_now_failed E now jobID agent runID actor e st =
     (let st1 = end_run now runID ''failed'' (fail_prefix e @ te_text E e) st
      in case e of
           SecretsNotReady _ \<Rightarrow> job_audit now ''run-error'' jobID agent 0 (ta_Principal actor) st1
         | _ \<Rightarrow> job_audit now ''run'' jobID [] 0 (ta_Principal actor) st1)"

definition park_job_run ::
  "task_env \<Rightarrow> (string \<Rightarrow> string \<Rightarrow> string) \<Rightarrow> approvals_ctl \<Rightarrow> int \<Rightarrow> string \<Rightarrow> string \<Rightarrow> string \<Rightarrow> Job
   \<Rightarrow> task_actor \<Rightarrow> secret_srv \<Rightarrow> job_fail option \<times> secret_srv" where
  "park_job_run E payload ap now aid agent runID job actor st =
     (let st1 = add_run now (manual_run now runID agent job ''awaiting_approval'' []) st
      in case NewRequest ap now aid
                \<lparr>np_ActionClass = ''job.run'', np_AgentID = agent, np_ExecutionID = [], np_RunID = runID,
                 np_Actor = ta_Principal actor, np_ActorRole = ta_Role actor, np_MatchedRules = [],
                 np_PayloadJSON = payload (jb_ID job) agent\<rparr> (ss_srv st1) of
           (Inl e, s) \<Rightarrow>
             (Some (JobApprovalFailed e),
              end_run now runID ''failed'' (''approval request: '' @ te_text E (ApprovalNotCreated e)) (st1\<lparr>ss_srv := s\<rparr>))
         | (Inr req, s) \<Rightarrow>
             (Some (JobApprovalRequired (ap_ID req) runID),
              job_emit ''job.run-parked'' (jb_ID job) agent ''awaiting_approval'' runID [(''approval_id'', ap_ID req)]
                (job_audit now ''run-parked'' (jb_ID job) agent 0 (ta_Principal actor) (st1\<lparr>ss_srv := s\<rparr>))))"

definition deny_job_run ::
  "int \<Rightarrow> string \<Rightarrow> string \<Rightarrow> string \<Rightarrow> Job \<Rightarrow> task_actor \<Rightarrow> secret_srv \<Rightarrow> job_fail option \<times> secret_srv" where
  "deny_job_run now eff agent runID job actor st =
     (Some (if eff = EffectRequireApproval then RunNeedsEngine agent else RunDenied agent),
      job_audit now ''run-denied'' (jb_ID job) [] 0 (ta_Principal actor)
        (end_run now runID ''denied'' ''denied by policy''
          (add_run now (manual_run now runID agent job ''denied'' ''denied by policy'') st)))"

definition start_job_run ::
  "task_env \<Rightarrow> task_ctl \<Rightarrow> int \<Rightarrow> string \<Rightarrow> string \<Rightarrow> Job \<Rightarrow> pbTaskStep list \<Rightarrow> pbDecision \<Rightarrow> task_actor
   \<Rightarrow> secret_srv \<Rightarrow> job_fail option \<times> secret_srv" where
  "start_job_run E c now agent runID job steps dec actor st =
     (case send_job_run E c agent runID job steps dec
             (add_run now (manual_run now runID agent job ''running'' []) st) of
        (Some e, st1) \<Rightarrow> (Some (job_fail_of e), run_now_failed E now (jb_ID job) agent runID actor e st1)
      | (None, st1) \<Rightarrow>
          (None, job_audit now ''run'' (jb_ID job) [] 0 (ta_Principal actor) (end_run now runID ''dispatched'' [] st1)))"

definition RunNow ::
  "task_env \<Rightarrow> (string \<Rightarrow> string \<Rightarrow> string) \<Rightarrow> task_ctl \<Rightarrow> int \<Rightarrow> string \<Rightarrow> string \<Rightarrow> string \<Rightarrow> string
   \<Rightarrow> task_actor \<Rightarrow> secret_srv \<Rightarrow> job_fail option \<times> secret_srv" where
  "RunNow E payload c now runID aid jobID agent actor st =
     (case GetJob jobID (job_db st) of
        None \<Rightarrow> (Some JobMissing, st)
      | Some job \<Rightarrow>
          (case job_steps E (jb_TaskID job) (jb_TaskVersion job) st of
             Inl e \<Rightarrow> (Some e, st)
           | Inr steps \<Rightarrow>
               if tc_ident c = None then (Some NoSigningKey, st)
               else
                 (case signTaskRunDecision E c runID (ta_Role actor)
                         (task_action (tc_eol c) agent (ta_Role actor) (hosts (ss_srv st))) steps st of
                    Inl (eff, reason) \<Rightarrow>
                      (case (if eff = EffectRequireApproval then tc_approvals c else None) of
                         Some ap \<Rightarrow> park_job_run E payload ap now aid agent runID job actor st
                       | None \<Rightarrow> deny_job_run now eff agent runID job actor st)
                  | Inr dec \<Rightarrow> start_job_run E c now agent runID job steps dec actor st)))"

definition approved_job ::
  "task_env \<Rightarrow> ApprovalRequest \<Rightarrow> secret_srv \<Rightarrow> job_fail + JobRun \<times> Job \<times> pbTaskStep list" where
  "approved_job E req st =
     (case GetJobRun (ap_RunID req) (job_db st) of
        None \<Rightarrow> Inl JobRunMissing
      | Some run \<Rightarrow>
          if jn_State run \<noteq> ''awaiting_approval'' then Inl (JobRunNotParked (jn_State run))
          else
            (case GetJob (jn_JobID run) (job_db st) of
               None \<Rightarrow> Inl JobMissing
             | Some job \<Rightarrow>
                 (case job_steps E (jb_TaskID job) (jb_TaskVersion job) st of
                    Inl e \<Rightarrow> Inl e | Inr steps \<Rightarrow> Inr (run, job, steps))))"

definition DispatchApprovedJobRun ::
  "task_env \<Rightarrow> task_ctl \<Rightarrow> int \<Rightarrow> ApprovalRequest \<Rightarrow> pbDecision \<Rightarrow> secret_srv \<Rightarrow> job_fail option \<times> secret_srv" where
  "DispatchApprovedJobRun E c now req dec st =
     (case approved_job E req st of
        Inl e \<Rightarrow> (Some e, st)
      | Inr (run, job, steps) \<Rightarrow>
          (case send_job_run E c (ap_AgentID req) (ap_RunID req) job steps dec st of
             (Some e, st1) \<Rightarrow>
               (Some (job_fail_of e),
                job_audit now ''run-error'' (jn_JobID run) (ap_AgentID req) 0 ''approvals''
                  (end_run now (ap_RunID req) ''failed'' (fail_prefix e @ te_text E e) st1))
           | (None, st1) \<Rightarrow>
               (None, job_audit now ''run'' (jn_JobID run) (ap_AgentID req) 1 ''approvals''
                  (end_run now (ap_RunID req) ''dispatched'' [] st1))))"

section \<open>The assignments of a job\<close>

definition assigned :: "string \<Rightarrow> secret_srv \<Rightarrow> string set" where
  "assigned j st = ja_AgentID ` set (JobAssignmentsForJob j (job_db st))"

lemma job_db_on_srv: "taskdb (f (ss_srv st)) = job_db st \<Longrightarrow> job_db (on_srv f st) = job_db st"
  by (simp add: on_srv_def)

lemma SendJobAssign_db [simp]: "taskdb (snd (SendJobAssign a ja s)) = taskdb s"
  by (simp add: SendJobAssign_def sess_send_def Let_def split: option.splits)

lemma SendJobUnassign_db [simp]: "taskdb (snd (SendJobUnassign a j s)) = taskdb s"
  by (simp add: SendJobUnassign_def sess_send_def Let_def split: option.splits)

lemma job_db_on_tasks [simp]: "job_db (on_tasks f st) = f (job_db st)"
  by (simp add: on_tasks_def on_srv_def)

lemma job_db_audit [simp]: "job_db (job_audit now k j sel n actor st) = job_db st"
  by (simp add: job_audit_def on_srv_def emit_def append_audit_def)

lemma assigned_keys:
  "ja_AgentID ` set (JobAssignmentsForJob j db) = {a. (j, a) \<in> ja_key ` set (job_assignments db)}"
  by (auto simp: JobAssignmentsForJob_def ja_key_def)

lemma upsert_keys:
  assumes "\<And>x. key (upd x) = key x"
  shows "key ` set (sql_upsert key upd r rows) = insert (key r) (key ` set rows)"
proof (cases "key r \<in> key ` set rows")
  case True
  have "key ` set (sql_update p upd rows) = key ` set rows" for p
    by (rule image_sql_update) (simp add: assms)
  with True show ?thesis by (auto simp: sql_upsert_def)
qed (simp add: sql_upsert_def)

lemma AssignJob_ok:
  assumes "j \<in> jb_ID ` set (jobs db)"
  shows "\<exists>db'. AssignJob now (assign_row j a) db = Inr db' \<and> jobs db' = jobs db \<and>
    ja_AgentID ` set (JobAssignmentsForJob j db') = insert a (ja_AgentID ` set (JobAssignmentsForJob j db))"
proof -
  let ?r = "(assign_row j a)\<lparr>ja_AssignedAt := now\<rparr>"
  let ?rows = "sql_upsert ja_key (\<lambda>x. x\<lparr>ja_AssignedAt := now\<rparr>) ?r (job_assignments db)"
  have "AssignJob now (assign_row j a) db = Inr (db\<lparr>job_assignments := ?rows\<rparr>)"
    using assms by (simp add: AssignJob_def assign_row_def Let_def)
  moreover have "ja_key ` set ?rows = insert (j, a) (ja_key ` set (job_assignments db))"
    by (subst upsert_keys) (simp_all add: ja_key_def assign_row_def)
  then have "ja_AgentID ` set (JobAssignmentsForJob j (db\<lparr>job_assignments := ?rows\<rparr>)) =
      insert a (ja_AgentID ` set (JobAssignmentsForJob j db))"
    unfolding assigned_keys by auto
  ultimately show ?thesis by simp
qed

lemma push_one_assigned:
  assumes "jb_ID job \<in> jb_ID ` set (jobs (job_db st))"
  shows "assigned (jb_ID job) (push_one now job spec steps decs a st) = insert a (assigned (jb_ID job) st)"
    "jobs (job_db (push_one now job spec steps decs a st)) = jobs (job_db st)"
proof -
  from AssignJob_ok [OF assms] obtain db where db: "AssignJob now (assign_row (jb_ID job) a) (job_db st) = Inr db"
    "jobs db = jobs (job_db st)"
    "ja_AgentID ` set (JobAssignmentsForJob (jb_ID job) db) = insert a (assigned (jb_ID job) st)"
    unfolding assigned_def by blast
  have d: "job_db (push_one now job spec steps decs a st) = db"
    by (simp add: push_one_def db(1) on_srv_def)
  show "assigned (jb_ID job) (push_one now job spec steps decs a st) = insert a (assigned (jb_ID job) st)"
    "jobs (job_db (push_one now job spec steps decs a st)) = jobs (job_db st)"
    using db(2,3) d by (simp_all add: assigned_def)
qed

lemma push_fold_assigned:
  assumes "jb_ID job \<in> jb_ID ` set (jobs (job_db st))"
  shows "assigned (jb_ID job) (fold (push_one now job spec steps decs) as st) = assigned (jb_ID job) st \<union> set as"
  using assms
proof (induction as arbitrary: st)
  case (Cons a as)
  then show ?case using push_one_assigned [OF Cons.prems, of now spec steps decs a] by simp
qed simp

lemma unassign_one_assigned: "assigned j (unassign_one j a st) = assigned j st - {a}"
  by (auto simp: assigned_def unassign_one_def on_srv_def UnassignJob_def JobAssignmentsForJob_def sql_delete_def)

lemma unassign_fold_assigned: "assigned j (fold (unassign_one j) as st) = assigned j st - set as"
  by (induction as arbitrary: st) (auto simp: unassign_one_assigned)

lemma reconcileAssignments_assigned:
  "assigned j (reconcileAssignments j cur st) = assigned j st \<inter> set cur"
  by (auto simp: reconcileAssignments_def unassign_fold_assigned) (auto simp: assigned_def)

lemma GetJob_id: "GetJob j db = Some job \<Longrightarrow> jb_ID job = j \<and> job \<in> set (jobs db)"
  by (auto simp: GetJob_def dest: sql_get_SomeD)

lemma UpdateJob_Inr:
  assumes "UpdateJob now j0 db = (Inr job, db')"
  shows "job = j0\<lparr>jb_Updated := now\<rparr> \<and> jb_ID ` set (jobs db') = jb_ID ` set (jobs db) \<and>
    job_assignments db' = job_assignments db"
proof -
  let ?f = "\<lambda>x. x\<lparr>jb_Name := jb_Name j0, jb_TaskID := jb_TaskID j0, jb_TaskVersion := jb_TaskVersion j0,
    jb_Cron := jb_Cron j0, jb_Selector := jb_Selector j0, jb_MaxRunSeconds := jb_MaxRunSeconds j0,
    jb_Enabled := jb_Enabled j0\<rparr>"
  from assms have "job = j0\<lparr>jb_Updated := now\<rparr>"
    "db' = db\<lparr>jobs := sql_update (\<lambda>x. jb_ID x = jb_ID j0) ?f (jobs db)\<rparr>"
    by (auto simp: UpdateJob_def Let_def split: if_splits)
  moreover have "jb_ID ` set (sql_update (\<lambda>x. jb_ID x = jb_ID j0) ?f (jobs db)) = jb_ID ` set (jobs db)"
    by (rule image_sql_update) simp
  ultimately show ?thesis by simp
qed

text \<open>
  C23: saving a job makes its assignments those of its selector: after an update that succeeds, the
  hosts assigned to the job are exactly the hosts the saved selector matches; the ones that no
  longer match are unassigned, and a selector that matches no host leaves none.
\<close>

theorem update_assignments_exact:
  assumes "UpdateJobSvc E c now j spec actor st = (Some job, None, st')"
  shows "\<exists>cur. selected (jb_Selector job) st = Inr cur \<and> assigned j st' = set cur"
proof -
  from assms obtain job0 where j0: "GetJob j (job_db st) = Some job0"
    by (auto simp: UpdateJobSvc_def split: option.splits)
  let ?spec = "merged_spec job0 spec"
  let ?job1 = "updated_job job0 ?spec (update_version ?spec st)"
  from assms j0 obtain steps decs where ch: "update_checks E c j ?spec (ta_Role actor) st = Inr (steps, decs)"
    by (auto simp: UpdateJobSvc_def Let_def split: sum.splits)
  from assms j0 ch obtain db where up: "UpdateJob now ?job1 (job_db st) = (Inr job, db)"
    by (auto simp: UpdateJobSvc_def Let_def split: sum.splits prod.splits)
  note u = UpdateJob_Inr [OF up]
  have id: "jb_ID job = j" "jb_Selector job = sj_Selector ?spec"
    using u GetJob_id [OF j0] by (simp_all add: updated_job_def)
  let ?st = "on_tasks (\<lambda>_. db) st"
  have sel: "selected (sj_Selector ?spec) ?st = selected (sj_Selector ?spec) st"
    by (simp add: selected_def)
  from assms j0 ch up obtain cur st1 where push: "resolveAndPush now job ?spec steps decs ?st = (Inr cur, st1)"
    and st': "st' = job_audit now ''update'' j (sj_Selector ?spec) (length (remdups cur)) (ta_Principal actor)
      (reconcileAssignments j cur st1)"
    by (auto simp: UpdateJobSvc_def Let_def split: sum.splits prod.splits)
  have cur: "selected (sj_Selector ?spec) st = Inr cur" "st1 = fold (push_one now job ?spec steps decs) cur ?st"
    using push by (auto simp: resolveAndPush_def sel split: sum.splits)
  have "jb_ID job0 = j" "job0 \<in> set (jobs (job_db st))" using GetJob_id [OF j0] by simp_all
  then have "jb_ID job \<in> jb_ID ` set (jobs (job_db ?st))" using u id by force
  from push_fold_assigned [OF this, of now ?spec steps decs cur] have "set cur \<subseteq> assigned j st1"
    unfolding cur(2) id by blast
  then have "assigned j (reconcileAssignments j cur st1) = set cur"
    unfolding reconcileAssignments_assigned by blast
  then have "assigned j st' = set cur" by (simp add: st' assigned_def)
  with cur(1) id show ?thesis by auto
qed

section \<open>What is pushed\<close>

lemma push_one_sent:
  "set (sent (ss_srv (push_one now job spec steps decs a st))) \<subseteq> set (sent (ss_srv st)) \<union>
     {(sid, EJobAssign (assignment_msg job spec steps (map_of decs a))) | sid. sessions (ss_srv st) a = Some sid}"
  "sessions (ss_srv (push_one now job spec steps decs a st)) = sessions (ss_srv st)"
  by (auto simp: push_one_def SendJobAssign_def sess_send_def on_tasks_def on_srv_def Let_def
      split: sum.splits option.splits)

lemma push_fold_sent:
  assumes "(sid, e) \<in> set (sent (ss_srv (fold (push_one now job spec steps decs) as st)))"
    and "(sid, e) \<notin> set (sent (ss_srv st))"
  shows "\<exists>a \<in> set as. sessions (ss_srv st) a = Some sid \<and> e = EJobAssign (assignment_msg job spec steps (map_of decs a))"
  using assms
proof (induction as arbitrary: st)
  case (Cons a as)
  let ?st = "push_one now job spec steps decs a st"
  show ?case
  proof (cases "(sid, e) \<in> set (sent (ss_srv ?st))")
    case True
    with Cons.prems(2) push_one_sent(1) [of now job spec steps decs a st] show ?thesis by auto
  next
    case False
    with Cons.IH [of ?st] Cons.prems(1) push_one_sent(2) [of now job spec steps decs a st] show ?thesis by auto
  qed
qed simp

lemma gate_hosts_all:
  "gate_hosts E c j role steps st as = (ds, []) \<Longrightarrow> a \<in> set as \<Longrightarrow>
     \<exists>d. map_of ds a = Some d \<and>
       signTaskRunDecision E c j role (task_action (tc_eol c) a role (hosts (ss_srv st))) steps st = Inr d"
proof (induction as arbitrary: ds)
  case (Cons b as)
  obtain ds1 den1 where g: "gate_hosts E c j role steps st as = (ds1, den1)" by fastforce
  with Cons.prems(1) obtain d where d: "den1 = []" "ds = (b, d) # ds1"
    "signTaskRunDecision E c j role (task_action (tc_eol c) b role (hosts (ss_srv st))) steps st = Inr d"
    by (auto split: sum.splits)
  then show ?case using Cons.IH [of ds1] Cons.prems(2) g by auto
qed simp

lemma gatePolicy_Inr:
  assumes "gatePolicy E c j sel role steps st = Inr decs"
  shows "\<exists>as. selected sel st = Inr as \<and> (\<forall>a \<in> set as. \<exists>d. map_of decs a = Some d \<and>
    signTaskRunDecision E c j role (task_action (tc_eol c) a role (hosts (ss_srv st))) steps st = Inr d)"
proof -
  from assms obtain as where as: "selected sel st = Inr as"
    by (auto simp: gatePolicy_def split: sum.splits if_splits)
  obtain ds den where g: "gate_hosts E c j role steps st as = (ds, den)" by fastforce
  with as assms have "den = []" "ds = decs" by (auto simp: gatePolicy_def split: if_splits)
  with g gate_hosts_all as show ?thesis by blast
qed

lemma signTaskRunDecision_Inr:
  "signTaskRunDecision E c j role act steps st = Inr d \<Longrightarrow>
     \<exists>priv. tc_ident c = Some priv \<and>
       d_Effect (EvaluateRunSteps (te_rx E) (rules_or_none E st) act steps) = EffectAllow \<and>
       d = task_decision E priv j role act (EvaluateRunSteps (te_rx E) (rules_or_none E st) act steps) st"
  by (auto simp: signTaskRunDecision_def Let_def split: option.splits if_splits)

lemma CreateJobSvc_ok:
  assumes "CreateJobSvc E c now j spec actor st = (Some job, None, st')"
  obtains ver steps decs db as where "gatePolicy E c j (sj_Selector spec) (ta_Role actor) steps st = Inr decs"
    "selected (sj_Selector spec) st = Inr as"
    "sent (ss_srv st') = sent (ss_srv (fold (push_one now job spec steps decs) as (on_tasks (\<lambda>_. db) st)))"
proof -
  from assms obtain ver steps decs where ch: "create_checks E c j spec (ta_Role actor) st = Inr (ver, steps, decs)"
    by (auto simp: CreateJobSvc_def split: sum.splits)
  from assms ch obtain db where db: "CreateJob now \<lparr>jb_ID = j, jb_Name = sj_Name spec, jb_TaskID = sj_TaskID spec,
      jb_TaskVersion = ver, jb_Cron = sj_Cron spec, jb_Selector = sj_Selector spec, jb_MaxRunSeconds = sj_MaxRunS spec,
      jb_Enabled = sj_Enabled spec, jb_Created = now, jb_Updated = now\<rparr> (job_db st) = Inr db"
    by (auto simp: CreateJobSvc_def Let_def split: sum.splits)
  from assms ch db obtain as st1 where p: "resolveAndPush now job spec steps decs (on_tasks (\<lambda>_. db) st) = (Inr as, st1)"
    "sent (ss_srv st') = sent (ss_srv st1)"
    by (auto simp: CreateJobSvc_def Let_def job_audit_def on_srv_def emit_def append_audit_def split: sum.splits prod.splits)
  from ch have g: "gatePolicy E c j (sj_Selector spec) (ta_Role actor) steps st = Inr decs"
    by (auto simp: create_checks_def split: sum.splits if_splits)
  have "selected (sj_Selector spec) (on_tasks (\<lambda>_. db) st) = selected (sj_Selector spec) st"
    by (simp add: selected_def)
  with p(1) have "selected (sj_Selector spec) st = Inr as"
    "st1 = fold (push_one now job spec steps decs) as (on_tasks (\<lambda>_. db) st)"
    by (auto simp: resolveAndPush_def split: sum.splits)
  with that g p(2) show thesis by blast
qed

text \<open>
  a standing decision holds at the agent: the assignment that creating a job pushes to a host
  carries a decision under which the host's guardrail accepts a run of its steps, once the host
  has received the bundle the server pushes in the same state.
\<close>

theorem standing_decision_accepted:
  assumes "CreateJobSvc E c now j spec actor st = (Some job, None, st')"
    and new: "(sid, EJobAssign ja) \<in> set (sent (ss_srv st'))" "(sid, EJobAssign ja) \<notin> set (sent (ss_srv st))"
    and sess: "sessions (ss_srv st) agent = Some sid" "inj_on (sessions (ss_srv st)) (dom (sessions (ss_srv st)))"
    and push: "sent (pushPolicyBundle (te_match E) marshal hash64 pub64 (tc_eol c) agent sid (ss_srv st)) =
      sent (ss_srv st) @ [(sid, EPolicyBundle b)]"
    and pol: "GetPolicyRules (te_match E) (pol (ss_srv st)) = Inr rs"
      "PolicyBundleVersion (pol (ss_srv st)) = Inr v" "v \<noteq> 0 \<or> rs = []"
    and json: "marshal (sort_key r_ID rs) \<noteq> []"
      "unmarshal (rules g) (marshal (sort_key r_ID rs)) = (sort_key r_ID rs, True)"
    and key: "tc_ident c = Some priv" "pub64 \<noteq> []" "b64dec pub64 = Some pub" "\<And>m. verify pub m (te_sign E priv m)"
    and host: "agent \<noteq> []" "Agent_get agent (hosts (ss_srv st)) = Some h"
    and tr: "tr_Steps tr = jm_Steps ja" "tr_Decision tr = jm_Decision ja"
  shows "fst (RecheckTask (te_rx E) verify (fst (OnBundle marshal unmarshal b64dec b g fs)) tr)"
proof -
  from CreateJobSvc_ok [OF assms(1)] obtain steps decs db as where
    gate: "gatePolicy E c j (sj_Selector spec) (ta_Role actor) steps st = Inr decs"
    and as: "selected (sj_Selector spec) st = Inr as"
    and st': "sent (ss_srv st') = sent (ss_srv (fold (push_one now job spec steps decs) as (on_tasks (\<lambda>_. db) st)))"
    by metis
  have s: "sessions (ss_srv (on_tasks (\<lambda>_. db) st)) = sessions (ss_srv st)"
    "sent (ss_srv (on_tasks (\<lambda>_. db) st)) = sent (ss_srv st)" by (simp_all add: on_tasks_def on_srv_def)
  from push_fold_sent [of sid "EJobAssign ja" now job spec steps decs as "on_tasks (\<lambda>_. db) st"] new st' s
  obtain a where a: "a \<in> set as" "sessions (ss_srv st) a = Some sid" "ja = assignment_msg job spec steps (map_of decs a)"
    by auto
  from a(2) sess have "a = agent" by (metis domI inj_onD)
  with a(1) gatePolicy_Inr [OF gate] as obtain d where d: "map_of decs agent = Some d"
    "signTaskRunDecision E c j (ta_Role actor) (task_action (tc_eol c) agent (ta_Role actor) (hosts (ss_srv st))) steps st = Inr d"
    by force
  have m: "tr_Steps tr = steps" "tr_Decision tr = Some d"
    using a(3) d(1) tr \<open>a = agent\<close> by (simp_all add: assignment_msg_def)
  from signTaskRunDecision_Inr [OF d(2)] key(1)
  have sign: "d_Effect (EvaluateRunSteps (te_rx E) (rules_or_none E st)
        (task_action (tc_eol c) agent (ta_Role actor) (hosts (ss_srv st))) steps) = EffectAllow"
    "d = task_decision E priv j (ta_Role actor) (task_action (tc_eol c) agent (ta_Role actor) (hosts (ss_srv st)))
      (EvaluateRunSteps (te_rx E) (rules_or_none E st)
        (task_action (tc_eol c) agent (ta_Role actor) (hosts (ss_srv st))) steps) st" by auto
  show ?thesis
    by (rule pushed_guard_accepts [where E = E and eolp = "tc_eol c" and marshal = marshal and ?hash64.0 = hash64
        and ?pub64.0 = pub64 and agent = agent and sid = sid and st = st and b = b and rs = rs and v = v
        and priv = priv and h = h and role = "ta_Role actor" and i = j and pub = pub
        and a = "task_action (tc_eol c) agent (ta_Role actor) (hosts (ss_srv st))"])
      (use push pol json key host sign m in auto)
qed

section \<open>What the reconcile misses\<close>

text \<open>
  C36: the reconcile never sends an assignment twice: for a job whose matching hosts all have an
  assignment row it changes nothing.  So a push that was lost (the host was offline when the row
  was written), and a decision signed under an older bundle version, which the agent refuses,
  are never renewed by it.
\<close>

theorem reconcile_never_resends:
  assumes "ResolveSelector (hosts (ss_srv st)) (jb_Selector job) = Inr hs"
    and "ID ` set hs = assigned (jb_ID job) st"
  shows "reconcile_job E c now job (n, st) = (n, st)"
proof -
  let ?has = "map ja_AgentID (JobAssignmentsForJob (jb_ID job) (job_db st))"
  have has: "set ?has = ID ` set hs" using assms(2) by (simp add: assigned_def)
  have "fold (reconcile_host E c now job ?has) as (n, st) = (n, st)" if "set as \<subseteq> set ?has" for as
    using that by (induction as) (auto simp: reconcile_host_def)
  moreover have "filter (\<lambda>a. a \<notin> ID ` set hs) ?has = []" using has by (auto simp: filter_empty_conv)
  ultimately show ?thesis using assms(1) has by (simp add: reconcile_job_def Let_def)
qed

text \<open>A selector that matches no host is an error to the reconcile, which then drops no assignment.\<close>

lemma reconcile_keeps_stale:
  assumes "ResolveSelector (hosts (ss_srv st)) (jb_Selector job) = Inl e"
  shows "reconcile_job E c now job (n, st) = (n, st)"
  using assms by (simp add: reconcile_job_def)

section \<open>Disabled jobs\<close>

text \<open>Two states that differ in the job rows but not in their ids.\<close>

definition same_pushes :: "secret_srv \<Rightarrow> secret_srv \<Rightarrow> bool" where
  "same_pushes s1 s2 \<longleftrightarrow> jb_ID ` set (jobs (job_db s1)) = jb_ID ` set (jobs (job_db s2)) \<and>
     sessions (ss_srv s1) = sessions (ss_srv s2) \<and> sent (ss_srv s1) = sent (ss_srv s2) \<and>
     sends (ss_srv s1) = sends (ss_srv s2) \<and> net (ss_srv s1) = net (ss_srv s2)"

lemma AssignJob_jobs: "AssignJob now a db = Inr db' \<Longrightarrow> jobs db' = jobs db"
  by (auto simp: AssignJob_def Let_def split: if_splits)

lemma AssignJob_cases: "(\<exists>db'. AssignJob now (assign_row j a) db = Inr db') \<longleftrightarrow> j \<in> jb_ID ` set (jobs db)"
  by (simp add: AssignJob_def assign_row_def Let_def)

lemma push_one_same:
  assumes "same_pushes s1 s2" "assignment_msg job1 spec1 steps d = assignment_msg job2 spec2 steps d"
    and "map_of decs a = d" "jb_ID job1 = jb_ID job2"
  shows "same_pushes (push_one now job1 spec1 steps decs a s1) (push_one now job2 spec2 steps decs a s2)"
proof (cases "jb_ID job1 \<in> jb_ID ` set (jobs (job_db s1))")
  case False
  with assms(1,4) have "\<nexists>db. AssignJob now (assign_row (jb_ID job1) a) (job_db s1) = Inr db"
    "\<nexists>db. AssignJob now (assign_row (jb_ID job2) a) (job_db s2) = Inr db"
    unfolding AssignJob_cases by (auto simp: same_pushes_def)
  then show ?thesis using assms(1) by (auto simp: push_one_def split: sum.splits)
next
  case True
  with assms(1,4) AssignJob_cases obtain db1 db2 where
    db: "AssignJob now (assign_row (jb_ID job1) a) (job_db s1) = Inr db1"
      "AssignJob now (assign_row (jb_ID job2) a) (job_db s2) = Inr db2"
    by (metis same_pushes_def)
  then have "jobs db1 = jobs (job_db s1)" "jobs db2 = jobs (job_db s2)" by (simp_all add: AssignJob_jobs)
  with assms db show ?thesis
    by (auto simp: push_one_def same_pushes_def on_tasks_def on_srv_def SendJobAssign_def sess_send_def Let_def
        split: option.splits)
qed

lemma push_fold_same:
  assumes "same_pushes s1 s2" "\<And>d. assignment_msg job1 spec1 steps d = assignment_msg job2 spec2 steps d"
    and "jb_ID job1 = jb_ID job2"
  shows "same_pushes (fold (push_one now job1 spec1 steps decs) as s1) (fold (push_one now job2 spec2 steps decs) as s2)"
  using assms(1)
proof (induction as arbitrary: s1 s2)
  case (Cons a as)
  from push_one_same [OF Cons.prems assms(2) refl assms(3)] show ?case by (simp add: Cons.IH)
qed simp

text \<open>
  a disabled job is scheduled on the hosts: creating a job pushes the same envelopes to the same
  agents whether the job is enabled or not, and an assignment says nothing of it, so a job that
  is created disabled fires on every host that is connected.
\<close>

theorem disabled_job_is_pushed:
  "sent (ss_srv (snd (snd (CreateJobSvc E c now j (spec\<lparr>sj_Enabled := en\<rparr>) actor st)))) =
   sent (ss_srv (snd (snd (CreateJobSvc E c now j spec actor st))))"
proof -
  let ?spec = "spec\<lparr>sj_Enabled := en\<rparr>"
  have fields: "sj_TaskVersion ?spec = sj_TaskVersion spec" "sj_TaskID ?spec = sj_TaskID spec"
    "sj_Selector ?spec = sj_Selector spec" by simp_all
  have ch: "create_checks E c j ?spec role st = create_checks E c j spec role st" for role
    unfolding create_checks_def create_version_def fields ..
  show ?thesis
  proof (cases "create_checks E c j spec (ta_Role actor) st")
    case (Inl e)
    then show ?thesis by (simp add: CreateJobSvc_def ch)
  next
    case (Inr p)
    obtain ver steps decs where p: "p = (ver, steps, decs)" by (cases p)
    let ?job = "\<lambda>e. \<lparr>jb_ID = j, jb_Name = sj_Name spec, jb_TaskID = sj_TaskID spec, jb_TaskVersion = ver,
      jb_Cron = sj_Cron spec, jb_Selector = sj_Selector spec, jb_MaxRunSeconds = sj_MaxRunS spec,
      jb_Enabled = e, jb_Created = now, jb_Updated = now\<rparr>"
    show ?thesis
    proof (cases "CreateJob now (?job (sj_Enabled spec)) (job_db st)")
      case (Inl e)
      then have "\<exists>e'. CreateJob now (?job en) (job_db st) = Inl e'"
        by (auto simp: CreateJob_def Let_def split: if_splits)
      with Inl Inr p show ?thesis by (auto simp: CreateJobSvc_def ch)
    next
      case (Inr db)
      then obtain db' where db': "CreateJob now (?job en) (job_db st) = Inr db'"
        "jb_ID ` set (jobs db') = jb_ID ` set (jobs db)"
        by (auto simp: CreateJob_def Let_def split: if_splits)
      have "same_pushes (on_tasks (\<lambda>_. db') st) (on_tasks (\<lambda>_. db) st)"
        using db'(2) by (simp add: same_pushes_def on_tasks_def on_srv_def)
      from push_fold_same [OF this, of "?job en" ?spec steps "?job (sj_Enabled spec)" spec now decs]
      have "sent (ss_srv (fold (push_one now (?job en) ?spec steps decs) as (on_tasks (\<lambda>_. db') st))) =
          sent (ss_srv (fold (push_one now (?job (sj_Enabled spec)) spec steps decs) as (on_tasks (\<lambda>_. db) st)))" for as
        by (simp add: assignment_msg_def same_pushes_def)
      moreover have "selected (sj_Selector spec) (on_tasks (\<lambda>_. db') st) = selected (sj_Selector spec) (on_tasks (\<lambda>_. db) st)"
        by (simp add: selected_def)
      ultimately show ?thesis
        using \<open>create_checks E c j spec (ta_Role actor) st = Inr p\<close> p Inr db'(1)
        by (auto simp: CreateJobSvc_def ch Let_def resolveAndPush_def job_audit_def on_srv_def emit_def
            append_audit_def on_tasks_def split: sum.splits)
    qed
  qed
qed

section \<open>Roles\<close>

text \<open>A rule against the role the standing decisions are signed for.\<close>

definition deny_system :: Rule where
  "deny_system = deny_all\<lparr>r_Match := (r_Match deny_all)\<lparr>m_ActorRoles := [''system'']\<rparr>\<rparr>"

text \<open>
  The reconcile evaluates with no role and signs the role \<open>system\<close>: under a rule that denies that role
  it signs an allow decision for every host and job, which every agent with the rule refuses.
\<close>

theorem standing_role_mismatch:
  assumes "GetPolicyRules (te_match E) (pol (ss_srv st)) = Inr [deny_system]" "tc_ident c = Some priv"
  shows "\<exists>dec. hostTaskRunDecision E c j host st = Inr dec \<and>
    (rules g = [deny_system] \<and> tr_Decision tr = Some dec \<longrightarrow> \<not> fst (RecheckTask (te_rx E) verify g tr))"
proof -
  let ?steps = "case GetJob j (job_db st) of None \<Rightarrow> [] | Some job \<Rightarrow>
    (case job_steps E (jb_TaskID job) (jb_TaskVersion job) st of Inl e \<Rightarrow> [] | Inr ss \<Rightarrow> ss)"
  let ?a = "standing_action c host st"
  have m: "matchesRule (te_rx E) deny_system a \<longleftrightarrow> ac_ActorRole a = ''system''" for a
    by (auto simp: deny_system_def deny_all_def matchesRule_def matchHosts_def matchActions_def
        matchActorRoles_def matchCommandRegex_def matchEOL_def)
  have eff: "r_Effect deny_system = EffectDeny" by (simp add: deny_system_def deny_all_def)
  have allow: "d_Effect (Evaluate (te_rx E) [deny_system] a) = EffectAllow" if "ac_ActorRole a = []" for a
    using that by (simp add: Evaluate_allow_iff m)
  have role: "ac_ActorRole ?a = []" by (simp add: standing_action_def zero_action_def Let_def split: option.splits)
  have "ac_ActorRole a = ac_ActorRole base" if "a \<in> set (StepActions base ss)" for a base ss
    using that
  proof (induction ss)
    case (Cons s ss)
    have "ac_ActorRole (exec_step_action base cl) = ac_ActorRole base" for cl
      by (cases "str_fields cl") (simp_all add: exec_step_action_def)
    with Cons show ?case by (auto split: if_splits)
  qed simp
  then have "d_Effect (EvaluateRunSteps (te_rx E) [deny_system] ?a ss) = EffectAllow" for ss
    using allow role by (fastforce simp: EvaluateRunSteps_allow)
  then obtain dec where dec: "hostTaskRunDecision E c j host st = Inr dec" "pd_ActorRole dec = ''system''"
    "pd_ApprovalId dec = []"
    using assms by (simp add: hostTaskRunDecision_def signTaskRunDecision_def rules_or_none_def task_decision_def Let_def)
  have "\<not> fst (RecheckTask (te_rx E) verify g tr)" if g: "rules g = [deny_system]" "tr_Decision tr = Some dec"
  proof (cases "check_decision verify g ''task run'' (tr_Decision tr)")
    case (Inl x)
    then show ?thesis by (simp add: RecheckTask_def)
  next
    case (Inr d)
    with check_decision_Inr g(2) have d: "d = dec" by (metis option.inject)
    have "ac_ActorRole (local_action g dec (zero_action\<lparr>ac_ActionClass := ActionTaskRun\<rparr>)) = ''system''"
      using dec(2) by (simp add: local_action_def)
    then have "d_Effect (Evaluate (te_rx E) (rules g)
        (local_action g dec (zero_action\<lparr>ac_ActionClass := ActionTaskRun\<rparr>))) \<noteq> EffectAllow"
      using g(1) eff by (simp add: Evaluate_allow_iff m)
    with Inr d dec(3) show ?thesis by (simp add: RecheckTask_def Let_def)
  qed
  with dec(1) show ?thesis by blast
qed

section \<open>Witnesses\<close>

definition job_env :: task_env where
  "job_env = sample_env\<lparr>te_steps := \<lambda>_. Some [cmd_step]\<rparr>"

definition daily :: job_spec where
  "daily = \<lparr>sj_Name = ''daily'', sj_TaskID = ''t1'', sj_TaskVersion = 1, sj_Cron = ''@daily'', sj_Timezone = [],
     sj_Selector = ''all'', sj_MaxRunS = 60, sj_OverlapPolicy = [], sj_FailurePolicy = [], sj_RetryBackoffS = 0,
     sj_Enabled = True, sj_EnabledSet = True\<rparr>"

definition created_job :: "Job option \<times> job_fail option \<times> secret_srv" where
  "created_job = CreateJobSvc job_env sample_task_ctl 1 ''job_1'' daily bob task_state"

definition updated_daily :: "Job option \<times> job_fail option \<times> secret_srv" where
  "updated_daily = UpdateJobSvc job_env sample_task_ctl 2 ''job_1'' daily bob (snd (snd created_job))"

theorem update_assignments_exact_witness: "assigned ''job_1'' (snd (snd updated_daily)) = {''h1''}"
proof -
  have "map_option jb_Selector (fst updated_daily) = Some ''all'' \<and> fst (snd updated_daily) = None" by code_simp
  then obtain job where "fst updated_daily = Some job" "fst (snd updated_daily) = None" "jb_Selector job = ''all''"
    by auto
  then have job: "updated_daily = (Some job, None, snd (snd updated_daily))" "jb_Selector job = ''all''"
    by (simp_all add: prod_eq_iff)
  have "UpdateJobSvc job_env sample_task_ctl 2 ''job_1'' daily bob (snd (snd created_job)) = (Some job, None, snd (snd updated_daily))"
    using job(1) by (simp add: updated_daily_def)
  from update_assignments_exact [OF this] obtain cur where cur: "selected ''all'' (snd (snd created_job)) = Inr cur"
    "assigned ''job_1'' (snd (snd updated_daily)) = set cur" using job(2) by metis
  have "selected ''all'' (snd (snd created_job)) = Inr [''h1'']" by code_simp
  with cur(1) have "cur = [''h1'']" by simp
  with cur(2) show ?thesis by simp
qed

text \<open>Created while the host is offline; the host then connects.\<close>

definition missed_state :: secret_srv where
  "missed_state = on_srv (\<lambda>s. s\<lparr>sessions := [''h1'' \<mapsto> 1]\<rparr>)
     (snd (snd (CreateJobSvc job_env sample_task_ctl 1 ''job_1'' daily bob
        (on_srv (\<lambda>s. s\<lparr>sessions := Map.empty\<rparr>) task_state))))"

theorem reconcile_never_resends_witness:
  "\<exists>job. GetJob ''job_1'' (job_db missed_state) = Some job \<and> jb_Enabled job \<and>
     sent (ss_srv (snd (reconcile_job job_env sample_task_ctl 2 job (0, missed_state)))) = []"
proof -
  have "map_option (\<lambda>job. (jb_ID job, jb_Selector job, jb_Enabled job)) (GetJob ''job_1'' (job_db missed_state)) =
      Some (''job_1'', ''all'', True)" by code_simp
  then obtain job where job: "GetJob ''job_1'' (job_db missed_state) = Some job" "jb_ID job = ''job_1''"
    "jb_Selector job = ''all''" "jb_Enabled job" by auto
  have "map_sum id (map ID) (ResolveSelector (hosts (ss_srv missed_state)) ''all'') = Inr [''h1'']" by code_simp
  then obtain hs where hs: "ResolveSelector (hosts (ss_srv missed_state)) ''all'' = Inr hs" "map ID hs = [''h1'']"
    by (cases "ResolveSelector (hosts (ss_srv missed_state)) ''all''") auto
  then have ids: "ID ` set hs = {''h1''}" by (metis list.set_map list.simps(15) set_empty)
  have "map ja_AgentID (JobAssignmentsForJob ''job_1'' (job_db missed_state)) = [''h1'']" by code_simp
  then have "assigned ''job_1'' missed_state = {''h1''}" unfolding assigned_def
    by (metis list.set_map list.simps(15) set_empty)
  with ids job hs have "reconcile_job job_env sample_task_ctl 2 job (0, missed_state) = (0, missed_state)"
    by (intro reconcile_never_resends) simp_all
  moreover have "sent (ss_srv missed_state) = []" by code_simp
  ultimately show ?thesis using job by auto
qed

theorem standing_decision_accepted_witness:
  "\<exists>b ja. sent task_push = [(1, EPolicyBundle b)] \<and> sent (ss_srv (snd (snd created_job))) = [(1, EJobAssign ja)] \<and>
    fst (RecheckTask (\<lambda>_. None) (\<lambda>p m s. m = s)
      (fst (OnBundle (\<lambda>_. ''1'') (\<lambda>_ _. ([], True)) Some b (NewGuard ''h1'')
        \<lparr>policy_json = None, policy_meta = None, server_pub = None\<rparr>))
      \<lparr>tr_RunId = ''jr_1'', tr_TaskId = ''t1'', tr_TaskVersion = 1, tr_Steps = jm_Steps ja, tr_Decision = jm_Decision ja\<rparr>)"
proof -
  let ?st' = "snd (snd created_job)"
  have "length (sent task_push) = 1 \<and> fst (hd (sent task_push)) = 1 \<and>
      (case snd (hd (sent task_push)) of EPolicyBundle b \<Rightarrow> True | _ \<Rightarrow> False)" by code_simp
  then obtain env where env: "sent task_push = [(1, env)]" "case env of EPolicyBundle b \<Rightarrow> True | _ \<Rightarrow> False"
    by (cases "sent task_push") (auto split del: Envelope.splits)
  then obtain b where b: "sent task_push = [(1, EPolicyBundle b)]" by (cases env) auto
  have "length (sent (ss_srv ?st')) = 1 \<and> fst (hd (sent (ss_srv ?st'))) = 1 \<and>
      (case snd (hd (sent (ss_srv ?st'))) of EJobAssign ja \<Rightarrow> True | _ \<Rightarrow> False)" by code_simp
  then obtain env' where env': "sent (ss_srv ?st') = [(1, env')]" "case env' of EJobAssign ja \<Rightarrow> True | _ \<Rightarrow> False"
    by (cases "sent (ss_srv ?st')") (auto split del: Envelope.splits)
  then obtain ja where ja: "sent (ss_srv ?st') = [(1, EJobAssign ja)]" by (cases env') auto
  have "fst created_job \<noteq> None \<and> fst (snd created_job) = None" by code_simp
  then obtain job where "fst created_job = Some job" "fst (snd created_job) = None" by auto
  then have "created_job = (Some job, None, ?st')" by (simp add: prod_eq_iff)
  then have create: "CreateJobSvc job_env sample_task_ctl 1 ''job_1'' daily bob task_state = (Some job, None, ?st')"
    by (simp add: created_job_def)
  have e: "sent (ss_srv task_state) = []" "sessions (ss_srv task_state) = [''h1'' \<mapsto> 1]"
    "Agent_get ''h1'' (hosts (ss_srv task_state)) \<noteq> None"
    by (simp_all add: task_state_def open_state_def dispatch_state_def init_server_def empty_db_def Agent_get_def
        sql_get_def)
  then obtain h where h: "Agent_get ''h1'' (hosts (ss_srv task_state)) = Some h" by blast
  have p: "GetPolicyRules sample_match (pol (ss_srv task_state)) = Inr []"
    "PolicyBundleVersion (pol (ss_srv task_state)) = Inr 0" by code_simp+
  have c: "te_match job_env = sample_match" "te_sign job_env = (\<lambda>k m. m)" "te_rx job_env = (\<lambda>_. None)"
    "tc_eol sample_task_ctl = None" "tc_ident sample_task_ctl = Some ''k''"
    by (simp_all add: job_env_def sample_env_def sample_task_ctl_def)
  let ?tr = "\<lparr>tr_RunId = ''jr_1'', tr_TaskId = ''t1'', tr_TaskVersion = 1, tr_Steps = jm_Steps ja, tr_Decision = jm_Decision ja\<rparr>"
  have "fst (RecheckTask (te_rx job_env) (\<lambda>p m s. m = s)
      (fst (OnBundle (\<lambda>_. ''1'') (\<lambda>_ _. ([], True)) Some b (NewGuard ''h1'')
        \<lparr>policy_json = None, policy_meta = None, server_pub = None\<rparr>)) ?tr)"
    by (rule standing_decision_accepted [OF create, where rs = "[]" and v = 0 and priv = "''k''" and agent = "''h1''"
          and ?pub64.0 = "''pk''" and ?hash64.0 = "\<lambda>s. s" and sid = 1 and pub = "''pk''" and h = h and ja = ja])
      (use e b ja p c h in \<open>simp_all add: task_push_def\<close>)
  with b ja c(3) show ?thesis by metis
qed

definition deny_env :: task_env where
  "deny_env = job_env\<lparr>te_match := \<lambda>_. Some \<lparr>m_Hosts = [], m_Actions = [], m_ActorRoles = [''system''],
     m_CommandRegex = [], m_EOL = []\<rparr>\<rparr>"

definition deny_state :: secret_srv where
  "deny_state = on_srv (\<lambda>s. s\<lparr>pol := \<lparr>policies = [\<lparr>pr_ID = ''d'', pr_Name = [], pr_MatchJSON = ''{}'',
     pr_Effect = ''deny'', pr_Priority = 0, pr_CreatedUnix = 0\<rparr>], bundle_meta = None\<rparr>\<rparr>) task_state"

theorem standing_role_mismatch_witness:
  "\<exists>dec. hostTaskRunDecision deny_env sample_task_ctl ''job_1'' ''h1'' deny_state = Inr dec \<and>
    \<not> fst (RecheckTask (\<lambda>_. None) (\<lambda>p m s. m = s) ((guard2 [deny_system])\<lparr>version := 0\<rparr>)
      \<lparr>tr_RunId = ''jr_1'', tr_TaskId = ''t1'', tr_TaskVersion = 1, tr_Steps = [], tr_Decision = Some dec\<rparr>)"
proof -
  have r: "GetPolicyRules (te_match deny_env) (pol (ss_srv deny_state)) = Inr [deny_system]" by code_simp
  have c: "tc_ident sample_task_ctl = Some ''k''" "te_rx deny_env = (\<lambda>_. None)"
    by (simp_all add: sample_task_ctl_def deny_env_def job_env_def sample_env_def)
  obtain dec where d: "hostTaskRunDecision deny_env sample_task_ctl ''job_1'' ''h1'' deny_state = Inr dec"
    using standing_role_mismatch [OF r c(1)] by blast
  let ?tr = "\<lparr>tr_RunId = ''jr_1'', tr_TaskId = ''t1'', tr_TaskVersion = 1, tr_Steps = [], tr_Decision = Some dec\<rparr>"
  from standing_role_mismatch [OF r c(1), of "''job_1''" "''h1''" "(guard2 [deny_system])\<lparr>version := 0\<rparr>" ?tr
      "\<lambda>p m s. m = s"] d c(2)
  show ?thesis by (auto simp: guard2_def)
qed

end
