(* ===== verification/Sessions.thy ===== *)
theory Sessions
  imports Elevation "HOL-Library.Word"
begin

text \<open>
  Terminal sessions on the agent, \<open>src/internal/agent/session/session.go\<close>: the manager's table, the
  flags of a session, and the result its read loop reports.

  A \<open>Session\<close> is an object with an address (its place in \<open>mg_objs\<close>), because goroutines keep pointers
  to it.  Starting a process on a pseudo terminal and writing to it are arguments that say which error
  there is; the read loop is the two operations \<open>read_chunk\<close> and \<open>read_end\<close>.  Signals have no effect of
  their own here: what the process does is the argument of \<open>read_end\<close>.
\<close>

section \<open>State\<close>

record pty_session =
  px_ID :: string
  px_proc :: nat \<comment> \<open>the process, a place in \<open>mg_procs\<close>\<close>
  px_cols :: "16 word"
  px_rows :: "16 word"
  px_closed :: bool
  px_killed :: bool
  px_userClosed :: bool
  px_reaped :: bool
  px_resulted :: bool

record session_result =
  sx_obj :: nat
  sx_ID :: string
  sx_exit :: int
  sx_state :: string

record session_mgr =
  mg_table :: "string \<rightharpoonup> nat"
  mg_objs :: "pty_session list"
  mg_procs :: "((string \<times> string list) \<times> (string \<rightharpoonup> string)) list"
  mg_written :: "(nat \<times> string) list"
  mg_data :: "(string \<times> string) list"
  mg_results :: "session_result list"

definition New_sessions :: session_mgr where
  "New_sessions = \<lparr>mg_table = Map.empty, mg_objs = [], mg_procs = [], mg_written = [], mg_data = [], mg_results = []\<rparr>"

datatype session_error =
    StartFailed string string
  | AlreadyOpen string
  | NotFound string
  | EmptyInput string
  | SessionClosed string
  | PtyError string

section \<open>Operations\<close>

definition kept_vars :: "string list" where
  "kept_vars = [''HOME'', ''USER'', ''LOGNAME'', ''SHELL'', ''LANG'']"

definition cleanEnv :: "(string \<Rightarrow> string) \<Rightarrow> (string \<rightharpoonup> string) \<Rightarrow> int \<Rightarrow> int \<Rightarrow> (string \<rightharpoonup> string)" where
  "cleanEnv getenv declared cols rows =
     (let base = [''TERM'' \<mapsto> ''xterm-256color'',
                  ''PATH'' \<mapsto> ''/usr/local/sbin:/usr/local/bin:/usr/sbin:/usr/bin:/sbin:/bin'',
                  ''COLUMNS'' \<mapsto> show_int cols, ''LINES'' \<mapsto> show_int rows];
          env = fold (\<lambda>keep m. if getenv keep \<noteq> [] then m(keep \<mapsto> getenv keep) else m) kept_vars base
      in env ++ declared)"

text \<open>\<open>started argv env\<close> is the error of \<open>pty.StartWithSize\<close>, if there is one.\<close>

definition Open_session ::
  "policy_runner \<Rightarrow> (string \<Rightarrow> string) \<Rightarrow> (string \<times> string list \<Rightarrow> (string \<rightharpoonup> string) \<Rightarrow> string option)
   \<Rightarrow> string \<Rightarrow> string \<Rightarrow> string list \<Rightarrow> (string \<rightharpoonup> string) \<Rightarrow> int \<Rightarrow> int \<Rightarrow> session_mgr
   \<Rightarrow> session_error option \<times> session_mgr" where
  "Open_session r getenv started sid name args env cols rows m =
     (let argv = Wrap r name args; cenv = cleanEnv getenv env cols rows
      in case started argv cenv of
           Some err \<Rightarrow> (Some (StartFailed name err), m)
         | None \<Rightarrow>
             (let m1 = m\<lparr>mg_procs := mg_procs m @ [(argv, cenv)]\<rparr>
              in if mg_table m sid \<noteq> None then (Some (AlreadyOpen sid), m1)
                 else (None, m1\<lparr>mg_objs := mg_objs m @ [\<lparr>px_ID = sid, px_proc = length (mg_procs m),
                                  px_cols = word_of_int cols, px_rows = word_of_int rows, px_closed = False,
                                  px_killed = False, px_userClosed = False, px_reaped = False, px_resulted = False\<rparr>],
                               mg_table := (mg_table m)(sid \<mapsto> length (mg_objs m))\<rparr>)))"

definition upd_obj :: "nat \<Rightarrow> (pty_session \<Rightarrow> pty_session) \<Rightarrow> session_mgr \<Rightarrow> session_mgr" where
  "upd_obj k f m = m\<lparr>mg_objs := (mg_objs m)[k := f (mg_objs m ! k)]\<rparr>"

definition session_input :: "string option \<Rightarrow> nat \<Rightarrow> string \<Rightarrow> session_mgr \<Rightarrow> session_error option \<times> session_mgr" where
  "session_input io k data m =
     (let s = mg_objs m ! k
      in if data = [] then (Some (EmptyInput (px_ID s)), m)
         else if px_closed s then (Some (SessionClosed (px_ID s)), m)
         else case io of
                Some err \<Rightarrow> (Some (PtyError err), m)
              | None \<Rightarrow> (None, m\<lparr>mg_written := mg_written m @ [(k, data)]\<rparr>))"

definition Input_session :: "string option \<Rightarrow> string \<Rightarrow> string \<Rightarrow> session_mgr \<Rightarrow> session_error option \<times> session_mgr" where
  "Input_session io sid data m =
     (case mg_table m sid of None \<Rightarrow> (Some (NotFound sid), m) | Some k \<Rightarrow> session_input io k data m)"

definition Resize_session ::
  "string option \<Rightarrow> string \<Rightarrow> int \<Rightarrow> int \<Rightarrow> session_mgr \<Rightarrow> session_error option \<times> session_mgr" where
  "Resize_session io sid cols rows m =
     (case mg_table m sid of
        None \<Rightarrow> (Some (NotFound sid), m)
      | Some k \<Rightarrow>
          (case io of
             Some err \<Rightarrow> (Some (PtyError err), m)
           | None \<Rightarrow> (None, upd_obj k (\<lambda>s. s\<lparr>px_cols := word_of_int cols, px_rows := word_of_int rows\<rparr>) m)))"

text \<open>\<open>closeGraceful\<close> and \<open>kill\<close> on a session object.\<close>

definition closeGraceful :: "pty_session \<Rightarrow> pty_session" where
  "closeGraceful s = (if px_closed s then s else s\<lparr>px_closed := True, px_userClosed := True\<rparr>)"

definition kill :: "pty_session \<Rightarrow> pty_session" where
  "kill s = (let s1 = s\<lparr>px_killed := True\<rparr> in if px_closed s1 then s1 else s1\<lparr>px_closed := True\<rparr>)"

definition Close_session :: "string \<Rightarrow> session_mgr \<Rightarrow> session_error option \<times> session_mgr" where
  "Close_session sid m =
     (case mg_table m sid of
        None \<Rightarrow> (Some (NotFound sid), m)
      | Some k \<Rightarrow> (None, upd_obj k closeGraceful (m\<lparr>mg_table := (mg_table m)(sid := None)\<rparr>)))"

definition KillAll :: "session_mgr \<Rightarrow> session_mgr" where
  "KillAll m =
     m\<lparr>mg_table := Map.empty,
       mg_objs := map (\<lambda>(k, s). if mg_table m (px_ID s) = Some k then kill s else s) (enumerate 0 (mg_objs m))\<rparr>"

section \<open>The read loop\<close>

text \<open>How \<open>cmd.Wait\<close> returns: no error, an exit status that is an error, another error.\<close>

datatype wait_result = WaitOK | WaitExit int | WaitError

definition read_chunk :: "nat \<Rightarrow> string \<Rightarrow> session_mgr \<Rightarrow> session_mgr" where
  "read_chunk k data m = m\<lparr>mg_data := mg_data m @ [(px_ID (mg_objs m ! k), data)]\<rparr>"

definition end_state :: "pty_session \<Rightarrow> wait_result \<Rightarrow> int \<times> string" where
  "end_state s w =
     (if px_killed s then (-1, ''interrupted'')
      else case w of
             WaitOK \<Rightarrow> (0, ''succeeded'')
           | _ \<Rightarrow>
               (let exit = (case w of WaitExit n \<Rightarrow> n | _ \<Rightarrow> -1)
                in (exit, if px_userClosed s then ''closed'' else if exit \<noteq> 0 then ''failed'' else ''succeeded'')))"

definition read_end :: "nat \<Rightarrow> wait_result \<Rightarrow> session_mgr \<Rightarrow> session_mgr" where
  "read_end k w m =
     (let s = mg_objs m ! k; m1 = upd_obj k (\<lambda>s. s\<lparr>px_reaped := True\<rparr>) m
      in case end_state s w of (exit, state) \<Rightarrow>
           if px_resulted s then m1
           else (upd_obj k (\<lambda>s. s\<lparr>px_resulted := True\<rparr>) m1)\<lparr>mg_results := mg_results m @
                  [\<lparr>sx_obj = k, sx_ID = px_ID s, sx_exit = exit, sx_state = state\<rparr>]\<rparr>)"

section \<open>Reachable managers\<close>

definition running :: "nat \<Rightarrow> session_mgr \<Rightarrow> bool" where
  "running k m \<longleftrightarrow> k < length (mg_objs m) \<and> \<not> px_reaped (mg_objs m ! k)"

inductive mgr_reach :: "session_mgr \<Rightarrow> bool" where
  start: "mgr_reach New_sessions"
| opens: "mgr_reach m \<Longrightarrow> mgr_reach (snd (Open_session r getenv started sid name args env cols rows m))"
| input: "mgr_reach m \<Longrightarrow> mgr_reach (snd (Input_session io sid data m))"
| resize: "mgr_reach m \<Longrightarrow> mgr_reach (snd (Resize_session io sid cols rows m))"
| closes: "mgr_reach m \<Longrightarrow> mgr_reach (snd (Close_session sid m))"
| killed: "mgr_reach m \<Longrightarrow> mgr_reach (KillAll m)"
| chunk: "mgr_reach m \<Longrightarrow> running k m \<Longrightarrow> mgr_reach (read_chunk k data m)"
| ends: "mgr_reach m \<Longrightarrow> running k m \<Longrightarrow> mgr_reach (read_end k w m)"

text \<open>What a reported result says of the session's flags.\<close>

definition result_fits :: "session_mgr \<Rightarrow> session_result \<Rightarrow> bool" where
  "result_fits m x \<longleftrightarrow>
     (let s = mg_objs m ! sx_obj x
      in sx_ID x = px_ID s \<and>
         ((sx_state x = ''interrupted'' \<and> px_killed s \<and> sx_exit x = -1) \<or>
          (sx_state x = ''closed'' \<and> px_userClosed s) \<or>
          (sx_state x = ''succeeded'' \<and> sx_exit x = 0) \<or> (sx_state x = ''failed'' \<and> sx_exit x \<noteq> 0)))"

definition table_ok :: "session_mgr \<Rightarrow> bool" where
  "table_ok m \<longleftrightarrow>
     (\<forall>sid k. mg_table m sid = Some k \<longleftrightarrow>
        k < length (mg_objs m) \<and> px_ID (mg_objs m ! k) = sid \<and> \<not> px_closed (mg_objs m ! k))"

definition results_ok :: "session_mgr \<Rightarrow> bool" where
  "results_ok m \<longleftrightarrow>
     distinct (map sx_obj (mg_results m)) \<and>
     (\<forall>k. k \<in> set (map sx_obj (mg_results m)) \<longleftrightarrow> k < length (mg_objs m) \<and> px_reaped (mg_objs m ! k)) \<and>
     (\<forall>k < length (mg_objs m). px_resulted (mg_objs m ! k) = px_reaped (mg_objs m ! k)) \<and>
     (\<forall>x \<in> set (mg_results m). result_fits m x)"

definition flags_ok :: "session_mgr \<Rightarrow> bool" where
  "flags_ok m \<longleftrightarrow> (\<forall>s \<in> set (mg_objs m). (px_killed s \<or> px_userClosed s \<longrightarrow> px_closed s) \<and> \<not> (px_killed s \<and> px_userClosed s))"

text \<open>A change of a session object that keeps the id, the end, and flags that are set.\<close>

definition grows :: "pty_session \<Rightarrow> pty_session \<Rightarrow> bool" where
  "grows s s' \<longleftrightarrow> px_ID s' = px_ID s \<and> px_reaped s' = px_reaped s \<and> px_resulted s' = px_resulted s \<and>
     (px_killed s \<longrightarrow> px_killed s') \<and> (px_userClosed s \<longrightarrow> px_userClosed s')"

lemma results_ok_grows:
  assumes "results_ok m" "mg_results m' = mg_results m" "length (mg_objs m') = length (mg_objs m)"
    and "\<And>k. k < length (mg_objs m) \<Longrightarrow> grows (mg_objs m ! k) (mg_objs m' ! k)"
  shows "results_ok m'"
proof -
  have "result_fits m' x" if "x \<in> set (mg_results m)" for x
  proof -
    have "sx_obj x < length (mg_objs m)" "result_fits m x"
      using assms(1) that by (force simp: results_ok_def)+
    then show ?thesis using assms(4) [of "sx_obj x"] by (auto simp: result_fits_def grows_def Let_def)
  qed
  moreover have "\<forall>k < length (mg_objs m). px_reaped (mg_objs m' ! k) = px_reaped (mg_objs m ! k) \<and>
      px_resulted (mg_objs m' ! k) = px_resulted (mg_objs m ! k)"
    using assms(4) by (simp add: grows_def)
  ultimately show ?thesis using assms(1-3) by (auto simp: results_ok_def)
qed

lemma grows_refl [simp]: "grows s s"
  by (simp add: grows_def)

lemma upd_obj_fields [simp]:
  "mg_table (upd_obj k f m) = mg_table m" "mg_results (upd_obj k f m) = mg_results m"
  "length (mg_objs (upd_obj k f m)) = length (mg_objs m)"
  "i < length (mg_objs m) \<Longrightarrow> mg_objs (upd_obj k f m) ! i = (if i = k then f (mg_objs m ! k) else mg_objs m ! i)"
  by (auto simp: upd_obj_def nth_list_update)

lemma KillAll_nth:
  "k < length (mg_objs m) \<Longrightarrow>
   mg_objs (KillAll m) ! k =
     (if mg_table m (px_ID (mg_objs m ! k)) = Some k then kill (mg_objs m ! k) else mg_objs m ! k)"
  by (simp add: KillAll_def nth_enumerate_eq)

lemma KillAll_length [simp]: "length (mg_objs (KillAll m)) = length (mg_objs m)"
  by (simp add: KillAll_def)

lemma flags_ok_nth:
  "flags_ok m \<longleftrightarrow> (\<forall>k < length (mg_objs m).
     (px_killed (mg_objs m ! k) \<or> px_userClosed (mg_objs m ! k) \<longrightarrow> px_closed (mg_objs m ! k)) \<and>
     \<not> (px_killed (mg_objs m ! k) \<and> px_userClosed (mg_objs m ! k)))"
  by (simp add: flags_ok_def all_set_conv_all_nth)

text \<open>In a reachable manager every session that ended has reported, once, and an open session is in the table.\<close>

definition mgr_ok :: "session_mgr \<Rightarrow> bool" where
  "mgr_ok m \<longleftrightarrow> table_ok m \<and> results_ok m \<and> flags_ok m"

lemma mgr_ok_same:
  assumes "mgr_ok m" "mg_table m' = mg_table m" "mg_objs m' = mg_objs m" "mg_results m' = mg_results m"
  shows "mgr_ok m'"
  using assms by (simp add: mgr_ok_def table_ok_def results_ok_def flags_ok_def result_fits_def Let_def)

lemma Open_ok:
  assumes "mgr_ok m"
  shows "mgr_ok (snd (Open_session r getenv started sid name args env cols rows m))"
proof (cases "started (Wrap r name args) (cleanEnv getenv env cols rows) = None \<and> mg_table m sid = None")
  case False
  then show ?thesis using assms
    by (auto simp: Open_session_def Let_def split: option.splits intro: mgr_ok_same [OF assms])
next
  case True
  let ?m = "snd (Open_session r getenv started sid name args env cols rows m)"
  let ?n = "length (mg_objs m)"
  obtain s where s: "mg_objs ?m = mg_objs m @ [s]" "mg_table ?m = (mg_table m)(sid \<mapsto> ?n)"
      "mg_results ?m = mg_results m" "px_ID s = sid" "\<not> px_closed s" "\<not> px_killed s" "\<not> px_userClosed s"
      "\<not> px_reaped s" "\<not> px_resulted s"
    using True by (auto simp: Open_session_def Let_def)
  have t: "\<And>j k. mg_table m j = Some k \<longleftrightarrow> k < ?n \<and> px_ID (mg_objs m ! k) = j \<and> \<not> px_closed (mg_objs m ! k)"
    using assms by (simp add: mgr_ok_def table_ok_def)
  have "table_ok ?m" unfolding table_ok_def s
    using s(4,5) True t [of sid] t by (auto simp: nth_append less_Suc_eq)
  moreover have "results_ok ?m"
  proof -
    have "result_fits ?m x" if "x \<in> set (mg_results m)" for x
    proof -
      have "sx_obj x < ?n" "result_fits m x" using assms that by (force simp: mgr_ok_def results_ok_def)+
      then show ?thesis by (simp add: result_fits_def s nth_append Let_def)
    qed
    then show ?thesis using assms s(8,9)
      by (auto simp: mgr_ok_def results_ok_def s(1,3) nth_append less_Suc_eq)
  qed
  moreover have "flags_ok ?m" using assms s by (auto simp: mgr_ok_def flags_ok_def)
  ultimately show ?thesis by (simp add: mgr_ok_def)
qed

lemma Resize_ok:
  assumes "mgr_ok m"
  shows "mgr_ok (snd (Resize_session io sid cols rows m))"
proof (cases "\<exists>k. mg_table m sid = Some k \<and> io = None")
  case False
  then show ?thesis using assms by (auto simp: Resize_session_def split: option.splits)
next
  case True
  then obtain k where k: "mg_table m sid = Some k" "io = None" by blast
  let ?f = "\<lambda>s. s\<lparr>px_cols := word_of_int cols, px_rows := word_of_int rows\<rparr>"
  have "table_ok (upd_obj k ?f m)" using assms
    by (auto simp: mgr_ok_def table_ok_def split: if_splits)
  moreover have "results_ok (upd_obj k ?f m)"
    by (rule results_ok_grows [of m]) (use assms in \<open>auto simp: mgr_ok_def grows_def\<close>)
  moreover have "flags_ok (upd_obj k ?f m)" using assms
    by (auto simp: mgr_ok_def flags_ok_nth split: if_splits)
  ultimately show ?thesis using k by (simp add: mgr_ok_def Resize_session_def)
qed

lemma Close_ok:
  assumes "mgr_ok m"
  shows "mgr_ok (snd (Close_session sid m))"
proof (cases "mg_table m sid")
  case None
  then show ?thesis using assms by (simp add: Close_session_def)
next
  case (Some k)
  let ?m = "upd_obj k closeGraceful (m\<lparr>mg_table := (mg_table m)(sid := None)\<rparr>)"
  have t: "\<And>j k. mg_table m j = Some k \<longleftrightarrow> k < length (mg_objs m) \<and> px_ID (mg_objs m ! k) = j \<and> \<not> px_closed (mg_objs m ! k)"
    using assms by (simp add: mgr_ok_def table_ok_def)
  have other: "px_closed (mg_objs m ! i)" if "i < length (mg_objs m)" "i \<noteq> k" "px_ID (mg_objs m ! i) = sid" for i
    using that Some t [of sid i] by auto
  have "table_ok ?m" unfolding table_ok_def using Some t [of sid k] t other
    by (auto simp: closeGraceful_def upd_obj_def nth_list_update split: if_splits)
  moreover have "results_ok ?m"
    by (rule results_ok_grows [of m])
      (use assms in \<open>auto simp: mgr_ok_def grows_def closeGraceful_def\<close>)
  moreover have "flags_ok ?m" using assms Some t [of sid k]
    by (auto simp: mgr_ok_def flags_ok_nth closeGraceful_def)
  ultimately show ?thesis using Some by (simp add: mgr_ok_def Close_session_def)
qed

lemma KillAll_ok:
  assumes "mgr_ok m"
  shows "mgr_ok (KillAll m)" "\<forall>s \<in> set (mg_objs (KillAll m)). px_closed s"
proof -
  have t: "\<And>j k. mg_table m j = Some k \<longleftrightarrow> k < length (mg_objs m) \<and> px_ID (mg_objs m ! k) = j \<and> \<not> px_closed (mg_objs m ! k)"
    using assms by (simp add: mgr_ok_def table_ok_def)
  have cl: "px_closed (mg_objs (KillAll m) ! k)" if "k < length (mg_objs m)" for k
    using that t by (auto simp: KillAll_nth kill_def Let_def)
  then show "\<forall>s \<in> set (mg_objs (KillAll m)). px_closed s" by (auto simp: in_set_conv_nth)
  have "table_ok (KillAll m)" using cl by (auto simp: table_ok_def) (simp_all add: KillAll_def)
  moreover have "results_ok (KillAll m)"
    by (rule results_ok_grows [of m]) (use assms in \<open>auto simp: mgr_ok_def grows_def KillAll_nth kill_def Let_def\<close>, simp add: KillAll_def)
  moreover have "flags_ok (KillAll m)" using assms t
    by (auto simp: mgr_ok_def flags_ok_nth KillAll_nth kill_def Let_def)
  ultimately show "mgr_ok (KillAll m)" by (simp add: mgr_ok_def)
qed

lemma read_end_run:
  assumes "mgr_ok m" "running k m"
  shows "mg_results (read_end k w m) = mg_results m @ [\<lparr>sx_obj = k, sx_ID = px_ID (mg_objs m ! k),
      sx_exit = fst (end_state (mg_objs m ! k) w), sx_state = snd (end_state (mg_objs m ! k) w)\<rparr>]"
    and "mg_objs (read_end k w m) = (mg_objs m)[k := (mg_objs m ! k)\<lparr>px_reaped := True, px_resulted := True\<rparr>]"
    and "mg_table (read_end k w m) = mg_table m"
  using assms by (auto simp: read_end_def mgr_ok_def results_ok_def running_def upd_obj_def Let_def split: prod.splits)

lemma end_state_fits:
  "(snd (end_state s w) = ''interrupted'' \<and> px_killed s \<and> fst (end_state s w) = -1) \<or>
   (snd (end_state s w) = ''closed'' \<and> px_userClosed s) \<or>
   (snd (end_state s w) = ''succeeded'' \<and> fst (end_state s w) = 0) \<or>
   (snd (end_state s w) = ''failed'' \<and> fst (end_state s w) \<noteq> 0)"
  by (auto simp: end_state_def Let_def split: wait_result.splits)

lemma read_end_ok:
  assumes "mgr_ok m" "running k m"
  shows "mgr_ok (read_end k w m)"
proof -
  note run = read_end_run [OF assms, of w]
  have k: "k < length (mg_objs m)" "\<not> px_reaped (mg_objs m ! k)" using assms(2) by (auto simp: running_def)
  have obj: "length (mg_objs (read_end k w m)) = length (mg_objs m)"
    "\<And>i. i < length (mg_objs m) \<Longrightarrow> mg_objs (read_end k w m) ! i =
       (if i = k then (mg_objs m ! k)\<lparr>px_reaped := True, px_resulted := True\<rparr> else mg_objs m ! i)"
    by (simp_all add: run(2) nth_list_update)
  have "table_ok (read_end k w m)" using assms(1)
    by (auto simp: mgr_ok_def table_ok_def run(3) obj split: if_splits)
  moreover have "flags_ok (read_end k w m)" using assms(1) k(1)
    by (auto simp: mgr_ok_def flags_ok_nth obj)
  moreover have "results_ok (read_end k w m)"
  proof -
    have new: "k \<notin> set (map sx_obj (mg_results m))" using assms(1) k(2) unfolding mgr_ok_def results_ok_def by blast
    have fit: "result_fits (read_end k w m) x" if "x \<in> set (mg_results m)" for x
    proof -
      have "result_fits m x" "sx_obj x < length (mg_objs m)" using assms(1) that by (force simp: mgr_ok_def results_ok_def)+
      then show ?thesis by (auto simp: result_fits_def obj Let_def)
    qed
    have "result_fits (read_end k w m) \<lparr>sx_obj = k, sx_ID = px_ID (mg_objs m ! k),
        sx_exit = fst (end_state (mg_objs m ! k) w), sx_state = snd (end_state (mg_objs m ! k) w)\<rparr>"
      using end_state_fits [of "mg_objs m ! k" w] k(1) by (simp add: result_fits_def obj Let_def)
    with fit show ?thesis using assms(1) new k
      by (auto simp: mgr_ok_def results_ok_def run(1) obj)
  qed
  ultimately show ?thesis by (simp add: mgr_ok_def)
qed

lemma mgr_reach_ok: "mgr_reach m \<Longrightarrow> mgr_ok m"
proof (induction rule: mgr_reach.induct)
  case start
  show ?case by (simp add: mgr_ok_def table_ok_def results_ok_def flags_ok_def New_sessions_def)
next
  case (input m io sid data)
  then show ?case
    by (auto simp: Input_session_def session_input_def Let_def split: option.splits intro: mgr_ok_same [OF input.IH])
next
  case (chunk m k data)
  then show ?case by (auto simp: read_chunk_def intro: mgr_ok_same)
qed (simp_all add: Open_ok Resize_ok Close_ok KillAll_ok read_end_ok)

section \<open>What sessions promise\<close>

text \<open>
  A session reports how it ended exactly once.  In every reachable state of the manager, whatever
  was opened, closed, killed and whatever processes ended, the results are one for each session whose
  process was reaped and none for another; a result carries the session's id, `interrupted` only after
  the stream ended, `closed` only after a user's close, `succeeded` only with exit code 0, and `failed`
  only with another.
  And every session that is not closed is in the table under its id, so a close or the end of the
  stream reaches it.
\<close>
theorem session_reports_once:
  assumes "mgr_reach m"
  shows "distinct (map sx_obj (mg_results m)) \<and>
    set (map sx_obj (mg_results m)) = {k. k < length (mg_objs m) \<and> px_reaped (mg_objs m ! k)} \<and>
    (\<forall>x \<in> set (mg_results m). result_fits m x) \<and>
    (\<forall>k < length (mg_objs m). \<not> px_closed (mg_objs m ! k) \<longrightarrow> mg_table m (px_ID (mg_objs m ! k)) = Some k)"
  using mgr_reach_ok [OF assms] by (auto simp: mgr_ok_def results_ok_def table_ok_def)

text \<open>Two sessions are opened, one ends by itself, and the stream ends.\<close>

definition two_sessions :: session_mgr where
  "two_sessions =
     (let r = \<lparr>pr_Mode = ModeNone, pr_policy = None\<rparr>;
          opened = (\<lambda>sid m. snd (Open_session r (\<lambda>_. []) (\<lambda>_ _. None) sid ''bash'' [] Map.empty 80 24 m))
      in read_end 1 (WaitExit 137) (KillAll (read_end 0 (WaitExit 2) (opened ''s2'' (opened ''s1'' New_sessions)))))"

lemma two_sessions_reach: "mgr_reach two_sessions"
  unfolding two_sessions_def Let_def
  by (intro mgr_reach.intros)
    (simp_all add: running_def Open_session_def New_sessions_def read_end_def upd_obj_def end_state_def KillAll_def
      kill_def Let_def)

theorem session_reports_once_witness:
  "distinct (map sx_obj (mg_results two_sessions)) \<and> mgr_reach two_sessions"
  using session_reports_once [OF two_sessions_reach] two_sessions_reach by blast

text \<open>
  A terminal does not outlive its stream.  When the stream ends, `KillAll` leaves no session open
  and the table empty, and each session that was open reports `interrupted` with exit code -1 when its
  process is reaped, however it exits.
\<close>
theorem stream_end_kills_all:
  assumes "mgr_reach m" "running k m" "\<not> px_closed (mg_objs m ! k)"
  shows "mg_table (KillAll m) = Map.empty \<and> (\<forall>s \<in> set (mg_objs (KillAll m)). px_closed s) \<and>
    mg_results (read_end k w (KillAll m)) = mg_results m @
      [\<lparr>sx_obj = k, sx_ID = px_ID (mg_objs m ! k), sx_exit = -1, sx_state = ''interrupted''\<rparr>]"
proof -
  have ok: "mgr_ok m" by (rule mgr_reach_ok [OF assms(1)])
  then have tb: "mg_table m (px_ID (mg_objs m ! k)) = Some k"
    using assms(2,3) by (simp add: mgr_ok_def table_ok_def running_def)
  have obj: "mg_objs (KillAll m) ! k = kill (mg_objs m ! k)"
    using assms(2) tb by (simp add: KillAll_nth running_def)
  have "running k (KillAll m)" using assms(2) by (simp add: running_def obj kill_def Let_def)
  from read_end_run(1) [OF KillAll_ok(1) [OF ok] this, of w] obj KillAll_ok(2) [OF ok] show ?thesis
    by (simp add: end_state_def kill_def Let_def) (simp add: KillAll_def)
qed

text \<open>
  A session whose process ended by itself stays in the table until a close or the end of the stream: its
  id is refused, after a second process has been started for it that no session reaps.
\<close>
lemma finished_session_stays:
  assumes "mgr_reach m" "mg_table m sid = Some k" "running k m"
    and "started (Wrap r name args) (cleanEnv getenv env cols rows) = None"
    and m1: "m1 = read_end k w m"
  shows "mg_table m1 sid = Some k"
    and "fst (Open_session r getenv started sid name args env cols rows m1) = Some (AlreadyOpen sid)"
    and "length (mg_procs (snd (Open_session r getenv started sid name args env cols rows m1))) = Suc (length (mg_procs m1))"
    and "mg_objs (snd (Open_session r getenv started sid name args env cols rows m1)) = mg_objs m1"
proof -
  show tb: "mg_table m1 sid = Some k"
    unfolding m1 using read_end_run(3) [OF mgr_reach_ok [OF assms(1)] assms(3)] assms(2) by simp
  show "fst (Open_session r getenv started sid name args env cols rows m1) = Some (AlreadyOpen sid)"
    and "length (mg_procs (snd (Open_session r getenv started sid name args env cols rows m1))) = Suc (length (mg_procs m1))"
    and "mg_objs (snd (Open_session r getenv started sid name args env cols rows m1)) = mg_objs m1"
    using tb assms(4) by (simp_all add: Open_session_def Let_def)
qed

text \<open>A session opened, and killed with the stream.\<close>

theorem stream_end_kills_all_witness:
  "sx_state (last (mg_results (read_end 0 WaitOK (KillAll (snd (Open_session \<lparr>pr_Mode = ModeNone, pr_policy = None\<rparr>
     (\<lambda>_. []) (\<lambda>_ _. None) ''s1'' ''bash'' [] Map.empty 80 24 New_sessions)))))) = ''interrupted''"
  using stream_end_kills_all [OF mgr_reach.opens [OF mgr_reach.start], of 0 "\<lparr>pr_Mode = ModeNone, pr_policy = None\<rparr>"
      "\<lambda>_. []" "\<lambda>_ _. None" "''s1''" "''bash''" "[]" Map.empty 80 24 WaitOK]
  by (simp add: running_def Open_session_def New_sessions_def Let_def)

end
