(* ===== verification/AgentLoop.thy ===== *)
theory AgentLoop
  imports Sessions Jobs SecretCache Spool SelfUpdate AgentPkg Server
begin

text \<open>
  The agent process, \<open>src/internal/agent/agent.go\<close>, over the components it owns: the dispatch of an
  envelope that came down (\<open>handleDown\<close>), the work it starts, the delivery of output with its fallback to
  the spool, the elevation push, and the rotation of the TLS leaf (\<open>src/internal/agent/stream/stream.go\<close>
  with \<open>VerifyAgentLeaf\<close> of \<open>src/internal/certutil/certutil.go\<close>).

  \<open>handleDown\<close> starts goroutines: a command is an entry of \<open>ag_cmds\<close>, other work one of \<open>ag_work\<close>, and
  each runs as an operation of its own later.  Sends on the stream succeed or fail as \<open>ae_net\<close> says for
  the number of the send; a message that was sent is in \<open>ag_up\<close>.  Heartbeats, facts and log lines are left out.
\<close>

section \<open>Messages\<close>

text \<open>The whole file operation; the guardrail reads the part that theory \<open>Proto\<close> has.\<close>

record file_op = pbFileOp +
  fo_Offset :: "64 word"
  fo_TotalSize :: int
  fo_TempPath :: string
  fo_Data :: string
  fo_Mode :: string
  fo_ExpectedSha256 :: string
  fo_User :: string
  fo_Group :: string

definition checked_part :: "file_op \<Rightarrow> pbFileOp" where
  "checked_part p = pbFileOp.truncate p"

record session_open =
  so_SessionId :: string
  so_Cmd :: string
  so_Args :: "string list"
  so_Env :: "string \<rightharpoonup> string"
  so_Cols :: int
  so_Rows :: int
  so_Decision :: "pbDecision option"

datatype down =
    DCommand pbCommand
  | DCancel string
  | DFileOp file_op
  | DPkgOp pbPkgOp
  | DTaskRun pbTaskRun
  | DJobAssign pbJobAssignment
  | DJobUnassign string
  | DSessionOpen session_open
  | DSessionInput string string
  | DSessionResize string int int
  | DSessionClose string
  | DPolicyBundle pbPolicyBundle
  | DRevoke
  | DSecret pbSecretMaterialize
  | DTlsCert string string \<comment> \<open>the leaf and its serial\<close>
  | DUpdate directive
  | DElevationPush ElevationPush
  | DOther

datatype op_error = NoOpError | OpDenied string | OpFailed fs_error | OpUnsupported

record file_result =
  fr_OpId :: string
  fr_Kind :: FileOpKind
  fr_Code :: int
  fr_Error :: op_error
  fr_Stat :: "stat_info option"
  fr_Entries :: "list_entry list"
  fr_Truncated :: bool
  fr_Data :: string
  fr_Done :: bool
  fr_TempPath :: string
  fr_Received :: int
  fr_NewSha256 :: string

datatype push_detail =
    BadPushSignature | NoServerKey | BadServerKey | PushNotVerified | PushNotParsed load_error
  | PushShaMismatch string | ApplyFailed string | PushApplied string

datatype leaf_error =
    LeafUnparsable | CAUnparsable | LeafNotVerified | NoIdentity | LeafNotBound
  | NoAgentKey | LeafNotECDSA | LeafKeyMismatch

datatype ack_detail = AckText string | AckLeaf leaf_error | AckNoCA

datatype up_msg =
    UpAck string bool ack_detail \<comment> \<open>the envelope, whether the status is OK, and the detail\<close>
  | UpOutput string nat string string
  | UpResult string int string bool elev_note
  | UpFileResult file_result
  | UpPkgResult string PkgOpKind pkg_result
  | UpTaskResult string string run_error "step_result list"
  | UpJobResult job_report
  | UpSessionData string string
  | UpSessionResult string int string "session_error option"
  | UpUpdateResult string update_outcome
  | UpPushResult string bool push_detail

section \<open>State\<close>

text \<open>A command in progress: its output numbers and whether its context was cancelled.\<close>

record cmd_run =
  cr_cmd :: pbCommand
  cr_seq :: nat
  cr_cancelled :: bool
  cr_over :: bool

datatype work = WFile file_op | WPkg pbPkgOp | WTask pbTaskRun | WUpdate directive | WPush ElevationPush | WResume

record tls_client =
  tc_cert :: "(string \<times> string) option" \<comment> \<open>the leaf, and the public half of the key in memory\<close>
  tc_keyPEM :: string
  tc_caPEM :: "string option"
  tc_file :: "string option" \<comment> \<open>\<open>agent.crt\<close> in the TLS directory\<close>

record 'w agent =
  ag_guard :: Guard
  ag_policy :: policy_files
  ag_cmds :: "cmd_run list"
  ag_active :: "string \<rightharpoonup> nat"
  ag_work :: "work list"
  ag_jobs :: scheduler
  ag_secrets :: "secret_cache option"
  ag_sessions :: session_mgr
  ag_updating :: bool
  ag_disk :: disk
  ag_elevate :: elev_mode
  ag_elevation :: "elev_policy option"
  ag_elevErr :: "load_error option"
  ag_runner :: policy_runner
  ag_factset :: "string \<rightharpoonup> string"
  ag_fileRoot :: string
  ag_resume :: "marker_files option"
  ag_tls :: tls_client
  ag_world :: 'w
  ag_spool :: "up_msg spool option"
  ag_spooled :: "string set"
  ag_sends :: nat
  ag_up :: "up_msg list"

record leaf_cert =
  lc_DNSNames :: "string list"
  lc_CommonName :: string
  lc_ecdsa :: "string option" \<comment> \<open>the public key, if it is an ECDSA key\<close>

record 'w agent_env =
  ae_host :: "'w host"
  ae_rx :: regex
  ae_verify :: "string \<Rightarrow> string \<Rightarrow> string \<Rightarrow> bool"
  ae_b64enc :: "string \<Rightarrow> string"
  ae_b64dec :: "string \<Rightarrow> string option"
  ae_marshal :: "Rule list \<Rightarrow> string"
  ae_unmarshal :: "Rule list \<Rightarrow> string \<Rightarrow> Rule list \<times> bool"
  ae_cron :: cron_lib
  ae_crypto :: crypto
  ae_getenv :: "string \<Rightarrow> string"
  ae_pty :: "string \<times> string list \<Rightarrow> (string \<rightharpoonup> string) \<Rightarrow> string option"
  ae_net :: "nat \<Rightarrow> bool"
  ae_codec :: "up_msg codec"
  ae_sha :: "string \<Rightarrow> string"
  ae_names :: "filesys \<Rightarrow> string list \<Rightarrow> string list" \<comment> \<open>the names in a directory\<close>
  ae_fsCfg :: fs_config
  ae_patterns :: pkg_patterns
  ae_update :: update_lib
  ae_faults :: faults
  ae_updcfg :: update_cfg
  ae_rules_json :: "string \<Rightarrow> elev_rule list option"
  ae_policyHash :: "elev_policy \<Rightarrow> string"
  ae_policyPath :: string
  ae_bundle_json :: "(string \<times> string) list \<Rightarrow> string"
  ae_exe :: "string option"
  ae_pipe :: "string \<times> string list \<Rightarrow> string \<Rightarrow> 'w \<Rightarrow> (string option \<times> string) \<times> 'w" \<comment> \<open>with a standard input\<close>
  ae_uuid :: string
  ae_parseCert :: "string \<Rightarrow> leaf_cert option"
  ae_chains :: "string \<Rightarrow> string \<Rightarrow> bool" \<comment> \<open>the leaf verifies against the CA, for client use\<close>
  ae_keyPub :: "string \<Rightarrow> string option" \<comment> \<open>the public half of a PKCS8 signer\<close>
  ae_CA :: "string option" \<comment> \<open>the CA file, when it can be read\<close>
  ae_tlsDir :: bool

section \<open>Sending\<close>

definition send_up :: "'w agent_env \<Rightarrow> up_msg \<Rightarrow> 'w agent \<Rightarrow> bool \<times> 'w agent" where
  "send_up E u a =
     (if ae_net E (ag_sends a) then (True, a\<lparr>ag_sends := Suc (ag_sends a), ag_up := ag_up a @ [u]\<rparr>)
      else (False, a\<lparr>ag_sends := Suc (ag_sends a)\<rparr>))"

text \<open>\<open>sendUpEnvelopeNoSpool\<close> and its kin: a failed send is only logged.\<close>

definition send_only :: "'w agent_env \<Rightarrow> up_msg \<Rightarrow> 'w agent \<Rightarrow> 'w agent" where
  "send_only E u a = snd (send_up E u a)"

definition file_result0 :: "file_op \<Rightarrow> file_result" where
  "file_result0 p = \<lparr>fr_OpId = f_OpId p, fr_Kind = f_Kind p, fr_Code = 0, fr_Error = NoOpError, fr_Stat = None,
     fr_Entries = [], fr_Truncated = False, fr_Data = [], fr_Done = False, fr_TempPath = [], fr_Received = 0,
     fr_NewSha256 = []\<rparr>"

section \<open>The policy on disk\<close>

text \<open>\<open>savePolicy\<close>; the directory and the two writes succeed.\<close>

definition received_meta :: "int \<Rightarrow> pbPolicyBundle \<Rightarrow> string" where
  "received_meta t b = meta_text (b_Version b) (b_ContentHash b) @ ''received_unix='' @ show_int (unix t) @ [CHR 0x0A]"

definition savePolicy :: "int \<Rightarrow> pbPolicyBundle \<Rightarrow> policy_files \<Rightarrow> policy_files" where
  "savePolicy t b fs = fs\<lparr>policy_json := Some (b_RulesJson b), policy_meta := Some (received_meta t b)\<rparr>"

section \<open>Rotation of the TLS leaf\<close>

definition VerifyAgentLeaf :: "'w agent_env \<Rightarrow> string \<Rightarrow> string \<Rightarrow> string \<Rightarrow> leaf_error option" where
  "VerifyAgentLeaf E leafPEM caPEM identity =
     (case ae_parseCert E leafPEM of
        None \<Rightarrow> Some LeafUnparsable
      | Some leaf \<Rightarrow>
          if ae_parseCert E caPEM = None then Some CAUnparsable
          else if \<not> ae_chains E leafPEM caPEM then Some LeafNotVerified
          else if identity = [] then Some NoIdentity
          else if identity \<in> set (lc_DNSNames leaf) \<or> lc_CommonName leaf = identity then None
          else Some LeafNotBound)"

definition held_key :: "'w agent_env \<Rightarrow> tls_client \<Rightarrow> string option" where
  "held_key E c = (case tc_cert c of Some (leaf, key) \<Rightarrow> Some key | None \<Rightarrow> if tc_keyPEM c = [] then None else ae_keyPub E (tc_keyPEM c))"

definition RotateLeaf :: "'w agent_env \<Rightarrow> bool \<Rightarrow> string \<Rightarrow> string \<Rightarrow> tls_client \<Rightarrow> leaf_error option \<times> tls_client" where
  "RotateLeaf E io leafPEM caPEM c =
     (case VerifyAgentLeaf E leafPEM caPEM (ae_uuid E) of
        Some err \<Rightarrow> (Some err, c)
      | None \<Rightarrow>
          (case held_key E c of
             None \<Rightarrow> (Some NoAgentKey, c)
           | Some key \<Rightarrow>
               (case Option.bind (ae_parseCert E leafPEM) lc_ecdsa of
                  None \<Rightarrow> (Some LeafNotECDSA, c)
                | Some pub \<Rightarrow>
                    if pub \<noteq> key then (Some LeafKeyMismatch, c)
                    else (None, c\<lparr>tc_cert := Some (leafPEM, key),
                                  tc_file := (if ae_tlsDir E \<and> io then Some leafPEM else tc_file c)\<rparr>))))"

section \<open>An envelope comes down\<close>

definition jaToAssignment :: "pbJobAssignment \<Rightarrow> assignment" where
  "jaToAssignment ja = \<lparr>as_JobID = jm_JobId ja, as_Name = jm_Name ja, as_Cron = jm_Cron ja, as_Timezone = jm_Timezone ja,
     as_TaskID = jm_TaskId ja, as_TaskVersion = jm_TaskVersion ja, as_Steps = jm_Steps ja, as_MaxRunS = jm_MaxRunS ja,
     as_OverlapPolicy = jm_OverlapPolicy ja, as_FailurePolicy = jm_FailurePolicy ja,
     as_RetryBackoffS = jm_RetryBackoffS ja, as_SelectorSnapshot = jm_SelectorSnapshot ja, as_Version = jm_Version ja,
     as_Decision = jm_Decision ja\<rparr>"

definition start_command :: "pbCommand \<Rightarrow> 'w agent \<Rightarrow> 'w agent" where
  "start_command cmd a =
     a\<lparr>ag_cmds := ag_cmds a @ [\<lparr>cr_cmd = cmd, cr_seq = 0, cr_cancelled = False, cr_over = False\<rparr>],
       ag_active := (ag_active a)(c_RunId cmd \<mapsto> length (ag_cmds a))\<rparr>"

definition cancel_run :: "string \<Rightarrow> 'w agent \<Rightarrow> 'w agent" where
  "cancel_run i a =
     (case ag_active a i of
        None \<Rightarrow> a
      | Some k \<Rightarrow> a\<lparr>ag_active := (ag_active a)(i := None), ag_cmds := (ag_cmds a)[k := (ag_cmds a ! k)\<lparr>cr_cancelled := True\<rparr>]\<rparr>)"

definition start_work :: "work \<Rightarrow> 'w agent \<Rightarrow> 'w agent" where
  "start_work w a = a\<lparr>ag_work := ag_work a @ [w]\<rparr>"

definition session_command :: "session_open \<Rightarrow> pbCommand" where
  "session_command so = \<lparr>c_RunId = so_SessionId so, c_ExecutionId = [], c_Cmd = so_Cmd so, c_Args = so_Args so, c_Cwd = [],
     c_User = [], c_TimeoutS = 0, c_Env = Map.empty, c_Retryable = False, c_Decision = so_Decision so\<rparr>"

definition open_down :: "'w agent_env \<Rightarrow> session_open \<Rightarrow> 'w agent \<Rightarrow> 'w agent" where
  "open_down E so a =
     (case Recheck (ae_rx E) (ae_verify E) (ag_guard a) (session_command so) of
        (False, reason) \<Rightarrow> send_only E (UpSessionResult (so_SessionId so) (-1) ''denied'' None) a
      | (True, reason) \<Rightarrow>
          (case Open_session (ag_runner a) (ae_getenv E) (ae_pty E) (so_SessionId so) (so_Cmd so) (so_Args so) (so_Env so)
                  (so_Cols so) (so_Rows so) (ag_sessions a) of
             (None, m) \<Rightarrow> a\<lparr>ag_sessions := m\<rparr>
           | (Some err, m) \<Rightarrow> send_only E (UpSessionResult (so_SessionId so) (-1) ''failed'' (Some err)) (a\<lparr>ag_sessions := m\<rparr>)))"

definition bundle_down :: "'w agent_env \<Rightarrow> int \<Rightarrow> pbPolicyBundle \<Rightarrow> 'w agent \<Rightarrow> 'w agent" where
  "bundle_down E t b a =
     (case OnBundle (ae_marshal E) (ae_unmarshal E) (ae_b64dec E) b (ag_guard a) (ag_policy a) of
        (g, fs) \<Rightarrow>
          let a1 = a\<lparr>ag_guard := g, ag_policy := savePolicy t b fs\<rparr>
          in if ag_resume a1 = None then a1 else start_work WResume a1)"

definition cert_down :: "'w agent_env \<Rightarrow> bool \<Rightarrow> string \<Rightarrow> string \<Rightarrow> string \<Rightarrow> 'w agent \<Rightarrow> 'w agent" where
  "cert_down E io i leaf serial a =
     (case ae_CA E of
        None \<Rightarrow> send_only E (UpAck i False AckNoCA) a
      | Some ca \<Rightarrow>
          (case RotateLeaf E io leaf ca (ag_tls a) of
             (Some err, c) \<Rightarrow> send_only E (UpAck i False (AckLeaf err)) (a\<lparr>ag_tls := c\<rparr>)
           | (None, c) \<Rightarrow> send_only E (UpAck i True (AckText serial)) (a\<lparr>ag_tls := c\<rparr>)))"

text \<open>
  \<open>handleDown\<close> of the envelope with id \<open>i\<close> at time \<open>t\<close>; \<open>True\<close> is \<open>ErrRevoked\<close>, which ends the agent.
  \<open>io\<close> says whether the write of a small file of this step succeeds, \<open>pio\<close> is the error of a write to a
  terminal.
\<close>

definition handleDown ::
  "'w agent_env \<Rightarrow> int \<Rightarrow> bool \<Rightarrow> string option \<Rightarrow> string \<Rightarrow> down \<Rightarrow> 'w agent \<Rightarrow> bool \<times> 'w agent" where
  "handleDown E t io pio i d a =
     (case d of
        DCommand cmd \<Rightarrow>
          (case Recheck (ae_rx E) (ae_verify E) (ag_guard a) cmd of
             (False, reason) \<Rightarrow> (False, send_only E (UpAck i False (AckText reason)) a)
           | (True, reason) \<Rightarrow> (False, start_command cmd (send_only E (UpAck i True (AckText [])) a)))
      | DCancel r \<Rightarrow> (False, cancel_run r a)
      | DFileOp p \<Rightarrow>
          (case (if f_Decision p = None then (True, []) else RecheckFile (ae_rx E) (ae_verify E) (ag_guard a) (checked_part p)) of
             (False, reason) \<Rightarrow>
               (False, send_only E (UpFileResult ((file_result0 p)\<lparr>fr_Code := 403, fr_Error := OpDenied reason\<rparr>)) a)
           | (True, reason) \<Rightarrow> (False, start_work (WFile p) a))
      | DPkgOp p \<Rightarrow>
          (case (if p_Decision p = None then (True, []) else RecheckPkg (ae_rx E) (ae_verify E) (ag_guard a) p) of
             (False, reason) \<Rightarrow>
               (False, send_only E (UpPkgResult (p_OpId p) (p_Kind p) (pkg_result0\<lparr>pr_Code := 403, pr_Error := reason\<rparr>)) a)
           | (True, reason) \<Rightarrow> (False, start_work (WPkg p) a))
      | DTaskRun tr \<Rightarrow>
          (case RecheckTask (ae_rx E) (ae_verify E) (ag_guard a) tr of
             (False, reason) \<Rightarrow> (False, send_only E (UpTaskResult (tr_RunId tr) ''failed'' (Reason reason) []) a)
           | (True, reason) \<Rightarrow> (False, start_work (WTask tr) a))
      | DJobAssign ja \<Rightarrow>
          (False, a\<lparr>ag_jobs := snd (Apply_assignment (ae_cron E) (if io then None else Some ''write'') (jaToAssignment ja) (ag_jobs a))\<rparr>)
      | DJobUnassign j \<Rightarrow> (False, a\<lparr>ag_jobs := Remove_assignment (if io then None else Some ''write'') j (ag_jobs a)\<rparr>)
      | DSessionOpen so \<Rightarrow> (False, open_down E so a)
      | DSessionInput sid data \<Rightarrow> (False, a\<lparr>ag_sessions := snd (Input_session pio sid data (ag_sessions a))\<rparr>)
      | DSessionResize sid cols rows \<Rightarrow> (False, a\<lparr>ag_sessions := snd (Resize_session pio sid cols rows (ag_sessions a))\<rparr>)
      | DSessionClose sid \<Rightarrow> (False, a\<lparr>ag_sessions := snd (Close_session sid (ag_sessions a))\<rparr>)
      | DPolicyBundle b \<Rightarrow> (False, bundle_down E t b a)
      | DRevoke \<Rightarrow> (True, a)
      | DSecret sm \<Rightarrow>
          (False, case ag_secrets a of
                    None \<Rightarrow> a
                  | Some c \<Rightarrow> a\<lparr>ag_secrets := Some (snd (Handle_secret (ae_crypto E) t io sm c))\<rparr>)
      | DTlsCert leaf serial \<Rightarrow> (False, cert_down E io i leaf serial a)
      | DUpdate dir \<Rightarrow>
          (let a1 = send_only E (UpAck i True (AckText [])) a
           in (False, if ag_updating a1 then a1 else start_work (WUpdate dir) (a1\<lparr>ag_updating := True\<rparr>)))
      | DElevationPush push \<Rightarrow> (False, start_work (WPush push) (send_only E (UpAck i True (AckText (ep_PushId push))) a))
      | DOther \<Rightarrow> (False, a))"

section \<open>File operations\<close>

definition fileOpError :: "file_op \<Rightarrow> fs_error \<Rightarrow> file_result" where
  "fileOpError p e = (file_result0 p)\<lparr>
     fr_Code := (case e of Conflict \<Rightarrow> 409 | CapExceeded \<Rightarrow> 413 | BadPath b \<Rightarrow> 403 | RootUnavailable \<Rightarrow> 503 | Other s \<Rightarrow> 500),
     fr_Error := OpFailed e\<rparr>"

definition op_answer :: "file_op \<Rightarrow> (fs_error + 'a) \<Rightarrow> ('a \<Rightarrow> file_result) \<Rightarrow> file_result" where
  "op_answer p res f = (case res of Inl e \<Rightarrow> fileOpError p e | Inr x \<Rightarrow> f x)"

text \<open>\<open>execFileOp\<close> on the file system of the host; \<open>rnd\<close> is the random name of a temporary file.\<close>

definition execFileOp :: "'w agent_env \<Rightarrow> string \<Rightarrow> string \<Rightarrow> file_op \<Rightarrow> filesys \<Rightarrow> file_result \<times> filesys" where
  "execFileOp E rnd root p fs =
     (if root = [] then ((file_result0 p)\<lparr>fr_Code := 503, fr_Error := OpFailed RootUnavailable\<rparr>, fs)
      else let cfg = fill (ae_fsCfg E); ok = file_result0 p in
      (case f_Kind p of
         FILE_OP_STAT \<Rightarrow> (op_answer p (StatPath (ae_sha E) fs root (f_Path p)) (\<lambda>st. ok\<lparr>fr_Stat := Some st\<rparr>), fs)
       | FILE_OP_LIST \<Rightarrow>
           (op_answer p (List_dir (ae_names E fs) fs root (f_Path p) cfg)
              (\<lambda>(es, cut). ok\<lparr>fr_Entries := es, fr_Truncated := cut\<rparr>), fs)
       | FILE_OP_DOWNLOAD \<Rightarrow>
           (op_answer p (DownloadAt fs root (f_Path p) (sint (fo_Offset p)) cfg)
              (\<lambda>(b, n, fin). ok\<lparr>fr_Data := b, fr_Done := fin\<rparr>), fs)
       | FILE_OP_UPLOAD_BEGIN \<Rightarrow>
           (case UploadBegin rnd fs root (f_Path p) (fo_TotalSize p) cfg of
              (res, fs1) \<Rightarrow> (op_answer p res (\<lambda>tmp. ok\<lparr>fr_TempPath := tmp\<rparr>), fs1))
       | FILE_OP_UPLOAD_CHUNK \<Rightarrow>
           (case UploadChunk fs (fo_TempPath p) (sint (fo_Offset p)) (fo_Data p) cfg of
              (res, fs1) \<Rightarrow> (op_answer p res (\<lambda>n. ok\<lparr>fr_Received := n\<rparr>), fs1))
       | FILE_OP_UPLOAD_COMMIT \<Rightarrow>
           (case UploadCommit (ae_sha E) fs root (fo_TempPath p) (f_Path p) (fo_Mode p) (fo_TotalSize p) of
              (res, fs1) \<Rightarrow> (op_answer p res (\<lambda>h. ok\<lparr>fr_NewSha256 := h\<rparr>), fs1))
       | FILE_OP_UPLOAD_ABORT \<Rightarrow>
           (case UploadAbort fs (fo_TempPath p) of (res, fs1) \<Rightarrow> (op_answer p res (\<lambda>_. ok), fs1))
       | FILE_OP_EDIT_CAS \<Rightarrow>
           (case EditCAS (ae_sha E) rnd fs root (f_Path p) (fo_ExpectedSha256 p) (fo_Data p) cfg of
              (res, fs1) \<Rightarrow> (op_answer p res (\<lambda>h. ok\<lparr>fr_NewSha256 := h\<rparr>), fs1))
       | FILE_OP_SET_PERM \<Rightarrow>
           (case SetPerm fs root (f_Path p) (fo_Mode p) (fo_User p) (fo_Group p) of
              (res, fs1) \<Rightarrow> (op_answer p res (\<lambda>_. ok), fs1))
       | _ \<Rightarrow> (ok\<lparr>fr_Code := 400, fr_Error := OpUnsupported\<rparr>, fs)))"

definition do_file :: "'w agent_env \<Rightarrow> string \<Rightarrow> file_op \<Rightarrow> 'w agent \<Rightarrow> 'w agent" where
  "do_file E rnd p a =
     (case execFileOp E rnd (ag_fileRoot a) p (h_fs (ae_host E) (ag_world a)) of
        (res, fs1) \<Rightarrow> send_only E (UpFileResult res) (a\<lparr>ag_world := h_set (ae_host E) fs1 (ag_world a)\<rparr>))"

section \<open>Packages, tasks, updates, continuations\<close>

definition do_pkg :: "'w agent_env \<Rightarrow> pbPkgOp \<Rightarrow> 'w agent \<Rightarrow> 'w agent" where
  "do_pkg E p a =
     (case execPkgOp (ae_host E) (ae_patterns E) (ag_runner a) (ag_factset a) p (ag_world a) of
        (res, w1) \<Rightarrow> send_only E (UpPkgResult (p_OpId p) (p_Kind p) res) (a\<lparr>ag_world := w1\<rparr>))"

text \<open>
  The executor the agent builds.  The secrets are looked up in the cache at time \<open>t\<close>; that a look-up also
  moves a sealed value into memory is left out, as it does not change what a later one finds.
\<close>

definition task_exec :: "'w agent_env \<Rightarrow> int \<Rightarrow> 'w agent \<Rightarrow> executor" where
  "task_exec E t a = \<lparr>x_facts = ag_factset a, x_fileRoot = ag_fileRoot a, x_runner = ag_runner a,
     x_secrets = map_option (\<lambda>c ref. fst (Get_secret (ae_crypto E) t True ref c)) (ag_secrets a), x_flush = True\<rparr>"

definition task_hooks :: "'w agent_env \<Rightarrow> ('w, marker_files option) runner" where
  "task_hooks E = \<lparr>rn_JobID = [], rn_JobTrigger = [], rn_MaxRunS = 0, rn_hook = Some (rebootHook (ae_host E)),
     rn_abort = Some rebootAbort\<rparr>"

definition execTaskRun :: "'w agent_env \<Rightarrow> int \<Rightarrow> pbTaskRun \<Rightarrow> 'w agent \<Rightarrow> 'w agent" where
  "execTaskRun E t tr a =
     (case Runner_Run (ae_host E) (task_exec E t a) (task_hooks E) tr (ag_resume a) (ag_world a) of
        (res, store, w1) \<Rightarrow>
          send_only E (UpTaskResult (tr_RunId tr) (tres_State res) (tres_Error res) (tres_Steps res))
            (a\<lparr>ag_world := w1, ag_resume := store\<rparr>))"

definition report_up :: "report \<Rightarrow> up_msg" where
  "report_up r = (case r of JobRunReport j \<Rightarrow> UpJobResult j | TaskRunReport i st err steps \<Rightarrow> UpTaskResult i st err steps)"

definition do_resume :: "'w agent_env \<Rightarrow> int \<Rightarrow> 'w agent \<Rightarrow> 'w agent" where
  "do_resume E t a =
     (case ResumePending (ae_host E) (task_exec E t a) (ae_rx E) (ae_verify E) (ag_guard a) (ag_resume a, ag_world a, []) of
        (store, w1, reps) \<Rightarrow> fold (\<lambda>r. send_only E (report_up r)) reps (a\<lparr>ag_world := w1, ag_resume := store\<rparr>))"

definition do_update :: "'w agent_env \<Rightarrow> directive \<Rightarrow> 'w agent \<Rightarrow> 'w agent" where
  "do_update E dir a =
     (case execUpdate (ae_update E) (ae_faults E) (ae_updcfg E) dir (ag_disk a) of
        (res, fs1) \<Rightarrow> send_only E (UpUpdateResult (di_ReleaseId dir) res) (a\<lparr>ag_updating := (res = UpdSwapped), ag_disk := fs1\<rparr>))"

section \<open>The elevation policy at run time\<close>

definition elev_stat :: "'w agent_env \<Rightarrow> filesys \<Rightarrow> string \<Rightarrow> stat_result" where
  "elev_stat E fs p =
     (case locate fs True p of
        Inl e \<Rightarrow> if e = ENOENT then NotThere else StatFails
      | Inr q \<Rightarrow>
          (case node_at fs q of
             None \<Rightarrow> NotThere
           | Some (Folder m) \<Rightarrow> Directory (Some (map (\<lambda>n. (n, case fs (q @ [n]) of None \<Rightarrow> False | Some x \<Rightarrow> is_dir x)) (ae_names E fs q)))
           | Some n \<Rightarrow> PlainFile))"

text \<open>\<open>refreshElevation\<close>: \<open>Load\<close> gives no policy along with an error.\<close>

definition refreshElevation :: "'w agent_env \<Rightarrow> 'w agent \<Rightarrow> 'w agent" where
  "refreshElevation E a =
     (let fs = h_fs (ae_host E) (ag_world a);
          (policy, err) = (case Load_elevation (ae_rules_json E) (elev_stat E fs) (read_file fs) (ae_policyPath E) of
                             Inl e \<Rightarrow> (None, Some e) | Inr p \<Rightarrow> (p, None))
      in a\<lparr>ag_elevErr := err, ag_elevation := policy, ag_runner := (ag_runner a)\<lparr>pr_policy := policy\<rparr>\<rparr>)"

definition push_bundle :: "ElevationPush \<Rightarrow> (string \<times> string) list" where
  "push_bundle push = [(''push_id'', ep_PushId push), (''policy_name'', ep_PolicyName push), (''rules_json'', ep_RulesJson push),
     (''policy_sha256'', ep_PolicySha push), (''signature'', ep_Signature push)]"

definition default_bin :: string where "default_bin = ''/usr/local/bin/partout''"

definition apply_bin :: "'w agent_env \<Rightarrow> 'w \<Rightarrow> string" where
  "apply_bin E w =
     (if file_exists (h_fs (ae_host E) w) default_bin then default_bin
      else case ae_exe E of None \<Rightarrow> default_bin | Some exe \<Rightarrow> exe)"

text \<open>The checks of \<open>applyElevationPush\<close> before anything is run.\<close>

definition push_checks :: "'w agent_env \<Rightarrow> Guard \<Rightarrow> ElevationPush \<Rightarrow> push_detail option" where
  "push_checks E g push =
     (case ae_b64dec E (ep_Signature push) of
        None \<Rightarrow> Some BadPushSignature
      | Some sig \<Rightarrow>
          if serverPub g = [] then Some NoServerKey
          else (case ae_b64dec E (ae_b64enc E (serverPub g)) of
                  None \<Rightarrow> Some BadServerKey
                | Some pub \<Rightarrow>
                    if \<not> VerifyElevationPush (ae_verify E) pub (ep_PushId push) (ep_PolicyName push) (ep_PolicySha push) sig
                    then Some PushNotVerified
                    else (case LoadPolicyJSON (ae_rules_json E) (CHR 0x7B # [CHR 0x22] @ ''rules'' @ [CHR 0x22] @ '':'' @ ep_RulesJson push @ [CHR 0x7D]) of
                            Inl err \<Rightarrow> Some (PushNotParsed err)
                          | Inr policy \<Rightarrow>
                              if ae_policyHash E policy \<noteq> ep_PolicySha push then Some (PushShaMismatch (ae_policyHash E policy))
                              else None)))"

definition applyElevationPush :: "'w agent_env \<Rightarrow> ElevationPush \<Rightarrow> 'w agent \<Rightarrow> 'w agent" where
  "applyElevationPush E push a =
     (case push_checks E (ag_guard a) push of
        Some why \<Rightarrow> send_only E (UpPushResult (ep_PushId push) False why) a
      | None \<Rightarrow>
          (case ae_pipe E (Wrap (ag_runner a) (apply_bin E (ag_world a)) [''ctl'', ''elevation'', ''apply'', ''-''])
                  (ae_bundle_json E (push_bundle push)) (ag_world a) of
             ((Some err, out), w1) \<Rightarrow>
               send_only E (UpPushResult (ep_PushId push) False (ApplyFailed (trim_space out))) (a\<lparr>ag_world := w1\<rparr>)
           | ((None, out), w1) \<Rightarrow>
               send_only E (UpPushResult (ep_PushId push) True (PushApplied (ep_PolicyName push)))
                 (refreshElevation E (a\<lparr>ag_world := w1\<rparr>))))"

section \<open>Commands\<close>

text \<open>
  \<open>deliver\<close>: once a record of a run went to the spool, the rest of the run does too.  \<open>None\<close> is an
  append that does not return.
\<close>

definition spool_record_of :: "'w agent_env \<Rightarrow> int \<Rightarrow> string \<Rightarrow> up_msg \<Rightarrow> 'w agent \<Rightarrow> 'w agent option" where
  "spool_record_of E t i u a =
     (case ag_spool a of
        None \<Rightarrow> Some a
      | Some sp \<Rightarrow> map_option (\<lambda>(ok, sp1). a\<lparr>ag_spool := Some sp1\<rparr>) (Append (ae_codec E) t i u sp))"

definition deliver :: "'w agent_env \<Rightarrow> int \<Rightarrow> string \<Rightarrow> up_msg \<Rightarrow> 'w agent \<Rightarrow> 'w agent option" where
  "deliver E t i u a =
     (if ag_spool a = None then Some (a\<lparr>ag_spooled := insert i (ag_spooled a)\<rparr>)
      else if i \<in> ag_spooled a then spool_record_of E t i u a
      else (case send_up E u a of
              (True, a1) \<Rightarrow> Some a1
            | (False, a1) \<Rightarrow> spool_record_of E t i u (a1\<lparr>ag_spooled := insert i (ag_spooled a1)\<rparr>)))"

text \<open>A chunk of output of the command at place \<open>k\<close>.\<close>

definition command_output :: "'w agent_env \<Rightarrow> int \<Rightarrow> nat \<Rightarrow> string \<Rightarrow> string \<Rightarrow> 'w agent \<Rightarrow> 'w agent option" where
  "command_output E t k strm data a =
     (let c = ag_cmds a ! k; a1 = a\<lparr>ag_cmds := (ag_cmds a)[k := c\<lparr>cr_seq := Suc (cr_seq c)\<rparr>]\<rparr>
      in deliver E t (c_RunId (cr_cmd c))
           (UpOutput (c_RunId (cr_cmd c)) (cr_seq c) (if strm = ''stderr'' then ''stderr'' else ''stdout'') data) a1)"

text \<open>How \<open>exec.Run\<close> ends: it could not start, its context was over, or the process was waited for.\<close>

datatype run_end = NotStarted | TimedOut | Waited wait_result

definition exec_result :: "bool \<Rightarrow> run_end \<Rightarrow> int \<times> string" where
  "exec_result cancelled r =
     (case r of
        NotStarted \<Rightarrow> (-1, ''failed'')
      | TimedOut \<Rightarrow> (-1, ''timed_out'')
      | Waited w \<Rightarrow>
          if cancelled then (-1, ''cancelled'')
          else (case w of WaitOK \<Rightarrow> (0, ''succeeded'') | WaitExit n \<Rightarrow> (n, ''failed'') | WaitError \<Rightarrow> (-1, ''failed'')))"

text \<open>The process \<open>execCommand\<close> starts, and what it reports of elevation.\<close>

definition command_argv :: "'w agent \<Rightarrow> pbCommand \<Rightarrow> (string \<times> string list) \<times> bool \<times> elev_note" where
  "command_argv a cmd = runElevated (ag_elevate a) (ag_elevation a) (ag_runner a) (c_Cmd cmd) (c_Args cmd)"

text \<open>\<open>drainSpool\<close>; \<open>ok n\<close> says whether the \<open>n\<close>-th send of the drain succeeds.\<close>

definition drainSpool :: "'w agent_env \<Rightarrow> int \<Rightarrow> 'w agent \<Rightarrow> 'w agent option" where
  "drainSpool E t a =
     (case ag_spool a of
        None \<Rightarrow> Some a
      | Some sp \<Rightarrow>
          if sp_order sp = [] then Some a
          else map_option (\<lambda>(d, sp1).
                 a\<lparr>ag_spool := Some sp1, ag_spooled := ag_spooled a - set (dn_drained d), ag_up := ag_up a @ dn_sent d,
                   ag_sends := ag_sends a + length (dn_sent d) + (if dn_error d = Some SendError then 1 else 0)\<rparr>)
               (Drain (ae_codec E) (\<lambda>n. ae_net E (ag_sends a + n)) t sp))"

definition command_end :: "'w agent_env \<Rightarrow> int \<Rightarrow> nat \<Rightarrow> run_end \<Rightarrow> bool \<times> elev_note \<Rightarrow> 'w agent \<Rightarrow> 'w agent option" where
  "command_end E t k r elev a =
     (let c = ag_cmds a ! k; i = c_RunId (cr_cmd c); (exit, st) = exec_result (cr_cancelled c) r;
          a1 = a\<lparr>ag_cmds := (ag_cmds a)[k := c\<lparr>cr_over := True\<rparr>], ag_active := (ag_active a)(i := None)\<rparr>
      in Option.bind (deliver E t i (UpResult i exit st (fst elev) (snd elev)) a1)
           (\<lambda>a2. if ag_spool a2 = None then Some a2 else drainSpool E t a2))"

section \<open>Reconnecting\<close>

text \<open>The backoffs of \<open>Run\<close>, in nanoseconds, and what the end of a stream does to the terminals.\<close>

definition backoffBase :: int where "backoffBase = 1000000000"
definition backoffCap :: int where "backoffCap = 60000000000"

definition next_backoff :: "int \<Rightarrow> int" where
  "next_backoff b = (let b2 = b * 2 in if b2 > backoffCap then backoffCap else b2)"

primrec backoff_after :: "nat \<Rightarrow> int" where
  "backoff_after 0 = backoffBase"
| "backoff_after (Suc n) = next_backoff (backoff_after n)"

definition stream_ends :: "'w agent \<Rightarrow> 'w agent" where
  "stream_ends a = a\<lparr>ag_sessions := KillAll (ag_sessions a)\<rparr>"

section \<open>Output arrives in order\<close>

primrec deliver_all :: "'w agent_env \<Rightarrow> string \<Rightarrow> (int \<times> up_msg) list \<Rightarrow> 'w agent \<Rightarrow> 'w agent option" where
  "deliver_all E i [] a = Some a"
| "deliver_all E i (x # xs) a = Option.bind (deliver E (fst x) i (snd x) a) (deliver_all E i xs)"

text \<open>
  Of a run's records \<open>us\<close> a first part went up live, then some may be lost, and the rest is in the spool.
\<close>

definition accounted :: "'w agent_env \<Rightarrow> string \<Rightarrow> up_msg list \<Rightarrow> up_msg list \<Rightarrow> 'w agent \<Rightarrow> bool" where
  "accounted E i up0 us a \<longleftrightarrow>
     (\<exists>live lost kept sp. us = live @ lost @ kept \<and> ag_up a = up0 @ live \<and> ag_spool a = Some sp \<and>
        contents (ae_codec E) sp i = kept \<and> (i \<notin> ag_spooled a \<longrightarrow> lost = [] \<and> kept = []))"

definition spool_ready :: "'w agent_env \<Rightarrow> 'w agent \<Rightarrow> bool" where
  "spool_ready E a \<longleftrightarrow> (\<exists>sp. ag_spool a = Some sp \<and> spool_inv (ae_codec E) sp \<and> \<not> sp_closed sp)"

lemma contents_absent: "spool_inv C s \<Longrightarrow> i \<notin> set (sp_order s) \<Longrightarrow> contents C s i = []"
  by (simp add: spool_inv_def contents_def snapshotLocked_def dom_def)

lemma spool_step:
  assumes "ag_spool a = Some sp" "spool_inv (ae_codec E) sp" "\<not> sp_closed sp" "env_ok (ae_codec E) u"
  shows "\<exists>sp1. spool_record_of E t i u a = Some (a\<lparr>ag_spool := Some sp1\<rparr>) \<and> spool_inv (ae_codec E) sp1 \<and> \<not> sp_closed sp1 \<and>
     (contents (ae_codec E) sp1 i = [] \<or> contents (ae_codec E) sp1 i = [u] \<or>
      contents (ae_codec E) sp1 i = contents (ae_codec E) sp i @ [u])"
proof -
  from Append_run [OF assms(2-4), of t i] obtain sp1 p q live where ap:
    "Append (ae_codec E) t i u sp = Some (True, sp1)" "spool_inv (ae_codec E) sp1"
    "\<forall>j \<in> set (sp_order sp1). contents (ae_codec E) sp1 j =
       (if j \<in> set live then contents (ae_codec E) sp j else []) @ (if j = i then [u] else [])" by blast
  have "\<not> sp_closed sp1" using Append_closed [OF ap(1)] assms(3) by simp
  moreover have "contents (ae_codec E) sp1 i = [] \<or> contents (ae_codec E) sp1 i = [u] \<or>
      contents (ae_codec E) sp1 i = contents (ae_codec E) sp i @ [u]"
    using ap(3) contents_absent [OF ap(2), of i] by (cases "i \<in> set (sp_order sp1)") auto
  ultimately show ?thesis using ap(1,2) assms(1) by (auto simp: spool_record_of_def)
qed

lemma deliver_step:
  assumes "spool_ready E a" "accounted E i up0 us a" "env_ok (ae_codec E) u"
  shows "\<exists>a1. deliver E t i u a = Some a1 \<and> spool_ready E a1 \<and> accounted E i up0 (us @ [u]) a1"
proof -
  obtain sp where sp: "ag_spool a = Some sp" "spool_inv (ae_codec E) sp" "\<not> sp_closed sp"
    using assms(1) by (auto simp: spool_ready_def)
  obtain live lost kept where l: "us = live @ lost @ kept" "ag_up a = up0 @ live"
    "contents (ae_codec E) sp i = kept" "i \<notin> ag_spooled a \<Longrightarrow> lost = [] \<and> kept = []"
    using assms(2) sp(1) by (auto simp: accounted_def)
  have spooled: "\<exists>a1. spool_record_of E t i u b = Some a1 \<and> spool_ready E a1 \<and> accounted E i up0 (us @ [u]) a1"
    if "ag_spool b = Some sp" "ag_up b = ag_up a" "i \<in> ag_spooled b" for b
  proof -
    from spool_step [OF that(1) sp(2,3) assms(3), of t i, unfolded l(3)] obtain sp1 where s1:
      "spool_record_of E t i u b = Some (b\<lparr>ag_spool := Some sp1\<rparr>)" "spool_inv (ae_codec E) sp1" "\<not> sp_closed sp1"
      "contents (ae_codec E) sp1 i = [] \<or> contents (ae_codec E) sp1 i = [u] \<or> contents (ae_codec E) sp1 i = kept @ [u]"
      by (elim exE conjE) (rule that)
    have "\<exists>lost' kept'. us @ [u] = live @ lost' @ kept' \<and> contents (ae_codec E) sp1 i = kept'"
      using s1(4) l(1) by (auto intro: exI [of _ "lost @ kept @ [u]"] exI [of _ "lost @ kept"] exI [of _ lost])
    then have "accounted E i up0 (us @ [u]) (b\<lparr>ag_spool := Some sp1\<rparr>)"
      using l(2) that(2,3) by (auto simp: accounted_def)
    then show ?thesis using s1(1-3) by (simp add: spool_ready_def)
  qed
  show ?thesis
  proof (cases "i \<in> ag_spooled a")
    case True
    then show ?thesis using spooled [of a] sp(1) by (simp add: deliver_def)
  next
    case False
    show ?thesis
    proof (cases "ae_net E (ag_sends a)")
      case True
      then show ?thesis using False sp l
        by (auto simp: deliver_def send_up_def spool_ready_def accounted_def)
    next
      case off: False
      then show ?thesis using False sp(1) spooled by (simp add: deliver_def send_up_def)
    qed
  qed
qed

lemma deliver_all_accounts:
  "spool_ready E a \<Longrightarrow> accounted E i up0 us a \<Longrightarrow> list_all (env_ok (ae_codec E) \<circ> snd) xs \<Longrightarrow>
   \<exists>a1. deliver_all E i xs a = Some a1 \<and> spool_ready E a1 \<and> accounted E i up0 (us @ map snd xs) a1"
proof (induction xs arbitrary: us a)
  case (Cons x xs)
  from deliver_step [OF Cons.prems(1,2), of "snd x" "fst x"] Cons.prems(3) obtain a1 where
    "deliver E (fst x) i (snd x) a = Some a1" "spool_ready E a1" "accounted E i up0 (us @ [snd x]) a1" by auto
  with Cons.IH [of a1 "us @ [snd x]"] Cons.prems(3) show ?case by simp
qed simp

section \<open>What the agent does with an envelope\<close>

definition authorised :: "'w agent_env \<Rightarrow> Guard \<Rightarrow> work \<Rightarrow> bool" where
  "authorised E g w =
     (case w of
        WFile p \<Rightarrow> f_Decision p = None \<or> fst (RecheckFile (ae_rx E) (ae_verify E) g (checked_part p))
      | WPkg p \<Rightarrow> p_Decision p = None \<or> fst (RecheckPkg (ae_rx E) (ae_verify E) g p)
      | WTask tr \<Rightarrow> fst (RecheckTask (ae_rx E) (ae_verify E) g tr)
      | _ \<Rightarrow> True)"

lemma send_only_fields [simp]:
  "ag_world (send_only E u a) = ag_world a" "ag_disk (send_only E u a) = ag_disk a"
  "ag_cmds (send_only E u a) = ag_cmds a" "ag_work (send_only E u a) = ag_work a"
  "ag_sessions (send_only E u a) = ag_sessions a" "ag_guard (send_only E u a) = ag_guard a"
  "ag_updating (send_only E u a) = ag_updating a" "ag_fileRoot (send_only E u a) = ag_fileRoot a"
  "ag_policy (send_only E u a) = ag_policy a" "ag_spool (send_only E u a) = ag_spool a"
  "ag_spooled (send_only E u a) = ag_spooled a" "ag_active (send_only E u a) = ag_active a"
  by (simp_all add: send_only_def send_up_def)

lemma session_procs:
  "mg_procs (snd (Input_session io sid data m)) = mg_procs m"
  "mg_procs (snd (Resize_session io sid cols rows m)) = mg_procs m"
  "mg_procs (snd (Close_session sid m)) = mg_procs m"
  by (auto simp: Input_session_def session_input_def Resize_session_def Close_session_def upd_obj_def Let_def
      split: option.splits)

lemma cancel_run_fields:
  "ag_world (cancel_run r a) = ag_world a" "ag_disk (cancel_run r a) = ag_disk a"
  "length (ag_cmds (cancel_run r a)) = length (ag_cmds a)" "ag_work (cancel_run r a) = ag_work a"
  "ag_sessions (cancel_run r a) = ag_sessions a"
  by (simp_all add: cancel_run_def split: option.splits)

lemmas down_defs = start_command_def start_work_def open_down_def bundle_down_def cert_down_def Let_def

text \<open>
  C34: Nothing starts that the guardrail refuses.  Whatever envelope comes down, in whatever state of the
  agent, handling it runs nothing on the host by itself; a command it starts is the envelope's and
  passed the re-check under the bundle held at that moment; a task run, and a file or package
  operation that carries a decision, likewise; and a terminal's process is started only for a session
  whose command passed it.
\<close>
theorem work_is_authorised:
  assumes "handleDown E t io pio i d a = (revoked, a')"
  shows "ag_world a' = ag_world a \<and> ag_disk a' = ag_disk a \<and>
    (\<forall>c \<in> set (drop (length (ag_cmds a)) (ag_cmds a')).
       d = DCommand (cr_cmd c) \<and> fst (Recheck (ae_rx E) (ae_verify E) (ag_guard a) (cr_cmd c))) \<and>
    (\<exists>ws. ag_work a' = ag_work a @ ws \<and> list_all (authorised E (ag_guard a)) ws) \<and>
    (mg_procs (ag_sessions a') \<noteq> mg_procs (ag_sessions a) \<longrightarrow>
       (\<exists>so. d = DSessionOpen so \<and> fst (Recheck (ae_rx E) (ae_verify E) (ag_guard a) (session_command so))))"
proof -
  have a': "a' = snd (handleDown E t io pio i d a)" using assms by simp
  show ?thesis unfolding a'
    by (cases d)
      (auto simp: handleDown_def down_defs authorised_def cancel_run_fields session_procs
        split: option.splits prod.splits bool.splits if_splits)
qed


section \<open>The bundle on disk\<close>

lemma split_line_end [simp]: "split_lines_from [] [] = []"
  by simp

lemma parse_received_meta:
  assumes "CHR 0x0A \<notin> set (b_ContentHash b)"
  shows "parseMeta (received_meta t b) = (b_Version b, b_ContentHash b)"
proof -
  obtain l1 where l1_def: "l1 = ''version='' @ show_nat (unat (b_Version b))" by blast
  obtain l2 where l2_def: "l2 = ''content_hash='' @ b_ContentHash b" by blast
  obtain l3 where l3_def: "l3 = ''received_unix='' @ show_int (unix t)" by blast
  have digits: "CHR 0x0A \<notin> set (show_nat n)" for n using is_dec_show_nat is_dec_plain by blast
  then have nl: "CHR 0x0A \<notin> set l1" "CHR 0x0A \<notin> set l2" "CHR 0x0A \<notin> set l3"
    using assms by (simp_all add: l1_def l2_def l3_def show_int_def)
  have m: "received_meta t b = l1 @ CHR 0x0A # (l2 @ CHR 0x0A # (l3 @ CHR 0x0A # []))"
    by (simp add: received_meta_def meta_text_def l1_def l2_def l3_def)
  have lines: "splitLines (received_meta t b) = [l1, l2, l3]"
    unfolding splitLines_def m split_lines_append [OF nl(1)] split_lines_append [OF nl(2)] split_lines_append [OF nl(3)]
    by simp
  have p: "prefix_of l1 ''version='' = (show_nat (unat (b_Version b)), True)"
    "prefix_of l2 ''content_hash='' = (b_ContentHash b, True)"
    by (simp_all add: prefix_of_def l1_def l2_def)
  have other: "\<exists>x. prefix_of l k = (x, False)" if "take (length k) l \<noteq> k" for l k :: string
    using that by (simp add: prefix_of_def)
  obtain x where x: "prefix_of l1 ''content_hash='' = (x, False)" using other [of "''content_hash=''" l1] by (auto simp: l1_def)
  obtain y where y: "prefix_of l2 ''version='' = (y, False)" using other [of "''version=''" l2] by (auto simp: l2_def)
  obtain z where z: "prefix_of l3 ''content_hash='' = (z, False)" using other [of "''content_hash=''" l3] by (auto simp: l3_def)
  obtain u where u: "prefix_of l3 ''version='' = (u, False)" using other [of "''version=''" l3] by (auto simp: l3_def)
  note q = x y z u
  show ?thesis by (simp add: parseMeta_def lines p q scan_uint64_show Let_def)
qed

lemma bundle_down_guard:
  "ag_guard (bundle_down E t b a) = fst (OnBundle (ae_marshal E) (ae_unmarshal E) (ae_b64dec E) b (ag_guard a) (ag_policy a))"
  "ag_policy (bundle_down E t b a) =
     savePolicy t b (snd (OnBundle (ae_marshal E) (ae_unmarshal E) (ae_b64dec E) b (ag_guard a) (ag_policy a)))"
  by (auto simp: bundle_down_def start_work_def Let_def split: prod.splits)

text \<open>
  A bundle that is received holds after a restart: the guard a new process loads from the policy
  directory has the version, the content hash and the rules the running guard has.  Asked of the JSON
  text: it decodes to the same rules whatever it is decoded over, and the hash is one line.
\<close>
theorem bundle_survives_restart:
  assumes "\<And>old. ae_unmarshal E old (b_RulesJson b) = (rs, True)" "b_RulesJson b \<noteq> []"
    and "CHR 0x0A \<notin> set (b_ContentHash b)"
    and a': "a' = snd (handleDown E t io pio i (DPolicyBundle b) a)"
  shows "\<exists>g. Load (ae_unmarshal E) (ag_policy a') (NewGuard j) = (g, True) \<and> loaded g \<and>
    version g = version (ag_guard a') \<and> contentHash g = contentHash (ag_guard a') \<and> rules g = rules (ag_guard a') \<and>
    rules g = rs"
proof -
  have "version (ag_guard a') = b_Version b" "contentHash (ag_guard a') = b_ContentHash b" "rules (ag_guard a') = rs"
    using assms(1,2) by (simp_all add: a' handleDown_def bundle_down_guard OnBundle_def Let_def split: option.split)
  moreover have "policy_json (ag_policy a') = Some (b_RulesJson b)" "policy_meta (ag_policy a') = Some (received_meta t b)"
    by (simp_all add: a' handleDown_def bundle_down_guard savePolicy_def)
  ultimately show ?thesis
    using assms(1) parse_received_meta [OF assms(3), of t]
    by (auto simp: Load_def NewGuard_def Let_def split: option.splits)
qed

text \<open>
  C35: A bundle that does not decode takes the host out at the next restart.  The running guard keeps its
  rules under the new version, but `savePolicy` has replaced the good bundle on disk by the bad one: a new
  process loads nothing from it, and its guard refuses every command until another bundle arrives.
\<close>
theorem bad_bundle_blocks_restart:
  assumes "ae_unmarshal E (rules (ag_guard a)) (b_RulesJson b) = (rules (ag_guard a), False)"
    and "ae_unmarshal E [] (b_RulesJson b) = ([], False)" "b_RulesJson b \<noteq> []"
    and "Load (ae_unmarshal E) (ag_policy a) (NewGuard j) = (g0, True)" "loaded g0"
    and a': "a' = snd (handleDown E t io pio i (DPolicyBundle b) a)"
  shows "rules (ag_guard a') = rules (ag_guard a) \<and> loaded (ag_guard a') = loaded (ag_guard a) \<and>
    version (ag_guard a') = b_Version b \<and>
    Load (ae_unmarshal E) (ag_policy a') (NewGuard j) = (NewGuard j, False) \<and>
    (\<forall>cmd. \<not> fst (Recheck (ae_rx E) (ae_verify E) (fst (Load (ae_unmarshal E) (ag_policy a') (NewGuard j))) cmd))"
proof -
  note bad = OnBundle_bad_rules [where unmarshal = "ae_unmarshal E" and g = "ag_guard a" and b = b, OF assms(3,1)]
  have g: "ag_guard a' = (ag_guard a)\<lparr>version := b_Version b, contentHash := b_ContentHash b\<rparr>"
    by (simp add: a' handleDown_def bundle_down_guard bad)
  have "policy_json (ag_policy a') = Some (b_RulesJson b)"
    by (simp add: a' handleDown_def bundle_down_guard savePolicy_def)
  then have l: "Load (ae_unmarshal E) (ag_policy a') (NewGuard j) = (NewGuard j, False)"
    using assms(2) by (simp add: Load_def)
  have "\<not> fst (Recheck (ae_rx E) (ae_verify E) (NewGuard j) cmd)" for cmd
    by (auto simp: Recheck_def check_decision_def NewGuard_def split: option.splits)
  with g l show ?thesis by simp
qed

text \<open>
  Rules are decoded over the slice of the old rules, element by element, and a rule without an
  end-of-support condition has no such field in its JSON.  Where the decoder leaves a field that is
  absent as it was, the rule keeps the condition of the rule that was at its place.
\<close>

definition decoded_over :: "Rule list \<Rightarrow> Rule list \<Rightarrow> Rule list" where
  "decoded_over old new = map (\<lambda>(k, r).
     if k < length old \<and> m_EOL (r_Match r) = [] then r\<lparr>r_Match := (r_Match r)\<lparr>m_EOL := m_EOL (r_Match (old ! k))\<rparr>\<rparr> else r)
     (enumerate 0 new)"

lemma stale_eol_condition:
  assumes "ae_unmarshal E (rules (ag_guard a)) (b_RulesJson b) = (decoded_over (rules (ag_guard a)) new, True)"
    and "b_RulesJson b \<noteq> []" "k < length new" "k < length (rules (ag_guard a))" "m_EOL (r_Match (new ! k)) = []"
  shows "m_EOL (r_Match (rules (ag_guard (snd (handleDown E t io pio i (DPolicyBundle b) a))) ! k)) =
    m_EOL (r_Match (rules (ag_guard a) ! k))"
  using assms by (simp add: handleDown_def bundle_down_guard OnBundle_def Let_def decoded_over_def nth_enumerate_eq
      split: option.split)

section \<open>What reaches the server\<close>


text \<open>
  The result of a task run does not survive a dropped stream.  When the send fails, the agent forgets
  the result: nothing went up and the spool is as it was, although the run was executed; the result of a
  command goes to the spool in the same situation.
\<close>
theorem task_result_lost:
  assumes "\<not> ae_net E (ag_sends a)" "spool_ready E a"
  shows "ag_up (execTaskRun E t tr a) = ag_up a \<and> ag_spool (execTaskRun E t tr a) = ag_spool a \<and>
    (\<forall>i u. env_ok (ae_codec E) u \<longrightarrow>
       (\<exists>sp s' p. ag_spool a = Some sp \<and> Append (ae_codec E) t i u sp = Some (True, s') \<and>
          deliver E t i u a = Some (a\<lparr>ag_sends := p, ag_spooled := insert i (ag_spooled a), ag_spool := Some s'\<rparr>)))"
proof -
  obtain sp where sp: "ag_spool a = Some sp" "spool_inv (ae_codec E) sp" "\<not> sp_closed sp"
    using assms(2) by (auto simp: spool_ready_def)
  have "ag_up (execTaskRun E t tr a) = ag_up a \<and> ag_spool (execTaskRun E t tr a) = ag_spool a"
    using assms(1) by (simp add: execTaskRun_def send_only_def send_up_def split: prod.split)
  moreover have "\<exists>s' p. Append (ae_codec E) t i u sp = Some (True, s') \<and>
      deliver E t i u a = Some (a\<lparr>ag_sends := p, ag_spooled := insert i (ag_spooled a), ag_spool := Some s'\<rparr>)"
    if "env_ok (ae_codec E) u" for i u
  proof -
    from Append_run [OF sp(2,3) that, of t i] obtain s' where s': "Append (ae_codec E) t i u sp = Some (True, s')" by blast
    show ?thesis
    proof (cases "i \<in> ag_spooled a")
      case True
      then show ?thesis using s' sp(1)
        by (intro exI [of _ s'] exI [of _ "ag_sends a"]) (simp add: deliver_def spool_record_of_def insert_absorb)
    next
      case False
      then show ?thesis using s' sp(1) assms(1)
        by (intro exI [of _ s'] exI [of _ "Suc (ag_sends a)"]) (simp add: deliver_def spool_record_of_def send_up_def)
    qed
  qed
  ultimately show ?thesis using sp(1) by blast
qed

text \<open>
  An elevation push whose policy is applied reports success even when the agent then cannot load the
  policy back; the agent is left without one, and in sudo mode everything goes through sudo.
\<close>
lemma push_succeeds_without_policy:
  assumes "push_checks E (ag_guard a) push = None" "ae_net E (ag_sends a)"
    and "ae_pipe E (Wrap (ag_runner a) (apply_bin E (ag_world a)) [''ctl'', ''elevation'', ''apply'', ''-''])
      (ae_bundle_json E (push_bundle push)) (ag_world a) = ((None, out), w1)"
    and "Load_elevation (ae_rules_json E) (elev_stat E (h_fs (ae_host E) w1)) (read_file (h_fs (ae_host E) w1))
      (ae_policyPath E) = Inl err"
  shows "ag_up (applyElevationPush E push a) = ag_up a @ [UpPushResult (ep_PushId push) True (PushApplied (ep_PolicyName push))]"
    and "ag_elevation (applyElevationPush E push a) = None"
    and "pr_Mode (ag_runner a) = ModeSudo \<Longrightarrow> Elevates (ag_runner (applyElevationPush E push a)) name args"
  using assms by (simp_all add: applyElevationPush_def refreshElevation_def send_only_def send_up_def Let_def Elevates_def)

text \<open>A rotated leaf that is installed can be used: it chains to the CA, is the agent's, and fits the key held.\<close>

lemma RotateLeaf_usable:
  assumes "RotateLeaf E io leafPEM ca c = (err, c')"
  shows "err = None \<Longrightarrow> \<exists>leaf key. ae_parseCert E leafPEM = Some leaf \<and> ae_chains E leafPEM ca \<and> lc_ecdsa leaf = Some key \<and>
      held_key E c = Some key \<and> tc_cert c' = Some (leafPEM, key) \<and>
      (ae_uuid E \<in> set (lc_DNSNames leaf) \<or> lc_CommonName leaf = ae_uuid E)"
    and "err \<noteq> None \<Longrightarrow> c' = c"
  using assms by (auto simp: RotateLeaf_def VerifyAgentLeaf_def bind_eq_Some_conv split: option.splits if_splits)

text \<open>The backoff doubles up to the cap with every end of a stream and never goes back.\<close>

lemma backoff_after_eq: "backoff_after n = min backoffCap (backoffBase * 2 ^ n)"
  by (induction n) (auto simp: next_backoff_def backoffBase_def backoffCap_def Let_def min_def)

section \<open>Reachable agents\<close>

definition do_work :: "'w agent_env \<Rightarrow> int \<Rightarrow> string \<Rightarrow> work \<Rightarrow> 'w agent \<Rightarrow> 'w agent" where
  "do_work E t rnd w a =
     (case w of
        WFile p \<Rightarrow> do_file E rnd p a
      | WPkg p \<Rightarrow> do_pkg E p a
      | WTask tr \<Rightarrow> execTaskRun E t tr a
      | WUpdate dir \<Rightarrow> do_update E dir a
      | WPush push \<Rightarrow> applyElevationPush E push a
      | WResume \<Rightarrow> do_resume E t a)"

text \<open>The callbacks of the session manager send what a terminal wrote and how it ended.\<close>

definition terminal_output :: "'w agent_env \<Rightarrow> nat \<Rightarrow> string \<Rightarrow> 'w agent \<Rightarrow> 'w agent" where
  "terminal_output E k data a =
     send_only E (UpSessionData (px_ID (mg_objs (ag_sessions a) ! k)) data) (a\<lparr>ag_sessions := read_chunk k data (ag_sessions a)\<rparr>)"

definition terminal_end :: "'w agent_env \<Rightarrow> nat \<Rightarrow> wait_result \<Rightarrow> 'w agent \<Rightarrow> 'w agent" where
  "terminal_end E k w a =
     (let m1 = read_end k w (ag_sessions a);
          a1 = a\<lparr>ag_sessions := m1\<rparr>
      in fold (\<lambda>x. send_only E (UpSessionResult (sx_ID x) (sx_exit x) (sx_state x) None))
           (drop (length (mg_results (ag_sessions a))) (mg_results m1)) a1)"

inductive agent_reach :: "'w agent_env \<Rightarrow> 'w agent \<Rightarrow> bool" for E where
  begins: "ag_cmds a = [] \<Longrightarrow> ag_active a = Map.empty \<Longrightarrow> ag_work a = [] \<Longrightarrow> ag_sessions a = New_sessions \<Longrightarrow>
    \<not> ag_updating a \<Longrightarrow> agent_reach E a"
| downs: "agent_reach E a \<Longrightarrow> agent_reach E (snd (handleDown E t io pio i d a))"
| works: "agent_reach E a \<Longrightarrow> j < length (ag_work a) \<Longrightarrow>
    agent_reach E (do_work E t rnd (ag_work a ! j) (a\<lparr>ag_work := take j (ag_work a) @ drop (Suc j) (ag_work a)\<rparr>))"
| outputs: "agent_reach E a \<Longrightarrow> k < length (ag_cmds a) \<Longrightarrow> \<not> cr_over (ag_cmds a ! k) \<Longrightarrow>
    command_output E t k strm data a = Some a' \<Longrightarrow> agent_reach E a'"
| over: "agent_reach E a \<Longrightarrow> k < length (ag_cmds a) \<Longrightarrow> \<not> cr_over (ag_cmds a ! k) \<Longrightarrow>
    command_end E t k r elev a = Some a' \<Longrightarrow> agent_reach E a'"
| writes: "agent_reach E a \<Longrightarrow> running k (ag_sessions a) \<Longrightarrow> agent_reach E (terminal_output E k data a)"
| exits: "agent_reach E a \<Longrightarrow> running k (ag_sessions a) \<Longrightarrow> agent_reach E (terminal_end E k w a)"
| drops: "agent_reach E a \<Longrightarrow> agent_reach E (stream_ends a)"
| drains: "agent_reach E a \<Longrightarrow> drainSpool E t a = Some a' \<Longrightarrow> agent_reach E a'"

definition is_update :: "work \<Rightarrow> bool" where
  "is_update w \<longleftrightarrow> (case w of WUpdate d \<Rightarrow> True | _ \<Rightarrow> False)"

definition updates :: "'w agent \<Rightarrow> nat" where
  "updates a = length (filter is_update (ag_work a))"

definition agent_ok :: "'w agent \<Rightarrow> bool" where
  "agent_ok a \<longleftrightarrow>
     updates a \<le> (if ag_updating a then 1 else 0) \<and>
     (\<forall>i k. ag_active a i = Some k \<longrightarrow> k < length (ag_cmds a) \<and> c_RunId (cr_cmd (ag_cmds a ! k)) = i \<and>
        \<not> cr_cancelled (ag_cmds a ! k) \<and> \<not> cr_over (ag_cmds a ! k)) \<and>
     mgr_reach (ag_sessions a)"

text \<open>The part of the state that says what runs.\<close>

definition same_control :: "'w agent \<Rightarrow> 'w agent \<Rightarrow> bool" where
  "same_control a a' \<longleftrightarrow> ag_cmds a' = ag_cmds a \<and> ag_active a' = ag_active a \<and> ag_work a' = ag_work a \<and>
     ag_sessions a' = ag_sessions a \<and> ag_updating a' = ag_updating a"

lemma same_control_ok: "same_control a a' \<Longrightarrow> agent_ok a \<Longrightarrow> agent_ok a'"
  by (simp add: same_control_def agent_ok_def updates_def)

lemma same_control_send [simp]: "same_control a (send_only E u b) \<longleftrightarrow> same_control a b"
  by (simp add: same_control_def send_only_def send_up_def)

lemma same_control_sends [simp]: "same_control a (fold (\<lambda>r. send_only E (f r)) xs b) \<longleftrightarrow> same_control a b"
  by (induction xs arbitrary: b) simp_all

lemma do_work_control:
  assumes "\<not> is_update w"
  shows "same_control a (do_work E t rnd w a)"
  using assms
  by (cases w) (simp_all add: do_work_def do_file_def do_pkg_def execTaskRun_def applyElevationPush_def refreshElevation_def
      do_resume_def is_update_def Let_def split: prod.split option.split sum.split, simp_all add: same_control_def)

lemma deliver_control: "deliver E t i u a = Some a' \<Longrightarrow> same_control a a'"
  by (auto simp: deliver_def spool_record_of_def send_up_def same_control_def split: option.splits if_splits prod.splits bool.splits)

lemma drainSpool_control: "drainSpool E t a = Some a' \<Longrightarrow> same_control a a'"
  by (auto simp: drainSpool_def same_control_def split: option.splits if_splits)

lemma start_command_ok: "agent_ok a \<Longrightarrow> agent_ok (start_command cmd a)"
  by (fastforce simp: agent_ok_def start_command_def updates_def nth_append)

lemma cancel_run_ok: "agent_ok a \<Longrightarrow> agent_ok (cancel_run r a)"
  by (cases "ag_active a r") (auto simp: agent_ok_def cancel_run_def updates_def nth_list_update)

lemma start_work_ok: "agent_ok a \<Longrightarrow> \<not> is_update w \<Longrightarrow> agent_ok (start_work w a)"
  by (simp add: agent_ok_def start_work_def updates_def)

lemma sessions_ok: "agent_ok a \<Longrightarrow> mgr_reach m \<Longrightarrow> agent_ok (a\<lparr>ag_sessions := m\<rparr>)"
  by (simp add: agent_ok_def updates_def)

lemma agent_ok_send [simp]: "agent_ok (send_only E u a) \<longleftrightarrow> agent_ok a"
  by (simp add: agent_ok_def updates_def send_only_def send_up_def)

lemma agent_ok_sends [simp]: "agent_ok (fold (\<lambda>r. send_only E (f r)) xs b) \<longleftrightarrow> agent_ok b"
  by (induction xs arbitrary: b) simp_all

lemma agent_ok_fields [simp]:
  "agent_ok (a\<lparr>ag_jobs := x\<rparr>) \<longleftrightarrow> agent_ok a" "agent_ok (a\<lparr>ag_secrets := y\<rparr>) \<longleftrightarrow> agent_ok a"
  "agent_ok (a\<lparr>ag_tls := z\<rparr>) \<longleftrightarrow> agent_ok a" "agent_ok (a\<lparr>ag_guard := g, ag_policy := fs\<rparr>) \<longleftrightarrow> agent_ok a"
  by (simp_all add: agent_ok_def updates_def)

lemma open_down_ok: "agent_ok a \<Longrightarrow> agent_ok (open_down E so a)"
proof -
  assume ok: "agent_ok a"
  obtain err m where o: "Open_session (ag_runner a) (ae_getenv E) (ae_pty E) (so_SessionId so) (so_Cmd so) (so_Args so) (so_Env so)
      (so_Cols so) (so_Rows so) (ag_sessions a) = (err, m)" by fastforce
  have "mgr_reach m" using mgr_reach.opens [of "ag_sessions a"] ok o by (metis agent_ok_def snd_conv)
  then show ?thesis using ok o
    by (simp add: open_down_def sessions_ok split: prod.split bool.split option.split)
qed

lemma handleDown_ok:
  assumes "agent_ok a"
  shows "agent_ok (snd (handleDown E t io pio i d a))"
proof -
  have m: "mgr_reach (ag_sessions a)" using assms by (simp add: agent_ok_def)
  have upd: "agent_ok (a\<lparr>ag_updating := True, ag_work := ag_work a @ [WUpdate x]\<rparr>)" if "\<not> ag_updating a" for x
    using assms that by (simp add: agent_ok_def updates_def is_update_def)
  show ?thesis
  proof (cases d)
    case (DUpdate dir)
    have "agent_ok (start_work (WUpdate dir) (send_only E (UpAck i True (AckText [])) a\<lparr>ag_updating := True\<rparr>))" if "\<not> ag_updating a"
      using assms that by (simp add: agent_ok_def updates_def is_update_def start_work_def send_only_def send_up_def)
    then show ?thesis using assms DUpdate by (simp add: handleDown_def Let_def)
  qed (use assms m in \<open>simp_all add: handleDown_def bundle_down_def cert_down_def Let_def start_command_ok cancel_run_ok
      start_work_ok open_down_ok sessions_ok mgr_reach.input mgr_reach.resize mgr_reach.closes is_update_def
      split: prod.split bool.split option.split\<close>)
qed

lemma work_ok:
  assumes "agent_ok a" "j < length (ag_work a)"
  shows "agent_ok (do_work E t rnd (ag_work a ! j) (a\<lparr>ag_work := take j (ag_work a) @ drop (Suc j) (ag_work a)\<rparr>))"
proof -
  let ?b = "a\<lparr>ag_work := take j (ag_work a) @ drop (Suc j) (ag_work a)\<rparr>"
  have split: "ag_work a = take j (ag_work a) @ ag_work a ! j # drop (Suc j) (ag_work a)"
    using assms(2) by (rule id_take_nth_drop)
  have n: "updates a = updates ?b + (if is_update (ag_work a ! j) then 1 else 0)"
    unfolding updates_def by (subst split) simp
  show ?thesis
  proof (cases "is_update (ag_work a ! j)")
    case False
    have "agent_ok ?b" using assms(1) n False by (simp add: agent_ok_def)
    then show ?thesis using same_control_ok [OF do_work_control [OF False]] by blast
  next
    case True
    then obtain dir where dir: "ag_work a ! j = WUpdate dir" by (auto simp: is_update_def split: work.splits)
    have "updates ?b = 0" using assms(1) n True by (simp add: agent_ok_def split: if_splits)
    then show ?thesis using assms(1)
      by (simp add: dir do_work_def do_update_def agent_ok_def updates_def split: prod.split)
  qed
qed

lemma command_output_ok:
  assumes "agent_ok a" "k < length (ag_cmds a)" "command_output E t k strm data a = Some a'"
  shows "agent_ok a'"
proof -
  have "agent_ok (a\<lparr>ag_cmds := (ag_cmds a)[k := (ag_cmds a ! k)\<lparr>cr_seq := Suc (cr_seq (ag_cmds a ! k))\<rparr>]\<rparr>)"
    using assms(1,2) by (auto simp: agent_ok_def updates_def nth_list_update)
  with assms(3) show ?thesis by (auto simp: command_output_def Let_def dest: deliver_control intro: same_control_ok)
qed

lemma command_end_ok:
  assumes "agent_ok a" "k < length (ag_cmds a)" "command_end E t k r elev a = Some a'"
  shows "agent_ok a'"
proof -
  let ?c = "ag_cmds a ! k"
  let ?a1 = "a\<lparr>ag_cmds := (ag_cmds a)[k := ?c\<lparr>cr_over := True\<rparr>], ag_active := (ag_active a)(c_RunId (cr_cmd ?c) := None)\<rparr>"
  have "agent_ok ?a1" using assms(1,2) by (auto simp: agent_ok_def updates_def nth_list_update)
  moreover obtain a2 u where "deliver E t (c_RunId (cr_cmd ?c)) u ?a1 = Some a2" "a' = a2 \<or> drainSpool E t a2 = Some a'"
    using assms(3) by (auto simp: command_end_def Let_def bind_eq_Some_conv split: prod.splits if_splits)
  ultimately show ?thesis by (auto dest: deliver_control drainSpool_control intro: same_control_ok)
qed

lemma agent_reach_ok: "agent_reach E a \<Longrightarrow> agent_ok a"
proof (induction rule: agent_reach.induct)
  case (begins a)
  then show ?case by (simp add: agent_ok_def updates_def mgr_reach.start)
next
  case (writes a k data)
  then show ?case by (simp add: terminal_output_def sessions_ok mgr_reach.chunk agent_ok_def [of a])
next
  case (exits a k w)
  then have "agent_ok (a\<lparr>ag_sessions := read_end k w (ag_sessions a)\<rparr>)"
    by (simp add: sessions_ok mgr_reach.ends agent_ok_def [of a])
  then show ?case by (simp add: terminal_end_def Let_def)
next
  case (drops a)
  then show ?case by (simp add: stream_ends_def sessions_ok mgr_reach.killed agent_ok_def [of a])
qed (auto intro: handleDown_ok work_ok command_output_ok command_end_ok same_control_ok drainSpool_control)

text \<open>
  C38: The agent keeps track of what runs.  In every reachable state, whatever came down, whatever work,
  output and terminals did, and however often the stream dropped: at most one self update is under way,
  and only while the update slot is taken; every run that a cancel can name is a started command of that
  id that is neither cancelled nor over; and the terminals are in a state the session manager can reach.
\<close>
theorem agent_consistent:
  assumes "agent_reach E a"
  shows "updates a \<le> 1 \<and> (updates a = 1 \<longrightarrow> ag_updating a) \<and>
    (\<forall>i k. ag_active a i = Some k \<longrightarrow> k < length (ag_cmds a) \<and> c_RunId (cr_cmd (ag_cmds a ! k)) = i \<and>
       \<not> cr_cancelled (ag_cmds a ! k) \<and> \<not> cr_over (ag_cmds a ! k)) \<and>
    mgr_reach (ag_sessions a)"
  using agent_reach_ok [OF assms] by (auto simp: agent_ok_def split: if_splits)

section \<open>An agent on a small host\<close>

text \<open>The first send of this agent succeeds, no other does; its messages have one encoding.\<close>

definition one_message :: up_msg where
  "one_message = UpOutput ''r1'' 0 ''stdout'' ''hi''"

definition env1 :: "(filesys \<times> nat) agent_env" where
  "env1 = \<lparr>ae_host = counting_host, ae_rx = (\<lambda>_. None), ae_verify = (\<lambda>_ _ _. True), ae_b64enc = id, ae_b64dec = Some,
     ae_marshal = (\<lambda>_. ''[]''), ae_unmarshal = (\<lambda>old js. if js = ''['' then (old, False) else ([deny_rm], True)), ae_cron = any_cron,
     ae_crypto = plain_crypto, ae_getenv = (\<lambda>_. []), ae_pty = (\<lambda>_ _. None), ae_net = (\<lambda>n. n = 0),
     ae_codec = \<lparr>Marshal = (\<lambda>_. ''m''), Unmarshal = (\<lambda>_. Some one_message), IsResult = (\<lambda>_. False)\<rparr>,
     ae_sha = id, ae_names = (\<lambda>_ _. []), ae_fsCfg = \<lparr>MaxTransfer = 0, MaxChunk = 0, MaxListEntries = 0, MaxEditSize = 0\<rparr>,
     ae_patterns = \<lparr>px_inst = (\<lambda>_. []), px_inst_brk = (\<lambda>_. []), px_dnf = (\<lambda>_. [])\<rparr>, ae_update = lib1, ae_faults = all_fine,
     ae_updcfg = cfg1, ae_rules_json = (\<lambda>_. None), ae_policyHash = (\<lambda>_. []), ae_policyPath = [], ae_bundle_json = (\<lambda>_. []),
     ae_exe = None, ae_pipe = (\<lambda>_ _ w. ((None, []), w)), ae_uuid = ''ag_1'', ae_parseCert = (\<lambda>_. None),
     ae_chains = (\<lambda>_ _. False), ae_keyPub = (\<lambda>_. None), ae_CA = None, ae_tlsDir = False\<rparr>"

definition agent1 :: "(filesys \<times> nat) agent" where
  "agent1 = \<lparr>ag_guard = guard2 [deny_rm],
     ag_policy = \<lparr>policy_json = Some ''[]'', policy_meta = None, server_pub = None\<rparr>, ag_cmds = [], ag_active = Map.empty,
     ag_work = [], ag_jobs = New_scheduler None, ag_secrets = None, ag_sessions = New_sessions, ag_updating = False,
     ag_disk = Map.empty, ag_elevate = ModeNone, ag_elevation = None, ag_elevErr = None,
     ag_runner = \<lparr>pr_Mode = ModeNone, pr_policy = None\<rparr>, ag_factset = Map.empty, ag_fileRoot = ''/srv'', ag_resume = Some [],
     ag_tls = \<lparr>tc_cert = None, tc_keyPEM = [], tc_caPEM = None, tc_file = None\<rparr>, ag_world = (host_sample, 0),
     ag_spool = Some (Open (ae_codec env1) 100 100 1000 []), ag_spooled = {}, ag_sends = 0, ag_up = []\<rparr>"

lemma agent1_reach: "agent_reach env1 agent1"
  by (rule begins) (simp_all add: agent1_def)

lemma spool1: "spool_inv (ae_codec env1) (Open (ae_codec env1) 100 100 1000 [])"
  "\<not> sp_closed (Open (ae_codec env1) 100 100 1000 [])" "contents (ae_codec env1) (Open (ae_codec env1) 100 100 1000 []) i = []"
  by (simp_all add: Open_def spool_inv_def contents_def snapshotLocked_def)

lemma env_ok1: "env_ok (ae_codec env1) one_message"
  by (simp add: env_ok_def env1_def)

text \<open>A task run the guardrail of this agent accepts is started; nothing else is.\<close>

theorem work_is_authorised_witness:
  "\<exists>a'. handleDown env1 0 True None ''e1'' (DTaskRun \<lparr>tr_RunId = ''run_1'', tr_TaskId = ''t'', tr_TaskVersion = 1,
      tr_Steps = [], tr_Decision = None\<rparr>) agent1 = (False, a') \<and> ag_world a' = ag_world agent1 \<and> ag_work a' = []"
proof -
  let ?d = "DTaskRun \<lparr>tr_RunId = ''run_1'', tr_TaskId = ''t'', tr_TaskVersion = 1, tr_Steps = [], tr_Decision = None\<rparr>"
  obtain r a' where h: "handleDown env1 0 True None ''e1'' ?d agent1 = (r, a')" by fastforce
  from work_is_authorised [OF h] obtain ws where "ag_world a' = ag_world agent1"
    "ag_work a' = ag_work agent1 @ ws" "list_all (authorised env1 (ag_guard agent1)) ws" by blast
  moreover have "ag_work a' = [] \<and> r = False" using h
    by (auto simp: handleDown_def RecheckTask_def check_decision_def agent1_def guard2_def NewGuard_def
        send_only_def send_up_def split: if_splits)
  ultimately show ?thesis using h by blast
qed

definition edit1 :: file_op where
  "edit1 = \<lparr>f_OpId = ''o'', f_Kind = FILE_OP_EDIT_CAS, f_Path = ''a'', f_Decision = None, fo_Offset = 0, fo_TotalSize = 0,
     fo_TempPath = [], fo_Data = ''new'', fo_Mode = [], fo_ExpectedSha256 = [], fo_User = [], fo_Group = []\<rparr>"


definition bundle1 :: pbPolicyBundle where
  "bundle1 = \<lparr>b_Version = 3, b_ContentHash = ''h3'', b_RulesJson = ''[]'', b_ServerPubkey = [], b_HostTags = Map.empty,
     b_HostRoles = [], b_AgentId = [], b_HostEol = []\<rparr>"

theorem bundle_survives_restart_witness:
  "\<exists>g. Load (ae_unmarshal env1) (ag_policy (snd (handleDown env1 0 True None ''e1'' (DPolicyBundle bundle1) agent1)))
     (NewGuard ''ag_1'') = (g, True) \<and> rules g = [deny_rm]"
proof -
  have "ae_unmarshal env1 old (b_RulesJson bundle1) = ([deny_rm], True)" for old by (simp add: env1_def bundle1_def)
  from bundle_survives_restart [where E = env1 and b = bundle1 and rs = "[deny_rm]" and a = agent1 and j = "''ag_1''"
      and t = 0 and io = True and pio = None and i = "''e1''", OF this _ _ refl]
  show ?thesis by (auto simp: bundle1_def)
qed

theorem bad_bundle_blocks_restart_witness:
  "Load (ae_unmarshal env1) (ag_policy (snd (handleDown env1 0 True None ''e1''
     (DPolicyBundle (bundle1\<lparr>b_RulesJson := ''[''\<rparr>)) agent1))) (NewGuard ''ag_1'') = (NewGuard ''ag_1'', False)"
  using bad_bundle_blocks_restart [where E = env1 and b = "bundle1\<lparr>b_RulesJson := ''[''\<rparr>" and a = agent1 and j = "''ag_1''"
      and t = 0 and io = True and pio = None and i = "''e1''" and
      ?g0.0 = "fst (Load (ae_unmarshal env1) (ag_policy agent1) (NewGuard ''ag_1''))", OF _ _ _ _ _ refl]
  by (simp add: env1_def bundle1_def agent1_def Load_def)


theorem task_result_lost_witness:
  "ag_up (execTaskRun env1 0 \<lparr>tr_RunId = ''run_1'', tr_TaskId = ''t'', tr_TaskVersion = 1, tr_Steps = [cmd_step],
     tr_Decision = Some allow_dec\<rparr> (agent1\<lparr>ag_sends := 1\<rparr>)) = []"
proof -
  have "spool_ready env1 (agent1\<lparr>ag_sends := 1\<rparr>)" using spool1 by (simp add: spool_ready_def agent1_def)
  moreover have "\<not> ae_net env1 (ag_sends (agent1\<lparr>ag_sends := 1\<rparr>))" by (simp add: env1_def)
  ultimately show ?thesis
    using task_result_lost [of env1 "agent1\<lparr>ag_sends := 1\<rparr>"] by (simp add: agent1_def)
qed

text \<open>A second update directive is ignored while the first is under way.\<close>

theorem agent_consistent_witness:
  "ag_work (snd (handleDown env1 0 True None ''e2'' (DUpdate directive1)
     (snd (handleDown env1 0 True None ''e1'' (DUpdate directive1) agent1)))) = [WUpdate directive1]"
proof -
  let ?a1 = "snd (handleDown env1 0 True None ''e1'' (DUpdate directive1) agent1)"
  let ?a2 = "snd (handleDown env1 0 True None ''e2'' (DUpdate directive1) ?a1)"
  have "agent_reach env1 ?a2" by (intro downs agent1_reach)
  from agent_consistent [OF this] have "updates ?a2 \<le> 1" by blast
  moreover have w: "ag_work ?a2 = [WUpdate directive1] \<or> ag_work ?a2 = [WUpdate directive1, WUpdate directive1]"
    by (simp add: handleDown_def Let_def start_work_def agent1_def)
  ultimately show ?thesis by (auto simp: updates_def is_update_def)
qed

end
